(* ===== verification/Prelude.thy ===== *)
theory Prelude
  imports Main "HOL-Library.Word" "HOL-Library.Monad_Syntax"
begin

text \<open>
  What every component shares: names for the machine integers of the sources
  (\<^verbatim>\<open>src/src/include/common.h\<close>), the outcome of a kernel routine (it returns, it
  panics, or its loop never ends), and the generic facts on 32-bit words, functions and
  lists on which the component proofs rest.
\<close>

unbundle bit_operations_syntax

section \<open>Machine integers\<close>

type_synonym u8 = "8 word"
type_synonym u16 = "16 word"
type_synonym u32 = "32 word"
type_synonym u64 = "64 word"

text \<open>The model's collections: unfolding of small accessors, and the word facts.\<close>

named_theorems accessors \<open>field accessors and setters of the modelled structs\<close>
named_theorems word_facts \<open>unsigned values of 32-bit expressions that do not wrap\<close>

section \<open>Outcomes of kernel routines\<close>

text \<open>
  \<^verbatim>\<open>panic\<close> and a failed \<^verbatim>\<open>kassert\<close> print a message and halt the machine
  (\<^verbatim>\<open>_panic_func\<close>, \<^verbatim>\<open>_kassert_failed\<close>, both \<^verbatim>\<open>noreturn\<close>). A routine
  therefore has three outcomes: \<open>None\<close>, a loop that never ends or an access C++ leaves undefined; \<open>Some (Inl p)\<close>, the
  machine halted with panic \<open>p\<close>; \<open>Some (Inr x)\<close>, it returned \<open>x\<close>.
\<close>

datatype panic = Panic string | Kassert_failed string

type_synonym 'a exec = "(panic + 'a) option"

definition ret :: "'a \<Rightarrow> 'a exec" where
  "ret x = Some (Inr x)"

definition halt :: "panic \<Rightarrow> 'a exec" where
  "halt p = Some (Inl p)"

definition andThen :: "'a exec \<Rightarrow> ('a \<Rightarrow> 'b exec) \<Rightarrow> 'b exec" where
  "andThen m f = Option.bind m (\<lambda>r. case r of Inl p \<Rightarrow> Some (Inl p) | Inr x \<Rightarrow> f x)"

definition kassert :: "bool \<Rightarrow> string \<Rightarrow> unit exec" where
  "kassert b msg = (if b then ret () else halt (Kassert_failed msg))"

lemma andThen_ret [simp]: "andThen (ret x) f = f x"
  by (simp add: andThen_def ret_def)

lemma andThen_halt [simp]: "andThen (halt p) f = halt p"
  by (simp add: andThen_def halt_def)

lemma andThen_None [simp]: "andThen None f = None"
  by (simp add: andThen_def)

lemma ret_inject [simp]: "ret x = ret y \<longleftrightarrow> x = y"
  by (simp add: ret_def)

lemma halt_inject [simp]: "halt x = halt y \<longleftrightarrow> x = y"
  by (simp add: halt_def)

lemma ret_neq_halt [simp]: "ret x \<noteq> halt p" "halt p \<noteq> ret x" "ret x \<noteq> None" "None \<noteq> ret x"
  "halt p \<noteq> None" "None \<noteq> halt p"
  by (simp_all add: ret_def halt_def)

lemma exec_cases [case_names None Halt Ret]:
  assumes "m = None \<Longrightarrow> P" and "\<And>p. m = halt p \<Longrightarrow> P" and "\<And>x. m = ret x \<Longrightarrow> P"
  shows P
proof (cases m)
  case None
  then show ?thesis by (rule assms(1))
next
  case (Some r)
  then show ?thesis using assms(2,3) by (cases r) (auto simp: ret_def halt_def)
qed

lemma andThen_eq_ret [simp]:
  "andThen m f = ret y \<longleftrightarrow> (\<exists>x. m = ret x \<and> f x = ret y)"
  by (cases m rule: exec_cases) auto

lemma andThen_assoc [simp]: "andThen (andThen m f) g = andThen m (\<lambda>x. andThen (f x) g)"
  by (cases m rule: exec_cases) auto

lemma kassert_simps [simp]: "kassert True msg = ret ()" "kassert False msg = halt (Kassert_failed msg)"
  by (simp_all add: kassert_def)

lemma kassert_eq_ret [simp]: "kassert b msg = ret u \<longleftrightarrow> b"
  by (simp add: kassert_def)

lemma andThen_mono [partial_function_mono]:
  assumes m: "mono_option m" and f: "\<And>x. mono_option (\<lambda>g. f g x)"
  shows "mono_option (\<lambda>g. andThen (m g) (f g))"
  unfolding andThen_def
proof (rule bind_mono [OF m])
  fix r
  show "mono_option (\<lambda>g. case r of Inl p \<Rightarrow> Some (Inl p) | Inr x \<Rightarrow> f g x)"
    by (cases r) (auto intro: f option.const_mono)
qed

section \<open>Counted loops\<close>

text \<open>\<^verbatim>\<open>for (i = a; i < b; i ++)\<close> whose bounds the body does not change.\<close>

primrec foldM :: "('i \<Rightarrow> 's \<Rightarrow> 's exec) \<Rightarrow> 'i list \<Rightarrow> 's \<Rightarrow> 's exec" where
  "foldM f [] s = ret s"
| "foldM f (x # xs) s = andThen (f x s) (foldM f xs)"

lemma foldM_append [simp]: "foldM f (xs @ ys) s = andThen (foldM f xs s) (foldM f ys)"
proof (induction xs arbitrary: s)
  case (Cons x xs)
  then have "foldM f (xs @ ys) = (\<lambda>s. andThen (foldM f xs s) (foldM f ys))" by (rule ext)
  then show ?case by simp
qed simp

lemma foldM_ret [simp]: "foldM (\<lambda>x s. ret (f x s)) xs s = ret (fold f xs s)"
proof (induction xs arbitrary: s)
  case (Cons x xs)
  then have "foldM (\<lambda>x s. ret (f x s)) xs = (\<lambda>s. ret (fold f xs s))" by (rule ext)
  then show ?case by simp
qed simp

lemma foldM_invariant:
  assumes "I s" and "\<And>x s. x \<in> set xs \<Longrightarrow> I s \<Longrightarrow> \<exists>s'. f x s = ret s' \<and> I s'"
  shows "\<exists>s'. foldM f xs s = ret s' \<and> I s'"
  using assms
proof (induction xs arbitrary: s)
  case (Cons x xs)
  then obtain s1 where "f x s = ret s1" "I s1" by (meson list.set_intros(1))
  with Cons show ?case by simp
qed simp

section \<open>Loops over an interval of pages\<close>

text \<open>
  \<^verbatim>\<open>for (uint32_t i = begin; i < end; i += 0x1000)\<close>: the loop variable wraps around at
  the end of the address space.
\<close>

partial_function (option) page_loop :: "(u32 \<Rightarrow> 's \<Rightarrow> 's exec) \<Rightarrow> u32 \<Rightarrow> u32 \<Rightarrow> 's \<Rightarrow> 's exec" where
  "page_loop f i e s =
     (if i < e then andThen (f i s) (\<lambda>s'. page_loop f (i + 0x1000) e s') else ret s)"

lemma page_loop_stop [simp]: "\<not> i < e \<Longrightarrow> page_loop f i e s = ret s"
  by (subst page_loop.simps) simp

lemma page_loop_step: "i < e \<Longrightarrow> page_loop f i e s = andThen (f i s) (page_loop f (i + 0x1000) e)"
  by (subst page_loop.simps) simp

section \<open>Unsigned values of word expressions\<close>

lemma unat_add [word_facts]: "unat (x :: u32) + unat y < 2 ^ 32 \<Longrightarrow> unat (x + y) = unat x + unat y"
  by (simp add: unat_word_ariths)

lemma unat_diff [word_facts]: "unat (y :: u32) \<le> unat x \<Longrightarrow> unat (x - y) = unat x - unat y"
  by (simp add: unat_sub word_le_nat_alt)

lemma unat_of_nat_small [word_facts]: "n < 2 ^ 32 \<Longrightarrow> unat (of_nat n :: u32) = n"
  by (simp add: unat_of_nat)

lemma unat_lt_2_32 [simp]: "unat (x :: u32) < 4294967296"
  using unsigned_less [of x, where 'a = nat] by simp

text \<open>
  An interval of whole pages that does not reach the top of the address space is walked
  page by page.
\<close>

lemma page_loop_invariant:
  assumes "I s" and "unat e + 0x1000 \<le> 2 ^ 32"
    and "\<And>i s. I s \<Longrightarrow> b \<le> i \<Longrightarrow> i < e \<Longrightarrow> \<exists>s'. f i s = ret s' \<and> I s'"
  shows "\<exists>s'. page_loop f b e s = ret s' \<and> I s'"
  using assms
proof (induction "unat e - unat b" arbitrary: b s rule: less_induct)
  case less
  show ?case
  proof (cases "b < e")
    case True
    then obtain s' where s': "f b s = ret s'" "I s'" using less.prems(3) [OF less.prems(1)] by blast
    have b: "unat (b + 0x1000) = unat b + 0x1000"
      using True less.prems(2) by (intro unat_add [where y = "0x1000", simplified]) (simp add: word_less_nat_alt)
    then have "b \<le> b + 0x1000" by (simp add: word_le_nat_alt)
    then have "\<exists>s''. page_loop f (b + 0x1000) e s' = ret s'' \<and> I s''"
      using True b s'(2) less.prems(2,3) by (intro less.hyps) (auto simp: word_less_nat_alt)
    then show ?thesis using True s'(1) by (simp add: page_loop_step)
  next
    case False
    then show ?thesis using less.prems(1) by simp
  qed
qed

end
