(* ===== verification/Rbtree.thy ===== *)
theory Rbtree
  imports Prelude
begin

text \<open>
  The red-black tree template \<^verbatim>\<open>Rbt<Key_t>\<close> of \<^verbatim>\<open>src/src/include/lib/rbtree.h\<close>,
  modelled at the level of its pointers: a store of nodes indexed by address, the shared
  sentinel \<^verbatim>\<open>NIL\<close>, the parent pointer and the colour packed into one word, the
  \<^verbatim>\<open>Node *&\<close> references as slots that can be read and assigned, and every loop of
  the template as a loop over the store. The macros \<^verbatim>\<open>RBT_SIZE\<close> and
  \<^verbatim>\<open>RBT_DEBUG\<close> are not defined by the build, so the nodes have no
  \<^verbatim>\<open>size\<close>; the routines they switch on are in Rbtree\_Check.
\<close>

section \<open>Nodes\<close>

record 'k Node =
  par_and_color :: u32
  ch0 :: u32
  ch1 :: u32
  key :: 'k

text \<open>\<^verbatim>\<open>ch[2]\<close>, indexed by a C++ boolean.\<close>

definition ch :: "'k Node \<Rightarrow> bool \<Rightarrow> u32" where
  "ch n d = (if d then ch1 n else ch0 n)"

definition set_ch :: "bool \<Rightarrow> u32 \<Rightarrow> 'k Node \<Rightarrow> 'k Node" where
  "set_ch d v n = (if d then n\<lparr>ch1 := v\<rparr> else n\<lparr>ch0 := v\<rparr>)"

definition is_red :: "'k Node \<Rightarrow> bool" where
  "is_red n \<longleftrightarrow> \<not> (par_and_color n AND 1 \<noteq> 0)"

definition is_black :: "'k Node \<Rightarrow> bool" where
  "is_black n \<longleftrightarrow> par_and_color n AND 1 \<noteq> 0"

definition set_red :: "'k Node \<Rightarrow> 'k Node" where
  "set_red n = n\<lparr>par_and_color := par_and_color n AND NOT 1\<rparr>"

definition set_black :: "'k Node \<Rightarrow> 'k Node" where
  "set_black n = n\<lparr>par_and_color := par_and_color n OR 1\<rparr>"

definition copy_color :: "'k Node \<Rightarrow> 'k Node \<Rightarrow> 'k Node" where
  "copy_color from n =
     n\<lparr>par_and_color := (par_and_color n AND NOT 1) OR (par_and_color from AND 1)\<rparr>"

definition get_par :: "'k Node \<Rightarrow> u32" where
  "get_par n = par_and_color n AND NOT 1"

definition copy_par :: "'k Node \<Rightarrow> 'k Node \<Rightarrow> 'k Node" where
  "copy_par from n =
     n\<lparr>par_and_color := (par_and_color n AND 1) OR (par_and_color from AND NOT 1)\<rparr>"

definition set_par :: "u32 \<Rightarrow> 'k Node \<Rightarrow> 'k Node" where
  "set_par par n = n\<lparr>par_and_color := (par_and_color n AND 1) OR par\<rparr>"

definition set_key :: "'k \<Rightarrow> 'k Node \<Rightarrow> 'k Node" where
  "set_key k n = n\<lparr>key := k\<rparr>"

text \<open>The allocator must return addresses on even byte boundaries.\<close>

definition even_addr :: "u32 \<Rightarrow> bool" where
  "even_addr a \<longleftrightarrow> a AND 1 = 0"

section \<open>The tree object, its store and references into it\<close>

text \<open>
  \<open>NIL\<close> is the address of \<^verbatim>\<open>NIL_INSTANCE\<close>, which the linker chooses; no operation
  changes it. A \<^verbatim>\<open>Node *&\<close> refers to \<^verbatim>\<open>tree_root\<close> or to a child field of a node.
\<close>

record 'k Rbt =
  NIL :: u32
  tree_root :: u32
  node :: "u32 \<Rightarrow> 'k Node"

datatype slot = Tree_root | Child u32 bool

definition upd :: "u32 \<Rightarrow> ('k Node \<Rightarrow> 'k Node) \<Rightarrow> 'k Rbt \<Rightarrow> 'k Rbt" where
  "upd a f s = s\<lparr>node := (node s)(a := f (node s a))\<rparr>"

fun deref :: "slot \<Rightarrow> 'k Rbt \<Rightarrow> u32" where
  "deref Tree_root s = tree_root s"
| "deref (Child a d) s = ch (node s a) d"

fun assign :: "slot \<Rightarrow> u32 \<Rightarrow> 'k Rbt \<Rightarrow> 'k Rbt" where
  "assign Tree_root v s = s\<lparr>tree_root := v\<rparr>"
| "assign (Child a d) v s = upd a (set_ch d v) s"

definition get_ref :: "u32 \<Rightarrow> 'k Rbt \<Rightarrow> slot" where
  "get_ref n s =
     (if n = tree_root s then Tree_root
      else let p = get_par (node s n) in Child p (ch (node s p) True = n))"

text \<open>The constructor \<^verbatim>\<open>Rbt(alloc, free)\<close>.\<close>

definition Rbt_init :: "'k Rbt \<Rightarrow> 'k Rbt" where
  "Rbt_init s0 =
     (let s = s0\<lparr>tree_root := NIL s0\<rparr>;
          s = upd (NIL s) set_black s;
          s = upd (NIL s) (set_par (NIL s)) s
      in upd (NIL s) (set_ch False (NIL s)) (upd (NIL s) (set_ch True (NIL s)) s))"

section \<open>Operations\<close>

text \<open>
  \<^verbatim>\<open>rotate(Node *&root, int dir)\<close>: the reference is read once, since none of the
  fields written before the last assignment is the referenced one.
\<close>

definition rotate :: "slot \<Rightarrow> bool \<Rightarrow> 'k Rbt \<Rightarrow> 'k Rbt" where
  "rotate rootr dir s0 =
     (let root = deref rootr s0;
          t = ch (node s0 root) (\<not> dir);
          s1 = upd t (copy_par (node s0 root)) s0;
          c = ch (node s1 t) dir;
          s2 = upd root (set_ch (\<not> dir) c) s1;
          s3 = upd c (set_par root) s2;
          s4 = upd t (set_ch dir root) s3;
          s5 = upd root (set_par t) s4
      in assign rootr t s5)"

partial_function (option) insert_descend ::
  "('k \<Rightarrow> 'k \<Rightarrow> bool) \<Rightarrow> 'k \<Rightarrow> 'k Rbt \<Rightarrow> u32 \<Rightarrow> u32 \<Rightarrow> u32 exec" where
  "insert_descend lt val s par cur =
     (if cur = NIL s then ret par
      else insert_descend lt val s cur (ch (node s cur) (lt (key (node s cur)) val)))"

partial_function (option) insert_fixup :: "u32 \<Rightarrow> 'k Rbt \<Rightarrow> 'k Rbt exec" where
  "insert_fixup cur s =
     (let par = get_par (node s cur) in
      if par \<noteq> NIL s \<and> is_red (node s par) then
        (let gpar = get_par (node s par);
             par_dir = (par = ch (node s gpar) False);
             uncle = ch (node s gpar) par_dir
         in if is_red (node s uncle) then
              insert_fixup gpar (upd gpar set_red (upd uncle set_black (upd par set_black s)))
            else
              (let (par1, s1) =
                     (if (cur = ch (node s par) False) \<noteq> par_dir then
                        (let s' = rotate (Child gpar (\<not> par_dir)) (\<not> par_dir) s
                         in (get_par (node s' par), s'))
                      else (par, s));
                   s2 = upd gpar set_red (upd par1 set_black s1)
               in ret (rotate (get_ref gpar s2) par_dir s2)))
      else ret (if par = NIL s then upd cur set_black s else s))"

text \<open>
  \<^verbatim>\<open>insert\<close>: \<open>lt\<close> is the key type's \<^verbatim>\<open>operator <\<close>, \<open>node_alloc\<close> the allocator the
  tree was constructed with, acting on the allocator's state \<open>m\<close>.
\<close>

definition rbt_insert ::
  "('m \<Rightarrow> (u32 \<times> 'm) exec) \<Rightarrow> ('k \<Rightarrow> 'k \<Rightarrow> bool) \<Rightarrow> 'k \<Rightarrow> 'k Rbt \<Rightarrow> 'm \<Rightarrow> ('k Rbt \<times> 'm) exec" where
  "rbt_insert node_alloc lt val s m =
     (if tree_root s = NIL s then
        andThen (node_alloc m) (\<lambda>(r, m').
          ret (upd r (set_key val)
                (upd r (set_ch False (NIL s))
                  (upd r (set_ch True (NIL s))
                    (upd r (set_par (NIL s))
                      (upd r set_black (s\<lparr>tree_root := r\<rparr>))))), m'))
      else
        andThen (insert_descend lt val s (NIL s) (tree_root s)) (\<lambda>par.
        andThen (node_alloc m) (\<lambda>(cur, m').
          let s1 = upd par (set_ch (lt (key (node s par)) val) cur) s;
              s2 = upd cur set_red s1;
              s3 = upd cur (set_ch False (NIL s)) (upd cur (set_ch True (NIL s)) s2);
              s4 = upd cur (set_key val) (upd cur (set_par par) s3)
          in andThen (insert_fixup cur s4) (\<lambda>s5. ret (s5, m')))))"

partial_function (option) remove_fixup :: "u32 \<Rightarrow> 'k Rbt \<Rightarrow> 'k Rbt exec" where
  "remove_fixup n s0 =
     (if n \<noteq> tree_root s0 \<and> is_black (node s0 n) then
        (let p = get_par (node s0 n);
             sib0 = ch (node s0 p) (n = ch (node s0 p) False);
             (sib, s) =
               (if is_red (node s0 sib0) then
                  (let s1 = upd sib0 set_black (upd p set_red s0);
                       d = (sib0 = ch (node s1 p) False);
                       s2 = rotate (get_ref p s1) d s1
                   in (ch (node s2 p) (\<not> d), s2))
                else (sib0, s0))
         in if is_black (node s (ch (node s sib) False)) \<and> is_black (node s (ch (node s sib) True))
            then remove_fixup p (upd sib set_red s)
            else
              (let dir = (n = ch (node s p) True);
                   (sib', s') =
                     (if is_black (node s (ch (node s sib) (\<not> dir))) then
                        (let s1 = upd (ch (node s sib) dir) set_black s;
                             s2 = upd sib set_red s1;
                             s3 = rotate (Child p (sib = ch (node s2 p) True)) (\<not> dir) s2
                         in (ch (node s3 p) (\<not> dir), s3))
                      else (sib, s));
                   s4 = upd sib' (copy_color (node s' p)) s';
                   s5 = upd p set_black s4;
                   s6 = upd (ch (node s5 sib') (\<not> dir)) set_black s5
               in ret (rotate (get_ref p s6) dir s6)))
      else ret (upd n set_black s0))"

definition remove_bottom ::
  "(u32 \<Rightarrow> 'm \<Rightarrow> 'm) \<Rightarrow> slot \<Rightarrow> 'k Rbt \<Rightarrow> 'm \<Rightarrow> ('k Rbt \<times> 'm) exec" where
  "remove_bottom node_free n_ref s m =
     (let n = deref n_ref s;
          c = ch (node s n) (ch (node s n) False = NIL s);
          s1 = upd c (copy_par (node s n)) s;
          s2 = assign n_ref c s1
      in if is_red (node s2 n) then ret (s2, node_free n m)
         else if is_red (node s2 c) then ret (upd c set_black s2, node_free n m)
         else andThen (remove_fixup c s2) (\<lambda>s3. ret (s3, node_free n m)))"

partial_function (option) erase_min :: "'k Rbt \<Rightarrow> u32 \<Rightarrow> u32 \<Rightarrow> u32 exec" where
  "erase_min s prev cur =
     (if cur = NIL s then ret prev else erase_min s cur (ch (node s cur) False))"

definition rbt_erase ::
  "(u32 \<Rightarrow> 'm \<Rightarrow> 'm) \<Rightarrow> u32 \<Rightarrow> 'k Rbt \<Rightarrow> 'm \<Rightarrow> ('k Rbt \<times> 'm) exec" where
  "rbt_erase node_free ptr s m =
     (if ptr = NIL s \<or> ptr = 0 then ret (s, m)
      else andThen (erase_min s (NIL s) (ch (node s ptr) True)) (\<lambda>prev.
        if prev \<noteq> NIL s then
          (let s1 = upd ptr (set_key (key (node s prev))) s
           in remove_bottom node_free (get_ref prev s1) s1 m)
        else remove_bottom node_free (get_ref ptr s) s m))"

partial_function (option) do_find_ge ::
  "('k \<Rightarrow> 'k \<Rightarrow> bool) \<Rightarrow> 'k \<Rightarrow> 'k Rbt \<Rightarrow> u32 \<Rightarrow> u32 \<Rightarrow> u32 exec" where
  "do_find_ge lt val s cur pos =
     (if cur = NIL s then ret pos
      else if lt (key (node s cur)) val then do_find_ge lt val s (ch (node s cur) True) pos
      else do_find_ge lt val s (ch (node s cur) False) cur)"

partial_function (option) do_find_le ::
  "('k \<Rightarrow> 'k \<Rightarrow> bool) \<Rightarrow> 'k \<Rightarrow> 'k Rbt \<Rightarrow> u32 \<Rightarrow> u32 \<Rightarrow> u32 exec" where
  "do_find_le le val s cur pos =
     (if cur = NIL s then ret pos
      else if le (key (node s cur)) val then do_find_le le val s (ch (node s cur) True) cur
      else do_find_le le val s (ch (node s cur) False) pos)"

text \<open>\<^verbatim>\<open>NULL\<close> is address 0.\<close>

definition find_ge :: "('k \<Rightarrow> 'k \<Rightarrow> bool) \<Rightarrow> 'k \<Rightarrow> 'k Rbt \<Rightarrow> u32 exec" where
  "find_ge lt val s =
     andThen (do_find_ge lt val s (tree_root s) (NIL s)) (\<lambda>pos.
       if pos = NIL s then ret 0 else ret pos)"

definition find_le :: "('k \<Rightarrow> 'k \<Rightarrow> bool) \<Rightarrow> 'k \<Rightarrow> 'k Rbt \<Rightarrow> u32 exec" where
  "find_le le val s =
     andThen (do_find_le le val s (tree_root s) (NIL s)) (\<lambda>pos.
       if pos = NIL s then ret 0 else ret pos)"

text \<open>\<^verbatim>\<open>do_walk\<close> and \<^verbatim>\<open>walk\<close>: the callback folds the keys into a state.\<close>

partial_function (option) do_walk :: "('k \<Rightarrow> 'c \<Rightarrow> 'c) \<Rightarrow> 'k Rbt \<Rightarrow> u32 \<Rightarrow> 'c \<Rightarrow> 'c exec" where
  "do_walk callback s root x =
     (if root \<noteq> NIL s then
        andThen (do_walk callback s (ch (node s root) False) x) (\<lambda>x1.
          do_walk callback s (ch (node s root) True) (callback (key (node s root)) x1))
      else ret x)"

definition walk :: "('k \<Rightarrow> 'c \<Rightarrow> 'c) \<Rightarrow> 'k Rbt \<Rightarrow> 'c \<Rightarrow> 'c exec" where
  "walk callback s x = do_walk callback s (tree_root s) x"

partial_function (option) do_clear :: "(u32 \<Rightarrow> 'm \<Rightarrow> 'm) \<Rightarrow> 'k Rbt \<Rightarrow> u32 \<Rightarrow> 'm \<Rightarrow> 'm exec" where
  "do_clear node_free s root m =
     (if root = NIL s then ret m
      else andThen (do_clear node_free s (ch (node s root) False) m) (\<lambda>m1.
           andThen (do_clear node_free s (ch (node s root) True) m1) (\<lambda>m2.
             ret (node_free root m2))))"

definition rbt_clear :: "(u32 \<Rightarrow> 'm \<Rightarrow> 'm) \<Rightarrow> 'k Rbt \<Rightarrow> 'm \<Rightarrow> ('k Rbt \<times> 'm) exec" where
  "rbt_clear node_free s m =
     andThen (do_clear node_free s (tree_root s) m) (\<lambda>m'. ret (s\<lparr>tree_root := NIL s\<rparr>, m'))"

end
