(* ===== verification/Rbtree_Rep.thy ===== *)
theory Rbtree_Rep
  imports Rbtree
begin

text \<open>
  What a store of nodes represents: the tree reachable from \<^verbatim>\<open>tree_root\<close>, with the
  address, colour and key of every node. A position in the tree is a subtree and the path
  above it; the pointer operations of the template (rotation, recolouring, replacing the
  subtree in a slot) are shown to be the corresponding operations at a position, so that
  no later proof looks at the store again.
\<close>

section \<open>Word-level node accessors\<close>

lemma word_and_1_cases: "(w :: u32) AND 1 = 0 \<or> w AND 1 = 1"
  by (simp add: and_one_eq mod_2_eq_odd)

lemma even_addr_get_par [simp]: "even_addr (get_par n)"
  by (simp add: even_addr_def get_par_def and.assoc)

lemma and_not_1_eq:
  assumes "even_addr a"
  shows "a AND NOT 1 = a"
proof -
  have "a = (a AND 1) OR (a AND NOT 1)"
    by (rule bit_eqI) (auto simp: bit_simps)
  with assms show ?thesis by (simp add: even_addr_def)
qed

lemma is_red_iff [accessors]: "is_red n \<longleftrightarrow> \<not> is_black n"
  by (simp add: is_red_def is_black_def)

lemma ch_simps [simp]: "ch n False = ch0 n" "ch n True = ch1 n"
  by (simp_all add: ch_def)

lemma set_ch_fields [simp]:
  "ch0 (set_ch d v n) = (if d then ch0 n else v)" "ch1 (set_ch d v n) = (if d then v else ch1 n)"
  "get_par (set_ch d v n) = get_par n" "is_black (set_ch d v n) = is_black n"
  "key (set_ch d v n) = key n"
  by (simp_all add: set_ch_def get_par_def is_black_def)

lemma set_red_fields [simp]:
  "ch0 (set_red n) = ch0 n" "ch1 (set_red n) = ch1 n" "key (set_red n) = key n"
  "get_par (set_red n) = get_par n" "\<not> is_black (set_red n)"
  by (simp_all add: set_red_def get_par_def is_black_def and.assoc)

lemma set_black_fields [simp]:
  "ch0 (set_black n) = ch0 n" "ch1 (set_black n) = ch1 n" "key (set_black n) = key n"
  "get_par (set_black n) = get_par n" "is_black (set_black n)"
  by (simp_all add: set_black_def get_par_def is_black_def bit.conj_disj_distrib2)

lemma copy_color_fields [simp]:
  "ch0 (copy_color m n) = ch0 n" "ch1 (copy_color m n) = ch1 n" "key (copy_color m n) = key n"
  "get_par (copy_color m n) = get_par n" "is_black (copy_color m n) = is_black m"
  by (simp_all add: copy_color_def get_par_def is_black_def bit.conj_disj_distrib2 and.assoc)

lemma copy_par_fields [simp]:
  "ch0 (copy_par m n) = ch0 n" "ch1 (copy_par m n) = ch1 n" "key (copy_par m n) = key n"
  "get_par (copy_par m n) = get_par m" "is_black (copy_par m n) = is_black n"
  by (simp_all add: copy_par_def get_par_def is_black_def bit.conj_disj_distrib2 and.assoc)

lemma set_par_fields [simp]:
  "ch0 (set_par p n) = ch0 n" "ch1 (set_par p n) = ch1 n" "key (set_par p n) = key n"
  by (simp_all add: set_par_def)

lemma set_par_even [simp]:
  assumes "even_addr p"
  shows "get_par (set_par p n) = p" "is_black (set_par p n) = is_black n"
  using assms and_not_1_eq [OF assms]
  by (simp_all add: set_par_def get_par_def is_black_def even_addr_def bit.conj_disj_distrib2 and.assoc)

lemma set_key_fields [simp]:
  "ch0 (set_key k n) = ch0 n" "ch1 (set_key k n) = ch1 n" "key (set_key k n) = k"
  "get_par (set_key k n) = get_par n" "is_black (set_key k n) = is_black n"
  by (simp_all add: set_key_def get_par_def is_black_def)

lemma upd_fields [simp]:
  "NIL (upd a f s) = NIL s" "tree_root (upd a f s) = tree_root s"
  "node (upd a f s) = (node s)(a := f (node s a))"
  by (simp_all add: upd_def)

lemma assign_fields [simp]:
  "NIL (assign r v s) = NIL s"
  by (cases r) simp_all

section \<open>Trees with addresses\<close>

datatype color = Red | Black

datatype 'k tr = Lf | Nd "'k tr" u32 color 'k "'k tr"

fun root_of :: "u32 \<Rightarrow> 'k tr \<Rightarrow> u32" where
  "root_of nil Lf = nil"
| "root_of nil (Nd l a c k r) = a"

fun entries :: "'k tr \<Rightarrow> (u32 \<times> 'k) list" where
  "entries Lf = []"
| "entries (Nd l a c k r) = entries l @ (a, k) # entries r"

definition addrs :: "'k tr \<Rightarrow> u32 list" where
  "addrs t = map fst (entries t)"

definition keys :: "'k tr \<Rightarrow> 'k list" where
  "keys t = map snd (entries t)"

lemma addrs_simps [simp]: "addrs Lf = []" "addrs (Nd l a c k r) = addrs l @ a # addrs r"
  by (simp_all add: addrs_def)

lemma keys_simps [simp]: "keys Lf = []" "keys (Nd l a c k r) = keys l @ k # keys r"
  by (simp_all add: keys_def)

text \<open>One node of the store holds the given parent, colour, children and key.\<close>

definition is_node :: "'k Node \<Rightarrow> u32 \<Rightarrow> color \<Rightarrow> u32 \<Rightarrow> u32 \<Rightarrow> 'k \<Rightarrow> bool" where
  "is_node n p c l r k \<longleftrightarrow>
     get_par n = p \<and> (is_black n \<longleftrightarrow> c = Black) \<and> ch0 n = l \<and> ch1 n = r \<and> key n = k"

fun tree_at :: "u32 \<Rightarrow> (u32 \<Rightarrow> 'k Node) \<Rightarrow> u32 \<Rightarrow> 'k tr \<Rightarrow> bool" where
  "tree_at nil h p Lf \<longleftrightarrow> True"
| "tree_at nil h p (Nd l a c k r) \<longleftrightarrow>
     is_node (h a) p c (root_of nil l) (root_of nil r) k \<and> tree_at nil h a l \<and> tree_at nil h a r"

definition rep :: "'k Rbt \<Rightarrow> 'k tr \<Rightarrow> bool" where
  "rep s t \<longleftrightarrow>
     tree_root s = root_of (NIL s) t \<and> tree_at (NIL s) (node s) (NIL s) t \<and>
     distinct (NIL s # addrs t) \<and> (\<forall>a \<in> set (NIL s # addrs t). even_addr a) \<and> 0 \<notin> set (addrs t) \<and>
     is_black (node s (NIL s)) \<and> ch0 (node s (NIL s)) = NIL s \<and> ch1 (node s (NIL s)) = NIL s"

lemma tree_at_upd [simp]:
  "a \<notin> set (addrs t) \<Longrightarrow> tree_at nil (h(a := n)) p t = tree_at nil h p t"
  by (induction t arbitrary: p) auto

lemma tree_at_reparent:
  assumes "tree_at nil h p t" "distinct (nil # addrs t)" "even_addr q"
  shows "tree_at nil (h(root_of nil t := set_par q (h (root_of nil t)))) q t"
  using assms by (cases t) (auto simp: is_node_def)

section \<open>Positions: a subtree and the path above it\<close>

datatype 'k frame = FL u32 color 'k "'k tr" | FR "'k tr" u32 color 'k

fun plug :: "'k tr \<Rightarrow> 'k frame list \<Rightarrow> 'k tr" where
  "plug t [] = t"
| "plug t (FL a c k r # z) = plug (Nd t a c k r) z"
| "plug t (FR l a c k # z) = plug (Nd l a c k t) z"

fun lefts :: "'k frame list \<Rightarrow> (u32 \<times> 'k) list" where
  "lefts [] = []"
| "lefts (FL a c k r # z) = lefts z"
| "lefts (FR l a c k # z) = lefts z @ entries l @ [(a, k)]"

fun rights :: "'k frame list \<Rightarrow> (u32 \<times> 'k) list" where
  "rights [] = []"
| "rights (FL a c k r # z) = (a, k) # entries r @ rights z"
| "rights (FR l a c k # z) = rights z"

fun ctx_par :: "u32 \<Rightarrow> 'k frame list \<Rightarrow> u32" where
  "ctx_par nil [] = nil"
| "ctx_par nil (FL a c k r # z) = a"
| "ctx_par nil (FR l a c k # z) = a"

fun ctx_root :: "u32 \<Rightarrow> 'k frame list \<Rightarrow> u32" where
  "ctx_root hole [] = hole"
| "ctx_root hole (FL a c k r # z) = ctx_root a z"
| "ctx_root hole (FR l a c k # z) = ctx_root a z"

fun zslot :: "'k frame list \<Rightarrow> slot" where
  "zslot [] = Tree_root"
| "zslot (FL a c k r # z) = Child a False"
| "zslot (FR l a c k # z) = Child a True"

fun ctx_at :: "u32 \<Rightarrow> (u32 \<Rightarrow> 'k Node) \<Rightarrow> u32 \<Rightarrow> 'k frame list \<Rightarrow> bool" where
  "ctx_at nil h hole [] \<longleftrightarrow> True"
| "ctx_at nil h hole (FL a c k r # z) \<longleftrightarrow>
     is_node (h a) (ctx_par nil z) c hole (root_of nil r) k \<and> tree_at nil h a r \<and> ctx_at nil h a z"
| "ctx_at nil h hole (FR l a c k # z) \<longleftrightarrow>
     is_node (h a) (ctx_par nil z) c (root_of nil l) hole k \<and> tree_at nil h a l \<and> ctx_at nil h a z"

definition ctx_addrs :: "'k frame list \<Rightarrow> u32 list" where
  "ctx_addrs z = map fst (lefts z) @ map fst (rights z)"

lemma entries_plug [simp]: "entries (plug t z) = lefts z @ entries t @ rights z"
  by (induction t z rule: plug.induct) simp_all

lemma root_of_plug [simp]: "root_of nil (plug t z) = ctx_root (root_of nil t) z"
  by (induction t z rule: plug.induct) simp_all

lemma tree_at_plug [simp]:
  "tree_at nil h nil (plug t z) \<longleftrightarrow> tree_at nil h (ctx_par nil z) t \<and> ctx_at nil h (root_of nil t) z"
  by (induction t z rule: plug.induct) auto

lemma set_addrs_plug: "set (addrs (plug t z)) = set (addrs t) \<union> set (ctx_addrs z)"
  by (auto simp: addrs_def ctx_addrs_def)

lemma distinct_addrs_plug:
  "distinct (addrs (plug t z)) \<longleftrightarrow>
     distinct (addrs t) \<and> distinct (ctx_addrs z) \<and> set (addrs t) \<inter> set (ctx_addrs z) = {}"
  by (auto simp: addrs_def ctx_addrs_def)

lemma keys_plug: "keys (plug t z) = map snd (lefts z) @ keys t @ map snd (rights z)"
  by (simp add: keys_def)

lemma ctx_addrs_simps [simp]:
  "ctx_addrs [] = []"
  "set (ctx_addrs (FL a c k r # z)) = insert a (set (addrs r) \<union> set (ctx_addrs z))"
  "set (ctx_addrs (FR l a c k # z)) = insert a (set (addrs l) \<union> set (ctx_addrs z))"
  "distinct (ctx_addrs (FL a c k r # z)) \<longleftrightarrow> a \<notin> set (addrs r) \<and> a \<notin> set (ctx_addrs z) \<and>
     distinct (addrs r) \<and> distinct (ctx_addrs z) \<and> set (addrs r) \<inter> set (ctx_addrs z) = {}"
  "distinct (ctx_addrs (FR l a c k # z)) \<longleftrightarrow> a \<notin> set (addrs l) \<and> a \<notin> set (ctx_addrs z) \<and>
     distinct (addrs l) \<and> distinct (ctx_addrs z) \<and> set (addrs l) \<inter> set (ctx_addrs z) = {}"
  by (auto simp: addrs_def ctx_addrs_def)

lemma ctx_at_upd [simp]:
  "a \<notin> set (ctx_addrs z) \<Longrightarrow> ctx_at nil (h(a := n)) hole z = ctx_at nil h hole z"
  by (induction hole z rule: ctx_root.induct) auto

lemma ctx_par_in: "z \<noteq> [] \<Longrightarrow> ctx_par nil z \<in> set (ctx_addrs z)"
  by (cases z rule: zslot.cases) auto

lemma ctx_root_in: "z \<noteq> [] \<Longrightarrow> ctx_root hole z \<in> set (ctx_addrs z)"
  by (induction hole z rule: ctx_root.induct) (case_tac z; force)+

lemma ctx_root_hole: "z \<noteq> [] \<Longrightarrow> ctx_root hole z = ctx_root hole' z"
  by (cases z rule: zslot.cases) auto

text \<open>\<open>rep\<close> at a position.\<close>

lemma rep_plug:
  "rep s (plug t z) \<longleftrightarrow>
     tree_root s = ctx_root (root_of (NIL s) t) z \<and>
     tree_at (NIL s) (node s) (ctx_par (NIL s) z) t \<and> ctx_at (NIL s) (node s) (root_of (NIL s) t) z \<and>
     distinct (addrs t) \<and> distinct (ctx_addrs z) \<and> set (addrs t) \<inter> set (ctx_addrs z) = {} \<and>
     NIL s \<notin> set (addrs t) \<and> NIL s \<notin> set (ctx_addrs z) \<and>
     even_addr (NIL s) \<and> (\<forall>a \<in> set (addrs t). even_addr a) \<and> (\<forall>a \<in> set (ctx_addrs z). even_addr a) \<and>
     0 \<notin> set (addrs t) \<and> 0 \<notin> set (ctx_addrs z) \<and>
     is_black (node s (NIL s)) \<and> ch0 (node s (NIL s)) = NIL s \<and> ch1 (node s (NIL s)) = NIL s"
  by (auto simp: rep_def distinct_addrs_plug set_addrs_plug)

lemma tree_at_cong:
  "(\<And>a. a \<in> set (addrs t) \<Longrightarrow> h a = h' a) \<Longrightarrow> tree_at nil h p t = tree_at nil h' p t"
  by (induction t arbitrary: p) auto

lemma ctx_at_cong:
  "(\<And>a. a \<in> set (ctx_addrs z) \<Longrightarrow> h a = h' a) \<Longrightarrow> ctx_at nil h hole z = ctx_at nil h' hole z"
proof (induction hole z rule: ctx_root.induct)
  case (2 hole a c k r z)
  then show ?case using tree_at_cong [of r h h'] by auto
next
  case (3 hole l a c k z)
  then show ?case using tree_at_cong [of l h h'] by auto
qed simp

section \<open>Pointer operations at a position\<close>

lemma root_of_in: "root_of nil t = nil \<or> root_of nil t \<in> set (addrs t)"
  by (cases t) auto

lemma deref_zslot: "rep s (plug t z) \<Longrightarrow> deref (zslot z) s = root_of (NIL s) t"
  by (cases z rule: zslot.cases) (auto simp: rep_plug rep_def is_node_def)

lemma get_ref_zslot:
  assumes "rep s (plug (Nd l a c k r) z)"
  shows "get_ref a s = zslot z"
proof (cases z rule: zslot.cases)
  case 1
  with assms show ?thesis by (simp add: get_ref_def rep_def)
next
  case (2 b d k' r' z')
  with assms have "a \<noteq> tree_root s" "a \<noteq> root_of (NIL s) r'"
    using ctx_root_in [of z a] root_of_in [of "NIL s" r'] by (auto simp: rep_plug)
  with assms 2 show ?thesis by (auto simp: get_ref_def rep_plug is_node_def)
next
  case (3 l' b d k' z')
  with assms have "a \<noteq> tree_root s"
    using ctx_root_in [of z a] by (auto simp: rep_plug)
  with assms 3 show ?thesis by (auto simp: get_ref_def rep_plug is_node_def)
qed

text \<open>Replacing the subtree in a slot by another one.\<close>

lemma rep_replace:
  assumes rep: "rep s (plug t z)"
    and same: "NIL s' = NIL s" "tree_root s' = tree_root s"
      "\<And>a. a \<in> set (ctx_addrs z) \<Longrightarrow> node s' a = node s a"
    and t': "tree_at (NIL s) (node s') (ctx_par (NIL s) z) t'" "distinct (addrs t')"
      "set (addrs t') \<inter> set (ctx_addrs z) = {}" "NIL s \<notin> set (addrs t')"
      "\<forall>a \<in> set (addrs t'). even_addr a" "0 \<notin> set (addrs t')"
    and nil: "is_black (node s' (NIL s))" "ch0 (node s' (NIL s)) = NIL s" "ch1 (node s' (NIL s)) = NIL s"
  shows "rep (assign (zslot z) (root_of (NIL s) t') s') (plug t' z)"
proof -
  have ctx: "ctx_at (NIL s) (node s') (root_of (NIL s) t) z"
    using rep same(3) ctx_at_cong [of z "node s'" "node s"] by (simp add: rep_plug)
  show ?thesis
  proof (cases z rule: zslot.cases)
    case 1
    with rep same t' nil show ?thesis by (auto simp: rep_def)
  next
    case (2 b d k r z')
    with rep same t' nil ctx show ?thesis by (auto simp: rep_plug is_node_def)
  next
    case (3 l b d k z')
    with rep same t' nil ctx show ?thesis by (auto simp: rep_plug is_node_def)
  qed
qed

lemma rotate_left_rep:
  assumes rep: "rep s (plug (Nd l a c k (Nd m b d k' r)) z)"
  shows "rep (rotate (zslot z) False s) (plug (Nd (Nd l a c k m) b d k' r) z)"
proof -
  let ?nil = "NIL s"
  let ?m = "root_of ?nil m"
  let ?s1 = "upd b (copy_par (node s a)) s"
  let ?s2 = "upd a (set_ch True ?m) ?s1"
  let ?s3 = "upd ?m (set_par a) ?s2"
  let ?s4 = "upd b (set_ch False a) ?s3"
  let ?s5 = "upd a (set_par b) ?s4"
  have m: "?m = ?nil \<or> ?m \<in> set (addrs m)" by (rule root_of_in)
  have neq: "a \<noteq> b" "?m \<noteq> a" "?m \<noteq> b" "a \<noteq> ?nil" "b \<noteq> ?nil" using rep m by (auto simp: rep_plug)
  have fresh: "?m \<notin> set (addrs l)" "?m \<notin> set (addrs r)" "a \<notin> set (addrs l)" "a \<notin> set (addrs m)"
    "a \<notin> set (addrs r)" "b \<notin> set (addrs l)" "b \<notin> set (addrs m)" "b \<notin> set (addrs r)"
    using rep m by (auto simp: rep_plug)
  have "rotate (zslot z) False s = assign (zslot z) b ?s5"
    using rep neq deref_zslot [OF rep] by (simp add: rotate_def Let_def rep_plug is_node_def)
  moreover have "rep (assign (zslot z) (root_of ?nil (Nd (Nd l a c k m) b d k' r)) ?s5)
      (plug (Nd (Nd l a c k m) b d k' r) z)"
  proof (rule rep_replace [OF rep])
    have tm: "tree_at ?nil ((node s)(?m := set_par a (node s ?m))) a m"
      by (rule tree_at_reparent [where p = b]) (use rep neq in \<open>auto simp: rep_plug\<close>)
    show "tree_at ?nil (node ?s5) (ctx_par ?nil z) (Nd (Nd l a c k m) b d k' r)"
      using rep neq fresh tm by (simp add: rep_plug is_node_def)
    fix x assume "x \<in> set (ctx_addrs z)"
    then show "node ?s5 x = node s x" using rep m by (auto simp: rep_plug)
  qed (use rep neq m in \<open>auto simp: rep_plug\<close>)
  ultimately show ?thesis by simp
qed

lemma rotate_right_rep:
  assumes rep: "rep s (plug (Nd (Nd l b d k' m) a c k r) z)"
  shows "rep (rotate (zslot z) True s) (plug (Nd l b d k' (Nd m a c k r)) z)"
proof -
  let ?nil = "NIL s"
  let ?m = "root_of ?nil m"
  let ?s1 = "upd b (copy_par (node s a)) s"
  let ?s2 = "upd a (set_ch False ?m) ?s1"
  let ?s3 = "upd ?m (set_par a) ?s2"
  let ?s4 = "upd b (set_ch True a) ?s3"
  let ?s5 = "upd a (set_par b) ?s4"
  have m: "?m = ?nil \<or> ?m \<in> set (addrs m)" by (rule root_of_in)
  have neq: "a \<noteq> b" "?m \<noteq> a" "?m \<noteq> b" "a \<noteq> ?nil" "b \<noteq> ?nil" using rep m by (auto simp: rep_plug)
  have fresh: "?m \<notin> set (addrs l)" "?m \<notin> set (addrs r)" "a \<notin> set (addrs l)" "a \<notin> set (addrs m)"
    "a \<notin> set (addrs r)" "b \<notin> set (addrs l)" "b \<notin> set (addrs m)" "b \<notin> set (addrs r)"
    using rep m by (auto simp: rep_plug)
  have "rotate (zslot z) True s = assign (zslot z) b ?s5"
    using rep neq deref_zslot [OF rep] by (simp add: rotate_def Let_def rep_plug is_node_def)
  moreover have "rep (assign (zslot z) (root_of ?nil (Nd l b d k' (Nd m a c k r))) ?s5)
      (plug (Nd l b d k' (Nd m a c k r)) z)"
  proof (rule rep_replace [OF rep])
    have tm: "tree_at ?nil ((node s)(?m := set_par a (node s ?m))) a m"
      by (rule tree_at_reparent [where p = b]) (use rep neq in \<open>auto simp: rep_plug\<close>)
    show "tree_at ?nil (node ?s5) (ctx_par ?nil z) (Nd l b d k' (Nd m a c k r))"
      using rep neq fresh tm by (simp add: rep_plug is_node_def)
    fix x assume "x \<in> set (ctx_addrs z)"
    then show "node ?s5 x = node s x" using rep m by (auto simp: rep_plug)
  qed (use rep neq m in \<open>auto simp: rep_plug\<close>)
  ultimately show ?thesis by simp
qed

text \<open>Changing the colour or the key of one node.\<close>

lemma rep_update:
  assumes rep: "rep s (plug (Nd l a c k r) z)"
    and f: "\<And>p x y. is_node (node s a) p c x y k \<Longrightarrow> is_node (f (node s a)) p c' x y k'"
  shows "rep (upd a f s) (plug (Nd l a c' k' r) z)"
  using rep f by (auto simp: rep_plug)

lemma set_red_rep:
  "rep s (plug (Nd l a c k r) z) \<Longrightarrow> rep (upd a set_red s) (plug (Nd l a Red k r) z)"
  by (erule rep_update) (simp add: is_node_def)

lemma set_black_rep:
  "rep s (plug (Nd l a c k r) z) \<Longrightarrow> rep (upd a set_black s) (plug (Nd l a Black k r) z)"
  by (erule rep_update) (simp add: is_node_def)

lemma set_key_rep:
  "rep s (plug (Nd l a c k r) z) \<Longrightarrow> rep (upd a (set_key k') s) (plug (Nd l a c k' r) z)"
  by (erule rep_update) (simp add: is_node_def)

lemma copy_color_rep:
  "rep s (plug (Nd l a c k r) z) \<Longrightarrow> is_black n \<longleftrightarrow> c' = Black \<Longrightarrow>
   rep (upd a (copy_color n) s) (plug (Nd l a c' k r) z)"
  by (erule rep_update) (simp add: is_node_def)

text \<open>What a state holds at the node in focus.\<close>

lemma rep_node:
  assumes "rep s (plug (Nd l a c k r) z)"
  shows "get_par (node s a) = ctx_par (NIL s) z" "is_black (node s a) \<longleftrightarrow> c = Black"
    "ch0 (node s a) = root_of (NIL s) l" "ch1 (node s a) = root_of (NIL s) r" "key (node s a) = k"
    "a \<noteq> NIL s" "a \<noteq> 0" "even_addr a" "root_of (NIL s) l \<noteq> a" "root_of (NIL s) r \<noteq> a"
  using assms root_of_in [of "NIL s" l] root_of_in [of "NIL s" r]
  by (auto simp: rep_plug is_node_def)

lemma rep_siblings:
  assumes "rep s (plug (Nd l a c k r) z)"
  shows "root_of (NIL s) l = root_of (NIL s) r \<longleftrightarrow> l = Lf \<and> r = Lf"
    "root_of (NIL s) r = root_of (NIL s) l \<longleftrightarrow> l = Lf \<and> r = Lf"
    "root_of (NIL s) l = NIL s \<longleftrightarrow> l = Lf" "root_of (NIL s) r = NIL s \<longleftrightarrow> r = Lf"
  using assms by (cases l; cases r; auto simp: rep_plug)+

lemma rep_nil:
  assumes "rep s t"
  shows "is_black (node s (NIL s))" "ch0 (node s (NIL s)) = NIL s" "ch1 (node s (NIL s)) = NIL s"
    "even_addr (NIL s)"
  using assms by (auto simp: rep_def)

end
