(* ===== verification/Rbtree_Insert.thy ===== *)
theory Rbtree_Insert
  imports Rbtree_Rep
begin

text \<open>
  The balance invariants of red-black trees, on a tree and on the path above a position,
  and the correctness of the two loops of \<^verbatim>\<open>Rbt::insert\<close>: the descent to the
  insertion point and the fix-up that restores the invariants.
\<close>

section \<open>Balance invariants\<close>

fun col :: "'k tr \<Rightarrow> color" where
  "col Lf = Black"
| "col (Nd l a c k r) = c"

fun bh :: "'k tr \<Rightarrow> nat" where
  "bh Lf = 0"
| "bh (Nd l a c k r) = (if c = Black then Suc (bh l) else bh l)"

fun invc :: "'k tr \<Rightarrow> bool" where
  "invc Lf \<longleftrightarrow> True"
| "invc (Nd l a c k r) \<longleftrightarrow> (c = Red \<longrightarrow> col l = Black \<and> col r = Black) \<and> invc l \<and> invc r"

fun invh :: "'k tr \<Rightarrow> bool" where
  "invh Lf \<longleftrightarrow> True"
| "invh (Nd l a c k r) \<longleftrightarrow> bh l = bh r \<and> invh l \<and> invh r"

definition rb :: "'k tr \<Rightarrow> bool" where
  "rb t \<longleftrightarrow> invc t \<and> invh t \<and> col t = Black"

fun ztop :: "'k frame list \<Rightarrow> color" where
  "ztop [] = Black"
| "ztop (FL a c k r # z) = c"
| "ztop (FR l a c k # z) = c"

text \<open>\<open>zinv z n\<close>: a black subtree of black height \<open>n\<close> may be plugged into \<open>z\<close>.\<close>

fun zinv :: "'k frame list \<Rightarrow> nat \<Rightarrow> bool" where
  "zinv [] n \<longleftrightarrow> True"
| "zinv (FL a c k r # z) n \<longleftrightarrow>
     invc r \<and> invh r \<and> bh r = n \<and> (c = Red \<longrightarrow> col r = Black \<and> z \<noteq> [] \<and> ztop z = Black) \<and>
     zinv z (if c = Black then Suc n else n)"
| "zinv (FR l a c k # z) n \<longleftrightarrow>
     invc l \<and> invh l \<and> bh l = n \<and> (c = Red \<longrightarrow> col l = Black \<and> z \<noteq> [] \<and> ztop z = Black) \<and>
     zinv z (if c = Black then Suc n else n)"

lemma color_neq [simp]: "c \<noteq> Black \<longleftrightarrow> c = Red" "c \<noteq> Red \<longleftrightarrow> c = Black"
  by (cases c; simp)+

lemma rb_plug:
  "rb (plug t z) \<longleftrightarrow> invc t \<and> invh t \<and> zinv z (bh t) \<and>
     (ztop z = Red \<longrightarrow> col t = Black) \<and> (z = [] \<longrightarrow> col t = Black)"
proof (induction t z rule: plug.induct)
  case (1 t)
  then show ?case by (auto simp: rb_def)
next
  case (2 t a c k r z)
  then show ?case by (cases c) auto
next
  case (3 t l a c k z)
  then show ?case by (cases c) auto
qed

lemma red_node: "col t = Red \<Longrightarrow> \<exists>l a k r. t = Nd l a Red k r"
  by (cases t) auto

lemma is_black_root:
  assumes "rep s (plug t z)"
  shows "is_black (node s (root_of (NIL s) t)) \<longleftrightarrow> col t = Black"
  using assms by (cases t) (auto simp: rep_plug is_node_def)

lemma NIL_rotate [simp]: "NIL (rotate r d s) = NIL s"
  by (simp add: rotate_def Let_def)

section \<open>The fix-up loop of insert\<close>

lemma insert_fixup_root:
  assumes "rep s (Nd l a Red k r)" "invc (Nd l a Red k r)" "invh (Nd l a Red k r)"
  shows "insert_fixup a s = ret (upd a set_black s)" "rep (upd a set_black s) (Nd l a Black k r)"
    "rb (Nd l a Black k r)"
proof -
  show "insert_fixup a s = ret (upd a set_black s)"
    using assms(1) by (subst insert_fixup.simps) (simp add: rep_def is_node_def)
  show "rep (upd a set_black s) (Nd l a Black k r)"
    using set_black_rep [where z = "[]"] assms(1) by simp
  show "rb (Nd l a Black k r)" using assms(2,3) by (simp add: rb_def)
qed

lemma insert_fixup_black_parent:
  assumes "rep s (plug (Nd l a c k r) z)" "z \<noteq> []" "ztop z = Black"
  shows "insert_fixup a s = ret s"
proof (cases z rule: zslot.cases)
  case (2 p pc k' r' z')
  with assms have "rep s (plug (Nd (Nd l a c k r) p Black k' r') z')" by simp
  with rep_node [OF assms(1)] rep_node [OF this] 2 show ?thesis
    by (subst insert_fixup.simps) (simp add: Let_def accessors)
next
  case (3 l' p pc k' z')
  with assms have "rep s (plug (Nd l' p Black k' (Nd l a c k r)) z')" by simp
  with rep_node [OF assms(1)] rep_node [OF this] 3 show ?thesis
    by (subst insert_fixup.simps) (simp add: Let_def accessors)
qed (use assms in simp)

text \<open>The parent is red and the uncle too: recolour, and go on at the grandparent.\<close>

lemma insert_fixup_left_red_uncle:
  assumes rep: "rep s (plug (Nd (Nd l p Red pk r) g Black gk (Nd ul u Red uk ur)) z)"
    and cur: "get_par (node s cur) = p"
  shows "\<exists>s'. insert_fixup cur s = insert_fixup g s' \<and> NIL s' = NIL s \<and>
    rep s' (plug (Nd (Nd l p Black pk r) g Red gk (Nd ul u Black uk ur)) z)"
proof -
  let ?s1 = "upd p set_black s"
  let ?s2 = "upd u set_black ?s1"
  let ?s3 = "upd g set_red ?s2"
  have p: "rep s (plug (Nd l p Red pk r) (FL g Black gk (Nd ul u Red uk ur) # z))"
    and u: "rep s (plug (Nd ul u Red uk ur) (FR (Nd l p Red pk r) g Black gk # z))"
    using rep by simp_all
  have "rep ?s1 (plug (Nd (Nd l p Black pk r) g Black gk (Nd ul u Red uk ur)) z)"
    using set_black_rep [OF p] by simp
  then have "rep ?s2 (plug (Nd (Nd l p Black pk r) g Black gk (Nd ul u Black uk ur)) z)"
    using set_black_rep [where z = "FR (Nd l p Black pk r) g Black gk # z"] by simp
  then have "rep ?s3 (plug (Nd (Nd l p Black pk r) g Red gk (Nd ul u Black uk ur)) z)"
    by (rule set_red_rep)
  moreover have "insert_fixup cur s = insert_fixup g ?s3"
    using cur rep_node [OF p] rep_node [OF u] rep_node [OF rep]
    by (subst insert_fixup.simps) (simp add: Let_def accessors)
  ultimately show ?thesis by auto
qed

lemma insert_fixup_right_red_uncle:
  assumes rep: "rep s (plug (Nd (Nd ul u Red uk ur) g Black gk (Nd l p Red pk r)) z)"
    and cur: "get_par (node s cur) = p"
  shows "\<exists>s'. insert_fixup cur s = insert_fixup g s' \<and> NIL s' = NIL s \<and>
    rep s' (plug (Nd (Nd ul u Black uk ur) g Red gk (Nd l p Black pk r)) z)"
proof -
  let ?s1 = "upd p set_black s"
  let ?s2 = "upd u set_black ?s1"
  let ?s3 = "upd g set_red ?s2"
  have p: "rep s (plug (Nd l p Red pk r) (FR (Nd ul u Red uk ur) g Black gk # z))"
    and u: "rep s (plug (Nd ul u Red uk ur) (FL g Black gk (Nd l p Red pk r) # z))"
    using rep by simp_all
  have "rep ?s1 (plug (Nd (Nd ul u Red uk ur) g Black gk (Nd l p Black pk r)) z)"
    using set_black_rep [OF p] by simp
  then have "rep ?s2 (plug (Nd (Nd ul u Black uk ur) g Black gk (Nd l p Black pk r)) z)"
    using set_black_rep [where z = "FL g Black gk (Nd l p Black pk r) # z"] by simp
  then have "rep ?s3 (plug (Nd (Nd ul u Black uk ur) g Red gk (Nd l p Black pk r)) z)"
    by (rule set_red_rep)
  moreover have "insert_fixup cur s = insert_fixup g ?s3"
    using cur rep_node [OF p] rep_node [OF u] rep_node [OF rep] rep_siblings [OF rep]
    by (subst insert_fixup.simps) (simp add: Let_def accessors)
  ultimately show ?thesis by auto
qed

text \<open>The uncle is black: one or two rotations end the loop.\<close>

lemma insert_fixup_left_left:
  assumes rep: "rep s (plug (Nd (Nd (Nd x a c k y) p Red pk r) g Black gk u) z)" and u: "col u = Black"
  shows "\<exists>s'. insert_fixup a s = ret s' \<and> NIL s' = NIL s \<and>
    rep s' (plug (Nd (Nd x a c k y) p Black pk (Nd r g Red gk u)) z)"
proof -
  let ?s2 = "upd g set_red (upd p set_black s)"
  have p: "rep s (plug (Nd (Nd x a c k y) p Red pk r) (FL g Black gk u # z))"
    and a: "rep s (plug (Nd x a c k y) (FL p Red pk r # FL g Black gk u # z))"
    and u': "rep s (plug u (FR (Nd (Nd x a c k y) p Red pk r) g Black gk # z))"
    using rep by simp_all
  have "rep (upd p set_black s) (plug (Nd (Nd (Nd x a c k y) p Black pk r) g Black gk u) z)"
    using set_black_rep [OF p] by simp
  then have s2: "rep ?s2 (plug (Nd (Nd (Nd x a c k y) p Black pk r) g Red gk u) z)"
    by (rule set_red_rep)
  have "insert_fixup a s = ret (rotate (get_ref g ?s2) True ?s2)"
    using u rep_node [OF rep] rep_node [OF p] rep_node [OF a] is_black_root [OF u']
    by (subst insert_fixup.simps) (simp add: Let_def accessors)
  then show ?thesis using get_ref_zslot [OF s2] rotate_right_rep [OF s2] by auto
qed

lemma insert_fixup_right_right:
  assumes rep: "rep s (plug (Nd u g Black gk (Nd l p Red pk (Nd x a c k y))) z)" and u: "col u = Black"
  shows "\<exists>s'. insert_fixup a s = ret s' \<and> NIL s' = NIL s \<and>
    rep s' (plug (Nd (Nd u g Red gk l) p Black pk (Nd x a c k y)) z)"
proof -
  let ?s2 = "upd g set_red (upd p set_black s)"
  have p: "rep s (plug (Nd l p Red pk (Nd x a c k y)) (FR u g Black gk # z))"
    and a: "rep s (plug (Nd x a c k y) (FR l p Red pk # FR u g Black gk # z))"
    and u': "rep s (plug u (FL g Black gk (Nd l p Red pk (Nd x a c k y)) # z))"
    using rep by simp_all
  have "rep (upd p set_black s) (plug (Nd u g Black gk (Nd l p Black pk (Nd x a c k y))) z)"
    using set_black_rep [OF p] by simp
  then have s2: "rep ?s2 (plug (Nd u g Red gk (Nd l p Black pk (Nd x a c k y))) z)"
    by (rule set_red_rep)
  have "insert_fixup a s = ret (rotate (get_ref g ?s2) False ?s2)"
    using u rep_node [OF rep] rep_node [OF p] rep_node [OF a] is_black_root [OF u']
      rep_siblings [OF rep] rep_siblings [OF p]
    by (subst insert_fixup.simps) (simp add: Let_def accessors)
  then show ?thesis using get_ref_zslot [OF s2] rotate_left_rep [OF s2] by auto
qed

lemma insert_fixup_left_right:
  assumes rep: "rep s (plug (Nd (Nd l p Red pk (Nd x a Red k y)) g Black gk u) z)" and u: "col u = Black"
  shows "\<exists>s'. insert_fixup a s = ret s' \<and> NIL s' = NIL s \<and>
    rep s' (plug (Nd (Nd l p Red pk x) a Black k (Nd y g Red gk u)) z)"
proof -
  let ?s1 = "rotate (Child g False) False s"
  let ?s2 = "upd g set_red (upd a set_black ?s1)"
  have p: "rep s (plug (Nd l p Red pk (Nd x a Red k y)) (FL g Black gk u # z))"
    and a: "rep s (plug (Nd x a Red k y) (FR l p Red pk # FL g Black gk u # z))"
    and u': "rep s (plug u (FR (Nd l p Red pk (Nd x a Red k y)) g Black gk # z))"
    using rep by simp_all
  have s1: "rep ?s1 (plug (Nd (Nd l p Red pk x) a Red k y) (FL g Black gk u # z))"
    using rotate_left_rep [OF p] by simp
  have "rep (upd a set_black ?s1) (plug (Nd (Nd (Nd l p Red pk x) a Black k y) g Black gk u) z)"
    using set_black_rep [OF s1] by simp
  then have s2: "rep ?s2 (plug (Nd (Nd (Nd l p Red pk x) a Black k y) g Red gk u) z)"
    by (rule set_red_rep)
  have "rep ?s1 (plug (Nd l p Red pk x) (FL a Red k y # FL g Black gk u # z))"
    using s1 by simp
  then have "get_par (node ?s1 p) = a" using rep_node(1) by fastforce
  then have "insert_fixup a s = ret (rotate (get_ref g ?s2) True ?s2)"
    using u rep_node [OF rep] rep_node [OF p] rep_node [OF a] is_black_root [OF u'] rep_siblings [OF p]
    by (subst insert_fixup.simps) (simp add: Let_def accessors)
  then show ?thesis using get_ref_zslot [OF s2] rotate_right_rep [OF s2] by auto
qed

lemma insert_fixup_right_left:
  assumes rep: "rep s (plug (Nd u g Black gk (Nd (Nd x a Red k y) p Red pk r)) z)" and u: "col u = Black"
  shows "\<exists>s'. insert_fixup a s = ret s' \<and> NIL s' = NIL s \<and>
    rep s' (plug (Nd (Nd u g Red gk x) a Black k (Nd y p Red pk r)) z)"
proof -
  let ?s1 = "rotate (Child g True) True s"
  let ?s2 = "upd g set_red (upd a set_black ?s1)"
  have p: "rep s (plug (Nd (Nd x a Red k y) p Red pk r) (FR u g Black gk # z))"
    and a: "rep s (plug (Nd x a Red k y) (FL p Red pk r # FR u g Black gk # z))"
    and u': "rep s (plug u (FL g Black gk (Nd (Nd x a Red k y) p Red pk r) # z))"
    using rep by simp_all
  have s1: "rep ?s1 (plug (Nd x a Red k (Nd y p Red pk r)) (FR u g Black gk # z))"
    using rotate_right_rep [OF p] by simp
  have "rep (upd a set_black ?s1) (plug (Nd u g Black gk (Nd x a Black k (Nd y p Red pk r))) z)"
    using set_black_rep [OF s1] by simp
  then have s2: "rep ?s2 (plug (Nd u g Red gk (Nd x a Black k (Nd y p Red pk r))) z)"
    by (rule set_red_rep)
  have "rep ?s1 (plug (Nd y p Red pk r) (FR x a Red k # FR u g Black gk # z))"
    using s1 by simp
  then have "get_par (node ?s1 p) = a" using rep_node(1) by fastforce
  then have "insert_fixup a s = ret (rotate (get_ref g ?s2) False ?s2)"
    using u rep_node [OF rep] rep_node [OF p] rep_node [OF a] is_black_root [OF u'] rep_siblings [OF rep]
    by (subst insert_fixup.simps) (simp add: Let_def accessors)
  then show ?thesis using get_ref_zslot [OF s2] rotate_left_rep [OF s2] by auto
qed

text \<open>
  One iteration with a red parent: it ends with a valid tree, or goes on two levels up.
\<close>

definition ins_ok :: "'k Rbt \<Rightarrow> 'k tr \<Rightarrow> u32 \<Rightarrow> 'k \<Rightarrow> 'k tr \<Rightarrow> 'k frame list \<Rightarrow> bool" where
  "ins_ok s l a k r z \<longleftrightarrow> rep s (plug (Nd l a Red k r) z) \<and>
     invc (Nd l a Red k r) \<and> invh (Nd l a Red k r) \<and> zinv z (bh l)"

definition fixed :: "'k Rbt \<Rightarrow> (u32 \<times> 'k) list \<Rightarrow> 'k Rbt \<Rightarrow> bool" where
  "fixed s es s' \<longleftrightarrow> NIL s' = NIL s \<and> (\<exists>t. rep s' t \<and> rb t \<and> entries t = es)"

lemma insert_fixup_step_left:
  assumes ok: "ins_ok s l a k r (FL p Red pk sib # f # z)"
  shows "(\<exists>s'. insert_fixup a s = ret s' \<and> fixed s (entries (plug (Nd l a Red k r) (FL p Red pk sib # f # z))) s') \<or>
    (\<exists>s' l' g gk r'. insert_fixup a s = insert_fixup g s' \<and> NIL s' = NIL s \<and> ins_ok s' l' g gk r' z \<and>
      entries (plug (Nd l' g Red gk r') z) = entries (plug (Nd l a Red k r) (FL p Red pk sib # f # z)))"
    (is "?fin \<or> ?up")
proof (cases f)
  case (FL g gc gk u)
  note ok = ok [unfolded FL ins_ok_def]
  then have gc: "gc = Black" and par: "get_par (node s a) = p" using rep_node(1) by fastforce+
  show ?thesis
  proof (cases "col u")
    case Red
    then obtain ul ua uk ur where u: "u = Nd ul ua Red uk ur" using red_node by blast
    have ?up
      using insert_fixup_left_red_uncle [of s "Nd l a Red k r" p pk sib g gk ul ua uk ur z a] ok par
      by (fastforce simp: FL gc u ins_ok_def)
    then show ?thesis ..
  next
    case Black
    have ?fin
      using insert_fixup_left_left[of s l a Red k r p pk sib g gk u z] ok Black by (fastforce simp: FL gc fixed_def rb_plug)
    then show ?thesis ..
  qed
next
  case (FR u g gc gk)
  note ok = ok [unfolded FR ins_ok_def]
  then have gc: "gc = Black" and par: "get_par (node s a) = p" using rep_node(1) by fastforce+
  show ?thesis
  proof (cases "col u")
    case Red
    then obtain ul ua uk ur where u: "u = Nd ul ua Red uk ur" using red_node by blast
    have ?up
      using insert_fixup_right_red_uncle [of s ul ua uk ur g gk "Nd l a Red k r" p pk sib z a] ok par
      by (fastforce simp: FR gc u ins_ok_def)
    then show ?thesis ..
  next
    case Black
    have ?fin
      using insert_fixup_right_left[of s u g gk l a k r p pk sib z] ok Black by (fastforce simp: FR gc fixed_def rb_plug)
    then show ?thesis ..
  qed
qed

lemma insert_fixup_step_right:
  assumes ok: "ins_ok s l a k r (FR sib p Red pk # f # z)"
  shows "(\<exists>s'. insert_fixup a s = ret s' \<and> fixed s (entries (plug (Nd l a Red k r) (FR sib p Red pk # f # z))) s') \<or>
    (\<exists>s' l' g gk r'. insert_fixup a s = insert_fixup g s' \<and> NIL s' = NIL s \<and> ins_ok s' l' g gk r' z \<and>
      entries (plug (Nd l' g Red gk r') z) = entries (plug (Nd l a Red k r) (FR sib p Red pk # f # z)))"
    (is "?fin \<or> ?up")
proof (cases f)
  case (FL g gc gk u)
  note ok = ok [unfolded FL ins_ok_def]
  then have gc: "gc = Black" and par: "get_par (node s a) = p" using rep_node(1) by fastforce+
  show ?thesis
  proof (cases "col u")
    case Red
    then obtain ul ua uk ur where u: "u = Nd ul ua Red uk ur" using red_node by blast
    have ?up
      using insert_fixup_left_red_uncle [of s sib p pk "Nd l a Red k r" g gk ul ua uk ur z a] ok par
      by (fastforce simp: FL gc u ins_ok_def)
    then show ?thesis ..
  next
    case Black
    have ?fin
      using insert_fixup_left_right[of s sib p pk l a k r g gk u z] ok Black by (fastforce simp: FL gc fixed_def rb_plug)
    then show ?thesis ..
  qed
next
  case (FR u g gc gk)
  note ok = ok [unfolded FR ins_ok_def]
  then have gc: "gc = Black" and par: "get_par (node s a) = p" using rep_node(1) by fastforce+
  show ?thesis
  proof (cases "col u")
    case Red
    then obtain ul ua uk ur where u: "u = Nd ul ua Red uk ur" using red_node by blast
    have ?up
      using insert_fixup_right_red_uncle [of s ul ua uk ur g gk sib p pk "Nd l a Red k r" z a] ok par
      by (fastforce simp: FR gc u ins_ok_def)
    then show ?thesis ..
  next
    case Black
    have ?fin
      using insert_fixup_right_right[of s u g gk sib p pk l a Red k r z] ok Black by (fastforce simp: FR gc fixed_def rb_plug)
    then show ?thesis ..
  qed
qed

lemma insert_fixup_correct:
  "ins_ok s l a k r z \<Longrightarrow>
     \<exists>s'. insert_fixup a s = ret s' \<and> fixed s (entries (plug (Nd l a Red k r) z)) s'"
proof (induction "length z" arbitrary: z s l a k r rule: less_induct)
  case less
  consider "z = []" | "z \<noteq> []" "ztop z = Black"
    | p pk sib f z' where "z = FL p Red pk sib # f # z'" | sib p pk f z' where "z = FR sib p Red pk # f # z'"
    using less.prems unfolding ins_ok_def by (cases z rule: zslot.cases; cases "ztop z"; cases "tl z"; auto)
  then show ?case
  proof cases
    case 1
    then show ?thesis
      using insert_fixup_root [of s l a k r] less.prems by (fastforce simp: ins_ok_def fixed_def)
  next
    case 2
    then show ?thesis
      using insert_fixup_black_parent [of s l a Red k r z] less.prems
      by (auto simp: ins_ok_def fixed_def rb_plug)
  next
    case (3 p pk sib f z')
    then show ?thesis
      using insert_fixup_step_left [of s l a k r p pk sib f z'] less.prems less.hyps [of z']
      by (force simp: fixed_def)
  next
    case (4 sib p pk f z')
    then show ?thesis
      using insert_fixup_step_right [of s l a k r sib p pk f z'] less.prems less.hyps [of z']
      by (force simp: fixed_def)
  qed
qed

section \<open>The key order\<close>

text \<open>
  What the template needs of \<^verbatim>\<open>operator <\<close> of the key type: a strict weak order. Keys
  that are not ordered either way are equivalent and may occur together.
\<close>

locale weak_order =
  fixes lt :: "'k \<Rightarrow> 'k \<Rightarrow> bool"
  assumes asym: "lt x y \<Longrightarrow> \<not> lt y x"
    and negtrans: "\<not> lt x y \<Longrightarrow> \<not> lt y z \<Longrightarrow> \<not> lt x z"

definition ordered :: "('k \<Rightarrow> 'k \<Rightarrow> bool) \<Rightarrow> 'k list \<Rightarrow> bool" where
  "ordered lt ks \<longleftrightarrow> sorted_wrt (\<lambda>x y. \<not> lt y x) ks"

text \<open>A search tree object: a valid red-black tree whose keys are in order.\<close>

definition rbt_ok :: "('k \<Rightarrow> 'k \<Rightarrow> bool) \<Rightarrow> 'k Rbt \<Rightarrow> 'k tr \<Rightarrow> bool" where
  "rbt_ok lt s t \<longleftrightarrow> rep s t \<and> rb t \<and> ordered lt (keys t)"

section \<open>The descent of insert\<close>

lemma upd_commute: "a \<noteq> b \<Longrightarrow> upd a f (upd b g s) = upd b g (upd a f s)"
  by (simp add: upd_def fun_upd_twist)

text \<open>The path ends where every key on its left is less than \<open>val\<close> and none on its right is.\<close>

definition splits_at :: "('k \<Rightarrow> 'k \<Rightarrow> bool) \<Rightarrow> 'k \<Rightarrow> 'k frame list \<Rightarrow> bool" where
  "splits_at lt val z \<longleftrightarrow>
     (\<forall>(a, k) \<in> set (lefts z). lt k val) \<and> (\<forall>(a, k) \<in> set (rights z). \<not> lt k val)"

definition descended :: "('k \<Rightarrow> 'k \<Rightarrow> bool) \<Rightarrow> 'k \<Rightarrow> 'k frame list \<Rightarrow> bool" where
  "descended lt val z \<longleftrightarrow> (case z of [] \<Rightarrow> True
     | FL a c k r # z' \<Rightarrow> \<not> lt k val | FR l a c k # z' \<Rightarrow> lt k val)"

context weak_order
begin

lemma less_left: "\<not> lt k x \<Longrightarrow> lt k val \<Longrightarrow> lt x val"
  using negtrans by blast

lemma insert_descend_correct:
  assumes "rep s (plug t z)" "ordered lt (keys (plug t z))" "splits_at lt val z" "descended lt val z"
  shows "\<exists>z'. insert_descend lt val s (ctx_par (NIL s) z) (root_of (NIL s) t) = ret (ctx_par (NIL s) z') \<and>
    plug t z = plug Lf z' \<and> splits_at lt val z' \<and> descended lt val z' \<and> (z' = [] \<longrightarrow> z = [] \<and> t = Lf)"
  using assms
proof (induction t arbitrary: z)
  case Lf
  then show ?case by (subst insert_descend.simps) auto
next
  case (Nd l a c k r)
  note node = rep_node [OF Nd.prems(1)]
  show ?case
  proof (cases "lt k val")
    case True
    have "\<not> lt k x" if "x \<in> set (keys l)" for x
      using Nd.prems(2) that by (auto simp: ordered_def keys_plug sorted_wrt_append)
    then have "lt x val" if "x \<in> set (keys l)" for x
      using that less_left [OF _ True] by blast
    then have "splits_at lt val (FR l a c k # z)"
      using Nd.prems(3) True by (fastforce simp: splits_at_def keys_def)
    with Nd.IH(2) [of "FR l a c k # z"] Nd.prems True node show ?thesis
      by (subst insert_descend.simps) (auto simp: descended_def)
  next
    case False
    have "\<not> lt x k" if "x \<in> set (keys r)" for x
      using Nd.prems(2) that by (auto simp: ordered_def keys_plug sorted_wrt_append)
    then have "\<not> lt x val" if "x \<in> set (keys r)" for x
      using that negtrans [OF _ False] by blast
    then have "splits_at lt val (FL a c k r # z)"
      using Nd.prems(3) False by (fastforce simp: splits_at_def keys_def)
    with Nd.IH(1) [of "FL a c k r # z"] Nd.prems False node show ?thesis
      by (subst insert_descend.simps) (auto simp: descended_def)
  qed
qed

text \<open>Linking a new red leaf into the slot found by the descent.\<close>

lemma link_leaf_rep:
  assumes rep: "rep s (plug Lf z)" and z: "z \<noteq> []" "descended lt val z"
    and new: "a \<noteq> NIL s" "a \<noteq> 0" "even_addr a" "a \<notin> set (ctx_addrs z)"
    and par: "par = ctx_par (NIL s) z"
  defines "s1 \<equiv> upd par (set_ch (lt (key (node s par)) val) a) s"
  shows "rep (upd a (set_key val) (upd a (set_par par)
      (upd a (set_ch False (NIL s)) (upd a (set_ch True (NIL s)) (upd a set_red s1)))))
    (plug (Nd Lf a Red val Lf) z)"
proof -
  let ?f = "set_key val \<circ> set_par par \<circ> set_ch False (NIL s) \<circ> set_ch True (NIL s) \<circ> set_red"
  have par': "par \<in> set (ctx_addrs z)" "even_addr par" "par \<noteq> NIL s"
    using ctx_par_in [OF z(1), of "NIL s"] rep by (auto simp: par rep_plug)
  have "zslot z = Child par (lt (key (node s par)) val)"
    using rep z by (cases z rule: zslot.cases) (auto simp: par rep_plug is_node_def descended_def)
  moreover have "rep (assign (zslot z) (root_of (NIL s) (Nd Lf a Red val Lf)) (upd a ?f s))
      (plug (Nd Lf a Red val Lf) z)"
    by (rule rep_replace [OF rep]) (use rep new par' in \<open>auto simp: rep_plug is_node_def par\<close>)
  ultimately show ?thesis
    using new par' by (auto simp: s1_def upd_def fun_upd_twist)
qed

end

section \<open>Insertion\<close>

text \<open>
  The whole of \<^verbatim>\<open>insert\<close>: it returns, keeps every invariant and adds exactly the new
  key at its place, in a node the allocator provided.
\<close>

context weak_order
begin

lemma insert_empty:
  assumes rep: "rep s Lf" and alloc: "node_alloc m = ret (a, m')"
    and new: "a \<noteq> NIL s" "a \<noteq> 0" "even_addr a"
  shows "\<exists>s'. rbt_insert node_alloc lt val s m = ret (s', m') \<and> NIL s' = NIL s \<and>
    rbt_ok lt s' (Nd Lf a Black val Lf)"
  using assms by (auto simp: rbt_insert_def rep_def is_node_def rbt_ok_def rb_def ordered_def)

lemma insert_nonempty:
  assumes ok: "rbt_ok lt s t" and t: "t \<noteq> Lf" and alloc: "node_alloc m = ret (a, m')"
    and new: "a \<noteq> NIL s" "a \<noteq> 0" "even_addr a" "a \<notin> set (addrs t)"
  shows "\<exists>s' L R. rbt_insert node_alloc lt val s m = ret (s', m') \<and>
    fixed s (L @ (a, val) # R) s' \<and> entries t = L @ R \<and>
    (\<forall>(b, k) \<in> set L. lt k val) \<and> (\<forall>(b, k) \<in> set R. \<not> lt k val)"
proof -
  from ok have rep: "rep s t" and "rb t" and "ordered lt (keys t)" by (auto simp: rbt_ok_def)
  then obtain z where z: "insert_descend lt val s (NIL s) (root_of (NIL s) t) = ret (ctx_par (NIL s) z)"
    "t = plug Lf z" "splits_at lt val z" "descended lt val z" "z \<noteq> []"
    using insert_descend_correct [of s t "[]" val] t by (auto simp: splits_at_def descended_def)
  let ?par = "ctx_par (NIL s) z"
  let ?s4 = "upd a (set_key val) (upd a (set_par ?par) (upd a (set_ch False (NIL s))
    (upd a (set_ch True (NIL s)) (upd a set_red (upd ?par (set_ch (lt (key (node s ?par)) val) a) s)))))"
  have "ins_ok ?s4 Lf a val Lf z"
    using link_leaf_rep [of s z val a ?par] rep new z \<open>rb t\<close>
    by (auto simp: ins_ok_def rb_plug set_addrs_plug)
  then obtain s' where "insert_fixup a ?s4 = ret s'" "fixed ?s4 (lefts z @ (a, val) # rights z) s'"
    using insert_fixup_correct by fastforce
  moreover have "tree_root s = root_of (NIL s) t" "tree_root s \<noteq> NIL s"
    using rep t by (cases t; auto simp: rep_def)+
  ultimately have "rbt_insert node_alloc lt val s m = ret (s', m') \<and> fixed s (lefts z @ (a, val) # rights z) s'"
    using z(1) alloc by (simp add: rbt_insert_def Let_def fixed_def)
  moreover have "entries t = lefts z @ rights z" using z(2) by simp
  ultimately show ?thesis using z(3) unfolding splits_at_def by blast
qed

lemma ordered_insert:
  assumes "ordered lt (map snd (L @ R))"
    and "\<forall>(b, k) \<in> set L. lt k val" and "\<forall>(b, k) \<in> set R. \<not> lt k val"
  shows "ordered lt (map snd (L @ (a, val) # R))"
  using assms asym by (fastforce simp: ordered_def sorted_wrt_append)

theorem rbt_insert_correct:
  assumes ok: "rbt_ok lt s t" and alloc: "node_alloc m = ret (a, m')"
    and new: "a \<noteq> NIL s" "a \<noteq> 0" "even_addr a" "a \<notin> set (addrs t)"
  shows "\<exists>s' t' L R. rbt_insert node_alloc lt val s m = ret (s', m') \<and> NIL s' = NIL s \<and>
    rbt_ok lt s' t' \<and> entries t = L @ R \<and> entries t' = L @ (a, val) # R \<and>
    (\<forall>(b, k) \<in> set L. lt k val) \<and> (\<forall>(b, k) \<in> set R. \<not> lt k val)"
proof (cases "t = Lf")
  case True
  then have "rep s Lf" using ok by (simp add: rbt_ok_def)
  from insert_empty [OF this, of node_alloc m a m' val] alloc new obtain s'
    where s': "rbt_insert node_alloc lt val s m = ret (s', m')" "NIL s' = NIL s"
      "rbt_ok lt s' (Nd Lf a Black val Lf)" by blast
  have "entries t = [] @ []" "entries (Nd Lf a Black val Lf) = [] @ (a, val) # []"
    using True by simp_all
  with s' show ?thesis by (metis empty_iff empty_set)
next
  case False
  from insert_nonempty [OF ok False, of node_alloc m a m' val] alloc new obtain s' L R t'
    where s': "rbt_insert node_alloc lt val s m = ret (s', m')" "NIL s' = NIL s" "rep s' t'" "rb t'"
      "entries t' = L @ (a, val) # R"
      and e: "entries t = L @ R" "\<forall>(b, k) \<in> set L. lt k val" "\<forall>(b, k) \<in> set R. \<not> lt k val"
    unfolding fixed_def by blast
  have "ordered lt (keys t')"
    using ordered_insert [of L R val a] e ok s'(5) by (simp add: rbt_ok_def keys_def)
  with s' e show ?thesis by (auto simp: rbt_ok_def)
qed

end

end
