(* ===== verification/Rbtree_Erase.thy ===== *)
theory Rbtree_Erase
  imports Rbtree_Insert
begin

text \<open>
  Correctness of \<^verbatim>\<open>Rbt::erase\<close>: the fix-up loop of \<^verbatim>\<open>remove_bottom\<close> after the
  removal of a black node, the removal of a node with at most one child, and the erasure
  of an arbitrary node, which moves the key of its in-order successor.
\<close>

section \<open>The fix-up loop of remove\_bottom\<close>

text \<open>The part of the loop body after the sibling has been made black.\<close>

definition remove_rest :: "u32 \<Rightarrow> u32 \<Rightarrow> u32 \<Rightarrow> 'k Rbt \<Rightarrow> 'k Rbt exec" where
  "remove_rest n p sib s =
     (if is_black (node s (ch (node s sib) False)) \<and> is_black (node s (ch (node s sib) True))
      then remove_fixup p (upd sib set_red s)
      else
        (let dir = (n = ch (node s p) True);
             (sib', s') =
               (if is_black (node s (ch (node s sib) (\<not> dir))) then
                  (let s1 = upd (ch (node s sib) dir) set_black s;
                       s2 = upd sib set_red s1;
                       s3 = rotate (Child p (sib = ch (node s2 p) True)) (\<not> dir) s2
                   in (ch (node s3 p) (\<not> dir), s3))
                else (sib, s));
             s4 = upd sib' (copy_color (node s' p)) s';
             s5 = upd p set_black s4;
             s6 = upd (ch (node s5 sib') (\<not> dir)) set_black s5
         in ret (rotate (get_ref p s6) dir s6)))"

lemma remove_fixup_eq:
  "remove_fixup n s0 =
     (if n \<noteq> tree_root s0 \<and> is_black (node s0 n) then
        (let p = get_par (node s0 n);
             sib0 = ch (node s0 p) (n = ch (node s0 p) False);
             (sib, s) =
               (if is_red (node s0 sib0) then
                  (let s1 = upd sib0 set_black (upd p set_red s0);
                       d = (sib0 = ch (node s1 p) False);
                       s2 = rotate (get_ref p s1) d s1
                   in (ch (node s2 p) (\<not> d), s2))
                else (sib0, s0))
         in remove_rest n p sib s)
      else ret (upd n set_black s0))"
  by (subst remove_fixup.simps) (simp add: remove_rest_def Let_def)

text \<open>
  The loop invariant: the subtree in focus is one black node short, or its root is red and
  becomes black.
\<close>

fun blacken :: "'k tr \<Rightarrow> 'k tr" where
  "blacken Lf = Lf"
| "blacken (Nd l a c k r) = Nd l a Black k r"

lemma blacken_simps [simp]:
  "entries (blacken t) = entries t" "root_of nil (blacken t) = root_of nil t" "col (blacken t) = Black"
  by (cases t; simp)+

lemma blacken_id [simp]: "col t = Black \<Longrightarrow> blacken t = t"
  by (cases t) auto

definition del_ok :: "'k Rbt \<Rightarrow> 'k tr \<Rightarrow> 'k frame list \<Rightarrow> bool" where
  "del_ok s t z \<longleftrightarrow> rep s (plug t z) \<and> invc (blacken t) \<and> invh t \<and> zinv z (Suc (bh t))"

lemma set_black_nil_rep: "rep s t \<Longrightarrow> rep (upd (NIL s) set_black s) t"
  by (auto simp: rep_def)

lemma set_black_root_rep:
  "rep s (plug t z) \<Longrightarrow> rep (upd (root_of (NIL s) t) set_black s) (plug (blacken t) z)"
  by (cases t) (auto intro: set_black_rep set_black_nil_rep)

lemma remove_fixup_end:
  assumes ok: "del_ok s t z" and fin: "z = [] \<or> col t = Red"
  shows "\<exists>s'. remove_fixup (root_of (NIL s) t) s = ret s' \<and> fixed s (entries (plug t z)) s'"
proof -
  let ?n = "root_of (NIL s) t"
  from ok have rep: "rep s (plug t z)" by (simp add: del_ok_def)
  have "?n = tree_root s \<or> \<not> is_black (node s ?n)"
    using fin rep is_black_root [OF rep] by (auto simp: rep_def)
  then have "remove_fixup ?n s = ret (upd ?n set_black s)"
    by (subst remove_fixup.simps) auto
  moreover have "rb (plug (blacken t) z)"
    unfolding rb_plug using ok fin by (cases t) (auto simp: del_ok_def)
  ultimately show ?thesis
    using set_black_root_rep [OF rep] by (auto simp: fixed_def intro: exI [of _ "plug (blacken t) z"])
qed

text \<open>The sibling is black and the subtree in focus is a left child.\<close>

lemma remove_rest_left_black:
  assumes rep: "rep s (plug t (FL p pc pk (Nd sl a Black sk sr) # z))" and n: "n = root_of (NIL s) t"
    and col: "col sl = Black" "col sr = Black"
  shows "\<exists>s'. remove_rest n p a s = remove_fixup p s' \<and> NIL s' = NIL s \<and>
    rep s' (plug (Nd t p pc pk (Nd sl a Red sk sr)) z)"
proof -
  have a: "rep s (plug (Nd sl a Black sk sr) (FR t p pc pk # z))"
    and sl: "rep s (plug sl (FL a Black sk sr # FR t p pc pk # z))"
    and sr: "rep s (plug sr (FR sl a Black sk # FR t p pc pk # z))"
    using rep by simp_all
  have "remove_rest n p a s = remove_fixup p (upd a set_red s)"
    using rep_node [OF a] is_black_root [OF sl] is_black_root [OF sr] col
    by (simp add: remove_rest_def)
  then show ?thesis using set_red_rep [OF a] by auto
qed

lemma remove_rest_right_black:
  assumes rep: "rep s (plug t (FR (Nd sl a Black sk sr) p pc pk # z))" and n: "n = root_of (NIL s) t"
    and col: "col sl = Black" "col sr = Black"
  shows "\<exists>s'. remove_rest n p a s = remove_fixup p s' \<and> NIL s' = NIL s \<and>
    rep s' (plug (Nd (Nd sl a Red sk sr) p pc pk t) z)"
proof -
  have a: "rep s (plug (Nd sl a Black sk sr) (FL p pc pk t # z))"
    and sl: "rep s (plug sl (FL a Black sk sr # FL p pc pk t # z))"
    and sr: "rep s (plug sr (FR sl a Black sk # FL p pc pk t # z))"
    using rep by simp_all
  have "remove_rest n p a s = remove_fixup p (upd a set_red s)"
    using rep_node [OF a] is_black_root [OF sl] is_black_root [OF sr] col
    by (simp add: remove_rest_def)
  then show ?thesis using set_red_rep [OF a] by auto
qed

text \<open>The last four steps of the loop body, from a red far nephew on.\<close>

definition remove_last :: "bool \<Rightarrow> u32 \<Rightarrow> u32 \<Rightarrow> 'k Rbt \<Rightarrow> 'k Rbt" where
  "remove_last dir p sib s =
     (let s4 = upd sib (copy_color (node s p)) s;
          s5 = upd p set_black s4;
          s6 = upd (ch (node s5 sib) (\<not> dir)) set_black s5
      in rotate (get_ref p s6) dir s6)"

lemma remove_last_left:
  assumes rep: "rep s (plug (Nd t p pc pk (Nd sl a c sk (Nd x b d bk y))) z)"
  shows "rep (remove_last False p a s) (plug (Nd (Nd t p Black pk sl) a pc sk (Nd x b Black bk y)) z)"
proof -
  let ?s4 = "upd a (copy_color (node s p)) s"
  let ?s5 = "upd p set_black ?s4"
  let ?s6 = "upd b set_black ?s5"
  have a: "rep s (plug (Nd sl a c sk (Nd x b d bk y)) (FR t p pc pk # z))" using rep by simp
  have s4: "rep ?s4 (plug (Nd t p pc pk (Nd sl a pc sk (Nd x b d bk y))) z)"
    using copy_color_rep [OF a] rep_node(2) [OF rep] by simp
  have s5: "rep ?s5 (plug (Nd t p Black pk (Nd sl a pc sk (Nd x b d bk y))) z)"
    by (rule set_black_rep [OF s4])
  then have "rep ?s5 (plug (Nd x b d bk y) (FR sl a pc sk # FR t p Black pk # z))" by simp
  from set_black_rep [OF this]
  have s6: "rep ?s6 (plug (Nd t p Black pk (Nd sl a pc sk (Nd x b Black bk y))) z)" by simp
  have "remove_last False p a s = rotate (zslot z) False ?s6"
    using rep_node(4,10) [OF a] rep_node(10) [OF rep] get_ref_zslot [OF s6] by (simp add: remove_last_def Let_def)
  then show ?thesis using rotate_left_rep [OF s6] by simp
qed

lemma remove_last_right:
  assumes rep: "rep s (plug (Nd (Nd (Nd x b d bk y) a c sk sr) p pc pk t) z)"
  shows "rep (remove_last True p a s) (plug (Nd (Nd x b Black bk y) a pc sk (Nd sr p Black pk t)) z)"
proof -
  let ?s4 = "upd a (copy_color (node s p)) s"
  let ?s5 = "upd p set_black ?s4"
  let ?s6 = "upd b set_black ?s5"
  have a: "rep s (plug (Nd (Nd x b d bk y) a c sk sr) (FL p pc pk t # z))" using rep by simp
  have s4: "rep ?s4 (plug (Nd (Nd (Nd x b d bk y) a pc sk sr) p pc pk t) z)"
    using copy_color_rep [OF a] rep_node(2) [OF rep] by simp
  have s5: "rep ?s5 (plug (Nd (Nd (Nd x b d bk y) a pc sk sr) p Black pk t) z)"
    by (rule set_black_rep [OF s4])
  then have "rep ?s5 (plug (Nd x b d bk y) (FL a pc sk sr # FL p Black pk t # z))" by simp
  from set_black_rep [OF this]
  have s6: "rep ?s6 (plug (Nd (Nd (Nd x b Black bk y) a pc sk sr) p Black pk t) z)" by simp
  have "remove_last True p a s = rotate (zslot z) True ?s6"
    using rep_node(3,9) [OF a] rep_node(9) [OF rep] get_ref_zslot [OF s6] by (simp add: remove_last_def Let_def)
  then show ?thesis using rotate_right_rep [OF s6] by simp
qed

lemma remove_last_NIL [simp]: "NIL (remove_last dir p a s) = NIL s"
  by (simp add: remove_last_def Let_def)

lemma remove_rest_left_far:
  assumes rep: "rep s (plug t (FL p pc pk (Nd sl a Black sk sr) # z))" and n: "n = root_of (NIL s) t"
    and sr: "sr = Nd x b Red bk y"
  shows "\<exists>s'. remove_rest n p a s = ret s' \<and> NIL s' = NIL s \<and>
    rep s' (plug (Nd (Nd t p Black pk sl) a pc sk (Nd x b Black bk y)) z)"
proof -
  have p: "rep s (plug (Nd t p pc pk (Nd sl a Black sk (Nd x b Red bk y))) z)"
    and a: "rep s (plug (Nd sl a Black sk (Nd x b Red bk y)) (FR t p pc pk # z))"
    and b: "rep s (plug (Nd x b Red bk y) (FR sl a Black sk # FR t p pc pk # z))"
    using rep sr by simp_all
  have "remove_rest n p a s = ret (remove_last False p a s)"
    using rep_node [OF p] rep_node [OF a] rep_node [OF b] rep_siblings [OF p] n
    by (simp add: remove_rest_def remove_last_def Let_def)
  then show ?thesis using remove_last_left [OF p] by auto
qed

lemma remove_rest_right_far:
  assumes rep: "rep s (plug t (FR (Nd sl a Black sk sr) p pc pk # z))" and n: "n = root_of (NIL s) t"
    and sl: "sl = Nd x b Red bk y"
  shows "\<exists>s'. remove_rest n p a s = ret s' \<and> NIL s' = NIL s \<and>
    rep s' (plug (Nd (Nd x b Black bk y) a pc sk (Nd sr p Black pk t)) z)"
proof -
  have p: "rep s (plug (Nd (Nd (Nd x b Red bk y) a Black sk sr) p pc pk t) z)"
    and a: "rep s (plug (Nd (Nd x b Red bk y) a Black sk sr) (FL p pc pk t # z))"
    and b: "rep s (plug (Nd x b Red bk y) (FL a Black sk sr # FL p pc pk t # z))"
    using rep sl by simp_all
  have "remove_rest n p a s = ret (remove_last True p a s)"
    using rep_node [OF p] rep_node [OF a] rep_node [OF b] rep_siblings [OF p] n
    by (simp add: remove_rest_def remove_last_def Let_def)
  then show ?thesis using remove_last_right [OF p] by auto
qed

lemma remove_rest_left_near:
  assumes rep: "rep s (plug t (FL p pc pk (Nd sl a Black sk sr) # z))" and n: "n = root_of (NIL s) t"
    and sl: "sl = Nd x b Red bk y" and sr: "col sr = Black"
  shows "\<exists>s'. remove_rest n p a s = ret s' \<and> NIL s' = NIL s \<and>
    rep s' (plug (Nd (Nd t p Black pk x) b pc bk (Nd y a Black sk sr)) z)"
proof -
  let ?s2 = "upd a set_red (upd b set_black s)"
  let ?s3 = "rotate (Child p True) True ?s2"
  have p: "rep s (plug (Nd t p pc pk (Nd (Nd x b Red bk y) a Black sk sr)) z)"
    and a: "rep s (plug (Nd (Nd x b Red bk y) a Black sk sr) (FR t p pc pk # z))"
    and b: "rep s (plug (Nd x b Red bk y) (FL a Black sk sr # FR t p pc pk # z))"
    and sr': "rep s (plug sr (FR sl a Black sk # FR t p pc pk # z))"
    using rep sl by simp_all
  have "rep (upd b set_black s) (plug (Nd (Nd x b Black bk y) a Black sk sr) (FR t p pc pk # z))"
    using set_black_rep [OF b] by simp
  from rotate_right_rep [OF set_red_rep [OF this]]
  have s3: "rep ?s3 (plug (Nd t p pc pk (Nd x b Black bk (Nd y a Red sk sr))) z)" by simp
  have neq: "b \<noteq> p" "b \<noteq> a" "a \<noteq> p" using p by (auto simp: rep_plug)
  have "remove_rest n p a s = ret (remove_last False p b ?s3)"
    using rep_node [OF p] rep_node [OF a] rep_node [OF b] rep_siblings [OF p] is_black_root [OF sr'] sr n neq
      rep_node(4) [OF s3]
    by (simp add: remove_rest_def remove_last_def Let_def)
  then show ?thesis using remove_last_left [OF s3] by auto
qed

lemma remove_rest_right_near:
  assumes rep: "rep s (plug t (FR (Nd sl a Black sk sr) p pc pk # z))" and n: "n = root_of (NIL s) t"
    and sr: "sr = Nd x b Red bk y" and sl: "col sl = Black"
  shows "\<exists>s'. remove_rest n p a s = ret s' \<and> NIL s' = NIL s \<and>
    rep s' (plug (Nd (Nd sl a Black sk x) b pc bk (Nd y p Black pk t)) z)"
proof -
  let ?s2 = "upd a set_red (upd b set_black s)"
  let ?s3 = "rotate (Child p False) False ?s2"
  have p: "rep s (plug (Nd (Nd sl a Black sk (Nd x b Red bk y)) p pc pk t) z)"
    and a: "rep s (plug (Nd sl a Black sk (Nd x b Red bk y)) (FL p pc pk t # z))"
    and b: "rep s (plug (Nd x b Red bk y) (FR sl a Black sk # FL p pc pk t # z))"
    and sl': "rep s (plug sl (FL a Black sk sr # FL p pc pk t # z))"
    using rep sr by simp_all
  have "rep (upd b set_black s) (plug (Nd sl a Black sk (Nd x b Black bk y)) (FL p pc pk t # z))"
    using set_black_rep [OF b] by simp
  from rotate_left_rep [OF set_red_rep [OF this]]
  have s3: "rep ?s3 (plug (Nd (Nd (Nd sl a Red sk x) b Black bk y) p pc pk t) z)" by simp
  have neq: "b \<noteq> p" "b \<noteq> a" "a \<noteq> p" using p by (auto simp: rep_plug)
  have "remove_rest n p a s = ret (remove_last True p b ?s3)"
    using rep_node [OF p] rep_node [OF a] rep_node [OF b] rep_siblings [OF p] is_black_root [OF sl'] sl n neq neq
      rep_node(3) [OF s3]
    by (simp add: remove_rest_def remove_last_def Let_def)
  then show ?thesis using remove_last_right [OF s3] by auto
qed

text \<open>
  With a black sibling the iteration ends with a valid tree, or goes on at the parent.
\<close>

lemma remove_rest_left:
  assumes ok: "del_ok s t (FL p pc pk (Nd sl a Black sk sr) # z)" and t: "col t = Black"
  shows "(\<exists>s'. remove_rest (root_of (NIL s) t) p a s = ret s' \<and>
      fixed s (entries (plug t (FL p pc pk (Nd sl a Black sk sr) # z))) s') \<or>
    (\<exists>s'. remove_rest (root_of (NIL s) t) p a s = remove_fixup p s' \<and> NIL s' = NIL s \<and>
      del_ok s' (Nd t p pc pk (Nd sl a Red sk sr)) z)" (is "?fin \<or> ?up")
proof -
  note rep = ok [unfolded del_ok_def, THEN conjunct1]
  consider "col sl = Black" "col sr = Black" | x b bk y where "sr = Nd x b Red bk y"
    | x b bk y where "sl = Nd x b Red bk y" "col sr = Black"
    using red_node [of sl] red_node [of sr] by (cases "col sl"; cases "col sr") auto
  then show ?thesis
  proof cases
    case 1
    have ?up
      using remove_rest_left_black [OF rep refl 1] ok t 1 rep_node(1)
      by (fastforce simp: del_ok_def)
    then show ?thesis ..
  next
    case (2 x b bk y)
    have ?fin
      using remove_rest_left_far [OF rep refl 2] ok t 2 unfolding del_ok_def fixed_def
      by (fastforce simp: rb_plug)
    then show ?thesis ..
  next
    case (3 x b bk y)
    have ?fin
      using remove_rest_left_near [OF rep refl 3] ok t 3 unfolding del_ok_def fixed_def
      by (fastforce simp: rb_plug)
    then show ?thesis ..
  qed
qed

lemma remove_rest_right:
  assumes ok: "del_ok s t (FR (Nd sl a Black sk sr) p pc pk # z)" and t: "col t = Black"
  shows "(\<exists>s'. remove_rest (root_of (NIL s) t) p a s = ret s' \<and>
      fixed s (entries (plug t (FR (Nd sl a Black sk sr) p pc pk # z))) s') \<or>
    (\<exists>s'. remove_rest (root_of (NIL s) t) p a s = remove_fixup p s' \<and> NIL s' = NIL s \<and>
      del_ok s' (Nd (Nd sl a Red sk sr) p pc pk t) z)" (is "?fin \<or> ?up")
proof -
  note rep = ok [unfolded del_ok_def, THEN conjunct1]
  consider "col sl = Black" "col sr = Black" | x b bk y where "sl = Nd x b Red bk y"
    | x b bk y where "sr = Nd x b Red bk y" "col sl = Black"
    using red_node [of sl] red_node [of sr] by (cases "col sl"; cases "col sr") auto
  then show ?thesis
  proof cases
    case 1
    have ?up
      using remove_rest_right_black [OF rep refl 1] ok t 1 rep_node(1)
      by (fastforce simp: del_ok_def)
    then show ?thesis ..
  next
    case (2 x b bk y)
    have ?fin
      using remove_rest_right_far [OF rep refl 2] ok t 2 unfolding del_ok_def fixed_def
      by (fastforce simp: rb_plug)
    then show ?thesis ..
  next
    case (3 x b bk y)
    have ?fin
      using remove_rest_right_near [OF rep refl 3] ok t 3 unfolding del_ok_def fixed_def
      by (fastforce simp: rb_plug)
    then show ?thesis ..
  qed
qed

text \<open>A red sibling is rotated up first; the new sibling is black and the parent red.\<close>

lemma not_root:
  assumes "rep s (plug t z)" "z \<noteq> []"
  shows "root_of (NIL s) t \<noteq> tree_root s"
  using assms ctx_root_in [OF assms(2), of "root_of (NIL s) t"] root_of_in [of "NIL s" t]
  by (auto simp: rep_plug)

lemma remove_fixup_left_red:
  assumes ok: "del_ok s t (FL p pc pk (Nd sl a Red sk sr) # z)" and t: "col t = Black"
    and par: "get_par (node s (root_of (NIL s) t)) = p"
  shows "\<exists>s'. remove_fixup (root_of (NIL s) t) s =
      remove_rest (root_of (NIL s) t) p (root_of (NIL s) sl) s' \<and> NIL s' = NIL s \<and>
    del_ok s' t (FL p Red pk sl # FL a Black sk sr # z)"
proof -
  let ?n = "root_of (NIL s) t"
  let ?s1 = "upd a set_black (upd p set_red s)"
  let ?s2 = "rotate (get_ref p ?s1) False ?s1"
  note rep = ok [unfolded del_ok_def, THEN conjunct1]
  have p: "rep s (plug (Nd t p pc pk (Nd sl a Red sk sr)) z)"
    and a: "rep s (plug (Nd sl a Red sk sr) (FR t p pc pk # z))" using rep by simp_all
  from set_red_rep [OF p] have "rep (upd p set_red s) (plug (Nd sl a Red sk sr) (FR t p Red pk # z))" by simp
  from set_black_rep [OF this]
  have s1: "rep ?s1 (plug (Nd t p Red pk (Nd sl a Black sk sr)) z)" by simp
  then have "rep ?s2 (plug (Nd (Nd t p Red pk sl) a Black sk sr) z)"
    using rotate_left_rep get_ref_zslot by metis
  then have p2: "rep ?s2 (plug t (FL p Red pk sl # FL a Black sk sr # z))"
    and p3: "rep ?s2 (plug (Nd t p Red pk sl) (FL a Black sk sr # z))" by simp_all
  have "remove_fixup ?n s = remove_rest ?n p (root_of (NIL s) sl) ?s2"
    using par not_root [OF rep] is_black_root [OF rep] t rep_node [OF p] rep_node [OF a]
      rep_siblings [OF p] rep_node(4) [OF p3]
    by (subst remove_fixup_eq) (simp add: Let_def accessors)
  then show ?thesis using p2 ok t by (force simp: del_ok_def)
qed

lemma remove_fixup_right_red:
  assumes ok: "del_ok s t (FR (Nd sl a Red sk sr) p pc pk # z)" and t: "col t = Black"
    and par: "get_par (node s (root_of (NIL s) t)) = p"
  shows "\<exists>s'. remove_fixup (root_of (NIL s) t) s =
      remove_rest (root_of (NIL s) t) p (root_of (NIL s) sr) s' \<and> NIL s' = NIL s \<and>
    del_ok s' t (FR sr p Red pk # FR sl a Black sk # z)"
proof -
  let ?n = "root_of (NIL s) t"
  let ?s1 = "upd a set_black (upd p set_red s)"
  let ?s2 = "rotate (get_ref p ?s1) True ?s1"
  note rep = ok [unfolded del_ok_def, THEN conjunct1]
  have p: "rep s (plug (Nd (Nd sl a Red sk sr) p pc pk t) z)"
    and a: "rep s (plug (Nd sl a Red sk sr) (FL p pc pk t # z))" using rep by simp_all
  from set_red_rep [OF p] have "rep (upd p set_red s) (plug (Nd sl a Red sk sr) (FL p Red pk t # z))" by simp
  from set_black_rep [OF this]
  have s1: "rep ?s1 (plug (Nd (Nd sl a Black sk sr) p Red pk t) z)" by simp
  then have "rep ?s2 (plug (Nd sl a Black sk (Nd sr p Red pk t)) z)"
    using rotate_right_rep get_ref_zslot by metis
  then have p2: "rep ?s2 (plug t (FR sr p Red pk # FR sl a Black sk # z))"
    and p3: "rep ?s2 (plug (Nd sr p Red pk t) (FR sl a Black sk # z))" by simp_all
  have "remove_fixup ?n s = remove_rest ?n p (root_of (NIL s) sr) ?s2"
    using par not_root [OF rep] is_black_root [OF rep] t rep_node [OF p] rep_node [OF a]
      rep_siblings [OF p] rep_node(3) [OF p3]
    by (subst remove_fixup_eq) (simp add: Let_def accessors)
  then show ?thesis using p2 ok t by (force simp: del_ok_def)
qed

lemma remove_fixup_black_sibling:
  assumes rep: "rep s (plug t z)" and t: "col t = Black"
    and par: "get_par (node s (root_of (NIL s) t)) = p"
    and z: "z = FL p pc pk (Nd sl a Black sk sr) # z' \<or> z = FR (Nd sl a Black sk sr) p pc pk # z'"
  shows "remove_fixup (root_of (NIL s) t) s = remove_rest (root_of (NIL s) t) p a s"
  using z
proof
  assume z: "z = FL p pc pk (Nd sl a Black sk sr) # z'"
  then have p: "rep s (plug (Nd t p pc pk (Nd sl a Black sk sr)) z')"
    and a: "rep s (plug (Nd sl a Black sk sr) (FR t p pc pk # z'))" using rep by simp_all
  show ?thesis
    using par not_root [OF rep] z is_black_root [OF rep] t rep_node [OF p] rep_node [OF a]
    by (subst remove_fixup_eq) (simp add: Let_def accessors)
next
  assume z: "z = FR (Nd sl a Black sk sr) p pc pk # z'"
  then have p: "rep s (plug (Nd (Nd sl a Black sk sr) p pc pk t) z')"
    and a: "rep s (plug (Nd sl a Black sk sr) (FL p pc pk t # z'))" using rep by simp_all
  show ?thesis
    using par not_root [OF rep] z is_black_root [OF rep] t rep_node [OF p] rep_node [OF a] rep_siblings [OF p]
    by (subst remove_fixup_eq) (simp add: Let_def accessors)
qed

lemma fixed_trans: "NIL s' = NIL s \<Longrightarrow> fixed s' es r = fixed s es r"
  by (simp add: fixed_def)

text \<open>
  One iteration: it ends with a valid tree, or goes on at the parent \<open>p\<close> of the focus.
\<close>

definition del_step :: "'k Rbt \<Rightarrow> 'k tr \<Rightarrow> 'k frame list \<Rightarrow> 'k frame list \<Rightarrow> u32 \<Rightarrow> bool" where
  "del_step s t z z' p \<longleftrightarrow>
     (\<exists>s'. remove_fixup (root_of (NIL s) t) s = ret s' \<and> fixed s (entries (plug t z)) s') \<or>
     (\<exists>s' l c k r. remove_fixup (root_of (NIL s) t) s = remove_fixup p s' \<and> NIL s' = NIL s \<and>
        del_ok s' (Nd l p c k r) z' \<and> entries (plug (Nd l p c k r) z') = entries (plug t z))"

lemma del_step_end:
  "remove_fixup (root_of (NIL s) t) s = ret s' \<Longrightarrow> fixed s (entries (plug t z)) s' \<Longrightarrow> del_step s t z z' p"
  by (auto simp: del_step_def)

lemma del_step_up:
  "remove_fixup (root_of (NIL s) t) s = remove_fixup p s' \<Longrightarrow> NIL s' = NIL s \<Longrightarrow>
   del_ok s' (Nd l p c k r) z' \<Longrightarrow> entries (plug (Nd l p c k r) z') = entries (plug t z) \<Longrightarrow>
   del_step s t z z' p"
  unfolding del_step_def by blast

lemma remove_fixup_left_step:
  assumes ok: "del_ok s t (FL p pc pk sb # z)" and t: "col t = Black"
    and par: "get_par (node s (root_of (NIL s) t)) = p"
  shows "del_step s t (FL p pc pk sb # z) z p"
proof -
  obtain sl a c sk sr where sb: "sb = Nd sl a c sk sr" using ok by (cases sb) (auto simp: del_ok_def)
  show ?thesis
  proof (cases c)
    case Black
    note ok' = ok [unfolded sb Black]
    have "remove_fixup (root_of (NIL s) t) s = remove_rest (root_of (NIL s) t) p a s"
      by (rule remove_fixup_black_sibling [OF conjunct1 [OF ok' [unfolded del_ok_def]] t par]) simp
    note eq = this
    from remove_rest_left [OF ok' t] show ?thesis
    proof (elim disjE exE conjE)
      fix s' assume "remove_rest (root_of (NIL s) t) p a s = remove_fixup p s'" "NIL s' = NIL s"
        "del_ok s' (Nd t p pc pk (Nd sl a Red sk sr)) z"
      then show ?thesis using eq by (intro del_step_up [of s t p s']) (auto simp: sb Black)
    qed (auto simp: eq sb Black intro: del_step_end)
  next
    case Red
    from remove_fixup_left_red [OF ok [unfolded sb Red] t par] obtain s1
      where s1: "remove_fixup (root_of (NIL s) t) s = remove_rest (root_of (NIL s) t) p (root_of (NIL s) sl) s1"
        "NIL s1 = NIL s" "del_ok s1 t (FL p Red pk sl # FL a Black sk sr # z)" by blast
    then obtain x b y k where nb: "sl = Nd x b Black k y" by (cases sl) (auto simp: del_ok_def)
    from remove_rest_left [OF s1(3) [unfolded nb] t]
    have "\<exists>s'. remove_rest (root_of (NIL s) t) p b s1 = ret s' \<and> fixed s (entries (plug t (FL p pc pk sb # z))) s'"
      using remove_fixup_end [of _ "Nd t p Red pk (Nd x b Red k y)"] s1(2) by (fastforce simp: fixed_def sb nb)
    then show ?thesis using s1(1) by (simp add: del_step_def nb)
  qed
qed

lemma remove_fixup_right_step:
  assumes ok: "del_ok s t (FR sb p pc pk # z)" and t: "col t = Black"
    and par: "get_par (node s (root_of (NIL s) t)) = p"
  shows "del_step s t (FR sb p pc pk # z) z p"
proof -
  obtain sl a c sk sr where sb: "sb = Nd sl a c sk sr" using ok by (cases sb) (auto simp: del_ok_def)
  show ?thesis
  proof (cases c)
    case Black
    note ok' = ok [unfolded sb Black]
    have "remove_fixup (root_of (NIL s) t) s = remove_rest (root_of (NIL s) t) p a s"
      by (rule remove_fixup_black_sibling [OF conjunct1 [OF ok' [unfolded del_ok_def]] t par]) simp
    note eq = this
    from remove_rest_right [OF ok' t] show ?thesis
    proof (elim disjE exE conjE)
      fix s' assume "remove_rest (root_of (NIL s) t) p a s = remove_fixup p s'" "NIL s' = NIL s"
        "del_ok s' (Nd (Nd sl a Red sk sr) p pc pk t) z"
      then show ?thesis using eq by (intro del_step_up [of s t p s']) (auto simp: sb Black)
    qed (auto simp: eq sb Black intro: del_step_end)
  next
    case Red
    from remove_fixup_right_red [OF ok [unfolded sb Red] t par] obtain s1
      where s1: "remove_fixup (root_of (NIL s) t) s = remove_rest (root_of (NIL s) t) p (root_of (NIL s) sr) s1"
        "NIL s1 = NIL s" "del_ok s1 t (FR sr p Red pk # FR sl a Black sk # z)" by blast
    then obtain x b y k where nb: "sr = Nd x b Black k y" by (cases sr) (auto simp: del_ok_def)
    from remove_rest_right [OF s1(3) [unfolded nb] t]
    have "\<exists>s'. remove_rest (root_of (NIL s) t) p b s1 = ret s' \<and> fixed s (entries (plug t (FR sb p pc pk # z))) s'"
      using remove_fixup_end [of _ "Nd (Nd x b Red k y) p Red pk t"] s1(2) by (fastforce simp: fixed_def sb nb)
    then show ?thesis using s1(1) by (simp add: del_step_def nb)
  qed
qed

lemma remove_fixup_correct:
  "del_ok s t z \<Longrightarrow> get_par (node s (root_of (NIL s) t)) = ctx_par (NIL s) z \<Longrightarrow>
     \<exists>s'. remove_fixup (root_of (NIL s) t) s = ret s' \<and> fixed s (entries (plug t z)) s'"
proof (induction z arbitrary: s t)
  case Nil
  then show ?case using remove_fixup_end by blast
next
  case (Cons f z)
  show ?case
  proof (cases "col t")
    case Red
    then show ?thesis using Cons.prems remove_fixup_end by blast
  next
    case Black
    obtain p where p: "del_step s t (f # z) z p"
      using Cons.prems remove_fixup_left_step remove_fixup_right_step Black by (cases f) fastforce+
    have "\<exists>s''. remove_fixup p s' = ret s'' \<and> fixed s' (entries (plug (Nd l p c k r) z)) s''"
      if "del_ok s' (Nd l p c k r) z" for s' l c k r
      using Cons.IH [OF that] that rep_node(1) [of s' l p c k r z] by (simp add: del_ok_def)
    with p show ?thesis unfolding del_step_def by (metis fixed_trans)
  qed
qed

section \<open>Removing a node with at most one child\<close>

lemma tree_at_copy_par:
  assumes "tree_at nil h p t" "distinct (nil # addrs t)"
  shows "tree_at nil (h(root_of nil t := copy_par n (h (root_of nil t)))) (get_par n) t"
  using assms by (cases t) (auto simp: is_node_def)

lemma unlink_rep:
  assumes rep: "rep s (plug (Nd l n c k r) z)" and x: "x = (if l = Lf then r else l)" "l = Lf \<or> r = Lf"
  defines "s2 \<equiv> assign (zslot z) (root_of (NIL s) x) (upd (root_of (NIL s) x) (copy_par (node s n)) s)"
  shows "rep s2 (plug x z)" "is_black (node s2 n) \<longleftrightarrow> c = Black"
    "get_par (node s2 (root_of (NIL s) x)) = ctx_par (NIL s) z" "NIL s2 = NIL s"
proof -
  let ?x = "root_of (NIL s) x"
  let ?s1 = "upd ?x (copy_par (node s n)) s"
  note node = rep_node [OF rep]
  have xin: "?x = NIL s \<or> ?x \<in> set (addrs x)" by (rule root_of_in)
  have sub: "set (addrs x) \<subseteq> set (addrs (Nd l n c k r))" using x by (auto split: if_splits)
  have slot: "q \<noteq> n \<and> q \<noteq> ?x" if "zslot z = Child q d" for q d
    using that xin x rep by (cases z rule: zslot.cases) (auto simp: rep_plug split: if_splits)
  have "tree_at (NIL s) (node ?s1) (get_par (node s n)) x"
    using tree_at_copy_par [of "NIL s" "node s" n x] x rep by (auto simp: rep_plug)
  then show "rep s2 (plug x z)" unfolding s2_def
    by (intro rep_replace [OF rep]) (use rep x xin sub node(1) in \<open>auto simp: rep_plug\<close>)
  have "?x \<noteq> n" using node x by auto
  then show "is_black (node s2 n) \<longleftrightarrow> c = Black" "get_par (node s2 ?x) = ctx_par (NIL s) z"
    using node slot unfolding s2_def by (cases "zslot z"; auto)+
  show "NIL s2 = NIL s" by (simp add: s2_def)
qed

lemma remove_bottom_correct:
  assumes rep: "rep s (plug (Nd l n c k r) z)" and rb: "rb (plug (Nd l n c k r) z)"
    and leaf: "l = Lf \<or> r = Lf"
  shows "\<exists>s'. remove_bottom node_free (zslot z) s m = ret (s', node_free n m) \<and>
    fixed s (lefts z @ entries l @ entries r @ rights z) s'"
proof -
  define x where "x = (if l = Lf then r else l)"
  let ?x = "root_of (NIL s) x"
  define s2 where "s2 = assign (zslot z) ?x (upd ?x (copy_par (node s n)) s)"
  note s2 = unlink_rep [OF rep x_def leaf, folded s2_def]
  have entries: "entries (plug x z) = lefts z @ entries l @ entries r @ rights z"
    using leaf by (auto simp: x_def)
  have "ch (node s n) (ch (node s n) False = NIL s) = ?x"
    using rep_node [OF rep] rep_siblings [OF rep] by (auto simp: x_def)
  then have eq: "remove_bottom node_free (zslot z) s m =
      (if c = Red then ret (s2, node_free n m)
       else if col x = Red then ret (upd ?x set_black s2, node_free n m)
       else andThen (remove_fixup ?x s2) (\<lambda>s3. ret (s3, node_free n m)))"
    using deref_zslot [OF rep] s2(2) is_black_root [OF s2(1)] s2(4)
    by (simp add: remove_bottom_def Let_def s2_def [symmetric] accessors)
  consider "c = Red" "x = Lf" | "c = Black" "col x = Red" | "c = Black" "x = Lf" "zinv z (Suc 0)"
    using rb leaf by (cases c; cases l; cases r) (auto simp: x_def rb_plug split: if_splits)
  then show ?thesis
  proof cases
    case 1
    with rb leaf have "rb (plug x z)" unfolding rb_plug by (auto simp: x_def split: if_splits)
    with 1 eq s2 entries show ?thesis by (auto simp: fixed_def)
  next
    case 2
    with rb leaf have "rb (plug (blacken x) z)"
      unfolding rb_plug by (cases x) (auto simp: x_def split: if_splits)
    with 2 eq set_black_root_rep [OF s2(1)] s2(4) entries show ?thesis
      by (auto simp: fixed_def intro!: exI [of _ "plug (blacken x) z"])
  next
    case 3
    then have "del_ok s2 x z" using s2(1) by (simp add: del_ok_def)
    from remove_fixup_correct [OF this] 3 s2(3,4) eq entries show ?thesis
      by (auto simp: fixed_def)
  qed
qed

section \<open>Erasure\<close>

lemma lefts_append: "lefts (y @ z) = lefts z @ lefts y"
  by (induction y rule: lefts.induct) auto

lemma rights_append: "rights (y @ z) = rights y @ rights z"
  by (induction y rule: rights.induct) auto

text \<open>The loop that looks for the in-order successor ends at the leftmost node.\<close>

lemma erase_min_correct:
  assumes "rep s (plug t z)" "t \<noteq> Lf"
  shows "\<exists>b c k r y. erase_min s prev (root_of (NIL s) t) = ret b \<and> lefts y = [] \<and>
    (\<forall>z. plug t z = plug (Nd Lf b c k r) (y @ z))"
  using assms
proof (induction t arbitrary: z prev)
  case Lf
  then show ?case by simp
next
  case (Nd l a c k r)
  note node = rep_node [OF Nd.prems(1)]
  show ?case
  proof (cases "l = Lf")
    case True
    then have "erase_min s prev a = ret a"
      using node by (subst erase_min.simps, subst erase_min.simps) simp
    with True show ?thesis
      by (intro exI [of _ a] exI [of _ c] exI [of _ k] exI [of _ r] exI [of _ "[]"]) simp
  next
    case False
    have "rep s (plug l (FL a c k r # z))" using Nd.prems(1) by simp
    from Nd.IH(1) [OF this False, of a] obtain b c' k' r' y
      where y: "erase_min s a (root_of (NIL s) l) = ret b" "lefts y = []"
        "\<forall>z. plug l z = plug (Nd Lf b c' k' r') (y @ z)" by blast
    then have "plug (Nd l a c k r) z = plug (Nd Lf b c' k' r') ((y @ [FL a c k r]) @ z)" for z
      by (metis append.assoc append_Cons append_Nil plug.simps(2))
    moreover have "erase_min s prev a = ret b" using node y(1) by (subst erase_min.simps) simp
    moreover have "lefts (y @ [FL a c k r]) = []" using y(2) by (simp add: lefts_append)
    ultimately show ?thesis
      by (intro exI [of _ b] exI [of _ c'] exI [of _ k'] exI [of _ r'] exI [of _ "y @ [FL a c k r]"]) simp
  qed
qed

text \<open>
  \<^verbatim>\<open>erase(ptr)\<close> returns; the tree stays valid and loses exactly the key of the node
  \<^verbatim>\<open>ptr\<close>; the node given back to the allocator is \<^verbatim>\<open>ptr\<close> itself or the one
  of its in-order successor, whose key \<^verbatim>\<open>ptr\<close> then holds.
\<close>

lemma rbt_erase_at:
  assumes rep: "rep s (plug (Nd l a c k r) z)" and rb: "rb (plug (Nd l a c k r) z)"
  shows "\<exists>s' b R. rbt_erase node_free a s m = ret (s', node_free b m) \<and>
    fixed s (lefts z @ entries l @ R) s' \<and>
    map snd R = map snd (entries r @ rights z) \<and>
    insert b (fst ` set R) = insert a (fst ` set (entries r @ rights z)) \<and> b \<notin> fst ` set R"
proof (cases "r = Lf")
  case True
  have "erase_min s (NIL s) (ch (node s a) True) = ret (NIL s)"
    using rep_node(4) [OF rep] True by (subst erase_min.simps) simp
  then have "rbt_erase node_free a s m = remove_bottom node_free (zslot z) s m"
    using get_ref_zslot [OF rep] rep_node(6,7) [OF rep] by (simp add: rbt_erase_def)
  moreover have "a \<notin> fst ` set (rights z)"
    using rep by (auto simp: rep_plug ctx_addrs_def)
  ultimately show ?thesis
    using remove_bottom_correct [OF rep rb, of node_free m] True by (auto intro!: exI [of _ "rights z"])
next
  case False
  have r: "rep s (plug r (FR l a c k # z))" using rep by simp
  from erase_min_correct [OF r False, of "NIL s"] obtain b c' k' r' y
    where y: "erase_min s (NIL s) (root_of (NIL s) r) = ret b" "lefts y = []"
      "\<And>z. plug r z = plug (Nd Lf b c' k' r') (y @ z)" by blast
  let ?s1 = "upd a (set_key k') s"
  let ?z = "y @ FR l a c k' # z"
  have er: "entries r = (b, k') # entries r' @ rights y"
    using y(2) y(3) [of "[]"] by (metis append.right_neutral append_Nil entries.simps(1,2) append_Cons entries_plug plug.simps(1))
  have s1: "rep ?s1 (plug (Nd Lf b c' k' r') ?z)" using set_key_rep [OF rep, of k'] y(3) by (metis plug.simps(3))
  have "rb (plug (Nd l a c k' r) z)" using rb by (simp add: rb_plug)
  then have rb1: "rb (plug (Nd Lf b c' k' r') ?z)" using y(3) [of "FR l a c k' # z"] by simp
  have "b \<noteq> NIL s" "b \<noteq> a" "b \<notin> fst ` set (entries r' @ rights y @ rights z)"
    using s1 by (auto simp: rep_plug ctx_addrs_def lefts_append rights_append addrs_def)
  moreover have "rep s (plug (Nd Lf b c' k' r') (y @ FR l a c k # z))" using r y(3) by metis
  ultimately have "rbt_erase node_free a s m = remove_bottom node_free (zslot ?z) ?s1 m"
    using y(1) rep_node(4,6,7) [OF rep] get_ref_zslot [OF s1] rep_node(5) [of s Lf b c' k' r' "y @ FR l a c k # z"]
    by (simp add: rbt_erase_def Let_def)
  with remove_bottom_correct [OF s1 rb1, of node_free m] obtain s'
    where "rbt_erase node_free a s m = ret (s', node_free b m)"
      "fixed s (lefts z @ entries l @ (a, k') # entries r' @ rights y @ rights z) s'"
    by (auto simp: lefts_append rights_append y(2) fixed_def)
  then show ?thesis
    using er \<open>b \<noteq> a\<close> \<open>b \<notin> fst ` set (entries r' @ rights y @ rights z)\<close>
    by (intro exI [of _ s'] exI [of _ b] exI [of _ "(a, k') # entries r' @ rights y @ rights z"])
      (auto simp: image_Un)
qed

end
