(* ===== verification/Rbtree_Search.thy ===== *)
theory Rbtree_Search
  imports Rbtree_Erase "HOL-Library.Multiset"
begin

text \<open>
  The searches \<^verbatim>\<open>find_ge\<close> and \<^verbatim>\<open>find_le\<close>, the traversals \<^verbatim>\<open>walk\<close> and
  \<^verbatim>\<open>clear\<close>, erasure as seen through the keys, and the contract of the whole template
  as a locale, which its clients use.
\<close>

section \<open>Searches\<close>

definition first_entry :: "('k \<Rightarrow> bool) \<Rightarrow> (u32 \<times> 'k) list \<Rightarrow> (u32 \<times> 'k) option" where
  "first_entry P es = find (\<lambda>(a, k). P k) es"

lemma first_entry_simps [simp]:
  "first_entry P [] = None"
  "first_entry P ((a, k) # es) = (if P k then Some (a, k) else first_entry P es)"
  by (simp_all add: first_entry_def)

lemma first_entry_append:
  "first_entry P (xs @ ys) = (case first_entry P xs of None \<Rightarrow> first_entry P ys | Some e \<Rightarrow> Some e)"
  by (induction xs) (auto split: option.splits)

lemma first_entry_None: "first_entry P es = None \<longleftrightarrow> (\<forall>(a, k) \<in> set es. \<not> P k)"
  by (auto simp: first_entry_def find_None_iff)

lemma first_entry_Some:
  "first_entry P es = Some (a, k) \<Longrightarrow>
     \<exists>xs ys. es = xs @ (a, k) # ys \<and> P k \<and> (\<forall>(b, j) \<in> set xs. \<not> P j)"
proof (induction es)
  case (Cons e es)
  then show ?case
  proof (cases "P (snd e)")
    case True
    with Cons.prems show ?thesis by (cases e) (auto intro: exI [of _ "[]"])
  next
    case False
    with Cons obtain xs ys where "es = xs @ (a, k) # ys" "P k" "\<forall>(b, j) \<in> set xs. \<not> P j"
      by (cases e) auto
    with False show ?thesis by (intro exI [of _ "e # xs"] exI [of _ ys]) (cases e, auto)
  qed
qed simp

definition addr_or :: "u32 \<Rightarrow> (u32 \<times> 'k) option \<Rightarrow> u32" where
  "addr_or d e = (case e of None \<Rightarrow> d | Some (a, k) \<Rightarrow> a)"

lemma do_find_ge_correct:
  assumes "weak_order lt" "rep s (plug t z)" "ordered lt (keys t)"
  shows "do_find_ge lt val s (root_of (NIL s) t) pos =
    ret (addr_or pos (first_entry (\<lambda>k. \<not> lt k val) (entries t)))"
  using assms(2,3)
proof (induction t arbitrary: z pos)
  case Lf
  then show ?case by (subst do_find_ge.simps) (simp add: addr_or_def)
next
  case (Nd l a c k r)
  note node = rep_node [OF Nd.prems(1)]
  have l: "rep s (plug l (FL a c k r # z))" "ordered lt (keys l)"
    and r: "rep s (plug r (FR l a c k # z))" "ordered lt (keys r)"
    and le: "\<forall>x \<in> set (keys l). \<not> lt k x"
    using Nd.prems by (auto simp: ordered_def sorted_wrt_append)
  show ?case
  proof (cases "lt k val")
    case True
    have "first_entry (\<lambda>k. \<not> lt k val) (entries l) = None"
      using le weak_order.less_left [OF assms(1) _ True] by (force simp: first_entry_None keys_def)
    with True Nd.IH(2) [OF r] node show ?thesis
      by (subst do_find_ge.simps) (simp add: first_entry_append)
  next
    case False
    with Nd.IH(1) [OF l] node show ?thesis
      by (subst do_find_ge.simps) (auto simp: first_entry_append addr_or_def split: option.splits)
  qed
qed

lemma do_find_le_correct:
  assumes "weak_order lt" "\<And>x y. le x y \<longleftrightarrow> \<not> lt y x" "rep s (plug t z)" "ordered lt (keys t)"
  shows "do_find_le le val s (root_of (NIL s) t) pos =
    ret (addr_or pos (first_entry (\<lambda>k. le k val) (rev (entries t))))"
  using assms(3,4)
proof (induction t arbitrary: z pos)
  case Lf
  then show ?case by (subst do_find_le.simps) (simp add: addr_or_def)
next
  case (Nd l a c k r)
  note node = rep_node [OF Nd.prems(1)]
  have l: "rep s (plug l (FL a c k r # z))" "ordered lt (keys l)"
    and r: "rep s (plug r (FR l a c k # z))" "ordered lt (keys r)"
    and ge: "\<forall>x \<in> set (keys r). \<not> lt x k"
    using Nd.prems by (auto simp: ordered_def sorted_wrt_append)
  show ?case
  proof (cases "le k val")
    case True
    with Nd.IH(2) [OF r] node show ?thesis
      by (subst do_find_le.simps) (auto simp: first_entry_append addr_or_def split: option.splits)
  next
    case False
    then have "lt val k" by (simp add: assms(2))
    then have "lt val x" if "x \<in> set (keys r)" for x
      using ge that weak_order.negtrans [OF assms(1), of val x k] by blast
    then have "first_entry (\<lambda>k. le k val) (rev (entries r)) = None"
      by (force simp: first_entry_None keys_def assms(2))
    with False Nd.IH(1) [OF l] node show ?thesis
      by (subst do_find_le.simps) (simp add: first_entry_append)
  qed
qed

section \<open>Traversals\<close>

lemma do_walk_correct:
  "rep s (plug t z) \<Longrightarrow> do_walk callback s (root_of (NIL s) t) x = ret (fold callback (keys t) x)"
proof (induction t arbitrary: z x)
  case Lf
  then show ?case by (subst do_walk.simps) simp
next
  case (Nd l a c k r)
  note node = rep_node [OF Nd.prems]
  have l: "rep s (plug l (FL a c k r # z))" and r: "rep s (plug r (FR l a c k # z))"
    using Nd.prems by simp_all
  from Nd.IH(1) [OF l] Nd.IH(2) [OF r] node show ?case by (subst do_walk.simps) simp
qed

fun postorder :: "'k tr \<Rightarrow> u32 list" where
  "postorder Lf = []"
| "postorder (Nd l a c k r) = postorder l @ postorder r @ [a]"

lemma mset_postorder: "mset (postorder t) = mset (addrs t)"
  by (induction t) auto

lemma do_clear_correct:
  "rep s (plug t z) \<Longrightarrow> do_clear node_free s (root_of (NIL s) t) m = ret (fold node_free (postorder t) m)"
proof (induction t arbitrary: z m)
  case Lf
  then show ?case by (subst do_clear.simps) simp
next
  case (Nd l a c k r)
  note node = rep_node [OF Nd.prems]
  have l: "rep s (plug l (FL a c k r # z))" and r: "rep s (plug r (FR l a c k # z))"
    using Nd.prems by simp_all
  from Nd.IH(1) [OF l] Nd.IH(2) [OF r] node show ?case by (subst do_clear.simps) simp
qed

section \<open>Positions of addresses\<close>

lemma position_of:
  "a \<in> set (addrs t) \<Longrightarrow> \<exists>l c k r y. \<forall>z. plug t z = plug (Nd l a c k r) (y @ z)"
proof (induction t)
  case (Nd l b c k r)
  then consider "a = b" | "a \<in> set (addrs l)" | "a \<in> set (addrs r)" by auto
  then show ?case
  proof cases
    case 1
    then show ?thesis by (metis append_Nil)
  next
    case 2
    then obtain l' c' k' r' y where "\<forall>z. plug l z = plug (Nd l' a c' k' r') (y @ z)" using Nd.IH by blast
    then have "\<forall>z. plug (Nd l b c k r) z = plug (Nd l' a c' k' r') ((y @ [FL b c k r]) @ z)"
      by (metis append.assoc append_Cons append_Nil plug.simps(2))
    then show ?thesis by blast
  next
    case 3
    then obtain l' c' k' r' y where "\<forall>z. plug r z = plug (Nd l' a c' k' r') (y @ z)" using Nd.IH by blast
    then have "\<forall>z. plug (Nd l b c k r) z = plug (Nd l' a c' k' r') ((y @ [FR l b c k]) @ z)"
      by (metis append.assoc append_Cons append_Nil plug.simps(3))
    then show ?thesis by blast
  qed
qed simp

lemma position_of_rep:
  assumes "a \<in> set (addrs t)"
  obtains l c k r z where "t = plug (Nd l a c k r) z"
  using position_of [OF assms] by (metis append.right_neutral plug.simps(1))

lemma key_of_entry:
  assumes rep: "rep s t" and e: "(a, k) \<in> set (entries t)"
  shows "key (node s a) = k"
proof -
  have "a \<in> set (addrs t)" using e by (force simp: addrs_def)
  then obtain l c k' r z where t: "t = plug (Nd l a c k' r) z" by (rule position_of_rep)
  have "distinct (map fst (entries t))" using rep by (simp add: rep_def addrs_def)
  moreover have "(a, k') \<in> set (entries t)" by (simp add: t)
  ultimately have "k = k'" using e by (metis eq_key_imp_eq_value)
  then show ?thesis using rep_node(5) [of s l a c k' r z] rep t by simp
qed

lemma entry_of_addr:
  assumes "rep s t" "a \<in> set (addrs t)"
  shows "(a, key (node s a)) \<in> set (entries t)"
  using assms key_of_entry [OF assms(1)] by (auto simp: addrs_def)

lemma remove_one_addr:
  assumes "distinct (map fst (xs @ (p, k) # ys))"
    and "insert b (fst ` set zs) = insert p (fst ` set ys)" "b \<notin> fst ` set zs"
  shows "b \<in> fst ` set (xs @ (p, k) # ys)"
    "fst ` set (xs @ zs) = fst ` set (xs @ (p, k) # ys) - {b}"
proof -
  let ?Y = "insert p (fst ` set ys)"
  have b: "b \<in> ?Y" and zs: "fst ` set zs = ?Y - {b}" using assms(2,3) by blast+
  have xs: "fst ` set xs \<inter> ?Y = {}" using assms(1) by auto
  show "b \<in> fst ` set (xs @ (p, k) # ys)" using b by (auto simp: image_Un)
  have "fst ` set xs \<union> (?Y - {b}) = fst ` set xs \<union> ?Y - {b}" using b xs by blast
  then show "fst ` set (xs @ zs) = fst ` set (xs @ (p, k) # ys) - {b}"
    by (simp add: image_Un zs)
qed

section \<open>Erasure seen through the keys\<close>

context weak_order
begin

lemma rbt_erase_correct:
  assumes ok: "rbt_ok lt s t" and p: "p \<in> set (addrs t)"
  shows "\<exists>s' b t'. rbt_erase node_free p s m = ret (s', node_free b m) \<and> NIL s' = NIL s \<and>
    rbt_ok lt s' t' \<and> mset (keys t') = mset (keys t) - {#key (node s p)#} \<and>
    b \<in> set (addrs t) \<and> set (addrs t') = set (addrs t) - {b}"
proof -
  from p obtain l c k r z where t: "t = plug (Nd l p c k r) z" by (rule position_of_rep)
  from ok have rep: "rep s (plug (Nd l p c k r) z)" and rb: "rb (plug (Nd l p c k r) z)"
    and ord: "ordered lt (keys t)" by (simp_all add: rbt_ok_def t)
  from rbt_erase_at [OF rep rb, of node_free m] obtain s' b R
    where s': "rbt_erase node_free p s m = ret (s', node_free b m)" "fixed s (lefts z @ entries l @ R) s'"
      and R: "map snd R = map snd (entries r @ rights z)"
        "insert b (fst ` set R) = insert p (fst ` set (entries r @ rights z))" "b \<notin> fst ` set R" by blast
  from s'(2) obtain t' where t': "NIL s' = NIL s" "rep s' t'" "rb t'" "entries t' = lefts z @ entries l @ R"
    by (auto simp: fixed_def)
  have keys': "keys t' = map snd (lefts z @ entries l) @ map snd (entries r @ rights z)"
    using R(1) by (simp add: keys_def t'(4))
  have keys: "keys t = map snd (lefts z @ entries l) @ k # map snd (entries r @ rights z)"
    by (simp add: keys_def t)
  have dist: "distinct (map fst ((lefts z @ entries l) @ (p, k) # (entries r @ rights z)))"
    using rep by (simp add: rep_def addrs_def)
  then have "b \<in> set (addrs t)" "set (addrs t') = set (addrs t) - {b}"
    using remove_one_addr [OF dist, of b R] R(2,3) by (simp_all add: addrs_def t t'(4) image_Un)
  moreover have "ordered lt (keys t')"
    using ord unfolding keys keys' by (auto simp: ordered_def sorted_wrt_append)
  moreover have "mset (keys t') = mset (keys t) - {#key (node s p)#}"
    using rep_node(5) [OF rep] by (simp add: keys keys')
  ultimately show ?thesis using s'(1) t' by (auto simp: rbt_ok_def)
qed

lemma find_ge_correct:
  assumes "rbt_ok lt s t"
  shows "\<exists>p. find_ge lt val s = ret p \<and>
    (p = 0 \<and> (\<forall>k \<in> set (keys t). lt k val) \<or>
     p \<noteq> 0 \<and> p \<in> set (addrs t) \<and> key (node s p) \<in> set (keys t) \<and> \<not> lt (key (node s p)) val \<and>
       (\<forall>k \<in> set (keys t). \<not> lt k val \<longrightarrow> \<not> lt k (key (node s p))))"
proof -
  from assms have ok: "rep s t" "ordered lt (keys t)" by (auto simp: rbt_ok_def)
  let ?e = "first_entry (\<lambda>k. \<not> lt k val) (entries t)"
  have find: "find_ge lt val s = (if addr_or (NIL s) ?e = NIL s then ret 0 else ret (addr_or (NIL s) ?e))"
    using do_find_ge_correct [OF weak_order_axioms, of s t "[]" val] ok
    by (simp add: find_ge_def rep_def)
  show ?thesis
  proof (cases ?e)
    case None
    then have "find_ge lt val s = ret 0" using find by (simp add: addr_or_def)
    moreover have "\<forall>k \<in> set (keys t). lt k val" using None by (auto simp: first_entry_None keys_def)
    ultimately show ?thesis by blast
  next
    case (Some e)
    obtain a k where e: "e = (a, k)" by (cases e)
    from first_entry_Some [OF Some [unfolded e]] obtain xs ys
      where xs: "entries t = xs @ (a, k) # ys" "\<not> lt k val" "\<forall>(b, j) \<in> set xs. lt j val" by auto
    have k: "key (node s a) = k" using key_of_entry [OF ok(1)] xs(1) by simp
    have a: "a \<in> set (addrs t)" "a \<noteq> NIL s" "a \<noteq> 0"
      using ok(1) by (auto simp: rep_def addrs_def xs(1))
    have "\<not> lt j k" if "j \<in> set (keys t)" "\<not> lt j val" for j
      using that ok(2) xs asym [of j k] by (fastforce simp: keys_def ordered_def sorted_wrt_append)
    moreover have "k \<in> set (keys t)" by (simp add: keys_def xs(1))
    ultimately show ?thesis using find k a xs(2) Some e by (auto simp: addr_or_def)
  qed
qed

lemma find_le_correct:
  assumes "rbt_ok lt s t" and le: "\<And>x y. le x y \<longleftrightarrow> \<not> lt y x"
  shows "\<exists>p. find_le le val s = ret p \<and>
    (p = 0 \<and> (\<forall>k \<in> set (keys t). lt val k) \<or>
     p \<noteq> 0 \<and> p \<in> set (addrs t) \<and> key (node s p) \<in> set (keys t) \<and> \<not> lt val (key (node s p)) \<and>
       (\<forall>k \<in> set (keys t). \<not> lt val k \<longrightarrow> \<not> lt (key (node s p)) k))"
proof -
  from assms(1) have ok: "rep s t" "ordered lt (keys t)" by (auto simp: rbt_ok_def)
  let ?e = "first_entry (\<lambda>k. le k val) (rev (entries t))"
  have find: "find_le le val s = (if addr_or (NIL s) ?e = NIL s then ret 0 else ret (addr_or (NIL s) ?e))"
    using do_find_le_correct [OF weak_order_axioms le, of s t "[]" val] ok
    by (simp add: find_le_def rep_def)
  show ?thesis
  proof (cases ?e)
    case None
    then have "find_le le val s = ret 0" using find by (simp add: addr_or_def)
    moreover have "\<forall>k \<in> set (keys t). lt val k" using None by (auto simp: first_entry_None keys_def le)
    ultimately show ?thesis by blast
  next
    case (Some e)
    obtain a k where e: "e = (a, k)" by (cases e)
    from first_entry_Some [OF Some [unfolded e]] obtain xs ys
      where xs: "rev (entries t) = xs @ (a, k) # ys" "\<not> lt val k" "\<forall>(b, j) \<in> set xs. lt val j"
      by (auto simp: le)
    then have es: "entries t = rev ys @ (a, k) # rev xs" by (simp add: rev_swap)
    have k: "key (node s a) = k" using key_of_entry [OF ok(1)] es by simp
    have a: "a \<in> set (addrs t)" "a \<noteq> NIL s" "a \<noteq> 0"
      using ok(1) by (auto simp: rep_def addrs_def es)
    have "\<not> lt k j" if "j \<in> set (keys t)" "\<not> lt val j" for j
      using that ok(2) xs(3) asym [of k j] by (fastforce simp: keys_def ordered_def sorted_wrt_append es)
    moreover have "k \<in> set (keys t)" by (simp add: keys_def es)
    ultimately show ?thesis using find k a xs(2) Some e by (auto simp: addr_or_def)
  qed
qed

end

section \<open>The contract of the template\<close>

text \<open>
  The allocator a tree is constructed with: it hands out addresses of a pool of node-sized
  places on even boundaries, never one that is in use.
\<close>

locale node_store =
  fixes node_alloc :: "'m \<Rightarrow> (u32 \<times> 'm) exec"
    and node_free :: "u32 \<Rightarrow> 'm \<Rightarrow> 'm"
    and invar :: "'m \<Rightarrow> bool"
    and in_use :: "'m \<Rightarrow> u32 set"
    and pool :: "'m \<Rightarrow> u32 set"
  assumes alloc_returns: "invar m \<Longrightarrow> node_alloc m \<noteq> None"
    and alloc_fresh: "invar m \<Longrightarrow> node_alloc m = ret (a, m') \<Longrightarrow>
      a \<in> pool m \<and> a \<notin> in_use m \<and> in_use m' = insert a (in_use m) \<and> invar m' \<and> pool m' = pool m"
    and free_used: "invar m \<Longrightarrow> a \<in> in_use m \<Longrightarrow>
      invar (node_free a m) \<and> in_use m - {a} \<subseteq> in_use (node_free a m) \<and>
      in_use (node_free a m) \<subseteq> in_use m \<and> pool (node_free a m) = pool m"
    and pool_even: "invar m \<Longrightarrow> a \<in> pool m \<Longrightarrow> even_addr a \<and> a \<noteq> 0"

locale rbt_client = weak_order lt + node_store node_alloc node_free invar in_use pool
  for lt :: "'k \<Rightarrow> 'k \<Rightarrow> bool"
    and node_alloc :: "'m \<Rightarrow> (u32 \<times> 'm) exec"
    and node_free :: "u32 \<Rightarrow> 'm \<Rightarrow> 'm"
    and invar :: "'m \<Rightarrow> bool"
    and in_use :: "'m \<Rightarrow> u32 set"
    and pool :: "'m \<Rightarrow> u32 set"
begin

text \<open>A tree object whose nodes the allocator has given out.\<close>

definition owned :: "'k Rbt \<Rightarrow> 'm \<Rightarrow> 'k tr \<Rightarrow> bool" where
  "owned s m t \<longleftrightarrow> rbt_ok lt s t \<and> invar m \<and> set (addrs t) \<subseteq> in_use m \<and> NIL s \<notin> pool m"

lemma insert_owned:
  assumes own: "owned s m t" and alloc: "node_alloc m = ret (a, m')"
  shows "\<exists>s' t'. rbt_insert node_alloc lt val s m = ret (s', m') \<and> NIL s' = NIL s \<and> owned s' m' t' \<and>
    mset (keys t') = add_mset val (mset (keys t)) \<and> set (addrs t') = insert a (set (addrs t))"
proof -
  have inv: "invar m" using own by (simp add: owned_def)
  from own alloc_fresh [OF inv alloc] pool_even [OF inv]
  have a: "a \<noteq> NIL s" "a \<noteq> 0" "even_addr a" "a \<notin> set (addrs t)" and m': "invar m'"
    "in_use m' = insert a (in_use m)" "pool m' = pool m"
    unfolding owned_def by blast+
  from own have "rbt_ok lt s t" by (simp add: owned_def)
  from rbt_insert_correct [of s t node_alloc m a m' val, OF this alloc a] obtain s' t' L R
    where s': "rbt_insert node_alloc lt val s m = ret (s', m')" "NIL s' = NIL s" "rbt_ok lt s' t'"
      and e: "entries t = L @ R" "entries t' = L @ (a, val) # R" by blast
  have "mset (keys t') = add_mset val (mset (keys t))" by (simp add: keys_def e)
  moreover have "set (addrs t') = insert a (set (addrs t))" by (simp add: addrs_def e)
  moreover have "owned s' m' t'" using s' own m' calculation by (auto simp: owned_def)
  ultimately show ?thesis using s' by blast
qed

lemma insert_halts:
  assumes own: "owned s m t" and alloc: "node_alloc m = halt p"
  shows "rbt_insert node_alloc lt val s m = halt p"
proof (cases "tree_root s = NIL s")
  case True
  then show ?thesis by (simp add: rbt_insert_def alloc)
next
  case False
  from own have ok: "rep s t" "ordered lt (keys t)" by (auto simp: owned_def rbt_ok_def)
  then obtain q where "insert_descend lt val s (NIL s) (tree_root s) = ret q"
    using insert_descend_correct [of s t "[]" val] by (auto simp: splits_at_def descended_def rep_def)
  with False alloc show ?thesis by (simp add: rbt_insert_def)
qed

lemma find_ge_owned:
  assumes own: "owned s m t"
  shows "\<exists>p. find_ge lt val s = ret p \<and>
    (p = 0 \<and> (\<forall>k \<in> set (keys t). lt k val) \<or>
     p \<noteq> 0 \<and> p \<in> set (addrs t) \<and> key (node s p) \<in> set (keys t) \<and> \<not> lt (key (node s p)) val \<and>
       (\<forall>k \<in> set (keys t). \<not> lt k val \<longrightarrow> \<not> lt k (key (node s p))))"
  using own find_ge_correct by (simp add: owned_def)

lemma find_le_owned:
  assumes own: "owned s m t" and le: "\<And>x y. le x y \<longleftrightarrow> \<not> lt y x"
  shows "\<exists>p. find_le le val s = ret p \<and>
    (p = 0 \<and> (\<forall>k \<in> set (keys t). lt val k) \<or>
     p \<noteq> 0 \<and> p \<in> set (addrs t) \<and> key (node s p) \<in> set (keys t) \<and> \<not> lt val (key (node s p)) \<and>
       (\<forall>k \<in> set (keys t). \<not> lt val k \<longrightarrow> \<not> lt (key (node s p)) k))"
  using own find_le_correct [OF _ le] by (simp add: owned_def)

lemma erase_owned:
  assumes own: "owned s m t" and p: "p \<in> set (addrs t)"
  shows "\<exists>s' b t'. rbt_erase node_free p s m = ret (s', node_free b m) \<and> NIL s' = NIL s \<and>
    owned s' (node_free b m) t' \<and> mset (keys t') = mset (keys t) - {#key (node s p)#} \<and>
    b \<in> set (addrs t) \<and> set (addrs t') = set (addrs t) - {b}"
proof -
  from own have ok: "rbt_ok lt s t" "set (addrs t) \<subseteq> in_use m" "invar m" "NIL s \<notin> pool m"
    by (auto simp: owned_def)
  from rbt_erase_correct [OF ok(1) p, of node_free m] obtain s' b t'
    where s': "rbt_erase node_free p s m = ret (s', node_free b m)" "NIL s' = NIL s" "rbt_ok lt s' t'"
      "mset (keys t') = mset (keys t) - {#key (node s p)#}"
      "b \<in> set (addrs t)" "set (addrs t') = set (addrs t) - {b}" by blast
  have "b \<in> in_use m" using s'(5) ok(2) by blast
  from free_used [OF ok(3) this] have "owned s' (node_free b m) t'"
    using s' ok unfolding owned_def by auto
  with s' show ?thesis by blast
qed

end

end
