(* ===== verification/Rbtree_Thms.thy ===== *)
theory Rbtree_Thms
  imports Rbtree_Search
begin

text \<open>
  The properties of the red-black tree template as its users see them, stated over the
  operations of \<^verbatim>\<open>rbtree.h\<close> for an arbitrary key order and allocator, each with a
  concrete instance on a three-node tree.
\<close>

section \<open>Concrete trees\<close>

lemma weak_order_nat: "weak_order ((<) :: nat \<Rightarrow> nat \<Rightarrow> bool)"
  by unfold_locales auto

lemma Rbt_init_ok:
  assumes "even_addr (NIL s0)"
  shows "rbt_ok lt (Rbt_init s0) Lf" "NIL (Rbt_init s0) = NIL s0"
  using assms by (simp_all add: rbt_ok_def rep_def rb_def Rbt_init_def Let_def ordered_def)

definition three_nodes :: "nat Rbt" where
  "three_nodes = \<lparr>NIL = 2, tree_root = 8,
     node = (\<lambda>a. if a = 8 then \<lparr>par_and_color = 3, ch0 = 12, ch1 = 16, key = 5\<rparr>
                 else if a = 12 then \<lparr>par_and_color = 8, ch0 = 2, ch1 = 2, key = 3\<rparr>
                 else if a = 16 then \<lparr>par_and_color = 8, ch0 = 2, ch1 = 2, key = 9\<rparr>
                 else \<lparr>par_and_color = 3, ch0 = 2, ch1 = 2, key = 0\<rparr>)\<rparr>"

definition three_tr :: "nat tr" where
  "three_tr = Nd (Nd Lf 12 Red 3 Lf) 8 Black 5 (Nd Lf 16 Red 9 Lf)"

lemma three_nodes_ok: "rbt_ok (<) three_nodes three_tr"
  by (simp add: rbt_ok_def rep_def rb_def three_nodes_def three_tr_def ordered_def is_node_def
      get_par_def is_black_def even_addr_def)

section \<open>Properties\<close>

text \<open>
  C1: on a valid tree, \<^verbatim>\<open>insert\<close> terminates, takes one node from the allocator and
  yields a valid red-black tree (both colour and black-height invariants, parent pointers and
  sentinel included) whose entries are the old ones with the new key placed before the
  first key that is not less than it.
\<close>

theorem rbt_insert_sound:
  assumes "weak_order lt" "rbt_ok lt s t" "node_alloc m = ret (a, m')"
    and "a \<noteq> NIL s" "a \<noteq> 0" "even_addr a" "a \<notin> set (addrs t)"
  shows "\<exists>s' t' L R. rbt_insert node_alloc lt val s m = ret (s', m') \<and> NIL s' = NIL s \<and>
    rbt_ok lt s' t' \<and> entries t = L @ R \<and> entries t' = L @ (a, val) # R \<and>
    (\<forall>(b, k) \<in> set L. lt k val) \<and> (\<forall>(b, k) \<in> set R. \<not> lt k val)"
  by (rule weak_order.rbt_insert_correct [where node_alloc = node_alloc and m = m, OF assms])

theorem rbt_insert_sound_witness:
  "\<exists>s' t' L R. rbt_insert (\<lambda>m. ret (20, m)) (<) 4 three_nodes () = ret (s', ()) \<and> NIL s' = NIL three_nodes \<and>
    rbt_ok (<) s' t' \<and> entries three_tr = L @ R \<and> entries t' = L @ (20, 4) # R \<and>
    (\<forall>(b, k) \<in> set L. k < 4) \<and> (\<forall>(b, k) \<in> set R. \<not> k < 4)"
  by (rule rbt_insert_sound [OF weak_order_nat three_nodes_ok])
    (simp_all add: three_nodes_def three_tr_def even_addr_def)

text \<open>
  C2: erasing a node of a valid tree terminates, removes exactly that node's key, gives
  exactly one node of the tree back to the allocator (not always the erased one: its successor's key
  may have moved into it) and leaves a valid red-black tree over the other nodes.
\<close>

theorem rbt_erase_sound:
  assumes "weak_order lt" "rbt_ok lt s t" "p \<in> set (addrs t)"
  shows "\<exists>s' b t'. rbt_erase node_free p s m = ret (s', node_free b m) \<and> NIL s' = NIL s \<and>
    rbt_ok lt s' t' \<and> mset (keys t') = mset (keys t) - {#key (node s p)#} \<and>
    b \<in> set (addrs t) \<and> set (addrs t') = set (addrs t) - {b}"
  using weak_order.rbt_erase_correct [OF assms] .

theorem rbt_erase_sound_witness:
  "\<exists>s' b t'. rbt_erase (#) 8 three_nodes [] = ret (s', [b]) \<and> NIL s' = NIL three_nodes \<and>
    rbt_ok (<) s' t' \<and> mset (keys t') = mset (keys three_tr) - {#key (node three_nodes 8)#} \<and>
    b \<in> set (addrs three_tr) \<and> set (addrs t') = set (addrs three_tr) - {b}"
  by (rule rbt_erase_sound [OF weak_order_nat three_nodes_ok]) (simp add: three_tr_def)

text \<open>
  \<^verbatim>\<open>find_ge\<close> terminates and returns a node with a least key among those not less
  than the argument, or \<^verbatim>\<open>NULL\<close> exactly when every key is less.
\<close>

theorem find_ge_sound:
  assumes "weak_order lt" "rbt_ok lt s t"
  shows "\<exists>p. find_ge lt val s = ret p \<and>
    (p = 0 \<and> (\<forall>k \<in> set (keys t). lt k val) \<or>
     p \<noteq> 0 \<and> p \<in> set (addrs t) \<and> key (node s p) \<in> set (keys t) \<and> \<not> lt (key (node s p)) val \<and>
       (\<forall>k \<in> set (keys t). \<not> lt k val \<longrightarrow> \<not> lt k (key (node s p))))"
  using weak_order.find_ge_correct [OF assms] .

theorem find_ge_sound_witness:
  "find_ge (<) 6 three_nodes = ret 16"
  using find_ge_sound [OF weak_order_nat three_nodes_ok, of 6]
  by (auto simp: three_tr_def three_nodes_def split: if_splits)

text \<open>
  \<^verbatim>\<open>find_le\<close>, on a key type whose \<^verbatim>\<open>operator <=\<close> agrees with its
  \<^verbatim>\<open>operator <\<close>, terminates and returns a node with a greatest key among those not greater
  than the argument, or \<^verbatim>\<open>NULL\<close> exactly when every key is greater.
\<close>

theorem find_le_sound:
  assumes "weak_order lt" "rbt_ok lt s t" "\<And>x y. le x y \<longleftrightarrow> \<not> lt y x"
  shows "\<exists>p. find_le le val s = ret p \<and>
    (p = 0 \<and> (\<forall>k \<in> set (keys t). lt val k) \<or>
     p \<noteq> 0 \<and> p \<in> set (addrs t) \<and> key (node s p) \<in> set (keys t) \<and> \<not> lt val (key (node s p)) \<and>
       (\<forall>k \<in> set (keys t). \<not> lt val k \<longrightarrow> \<not> lt (key (node s p)) k))"
  using weak_order.find_le_correct [OF assms] .

theorem find_le_sound_witness:
  "find_le (\<le>) 4 three_nodes = ret 12"
  using find_le_sound [OF weak_order_nat three_nodes_ok, of "(\<le>)" 4]
  by (auto simp: three_tr_def three_nodes_def not_less split: if_splits)

text \<open>\<^verbatim>\<open>walk\<close> terminates and calls the callback once per key, in ascending order.\<close>

theorem walk_in_order:
  assumes "rbt_ok lt s t"
  shows "walk callback s x = ret (fold callback (keys t) x) \<and> sorted_wrt (\<lambda>j k. \<not> lt k j) (keys t)"
  using assms do_walk_correct [of s t "[]" callback x]
  by (simp add: walk_def rbt_ok_def rep_def ordered_def)

theorem walk_in_order_witness:
  "walk (\<lambda>k ks. ks @ [k]) three_nodes [] = ret [3, 5, 9]"
  using walk_in_order [OF three_nodes_ok, of "\<lambda>k ks. ks @ [k]" "[]"] by (simp add: three_tr_def)

text \<open>
  \<^verbatim>\<open>clear\<close> terminates, frees every node of the tree exactly once and leaves a valid
  empty tree.
\<close>

theorem rbt_clear_sound:
  assumes "rbt_ok lt s t"
  shows "\<exists>s' as. rbt_clear node_free s m = ret (s', fold node_free as m) \<and>
    distinct as \<and> set as = set (addrs t) \<and> NIL s' = NIL s \<and> rbt_ok lt s' Lf"
proof -
  from assms have rep: "rep s t" by (simp add: rbt_ok_def)
  then have "do_clear node_free s (tree_root s) m = ret (fold node_free (postorder t) m)"
    using do_clear_correct [of s t "[]" node_free m] by (simp add: rep_def)
  then have "rbt_clear node_free s m = ret (s\<lparr>tree_root := NIL s\<rparr>, fold node_free (postorder t) m)"
    by (simp add: rbt_clear_def)
  moreover have "distinct (postorder t)" "set (postorder t) = set (addrs t)"
    using rep mset_postorder [of t] by (metis distinct.simps(2) mset_eq_imp_distinct_iff rep_def, metis mset_eq_setD)
  moreover have "rbt_ok lt (s\<lparr>tree_root := NIL s\<rparr>) Lf"
    using rep by (simp add: rbt_ok_def rep_def rb_def ordered_def)
  ultimately show ?thesis
    by (intro exI [of _ "s\<lparr>tree_root := NIL s\<rparr>"] exI [of _ "postorder t"]) simp
qed

theorem rbt_clear_sound_witness:
  "\<exists>s' as. rbt_clear (#) three_nodes [] = ret (s', fold (#) as []) \<and>
    distinct as \<and> set as = set (addrs three_tr) \<and> NIL s' = NIL three_nodes \<and> rbt_ok (<) s' (Lf :: nat tr)"
  by (rule rbt_clear_sound [OF three_nodes_ok])

end
