(* ===== verification/Rbtree_Check.thy ===== *)
theory Rbtree_Check
  imports Rbtree_Thms
begin

text \<open>
  The parts of \<^verbatim>\<open>rbtree.h\<close> that the macros \<^verbatim>\<open>RBT_DEBUG\<close> and \<^verbatim>\<open>RBT_SIZE\<close> switch on: the self check
  of a tree, which throws a message or prints, and the search for the key at a position. The build
  defines neither macro. The check is compared with the invariant the other theories prove.
\<close>

section \<open>The self check\<close>

text \<open>
  What the loop body of \<^verbatim>\<open>do_check\<close> does with one child after the recursive call: \<open>Inl\<close> is a thrown message,
  \<open>Inr\<close> the number of black nodes below; \<open>d\<close> is the side.
\<close>

definition check_child :: "('k \<Rightarrow> 'k \<Rightarrow> bool) \<Rightarrow> 'k Rbt \<Rightarrow> u32 \<Rightarrow> bool \<Rightarrow> (string + int) \<Rightarrow> string + int" where
  "check_child lt s root d r =
     (let c = ch (node s root) d
      in case r of
           Inl e \<Rightarrow> Inl e
         | Inr nb \<Rightarrow>
             if \<not> d \<and> lt (key (node s root)) (key (node s c)) \<or> d \<and> lt (key (node s c)) (key (node s root))
             then Inl ''partial order check error''
             else if get_par (node s c) \<noteq> root then Inl ''parent pointer check error''
             else Inr nb)"

partial_function (option) do_check :: "('k \<Rightarrow> 'k \<Rightarrow> bool) \<Rightarrow> 'k Rbt \<Rightarrow> u32 \<Rightarrow> (string + int) option" where
  "do_check lt s root =
     (if root = NIL s then Some (Inr 0)
      else
        Option.bind (if ch (node s root) False \<noteq> NIL s
           then Option.bind (do_check lt s (ch (node s root) False)) (\<lambda>r. Some (check_child lt s root False r)) else Some (Inr 0)) (\<lambda>r0.
        case r0 of
          Inl e \<Rightarrow> Some (Inl e)
        | Inr nb0 \<Rightarrow>
            Option.bind (if ch (node s root) True \<noteq> NIL s
               then Option.bind (do_check lt s (ch (node s root) True)) (\<lambda>r. Some (check_child lt s root True r)) else Some (Inr 0)) (\<lambda>r1.
            case r1 of
              Inl e \<Rightarrow> Some (Inl e)
            | Inr nb1 \<Rightarrow>
                Some (if nb0 \<noteq> nb1 then Inl ''black node number check error''
                      else Inr (nb0 + of_bool (is_black (node s root)))))))"

text \<open>\<^verbatim>\<open>check\<close>: the thrown message, or the lines it prints.\<close>

definition check :: "('k \<Rightarrow> 'k \<Rightarrow> bool) \<Rightarrow> 'k Rbt \<Rightarrow> (string + string list) option" where
  "check lt s =
     Option.bind (do_check lt s (tree_root s)) (\<lambda>r.
       case r of
         Inl e \<Rightarrow> Some (Inl e)
       | Inr _ \<Rightarrow>
           Some (Inr ((if \<not> is_black (node s (tree_root s)) then [''root is not black''] else []) @
             (if \<not> is_black (node s (NIL s)) \<or> ch (node s (NIL s)) False \<noteq> NIL s \<or> ch (node s (NIL s)) True \<noteq> NIL s
              then [''NIL corrupted''] else []))))"

text \<open>What the check looks at: neighbours in the tree are in order and every path has as many black nodes.\<close>

fun locally_ordered :: "('k \<Rightarrow> 'k \<Rightarrow> bool) \<Rightarrow> 'k tr \<Rightarrow> bool" where
  "locally_ordered lt Lf \<longleftrightarrow> True"
| "locally_ordered lt (Nd l a c k r) \<longleftrightarrow> locally_ordered lt l \<and> locally_ordered lt r \<and>
     (case l of Lf \<Rightarrow> True | Nd _ _ _ k' _ \<Rightarrow> \<not> lt k k') \<and> (case r of Lf \<Rightarrow> True | Nd _ _ _ k' _ \<Rightarrow> \<not> lt k' k)"

definition side_ok :: "('k \<Rightarrow> 'k \<Rightarrow> bool) \<Rightarrow> bool \<Rightarrow> 'k \<Rightarrow> 'k tr \<Rightarrow> bool" where
  "side_ok lt d k u \<longleftrightarrow> (case u of Lf \<Rightarrow> True | Nd _ _ _ k' _ \<Rightarrow> \<not> (if d then lt k' k else lt k k'))"

text \<open>\<open>verdict P n r\<close>: the result \<open>r\<close> is \<open>n\<close> if \<open>P\<close>, and a message otherwise.\<close>

definition verdict :: "bool \<Rightarrow> nat \<Rightarrow> string + int \<Rightarrow> bool" where
  "verdict P n r \<longleftrightarrow> (case r of Inl e \<Rightarrow> \<not> P | Inr m \<Rightarrow> P \<and> m = int n)"

lemma verdict_simps [simp]: "verdict P n (Inl e) \<longleftrightarrow> \<not> P" "verdict P n (Inr m) \<longleftrightarrow> P \<and> m = int n"
  by (simp_all add: verdict_def)

lemma check_side:
  assumes "tree_at (NIL s) (node s) a u" "NIL s \<notin> set (addrs u)" "ch (node s a) d = root_of (NIL s) u" "key (node s a) = k"
    and "do_check lt s (root_of (NIL s) u) = Some x" "verdict (locally_ordered lt u \<and> invh u) (bh u) x"
  shows "\<exists>y. (if ch (node s a) d \<noteq> NIL s
      then Option.bind (do_check lt s (ch (node s a) d)) (\<lambda>r. Some (check_child lt s a d r)) else Some (Inr 0)) = Some y \<and>
    verdict (locally_ordered lt u \<and> invh u \<and> side_ok lt d k u) (bh u) y"
proof (cases u)
  case Lf
  then show ?thesis using assms(3) by (simp add: side_ok_def)
next
  case (Nd l b c k' r)
  then have "b \<noteq> NIL s" "ch (node s a) d = b" "key (node s b) = k'" "get_par (node s b) = a" using assms(1-3) by (auto simp: is_node_def)
  then show ?thesis using assms(4-6) Nd by (cases x) (auto simp: check_child_def side_ok_def Let_def)
qed

lemma do_check_tree:
  assumes "tree_at (NIL s) (node s) p t" "NIL s \<notin> set (addrs t)"
  shows "\<exists>r. do_check lt s (root_of (NIL s) t) = Some r \<and> verdict (locally_ordered lt t \<and> invh t) (bh t) r"
  using assms
proof (induction t arbitrary: p)
  case Lf
  then show ?case by (subst do_check.simps) simp
next
  case (Nd l a c k r)
  have n: "ch (node s a) False = root_of (NIL s) l" "ch (node s a) True = root_of (NIL s) r" "key (node s a) = k" "is_black (node s a) \<longleftrightarrow> c = Black"
    "a \<noteq> NIL s" "tree_at (NIL s) (node s) a l" "tree_at (NIL s) (node s) a r" "NIL s \<notin> set (addrs l)" "NIL s \<notin> set (addrs r)"
    using Nd.prems by (auto simp: is_node_def)
  from check_side [OF n(6,8,1,3), of lt] Nd.IH(1) [OF n(6,8)] obtain y where
    y: "(if ch (node s a) False \<noteq> NIL s
        then Option.bind (do_check lt s (ch (node s a) False)) (\<lambda>r. Some (check_child lt s a False r)) else Some (Inr 0)) = Some y"
      "verdict (locally_ordered lt l \<and> invh l \<and> side_ok lt False k l) (bh l) y" by blast
  from check_side [OF n(7,9,2,3), of lt] Nd.IH(2) [OF n(7,9)] obtain z where
    z: "(if ch (node s a) True \<noteq> NIL s
        then Option.bind (do_check lt s (ch (node s a) True)) (\<lambda>r. Some (check_child lt s a True r)) else Some (Inr 0)) = Some z"
      "verdict (locally_ordered lt r \<and> invh r \<and> side_ok lt True k r) (bh r) z" by blast
  have lo: "locally_ordered lt (Nd l a c k r) \<longleftrightarrow> locally_ordered lt l \<and> locally_ordered lt r \<and> side_ok lt False k l \<and> side_ok lt True k r"
    by (simp add: side_ok_def split: tr.split)
  have "do_check lt s a = (case y of Inl e \<Rightarrow> Some (Inl e) | Inr nb0 \<Rightarrow> (case z of Inl e \<Rightarrow> Some (Inl e) | Inr nb1 \<Rightarrow>
      Some (if nb0 \<noteq> nb1 then Inl ''black node number check error'' else Inr (nb0 + of_bool (is_black (node s a))))))"
    by (subst do_check.simps) (simp only: y(1) z(1) n(5) if_False bind.bind_lunit split: sum.split)
  then show ?case using y(2) z(2) n(4) unfolding lo by (cases y; cases z) auto
qed

lemma ordered_locally: "ordered lt (keys t) \<Longrightarrow> locally_ordered lt t"
proof (induction t)
  case (Nd l a c k r)
  have "\<not> lt k k'" if "k' \<in> set (keys l)" for k' using Nd.prems that by (auto simp: ordered_def sorted_wrt_append)
  moreover have "\<not> lt k' k" if "k' \<in> set (keys r)" for k' using Nd.prems that by (auto simp: ordered_def sorted_wrt_append)
  moreover have "ordered lt (keys l)" "ordered lt (keys r)" using Nd.prems by (simp_all add: ordered_def sorted_wrt_append)
  ultimately show ?case using Nd.IH by (auto split: tr.split)
qed simp

lemma check_tree:
  assumes "rep s t"
  shows "\<exists>r. check lt s = Some r \<and> (r = Inr [] \<longleftrightarrow> col t = Black \<and> invh t \<and> locally_ordered lt t)"
proof -
  have at: "tree_at (NIL s) (node s) (NIL s) t" "NIL s \<notin> set (addrs t)" "tree_root s = root_of (NIL s) t" "is_black (node s (NIL s))"
    "ch0 (node s (NIL s)) = NIL s" "ch1 (node s (NIL s)) = NIL s" using assms by (simp_all add: rep_def)
  have root: "is_black (node s (tree_root s)) \<longleftrightarrow> col t = Black" using at by (cases t) (auto simp: is_node_def)
  from do_check_tree [OF at(1,2), of lt] obtain r where r: "do_check lt s (tree_root s) = Some r"
    "verdict (locally_ordered lt t \<and> invh t) (bh t) r"
    using at(3) by auto
  then show ?thesis using at root by (cases r) (auto simp: check_def)
qed

text \<open>
  C35: The self check, on every tree the pointers form, returns, and it reports nothing if and only if the root is black, every path
  has the same number of black nodes and every node is ordered with respect to its children. It does not look
  at two red nodes in a row, nor at the order of nodes that are not neighbours.
\<close>

theorem check_exact:
  assumes "rep s t"
  shows "\<exists>r. check lt s = Some r \<and> (r = Inr [] \<longleftrightarrow> col t = Black \<and> invh t \<and> locally_ordered lt t)"
  using assms by (rule check_tree)

theorem check_exact_witness: "check (<) three_nodes = Some (Inr [])"
proof -
  have "rep three_nodes three_tr" using three_nodes_ok by (simp add: rbt_ok_def)
  from check_exact [OF this, of "(<)"] show ?thesis by (auto simp: three_tr_def)
qed

text \<open>A tree that insertion or removal left passes it.\<close>

lemma check_valid: "rbt_ok lt s t \<Longrightarrow> check lt s = Some (Inr [])"
  using check_tree [of s t lt] ordered_locally [of lt t] by (auto simp: rbt_ok_def rb_def)

text \<open>Two red nodes in a row pass it too.\<close>

definition red_pair :: "nat Rbt" where
  "red_pair = \<lparr>NIL = 2, tree_root = 8,
     node = (\<lambda>a. if a = 8 then \<lparr>par_and_color = 3, ch0 = 12, ch1 = 2, key = 5\<rparr>
                 else if a = 12 then \<lparr>par_and_color = 8, ch0 = 16, ch1 = 2, key = 3\<rparr>
                 else if a = 16 then \<lparr>par_and_color = 12, ch0 = 2, ch1 = 2, key = 1\<rparr>
                 else \<lparr>par_and_color = 3, ch0 = 2, ch1 = 2, key = 0\<rparr>)\<rparr>"

definition red_pair_tr :: "nat tr" where
  "red_pair_tr = Nd (Nd (Nd Lf 16 Red 1 Lf) 12 Red 3 Lf) 8 Black 5 Lf"

lemma check_misses_red_pair: "check (<) red_pair = Some (Inr [])" "rep red_pair red_pair_tr" "\<not> rb red_pair_tr"
proof -
  show rep: "rep red_pair red_pair_tr"
    by (simp add: rep_def red_pair_def red_pair_tr_def is_node_def get_par_def is_black_def even_addr_def)
  from check_tree [OF this, of "(<)"] show "check (<) red_pair = Some (Inr [])" by (auto simp: red_pair_tr_def)
  show "\<not> rb red_pair_tr" by (simp add: red_pair_tr_def rb_def)
qed

section \<open>The key at a position\<close>

text \<open>
  \<^verbatim>\<open>find_kth\<close>; \<open>sz\<close> gives the field \<^verbatim>\<open>size\<close> of each node, which exists with \<^verbatim>\<open>RBT_SIZE\<close> only. The result 0 is \<^verbatim>\<open>NULL\<close>.
\<close>

partial_function (option) find_kth_loop :: "(u32 \<Rightarrow> int) \<Rightarrow> 'k Rbt \<Rightarrow> int \<Rightarrow> u32 \<Rightarrow> u32 option" where
  "find_kth_loop sz s k t =
     (if k \<ge> sz (ch (node s t) False) then
        (if k = sz (ch (node s t) False) then Some t
         else find_kth_loop sz s (k - (sz (ch (node s t) False) + 1)) (ch (node s t) True))
      else find_kth_loop sz s k (ch (node s t) False))"

definition find_kth :: "(u32 \<Rightarrow> int) \<Rightarrow> int \<Rightarrow> 'k Rbt \<Rightarrow> u32 option" where
  "find_kth sz k s = (if k \<ge> sz (tree_root s) then Some 0 else find_kth_loop sz s k (tree_root s))"

text \<open>The sizes are right: each node's is the number of nodes of its subtree.\<close>

fun sizes_at :: "(u32 \<Rightarrow> int) \<Rightarrow> u32 \<Rightarrow> 'k tr \<Rightarrow> bool" where
  "sizes_at sz nil Lf \<longleftrightarrow> sz nil = 0"
| "sizes_at sz nil (Nd l a c k r) \<longleftrightarrow> sz a = int (length (entries (Nd l a c k r))) \<and> sizes_at sz nil l \<and> sizes_at sz nil r"

lemma sizes_root: "sizes_at sz nil t \<Longrightarrow> sz (root_of nil t) = int (length (entries t))"
  by (cases t) simp_all

lemma find_kth_loop_tree:
  assumes "tree_at (NIL s) (node s) p t" "sizes_at sz (NIL s) t" "k < length (entries t)"
  shows "find_kth_loop sz s (int k) (root_of (NIL s) t) = Some (fst (entries t ! k))"
  using assms
proof (induction t arbitrary: p k)
  case (Nd l a c x r)
  have ch: "ch (node s a) False = root_of (NIL s) l" "ch (node s a) True = root_of (NIL s) r"
    using Nd.prems(1) by (simp_all add: is_node_def)
  have sz: "sz (root_of (NIL s) l) = int (length (entries l))" using Nd.prems(2) by (intro sizes_root) simp
  consider "k < length (entries l)" | "k = length (entries l)" | j where "k = length (entries l) + 1 + j" "j < length (entries r)"
  proof -
    show thesis if a: "k < length (entries l) \<Longrightarrow> thesis" "k = length (entries l) \<Longrightarrow> thesis"
      "\<And>j. k = length (entries l) + 1 + j \<Longrightarrow> j < length (entries r) \<Longrightarrow> thesis"
      using a(1,2) a(3) [of "k - length (entries l) - 1"] Nd.prems(3) by (cases k "length (entries l)" rule: linorder_cases) auto
  qed
  then show ?case
  proof cases
    case 1
    then show ?thesis using Nd.IH(1) [of a k] Nd.prems
      by (subst find_kth_loop.simps) (simp add: ch sz nth_append del: ch_simps)
  next
    case 2
    then show ?thesis by (subst find_kth_loop.simps) (simp add: ch sz nth_append del: ch_simps)
  next
    case 3
    then have "int k - (int (length (entries l)) + 1) = int j" by simp
    then show ?thesis using 3 Nd.IH(2) [of a j] Nd.prems
      by (subst find_kth_loop.simps) (simp add: ch sz nth_append del: ch_simps)
  qed
qed simp

text \<open>
  With right sizes \<^verbatim>\<open>find_kth\<close> returns the node at position \<open>k\<close> in the order of the keys, counted from 0, and
  \<^verbatim>\<open>NULL\<close> beyond the last.
\<close>

lemma find_kth_position:
  assumes "rep s t" "sizes_at sz (NIL s) t"
  shows "find_kth sz (int k) s = Some (if k < length (entries t) then fst (entries t ! k) else 0)"
  using assms find_kth_loop_tree [of s "NIL s" t sz k] sizes_root [OF assms(2)]
  by (auto simp: find_kth_def rep_def)

end
