(* ===== verification/Common.thy ===== *)
theory Common
  imports Prelude
begin

text \<open>
  The constants and inline helpers of \<^verbatim>\<open>src/src/include/common.h\<close>: address alignment,
  \<^verbatim>\<open>min\<close> and \<^verbatim>\<open>max\<close>, and the memory layout of the kernel.
\<close>

section \<open>Helpers\<close>

definition cmax :: "'a::linorder \<Rightarrow> 'a \<Rightarrow> 'a" where
  "cmax a b = (if a > b then a else b)"

definition cmin :: "'a::linorder \<Rightarrow> 'a \<Rightarrow> 'a" where
  "cmin a b = (if a < b then a else b)"

text \<open>\<^verbatim>\<open>palign\<close> is a shift count, below 32 wherever the kernel calls it.\<close>

definition get_aligned :: "u32 \<Rightarrow> nat \<Rightarrow> u32" where
  "get_aligned addr palign =
     (if addr = 0 then 0 else push_bit palign (drop_bit palign (addr - 1) + 1))"

section \<open>Constants\<close>

definition CLOCK_TICK_RATE :: u32 where
  "CLOCK_TICK_RATE = 1193180"

definition KERNEL_HZ :: u32 where
  "KERNEL_HZ = 50"

definition KERNEL_STACK_POS :: u32 where
  "KERNEL_STACK_POS = 0xFFFFF000"

definition KERNEL_STACK_SIZE :: u32 where
  "KERNEL_STACK_SIZE = 4 * 1024"

definition KERNEL_HEAP_END :: u32 where
  "KERNEL_HEAP_END = (KERNEL_STACK_POS - KERNEL_STACK_SIZE) AND 0xFFC00000"

definition KERNEL_HEAP_BEGIN :: u32 where
  "KERNEL_HEAP_BEGIN = KERNEL_HEAP_END - 256 * 1024 * 1024"

lemma KERNEL_HEAP_END_val: "KERNEL_HEAP_END = 0xFFC00000"
  by (simp add: KERNEL_HEAP_END_def KERNEL_STACK_POS_def KERNEL_STACK_SIZE_def)

lemma KERNEL_HEAP_BEGIN_val: "KERNEL_HEAP_BEGIN = 0xEFC00000"
  by (simp add: KERNEL_HEAP_BEGIN_def KERNEL_HEAP_END_val)

section \<open>Alignment\<close>

lemma div_step: "0 < (a::nat) \<Longrightarrow> 0 < d \<Longrightarrow> (a - 1) div d + 1 = (a + d - 1) div d"
proof -
  assume "0 < a" "0 < d"
  then have "a + d - 1 = (a - 1) + d" by simp
  moreover have "((a - 1) + d) div d = (a - 1) div d + 1" using \<open>0 < d\<close> by (intro div_add_self2) simp
  ultimately show ?thesis by (simp only:)
qed

lemma unat_minus_1: "(a :: u32) \<noteq> 0 \<Longrightarrow> unat (a - 1) = unat a - 1"
  by (metis One_nat_def unat_minus_one)

lemma unat_push_bit: "unat (push_bit p (w :: u32)) = (unat w * 2 ^ p) mod 2 ^ 32"
proof -
  have "unat (push_bit p w) = take_bit 32 (push_bit p (unat w))"
    by (rule unsigned_push_bit_eq [where 'b = 32, simplified])
  then show ?thesis by (simp add: take_bit_eq_mod push_bit_eq_mult)
qed

lemma unat_drop_bit: "unat (drop_bit p (w :: u32)) = unat w div 2 ^ p"
proof -
  have "take_bit 32 (unat w) = unat w"
    using unsigned_less [of w, where 'a = nat] by (simp add: take_bit_nat_eq_self_iff)
  then show ?thesis by (simp add: unsigned_drop_bit_eq [of p w] flip: drop_bit_eq_div)
qed

text \<open>
  \<^verbatim>\<open>get_aligned\<close> rounds up to a multiple of \<open>2 ^ p\<close>, modulo the size of the address
  space.
\<close>

lemma unat_get_aligned:
  "unat (get_aligned a p) = ((unat a + 2 ^ p - 1) div 2 ^ p * 2 ^ p) mod 2 ^ 32"
proof (cases "a = 0")
  case True
  then show ?thesis by (simp add: get_aligned_def)
next
  case False
  then have pos: "0 < unat a" by (simp add: unat_gt_0)
  have "unat (get_aligned a p) = (unat (drop_bit p (a - 1) + 1) * 2 ^ p) mod 2 ^ 32"
    using False unfolding get_aligned_def by (simp only: unat_push_bit if_False)
  also have "\<dots> = ((((unat a - 1) div 2 ^ p + 1) mod 2 ^ 32) * 2 ^ p) mod 2 ^ 32"
    using False by (simp add: unat_word_ariths unat_drop_bit unat_minus_1)
  also have "\<dots> = (((unat a - 1) div 2 ^ p + 1) * 2 ^ p) mod 2 ^ 32"
    by (metis mod_mult_left_eq)
  also have "(unat a - 1) div 2 ^ p + 1 = (unat a + 2 ^ p - 1) div 2 ^ p"
    using div_step [OF pos, of "2 ^ p"] by simp
  finally show ?thesis .
qed

lemma get_aligned_bounds:
  assumes "unat a + 2 ^ p \<le> 2 ^ 32"
  shows "unat a \<le> unat (get_aligned a p)" "unat (get_aligned a p) < unat a + 2 ^ p"
    "2 ^ p dvd unat (get_aligned a p)"
proof -
  let ?n = "unat a + 2 ^ p - 1"
  have mul: "?n div 2 ^ p * 2 ^ p \<le> ?n" by simp
  moreover have "?n < 2 ^ 32" using assms by simp
  ultimately have "?n div 2 ^ p * 2 ^ p < 2 ^ 32" by (rule le_less_trans)
  then have eq: "unat (get_aligned a p) = ?n div 2 ^ p * 2 ^ p"
    unfolding unat_get_aligned by (rule mod_less)
  have "?n mod 2 ^ p < 2 ^ p" by simp
  moreover have "?n div 2 ^ p * 2 ^ p + ?n mod 2 ^ p = ?n" by (rule div_mult_mod_eq)
  moreover have "(0::nat) < 2 ^ p" by simp
  ultimately show "unat a \<le> unat (get_aligned a p)" unfolding eq by linarith
  have "(0::nat) < 2 ^ p" by simp
  then show "unat (get_aligned a p) < unat a + 2 ^ p" using mul unfolding eq by linarith
  show "2 ^ p dvd unat (get_aligned a p)" by (simp add: eq)
qed

section \<open>Page boundaries\<close>

definition page_aligned :: "u32 \<Rightarrow> bool" where
  "page_aligned a \<longleftrightarrow> a AND 0xFFFFF000 = a"

lemma page_mask: "(0xFFFFF000 :: u32) = NOT (mask 12)"
  by (simp add: mask_eq_exp_minus_1)

lemma and_page_mask: "a AND 0xFFFFF000 = push_bit 12 (drop_bit 12 (a :: u32))"
  unfolding page_mask by (rule bit_eqI) (auto simp: bit_simps)

lemma unat_and_page_mask: "unat (a AND 0xFFFFF000 :: u32) = unat a div 4096 * 4096"
proof -
  have "unat a div 4096 * 4096 \<le> unat a" by simp
  also have "\<dots> < 2 ^ 32" by simp
  finally have "unat a div 4096 * 4096 < 2 ^ 32" .
  then show ?thesis unfolding and_page_mask unat_push_bit unat_drop_bit by simp
qed

lemma page_aligned_iff: "page_aligned a \<longleftrightarrow> 4096 dvd unat a"
proof -
  have "page_aligned a \<longleftrightarrow> unat a div 4096 * 4096 = unat a"
    unfolding page_aligned_def by (metis unat_and_page_mask word_unat_eq_iff)
  then show ?thesis by (metis dvd_div_mult_self dvd_triv_right)
qed

lemma page_aligned_mask [simp]: "page_aligned (a AND 0xFFFFF000)"
  by (simp add: page_aligned_def and.assoc)

lemma page_aligned_get_aligned [simp]: "page_aligned (get_aligned a 12)"
proof -
  have "4096 dvd (x * 4096) mod (2 ^ 32 :: nat)" for x :: nat
    by (intro dvd_mod) simp_all
  then show ?thesis unfolding page_aligned_iff unat_get_aligned by simp
qed

end
