(* ===== verification/Memory.thy ===== *)
theory Memory
  imports Prelude
begin

text \<open>
  Byte-addressed memory, and the little-endian 32-bit loads and stores an x86 compiler
  emits for the \<^verbatim>\<open>uint32_t\<close> fields of the structs the kernel copies.
\<close>

type_synonym memory = "u32 \<Rightarrow> u8"

definition store32 :: "u32 \<Rightarrow> u32 \<Rightarrow> memory \<Rightarrow> memory" where
  "store32 a v m = m(a := ucast v, a + 1 := ucast (drop_bit 8 v),
     a + 2 := ucast (drop_bit 16 v), a + 3 := ucast (drop_bit 24 v))"

definition load32 :: "u32 \<Rightarrow> memory \<Rightarrow> u32" where
  "load32 a m = ucast (m a) OR push_bit 8 (ucast (m (a + 1))) OR
     push_bit 16 (ucast (m (a + 2))) OR push_bit 24 (ucast (m (a + 3)))"

lemma split_bytes:
  "ucast (ucast v :: u8) OR push_bit 8 (ucast (ucast (drop_bit 8 v) :: u8)) OR
     push_bit 16 (ucast (ucast (drop_bit 16 v) :: u8)) OR
     push_bit 24 (ucast (ucast (drop_bit 24 v) :: u8)) = (v :: u32)"
proof (rule bit_eqI)
  fix n
  assume "possible_bit TYPE(u32) n"
  then have n: "n < 32" by simp
  then consider "n < 8" | "8 \<le> n" "n < 16" | "16 \<le> n" "n < 24" | "24 \<le> n" by linarith
  then show "bit (ucast (ucast v :: u8) OR push_bit 8 (ucast (ucast (drop_bit 8 v) :: u8)) OR
      push_bit 16 (ucast (ucast (drop_bit 16 v) :: u8)) OR
      push_bit 24 (ucast (ucast (drop_bit 24 v) :: u8)) :: u32) n = bit v n"
    using n by cases (auto simp: bit_simps)
qed

lemma load_store32 [simp]: "load32 a (store32 a v m) = v"
  using split_bytes [of v] by (simp add: load32_def store32_def)

definition bytes_at :: "u32 \<Rightarrow> nat \<Rightarrow> u32 set" where
  "bytes_at a n = {a + of_nat i | i. i < n}"

lemma in_bytes_at: "i < n \<Longrightarrow> a + of_nat i \<in> bytes_at a n"
  by (auto simp: bytes_at_def)

lemma bytes_at_4: "a \<in> bytes_at a 4" "a + 1 \<in> bytes_at a 4" "a + 2 \<in> bytes_at a 4" "a + 3 \<in> bytes_at a 4"
  using in_bytes_at [of 0 4 a] in_bytes_at [of 1 4 a] in_bytes_at [of 2 4 a] in_bytes_at [of 3 4 a]
  by simp_all

text \<open>A store changes only its four bytes, and a load sees only its four bytes.\<close>

lemma store32_other: "b \<notin> bytes_at a 4 \<Longrightarrow> store32 a v m b = m b"
  using bytes_at_4 [of a] by (auto simp: store32_def)

lemma load32_cong: "(\<And>b. b \<in> bytes_at a 4 \<Longrightarrow> m b = m' b) \<Longrightarrow> load32 a m = load32 a m'"
  using bytes_at_4 [of a] by (simp add: load32_def)

lemma load32_disjoint:
  "bytes_at a 4 \<inter> bytes_at b 4 = {} \<Longrightarrow> load32 a (store32 b v m) = load32 a m"
  by (rule load32_cong, rule store32_other) blast

text \<open>The bytes of an interval that does not wrap, by their unsigned addresses.\<close>

lemma bytes_at_unat:
  assumes "unat a + n \<le> 2 ^ 32"
  shows "b \<in> bytes_at a n \<longleftrightarrow> unat a \<le> unat b \<and> unat b < unat a + n"
proof
  assume "b \<in> bytes_at a n"
  then obtain i where i: "b = a + of_nat i" "i < n" by (auto simp: bytes_at_def)
  then have "unat (of_nat i :: u32) = i" using assms by (intro unat_of_nat_small) simp
  then have "unat b = unat a + i" using i assms by (simp add: unat_add)
  then show "unat a \<le> unat b \<and> unat b < unat a + n" using i(2) by simp
next
  assume b: "unat a \<le> unat b \<and> unat b < unat a + n"
  have "b = a + of_nat (unat b - unat a)"
  proof -
    have "unat (b - a) = unat b - unat a" using b by (simp add: unat_diff)
    then have "of_nat (unat b - unat a) = b - a" by (metis of_nat_unat ucast_id)
    then show ?thesis by simp
  qed
  moreover have "unat b - unat a < n" using b by linarith
  ultimately show "b \<in> bytes_at a n" unfolding bytes_at_def by blast
qed

end
