(* ===== verification/Kheap.thy ===== *)
theory Kheap
  imports Rbtree Common Memory
begin

text \<open>
  The kernel heap, \<^verbatim>\<open>src/src/core/kheap.cpp\<close>: the static arena used before paging is up,
  the free blocks kept in two red-black trees (by size and by start), the allocator of their
  nodes, and the block headers stored in front of every allocated address. The page directory
  operations it calls (\<^verbatim>\<open>lazy_alloc_interval\<close>, \<^verbatim>\<open>free_interval\<close>, \<^verbatim>\<open>get_page\<close>) are
  arguments here; the theory of paging supplies them. Log output is not part of the state.
\<close>

section \<open>Blocks and their two orders\<close>

record Block_t =
  start :: u32
  bsize :: u32

definition sizeof_Block_t :: u32 where
  "sizeof_Block_t = 8"

definition lt_size :: "Block_t \<Rightarrow> Block_t \<Rightarrow> bool" where
  "lt_size a n \<longleftrightarrow> bsize a < bsize n \<or> (bsize a = bsize n \<and> start a < start n)"

definition lt_start :: "Block_t \<Rightarrow> Block_t \<Rightarrow> bool" where
  "lt_start a n \<longleftrightarrow> start a < start n \<or> (start a = start n \<and> bsize a < bsize n)"

definition le_start :: "Block_t \<Rightarrow> Block_t \<Rightarrow> bool" where
  "le_start a n \<longleftrightarrow> start a < start n \<or> (start a = start n \<and> bsize a \<le> bsize n)"

section \<open>The allocator of tree nodes\<close>

text \<open>
  \<^verbatim>\<open>sizeof(Rbt<Block_t>::Node)\<close> is 20: the word holding parent and colour, two child
  pointers and an 8-byte key. \<open>static_mem\<close> is the address of the array, which the linker chooses.
\<close>

definition STATIC_SIZE :: nat where
  "STATIC_SIZE = 1024"

definition TREE_NODE_SIZE :: nat where
  "TREE_NODE_SIZE = 20"

definition STATIC_MEM_SIZE :: nat where
  "STATIC_MEM_SIZE = STATIC_SIZE * TREE_NODE_SIZE"

record tree_mm =
  static_mem :: u32
  freed :: "nat \<Rightarrow> u32"
  nstatic_mem :: nat
  nfreed :: nat

definition Tree_mm_alloc :: "tree_mm \<Rightarrow> (u32 \<times> tree_mm) exec" where
  "Tree_mm_alloc m =
     (if nfreed m \<noteq> 0 then ret (freed m (nfreed m - 1), m\<lparr>nfreed := nfreed m - 1\<rparr>)
      else if nstatic_mem m + TREE_NODE_SIZE \<ge> STATIC_MEM_SIZE then halt (Panic ''run out of kernel heap'')
      else ret (static_mem m + of_nat (nstatic_mem m), m\<lparr>nstatic_mem := nstatic_mem m + TREE_NODE_SIZE\<rparr>))"

definition Tree_mm_free :: "u32 \<Rightarrow> tree_mm \<Rightarrow> tree_mm" where
  "Tree_mm_free ptr m = m\<lparr>freed := (freed m)(nfreed m := ptr), nfreed := nfreed m + 1\<rparr>"

section \<open>State\<close>

text \<open>
  The file's static variables, with the kernel's virtual memory, in which the block headers
  lie. The record is extended by the state of the page tables.
\<close>

record kheap_state =
  kheap_finish_init_called :: bool
  kheap_static_end :: u32
  USER_MEM_LOW :: u32
  USER_MEM_HIGH :: u32
  mm :: tree_mm
  tree_size :: "Block_t Rbt"
  tree_start :: "Block_t Rbt"
  kmem :: memory

text \<open>\<^verbatim>\<open>memcpy\<close> of a \<^verbatim>\<open>Block_t\<close> to and from memory.\<close>

definition store_Block :: "u32 \<Rightarrow> Block_t \<Rightarrow> memory \<Rightarrow> memory" where
  "store_Block a b m = store32 (a + 4) (bsize b) (store32 a (start b) m)"

definition load_Block :: "u32 \<Rightarrow> memory \<Rightarrow> Block_t" where
  "load_Block a m = \<lparr>start = load32 a m, bsize = load32 (a + 4) m\<rparr>"

text \<open>The calls on the two tree objects.\<close>

definition size_insert :: "Block_t \<Rightarrow> 'a kheap_state_scheme \<Rightarrow> 'a kheap_state_scheme exec" where
  "size_insert b s = andThen (rbt_insert Tree_mm_alloc lt_size b (tree_size s) (mm s))
     (\<lambda>(t, m). ret (s\<lparr>tree_size := t, mm := m\<rparr>))"

definition start_insert :: "Block_t \<Rightarrow> 'a kheap_state_scheme \<Rightarrow> 'a kheap_state_scheme exec" where
  "start_insert b s = andThen (rbt_insert Tree_mm_alloc lt_start b (tree_start s) (mm s))
     (\<lambda>(t, m). ret (s\<lparr>tree_start := t, mm := m\<rparr>))"

definition size_erase :: "u32 \<Rightarrow> 'a kheap_state_scheme \<Rightarrow> 'a kheap_state_scheme exec" where
  "size_erase ptr s = andThen (rbt_erase Tree_mm_free ptr (tree_size s) (mm s))
     (\<lambda>(t, m). ret (s\<lparr>tree_size := t, mm := m\<rparr>))"

definition start_erase :: "u32 \<Rightarrow> 'a kheap_state_scheme \<Rightarrow> 'a kheap_state_scheme exec" where
  "start_erase ptr s = andThen (rbt_erase Tree_mm_free ptr (tree_start s) (mm s))
     (\<lambda>(t, m). ret (s\<lparr>tree_start := t, mm := m\<rparr>))"

section \<open>Allocation\<close>

definition kmalloc_pre_init :: "u32 \<Rightarrow> nat \<Rightarrow> 'a kheap_state_scheme \<Rightarrow> u32 \<times> 'a kheap_state_scheme" where
  "kmalloc_pre_init sz palign s =
     (let s1 = s\<lparr>kheap_static_end := get_aligned (kheap_static_end s) palign\<rparr>
      in (kheap_static_end s1, s1\<lparr>kheap_static_end := kheap_static_end s1 + sz\<rparr>))"

text \<open>
  The search loop of \<^verbatim>\<open>kmalloc\<close>: the smallest block that is large enough; when its
  aligned part is too small, the next one.
\<close>

partial_function (option) kmalloc_search ::
  "Block_t Rbt \<Rightarrow> u32 \<Rightarrow> nat \<Rightarrow> Block_t \<Rightarrow> (u32 \<times> Block_t \<times> u32) exec" where
  "kmalloc_search tree sz palign req =
     andThen (find_ge lt_size req tree) (\<lambda>ptr.
       if ptr = 0 then halt (Panic ''kernel runs out of memory'')
       else
         (let got = key (node tree ptr);
              st = get_aligned (start got + sizeof_Block_t) palign
          in if st + sz > start got + bsize got
             then kmalloc_search tree sz palign (got\<lparr>start := start got + 1\<rparr>)
             else ret (ptr, got, st)))"

definition insert_both :: "Block_t \<Rightarrow> 'a kheap_state_scheme \<Rightarrow> 'a kheap_state_scheme exec" where
  "insert_both b s = andThen (size_insert b s) (start_insert b)"

text \<open>Cutting the tail and the head off the block that was found.\<close>

definition split_tail ::
  "u32 \<Rightarrow> u32 \<Rightarrow> Block_t \<Rightarrow> 'a kheap_state_scheme \<Rightarrow> (Block_t \<times> 'a kheap_state_scheme) exec" where
  "split_tail st sz got s =
     (if st + sz + sizeof_Block_t * 2 < start got + bsize got then
        (let nblk = \<lparr>start = st + sz, bsize = start got + bsize got - (st + sz)\<rparr>
         in andThen (insert_both nblk s) (\<lambda>s'. ret (got\<lparr>bsize := bsize got - bsize nblk\<rparr>, s')))
      else ret (got, s))"

definition split_head ::
  "u32 \<Rightarrow> Block_t \<Rightarrow> 'a kheap_state_scheme \<Rightarrow> (Block_t \<times> 'a kheap_state_scheme) exec" where
  "split_head st got s =
     (if st - start got > sizeof_Block_t * 3 then
        (let nblk = \<lparr>start = start got, bsize = st - start got - sizeof_Block_t\<rparr>
         in andThen (insert_both nblk s) (\<lambda>s'.
              ret (\<lparr>start = start got + bsize nblk, bsize = bsize got - bsize nblk\<rparr>, s')))
      else ret (got, s))"

text \<open>
  \<open>lazy_alloc_interval begin end user writable fill_zero\<close> is that method of
  \<^verbatim>\<open>Page::current_page_dir\<close>.
\<close>

definition kmalloc ::
  "(u32 \<Rightarrow> u32 \<Rightarrow> bool \<Rightarrow> bool \<Rightarrow> bool \<Rightarrow> 'a kheap_state_scheme \<Rightarrow> 'a kheap_state_scheme exec) \<Rightarrow>
   u32 \<Rightarrow> nat \<Rightarrow> 'a kheap_state_scheme \<Rightarrow> (u32 \<times> 'a kheap_state_scheme) exec" where
  "kmalloc lazy_alloc_interval sz palign s =
     (if \<not> kheap_finish_init_called s then ret (kmalloc_pre_init sz palign s)
      else
        andThen (kmalloc_search (tree_size s) sz palign \<lparr>start = 0, bsize = sz + sizeof_Block_t\<rparr>)
          (\<lambda>(ptr, got, st).
        andThen (size_erase ptr s) (\<lambda>s.
        andThen (find_ge lt_start got (tree_start s)) (\<lambda>ptr'.
        andThen (start_erase ptr' s) (\<lambda>s.
        andThen (split_tail st sz got s) (\<lambda>(got, s).
        andThen (split_head st got s) (\<lambda>(got, s).
        andThen (lazy_alloc_interval ((st - sizeof_Block_t) AND 0xFFFFF000) (get_aligned (st + sz) 12)
                   False True False s) (\<lambda>s.
          ret (st, s\<lparr>kmem := store_Block (st - sizeof_Block_t) got (kmem s)\<rparr>)))))))))"

section \<open>Release\<close>

definition invalid_free :: panic where
  "invalid_free = Panic ''trting to free invalid memory''"

text \<open>Merging with the free block that ends where the released one starts.\<close>

definition merge_prev ::
  "Block_t \<Rightarrow> u32 \<Rightarrow> 'a kheap_state_scheme \<Rightarrow> (Block_t \<times> u32 \<times> 'a kheap_state_scheme) exec" where
  "merge_prev blk free_start s =
     andThen (find_le le_start blk (tree_start s)) (\<lambda>ptr.
       if ptr = 0 then ret (blk, free_start, s)
       else
         (let got = key (node (tree_start s) ptr)
          in if start got + bsize got > start blk then halt invalid_free
             else if start got + bsize got = start blk then
               andThen (start_erase ptr s) (\<lambda>s.
               andThen (find_ge lt_size got (tree_size s)) (\<lambda>ptr'.
               andThen (size_erase ptr' s) (\<lambda>s.
                 ret (\<lparr>start = start got, bsize = bsize blk + bsize got\<rparr>,
                      cmax (free_start AND 0xFFFFF000) (start got), s))))
             else ret (blk, free_start, s)))"

text \<open>Merging with the free block that starts where the released one ends.\<close>

definition merge_next ::
  "Block_t \<Rightarrow> u32 \<Rightarrow> 'a kheap_state_scheme \<Rightarrow> (Block_t \<times> u32 \<times> 'a kheap_state_scheme) exec" where
  "merge_next blk free_end s =
     andThen (find_ge lt_start blk (tree_start s)) (\<lambda>ptr.
       if ptr = 0 then ret (blk, free_end, s)
       else
         (let got = key (node (tree_start s) ptr)
          in if start blk + bsize blk > start got then halt invalid_free
             else if start blk + bsize blk = start got then
               (let free_end' = cmin (get_aligned free_end 12) (start blk + bsize blk)
                in andThen (start_erase ptr s) (\<lambda>s.
                   andThen (find_ge lt_size got (tree_size s)) (\<lambda>ptr'.
                   andThen (size_erase ptr' s) (\<lambda>s.
                     ret (blk\<lparr>bsize := bsize blk + bsize got\<rparr>, free_end', s)))))
             else ret (blk, free_end, s)))"

definition kfree ::
  "(u32 \<Rightarrow> u32 \<Rightarrow> 'a kheap_state_scheme \<Rightarrow> 'a kheap_state_scheme exec) \<Rightarrow>
   u32 \<Rightarrow> 'a kheap_state_scheme \<Rightarrow> 'a kheap_state_scheme exec" where
  "kfree free_interval addr s =
     (let blk = load_Block (addr - sizeof_Block_t) (kmem s)
      in if start blk < KERNEL_HEAP_BEGIN \<or> start blk + bsize blk > KERNEL_HEAP_END then halt invalid_free
         else
           andThen (merge_prev blk (start blk) s) (\<lambda>(blk1, free_start, s).
           andThen (merge_next blk1 (start blk + bsize blk) s) (\<lambda>(blk2, free_end, s).
           andThen (start_insert blk2 s) (\<lambda>s.
           andThen (size_insert blk2 s) (\<lambda>s.
             free_interval (get_aligned free_start 12) (free_end AND 0xFFFFF000) s)))))"

section \<open>The static arena and initialization\<close>

definition kheap_get_size_pre_init :: "'a kheap_state_scheme \<Rightarrow> u32" where
  "kheap_get_size_pre_init s = kheap_static_end s"

definition kheap_preserve_mem :: "u32 \<Rightarrow> 'a kheap_state_scheme \<Rightarrow> 'a kheap_state_scheme" where
  "kheap_preserve_mem addr s = (if addr > kheap_static_end s then s\<lparr>kheap_static_end := addr\<rparr> else s)"

text \<open>
  \<^verbatim>\<open>kheap_init\<close>: the constructors the linker script places in
  \<^verbatim>\<open>[kheap_start_ctors, start_ctors)\<close> are those of this file, the two trees. \<open>get_page i\<close> is
  \<^verbatim>\<open>current_page_dir->get_page(i, true)\<close>, whose result is not used.
\<close>

definition kheap_init ::
  "(u32 \<Rightarrow> 'a kheap_state_scheme \<Rightarrow> 'a kheap_state_scheme exec) \<Rightarrow>
   'a kheap_state_scheme \<Rightarrow> 'a kheap_state_scheme exec" where
  "kheap_init get_page s =
     (let s = s\<lparr>tree_size := Rbt_init (tree_size s), tree_start := Rbt_init (tree_start s)\<rparr>;
          b = \<lparr>start = KERNEL_HEAP_BEGIN, bsize = KERNEL_HEAP_END - KERNEL_HEAP_BEGIN\<rparr>
      in andThen (size_insert b s) (\<lambda>s.
         andThen (start_insert b s) (\<lambda>s.
           page_loop get_page KERNEL_HEAP_BEGIN KERNEL_HEAP_END s)))"

definition kheap_finish_init :: "'a kheap_state_scheme \<Rightarrow> 'a kheap_state_scheme" where
  "kheap_finish_init s = s\<lparr>kheap_finish_init_called := True,
     USER_MEM_LOW := get_aligned (kheap_static_end s) 22, USER_MEM_HIGH := KERNEL_HEAP_BEGIN - 1\<rparr>"

text \<open>
  \<^verbatim>\<open>kheap_output_debug_msg\<close>: what it prints of the heap, the node counts and the two
  walks over the free blocks.
\<close>

definition kheap_output_debug_msg ::
  "'a kheap_state_scheme \<Rightarrow> (nat \<times> nat \<times> Block_t list \<times> Block_t list) exec" where
  "kheap_output_debug_msg s =
     andThen (walk (\<lambda>b out. out @ [b]) (tree_size s) []) (\<lambda>by_size.
     andThen (walk (\<lambda>b out. out @ [b]) (tree_start s) []) (\<lambda>by_start.
       ret (nstatic_mem (mm s) div TREE_NODE_SIZE, nfreed (mm s), by_size, by_start)))"

end
