(* ===== verification/Multiboot.thy ===== *)
theory Multiboot
  imports Memory
begin

text \<open>
  The structures of \<^verbatim>\<open>src/src/include/multiboot.h\<close> through which the boot loader hands
  its information to the kernel, decoded from memory at their packed offsets.
\<close>

definition MULTIBOOT_HEADER_MAGIC :: u32 where
  "MULTIBOOT_HEADER_MAGIC = 0x1BADB002"

definition MULTIBOOT_BOOTLOADER_MAGIC :: u32 where
  "MULTIBOOT_BOOTLOADER_MAGIC = 0x2BADB002"

definition MULTIBOOT_PAGE_ALIGN :: u32 where
  "MULTIBOOT_PAGE_ALIGN = 1"

definition MULTIBOOT_MEMORY_INFO :: u32 where
  "MULTIBOOT_MEMORY_INFO = 2"

definition MULTIBOOT_INFO_MEM_MAP :: u32 where
  "MULTIBOOT_INFO_MEM_MAP = 0x40"

definition MULTIBOOT_MEMORY_AVAILABLE :: u32 where
  "MULTIBOOT_MEMORY_AVAILABLE = 1"

definition load16 :: "u32 \<Rightarrow> memory \<Rightarrow> u16" where
  "load16 a m = ucast (m a) OR push_bit 8 (ucast (m (a + 1)))"

definition load64 :: "u32 \<Rightarrow> memory \<Rightarrow> u64" where
  "load64 a m = ucast (load32 a m) OR push_bit 32 (ucast (load32 (a + 4) m))"

record Multiboot_info_t =
  mb_flags :: u32
  mem_lower :: u32
  mem_upper :: u32
  boot_device :: u32
  cmdline :: u32
  mods_count :: u32
  mods_addr :: u32
  u_words :: "u32 list"
  mmap_length :: u32
  mmap_addr :: u32
  drives_length :: u32
  drives_addr :: u32
  config_table :: u32
  boot_loader_name :: u32
  apm_table :: u32
  vbe_control_info :: u32
  vbe_mode_info :: u32
  vbe_mode :: u16
  vbe_interface_seg :: u16
  vbe_interface_off :: u16
  vbe_interface_len :: u16

definition load_Multiboot_info :: "u32 \<Rightarrow> memory \<Rightarrow> Multiboot_info_t" where
  "load_Multiboot_info a m =
     \<lparr>mb_flags = load32 a m, mem_lower = load32 (a + 4) m, mem_upper = load32 (a + 8) m,
      boot_device = load32 (a + 12) m, cmdline = load32 (a + 16) m, mods_count = load32 (a + 20) m,
      mods_addr = load32 (a + 24) m,
      u_words = [load32 (a + 28) m, load32 (a + 32) m, load32 (a + 36) m, load32 (a + 40) m],
      mmap_length = load32 (a + 44) m, mmap_addr = load32 (a + 48) m,
      drives_length = load32 (a + 52) m, drives_addr = load32 (a + 56) m,
      config_table = load32 (a + 60) m, boot_loader_name = load32 (a + 64) m,
      apm_table = load32 (a + 68) m, vbe_control_info = load32 (a + 72) m,
      vbe_mode_info = load32 (a + 76) m, vbe_mode = load16 (a + 80) m,
      vbe_interface_seg = load16 (a + 82) m, vbe_interface_off = load16 (a + 84) m,
      vbe_interface_len = load16 (a + 86) m\<rparr>"

record Multiboot_mmap_entry_t =
  me_size :: u32
  me_addr :: u64
  me_len :: u64
  me_type :: u32

definition load_mmap_entry :: "u32 \<Rightarrow> memory \<Rightarrow> Multiboot_mmap_entry_t" where
  "load_mmap_entry a m = \<lparr>me_size = load32 a m, me_addr = load64 (a + 4) m,
     me_len = load64 (a + 12) m, me_type = load32 (a + 20) m\<rparr>"

text \<open>The header the loader searches the kernel image for, as \<^verbatim>\<open>asm/loader.S\<close> emits it.\<close>

record Multiboot_header_t =
  mh_magic :: u32
  mh_flags :: u32
  mh_checksum :: u32

definition loader_header :: Multiboot_header_t where
  "loader_header =
     (let flags = MULTIBOOT_PAGE_ALIGN OR MULTIBOOT_MEMORY_INFO
      in \<lparr>mh_magic = MULTIBOOT_HEADER_MAGIC, mh_flags = flags,
          mh_checksum = - (MULTIBOOT_HEADER_MAGIC + flags)\<rparr>)"

end
