(* ===== verification/Page.thy ===== *)
theory Page
  imports Kheap Multiboot
begin

text \<open>
  Paging, \<^verbatim>\<open>src/src/core/page.cpp\<close> and \<^verbatim>\<open>src/src/include/page.h\<close>: page tables and
  directories, the stack of free frames and the reference counts of shared ones, lazy
  allocation, copy-on-write, the page fault handler and the initialization.

  Tables and directories are typed objects at the addresses \<^verbatim>\<open>kmalloc\<close> returns; a
  \<^verbatim>\<open>Table_entry_t *\<close> is a table address with an index, \<^verbatim>\<open>NULL\<close> being address 0. The machine
  is modelled as far as this code depends on it: the contents of the frames, CR3, and a
  translation buffer whose entries stay in force until \<^verbatim>\<open>invlpg\<close> or a load of CR3 removes them.
  \<^verbatim>\<open>kmalloc\<close> and \<^verbatim>\<open>lazy_alloc_interval\<close> call each other; here \<open>km\<close> stands for
  \<^verbatim>\<open>kmalloc\<close> and the knot is tied at the end. Log output is not part of the state.
\<close>

section \<open>Data\<close>

record Directory_entry_t =
  de_present :: bool
  de_rw :: bool
  de_user :: bool
  de_wrt_thr :: bool
  de_cache_dis :: bool
  de_accessed :: bool
  de_zero :: "6 word"
  de_addr :: "20 word"

record Table_entry_t =
  present :: bool
  rw :: bool
  user :: bool
  wrt_thr :: bool
  cache_dis :: bool
  accessed :: bool
  dirty :: bool
  zero :: bool
  global :: bool
  allocable :: bool
  alloc_fill :: "2 word"
  addr :: "20 word"

type_synonym Table_t = "nat \<Rightarrow> Table_entry_t"

record Directory_t =
  tables :: "nat \<Rightarrow> u32"
  dentries :: "nat \<Rightarrow> Directory_entry_t"
  phyaddr :: u32

type_synonym entry_ref = "u32 \<times> nat"
type_synonym frame_no = "20 word"

text \<open>Memory cleared by \<^verbatim>\<open>memset\<close>, read as each type.\<close>

definition zero_entry :: Table_entry_t where
  "zero_entry = \<lparr>present = False, rw = False, user = False, wrt_thr = False, cache_dis = False,
     accessed = False, dirty = False, zero = False, global = False, allocable = False,
     alloc_fill = 0, addr = 0\<rparr>"

definition zero_table :: Table_t where
  "zero_table = (\<lambda>i. zero_entry)"

definition zero_dentry :: Directory_entry_t where
  "zero_dentry = \<lparr>de_present = False, de_rw = False, de_user = False, de_wrt_thr = False,
     de_cache_dis = False, de_accessed = False, de_zero = 0, de_addr = 0\<rparr>"

definition zero_directory :: Directory_t where
  "zero_directory = \<lparr>tables = (\<lambda>i. 0), dentries = (\<lambda>i. zero_dentry), phyaddr = 0\<rparr>"

definition sizeof_Table_t :: u32 where
  "sizeof_Table_t = 4096"

definition sizeof_Directory_t :: u32 where
  "sizeof_Directory_t = 8196"

record page_state = kheap_state +
  current_page_dir :: u32
  dirs :: "u32 \<Rightarrow> Directory_t"
  tabs :: "u32 \<Rightarrow> Table_t"
  frames :: "u32 \<Rightarrow> u32"
  nframes :: u32
  frame_ref_cnt :: "u32 \<Rightarrow> u32"
  empty_page0_addr :: u32
  empty_page1_addr :: u32
  kernel_low_ntable :: u32
  empty_page0_ptr :: entry_ref
  empty_page1_ptr :: entry_ref
  init_finished :: bool
  frame_mem :: "frame_no \<Rightarrow> 10 word \<Rightarrow> u32"
  tlb :: "20 word \<rightharpoonup> frame_no"
  cr3 :: u32
  paging_on :: bool

section \<open>Accessors and the machine\<close>

definition ent :: "entry_ref \<Rightarrow> 'a page_state_scheme \<Rightarrow> Table_entry_t" where
  "ent r s = tabs s (fst r) (snd r)"

definition upd_ent ::
  "entry_ref \<Rightarrow> (Table_entry_t \<Rightarrow> Table_entry_t) \<Rightarrow> 'a page_state_scheme \<Rightarrow> 'a page_state_scheme" where
  "upd_ent r f s = s\<lparr>tabs := (tabs s)(fst r := (tabs s (fst r))(snd r := f (ent r s)))\<rparr>"

definition upd_dir ::
  "u32 \<Rightarrow> (Directory_t \<Rightarrow> Directory_t) \<Rightarrow> 'a page_state_scheme \<Rightarrow> 'a page_state_scheme" where
  "upd_dir d f s = s\<lparr>dirs := (dirs s)(d := f (dirs s d))\<rparr>"

definition vpn :: "u32 \<Rightarrow> 20 word" where
  "vpn a = ucast (drop_bit 12 a)"

definition tb_idx :: "u32 \<Rightarrow> nat" where
  "tb_idx a = unat (drop_bit 10 (drop_bit 12 a))"

definition tb_offset :: "u32 \<Rightarrow> nat" where
  "tb_offset a = unat (drop_bit 12 a AND 0x3FF)"

definition invlpg :: "u32 \<Rightarrow> 'a page_state_scheme \<Rightarrow> 'a page_state_scheme" where
  "invlpg a s = s\<lparr>tlb := (tlb s)(vpn a := None)\<rparr>"

text \<open>
  The frame an access to \<open>a\<close> reaches: the cached translation, or the current tables', which
  the processor then caches.
\<close>

definition hw_frame :: "u32 \<Rightarrow> 'a page_state_scheme \<Rightarrow> frame_no" where
  "hw_frame a s = (case tlb s (vpn a) of Some f \<Rightarrow> f
     | None \<Rightarrow> addr (ent (tables (dirs s (current_page_dir s)) (tb_idx a), tb_offset a) s))"

definition hw_access :: "u32 \<Rightarrow> 'a page_state_scheme \<Rightarrow> 'a page_state_scheme" where
  "hw_access a s = s\<lparr>tlb := (tlb s)(vpn a \<mapsto> hw_frame a s)\<rparr>"

section \<open>Table entries\<close>

definition fill_uint32 :: "entry_ref \<Rightarrow> u32 \<Rightarrow> 'a page_state_scheme \<Rightarrow> 'a page_state_scheme" where
  "fill_uint32 r val s =
     (let s = upd_ent (empty_page0_ptr s) (\<lambda>e. e\<lparr>addr := addr (ent r s)\<rparr>) s;
          s = invlpg (empty_page0_addr s) s;
          f = hw_frame (empty_page0_addr s) s;
          s = hw_access (empty_page0_addr s) s
      in s\<lparr>frame_mem := (frame_mem s)(f := (\<lambda>w. val))\<rparr>)"

definition entry_alloc :: "entry_ref \<Rightarrow> bool \<Rightarrow> bool \<Rightarrow> 'a page_state_scheme \<Rightarrow> 'a page_state_scheme exec" where
  "entry_alloc r usr writable s =
     (let s = upd_ent r (\<lambda>e. e\<lparr>rw := writable, user := usr\<rparr>) s
      in if addr (ent r s) = 0 then
           (if nframes s = 0 then halt (Panic ''no free frame'')
            else
              (let s = s\<lparr>nframes := nframes s - 1\<rparr>;
                   s = upd_ent r (\<lambda>e. e\<lparr>addr := ucast (frames s (nframes s))\<rparr>) s;
                   s = s\<lparr>frame_ref_cnt := (frame_ref_cnt s)(ucast (addr (ent r s)) := 1)\<rparr>
               in ret (upd_ent r (\<lambda>e. e\<lparr>allocable := True, present := True\<rparr>) s)))
         else ret s)"

definition entry_lazy_alloc ::
  "entry_ref \<Rightarrow> bool \<Rightarrow> bool \<Rightarrow> bool \<Rightarrow> 'a page_state_scheme \<Rightarrow> 'a page_state_scheme" where
  "entry_lazy_alloc r usr writable fill_zero s =
     (let s = upd_ent r (\<lambda>e. e\<lparr>rw := writable, user := usr\<rparr>) s
      in if addr (ent r s) = 0
         then upd_ent r (\<lambda>e. e\<lparr>allocable := True, alloc_fill := of_bool fill_zero\<rparr>) s
         else if fill_zero then fill_uint32 r 0 s else s)"

definition entry_free :: "entry_ref \<Rightarrow> 'a page_state_scheme \<Rightarrow> 'a page_state_scheme" where
  "entry_free r s =
     (if addr (ent r s) \<noteq> 0 then
        (let f = ucast (addr (ent r s));
             s = s\<lparr>frame_ref_cnt := (frame_ref_cnt s)(f := frame_ref_cnt s f - 1)\<rparr>;
             s = (if frame_ref_cnt s f = 0
                  then s\<lparr>frames := (frames s)(nframes s := f), nframes := nframes s + 1\<rparr> else s)
         in upd_ent r (\<lambda>e. e\<lparr>addr := 0, present := False, allocable := False\<rparr>) s)
      else s)"

section \<open>The page fault handler\<close>

text \<open>\<^verbatim>\<open>get_page(addr)\<close> with \<^verbatim>\<open>make\<close> false.\<close>

definition lookup_page :: "u32 \<Rightarrow> u32 \<Rightarrow> 'a page_state_scheme \<Rightarrow> entry_ref option" where
  "lookup_page d a s =
     (let t = tables (dirs s d) (tb_idx a) in if t = 0 then None else Some (t, tb_offset a))"

definition copy_page_physical :: "u32 \<Rightarrow> u32 \<Rightarrow> 'a page_state_scheme \<Rightarrow> 'a page_state_scheme" where
  "copy_page_physical dest src s =
     (let s = upd_ent (empty_page0_ptr s) (\<lambda>e. e\<lparr>addr := ucast (drop_bit 12 src)\<rparr>) s;
          s = upd_ent (empty_page1_ptr s) (\<lambda>e. e\<lparr>addr := ucast (drop_bit 12 dest)\<rparr>) s;
          s = invlpg (empty_page0_addr s) s;
          s = invlpg (empty_page1_addr s) s;
          f0 = hw_frame (empty_page0_addr s) s;
          s = hw_access (empty_page0_addr s) s;
          f1 = hw_frame (empty_page1_addr s) s;
          s = hw_access (empty_page1_addr s) s
      in s\<lparr>frame_mem := (frame_mem s)(f1 := frame_mem s f0)\<rparr>)"

text \<open>
  \<open>cr2\<close> is the faulting address the processor leaves in CR2; \<open>kernel_code_end\<close> is set by the
  linker. Every path to the label \<^verbatim>\<open>error\<close> prints the cause and panics.
\<close>

definition page_fault ::
  "u32 \<Rightarrow> u32 \<Rightarrow> u32 \<Rightarrow> u32 \<Rightarrow> 'a page_state_scheme \<Rightarrow> 'a page_state_scheme exec" where
  "page_fault kernel_code_end eip err_code cr2 s =
     (let error = halt (Panic ''page fault'')
      in case lookup_page (current_page_dir s) cr2 s of
           None \<Rightarrow> error
         | Some page \<Rightarrow>
             if \<not> allocable (ent page s) then error
             else if \<not> user (ent page s) \<and> eip \<ge> kernel_code_end then error
             else if err_code AND 1 = 0 then
               andThen (entry_alloc page (user (ent page s)) (rw (ent page s)) s) (\<lambda>s.
                 ret (if alloc_fill (ent page s) \<noteq> 0 then fill_uint32 page 0 s else s))
             else if err_code AND 2 \<noteq> 0 \<and> user (ent page s) then
               (let f = ucast (addr (ent page s))
                in if addr (ent page s) = 0 \<or> frame_ref_cnt s f = 0 then error
                   else if frame_ref_cnt s f = 1 then ret (upd_ent page (\<lambda>e. e\<lparr>rw := True\<rparr>) s)
                   else
                     (let s = s\<lparr>frame_ref_cnt := (frame_ref_cnt s)(f := frame_ref_cnt s f - 1)\<rparr>;
                          s = upd_ent page (\<lambda>e. e\<lparr>addr := 0\<rparr>) s
                      in andThen (entry_alloc page True True s) (\<lambda>s.
                           ret (copy_page_physical (push_bit 12 (ucast (addr (ent page s)))) (push_bit 12 f) s))))
             else error)"

section \<open>First accesses\<close>

text \<open>
  A write by the kernel to a page that is marked for allocation and has no frame faults, and the handler runs
  before the write completes. Kernel code cannot observe such a fault, except where it asks for the physical address of memory
  it has just cleared; there it is part of the definition. Elsewhere a fault is a step of its own, at any moment.
\<close>

definition kernel_write :: "u32 \<Rightarrow> 'a page_state_scheme \<Rightarrow> 'a page_state_scheme exec" where
  "kernel_write a s =
     (if \<not> paging_on s then ret s
      else case lookup_page (current_page_dir s) a s of
        Some r \<Rightarrow> if present (ent r s) then ret s else page_fault 1 0 2 a s
      | None \<Rightarrow> halt (Panic ''page fault''))"

section \<open>Directories\<close>

definition get_physical_addr ::
  "u32 \<Rightarrow> u32 \<Rightarrow> bool \<Rightarrow> bool \<Rightarrow> bool \<Rightarrow> 'a page_state_scheme \<Rightarrow> (u32 \<times> 'a page_state_scheme) exec" where
  "get_physical_addr d a alloc usr writable s =
     (if \<not> init_finished s then ret (a, s)
      else case lookup_page d a s of
        None \<Rightarrow> ret (0, s)
      | Some page \<Rightarrow>
          andThen
            (if addr (ent page s) = 0 then
               (if \<not> alloc then ret None else andThen (entry_alloc page usr writable s) (\<lambda>s. ret (Some s)))
             else ret (Some s))
            (\<lambda>r. case r of None \<Rightarrow> ret (0, s)
               | Some s \<Rightarrow> ret (push_bit 12 (ucast (addr (ent page s))) OR (a AND 0xFFF), s)))"

definition get_page ::
  "(u32 \<Rightarrow> nat \<Rightarrow> 'a page_state_scheme \<Rightarrow> (u32 \<times> 'a page_state_scheme) exec) \<Rightarrow>
   u32 \<Rightarrow> u32 \<Rightarrow> bool \<Rightarrow> 'a page_state_scheme \<Rightarrow> (entry_ref option \<times> 'a page_state_scheme) exec" where
  "get_page km d a mk s =
     (if tables (dirs s d) (tb_idx a) = 0 then
        (if \<not> mk then ret (None, s)
         else
           andThen (km sizeof_Table_t 12 s) (\<lambda>(t, s).
             let s = upd_dir d (\<lambda>D. D\<lparr>tables := (tables D)(tb_idx a := t)\<rparr>) s
             in andThen (kernel_write t s) (\<lambda>s.
                let s = s\<lparr>tabs := (tabs s)(t := zero_table)\<rparr>;
                    s = upd_dir d (\<lambda>D. D\<lparr>dentries := (dentries D)(tb_idx a :=
                          (dentries D (tb_idx a))\<lparr>de_present := True, de_rw := True, de_user := True\<rparr>)\<rparr>) s
                in andThen (get_physical_addr (current_page_dir s) t False False True s) (\<lambda>(pa, s).
                   let s = upd_dir d (\<lambda>D. D\<lparr>dentries := (dentries D)(tb_idx a :=
                             (dentries D (tb_idx a))\<lparr>de_addr := ucast (drop_bit 12 pa)\<rparr>)\<rparr>) s
                   in ret (Some (tables (dirs s d) (tb_idx a), tb_offset a), s)))))
      else ret (Some (tables (dirs s d) (tb_idx a), tb_offset a), s))"

definition enable :: "u32 \<Rightarrow> 'a page_state_scheme \<Rightarrow> 'a page_state_scheme" where
  "enable d s = s\<lparr>current_page_dir := d, cr3 := phyaddr (dirs s d), tlb := Map.empty\<rparr>"

text \<open>
  The interval operations: \<^verbatim>\<open>get_page(i, true)\<close> never returns \<^verbatim>\<open>NULL\<close>, so its result is
  used as it is.
\<close>

definition page_of :: "entry_ref option \<Rightarrow> entry_ref" where
  "page_of r = (case r of None \<Rightarrow> (0, 0) | Some p \<Rightarrow> p)"

definition lazy_alloc_interval ::
  "(u32 \<Rightarrow> nat \<Rightarrow> 'a page_state_scheme \<Rightarrow> (u32 \<times> 'a page_state_scheme) exec) \<Rightarrow>
   u32 \<Rightarrow> u32 \<Rightarrow> u32 \<Rightarrow> bool \<Rightarrow> bool \<Rightarrow> bool \<Rightarrow> 'a page_state_scheme \<Rightarrow> 'a page_state_scheme exec" where
  "lazy_alloc_interval km d b e usr writable fill_zero s =
     andThen (kassert (b AND 0xFFFFF000 = b) ''(begin & 0xFFFFF000) == begin'') (\<lambda>_.
     andThen (kassert (e AND 0xFFFFF000 = e) ''(end & 0xFFFFF000) == end'') (\<lambda>_.
       page_loop (\<lambda>i s. andThen (get_page km d i True s) (\<lambda>(r, s).
         ret (invlpg i (entry_lazy_alloc (page_of r) usr writable fill_zero s)))) b e s))"

definition free_interval :: "u32 \<Rightarrow> u32 \<Rightarrow> u32 \<Rightarrow> 'a page_state_scheme \<Rightarrow> 'a page_state_scheme exec" where
  "free_interval d b e s =
     andThen (kassert (b AND 0xFFFFF000 = b) ''(begin & 0xFFFFF000) == begin'') (\<lambda>_.
     andThen (kassert (e AND 0xFFFFF000 = e) ''(end & 0xFFFFF000) == end'') (\<lambda>_.
       page_loop (\<lambda>i s. case lookup_page d i s of
           None \<Rightarrow> ret s
         | Some page \<Rightarrow> ret (if present (ent page s) then invlpg i (entry_free page s) else s)) b e s))"

definition alloc_interval ::
  "(u32 \<Rightarrow> nat \<Rightarrow> 'a page_state_scheme \<Rightarrow> (u32 \<times> 'a page_state_scheme) exec) \<Rightarrow>
   u32 \<Rightarrow> u32 \<Rightarrow> u32 \<Rightarrow> bool \<Rightarrow> bool \<Rightarrow> 'a page_state_scheme \<Rightarrow> 'a page_state_scheme exec" where
  "alloc_interval km d b e usr writable s =
     andThen (kassert (b AND 0xFFFFF000 = b) ''(begin & 0xFFFFF000) == begin'') (\<lambda>_.
     andThen (kassert (e AND 0xFFFFF000 = e) ''(end & 0xFFFFF000) == end'') (\<lambda>_.
       page_loop (\<lambda>i s. andThen (get_page km d i True s) (\<lambda>(r, s).
         andThen (entry_alloc (page_of r) usr writable s) (\<lambda>s. ret (invlpg i s)))) b e s))"

section \<open>Copying\<close>

definition clone_entry :: "u32 \<Rightarrow> u32 \<Rightarrow> u32 \<Rightarrow> nat \<Rightarrow> 'a page_state_scheme \<Rightarrow> 'a page_state_scheme" where
  "clone_entry dest src base_addr i s =
     (if addr (ent (src, i) s) \<noteq> 0 then
        (let s = upd_ent (src, i) (\<lambda>e. e\<lparr>rw := False\<rparr>) s;
             s = upd_ent (dest, i) (\<lambda>_. ent (src, i) s) s;
             f = ucast (addr (ent (src, i) s));
             s = s\<lparr>frame_ref_cnt := (frame_ref_cnt s)(f := frame_ref_cnt s f + 1)\<rparr>
         in invlpg (base_addr OR push_bit 12 (of_nat i)) s)
      else upd_ent (dest, i) (\<lambda>_. ent (src, i) s) s)"

definition clone_table ::
  "(u32 \<Rightarrow> nat \<Rightarrow> 'a page_state_scheme \<Rightarrow> (u32 \<times> 'a page_state_scheme) exec) \<Rightarrow>
   u32 \<Rightarrow> u32 \<Rightarrow> 'a page_state_scheme \<Rightarrow> (u32 \<times> 'a page_state_scheme) exec" where
  "clone_table km src base_addr s =
     andThen (km sizeof_Table_t 12 s) (\<lambda>(dest, s).
     andThen (kernel_write dest s) (\<lambda>s.
       let s = s\<lparr>tabs := (tabs s)(dest := zero_table)\<rparr>
       in ret (dest, fold (clone_entry dest src base_addr) [0..<1024] s)))"

definition link_table :: "u32 \<Rightarrow> u32 \<Rightarrow> nat \<Rightarrow> 'a page_state_scheme \<Rightarrow> 'a page_state_scheme" where
  "link_table dest src i s =
     upd_dir dest (\<lambda>D. D\<lparr>tables := (tables D)(i := tables (dirs s src) i),
       dentries := (dentries D)(i := dentries (dirs s src) i)\<rparr>) s"

text \<open>One round of the kernel stack loop, and one of the copy-on-write loop, of \<^verbatim>\<open>clone_directory\<close>.\<close>

definition clone_stack_page ::
  "(u32 \<Rightarrow> nat \<Rightarrow> 'a page_state_scheme \<Rightarrow> (u32 \<times> 'a page_state_scheme) exec) \<Rightarrow>
   u32 \<Rightarrow> u32 \<Rightarrow> 'a page_state_scheme \<Rightarrow> 'a page_state_scheme exec" where
  "clone_stack_page km dest i s =
     andThen (get_page km dest i True s) (\<lambda>(_, s).
     andThen (get_physical_addr dest i True False True s) (\<lambda>(pd, s).
     andThen (get_physical_addr (current_page_dir s) i False False True s) (\<lambda>(ps, s).
       ret (copy_page_physical pd ps s))))"

definition clone_user_table ::
  "(u32 \<Rightarrow> nat \<Rightarrow> 'a page_state_scheme \<Rightarrow> (u32 \<times> 'a page_state_scheme) exec) \<Rightarrow>
   u32 \<Rightarrow> u32 \<Rightarrow> nat \<Rightarrow> 'a page_state_scheme \<Rightarrow> 'a page_state_scheme exec" where
  "clone_user_table km dest src i s =
     (if tables (dirs s src) i \<noteq> 0 then
        andThen (clone_table km (tables (dirs s src) i) (push_bit 22 (of_nat i)) s) (\<lambda>(t, s).
        let s = upd_dir dest (\<lambda>D. D\<lparr>tables := (tables D)(i := t),
                  dentries := (dentries D)(i := dentries (dirs s src) i)\<rparr>) s
        in andThen (get_physical_addr (current_page_dir s) t False False True s) (\<lambda>(pa, s).
           ret (upd_dir dest (\<lambda>D. D\<lparr>dentries := (dentries D)(i :=
                  (dentries D i)\<lparr>de_addr := ucast (drop_bit 12 pa)\<rparr>)\<rparr>) s)))
      else ret s)"

definition clone_directory ::
  "(u32 \<Rightarrow> nat \<Rightarrow> 'a page_state_scheme \<Rightarrow> (u32 \<times> 'a page_state_scheme) exec) \<Rightarrow>
   u32 \<Rightarrow> 'a page_state_scheme \<Rightarrow> (u32 \<times> 'a page_state_scheme) exec" where
  "clone_directory km src s =
     andThen (km sizeof_Directory_t 12 s) (\<lambda>(dest, s).
     andThen (foldM (\<lambda>i. kernel_write (dest + i)) [0, 0x1000, 0x2000] s) (\<lambda>s.
     let s = s\<lparr>dirs := (dirs s)(dest := zero_directory)\<rparr>
     in andThen (get_physical_addr (current_page_dir s) (dest + 4096) False False True s) (\<lambda>(pa, s).
        let s = upd_dir dest (\<lambda>D. D\<lparr>phyaddr := pa\<rparr>) s;
            s = fold (link_table dest src) [0..<unat (kernel_low_ntable s)] s;
            s = fold (link_table dest src)
                  [unat (drop_bit 22 KERNEL_HEAP_BEGIN)..<unat (drop_bit 22 KERNEL_HEAP_END)] s
        in andThen (page_loop (clone_stack_page km dest)
                      (KERNEL_STACK_POS - KERNEL_STACK_SIZE) KERNEL_STACK_POS s) (\<lambda>s.
           andThen (foldM (clone_user_table km dest src)
                      [unat (kernel_low_ntable s)..<unat (drop_bit 22 KERNEL_HEAP_BEGIN)] s) (\<lambda>s.
             ret (dest, s))))))"

section \<open>Initialization\<close>

text \<open>The first loop of \<^verbatim>\<open>init_frames\<close>: the end of the highest usable region.\<close>

partial_function (option) mmap_memsize ::
  "Multiboot_info_t \<Rightarrow> memory \<Rightarrow> u32 \<Rightarrow> u32 \<Rightarrow> u32 exec" where
  "mmap_memsize mbd m a memsize =
     (if a < mmap_addr mbd + mmap_length mbd then
        (let e = load_mmap_entry a m;
             end64 = me_addr e + me_len e
         in if me_type e = MULTIBOOT_MEMORY_AVAILABLE then
              (if me_addr e \<ge> 0xFFFFFFFF \<or> me_len e \<ge> 0xFFFFFFFF \<or> end64 > 0xFFFFFFFF
               then halt (Panic ''physical memory too large'')
               else mmap_memsize mbd m (a + (me_size e + 4))
                      (if end64 > ucast memsize then ucast end64 else memsize))
            else mmap_memsize mbd m (a + (me_size e + 4)) memsize)
      else ret memsize)"

text \<open>
  \<^verbatim>\<open>for (uint32_t i = end - 1; (-- i) >= start; )\<close>: the frames of one region, from the top,
  down to the end of the static heap.
\<close>

partial_function (option) push_frames ::
  "u32 \<Rightarrow> u32 \<Rightarrow> 'a page_state_scheme \<Rightarrow> 'a page_state_scheme exec" where
  "push_frames i first s =
     (let i = i - 1
      in if i \<ge> first then
           (if i > drop_bit 12 (kheap_get_size_pre_init s)
            then push_frames i first (s\<lparr>frames := (frames s)(nframes s := i), nframes := nframes s + 1\<rparr>)
            else ret s)
         else ret s)"

partial_function (option) mmap_frames ::
  "Multiboot_info_t \<Rightarrow> u32 \<Rightarrow> 'a page_state_scheme \<Rightarrow> 'a page_state_scheme exec" where
  "mmap_frames mbd a s =
     (if a < mmap_addr mbd + mmap_length mbd then
        (let e = load_mmap_entry a (kmem s);
             first = ucast (me_addr e) :: u32;
             first = (if first \<noteq> 0 then drop_bit 12 (first - 1) + 1 else first);
             last = drop_bit 12 (ucast (me_addr e + me_len e) :: u32)
         in andThen (if me_type e = MULTIBOOT_MEMORY_AVAILABLE then push_frames (last - 1) first s else ret s)
              (\<lambda>s. mmap_frames mbd (a + (me_size e + 4)) s))
      else ret s)"

definition init_frames ::
  "(u32 \<Rightarrow> nat \<Rightarrow> 'a page_state_scheme \<Rightarrow> (u32 \<times> 'a page_state_scheme) exec) \<Rightarrow>
   Multiboot_info_t \<Rightarrow> 'a page_state_scheme \<Rightarrow> 'a page_state_scheme exec" where
  "init_frames km mbd s =
     andThen (mmap_memsize mbd (kmem s) (mmap_addr mbd) 0) (\<lambda>memsize.
     andThen (km (4 * drop_bit 12 memsize) 0 s) (\<lambda>(_, s).
       mmap_frames mbd (mmap_addr mbd) (s\<lparr>nframes := 0\<rparr>)))"

text \<open>\<^verbatim>\<open>while (frames[nframes - 1] <= (kheap_get_size_pre_init() >> 12)) nframes --;\<close>\<close>

partial_function (option) drop_frames :: "'a page_state_scheme \<Rightarrow> 'a page_state_scheme exec" where
  "drop_frames s =
     (if frames s (nframes s - 1) \<le> drop_bit 12 (kheap_get_size_pre_init s)
      then drop_frames (s\<lparr>nframes := nframes s - 1\<rparr>) else ret s)"

definition map_identity ::
  "(u32 \<Rightarrow> nat \<Rightarrow> 'a page_state_scheme \<Rightarrow> (u32 \<times> 'a page_state_scheme) exec) \<Rightarrow>
   u32 \<Rightarrow> 'a page_state_scheme \<Rightarrow> 'a page_state_scheme exec" where
  "map_identity km i s =
     andThen (get_page km (current_page_dir s) i True s) (\<lambda>(r, s).
       ret (upd_ent (page_of r) (\<lambda>e. e\<lparr>present := True, rw := True, user := False, addr := ucast (drop_bit 12 i)\<rparr>) s))"

text \<open>\<^verbatim>\<open>for (i = 0x1000; i < kheap_get_size_pre_init(); i += 0x1000)\<close>: the bound moves as tables are made.\<close>

partial_function (option) map_kernel_image ::
  "(u32 \<Rightarrow> nat \<Rightarrow> 'a page_state_scheme \<Rightarrow> (u32 \<times> 'a page_state_scheme) exec) \<Rightarrow>
   u32 \<Rightarrow> 'a page_state_scheme \<Rightarrow> 'a page_state_scheme exec" where
  "map_kernel_image km i s =
     (if i < kheap_get_size_pre_init s
      then andThen (map_identity km i s) (\<lambda>s. map_kernel_image km (i + 0x1000) s) else ret s)"

text \<open>
  \<^verbatim>\<open>Page::init\<close>. Registering the page fault handler is part of the interrupt tables;
  \<open>isr_register\<close> is that call.
\<close>

definition page_init ::
  "(u32 \<Rightarrow> nat \<Rightarrow> 'a page_state_scheme \<Rightarrow> (u32 \<times> 'a page_state_scheme) exec) \<Rightarrow>
   ('a page_state_scheme \<Rightarrow> 'a page_state_scheme) \<Rightarrow>
   u32 \<Rightarrow> 'a page_state_scheme \<Rightarrow> 'a page_state_scheme exec" where
  "page_init km isr_register ptr_mbd s =
     (let mbd = load_Multiboot_info ptr_mbd (kmem s)
      in andThen (kassert (mb_flags mbd AND MULTIBOOT_INFO_MEM_MAP \<noteq> 0) ''mbd->flags & MULTIBOOT_INFO_MEM_MAP'') (\<lambda>_.
         let s = (if mods_count mbd \<noteq> 0 then kheap_preserve_mem (load32 (mods_addr mbd + 4) (kmem s) + 4) s else s)
         in andThen (km sizeof_Directory_t 12 s) (\<lambda>(d, s).
            let s = s\<lparr>current_page_dir := d, dirs := (dirs s)(d := zero_directory)\<rparr>
            in andThen (init_frames km mbd s) (\<lambda>s.
            andThen (kheap_init (\<lambda>i s. andThen (get_page km (current_page_dir s) i True s) (\<lambda>(_, s). ret s)) s) (\<lambda>s.
            andThen (km (4 * (frames s 0 - frames s (nframes s - 1) + 1)) 0 s) (\<lambda>(_, s).
            andThen (map_kernel_image km 0x1000 s) (\<lambda>s.
            let s = s\<lparr>kernel_low_ntable := drop_bit 22 (kheap_get_size_pre_init s - 1) + 1\<rparr>
            in andThen (drop_frames s) (\<lambda>s.
               let s = upd_dir (current_page_dir s) (\<lambda>D. D\<lparr>phyaddr := current_page_dir s + 4096\<rparr>) s;
                   s = enable (current_page_dir s) s;
                   s = s\<lparr>paging_on := True, init_finished := True\<rparr>;
                   s = isr_register (kheap_finish_init s)
               in andThen (km (push_bit 13 1) 12 s) (\<lambda>(a, s).
                  let s = s\<lparr>empty_page0_addr := a, empty_page1_addr := a + 0x1000\<rparr>;
                      p0 = lookup_page (current_page_dir s) (empty_page0_addr s) s;
                      p1 = lookup_page (current_page_dir s) (empty_page1_addr s) s
                  in andThen (kassert (p0 \<noteq> None) ''empty_page0_ptr'') (\<lambda>_.
                     andThen (kassert (p1 \<noteq> None) ''empty_page1_ptr'') (\<lambda>_.
                       let s = s\<lparr>empty_page0_ptr := page_of p0, empty_page1_ptr := page_of p1\<rparr>;
                           s = upd_ent (empty_page0_ptr s) (\<lambda>e. e\<lparr>present := True\<rparr>) s
                       in ret (upd_ent (empty_page1_ptr s) (\<lambda>e. e\<lparr>present := True\<rparr>) s))))))))))))"

section \<open>Tying the knot\<close>

text \<open>
  \<^verbatim>\<open>kmalloc\<close> calls \<^verbatim>\<open>lazy_alloc_interval\<close>, which calls \<^verbatim>\<open>kmalloc\<close> for a missing
  table. The depth of that recursion is the first argument; beyond it the call has no value.
\<close>

fun kmalloc_at ::
  "nat \<Rightarrow> u32 \<Rightarrow> nat \<Rightarrow> 'a page_state_scheme \<Rightarrow> (u32 \<times> 'a page_state_scheme) exec" where
  "kmalloc_at 0 sz palign s = None"
| "kmalloc_at (Suc n) sz palign s =
     kmalloc (\<lambda>b e usr writable fill s.
       lazy_alloc_interval (kmalloc_at n) (current_page_dir s) b e usr writable fill s) sz palign s"

definition kfree_here :: "u32 \<Rightarrow> 'a page_state_scheme \<Rightarrow> 'a page_state_scheme exec" where
  "kfree_here a s = kfree (\<lambda>b e s. free_interval (current_page_dir s) b e s) a s"

end
