(* ===== verification/Kheap_Trees.thy ===== *)
theory Kheap_Trees
  imports Kheap Rbtree_Thms
begin

text \<open>
  The node allocator of the kernel heap satisfies the contract of the tree template, for both
  block orders; the two trees of free blocks that share it are then sets of blocks, and
  every call on a tree is an operation on its set.
\<close>

section \<open>The node allocator\<close>

definition mm_node :: "tree_mm \<Rightarrow> nat \<Rightarrow> u32" where
  "mm_node m i = static_mem m + of_nat (TREE_NODE_SIZE * i)"

definition mm_pool :: "tree_mm \<Rightarrow> u32 set" where
  "mm_pool m = mm_node m ` {..<STATIC_SIZE}"

definition mm_freed :: "tree_mm \<Rightarrow> u32 set" where
  "mm_freed m = freed m ` {..<nfreed m}"

definition mm_given :: "tree_mm \<Rightarrow> u32 set" where
  "mm_given m = mm_node m ` {..<nstatic_mem m div TREE_NODE_SIZE}"

definition mm_in_use :: "tree_mm \<Rightarrow> u32 set" where
  "mm_in_use m = mm_given m - mm_freed m"

definition mm_inv :: "tree_mm \<Rightarrow> bool" where
  "mm_inv m \<longleftrightarrow> TREE_NODE_SIZE dvd nstatic_mem m \<and> nstatic_mem m < STATIC_MEM_SIZE \<and>
     even_addr (static_mem m) \<and> static_mem m \<noteq> 0 \<and> unat (static_mem m) + STATIC_MEM_SIZE \<le> 2 ^ 32 \<and>
     inj_on (freed m) {..<nfreed m} \<and> mm_freed m \<subseteq> mm_given m"

lemmas mm_sizes = STATIC_SIZE_def TREE_NODE_SIZE_def STATIC_MEM_SIZE_def

lemma even_addr_unat: "even_addr a \<longleftrightarrow> even (unat a)"
  using bit_unsigned_iff [of a 0, where 'a = nat] by (simp add: even_addr_def and_one_eq mod_2_eq_odd bit_0)

lemma unat_mm_node:
  assumes "mm_inv m" "i < STATIC_SIZE"
  shows "unat (mm_node m i) = unat (static_mem m) + 20 * i"
  using assms by (simp add: mm_node_def mm_inv_def mm_sizes unat_add unat_of_nat_small del: of_nat_mult)

lemma mm_node_inj: "mm_inv m \<Longrightarrow> inj_on (mm_node m) {..<STATIC_SIZE}"
proof (rule inj_onI)
  fix x y
  assume inv: "mm_inv m" and "x \<in> {..<STATIC_SIZE}" "y \<in> {..<STATIC_SIZE}" and eq: "mm_node m x = mm_node m y"
  then have "x < STATIC_SIZE" "y < STATIC_SIZE" by simp_all
  from this [THEN unat_mm_node [OF inv]] show "x = y" unfolding eq by linarith
qed

lemma mm_given_count: "mm_inv m \<Longrightarrow> nstatic_mem m div TREE_NODE_SIZE < STATIC_SIZE"
  by (auto simp: mm_inv_def mm_sizes)

lemma mm_freed_count:
  assumes "mm_inv m" "a \<in> mm_in_use m"
  shows "nfreed m < STATIC_SIZE"
proof -
  have "insert a (mm_freed m) \<subseteq> mm_given m" "a \<notin> mm_freed m"
    using assms by (auto simp: mm_in_use_def mm_inv_def)
  moreover have "finite (mm_given m)" by (simp add: mm_given_def)
  ultimately have "Suc (card (mm_freed m)) \<le> card (mm_given m)"
    by (metis card_insert_disjoint card_mono finite_subset insert_subset)
  moreover have "card (mm_freed m) = nfreed m"
    using assms(1) by (simp add: mm_inv_def mm_freed_def card_image)
  moreover have "card (mm_given m) \<le> nstatic_mem m div TREE_NODE_SIZE"
    unfolding mm_given_def by (metis card_image_le card_lessThan finite_lessThan)
  ultimately show ?thesis using mm_given_count [OF assms(1)] by linarith
qed

lemma Tree_mm_alloc_fresh:
  assumes inv: "mm_inv m" and alloc: "Tree_mm_alloc m = ret (a, m')"
  shows "a \<in> mm_pool m \<and> a \<notin> mm_in_use m \<and> mm_in_use m' = insert a (mm_in_use m) \<and> mm_inv m' \<and>
    mm_pool m' = mm_pool m"
proof (cases "nfreed m = 0")
  case False
  then obtain k where k: "nfreed m = Suc k" by (cases "nfreed m") auto
  from alloc k have a: "a = freed m k" and m': "m' = m\<lparr>nfreed := k\<rparr>" by (auto simp: Tree_mm_alloc_def)
  have freed: "mm_freed m = insert a (mm_freed m')"
    by (auto simp: mm_freed_def k m' a lessThan_Suc)
  have "a \<notin> mm_freed m'"
    using inv by (auto simp: mm_inv_def mm_freed_def k m' a lessThan_Suc)
  moreover have given: "mm_given m' = mm_given m" "mm_pool m' = mm_pool m" by (simp_all add: mm_given_def mm_pool_def mm_node_def m')
  moreover have "a \<in> mm_given m" using inv freed by (auto simp: mm_inv_def)
  moreover have "mm_given m \<subseteq> mm_pool m"
    using mm_given_count [OF inv] by (auto simp: mm_given_def mm_pool_def)
  moreover have "mm_inv m'"
    using inv freed given by (auto simp: mm_inv_def m' k lessThan_Suc)
  ultimately show ?thesis using freed by (auto simp: mm_in_use_def)
next
  case True
  let ?k = "nstatic_mem m div TREE_NODE_SIZE"
  from alloc True have bound: "nstatic_mem m + TREE_NODE_SIZE < STATIC_MEM_SIZE"
    and a: "a = static_mem m + of_nat (nstatic_mem m)"
    and m': "m' = m\<lparr>nstatic_mem := nstatic_mem m + TREE_NODE_SIZE\<rparr>"
    by (auto simp: Tree_mm_alloc_def split: if_splits)
  have dvd: "TREE_NODE_SIZE dvd nstatic_mem m" using inv by (simp add: mm_inv_def)
  have a': "a = mm_node m ?k" using dvd by (simp add: a mm_node_def del: of_nat_mult)
  have k: "?k < STATIC_SIZE" by (rule mm_given_count [OF inv])
  have "(nstatic_mem m + TREE_NODE_SIZE) div TREE_NODE_SIZE = Suc ?k" by (simp add: TREE_NODE_SIZE_def)
  then have given: "mm_given m' = insert a (mm_given m)"
    by (auto simp: mm_given_def m' a' mm_node_def lessThan_Suc)
  have "a \<notin> mm_given m"
    using inj_onD [OF mm_node_inj [OF inv], of ?k] k by (fastforce simp: mm_given_def a')
  moreover have "mm_freed m = {}" "mm_freed m' = {}" by (simp_all add: mm_freed_def True m')
  moreover have "mm_inv m'"
    using inv bound dvd \<open>mm_freed m' = {}\<close> by (auto simp: mm_inv_def m' True)
  moreover have "a \<in> mm_pool m" "mm_pool m' = mm_pool m" using k by (auto simp: a' mm_pool_def m' mm_node_def)
  ultimately show ?thesis using given by (simp add: mm_in_use_def)
qed

lemma Tree_mm_free_in_use:
  assumes inv: "mm_inv m" and a: "a \<in> mm_in_use m"
  shows "mm_inv (Tree_mm_free a m)" "mm_in_use (Tree_mm_free a m) = mm_in_use m - {a}"
    "mm_pool (Tree_mm_free a m) = mm_pool m"
proof -
  let ?m = "Tree_mm_free a m"
  have freed: "mm_freed ?m = insert a (mm_freed m)"
    by (auto simp: Tree_mm_free_def mm_freed_def lessThan_Suc)
  have given: "mm_given ?m = mm_given m" "mm_pool ?m = mm_pool m"
    by (simp_all add: mm_given_def mm_pool_def mm_node_def Tree_mm_free_def)
  have "a \<notin> freed m ` {..<nfreed m}" using a by (simp add: mm_in_use_def mm_freed_def)
  moreover have "inj_on (freed m) {..<nfreed m}" using inv by (simp add: mm_inv_def)
  ultimately have "inj_on ((freed m)(nfreed m := a)) {..<Suc (nfreed m)}"
    by (auto simp: lessThan_Suc inj_on_def image_iff)
  then show "mm_inv ?m"
    using inv a freed given by (auto simp: mm_inv_def Tree_mm_free_def mm_in_use_def)
  show "mm_in_use ?m = mm_in_use m - {a}" "mm_pool ?m = mm_pool m"
    using freed given by (auto simp: mm_in_use_def)
qed

lemma mm_pool_even: "mm_inv m \<Longrightarrow> a \<in> mm_pool m \<Longrightarrow> even_addr a \<and> a \<noteq> 0"
proof -
  assume inv: "mm_inv m" and "a \<in> mm_pool m"
  then obtain i where "a = mm_node m i" "i < STATIC_SIZE" by (auto simp: mm_pool_def)
  then have a: "unat a = unat (static_mem m) + 20 * i" by (simp add: unat_mm_node [OF inv])
  moreover have "even (unat (static_mem m))" "0 < unat (static_mem m)"
    using inv by (simp_all add: mm_inv_def even_addr_unat unat_gt_0)
  ultimately show ?thesis by (auto simp: even_addr_unat)
qed

interpretation tree_mm: node_store Tree_mm_alloc Tree_mm_free mm_inv mm_in_use mm_pool
proof
  show "Tree_mm_alloc m \<noteq> None" for m by (auto simp: Tree_mm_alloc_def ret_def halt_def)
qed (use Tree_mm_alloc_fresh Tree_mm_free_in_use mm_pool_even in auto)

lemma weak_order_size: "weak_order lt_size"
  by unfold_locales (auto simp: lt_size_def)

lemma weak_order_start: "weak_order lt_start"
  by unfold_locales (auto simp: lt_start_def)

lemma le_start_iff: "le_start x y \<longleftrightarrow> \<not> lt_start y x"
  by (auto simp: le_start_def lt_start_def)

interpretation by_size: rbt_client lt_size Tree_mm_alloc Tree_mm_free mm_inv mm_in_use mm_pool
  by (intro rbt_client.intro weak_order_size tree_mm.node_store_axioms)

interpretation by_start: rbt_client lt_start Tree_mm_alloc Tree_mm_free mm_inv mm_in_use mm_pool
  by (intro rbt_client.intro weak_order_start tree_mm.node_store_axioms)

section \<open>Exhaustion\<close>

text \<open>One node of the static array is never given out: the bound test uses \<^verbatim>\<open>>=\<close>.\<close>

definition max_nodes :: nat where
  "max_nodes = STATIC_SIZE - 1"

definition nodes_full :: panic where
  "nodes_full = Panic ''run out of kernel heap''"

lemma card_mm_in_use:
  assumes "mm_inv m"
  shows "card (mm_in_use m) = nstatic_mem m div TREE_NODE_SIZE - nfreed m"
proof -
  have "card (mm_given m) = nstatic_mem m div TREE_NODE_SIZE"
    using inj_on_subset [OF mm_node_inj [OF assms]] mm_given_count [OF assms]
    by (simp add: mm_given_def card_image)
  moreover have "card (mm_freed m) = nfreed m"
    using assms by (simp add: mm_inv_def mm_freed_def card_image)
  moreover have "mm_freed m \<subseteq> mm_given m" using assms by (simp add: mm_inv_def)
  ultimately show ?thesis by (simp add: mm_in_use_def card_Diff_subset mm_freed_def)
qed

lemma Tree_mm_alloc_cases:
  assumes "mm_inv m"
  shows "if card (mm_in_use m) < max_nodes then \<exists>a m'. Tree_mm_alloc m = ret (a, m')
    else Tree_mm_alloc m = halt nodes_full"
proof -
  have "nstatic_mem m = 20 * (nstatic_mem m div TREE_NODE_SIZE)"
    using assms by (simp add: mm_inv_def TREE_NODE_SIZE_def)
  then show ?thesis
    using mm_given_count [OF assms] unfolding card_mm_in_use [OF assms]
    by (auto simp: Tree_mm_alloc_def max_nodes_def nodes_full_def mm_sizes)
qed

section \<open>The two trees as sets of blocks\<close>

definition trees :: "'a kheap_state_scheme \<Rightarrow> Block_t set \<Rightarrow> Block_t set \<Rightarrow> bool" where
  "trees s F G \<longleftrightarrow> (\<exists>t u. by_size.owned (tree_size s) (mm s) t \<and> by_start.owned (tree_start s) (mm s) u \<and>
     mm_in_use (mm s) = set (addrs t) \<union> set (addrs u) \<and> set (addrs t) \<inter> set (addrs u) = {} \<and>
     mset (keys t) = mset_set F \<and> mset (keys u) = mset_set G \<and> finite F \<and> finite G)"

lemma treesI:
  assumes "by_size.owned (tree_size s) (mm s) t" "by_start.owned (tree_start s) (mm s) u"
    "mm_in_use (mm s) = set (addrs t) \<union> set (addrs u)" "set (addrs t) \<inter> set (addrs u) = {}"
    "mset (keys t) = mset_set F" "mset (keys u) = mset_set G" "finite F" "finite G"
  shows "trees s F G"
  using assms unfolding trees_def by blast

lemma treesE:
  assumes "trees s F G"
  obtains t u where "by_size.owned (tree_size s) (mm s) t" "by_start.owned (tree_start s) (mm s) u"
    "mm_in_use (mm s) = set (addrs t) \<union> set (addrs u)" "set (addrs t) \<inter> set (addrs u) = {}"
    "mset (keys t) = mset_set F" "mset (keys u) = mset_set G" "finite F" "finite G"
  using assms unfolding trees_def by blast

text \<open>Only the trees and their node allocator may differ.\<close>

definition frame :: "'a kheap_state_scheme \<Rightarrow> 'a kheap_state_scheme \<Rightarrow> bool" where
  "frame s s' \<longleftrightarrow> s' = s\<lparr>mm := mm s', tree_size := tree_size s', tree_start := tree_start s'\<rparr>"

lemma frame_refl [simp]: "frame s s"
  by (simp add: frame_def)

lemma frame_trans: "frame s s' \<Longrightarrow> frame s' s'' \<Longrightarrow> frame s s''"
  by (cases s, cases s', cases s'') (simp add: frame_def)

lemma frame_intros [simp]:
  "frame s (s\<lparr>tree_size := t, mm := m\<rparr>)" "frame s (s\<lparr>tree_start := t, mm := m\<rparr>)"
  by (simp_all add: frame_def)

lemma card_addrs:
  assumes "distinct (addrs t)" "mset (keys t) = mset_set F"
  shows "card (set (addrs t)) = card F"
proof -
  have "size (mset (keys t)) = card F" by (simp add: assms(2))
  then show ?thesis using distinct_card [OF assms(1)] by (simp add: addrs_def keys_def)
qed

lemma trees_nodes:
  assumes "trees s F G"
  shows "card (mm_in_use (mm s)) = card F + card G" "mm_inv (mm s)"
proof -
  from assms obtain t u where tu: "by_size.owned (tree_size s) (mm s) t" "by_start.owned (tree_start s) (mm s) u"
    "mm_in_use (mm s) = set (addrs t) \<union> set (addrs u)" "set (addrs t) \<inter> set (addrs u) = {}"
    "mset (keys t) = mset_set F" "mset (keys u) = mset_set G" by (rule treesE)
  then have "distinct (addrs t)" "distinct (addrs u)"
    by (auto simp: by_size.owned_def by_start.owned_def rbt_ok_def rep_def)
  with tu show "card (mm_in_use (mm s)) = card F + card G"
    by (simp add: card_Un_disjoint card_addrs)
  show "mm_inv (mm s)" using tu by (simp add: by_size.owned_def)
qed

lemma owned_other:
  assumes "by_size.owned s m t" "mm_inv m'" "mm_pool m' = mm_pool m" "set (addrs t) \<subseteq> mm_in_use m'"
  shows "by_size.owned s m' t"
  using assms by (simp add: by_size.owned_def)

lemma owned_other_start:
  assumes "by_start.owned s m t" "mm_inv m'" "mm_pool m' = mm_pool m" "set (addrs t) \<subseteq> mm_in_use m'"
  shows "by_start.owned s m' t"
  using assms by (simp add: by_start.owned_def)

lemma size_insert_trees:
  assumes tr: "trees s F G" and b: "b \<notin> F"
  shows "if card F + card G < max_nodes
    then \<exists>s'. size_insert b s = ret s' \<and> frame s s' \<and> trees s' (insert b F) G
    else size_insert b s = halt nodes_full"
proof -
  from tr obtain t u where tu: "by_size.owned (tree_size s) (mm s) t" "by_start.owned (tree_start s) (mm s) u"
    "mm_in_use (mm s) = set (addrs t) \<union> set (addrs u)" "set (addrs t) \<inter> set (addrs u) = {}"
    "mset (keys t) = mset_set F" "mset (keys u) = mset_set G" "finite F" "finite G" by (rule treesE)
  note alloc = Tree_mm_alloc_cases [OF trees_nodes(2) [OF tr], unfolded trees_nodes(1) [OF tr]]
  show ?thesis
  proof (cases "card F + card G < max_nodes")
    case True
    with alloc obtain a m' where am: "Tree_mm_alloc (mm s) = ret (a, m')" by auto
    from by_size.insert_owned [OF tu(1) am, of b] obtain s' t' where
      ins: "rbt_insert Tree_mm_alloc lt_size b (tree_size s) (mm s) = ret (s', m')" "by_size.owned s' m' t'"
        "mset (keys t') = add_mset b (mset (keys t))" "set (addrs t') = insert a (set (addrs t))" by blast
    from Tree_mm_alloc_fresh [OF trees_nodes(2) [OF tr] am]
    have m': "a \<notin> mm_in_use (mm s)" "mm_in_use m' = insert a (mm_in_use (mm s))" "mm_inv m'" "mm_pool m' = mm_pool (mm s)"
      by auto
    have "by_start.owned (tree_start s) m' u" by (rule owned_other_start [OF tu(2) m'(3,4)]) (auto simp: m'(2) tu(3))
    then have "trees (s\<lparr>tree_size := s', mm := m'\<rparr>) (insert b F) G"
      using ins tu m' b by (intro treesI [of _ t' u]) auto
    then show ?thesis using True ins(1) by (auto simp: size_insert_def)
  next
    case False
    with alloc by_size.insert_halts [OF tu(1)] show ?thesis by (simp add: size_insert_def)
  qed
qed

lemma start_insert_trees:
  assumes tr: "trees s F G" and b: "b \<notin> G"
  shows "if card F + card G < max_nodes
    then \<exists>s'. start_insert b s = ret s' \<and> frame s s' \<and> trees s' F (insert b G)
    else start_insert b s = halt nodes_full"
proof -
  from tr obtain t u where tu: "by_size.owned (tree_size s) (mm s) t" "by_start.owned (tree_start s) (mm s) u"
    "mm_in_use (mm s) = set (addrs t) \<union> set (addrs u)" "set (addrs t) \<inter> set (addrs u) = {}"
    "mset (keys t) = mset_set F" "mset (keys u) = mset_set G" "finite F" "finite G" by (rule treesE)
  note alloc = Tree_mm_alloc_cases [OF trees_nodes(2) [OF tr], unfolded trees_nodes(1) [OF tr]]
  show ?thesis
  proof (cases "card F + card G < max_nodes")
    case True
    with alloc obtain a m' where am: "Tree_mm_alloc (mm s) = ret (a, m')" by auto
    from by_start.insert_owned [OF tu(2) am, of b] obtain s' u' where
      ins: "rbt_insert Tree_mm_alloc lt_start b (tree_start s) (mm s) = ret (s', m')" "by_start.owned s' m' u'"
        "mset (keys u') = add_mset b (mset (keys u))" "set (addrs u') = insert a (set (addrs u))" by blast
    from Tree_mm_alloc_fresh [OF trees_nodes(2) [OF tr] am]
    have m': "a \<notin> mm_in_use (mm s)" "mm_in_use m' = insert a (mm_in_use (mm s))" "mm_inv m'" "mm_pool m' = mm_pool (mm s)"
      by auto
    have "by_size.owned (tree_size s) m' t" by (rule owned_other [OF tu(1) m'(3,4)]) (auto simp: m'(2) tu(3))
    then have "trees (s\<lparr>tree_start := s', mm := m'\<rparr>) F (insert b G)"
      using ins tu m' b by (intro treesI [of _ t u']) auto
    then show ?thesis using True ins(1) by (auto simp: start_insert_def)
  next
    case False
    with alloc by_start.insert_halts [OF tu(2)] show ?thesis by (simp add: start_insert_def)
  qed
qed

lemma size_erase_addr:
  assumes t: "by_size.owned (tree_size s) (mm s) t" "by_start.owned (tree_start s) (mm s) u"
    "mm_in_use (mm s) = set (addrs t) \<union> set (addrs u)" "set (addrs t) \<inter> set (addrs u) = {}"
    "mset (keys t) = mset_set F" "mset (keys u) = mset_set G" "finite F" "finite G"
    and p: "p \<in> set (addrs t)" "key (node (tree_size s) p) \<in> F"
  shows "\<exists>s'. size_erase p s = ret s' \<and> frame s s' \<and> trees s' (F - {key (node (tree_size s) p)}) G"
proof -
  from by_size.erase_owned [OF t(1) p(1)] obtain s' b t' where
    er: "rbt_erase Tree_mm_free p (tree_size s) (mm s) = ret (s', Tree_mm_free b (mm s))"
      "by_size.owned s' (Tree_mm_free b (mm s)) t'" "mset (keys t') = mset (keys t) - {#key (node (tree_size s) p)#}"
      "b \<in> set (addrs t)" "set (addrs t') = set (addrs t) - {b}" by blast
  have inv: "mm_inv (mm s)" "b \<in> mm_in_use (mm s)" using er(4) t(1,3) by (auto simp: by_size.owned_def)
  note free = Tree_mm_free_in_use [OF inv]
  have "by_start.owned (tree_start s) (Tree_mm_free b (mm s)) u"
    by (rule owned_other_start [OF t(2) free(1,3)]) (use t(3,4) er(4) free(2) in auto)
  then have "trees (s\<lparr>tree_size := s', mm := Tree_mm_free b (mm s)\<rparr>) (F - {key (node (tree_size s) p)}) G"
    using er t p free by (intro treesI [of _ t' u]) (auto simp: mset_set_Diff)
  then show ?thesis using er(1) by (auto simp: size_erase_def)
qed

lemma start_erase_addr:
  assumes t: "by_size.owned (tree_size s) (mm s) t" "by_start.owned (tree_start s) (mm s) u"
    "mm_in_use (mm s) = set (addrs t) \<union> set (addrs u)" "set (addrs t) \<inter> set (addrs u) = {}"
    "mset (keys t) = mset_set F" "mset (keys u) = mset_set G" "finite F" "finite G"
    and p: "p \<in> set (addrs u)" "key (node (tree_start s) p) \<in> G"
  shows "\<exists>s'. start_erase p s = ret s' \<and> frame s s' \<and> trees s' F (G - {key (node (tree_start s) p)})"
proof -
  from by_start.erase_owned [OF t(2) p(1)] obtain s' b u' where
    er: "rbt_erase Tree_mm_free p (tree_start s) (mm s) = ret (s', Tree_mm_free b (mm s))"
      "by_start.owned s' (Tree_mm_free b (mm s)) u'" "mset (keys u') = mset (keys u) - {#key (node (tree_start s) p)#}"
      "b \<in> set (addrs u)" "set (addrs u') = set (addrs u) - {b}" by blast
  have inv: "mm_inv (mm s)" "b \<in> mm_in_use (mm s)" using er(4) t(1,3) by (auto simp: by_size.owned_def)
  note free = Tree_mm_free_in_use [OF inv]
  have "by_size.owned (tree_size s) (Tree_mm_free b (mm s)) t"
    by (rule owned_other [OF t(1) free(1,3)]) (use t(3,4) er(4) free(2) in auto)
  then have "trees (s\<lparr>tree_start := s', mm := Tree_mm_free b (mm s)\<rparr>) F (G - {key (node (tree_start s) p)})"
    using er t p free by (intro treesI [of _ t u']) (auto simp: mset_set_Diff)
  then show ?thesis using er(1) by (auto simp: start_erase_def)
qed

lemma keys_set: "mset (keys t) = mset_set F \<Longrightarrow> finite F \<Longrightarrow> set (keys t) = F"
  by (metis finite_set_mset_mset_set set_mset_mset)

text \<open>A node found in a tree holds a block of its set, and erasing it removes that block.\<close>

lemma size_find_ge:
  assumes "trees s F G"
  shows "\<exists>p. find_ge lt_size v (tree_size s) = ret p \<and>
    (p = 0 \<and> (\<forall>k \<in> F. lt_size k v) \<or>
     p \<noteq> 0 \<and> key (node (tree_size s) p) \<in> F \<and> \<not> lt_size (key (node (tree_size s) p)) v \<and>
       (\<forall>k \<in> F. \<not> lt_size k v \<longrightarrow> \<not> lt_size k (key (node (tree_size s) p))) \<and>
       (\<exists>s'. size_erase p s = ret s' \<and> frame s s' \<and> trees s' (F - {key (node (tree_size s) p)}) G))"
proof -
  from assms obtain t u where tu: "by_size.owned (tree_size s) (mm s) t" "by_start.owned (tree_start s) (mm s) u"
    "mm_in_use (mm s) = set (addrs t) \<union> set (addrs u)" "set (addrs t) \<inter> set (addrs u) = {}"
    "mset (keys t) = mset_set F" "mset (keys u) = mset_set G" "finite F" "finite G" by (rule treesE)
  note F = keys_set [OF tu(5,7)]
  from by_size.find_ge_owned [OF tu(1), of v] show ?thesis
    using size_erase_addr [OF tu] unfolding F by blast
qed

lemma start_find_ge:
  assumes "trees s F G"
  shows "\<exists>p. find_ge lt_start v (tree_start s) = ret p \<and>
    (p = 0 \<and> (\<forall>k \<in> G. lt_start k v) \<or>
     p \<noteq> 0 \<and> key (node (tree_start s) p) \<in> G \<and> \<not> lt_start (key (node (tree_start s) p)) v \<and>
       (\<forall>k \<in> G. \<not> lt_start k v \<longrightarrow> \<not> lt_start k (key (node (tree_start s) p))) \<and>
       (\<exists>s'. start_erase p s = ret s' \<and> frame s s' \<and> trees s' F (G - {key (node (tree_start s) p)})))"
proof -
  from assms obtain t u where tu: "by_size.owned (tree_size s) (mm s) t" "by_start.owned (tree_start s) (mm s) u"
    "mm_in_use (mm s) = set (addrs t) \<union> set (addrs u)" "set (addrs t) \<inter> set (addrs u) = {}"
    "mset (keys t) = mset_set F" "mset (keys u) = mset_set G" "finite F" "finite G" by (rule treesE)
  note G = keys_set [OF tu(6,8)]
  from by_start.find_ge_owned [OF tu(2), of v] show ?thesis
    using start_erase_addr [OF tu] unfolding G by blast
qed

lemma start_find_le:
  assumes "trees s F G"
  shows "\<exists>p. find_le le_start v (tree_start s) = ret p \<and>
    (p = 0 \<and> (\<forall>k \<in> G. lt_start v k) \<or>
     p \<noteq> 0 \<and> key (node (tree_start s) p) \<in> G \<and> \<not> lt_start v (key (node (tree_start s) p)) \<and>
       (\<forall>k \<in> G. \<not> lt_start v k \<longrightarrow> \<not> lt_start (key (node (tree_start s) p)) k) \<and>
       (\<exists>s'. start_erase p s = ret s' \<and> frame s s' \<and> trees s' F (G - {key (node (tree_start s) p)})))"
proof -
  from assms obtain t u where tu: "by_size.owned (tree_size s) (mm s) t" "by_start.owned (tree_start s) (mm s) u"
    "mm_in_use (mm s) = set (addrs t) \<union> set (addrs u)" "set (addrs t) \<inter> set (addrs u) = {}"
    "mset (keys t) = mset_set F" "mset (keys u) = mset_set G" "finite F" "finite G" by (rule treesE)
  note G = keys_set [OF tu(6,8)]
  from by_start.find_le_owned [OF tu(2) le_start_iff, of v] show ?thesis
    using start_erase_addr [OF tu] unfolding G by blast
qed

text \<open>Looking up a block that is in the tree finds that block.\<close>

lemma lt_size_total: "\<not> lt_size a b \<Longrightarrow> \<not> lt_size b a \<Longrightarrow> a = b"
  by (auto simp: lt_size_def intro: Block_t.equality)

lemma lt_start_total: "\<not> lt_start a b \<Longrightarrow> \<not> lt_start b a \<Longrightarrow> a = b"
  by (auto simp: lt_start_def intro: Block_t.equality)

lemma size_erase_found:
  assumes "trees s F G" "b \<in> F"
  shows "\<exists>p s'. find_ge lt_size b (tree_size s) = ret p \<and> size_erase p s = ret s' \<and> frame s s' \<and> trees s' (F - {b}) G"
proof -
  have b: "\<not> lt_size b b" by (simp add: lt_size_def)
  from size_find_ge [OF assms(1), of b] assms(2) b lt_size_total show ?thesis by blast
qed

lemma start_erase_found:
  assumes "trees s F G" "b \<in> G"
  shows "\<exists>p s'. find_ge lt_start b (tree_start s) = ret p \<and> start_erase p s = ret s' \<and> frame s s' \<and> trees s' F (G - {b})"
proof -
  have b: "\<not> lt_start b b" by (simp add: lt_start_def)
  from start_find_ge [OF assms(1), of b] assms(2) b lt_start_total show ?thesis by blast
qed

lemma insert_both_trees:
  assumes tr: "trees s F F" and b: "b \<notin> F"
  shows "if 2 * card F + 1 < max_nodes
    then \<exists>s'. insert_both b s = ret s' \<and> frame s s' \<and> trees s' (insert b F) (insert b F)
    else insert_both b s = halt nodes_full"
proof (cases "2 * card F < max_nodes")
  case True
  then obtain s1 where s1: "size_insert b s = ret s1" "frame s s1" "trees s1 (insert b F) F"
    using size_insert_trees [OF tr b] by auto
  have "finite F" using tr by (auto simp: trees_def)
  then have "card (insert b F) + card F = 2 * card F + 1" using b by simp
  with start_insert_trees [OF s1(3) b] s1 frame_trans show ?thesis
    by (auto simp: insert_both_def split: if_splits)
next
  case False
  then show ?thesis using size_insert_trees [OF tr b] by (simp add: insert_both_def)
qed

end
