(* ===== verification/Kheap_Alloc.thy ===== *)
theory Kheap_Alloc
  imports Kheap_Trees
begin

text \<open>
  Allocation: what the search loop of \<^verbatim>\<open>kmalloc\<close> finds, and what cutting the found block
  does to the set of free blocks.
\<close>

section \<open>Free blocks\<close>

definition lo :: "Block_t \<Rightarrow> nat" where
  "lo b = unat (start b)"

definition hi :: "Block_t \<Rightarrow> nat" where
  "hi b = unat (start b) + unat (bsize b)"

definition space :: "Block_t \<Rightarrow> nat set" where
  "space b = {lo b..<hi b}"

definition in_heap :: "Block_t \<Rightarrow> bool" where
  "in_heap b \<longleftrightarrow> unat KERNEL_HEAP_BEGIN \<le> lo b \<and> lo b + 8 \<le> hi b \<and> hi b \<le> unat KERNEL_HEAP_END"

text \<open>Free blocks neither overlap nor touch: neighbours are always merged.\<close>

definition apart :: "Block_t \<Rightarrow> Block_t \<Rightarrow> bool" where
  "apart b c \<longleftrightarrow> hi b < lo c \<or> hi c < lo b"

definition heap_free :: "Block_t set \<Rightarrow> bool" where
  "heap_free F \<longleftrightarrow> (\<forall>b \<in> F. in_heap b) \<and> (\<forall>b \<in> F. \<forall>c \<in> F. b \<noteq> c \<longrightarrow> apart b c)"

definition free_space :: "Block_t set \<Rightarrow> nat set" where
  "free_space F = (\<Union>b \<in> F. space b)"

lemma block_simps [simp]:
  "lo \<lparr>start = a, bsize = z\<rparr> = unat a" "hi \<lparr>start = a, bsize = z\<rparr> = unat a + unat z"
  "lo (b\<lparr>bsize := z\<rparr>) = lo b" "hi (b\<lparr>bsize := z\<rparr>) = lo b + unat z"
  by (simp_all add: lo_def hi_def)

lemma heap_bounds: "unat KERNEL_HEAP_BEGIN = 0xEFC00000" "unat KERNEL_HEAP_END = 0xFFC00000"
  by (simp_all add: KERNEL_HEAP_BEGIN_val KERNEL_HEAP_END_val)

lemmas in_heap_iff = in_heap_def [unfolded heap_bounds]

lemma block_end: "in_heap b \<Longrightarrow> unat (start b + bsize b) = hi b"
  by (simp add: in_heap_iff hi_def unat_add)

lemma heap_free_subset: "heap_free F \<Longrightarrow> G \<subseteq> F \<Longrightarrow> heap_free G"
  by (auto simp: heap_free_def)

lemma heap_free_insert:
  "heap_free (insert b F) \<longleftrightarrow> in_heap b \<and> heap_free F \<and> (\<forall>c \<in> F. c \<noteq> b \<longrightarrow> apart b c)"
  by (auto simp: heap_free_def apart_def)

section \<open>The search\<close>

text \<open>The address a block offers for an alignment, and whether the request fits there.\<close>

definition offered :: "nat \<Rightarrow> Block_t \<Rightarrow> u32" where
  "offered p b = get_aligned (start b + sizeof_Block_t) p"

definition fits :: "u32 \<Rightarrow> nat \<Rightarrow> Block_t \<Rightarrow> bool" where
  "fits sz p b \<longleftrightarrow> unat (offered p b) + unat sz \<le> hi b"

lemma offered_bounds:
  assumes "in_heap b" "p \<le> 22"
  shows "lo b + 8 \<le> unat (offered p b)" "unat (offered p b) < lo b + 8 + 2 ^ p"
    "2 ^ p dvd unat (offered p b)"
proof -
  have a: "unat (start b + sizeof_Block_t) = lo b + 8"
    using assms(1) by (simp add: in_heap_iff lo_def sizeof_Block_t_def unat_add)
  have "(2::nat) ^ p \<le> 2 ^ 22" using assms(2) by (rule power_increasing) simp
  then have "unat (start b + sizeof_Block_t) + 2 ^ p \<le> 2 ^ 32"
    unfolding a using assms(1) by (simp add: in_heap_iff)
  from get_aligned_bounds [OF this] show "lo b + 8 \<le> unat (offered p b)"
    "unat (offered p b) < lo b + 8 + 2 ^ p" "2 ^ p dvd unat (offered p b)"
    by (simp_all add: offered_def a)
qed

lemma fits_test:
  assumes "in_heap b" "p \<le> 22" "unat sz + 8 \<le> unat (bsize b)"
  shows "offered p b + sz > start b + bsize b \<longleftrightarrow> \<not> fits sz p b"
proof -
  have "(2::nat) ^ p \<le> 2 ^ 22" using assms(2) by (rule power_increasing) simp
  then have "unat (offered p b) + unat sz < 2 ^ 32"
    using offered_bounds [OF assms(1,2)] assms(1,3) by (simp add: in_heap_iff lo_def hi_def)
  then have "unat (offered p b + sz) = unat (offered p b) + unat sz" by (rule unat_add)
  then show ?thesis by (simp add: word_less_nat_alt block_end [OF assms(1)] fits_def not_le)
qed

lemma kmalloc_search_step:
  assumes "find_ge lt_size req tree = ret ptr"
  shows "kmalloc_search tree sz p req =
    (if ptr = 0 then halt (Panic ''kernel runs out of memory'')
     else let got = key (node tree ptr)
          in if offered p got + sz > start got + bsize got
             then kmalloc_search tree sz p (got\<lparr>start := start got + 1\<rparr>)
             else ret (ptr, got, offered p got))"
  using assms by (subst kmalloc_search.simps) (simp add: Let_def offered_def)

lemma lt_size_trans: "lt_size a b \<Longrightarrow> lt_size b c \<Longrightarrow> lt_size a c"
  by (auto simp: lt_size_def)

lemma after_got:
  assumes "in_heap got" "lt_size got k"
  shows "\<not> lt_size k (got\<lparr>start := start got + 1\<rparr>)"
proof -
  have "unat (start got + 1) = unat (start got) + 1"
    using assms(1) unat_add [of "start got" 1] by (simp add: in_heap_iff hi_def)
  then show ?thesis using assms(2) by (auto simp: lt_size_def word_less_nat_alt word_unat_eq_iff)
qed

lemma before_got:
  assumes "in_heap got" "\<not> lt_size k (got\<lparr>start := start got + 1\<rparr>)"
  shows "lt_size got k"
proof -
  have "unat (start got + 1) = unat (start got) + 1"
    using assms(1) unat_add [of "start got" 1] by (simp add: in_heap_iff hi_def)
  then show ?thesis using assms(2) by (auto simp: lt_size_def word_less_nat_alt word_unat_eq_iff)
qed

lemma kmalloc_search_correct:
  assumes tr: "trees s F F" and F: "heap_free F" and p: "p \<le> 22" and req: "unat sz + 8 \<le> unat (bsize req)"
  shows "kmalloc_search (tree_size s) sz p req = halt (Panic ''kernel runs out of memory'') \<and>
      (\<forall>b \<in> F. \<not> lt_size b req \<longrightarrow> \<not> fits sz p b) \<or>
    (\<exists>ptr got s'. kmalloc_search (tree_size s) sz p req = ret (ptr, got, offered p got) \<and> got \<in> F \<and>
      fits sz p got \<and> (\<forall>b \<in> F. \<not> lt_size b req \<longrightarrow> fits sz p b \<longrightarrow> \<not> lt_size b got) \<and>
      size_erase ptr s = ret s' \<and> frame s s' \<and> trees s' (F - {got}) F)"
  using req
proof (induction "card {b \<in> F. \<not> lt_size b req}" arbitrary: req rule: less_induct)
  case less
  have fin: "finite F" using tr by (auto simp: trees_def)
  from size_find_ge [OF tr, of req] obtain ptr where find: "find_ge lt_size req (tree_size s) = ret ptr"
    and ptr: "ptr = 0 \<and> (\<forall>k \<in> F. lt_size k req) \<or>
      ptr \<noteq> 0 \<and> key (node (tree_size s) ptr) \<in> F \<and> \<not> lt_size (key (node (tree_size s) ptr)) req \<and>
       (\<forall>k \<in> F. \<not> lt_size k req \<longrightarrow> \<not> lt_size k (key (node (tree_size s) ptr))) \<and>
       (\<exists>s'. size_erase ptr s = ret s' \<and> frame s s' \<and> trees s' (F - {key (node (tree_size s) ptr)}) F)" by blast
  show ?case
  proof (cases "ptr = 0")
    case True
    then show ?thesis using ptr kmalloc_search_step [OF find, of sz p] by auto
  next
    case False
    define got where "got = key (node (tree_size s) ptr)"
    from False ptr have got: "got \<in> F" "\<not> lt_size got req" "\<forall>k \<in> F. \<not> lt_size k req \<longrightarrow> \<not> lt_size k got"
      and er: "\<exists>s'. size_erase ptr s = ret s' \<and> frame s s' \<and> trees s' (F - {got}) F"
      by (auto simp: got_def)
    have heap: "in_heap got" using F got(1) by (simp add: heap_free_def)
    have big: "unat sz + 8 \<le> unat (bsize got)"
      using less.prems got(2) by (auto simp: lt_size_def word_less_nat_alt)
    note step = kmalloc_search_step [OF find, of sz p, folded got_def, unfolded Let_def fits_test [OF heap p big]]
    show ?thesis
    proof (cases "fits sz p got")
      case True
      then show ?thesis using step False er got by simp
    next
      case nofit: False
      let ?req = "got\<lparr>start := start got + 1\<rparr>"
      have sub: "{b \<in> F. \<not> lt_size b ?req} \<subset> {b \<in> F. \<not> lt_size b req}"
      proof
        show "{b \<in> F. \<not> lt_size b ?req} \<subseteq> {b \<in> F. \<not> lt_size b req}"
          using before_got [OF heap] got(2) lt_size_trans by blast
        have "got \<notin> {b \<in> F. \<not> lt_size b ?req}" using before_got [OF heap, of got] by (auto simp: lt_size_def)
        then show "{b \<in> F. \<not> lt_size b ?req} \<noteq> {b \<in> F. \<not> lt_size b req}" using got by blast
      qed
      have same: "\<not> lt_size b ?req" if "b \<in> F" "\<not> lt_size b req" "b \<noteq> got" for b
        using that got(3) after_got [OF heap, of b] lt_size_total by blast
      have "card {b \<in> F. \<not> lt_size b ?req} < card {b \<in> F. \<not> lt_size b req}"
        using sub fin by (intro psubset_card_mono) auto
      note IH = less.hyps [OF this, simplified, OF big]
      have "kmalloc_search (tree_size s) sz p req = kmalloc_search (tree_size s) sz p ?req"
        using step False nofit by simp
      note IH' = IH [folded this]
      have "(\<forall>b \<in> F. \<not> lt_size b ?req \<longrightarrow> \<not> fits sz p b) \<Longrightarrow>
          (\<forall>b \<in> F. \<not> lt_size b req \<longrightarrow> \<not> fits sz p b)"
        "\<And>c. (\<forall>b \<in> F. \<not> lt_size b ?req \<longrightarrow> fits sz p b \<longrightarrow> \<not> lt_size b c) \<Longrightarrow>
          (\<forall>b \<in> F. \<not> lt_size b req \<longrightarrow> fits sz p b \<longrightarrow> \<not> lt_size b c)"
        using same nofit by metis+
      note weaken = this
      from IH' show ?thesis
      proof (elim disjE exE conjE)
        assume "\<forall>b \<in> F. \<not> lt_size b ?req \<longrightarrow> \<not> fits sz p b"
          "kmalloc_search (tree_size s) sz p req = halt (Panic ''kernel runs out of memory'')"
        then show ?thesis using weaken(1) by simp
      next
        fix ptr' c s'
        assume "\<forall>b \<in> F. \<not> lt_size b ?req \<longrightarrow> fits sz p b \<longrightarrow> \<not> lt_size b c"
          and rest: "kmalloc_search (tree_size s) sz p req = ret (ptr', c, offered p c)" "c \<in> F" "fits sz p c"
          "size_erase ptr' s = ret s'" "frame s s'" "trees s' (F - {c}) F"
        note best = weaken(2) [OF this(1)]
        show ?thesis
          by (rule disjI2, rule exI [of _ ptr'], rule exI [of _ c], rule exI [of _ s']) (intro conjI rest best)
      qed
    qed
  qed
qed

section \<open>Cutting the found block\<close>

text \<open>
  Taking \<open>blk\<close> out of \<open>got\<close>: the free blocks are then \<open>F'\<close>, and nothing is lost or
  covered twice.
\<close>

definition carved :: "Block_t set \<Rightarrow> Block_t \<Rightarrow> Block_t set \<Rightarrow> Block_t \<Rightarrow> bool" where
  "carved F got F' blk \<longleftrightarrow> heap_free F' \<and> in_heap blk \<and> lo got \<le> lo blk \<and> hi blk \<le> hi got \<and>
     free_space F' \<union> space blk = free_space F \<union> space got \<and> (\<forall>c \<in> F'. hi c \<le> lo blk \<or> hi blk \<le> lo c)"

lemma carved_disjoint: "carved F got F' blk \<Longrightarrow> free_space F' \<inter> space blk = {}"
  by (auto simp: carved_def free_space_def space_def)

lemma free_space_insert: "free_space (insert b F) = free_space F \<union> space b"
  by (auto simp: free_space_def)

lemma block_values:
  assumes "lo b + 8 \<le> unat st" "unat st + unat sz \<le> hi b" "hi b \<le> 0xFFC00000"
  shows "unat (st + sz) = unat st + unat sz" "unat (st + sz + sizeof_Block_t * 2) = unat st + unat sz + 16"
    "unat (start b + bsize b) = hi b" "unat (st - start b) = unat st - lo b"
    "unat (st - start b - sizeof_Block_t) = unat st - lo b - 8" "unat (st - sizeof_Block_t) = unat st - 8"
    "unat (start b + bsize b - (st + sz)) = hi b - (unat st + unat sz)"
proof -
  show 1: "unat (st + sz) = unat st + unat sz" using assms by (intro unat_add) simp
  show "unat (st + sz + sizeof_Block_t * 2) = unat st + unat sz + 16"
    using 1 assms by (simp add: unat_add sizeof_Block_t_def)
  show 2: "unat (start b + bsize b) = hi b" using assms by (simp add: unat_add hi_def)
  show 3: "unat (st - start b) = unat st - lo b" using assms by (simp add: unat_diff lo_def)
  show "unat (st - start b - sizeof_Block_t) = unat st - lo b - 8"
    using assms 3 by (simp add: unat_diff sizeof_Block_t_def)
  show "unat (st - sizeof_Block_t) = unat st - 8" using assms by (simp add: unat_diff sizeof_Block_t_def)
  show "unat (start b + bsize b - (st + sz)) = hi b - (unat st + unat sz)"
    using assms 1 2 by (simp add: unat_diff)
qed

lemma split_tail_correct:
  assumes tr: "trees s F F" and F: "heap_free (insert got F)" "got \<notin> F"
    and st: "lo got + 8 \<le> unat st" "unat st + unat sz \<le> hi got"
  shows "split_tail st sz got s = halt nodes_full \<and> max_nodes \<le> 2 * card F + 1 \<or>
    (\<exists>blk s' F'. split_tail st sz got s = ret (blk, s') \<and> frame s s' \<and> trees s' F' F' \<and>
      carved F got F' blk \<and> lo blk = lo got \<and> unat st + unat sz \<le> hi blk \<and> hi blk \<le> unat st + unat sz + 16 \<and>
      card F' \<le> card F + 1 \<and> (\<forall>c \<in> F'. hi c < lo blk \<or> hi blk \<le> lo c))"
proof -
  have heap: "in_heap got" using F(1) by (simp add: heap_free_def)
  then have top: "hi got \<le> 0xFFC00000" by (simp add: in_heap_iff)
  note vals = block_values [OF st top]
  have sep: "\<forall>c \<in> F. hi c < lo got \<or> hi got < lo c" using F by (auto simp: heap_free_insert apart_def)
  have fin: "finite F" using tr by (auto simp: trees_def)
  show ?thesis
  proof (cases "st + sz + sizeof_Block_t * 2 < start got + bsize got")
    case False
    then have "split_tail st sz got s = ret (got, s)" "hi got \<le> unat st + unat sz + 16"
      by (auto simp: split_tail_def word_less_nat_alt vals)
    moreover have "carved F got F got" using F heap sep by (auto simp: carved_def heap_free_insert)
    ultimately show ?thesis using tr sep st by (intro disjI2 exI [of _ got] exI [of _ s] exI [of _ F]) auto
  next
    case True
    define nblk where "nblk = \<lparr>start = st + sz, bsize = start got + bsize got - (st + sz)\<rparr>"
    define blk where "blk = got\<lparr>bsize := bsize got - bsize nblk\<rparr>"
    from True have big: "unat st + unat sz + 16 < hi got" by (simp add: word_less_nat_alt vals)
    have nblk: "lo nblk = unat st + unat sz" "hi nblk = hi got"
      using big by (simp_all add: nblk_def vals)
    have "unat (bsize nblk) \<le> unat (bsize got)"
      using st by (simp add: nblk_def vals) (simp add: hi_def lo_def)
    then have blk: "lo blk = lo got" "hi blk = unat st + unat sz"
      using st nblk by (simp_all add: blk_def unat_diff) (simp add: hi_def lo_def)
    have new: "nblk \<notin> F" using sep nblk big st by (fastforce simp: lo_def)
    have F': "heap_free (insert nblk F)"
      using F heap nblk big st by (fastforce simp: heap_free_insert in_heap_iff apart_def)
    have "free_space (insert nblk F) \<union> space blk = free_space F \<union> space got"
      using blk nblk st big by (auto simp: free_space_insert space_def)
    then have carve: "carved F got (insert nblk F) blk"
      using F' blk nblk sep heap st by (fastforce simp: carved_def in_heap_iff)
    from insert_both_trees [OF tr new] show ?thesis
    proof (cases "2 * card F + 1 < max_nodes")
      case True
      with insert_both_trees [OF tr new] obtain s' where "insert_both nblk s = ret s'" "frame s s'"
        "trees s' (insert nblk F) (insert nblk F)" by auto
      moreover from this(1) have "split_tail st sz got s = ret (blk, s')"
        using \<open>st + sz + sizeof_Block_t * 2 < start got + bsize got\<close>
        by (simp add: split_tail_def Let_def nblk_def blk_def)
      ultimately show ?thesis using carve blk nblk sep st new fin
        by (intro disjI2 exI [of _ blk] exI [of _ s'] exI [of _ "insert nblk F"]) fastforce
    next
      case False
      with insert_both_trees [OF tr new] True show ?thesis by (simp add: split_tail_def Let_def nblk_def)
    qed
  qed
qed

lemma split_head_correct:
  assumes tr: "trees s F F" and F: "heap_free F" "in_heap got" "\<forall>c \<in> F. hi c < lo got \<or> hi got \<le> lo c"
    and st: "lo got + 8 \<le> unat st" "unat st + unat (sz :: u32) \<le> hi got"
  shows "split_head st got s = halt nodes_full \<and> max_nodes \<le> 2 * card F + 1 \<or>
    (\<exists>blk s' F'. split_head st got s = ret (blk, s') \<and> frame s s' \<and> trees s' F' F' \<and>
      carved F got F' blk \<and> hi blk = hi got \<and> lo blk + 8 \<le> unat st \<and> unat st \<le> lo blk + 24 \<and>
      card F' \<le> card F + 1)"
proof -
  have top: "hi got \<le> 0xFFC00000" using F(2) by (simp add: in_heap_iff)
  note vals = block_values [OF st top]
  have fin: "finite F" using tr by (auto simp: trees_def)
  show ?thesis
  proof (cases "st - start got > sizeof_Block_t * 3")
    case False
    then have "split_head st got s = ret (got, s)" "unat st \<le> lo got + 24"
      using vals by (auto simp: split_head_def word_less_nat_alt sizeof_Block_t_def)
    moreover have "carved F got F got" using F by (auto simp: carved_def)
    ultimately show ?thesis using tr st by (intro disjI2 exI [of _ got] exI [of _ s] exI [of _ F]) auto
  next
    case True
    define nblk where "nblk = \<lparr>start = start got, bsize = st - start got - sizeof_Block_t\<rparr>"
    define blk where "blk = \<lparr>start = start got + bsize nblk, bsize = bsize got - bsize nblk\<rparr>"
    from True have big: "lo got + 24 < unat st"
      using vals by (simp add: word_less_nat_alt sizeof_Block_t_def)
    have nblk: "lo nblk = lo got" "hi nblk = unat st - 8"
      using big by (simp_all add: nblk_def vals) (simp_all add: lo_def)
    have n: "unat (bsize nblk) = unat st - lo got - 8" by (simp add: nblk_def vals)
    then have "unat (start got + bsize nblk) = unat st - 8"
      using big st top by (subst unat_add) (simp_all add: lo_def [symmetric])
    moreover have "unat (bsize got - bsize nblk) = unat (bsize got) - unat (bsize nblk)"
      using n st by (intro unat_diff) (simp add: hi_def lo_def)
    ultimately have blk: "lo blk = unat st - 8" "hi blk = hi got"
      using n big st by (simp_all add: blk_def) (simp add: hi_def lo_def)
    have new: "nblk \<notin> F" using F nblk big st by (fastforce simp: heap_free_def in_heap_iff)
    have F': "heap_free (insert nblk F)"
      using F nblk big st by (fastforce simp: heap_free_insert in_heap_iff apart_def)
    have "free_space (insert nblk F) \<union> space blk = free_space F \<union> space got"
      using blk nblk st big by (auto simp: free_space_insert space_def)
    then have carve: "carved F got (insert nblk F) blk"
      using F F' blk nblk big st by (fastforce simp: carved_def in_heap_iff)
    show ?thesis
    proof (cases "2 * card F + 1 < max_nodes")
      case True
      with insert_both_trees [OF tr new] obtain s' where "insert_both nblk s = ret s'" "frame s s'"
        "trees s' (insert nblk F) (insert nblk F)" by auto
      moreover from this(1) have "split_head st got s = ret (blk, s')"
        using \<open>st - start got > sizeof_Block_t * 3\<close> by (simp add: split_head_def Let_def nblk_def blk_def)
      ultimately show ?thesis using carve blk big new fin
        by (intro disjI2 exI [of _ blk] exI [of _ s'] exI [of _ "insert nblk F"]) simp
    next
      case False
      with insert_both_trees [OF tr new] True show ?thesis by (simp add: split_head_def Let_def nblk_def)
    qed
  qed
qed

lemma carved_trans:
  "carved F got F1 b1 \<Longrightarrow> carved F1 b1 F2 b2 \<Longrightarrow> carved F got F2 b2"
  unfolding carved_def by auto

text \<open>
  The part of \<^verbatim>\<open>kmalloc\<close> between the search and the page directory call: the found block
  leaves both trees, and its tail and head go back.
\<close>

lemma cut_correct:
  assumes tr: "trees s (F - {got}) F" and F: "heap_free F" "got \<in> F"
    and st: "lo got + 8 \<le> unat st" "unat st + unat sz \<le> hi got"
  defines "carve_it \<equiv> andThen (find_ge lt_start got (tree_start s)) (\<lambda>ptr'.
        andThen (start_erase ptr' s) (\<lambda>s.
        andThen (split_tail st sz got s) (\<lambda>(got, s). split_head st got s)))"
  shows "carve_it = halt nodes_full \<and> max_nodes \<le> 2 * card F + 1 \<or>
    (\<exists>blk s' F'. carve_it = ret (blk, s') \<and> frame s s' \<and> trees s' F' F' \<and> carved (F - {got}) got F' blk \<and>
      lo blk + 8 \<le> unat st \<and> unat st \<le> lo blk + 24 \<and>
      unat st + unat sz \<le> hi blk \<and> hi blk \<le> unat st + unat sz + 16 \<and> card F' \<le> card F + 1)"
proof -
  have fin: "finite F" using tr by (auto simp: trees_def)
  from start_erase_found [OF tr F(2)] obtain ptr s1 where
    s1: "find_ge lt_start got (tree_start s) = ret ptr" "start_erase ptr s = ret s1" "frame s s1"
      "trees s1 (F - {got}) (F - {got})" by blast
  then have cut: "carve_it = andThen (split_tail st sz got s1) (\<lambda>(got, s). split_head st got s)" by (simp add: carve_it_def)
  have F0: "heap_free (insert got (F - {got}))" "got \<notin> F - {got}" using F by (simp_all add: insert_absorb)
  have card: "Suc (card (F - {got})) = card F" using fin F(2) by (rule card_Suc_Diff1)
  from split_tail_correct [OF s1(4) F0 st] show ?thesis
  proof (elim disjE conjE exE)
    assume "split_tail st sz got s1 = halt nodes_full" "max_nodes \<le> 2 * card (F - {got}) + 1"
    then show ?thesis using cut card by auto
  next
    fix b2 s2 F2
    assume s2: "split_tail st sz got s1 = ret (b2, s2)" "frame s1 s2" "trees s2 F2 F2" "carved (F - {got}) got F2 b2"
      "lo b2 = lo got" "unat st + unat sz \<le> hi b2" "hi b2 \<le> unat st + unat sz + 16"
      "card F2 \<le> card (F - {got}) + 1" "\<forall>c \<in> F2. hi c < lo b2 \<or> hi b2 \<le> lo c"
    have b2: "heap_free F2" "in_heap b2" "lo b2 + 8 \<le> unat st" using s2(4,5) st by (simp_all add: carved_def)
    from split_head_correct [OF s2(3) b2(1,2) s2(9) b2(3) s2(6)] show ?thesis
    proof (elim disjE conjE exE)
      assume "split_head st b2 s2 = halt nodes_full" "max_nodes \<le> 2 * card F2 + 1"
      then show ?thesis using cut s2(1,8) card by auto
    next
      fix b3 s3 F3
      assume s3: "split_head st b2 s2 = ret (b3, s3)" "frame s2 s3" "trees s3 F3 F3" "carved F2 b2 F3 b3"
        "hi b3 = hi b2" "lo b3 + 8 \<le> unat st" "unat st \<le> lo b3 + 24" "card F3 \<le> card F2 + 1"
      have "frame s s3" using s1(3) s2(2) s3(2) frame_trans by blast
      moreover have "carved (F - {got}) got F3 b3" by (rule carved_trans [OF s2(4) s3(4)])
      ultimately show ?thesis using cut s2 s3 card
        by (intro disjI2 exI [of _ b3] exI [of _ s3] exI [of _ F3]) simp
    qed
  qed
qed

end
