(* ===== verification/Kheap_Inv.thy ===== *)
theory Kheap_Inv
  imports Kheap_Alloc
begin

text \<open>
  The invariant of the kernel heap and its preservation by \<^verbatim>\<open>kmalloc\<close> and
  \<^verbatim>\<open>kfree\<close>, proved against the contract of the page directory operations they call.
\<close>

section \<open>Block headers in memory\<close>

lemma load_store_Block [simp]:
  assumes "unat a + 8 \<le> 2 ^ 32"
  shows "load_Block a (store_Block a b m) = b"
proof -
  have "unat (a + 4) = unat a + 4" using assms by (simp add: unat_add)
  then have "bytes_at a 4 \<inter> bytes_at (a + 4) 4 = {}"
    using assms by (auto simp: bytes_at_unat)
  then show ?thesis by (simp add: load_Block_def store_Block_def load32_disjoint)
qed

lemma load_store_Block_other:
  assumes "unat a + 8 \<le> 2 ^ 32" "unat c + 8 \<le> 2 ^ 32" "unat a + 8 \<le> unat c \<or> unat c + 8 \<le> unat a"
  shows "load_Block a (store_Block c b m) = load_Block a m"
proof -
  have "unat (a + 4) = unat a + 4" "unat (c + 4) = unat c + 4" using assms by (simp_all add: unat_add)
  then have "bytes_at a 4 \<inter> bytes_at c 4 = {}" "bytes_at a 4 \<inter> bytes_at (c + 4) 4 = {}"
    "bytes_at (a + 4) 4 \<inter> bytes_at c 4 = {}" "bytes_at (a + 4) 4 \<inter> bytes_at (c + 4) 4 = {}"
    using assms by (auto simp: bytes_at_unat)
  then show ?thesis by (simp add: load_Block_def store_Block_def load32_disjoint)
qed

lemma store_Block_other:
  assumes "unat a + 8 \<le> 2 ^ 32" "x \<notin> bytes_at a 8"
  shows "store_Block a b m x = m x"
proof -
  have "unat (a + 4) = unat a + 4" using assms by (simp add: unat_add)
  then have "x \<notin> bytes_at a 4" "x \<notin> bytes_at (a + 4) 4"
    using assms by (auto simp: bytes_at_unat)
  then show ?thesis by (simp add: store_Block_def store32_other)
qed

section \<open>The invariant\<close>

text \<open>
  \<open>A\<close> maps every allocated address to the block it lies in: its header is intact, and
  allocated blocks, and free ones, tile the heap.
\<close>

definition live_ok :: "memory \<Rightarrow> Block_t set \<Rightarrow> (u32 \<rightharpoonup> Block_t) \<Rightarrow> bool" where
  "live_ok m F A \<longleftrightarrow>
     (\<forall>a b. A a = Some b \<longrightarrow> in_heap b \<and> lo b + 8 \<le> unat a \<and> unat a \<le> hi b \<and>
        load_Block (a - sizeof_Block_t) m = b \<and> space b \<inter> free_space F = {}) \<and>
     (\<forall>a b a' b'. A a = Some b \<and> A a' = Some b' \<and> a \<noteq> a' \<longrightarrow> space b \<inter> space b' = {})"

definition heap_inv :: "'a kheap_state_scheme \<Rightarrow> Block_t set \<Rightarrow> (u32 \<rightharpoonup> Block_t) \<Rightarrow> bool" where
  "heap_inv s F A \<longleftrightarrow> kheap_finish_init_called s \<and> trees s F F \<and> heap_free F \<and> live_ok (kmem s) F A \<and>
     free_space F \<union> (\<Union>b \<in> ran A. space b) = {unat KERNEL_HEAP_BEGIN..<unat KERNEL_HEAP_END}"

lemma trees_cong:
  "mm s' = mm s \<Longrightarrow> tree_size s' = tree_size s \<Longrightarrow> tree_start s' = tree_start s \<Longrightarrow> trees s' F G = trees s F G"
  by (simp add: trees_def)

lemma trees_kmem [simp]: "trees (s\<lparr>kmem := m\<rparr>) F G = trees s F G"
  by (rule trees_cong) simp_all

lemma frame_fields:
  assumes "frame s s'"
  shows "kheap_finish_init_called s' = kheap_finish_init_called s" "kmem s' = kmem s"
    "kheap_static_end s' = kheap_static_end s" "kheap_state.more s' = kheap_state.more s"
  using assms by (cases s, cases s', simp add: frame_def)+

text \<open>The end of static memory and the bounds of user memory, which nothing changes once the heap is in use.\<close>

definition same_bounds :: "'a kheap_state_scheme \<Rightarrow> 'a kheap_state_scheme \<Rightarrow> bool" where
  "same_bounds s s' \<longleftrightarrow> kheap_static_end s' = kheap_static_end s \<and> USER_MEM_LOW s' = USER_MEM_LOW s \<and> USER_MEM_HIGH s' = USER_MEM_HIGH s"

lemma same_bounds_refl [simp]: "same_bounds s s"
  by (simp add: same_bounds_def)

lemma same_bounds_trans: "same_bounds s s' \<Longrightarrow> same_bounds s' s'' \<Longrightarrow> same_bounds s s''"
  by (simp add: same_bounds_def)

lemma same_bounds_frame: "frame s s' \<Longrightarrow> same_bounds s s'"
  by (cases s, cases s') (simp add: frame_def same_bounds_def)

lemma header_bounds:
  assumes "lo b + 8 \<le> unat a"
  shows "unat (a - sizeof_Block_t) = unat a - 8" "unat (a - sizeof_Block_t) + 8 \<le> 2 ^ 32"
  using assms less_imp_le [OF unat_lt_2_32 [of a]] by (simp_all add: unat_diff sizeof_Block_t_def)

lemma liveD:
  assumes "live_ok m F A" "A a = Some b"
  shows "in_heap b" "lo b + 8 \<le> unat a" "unat a \<le> hi b" "load_Block (a - sizeof_Block_t) m = b"
    "space b \<inter> free_space F = {}"
  using assms by (simp_all add: live_ok_def)

lemma live_disjoint:
  "live_ok m F A \<Longrightarrow> A a = Some b \<Longrightarrow> A a' = Some b' \<Longrightarrow> a \<noteq> a' \<Longrightarrow> space b \<inter> space b' = {}"
  unfolding live_ok_def by blast

lemma live_add:
  assumes live: "live_ok m F A" and F': "free_space F' \<subseteq> free_space F"
    and blk: "in_heap blk" "lo blk + 8 \<le> unat a" "unat a \<le> hi blk" "space blk \<subseteq> free_space F"
      "space blk \<inter> free_space F' = {}"
  shows "live_ok (store_Block (a - sizeof_Block_t) blk m) F' (A(a \<mapsto> blk))" "A a = None"
proof -
  note hdr = header_bounds [OF blk(2)]
  have old: "space b \<inter> space blk = {}" if "A c = Some b" for c b
    using liveD(5) [OF live that] blk(4) by blast
  show None: "A a = None"
  proof (rule ccontr)
    assume "A a \<noteq> None"
    then obtain b where "A a = Some b" by auto
    then have "lo b + 8 \<le> unat a" "unat a \<le> hi b" "space b \<inter> space blk = {}"
      using liveD [OF live] old by blast+
    then have "unat a - 8 \<in> space b \<inter> space blk" using blk(2,3) by (auto simp: space_def)
    then show False using \<open>space b \<inter> space blk = {}\<close> by blast
  qed
  have keep: "load_Block (c - sizeof_Block_t) (store_Block (a - sizeof_Block_t) blk m) = b" if c: "A c = Some b" for c b
  proof -
    have b: "lo b + 8 \<le> unat c" "unat c \<le> hi b" "load_Block (c - sizeof_Block_t) m = b"
      using liveD [OF live c] by blast+
    note hc = header_bounds [OF b(1)]
    have "hi b \<le> lo blk \<or> hi blk \<le> lo b"
      using old [OF c] b blk(2,3) by (force simp: space_def)
    then have "unat c \<le> unat a - 8 \<or> unat a \<le> unat c - 8" using b blk(2,3) by linarith
    then have "unat (c - sizeof_Block_t) + 8 \<le> unat (a - sizeof_Block_t) \<or>
      unat (a - sizeof_Block_t) + 8 \<le> unat (c - sizeof_Block_t)"
      using b(1) blk(2) unfolding hc(1) hdr(1) by linarith
    then show ?thesis using load_store_Block_other [OF hc(2) hdr(2)] b(3) by metis
  qed
  show "live_ok (store_Block (a - sizeof_Block_t) blk m) F' (A(a \<mapsto> blk))"
    unfolding live_ok_def
  proof (intro conjI allI impI)
    fix c b
    assume c: "(A(a \<mapsto> blk)) c = Some b"
    show "in_heap b" "lo b + 8 \<le> unat c" "unat c \<le> hi b"
      "load_Block (c - sizeof_Block_t) (store_Block (a - sizeof_Block_t) blk m) = b"
      "space b \<inter> free_space F' = {}"
      using c blk liveD [OF live, of c b] keep [of c b] hdr(2) F' by (auto split: if_splits)
  next
    fix c b c' b'
    assume "(A(a \<mapsto> blk)) c = Some b \<and> (A(a \<mapsto> blk)) c' = Some b' \<and> c \<noteq> c'"
    then show "space b \<inter> space b' = {}"
      using old [of c b] old [of c' b'] live_disjoint [OF live, of c b c' b'] by (auto split: if_splits)
  qed
qed

section \<open>The contract of the page directory\<close>

text \<open>
  What the heap relies on when it marks the pages of a block as allocable, or gives them
  back: on whole pages of the heap the two operations return, and they do not touch the heap's
  own state. \<open>ready\<close> says that the page tables of the heap exist.
\<close>

locale heap_pages =
  fixes lazy_alloc_interval ::
      "u32 \<Rightarrow> u32 \<Rightarrow> bool \<Rightarrow> bool \<Rightarrow> bool \<Rightarrow> 'a kheap_state_scheme \<Rightarrow> 'a kheap_state_scheme exec"
    and free_interval :: "u32 \<Rightarrow> u32 \<Rightarrow> 'a kheap_state_scheme \<Rightarrow> 'a kheap_state_scheme exec"
    and ready :: "'a kheap_state_scheme \<Rightarrow> bool"
  assumes lazy_returns: "ready s \<Longrightarrow> page_aligned b \<Longrightarrow> page_aligned e \<Longrightarrow>
      unat KERNEL_HEAP_BEGIN \<le> unat b \<Longrightarrow> unat e \<le> unat KERNEL_HEAP_END \<Longrightarrow>
      \<exists>s'. lazy_alloc_interval b e False True False s = ret s' \<and> ready s' \<and>
        kheap_state.truncate s' = kheap_state.truncate s"
    and free_returns: "ready s \<Longrightarrow> page_aligned b \<Longrightarrow> page_aligned e \<Longrightarrow>
      unat KERNEL_HEAP_BEGIN \<le> unat b \<Longrightarrow> unat e \<le> unat KERNEL_HEAP_END \<Longrightarrow>
      \<exists>s'. free_interval b e s = ret s' \<and> ready s' \<and> kheap_state.truncate s' = kheap_state.truncate s"
    and ready_more: "kheap_state.more s' = kheap_state.more s \<Longrightarrow> ready s \<Longrightarrow> ready s'"

lemma truncate_fields:
  assumes "kheap_state.truncate s' = kheap_state.truncate s"
  shows "kheap_finish_init_called s' = kheap_finish_init_called s" "kmem s' = kmem s"
    "kheap_static_end s' = kheap_static_end s" "mm s' = mm s" "tree_size s' = tree_size s"
    "tree_start s' = tree_start s" "USER_MEM_LOW s' = USER_MEM_LOW s" "USER_MEM_HIGH s' = USER_MEM_HIGH s"
  using assms by (simp_all add: kheap_state.truncate_def)

lemma heap_inv_truncate:
  "kheap_state.truncate s' = kheap_state.truncate s \<Longrightarrow> heap_inv s' F A = heap_inv s F A"
proof -
  assume "kheap_state.truncate s' = kheap_state.truncate s"
  note f = truncate_fields [OF this]
  have "trees s' F F = trees s F F" using f by (intro trees_cong)
  then show ?thesis unfolding heap_inv_def f by simp
qed

text \<open>The result of a successful allocation.\<close>

definition allocated ::
  "'a kheap_state_scheme \<Rightarrow> Block_t set \<Rightarrow> (u32 \<rightharpoonup> Block_t) \<Rightarrow> u32 \<Rightarrow> nat \<Rightarrow>
   u32 \<Rightarrow> 'a kheap_state_scheme \<Rightarrow> Block_t set \<Rightarrow> Block_t \<Rightarrow> bool" where
  "allocated s F A sz p a s' F' blk \<longleftrightarrow> heap_inv s' F' (A(a \<mapsto> blk)) \<and> A a = None \<and> 2 ^ p dvd unat a \<and>
     {unat a - 8..<unat a + unat sz} \<subseteq> space blk \<and> hi blk - lo blk \<le> unat sz + 40 \<and>
     space blk \<subseteq> free_space F \<and> free_space F' = free_space F - space blk \<and> card F' \<le> card F + 1 \<and>
     (\<forall>x. x \<notin> bytes_at (a - sizeof_Block_t) 8 \<longrightarrow> kmem s' x = kmem s x)"

definition no_memory :: panic where
  "no_memory = Panic ''kernel runs out of memory''"

text \<open>The block that was carved out becomes a live one once its header is written.\<close>

lemma allocated_intro:
  assumes inv: "heap_inv s F A" and got: "got \<in> F" and carve: "carved (F - {got}) got F' blk"
    and tr: "trees s' F' F'" "kheap_finish_init_called s'" "kmem s' = kmem s"
    and st: "lo blk + 8 \<le> unat st" "unat st \<le> lo blk + 24" "unat st + unat sz \<le> hi blk"
      "hi blk \<le> unat st + unat sz + 16" "2 ^ p dvd unat st" and card: "card F' \<le> card F + 1"
  shows "allocated s F A sz p st (s'\<lparr>kmem := store_Block (st - sizeof_Block_t) blk (kmem s')\<rparr>) F' blk"
proof -
  have F: "free_space (F - {got}) \<union> space got = free_space F"
    using got by (metis free_space_insert insert_Diff)
  then have un: "free_space F' \<union> space blk = free_space F" using carve by (simp add: carved_def)
  have dis: "free_space F' \<inter> space blk = {}" by (rule carved_disjoint [OF carve])
  have blk: "in_heap blk" "heap_free F'" using carve by (simp_all add: carved_def)
  have live: "live_ok (kmem s) F A" using inv by (simp add: heap_inv_def)
  have sub: "free_space F' \<subseteq> free_space F" "space blk \<subseteq> free_space F" "space blk \<inter> free_space F' = {}"
    using un dis by blast+
  have "unat st \<le> hi blk" using st(3) by simp
  note add = live_add [OF live sub(1) blk(1) st(1) this sub(2,3)]
  have "ran (A(st \<mapsto> blk)) = insert blk (ran A)" using add(2) by (rule ran_map_upd)
  then have "free_space F' \<union> (\<Union>b \<in> ran (A(st \<mapsto> blk)). space b) = free_space F \<union> (\<Union>b \<in> ran A. space b)"
    using un by auto
  then have "heap_inv (s'\<lparr>kmem := store_Block (st - sizeof_Block_t) blk (kmem s')\<rparr>) F' (A(st \<mapsto> blk))"
    using inv tr blk add(1) by (simp add: heap_inv_def)
  moreover have "free_space F' = free_space F - space blk" using un dis by blast
  moreover have "{unat st - 8..<unat st + unat sz} \<subseteq> space blk" using st by (auto simp: space_def)
  ultimately show ?thesis
    using add(2) st sub(2) card store_Block_other [OF header_bounds(2) [OF st(1)]] tr(3)
    by (auto simp: allocated_def)
qed

lemma heap_page_down:
  assumes "0xEFC00000 \<le> unat a"
  shows "0xEFC00000 \<le> unat (a AND 0xFFFFF000 :: u32)"
proof -
  have "0xEFC00000 div 4096 * 4096 \<le> unat a div 4096 * (4096 :: nat)"
    using assms by (intro mult_le_mono1 div_le_mono)
  then show ?thesis by (simp add: unat_and_page_mask)
qed

lemma heap_page_up:
  assumes "unat a \<le> 0xFFC00000"
  shows "unat (get_aligned a 12) \<le> 0xFFC00000"
proof -
  have "unat (get_aligned a 12) \<le> (unat a + 2 ^ 12 - 1) div 2 ^ 12 * 2 ^ 12"
    unfolding unat_get_aligned by (rule mod_less_eq_dividend)
  also have "\<dots> \<le> (0xFFC00000 + 2 ^ 12 - 1) div 2 ^ 12 * 2 ^ 12"
    using assms by (intro mult_le_mono1 div_le_mono) (metis add_le_mono1 diff_le_mono)
  finally show ?thesis by simp
qed

lemma pages_of_block:
  assumes "in_heap got" "lo got + 8 \<le> unat st" "unat st + unat sz \<le> hi got"
  shows "unat KERNEL_HEAP_BEGIN \<le> unat ((st - sizeof_Block_t) AND 0xFFFFF000)"
    "unat (get_aligned (st + sz) 12) \<le> unat KERNEL_HEAP_END"
proof -
  have top: "hi got \<le> 0xFFC00000" "0xEFC00000 \<le> lo got" using assms(1) by (simp_all add: in_heap_iff)
  note vals = block_values [OF assms(2,3) top(1)]
  show "unat KERNEL_HEAP_BEGIN \<le> unat ((st - sizeof_Block_t) AND 0xFFFFF000)"
    unfolding heap_bounds using assms(2) top by (intro heap_page_down) (simp add: vals)
  show "unat (get_aligned (st + sz) 12) \<le> unat KERNEL_HEAP_END"
    unfolding heap_bounds using assms(3) top by (intro heap_page_up) (simp add: vals)
qed

text \<open>Whole pages of the heap that cover the header and the bytes handed out.\<close>

definition heap_span :: "u32 \<Rightarrow> u32 \<Rightarrow> u32 \<Rightarrow> u32 \<Rightarrow> bool" where
  "heap_span b e a sz \<longleftrightarrow> page_aligned b \<and> page_aligned e \<and> unat KERNEL_HEAP_BEGIN \<le> unat b \<and>
     unat e \<le> unat KERNEL_HEAP_END \<and> unat b \<le> unat a - 8 \<and> unat a + unat sz \<le> unat e"

lemma span_of_block:
  assumes "in_heap got" "lo got + 8 \<le> unat st" "unat st + unat sz \<le> hi got"
  shows "heap_span ((st - sizeof_Block_t) AND 0xFFFFF000) (get_aligned (st + sz) 12) st sz"
proof -
  have top: "hi got \<le> 0xFFC00000" using assms(1) by (simp add: in_heap_iff)
  note vals = block_values [OF assms(2,3) top]
  have "unat ((st - sizeof_Block_t) AND 0xFFFFF000) \<le> unat (st - sizeof_Block_t)"
    unfolding unat_and_page_mask by simp
  moreover have "unat (st + sz) \<le> unat (get_aligned (st + sz) 12)"
    using assms(3) top by (intro get_aligned_bounds) (simp add: vals)
  ultimately show ?thesis using pages_of_block [OF assms] by (simp add: heap_span_def vals)
qed

context heap_pages
begin

lemma kmalloc_correct:
  assumes inv: "heap_inv s F A" and rdy: "ready s" and p: "p \<le> 22" and sz: "unat sz + 8 < 2 ^ 32"
  shows "kmalloc lazy_alloc_interval sz p s = halt no_memory \<and> (\<forall>b \<in> F. \<not> fits sz p b) \<or>
    kmalloc lazy_alloc_interval sz p s = halt nodes_full \<and> max_nodes \<le> 2 * card F + 1 \<or>
    (\<exists>a s' F' blk b e s1 s2. kmalloc lazy_alloc_interval sz p s = ret (a, s') \<and> ready s' \<and>
      allocated s F A sz p a s' F' blk \<and> ready s1 \<and> heap_span b e a sz \<and>
      lazy_alloc_interval b e False True False s1 = ret s2 \<and> kheap_state.more s' = kheap_state.more s2 \<and>
      kheap_state.more s1 = kheap_state.more s \<and> same_bounds s s')"
proof -
  let ?req = "\<lparr>start = 0, bsize = sz + sizeof_Block_t\<rparr>"
  from inv have tr: "trees s F F" and F: "heap_free F" and fin: "kheap_finish_init_called s"
    by (simp_all add: heap_inv_def)
  have req: "unat (bsize ?req) = unat sz + 8" using sz by (simp add: sizeof_Block_t_def unat_add)
  have small: "\<not> fits sz p b" if "b \<in> F" "lt_size b ?req" for b
  proof -
    have "in_heap b" using that F by (simp add: heap_free_def)
    from offered_bounds(1) [OF this p] have "lo b + 8 \<le> unat (offered p b)" .
    moreover have "unat (bsize b) < unat sz + 8" using that(2) req by (auto simp: lt_size_def word_less_nat_alt)
    ultimately show ?thesis by (simp add: fits_def hi_def lo_def)
  qed
  have "unat sz + 8 \<le> unat (bsize ?req)" unfolding req by simp
  from kmalloc_search_correct [OF tr F p this] show ?thesis
  proof (elim disjE conjE exE)
    assume "kmalloc_search (tree_size s) sz p ?req = halt (Panic ''kernel runs out of memory'')"
      "\<forall>b \<in> F. \<not> lt_size b ?req \<longrightarrow> \<not> fits sz p b"
    then show ?thesis using fin small by (auto simp: kmalloc_def no_memory_def)
  next
    fix ptr got s1
    assume s1: "kmalloc_search (tree_size s) sz p ?req = ret (ptr, got, offered p got)" "got \<in> F" "fits sz p got"
      "size_erase ptr s = ret s1" "frame s s1" "trees s1 (F - {got}) F"
    define st where "st = offered p got"
    have heap: "in_heap got" using s1(2) F by (simp add: heap_free_def)
    have st: "lo got + 8 \<le> unat st" "unat st + unat sz \<le> hi got" "2 ^ p dvd unat st"
      using offered_bounds [OF heap p] s1(3) by (simp_all add: st_def fits_def)
    let ?cut = "andThen (find_ge lt_start got (tree_start s1)) (\<lambda>ptr'.
        andThen (start_erase ptr' s1) (\<lambda>s.
        andThen (split_tail st sz got s) (\<lambda>(got, s). split_head st got s)))"
    have km: "kmalloc lazy_alloc_interval sz p s = andThen ?cut (\<lambda>(got, s).
        andThen (lazy_alloc_interval ((st - sizeof_Block_t) AND 0xFFFFF000) (get_aligned (st + sz) 12)
                   False True False s) (\<lambda>s.
          ret (st, s\<lparr>kmem := store_Block (st - sizeof_Block_t) got (kmem s)\<rparr>)))"
      using s1(1,4) fin by (simp add: kmalloc_def st_def case_prod_beta')
    from cut_correct [OF s1(6) F s1(2) st(1,2)] show ?thesis
    proof (elim disjE conjE exE)
      assume "?cut = halt nodes_full" "max_nodes \<le> 2 * card F + 1"
      then show ?thesis using km by simp
    next
      fix blk s2 F2
      assume s2: "?cut = ret (blk, s2)" "frame s1 s2" "trees s2 F2 F2" "carved (F - {got}) got F2 blk"
        "lo blk + 8 \<le> unat st" "unat st \<le> lo blk + 24" "unat st + unat sz \<le> hi blk" "hi blk \<le> unat st + unat sz + 16"
        "card F2 \<le> card F + 1"
      have fr: "frame s s2" using s1(5) s2(2) by (rule frame_trans)
      have rdy2: "ready s2" using ready_more [OF frame_fields(4) [OF fr] rdy] .
      from pages_of_block [OF heap st(1,2)] lazy_returns [OF rdy2] obtain s3
        where s3: "lazy_alloc_interval ((st - sizeof_Block_t) AND 0xFFFFF000) (get_aligned (st + sz) 12)
                   False True False s2 = ret s3" "ready s3" "kheap_state.truncate s3 = kheap_state.truncate s2"
        by (metis page_aligned_get_aligned page_aligned_mask)
      note t = truncate_fields [OF s3(3)]
      have "allocated s F A sz p st (s3\<lparr>kmem := store_Block (st - sizeof_Block_t) blk (kmem s3)\<rparr>) F2 blk"
        using inv s1(2) s2(4) _ _ _ s2(5-8) st(3) s2(9)
        by (rule allocated_intro) (use t trees_cong [of s3 s2] s2(3) frame_fields [OF fr] fin in simp_all)
      moreover have "ready (s3\<lparr>kmem := store_Block (st - sizeof_Block_t) blk (kmem s3)\<rparr>)"
        by (rule ready_more [OF _ s3(2)]) simp
      moreover have "heap_span ((st - sizeof_Block_t) AND 0xFFFFF000) (get_aligned (st + sz) 12) st sz"
        by (rule span_of_block [OF heap st(1,2)])
      moreover have "kheap_state.more (s3\<lparr>kmem := store_Block (st - sizeof_Block_t) blk (kmem s3)\<rparr>) = kheap_state.more s3"
        by simp
      moreover have "same_bounds s (s3\<lparr>kmem := store_Block (st - sizeof_Block_t) blk (kmem s3)\<rparr>)"
        using t(3,7,8) same_bounds_frame [OF fr] by (simp add: same_bounds_def)
      ultimately show ?thesis using km s2(1) s3(1) rdy2 frame_fields(4) [OF fr] by (intro disjI2) fastforce
    qed
  qed
qed

end

end
