(* ===== verification/Kheap_Free.thy ===== *)
theory Kheap_Free
  imports Kheap_Inv
begin

text \<open>
  Release: merging the released block with its free neighbours, the pages given back, and
  the round trip with allocation.
\<close>

section \<open>Merging\<close>

lemma disjoint_space:
  assumes "in_heap b" "in_heap c" "space b \<inter> space c = {}"
  shows "hi c \<le> lo b \<or> hi b \<le> lo c"
proof (rule ccontr)
  assume "\<not> ?thesis"
  then have "max (lo b) (lo c) \<in> space b \<inter> space c"
    using assms(1,2) by (auto simp: space_def in_heap_iff)
  then show False using assms(3) by blast
qed

lemma start_le: "\<not> lt_start b c \<Longrightarrow> lo c \<le> lo b"
  by (auto simp: lt_start_def lo_def word_less_nat_alt word_le_nat_alt not_less)

lemma start_less: "lo b < lo c \<Longrightarrow> lt_start b c"
  by (auto simp: lt_start_def lo_def word_less_nat_alt)

lemma lt_start_le: "lt_start b c \<Longrightarrow> lo b \<le> lo c"
  by (auto simp: lt_start_def lo_def word_less_nat_alt)

lemma merged_end:
  assumes "in_heap got" "in_heap blk" "hi got = lo blk"
  shows "unat (bsize blk + bsize got) = hi blk - lo got"
  using assms by (subst unat_add) (auto simp: in_heap_iff hi_def lo_def)

text \<open>What the first merge leaves: no free block touches the released one from below.\<close>

definition below :: "Block_t set \<Rightarrow> Block_t \<Rightarrow> bool" where
  "below F blk \<longleftrightarrow> (\<forall>c \<in> F. hi c < lo blk \<or> hi blk \<le> lo c)"

lemma merge_prev_correct:
  assumes tr: "trees s F F" and F: "heap_free F" and blk: "in_heap blk" "space blk \<inter> free_space F = {}"
  shows "\<exists>blk' fs s' F'. merge_prev blk (start blk) s = ret (blk', fs, s') \<and> frame s s' \<and> trees s' F' F' \<and>
    F' \<subseteq> F \<and> free_space F' \<union> space blk' = free_space F \<union> space blk \<and> in_heap blk' \<and>
    hi blk' = hi blk \<and> lo blk' \<le> unat fs \<and> unat fs \<le> lo blk \<and> below F' blk'"
proof -
  have heap: "in_heap c" if "c \<in> F" for c using F that by (simp add: heap_free_def)
  have sep: "hi c \<le> lo blk \<or> hi blk \<le> lo c" if "c \<in> F" for c
    using disjoint_space [OF blk(1) heap [OF that]] blk(2) that by (auto simp: free_space_def)
  from start_find_le [OF tr, of blk] obtain ptr where find: "find_le le_start blk (tree_start s) = ret ptr"
    and ptr: "ptr = 0 \<and> (\<forall>k \<in> F. lt_start blk k) \<or>
     ptr \<noteq> 0 \<and> key (node (tree_start s) ptr) \<in> F \<and> \<not> lt_start blk (key (node (tree_start s) ptr)) \<and>
       (\<forall>k \<in> F. \<not> lt_start blk k \<longrightarrow> \<not> lt_start (key (node (tree_start s) ptr)) k) \<and>
       (\<exists>s'. start_erase ptr s = ret s' \<and> frame s s' \<and> trees s' F (F - {key (node (tree_start s) ptr)}))" by blast
  show ?thesis
  proof (cases "ptr = 0")
    case True
    have "below F blk"
      using ptr True sep lt_start_le heap blk(1) by (fastforce simp: below_def in_heap_iff)
    then show ?thesis using True find tr blk(1)
      by (intro exI [of _ blk] exI [of _ "start blk"] exI [of _ s] exI [of _ F]) (simp add: merge_prev_def lo_def)
  next
    case False
    define got where "got = key (node (tree_start s) ptr)"
    from False ptr obtain s1 where got: "got \<in> F" "\<not> lt_start blk got" "\<forall>k \<in> F. \<not> lt_start blk k \<longrightarrow> \<not> lt_start got k"
      and s1: "start_erase ptr s = ret s1" "frame s s1" "trees s1 F (F - {got})" by (auto simp: got_def)
    have end_got: "unat (start got + bsize got) = hi got" by (rule block_end [OF heap [OF got(1)]])
    have le: "hi got \<le> lo blk" using sep [OF got(1)] start_le [OF got(2)] blk(1) by (auto simp: in_heap_iff)
    have others: "hi c < lo got \<or> hi blk \<le> lo c" if "c \<in> F" "c \<noteq> got" for c
    proof (cases "lt_start blk c")
      case True
      then show ?thesis using sep [OF that(1)] lt_start_le heap [OF that(1)] by (fastforce simp: in_heap_iff)
    next
      case False
      then have "lo c \<le> lo got" using got(3) that(1) start_le by blast
      moreover have "apart c got" using F that got(1) by (auto simp: heap_free_def)
      ultimately show ?thesis using heap [OF got(1)] by (auto simp: apart_def in_heap_iff)
    qed
    show ?thesis
    proof (cases "hi got = lo blk")
      case touch: True
      let ?blk = "\<lparr>start = start got, bsize = bsize blk + bsize got\<rparr>"
      let ?fs = "cmax (start blk AND 0xFFFFF000) (start got)"
      from size_erase_found [OF s1(3) got(1)] obtain p s2 where
        s2: "find_ge lt_size got (tree_size s1) = ret p" "size_erase p s1 = ret s2" "frame s1 s2"
          "trees s2 (F - {got}) (F - {got})" by blast
      have "start got + bsize got = start blk" "\<not> start got + bsize got > start blk"
        using end_got touch by (simp_all add: lo_def word_unat_eq_iff word_less_nat_alt)
      then have res: "merge_prev blk (start blk) s = ret (?blk, ?fs, s2)"
        using find False s1(1) s2(1,2) unfolding merge_prev_def got_def [symmetric] Let_def by (simp add: got_def)
      have blk': "lo ?blk = lo got" "hi ?blk = hi blk"
        using merged_end [OF heap [OF got(1)] blk(1) touch] touch heap [OF got(1)] blk(1)
        by (auto simp: in_heap_iff lo_def)
      have fs: "lo got \<le> unat ?fs" "unat ?fs \<le> lo blk"
        using unat_and_page_mask [of "start blk"] le heap [OF got(1)]
        by (auto simp: cmax_def lo_def word_less_nat_alt not_less in_heap_iff hi_def)
      have "free_space (F - {got}) \<union> space got = free_space F" using got(1) by (metis free_space_insert insert_Diff)
      moreover have "space ?blk = space got \<union> space blk"
        using blk' touch heap [OF got(1)] blk(1) by (auto simp: space_def in_heap_iff)
      ultimately have "free_space (F - {got}) \<union> space ?blk = free_space F \<union> space blk" by blast
      moreover have "in_heap ?blk" using blk' heap [OF got(1)] blk(1) touch by (auto simp: in_heap_iff)
      moreover have "below (F - {got}) ?blk" using others blk' by (auto simp: below_def)
      ultimately show ?thesis using res s2(4) frame_trans [OF s1(2) s2(3)] blk' fs
        by (intro exI [of _ ?blk] exI [of _ ?fs] exI [of _ s2] exI [of _ "F - {got}"]) auto
    next
      case apart: False
      have "start got + bsize got \<noteq> start blk" "\<not> start got + bsize got > start blk"
        using end_got apart le by (auto simp: lo_def word_unat_eq_iff word_less_nat_alt)
      then have "merge_prev blk (start blk) s = ret (blk, start blk, s)"
        using find False unfolding merge_prev_def got_def [symmetric] Let_def by (simp add: got_def)
      moreover have "below F blk" using others le apart heap [OF got(1)]
        by (force simp: below_def in_heap_iff)
      ultimately show ?thesis using tr blk(1)
        by (intro exI [of _ blk] exI [of _ "start blk"] exI [of _ s] exI [of _ F]) (simp add: lo_def)
    qed
  qed
qed

lemma merge_next_correct:
  assumes tr: "trees s F F" and F: "heap_free F" and blk: "in_heap blk" "below F blk"
    and fe: "unat fe = hi blk"
  shows "\<exists>blk' s' F'. merge_next blk fe s = ret (blk', fe, s') \<and> frame s s' \<and> trees s' F' F' \<and>
    F' \<subseteq> F \<and> free_space F' \<union> space blk' = free_space F \<union> space blk \<and> blk' \<notin> F' \<and>
    lo blk' = lo blk \<and> hi blk \<le> hi blk' \<and> heap_free (insert blk' F')"
proof -
  have heap: "in_heap c" if "c \<in> F" for c using F that by (simp add: heap_free_def)
  have sep: "hi c < lo blk \<or> hi blk \<le> lo c" if "c \<in> F" for c
    using blk(2) that by (simp add: below_def)
  have end_blk: "unat (start blk + bsize blk) = hi blk" by (rule block_end [OF blk(1)])
  have new: "blk \<notin> F" using sep [of blk] blk(1) by (auto simp: in_heap_iff)
  from start_find_ge [OF tr, of blk] obtain ptr where find: "find_ge lt_start blk (tree_start s) = ret ptr"
    and ptr: "ptr = 0 \<and> (\<forall>k \<in> F. lt_start k blk) \<or>
     ptr \<noteq> 0 \<and> key (node (tree_start s) ptr) \<in> F \<and> \<not> lt_start (key (node (tree_start s) ptr)) blk \<and>
       (\<forall>k \<in> F. \<not> lt_start k blk \<longrightarrow> \<not> lt_start k (key (node (tree_start s) ptr))) \<and>
       (\<exists>s'. start_erase ptr s = ret s' \<and> frame s s' \<and> trees s' F (F - {key (node (tree_start s) ptr)}))" by blast
  show ?thesis
  proof (cases "ptr = 0")
    case True
    have "hi c < lo blk" if "c \<in> F" for c
      using ptr True that sep [OF that] lt_start_le [of c blk] blk(1) by (auto simp: in_heap_iff)
    then have "heap_free (insert blk F)" using F blk(1) by (auto simp: heap_free_insert apart_def)
    then show ?thesis using True find tr new
      by (intro exI [of _ blk] exI [of _ s] exI [of _ F]) (simp add: merge_next_def)
  next
    case False
    define got where "got = key (node (tree_start s) ptr)"
    from False ptr obtain s1 where got: "got \<in> F" "\<not> lt_start got blk" "\<forall>k \<in> F. \<not> lt_start k blk \<longrightarrow> \<not> lt_start k got"
      and s1: "start_erase ptr s = ret s1" "frame s s1" "trees s1 F (F - {got})" by (auto simp: got_def)
    have le: "hi blk \<le> lo got" using sep [OF got(1)] start_le [OF got(2)] heap [OF got(1)] by (auto simp: in_heap_iff)
    have others: "hi c < lo blk \<or> hi got < lo c" if "c \<in> F" "c \<noteq> got" for c
    proof (cases "lt_start c blk")
      case True
      then show ?thesis using sep [OF that(1)] lt_start_le [OF True] blk(1) by (auto simp: in_heap_iff)
    next
      case False
      then have "lo got \<le> lo c" using got(3) that(1) start_le by blast
      moreover have "apart c got" using F that got(1) by (auto simp: heap_free_def)
      ultimately show ?thesis using heap [OF that(1)] by (auto simp: apart_def in_heap_iff)
    qed
    show ?thesis
    proof (cases "hi blk = lo got")
      case touch: True
      let ?blk = "blk\<lparr>bsize := bsize blk + bsize got\<rparr>"
      from size_erase_found [OF s1(3) got(1)] obtain p s2 where
        s2: "find_ge lt_size got (tree_size s1) = ret p" "size_erase p s1 = ret s2" "frame s1 s2"
          "trees s2 (F - {got}) (F - {got})" by blast
      have "start blk + bsize blk = start got" "\<not> start blk + bsize blk > start got"
        using end_blk touch by (simp_all add: lo_def word_unat_eq_iff word_less_nat_alt)
      moreover have "cmin (get_aligned fe 12) (start blk + bsize blk) = fe"
        using get_aligned_bounds(1) [of fe 12] fe end_blk blk(1)
        by (auto simp: cmin_def in_heap_iff word_unat_eq_iff word_less_nat_alt)
      ultimately have res: "merge_next blk fe s = ret (?blk, fe, s2)"
        using find False s1(1) s2(1,2) unfolding merge_next_def got_def [symmetric] Let_def by (simp add: got_def)
      have "unat (bsize blk + bsize got) = hi got - lo blk"
        using merged_end [OF blk(1) heap [OF got(1)] touch] by (simp add: add.commute)
      then have blk': "lo ?blk = lo blk" "hi ?blk = hi got"
        using touch heap [OF got(1)] blk(1) by (auto simp: in_heap_iff)
      have "free_space (F - {got}) \<union> space got = free_space F" using got(1) by (metis free_space_insert insert_Diff)
      moreover have "space ?blk = space blk \<union> space got"
        using blk' touch heap [OF got(1)] blk(1) by (auto simp: space_def in_heap_iff)
      ultimately have "free_space (F - {got}) \<union> space ?blk = free_space F \<union> space blk" by blast
      moreover have "in_heap ?blk" using blk' heap [OF got(1)] blk(1) touch by (auto simp: in_heap_iff)
      moreover have "?blk \<notin> F - {got}" using others [of ?blk] blk' \<open>in_heap ?blk\<close> by (auto simp: in_heap_iff)
      moreover have "heap_free (F - {got})" using F by (rule heap_free_subset) blast
      ultimately show ?thesis using res s2(4) frame_trans [OF s1(2) s2(3)] blk' others le heap [OF got(1)]
        by (intro exI [of _ ?blk] exI [of _ s2] exI [of _ "F - {got}"])
          (auto simp: heap_free_insert apart_def in_heap_iff)
    next
      case apart: False
      have "start blk + bsize blk \<noteq> start got" "\<not> start blk + bsize blk > start got"
        using end_blk apart le by (auto simp: lo_def word_unat_eq_iff word_less_nat_alt)
      then have "merge_next blk fe s = ret (blk, fe, s)"
        using find False unfolding merge_next_def got_def [symmetric] Let_def by (simp add: got_def)
      moreover have "heap_free (insert blk F)"
        using F blk(1) others le apart heap [OF got(1)] by (force simp: heap_free_insert apart_def in_heap_iff)
      ultimately show ?thesis using tr new by (intro exI [of _ blk] exI [of _ s] exI [of _ F]) simp
    qed
  qed
qed

section \<open>Release\<close>

lemma insert_back_trees:
  assumes tr: "trees s F F" and b: "b \<notin> F"
  shows "if 2 * card F + 1 < max_nodes
    then \<exists>s'. andThen (start_insert b s) (size_insert b) = ret s' \<and> frame s s' \<and> trees s' (insert b F) (insert b F)
    else andThen (start_insert b s) (size_insert b) = halt nodes_full"
proof (cases "2 * card F < max_nodes")
  case True
  then obtain s1 where s1: "start_insert b s = ret s1" "frame s s1" "trees s1 F (insert b F)"
    using start_insert_trees [OF tr b] by auto
  have "finite F" using tr by (auto simp: trees_def)
  then have "card F + card (insert b F) = 2 * card F + 1" using b by simp
  with size_insert_trees [OF s1(3) b] s1 frame_trans show ?thesis by (auto split: if_splits)
next
  case False
  then show ?thesis using start_insert_trees [OF tr b] by simp
qed

lemma live_remove:
  assumes "live_ok m F A" "A a = Some blk" "free_space F' = free_space F \<union> space blk"
  shows "live_ok m F' (A(a := None))"
  unfolding live_ok_def
proof (intro conjI allI impI)
  fix c b
  assume c: "(A(a := None)) c = Some b"
  then have "space b \<inter> space blk = {}"
    using live_disjoint [OF assms(1) _ assms(2), of c b] by (auto split: if_splits)
  with c show "in_heap b" "lo b + 8 \<le> unat c" "unat c \<le> hi b" "load_Block (c - sizeof_Block_t) m = b"
    "space b \<inter> free_space F' = {}"
    using liveD [OF assms(1), of c b] assms(3) by (auto split: if_splits)
next
  fix c b c' b'
  assume "(A(a := None)) c = Some b \<and> (A(a := None)) c' = Some b' \<and> c \<noteq> c'"
  then show "space b \<inter> space b' = {}"
    using live_disjoint [OF assms(1), of c b c' b'] by (auto split: if_splits)
qed

lemma ran_remove:
  assumes "A a = Some blk"
  shows "space blk \<union> (\<Union>b \<in> ran (A(a := None)). space b) = (\<Union>b \<in> ran A. space b)"
proof -
  have "ran A = insert blk (ran (A(a := None)))"
  proof (intro set_eqI iffI)
    fix x
    assume "x \<in> ran A"
    then obtain c where "A c = Some x" by (auto simp: ran_def)
    then show "x \<in> insert blk (ran (A(a := None)))"
      using assms by (cases "c = a") (auto intro: ranI [of _ c])
  qed (use assms in \<open>auto simp: ran_def split: if_splits\<close>)
  then show ?thesis by auto
qed

text \<open>The pages wholly inside the freed part of the merged block.\<close>

lemma freed_pages:
  assumes blk: "in_heap blk" and fs: "lo blk \<le> unat fs" "unat fs \<le> 0xFFC00000" and fe: "unat (fe :: u32) \<le> hi blk"
  shows "{unat (get_aligned fs 12)..<unat (fe AND 0xFFFFF000)} \<subseteq> space blk"
    "unat KERNEL_HEAP_BEGIN \<le> unat (get_aligned fs 12)" "unat (fe AND 0xFFFFF000) \<le> unat KERNEL_HEAP_END"
proof -
  have up: "unat fs \<le> unat (get_aligned fs 12)" using fs by (intro get_aligned_bounds) simp
  have down: "unat (fe AND 0xFFFFF000) \<le> unat fe" unfolding unat_and_page_mask by simp
  show "{unat (get_aligned fs 12)..<unat (fe AND 0xFFFFF000)} \<subseteq> space blk"
    using up down fs fe by (auto simp: space_def)
  show "unat KERNEL_HEAP_BEGIN \<le> unat (get_aligned fs 12)" "unat (fe AND 0xFFFFF000) \<le> unat KERNEL_HEAP_END"
    using up down fs fe blk by (simp_all add: heap_bounds in_heap_iff)
qed

text \<open>Every page that lies in the released block is one of them.\<close>

lemma block_pages_freed:
  assumes fs: "unat (fs :: u32) \<le> lo blk" "lo blk \<le> 0xFFC00000" and fe: "unat (fe :: u32) = hi blk"
    and p: "page_aligned p" "lo blk \<le> unat p" "unat p + 4096 \<le> hi blk"
  shows "get_aligned fs 12 \<le> p \<and> p < fe AND 0xFFFFF000"
proof
  from p(1) obtain m where m: "unat p = 4096 * m" by (auto simp: page_aligned_iff)
  have "unat (get_aligned fs 12) < unat fs + 4096" "4096 dvd unat (get_aligned fs 12)"
    using get_aligned_bounds [of fs 12] fs by simp_all
  then show "get_aligned fs 12 \<le> p" using fs p(2) m by (auto simp: word_le_nat_alt elim!: dvdE)
  show "p < fe AND 0xFFFFF000" using p(3) fe m by (simp add: word_less_nat_alt unat_and_page_mask)
qed

text \<open>
  The interval of pages given back for a block \<open>blk\<close>: whole pages of free space, all those of the block among them.
\<close>

definition freed_range :: "Block_t \<Rightarrow> Block_t set \<Rightarrow> u32 \<Rightarrow> u32 \<Rightarrow> bool" where
  "freed_range blk F' b e \<longleftrightarrow> page_aligned b \<and> page_aligned e \<and> unat e \<le> unat KERNEL_HEAP_END \<and>
     {unat b..<unat e} \<subseteq> free_space F' \<and>
     (\<forall>p. page_aligned p \<and> lo blk \<le> unat p \<and> unat p + 4096 \<le> hi blk \<longrightarrow> b \<le> p \<and> p < e)"

text \<open>The result of a successful release.\<close>

definition released ::
  "'a kheap_state_scheme \<Rightarrow> Block_t set \<Rightarrow> (u32 \<rightharpoonup> Block_t) \<Rightarrow> u32 \<Rightarrow> Block_t \<Rightarrow>
   'a kheap_state_scheme \<Rightarrow> Block_t set \<Rightarrow> bool" where
  "released s F A a blk s' F' \<longleftrightarrow> heap_inv s' F' (A(a := None)) \<and>
     free_space F' = free_space F \<union> space blk \<and> kmem s' = kmem s"

context heap_pages
begin

lemma kfree_correct:
  assumes inv: "heap_inv s F A" and rdy: "ready s" and a: "A a = Some blk"
  shows "kfree free_interval a s = halt nodes_full \<and> max_nodes \<le> 2 * card F + 1 \<or>
    (\<exists>b e s1 s' F'. kfree free_interval a s = ret s' \<and> free_interval b e s1 = ret s' \<and> kheap_state.more s1 = kheap_state.more s \<and>
      freed_range blk F' b e \<and> ready s' \<and> released s F A a blk s' F')"
proof -
  from inv have tr: "trees s F F" and F: "heap_free F" and live: "live_ok (kmem s) F A" by (simp_all add: heap_inv_def)
  note blk = liveD [OF live a]
  have fin: "finite F" using tr by (auto simp: trees_def)
  have valid: "\<not> (start blk < KERNEL_HEAP_BEGIN \<or> start blk + bsize blk > KERNEL_HEAP_END)"
    using blk(1) block_end [OF blk(1)] by (simp add: in_heap_def word_less_nat_alt lo_def)
  from merge_prev_correct [OF tr F blk(1,5)] obtain b1 fs s1 F1 where
    s1: "merge_prev blk (start blk) s = ret (b1, fs, s1)" "frame s s1" "trees s1 F1 F1" "F1 \<subseteq> F"
      "free_space F1 \<union> space b1 = free_space F \<union> space blk" "in_heap b1" "hi b1 = hi blk"
      "lo b1 \<le> unat fs" "unat fs \<le> lo blk" "below F1 b1" by blast
  have fe: "unat (start blk + bsize blk) = hi b1" using block_end [OF blk(1)] s1(7) by simp
  from merge_next_correct [OF s1(3) heap_free_subset [OF F s1(4)] s1(6,10) fe] obtain b2 s2 F2 where
    s2: "merge_next b1 (start blk + bsize blk) s1 = ret (b2, start blk + bsize blk, s2)" "frame s1 s2" "trees s2 F2 F2"
      "F2 \<subseteq> F1" "free_space F2 \<union> space b2 = free_space F1 \<union> space b1" "b2 \<notin> F2"
      "lo b2 = lo b1" "hi b1 \<le> hi b2" "heap_free (insert b2 F2)" by blast
  let ?b = "get_aligned fs 12" and ?e = "(start blk + bsize blk) AND 0xFFFFF000"
  have eq: "kfree free_interval a s =
    andThen (andThen (start_insert b2 s2) (size_insert b2)) (\<lambda>s. free_interval ?b ?e s)"
    using blk(4) valid s1(1) s2(1) by (simp add: kfree_def Let_def)
  have heap2: "in_heap b2" using s2(9) by (simp add: heap_free_insert)
  have "unat fs \<le> 0xFFC00000" using s1(9) blk(1) by (simp add: in_heap_iff)
  note pages = freed_pages [OF heap2 _ this, of "start blk + bsize blk", unfolded fe, OF _ s2(8)]
  show ?thesis
  proof (cases "2 * card F2 + 1 < max_nodes")
    case True
    with insert_back_trees [OF s2(3,6)] obtain s3 where
      s3: "andThen (start_insert b2 s2) (size_insert b2) = ret s3" "frame s2 s3"
        "trees s3 (insert b2 F2) (insert b2 F2)" by auto
    have fr: "frame s s3" using s1(2) s2(2) s3(2) frame_trans by blast
    have rdy3: "ready s3" using ready_more [OF frame_fields(4) [OF fr] rdy] .
    have lo: "lo b2 \<le> unat fs" using s1(8) s2(7) by simp
    from free_returns [OF rdy3 page_aligned_get_aligned page_aligned_mask pages(2,3) [OF lo]] obtain s4
      where s4: "free_interval ?b ?e s3 = ret s4" "ready s4" "kheap_state.truncate s4 = kheap_state.truncate s3" by blast
    have sp: "free_space (insert b2 F2) = free_space F \<union> space blk" using s1(5) s2(5) by (simp add: free_space_insert)
    have "heap_inv s3 (insert b2 F2) (A(a := None))"
      using inv s3(3) s2(9) live_remove [OF live a sp] frame_fields [OF fr] ran_remove [of A, OF a] sp
      by (auto simp: heap_inv_def)
    then have "released s F A a blk s4 (insert b2 F2)"
      using heap_inv_truncate [OF s4(3)] truncate_fields [OF s4(3)] frame_fields [OF fr] sp
      by (simp add: released_def)
    moreover have "freed_range blk (insert b2 F2) ?b ?e"
    proof -
      have "{unat ?b..<unat ?e} \<subseteq> free_space (insert b2 F2)" using pages(1) [OF lo] by (auto simp: free_space_insert)
      moreover have "lo blk \<le> 0xFFC00000" using blk(1) by (simp add: in_heap_iff)
      ultimately show ?thesis
        using block_pages_freed [OF s1(9) _ block_end [OF blk(1)]] page_aligned_get_aligned page_aligned_mask pages(3) [OF lo]
        by (auto simp: freed_range_def)
    qed
    moreover have "kfree free_interval a s = ret s4" using eq s3(1) s4(1) by simp
    ultimately show ?thesis using s4(1,2) frame_fields(4) [OF fr] by blast
  next
    case False
    moreover have "card F2 \<le> card F" using s1(4) s2(4) fin by (meson card_mono subset_trans)
    ultimately show ?thesis using insert_back_trees [OF s2(3,6)] eq by auto
  qed
qed

end

section \<open>The free blocks are determined by the free space\<close>

lemma maximal_block:
  assumes F: "heap_free F" "b \<in> F" and x: "lo b \<le> lo c" "hi c \<le> hi b" "in_heap c"
    and G: "heap_free G" "c \<in> G" and eq: "free_space F = free_space G"
  shows "b = c"
proof -
  have b: "lo b + 8 \<le> hi b" using F by (auto simp: heap_free_def in_heap_iff)
  have "lo b = lo c"
  proof (rule ccontr)
    assume "lo b \<noteq> lo c"
    then have "lo c - 1 \<in> space b" using x b by (auto simp: space_def in_heap_iff)
    then have "lo c - 1 \<in> free_space G" using F(2) eq by (auto simp: free_space_def)
    then obtain d where d: "d \<in> G" "lo d \<le> lo c - 1" "lo c - 1 < hi d" by (auto simp: free_space_def space_def)
    then have "d \<noteq> c" using x by (auto simp: in_heap_iff)
    then have "apart d c" using G d(1) by (simp add: heap_free_def)
    then show False using d x by (auto simp: apart_def in_heap_iff)
  qed
  moreover have "hi b = hi c"
  proof (rule ccontr)
    assume "hi b \<noteq> hi c"
    then have "hi c \<in> space b" using x b by (auto simp: space_def in_heap_iff)
    then have "hi c \<in> free_space G" using F(2) eq by (auto simp: free_space_def)
    then obtain d where d: "d \<in> G" "lo d \<le> hi c" "hi c < hi d" by (auto simp: free_space_def space_def)
    then have "d \<noteq> c" by auto
    then have "apart d c" using G d(1) by (simp add: heap_free_def)
    then show False using d x by (auto simp: apart_def in_heap_iff)
  qed
  ultimately have "unat (start b) = unat (start c)" "unat (bsize b) = unat (bsize c)"
    by (auto simp: lo_def hi_def)
  then show ?thesis by (simp add: word_unat_eq_iff)
qed

lemma block_around:
  assumes "heap_free F" "heap_free G" "free_space F = free_space G" "b \<in> F"
  shows "\<exists>c \<in> G. lo c \<le> lo b \<and> hi b \<le> hi c"
proof -
  have b: "lo b + 8 \<le> hi b" using assms by (auto simp: heap_free_def in_heap_iff)
  then have "lo b \<in> space b" by (simp add: space_def)
  then have "lo b \<in> free_space G" using assms(3,4) by (auto simp: free_space_def)
  then obtain c where c: "c \<in> G" "lo c \<le> lo b" "lo b < hi c" by (auto simp: free_space_def space_def)
  have "hi b \<le> hi c"
  proof (rule ccontr)
    assume "\<not> hi b \<le> hi c"
    then have "hi c \<in> space b" using c by (simp add: space_def)
    then have "hi c \<in> free_space G" using assms(3,4) by (auto simp: free_space_def)
    then obtain d where d: "d \<in> G" "lo d \<le> hi c" "hi c < hi d" by (auto simp: free_space_def space_def)
    then have "d \<noteq> c" by auto
    then have "apart d c" using assms(2) d(1) c(1) by (simp add: heap_free_def)
    then show False using d c by (auto simp: apart_def)
  qed
  with c show ?thesis by blast
qed

lemma heap_free_unique:
  assumes "heap_free F" "heap_free G" "free_space F = free_space G"
  shows "F = G"
proof -
  have "b \<in> G'" if "heap_free F'" "heap_free G'" "free_space F' = free_space G'" "b \<in> F'" for b F' G'
  proof -
    from block_around [OF that] obtain c where c: "c \<in> G'" "lo c \<le> lo b" "hi b \<le> hi c" by blast
    have "in_heap b" using that by (simp add: heap_free_def)
    from maximal_block [OF that(2) c(1) c(2,3) this that(1,4) that(3) [symmetric]] have "c = b" .
    with c(1) show ?thesis by simp
  qed
  then show ?thesis using assms by blast
qed

end
