(* ===== verification/Page_Heap.thy ===== *)
theory Page_Heap
  imports Page Kheap_Free
begin

text \<open>
  The page directory operations satisfy the contract the kernel heap was verified against,
  so the properties of \<^verbatim>\<open>kmalloc\<close> and \<^verbatim>\<open>kfree\<close> hold of the two files together.
\<close>

section \<open>Field facts\<close>

lemma upd_ent_fields [simp]:
  "dirs (upd_ent r f s) = dirs s" "current_page_dir (upd_ent r f s) = current_page_dir s"
  "kheap_state.truncate (upd_ent r f s) = kheap_state.truncate s"
  "nframes (upd_ent r f s) = nframes s" "frames (upd_ent r f s) = frames s"
  "frame_ref_cnt (upd_ent r f s) = frame_ref_cnt s" "frame_mem (upd_ent r f s) = frame_mem s"
  "tlb (upd_ent r f s) = tlb s" "empty_page0_ptr (upd_ent r f s) = empty_page0_ptr s"
  "empty_page1_ptr (upd_ent r f s) = empty_page1_ptr s" "empty_page0_addr (upd_ent r f s) = empty_page0_addr s"
  "empty_page1_addr (upd_ent r f s) = empty_page1_addr s" "init_finished (upd_ent r f s) = init_finished s"
  "kernel_low_ntable (upd_ent r f s) = kernel_low_ntable s"
  by (simp_all add: upd_ent_def kheap_state.truncate_def)

lemma ent_upd_ent: "ent r (upd_ent q f s) = (if r = q then f (ent q s) else ent r s)"
  by (cases r, cases q) (auto simp: ent_def upd_ent_def)

lemma ent_upd_ent_same [simp]: "ent r (upd_ent r f s) = f (ent r s)"
  by (simp add: ent_upd_ent)

lemma invlpg_fields [simp]:
  "dirs (invlpg a s) = dirs s" "current_page_dir (invlpg a s) = current_page_dir s"
  "kheap_state.truncate (invlpg a s) = kheap_state.truncate s" "ent r (invlpg a s) = ent r s"
  "nframes (invlpg a s) = nframes s" "frames (invlpg a s) = frames s"
  "frame_ref_cnt (invlpg a s) = frame_ref_cnt s" "frame_mem (invlpg a s) = frame_mem s"
  "empty_page0_ptr (invlpg a s) = empty_page0_ptr s" "empty_page1_ptr (invlpg a s) = empty_page1_ptr s"
  "empty_page0_addr (invlpg a s) = empty_page0_addr s" "empty_page1_addr (invlpg a s) = empty_page1_addr s"
  "tlb (invlpg a s) = (tlb s)(vpn a := None)" "tabs (invlpg a s) = tabs s"
  by (simp_all add: invlpg_def kheap_state.truncate_def ent_def)

lemma upd_dir_fields [simp]:
  "kheap_state.truncate (upd_dir d f s) = kheap_state.truncate s" "ent r (upd_dir d f s) = ent r s"
  "current_page_dir (upd_dir d f s) = current_page_dir s" "init_finished (upd_dir d f s) = init_finished s"
  "dirs (upd_dir d f s) = (dirs s)(d := f (dirs s d))" "tabs (upd_dir d f s) = tabs s"
  "frame_ref_cnt (upd_dir d f s) = frame_ref_cnt s" "nframes (upd_dir d f s) = nframes s"
  "frames (upd_dir d f s) = frames s" "frame_mem (upd_dir d f s) = frame_mem s" "tlb (upd_dir d f s) = tlb s"
  "empty_page0_ptr (upd_dir d f s) = empty_page0_ptr s" "empty_page1_ptr (upd_dir d f s) = empty_page1_ptr s"
  "empty_page0_addr (upd_dir d f s) = empty_page0_addr s" "empty_page1_addr (upd_dir d f s) = empty_page1_addr s"
  "kernel_low_ntable (upd_dir d f s) = kernel_low_ntable s"
  by (simp_all add: upd_dir_def kheap_state.truncate_def ent_def)

section \<open>The heap's page tables\<close>

definition heap_tables :: "'a page_state_scheme \<Rightarrow> bool" where
  "heap_tables s \<longleftrightarrow> (\<forall>i \<in> {unat (drop_bit 22 KERNEL_HEAP_BEGIN)..<unat (drop_bit 22 KERNEL_HEAP_END)}.
     tables (dirs s (current_page_dir s)) i \<noteq> 0)"

lemma tb_idx_div: "tb_idx a = unat a div 2 ^ 22"
  by (simp add: tb_idx_def unat_drop_bit div_mult2_eq [symmetric])

lemma tb_idx_less: "tb_idx a < 1024"
proof -
  have "unat a div 2 ^ 22 < 1024" using unat_lt_2_32 [of a] by (intro less_mult_imp_div_less) simp
  then show ?thesis by (simp add: tb_idx_div)
qed

lemma tb_offset_div: "tb_offset a = unat a div 4096 mod 1024"
proof -
  have "drop_bit 12 a AND 0x3FF = take_bit 10 (drop_bit 12 a)" by (simp add: take_bit_eq_mask mask_eq_exp_minus_1)
  then have "tb_offset a = take_bit 10 (unat (drop_bit 12 a))" by (simp only: tb_offset_def unsigned_take_bit_eq)
  then show ?thesis by (simp add: unat_drop_bit take_bit_eq_mod)
qed

lemma heap_table_of:
  assumes "heap_tables s" "unat KERNEL_HEAP_BEGIN \<le> unat a" "unat a < unat KERNEL_HEAP_END"
  shows "tables (dirs s (current_page_dir s)) (tb_idx a) \<noteq> 0"
proof -
  have "0xEFC00000 div 2 ^ 22 \<le> unat a div (2 ^ 22 :: nat)" using assms(2) unfolding heap_bounds by (rule div_le_mono)
  moreover have "unat a div 2 ^ 22 < (0xFFC00000 div 2 ^ 22 :: nat)"
    using assms(3) unfolding heap_bounds by (intro less_mult_imp_div_less) simp
  ultimately show ?thesis
    using assms(1) by (auto simp: heap_tables_def unat_drop_bit heap_bounds tb_idx_div)
qed

lemma get_page_present:
  "tables (dirs s d) (tb_idx a) \<noteq> 0 \<Longrightarrow> get_page km d a mk s = ret (Some (tables (dirs s d) (tb_idx a), tb_offset a), s)"
  by (simp add: get_page_def)

text \<open>What an interval operation keeps.\<close>

definition same_dirs :: "'a page_state_scheme \<Rightarrow> 'a page_state_scheme \<Rightarrow> bool" where
  "same_dirs s s' \<longleftrightarrow> kheap_state.truncate s' = kheap_state.truncate s \<and> dirs s' = dirs s \<and>
     current_page_dir s' = current_page_dir s"

lemma same_dirs_refl [simp]: "same_dirs s s"
  by (simp add: same_dirs_def)

lemma entry_lazy_alloc_same [simp]: "same_dirs s (entry_lazy_alloc r u w False s)"
  by (simp add: entry_lazy_alloc_def same_dirs_def Let_def)

lemma entry_free_same [simp]: "same_dirs s (entry_free r s)"
  by (simp add: entry_free_def same_dirs_def Let_def kheap_state.truncate_def upd_ent_def)

lemma same_dirs_trans: "same_dirs s s' \<Longrightarrow> same_dirs s' s'' \<Longrightarrow> same_dirs s s''"
  by (simp add: same_dirs_def)

lemma same_dirs_invlpg [simp]: "same_dirs s (invlpg a s') = same_dirs s s'"
  by (simp add: same_dirs_def)

lemma same_dirs_heap_tables: "same_dirs s s' \<Longrightarrow> heap_tables s' = heap_tables s"
  by (simp add: same_dirs_def heap_tables_def)

text \<open>A page of the heap that may be used: it has a frame or gets one when it is touched.\<close>

definition usable :: "entry_ref \<Rightarrow> 'a page_state_scheme \<Rightarrow> bool" where
  "usable r s \<longleftrightarrow> rw (ent r s) \<and> \<not> user (ent r s) \<and> (allocable (ent r s) \<or> addr (ent r s) \<noteq> 0)"

lemma entry_lazy_alloc_usable:
  "usable r (entry_lazy_alloc r False True False s)"
  "usable q s \<Longrightarrow> usable q (entry_lazy_alloc r False True False s)"
  by (auto simp: usable_def entry_lazy_alloc_def Let_def ent_upd_ent)

lemma page_loop_pages:
  assumes inv: "I s" and e: "unat e + 0x1000 \<le> 2 ^ 32" and al: "4096 dvd unat b" "4096 dvd unat e"
    and step: "\<And>i s. I s \<Longrightarrow> b \<le> i \<Longrightarrow> i < e \<Longrightarrow> 4096 dvd unat i \<Longrightarrow> \<exists>s'. f i s = ret s' \<and> I s' \<and> P i s' \<and> (\<forall>j. P j s \<longrightarrow> P j s')"
  shows "\<exists>s'. page_loop f b e s = ret s' \<and> I s' \<and> (\<forall>j. P j s \<longrightarrow> P j s') \<and>
    (\<forall>j. b \<le> j \<and> j < e \<and> 4096 dvd unat j \<longrightarrow> P j s')"
  using assms
proof (induction "unat e - unat b" arbitrary: b s rule: less_induct)
  case less
  show ?case
  proof (cases "b < e")
    case False
    then show ?thesis using less.prems(1) by auto
  next
    case True
    from less.prems(5) [OF less.prems(1) _ True less.prems(3)] obtain s1 where
      s1: "f b s = ret s1" "I s1" "P b s1" "\<forall>j. P j s \<longrightarrow> P j s1" by auto
    have b: "unat (b + 0x1000) = unat b + 0x1000"
      using True less.prems(2) by (intro unat_add [where y = "0x1000", simplified]) (simp add: word_less_nat_alt)
    then have up: "b \<le> b + 0x1000" by (simp add: word_le_nat_alt)
    have "4096 dvd unat (b + 0x1000)" using less.prems(3) by (simp add: b)
    then have "\<exists>s'. page_loop f (b + 0x1000) e s1 = ret s' \<and> I s' \<and> (\<forall>j. P j s1 \<longrightarrow> P j s') \<and>
      (\<forall>j. b + 0x1000 \<le> j \<and> j < e \<and> 4096 dvd unat j \<longrightarrow> P j s')"
      using True b up s1(2) less.prems by (intro less.hyps) (auto simp: word_less_nat_alt intro: order.trans)
    then obtain s' where s': "page_loop f (b + 0x1000) e s1 = ret s'" "I s'" "\<forall>j. P j s1 \<longrightarrow> P j s'"
      "\<forall>j. b + 0x1000 \<le> j \<and> j < e \<and> 4096 dvd unat j \<longrightarrow> P j s'" by blast
    have "P j s'" if j: "b \<le> j" "j < e" "4096 dvd unat j" for j
    proof (cases "b + 0x1000 \<le> j")
      case True
      then show ?thesis using s'(4) j by blast
    next
      case False
      then have "unat b \<le> unat j" "unat j < unat b + 4096" using j(1) b by (simp_all add: word_le_nat_alt)
      then have "unat j = unat b" using j(3) less.prems(3) by (auto elim!: dvdE)
      then have "j = b" by (simp add: word_unat_eq_iff)
      then show ?thesis using s1(3) s'(3) by blast
    qed
    then show ?thesis using True s1 s' by (auto simp: page_loop_step)
  qed
qed

lemma page_loop_marks:
  assumes "I s" "unat e + 0x1000 \<le> 2 ^ 32" "4096 dvd unat b" "4096 dvd unat e"
    and "\<And>i s. I s \<Longrightarrow> b \<le> i \<Longrightarrow> i < e \<Longrightarrow> \<exists>s'. f i s = ret s' \<and> I s' \<and> P i s' \<and> (\<forall>j. P j s \<longrightarrow> P j s')"
  shows "\<exists>s'. page_loop f b e s = ret s' \<and> I s' \<and> (\<forall>j. P j s \<longrightarrow> P j s') \<and>
    (\<forall>j. b \<le> j \<and> j < e \<and> 4096 dvd unat j \<longrightarrow> P j s')"
  using assms(1-4) by (rule page_loop_pages) (use assms(5) in blast)

text \<open>\<^verbatim>\<open>lazy_alloc_interval\<close> on whole pages of the heap returns and makes every page usable.\<close>

lemma lazy_alloc_interval_heap:
  assumes rdy: "heap_tables s" and al: "page_aligned b" "page_aligned e"
    and heap: "unat KERNEL_HEAP_BEGIN \<le> unat b" "unat e \<le> unat KERNEL_HEAP_END"
  shows "\<exists>s'. lazy_alloc_interval km (current_page_dir s) b e False True False s = ret s' \<and> same_dirs s s' \<and>
    (\<forall>j. b \<le> j \<and> j < e \<and> 4096 dvd unat j \<longrightarrow>
      usable (tables (dirs s (current_page_dir s)) (tb_idx j), tb_offset j) s')"
proof -
  let ?d = "current_page_dir s"
  let ?f = "\<lambda>i s. andThen (get_page km ?d i True s) (\<lambda>(r, s). ret (invlpg i (entry_lazy_alloc (page_of r) False True False s)))"
  have step: "\<exists>s2. ?f i s1 = ret s2 \<and> same_dirs s s2 \<and> usable (tables (dirs s ?d) (tb_idx i), tb_offset i) s2 \<and>
      (\<forall>j. usable (tables (dirs s ?d) (tb_idx j), tb_offset j) s1 \<longrightarrow>
        usable (tables (dirs s ?d) (tb_idx j), tb_offset j) s2)"
    if s1: "same_dirs s s1" and i: "b \<le> i" "i < e" for i s1
  proof -
    have "unat KERNEL_HEAP_BEGIN \<le> unat i" "unat i < unat KERNEL_HEAP_END"
      using i heap by (simp_all add: word_le_nat_alt word_less_nat_alt)
    from heap_table_of [OF rdy this] have t: "tables (dirs s1 ?d) (tb_idx i) \<noteq> 0" using s1 by (simp add: same_dirs_def)
    let ?r = "(tables (dirs s ?d) (tb_idx i), tb_offset i)"
    have "?f i s1 = ret (invlpg i (entry_lazy_alloc ?r False True False s1))"
      using s1 by (simp add: get_page_present [OF t] page_of_def same_dirs_def)
    moreover have "same_dirs s (entry_lazy_alloc ?r False True False s1)"
      using s1 entry_lazy_alloc_same by (rule same_dirs_trans)
    moreover have "usable q (invlpg i s2) = usable q s2" for q and s2 :: "'a page_state_scheme"
      by (simp add: usable_def)
    ultimately show ?thesis using entry_lazy_alloc_usable(1) [of ?r s1] entry_lazy_alloc_usable(2) [of _ s1 ?r]
      by (intro exI [of _ "invlpg i (entry_lazy_alloc ?r False True False s1)"]) (simp del: andThen_eq_ret)
  qed
  have e: "unat e + 0x1000 \<le> 2 ^ 32" using heap(2) by (simp add: heap_bounds)
  from page_loop_marks [where I = "same_dirs s" and f = ?f and b = b and e = e and s = s and
      P = "\<lambda>j s1. usable (tables (dirs s ?d) (tb_idx j), tb_offset j) s1", OF same_dirs_refl e _ _ step]
  have "\<exists>s'. page_loop ?f b e s = ret s' \<and> same_dirs s s' \<and>
    (\<forall>j. b \<le> j \<and> j < e \<and> 4096 dvd unat j \<longrightarrow> usable (tables (dirs s ?d) (tb_idx j), tb_offset j) s')"
    using al by (auto simp: page_aligned_iff)
  then show ?thesis using al by (simp add: lazy_alloc_interval_def page_aligned_def)
qed

lemma free_interval_heap:
  assumes al: "page_aligned b" "page_aligned e" and e: "unat e \<le> unat KERNEL_HEAP_END"
  shows "\<exists>s'. free_interval d b e s = ret s' \<and> same_dirs s s'"
proof -
  have "unat e + 0x1000 \<le> 2 ^ 32" using e by (simp add: heap_bounds)
  then have "\<exists>s'. page_loop (\<lambda>i s. case lookup_page d i s of None \<Rightarrow> ret s
      | Some page \<Rightarrow> ret (if present (ent page s) then invlpg i (entry_free page s) else s)) b e s = ret s' \<and> same_dirs s s'"
    by (intro page_loop_invariant) (auto split: option.splits intro: same_dirs_trans [OF _ entry_free_same])
  then show ?thesis using al by (simp add: free_interval_def page_aligned_def)
qed

text \<open>
  What \<^verbatim>\<open>free_interval\<close> does to the entries: only those of the pages of the interval change, and none of these keeps a frame.
\<close>

definition backed :: "entry_ref \<Rightarrow> 'a page_state_scheme \<Rightarrow> bool" where
  "backed q s \<longleftrightarrow> present (ent q s) \<and> addr (ent q s) \<noteq> 0"

lemma entry_free_effect:
  "ent q (entry_free r s) = (if q = r \<and> addr (ent r s) \<noteq> 0 then (ent r s)\<lparr>addr := 0, present := False, allocable := False\<rparr> else ent q s)"
  "frame_mem (entry_free r s) = frame_mem s"
  by (auto simp: entry_free_def Let_def ent_def upd_ent_def prod_eq_iff)

definition interval_freed :: "u32 \<Rightarrow> u32 \<Rightarrow> u32 \<Rightarrow> 'a page_state_scheme \<Rightarrow> 'a page_state_scheme \<Rightarrow> bool" where
  "interval_freed d b e s s' \<longleftrightarrow> same_dirs s s' \<and> frame_mem s' = frame_mem s \<and>
     (\<forall>q. ent q s' \<noteq> ent q s \<longrightarrow> (\<exists>p. page_aligned p \<and> b \<le> p \<and> p < e \<and> lookup_page d p s = Some q))"

lemma free_page_step:
  assumes s1: "interval_freed d b e s s1" and i: "b \<le> i" "i < e" "4096 dvd unat i"
  shows "\<exists>s2. (case lookup_page d i s1 of None \<Rightarrow> ret s1
      | Some page \<Rightarrow> ret (if present (ent page s1) then invlpg i (entry_free page s1) else s1)) = ret s2 \<and>
    interval_freed d b e s s2 \<and> (\<forall>q. lookup_page d i s = Some q \<longrightarrow> \<not> backed q s2) \<and>
    (\<forall>j. (\<forall>q. lookup_page d j s = Some q \<longrightarrow> \<not> backed q s1) \<longrightarrow> (\<forall>q. lookup_page d j s = Some q \<longrightarrow> \<not> backed q s2))"
proof -
  have l: "lookup_page d i s1 = lookup_page d i s" using s1 by (simp add: interval_freed_def same_dirs_def lookup_page_def)
  show ?thesis
  proof (cases "lookup_page d i s")
    case None
    then show ?thesis using s1 l by simp
  next
    case (Some q)
    let ?s2 = "if present (ent q s1) then invlpg i (entry_free q s1) else s1"
    have "same_dirs s s1" using s1 by (simp add: interval_freed_def)
    then have "same_dirs s ?s2" using same_dirs_trans [OF _ entry_free_same, of s s1 q] by simp
    then have "interval_freed d b e s ?s2"
      using s1 i Some by (auto simp: interval_freed_def entry_free_effect page_aligned_iff)
    moreover have "\<not> backed q ?s2" "\<not> backed r s1 \<Longrightarrow> \<not> backed r ?s2" for r
      by (auto simp: backed_def entry_free_effect)
    ultimately show ?thesis using Some l by (intro exI [of _ ?s2]) auto
  qed
qed

lemma free_interval_entries:
  assumes al: "page_aligned b" "page_aligned e" and e: "unat e \<le> unat KERNEL_HEAP_END" and r: "free_interval d b e s = ret s'"
  shows "interval_freed d b e s s'"
    "page_aligned p \<Longrightarrow> b \<le> p \<Longrightarrow> p < e \<Longrightarrow> lookup_page d p s = Some q \<Longrightarrow> \<not> backed q s'"
proof -
  have "unat e + 0x1000 \<le> 2 ^ 32" using e by (simp add: heap_bounds)
  from page_loop_pages [where I = "interval_freed d b e s" and s = s and P = "\<lambda>j s1. \<forall>q. lookup_page d j s = Some q \<longrightarrow> \<not> backed q s1",
      OF _ this al [unfolded page_aligned_iff] free_page_step]
  obtain s2 where s2: "page_loop (\<lambda>i s. case lookup_page d i s of None \<Rightarrow> ret s
      | Some page \<Rightarrow> ret (if present (ent page s) then invlpg i (entry_free page s) else s)) b e s = ret s2"
    "interval_freed d b e s s2" "\<forall>j. b \<le> j \<and> j < e \<and> 4096 dvd unat j \<longrightarrow> (\<forall>q. lookup_page d j s = Some q \<longrightarrow> \<not> backed q s2)"
    by (auto simp: interval_freed_def)
  have "s2 = s'" using r s2(1) al by (simp add: free_interval_def page_aligned_def)
  then have "interval_freed d b e s s' \<and> (\<forall>j. b \<le> j \<and> j < e \<and> page_aligned j \<longrightarrow> (\<forall>q. lookup_page d j s = Some q \<longrightarrow> \<not> backed q s'))"
    using s2(2,3) by (simp add: page_aligned_iff)
  then show "interval_freed d b e s s'"
    "page_aligned p \<Longrightarrow> b \<le> p \<Longrightarrow> p < e \<Longrightarrow> lookup_page d p s = Some q \<Longrightarrow> \<not> backed q s'" by blast+
qed

interpretation pages: heap_pages
  "\<lambda>b e usr writable fill s. lazy_alloc_interval km (current_page_dir s) b e usr writable fill s"
  "\<lambda>b e s. free_interval (current_page_dir s) b e s" heap_tables for km
proof
  show "\<exists>s'. lazy_alloc_interval km (current_page_dir s) b e False True False s = ret s' \<and> heap_tables s' \<and>
      kheap_state.truncate s' = kheap_state.truncate s"
    if "heap_tables s" "page_aligned b" "page_aligned e" "unat KERNEL_HEAP_BEGIN \<le> unat b"
      "unat e \<le> unat KERNEL_HEAP_END" for s b e
    using lazy_alloc_interval_heap [OF that, of km] that(1) same_dirs_heap_tables same_dirs_def by blast
  show "\<exists>s'. free_interval (current_page_dir s) b e s = ret s' \<and> heap_tables s' \<and>
      kheap_state.truncate s' = kheap_state.truncate s"
    if "heap_tables s" "page_aligned b" "page_aligned e" "unat KERNEL_HEAP_BEGIN \<le> unat b"
      "unat e \<le> unat KERNEL_HEAP_END" for s b e
    using free_interval_heap [OF that(2,3,5), of "current_page_dir s" s] that(1) same_dirs_heap_tables same_dirs_def by blast
  show "heap_tables s'" if "kheap_state.more s' = kheap_state.more s" "heap_tables s" for s s'
    using that by (cases s, cases s') (simp add: heap_tables_def)
qed

end
