(* ===== verification/Heap_Thms.thy ===== *)
theory Heap_Thms
  imports Page_Heap
begin

text \<open>
  The properties of the kernel heap over the page tables it really uses: initialization,
  allocation, release, and their round trip, with a concrete heap on which each applies.
\<close>

section \<open>A concrete heap\<close>

text \<open>The whole heap as one free block, in one-node trees.\<close>

definition whole_heap :: Block_t where
  "whole_heap = \<lparr>start = KERNEL_HEAP_BEGIN, bsize = KERNEL_HEAP_END - KERNEL_HEAP_BEGIN\<rparr>"

definition one_node :: "u32 \<Rightarrow> u32 \<Rightarrow> Block_t \<Rightarrow> Block_t Rbt" where
  "one_node nil a k = \<lparr>NIL = nil, tree_root = a,
     node = (\<lambda>x. if x = a then \<lparr>par_and_color = nil OR 1, ch0 = nil, ch1 = nil, key = k\<rparr>
                 else \<lparr>par_and_color = nil OR 1, ch0 = nil, ch1 = nil, key = k\<rparr>)\<rparr>"

lemma one_node_ok:
  assumes "even_addr nil" "even_addr a" "a \<noteq> nil" "a \<noteq> 0"
  shows "rbt_ok lt (one_node nil a k) (Nd Lf a Black k Lf)"
proof -
  have "(nil OR 1) AND NOT 1 = nil" using and_not_1_eq [OF assms(1)] by (simp add: bit.conj_disj_distrib2)
  then show ?thesis using assms
    by (simp add: rbt_ok_def rep_def rb_def one_node_def ordered_def is_node_def get_par_def is_black_def
        bit.conj_disj_distrib2)
qed

lemma NIL_one_node [simp]: "NIL (one_node nil a k) = nil"
  by (simp add: one_node_def)

definition fresh_heap :: page_state where
  "fresh_heap =
     \<lparr>kheap_finish_init_called = True, kheap_static_end = 0x200000, USER_MEM_LOW = 0x400000,
      USER_MEM_HIGH = KERNEL_HEAP_BEGIN - 1,
      mm = \<lparr>static_mem = 0x100000, freed = (\<lambda>_. 0), nstatic_mem = 40, nfreed = 0\<rparr>,
      tree_size = one_node 0x180000 0x100000 whole_heap, tree_start = one_node 0x180020 0x100014 whole_heap,
      kmem = (\<lambda>_. 0),
      current_page_dir = 0x150000,
      dirs = (\<lambda>_. \<lparr>tables = (\<lambda>i. if i < 1024 then 0x160000 + of_nat i * 0x1000 else 0), dentries = (\<lambda>_. zero_dentry), phyaddr = 0x150000\<rparr>),
      tabs = (\<lambda>_. zero_table), frames = (\<lambda>_. 0), nframes = 0, frame_ref_cnt = (\<lambda>_. 0),
      empty_page0_addr = 0, empty_page1_addr = 0, kernel_low_ntable = 1, empty_page0_ptr = (0, 0),
      empty_page1_ptr = (0, 0), init_finished = True, frame_mem = (\<lambda>_ _. 0), tlb = Map.empty,
      cr3 = 0x150000, paging_on = True\<rparr>"

lemma fresh_mm: "mm_inv (mm fresh_heap)" "mm_in_use (mm fresh_heap) = {0x100000, 0x100014}"
proof -
  have two: "{..<2} = {0, 1 :: nat}" by auto
  show "mm_inv (mm fresh_heap)" by (simp add: fresh_heap_def mm_inv_def mm_freed_def mm_sizes even_addr_def)
  show "mm_in_use (mm fresh_heap) = {0x100000, 0x100014}"
    by (simp add: fresh_heap_def mm_in_use_def mm_given_def mm_freed_def mm_node_def mm_sizes two)
qed

lemma fresh_pool: "a \<in> mm_pool (mm fresh_heap) \<Longrightarrow> unat a < 0x106000"
proof -
  assume "a \<in> mm_pool (mm fresh_heap)"
  then obtain i where i: "a = mm_node (mm fresh_heap) i" "i < STATIC_SIZE" by (auto simp: mm_pool_def)
  have "unat a = unat (static_mem (mm fresh_heap)) + 20 * i"
    unfolding i(1) by (rule unat_mm_node [OF fresh_mm(1) i(2)])
  moreover have "unat (static_mem (mm fresh_heap)) = 0x100000" by (simp add: fresh_heap_def)
  ultimately show ?thesis using i(2) by (simp add: STATIC_SIZE_def)
qed

lemma fresh_trees: "trees fresh_heap {whole_heap} {whole_heap}"
proof -
  let ?t = "Nd Lf 0x100000 Black whole_heap Lf" and ?u = "Nd Lf 0x100014 Black whole_heap Lf"
  have nil: "0x180000 \<notin> mm_pool (mm fresh_heap)" "0x180020 \<notin> mm_pool (mm fresh_heap)"
    using fresh_pool [of "0x180000"] fresh_pool [of "0x180020"] by auto
  have sel: "tree_size fresh_heap = one_node 0x180000 0x100000 whole_heap"
    "tree_start fresh_heap = one_node 0x180020 0x100014 whole_heap" by (simp_all add: fresh_heap_def)
  have "by_size.owned (tree_size fresh_heap) (mm fresh_heap) ?t"
    unfolding by_size.owned_def sel using fresh_mm nil by (auto intro: one_node_ok simp: even_addr_def)
  moreover have "by_start.owned (tree_start fresh_heap) (mm fresh_heap) ?u"
    unfolding by_start.owned_def sel using fresh_mm nil by (auto intro: one_node_ok simp: even_addr_def)
  ultimately show ?thesis by (rule treesI) (auto simp: fresh_mm)
qed

lemma whole_heap_space:
  "lo whole_heap = unat KERNEL_HEAP_BEGIN" "hi whole_heap = unat KERNEL_HEAP_END" "in_heap whole_heap"
  by (simp_all add: whole_heap_def in_heap_def KERNEL_HEAP_BEGIN_val KERNEL_HEAP_END_val)

lemma fresh_table: "i < 1024 \<Longrightarrow> unat (tables (dirs fresh_heap (current_page_dir fresh_heap)) i) = 0x160000 + i * 4096"
  by (simp add: fresh_heap_def unat_word_ariths unat_of_nat)

lemma fresh_inv: "heap_inv fresh_heap {whole_heap} Map.empty" and fresh_tables: "heap_tables fresh_heap"
proof -
  have "kheap_finish_init_called fresh_heap" by (simp add: fresh_heap_def)
  then show "heap_inv fresh_heap {whole_heap} Map.empty"
    using fresh_trees by (simp add: heap_inv_def heap_free_def whole_heap_space live_ok_def free_space_def space_def)
  show "heap_tables fresh_heap" using fresh_table by (auto simp: heap_tables_def heap_bounds unat_drop_bit word_unat_eq_iff)
qed

section \<open>Allocation\<close>

text \<open>A heap from which only \<open>N\<close> small blocks were taken has room for another one.\<close>

definition roomy :: "Block_t set \<Rightarrow> nat \<Rightarrow> bool" where
  "roomy F N \<longleftrightarrow> card F \<le> N + 1 \<and> 0x10000000 \<le> card (free_space F) + N * 0x4000"

lemma roomy_fits:
  assumes F: "finite F" "heap_free F" "roomy F N" and N: "N \<le> 100" and sz: "unat sz \<le> 8192" "p \<le> 12"
  shows "\<exists>b \<in> F. fits sz p b"
proof (rule ccontr)
  assume none: "\<not> (\<exists>b \<in> F. fits sz p b)"
  have small: "card (space b) \<le> 12296" if "b \<in> F" for b
  proof (rule ccontr)
    assume "\<not> card (space b) \<le> 12296"
    then have big: "12296 < hi b - lo b" by (simp add: space_def)
    have "in_heap b" using F(2) that by (simp add: heap_free_def)
    then have "unat (offered p b) < lo b + 8 + 2 ^ p" using sz(2) by (intro offered_bounds) simp_all
    moreover have "(2 :: nat) ^ p \<le> 2 ^ 12" using sz(2) by (rule power_increasing) simp
    ultimately have "unat (offered p b) + unat sz \<le> hi b" using big sz(1) by simp
    then show False using none that by (auto simp: fits_def)
  qed
  have "card (free_space F) \<le> (\<Sum>b \<in> F. card (space b))" unfolding free_space_def by (rule card_UN_le [OF F(1)])
  also have "\<dots> \<le> card F * 12296" using sum_bounded_above [of F "\<lambda>b. card (space b)" 12296] small by simp
  also have "\<dots> \<le> 101 * 12296" using F(3) N by (intro mult_le_mono1) (simp add: roomy_def)
  finally show False using F(3) N by (simp add: roomy_def)
qed

lemma roomy_whole: "roomy {whole_heap} 0"
  by (simp add: roomy_def free_space_def space_def whole_heap_space heap_bounds)

lemma kmalloc_at_Suc:
  "kmalloc_at (Suc n) sz p s = kmalloc (\<lambda>b e usr writable fill s.
     lazy_alloc_interval (kmalloc_at n) (current_page_dir s) b e usr writable fill s) sz p s"
  by simp

text \<open>
  C3: with the heap invariant, \<^verbatim>\<open>kmalloc\<close> always returns or panics. It panics only when
  no free block can hold the request at its alignment, or when the 1023 tree nodes are used
  up. Otherwise the address is aligned, the 8-byte header before it and the requested bytes
  lie in one block cut out of free space (at most 40 bytes more than requested), the
  invariant holds with exactly that block added to the allocated ones, and no other byte of
  memory changed.
\<close>

theorem kmalloc_sound:
  assumes "heap_inv s F A" "heap_tables s" "p \<le> 22" "unat sz + 8 < 2 ^ 32"
  shows "kmalloc_at (Suc n) sz p s = halt no_memory \<and> (\<forall>b \<in> F. \<not> fits sz p b) \<or>
    kmalloc_at (Suc n) sz p s = halt nodes_full \<and> max_nodes \<le> 2 * card F + 1 \<or>
    (\<exists>a s' F' blk. kmalloc_at (Suc n) sz p s = ret (a, s') \<and> heap_tables s' \<and>
      allocated s F A sz p a s' F' blk)"
  using pages.kmalloc_correct [OF assms, of "kmalloc_at n"] unfolding kmalloc_at_Suc by blast

lemma fresh_fits: "fits 100 12 whole_heap"
proof -
  have "unat (offered 12 whole_heap) < lo whole_heap + 8 + 2 ^ 12"
    by (rule offered_bounds [OF whole_heap_space(3)]) simp
  then show ?thesis by (simp add: fits_def whole_heap_space heap_bounds)
qed

theorem kmalloc_sound_witness:
  "\<exists>a s' F' blk. kmalloc_at 1 100 12 fresh_heap = ret (a, s') \<and> heap_tables s' \<and>
    allocated fresh_heap {whole_heap} Map.empty 100 12 a s' F' blk"
  using kmalloc_sound [OF fresh_inv fresh_tables, of 12 100 0] fresh_fits
  by (simp add: max_nodes_def STATIC_SIZE_def del: kmalloc_at.simps)

text \<open>The page of an address has the same table entry as the address.\<close>

lemma tb_idx_page: "tb_idx (a AND 0xFFFFF000) = tb_idx a"
proof -
  have "unat a div 4096 * 4096 div 2 ^ 22 = unat a div 2 ^ 22"
    using div_mult2_eq [of "unat a div 4096 * 4096" 4096 1024] div_mult2_eq [of "unat a" 4096 1024] by simp
  then show ?thesis by (simp only: tb_idx_div unat_and_page_mask)
qed

lemma tb_offset_page: "tb_offset (a AND 0xFFFFF000) = tb_offset a"
proof -
  have "drop_bit 12 (a AND 0xFFFFF000) = drop_bit 12 a"
    unfolding and_page_mask by (rule bit_eqI) (auto simp: bit_simps dest: bit_imp_le_length)
  then show ?thesis by (simp add: tb_offset_def)
qed

lemma kmalloc_pages:
  assumes "heap_inv s F A" "heap_tables s" "p \<le> 22" "unat sz + 8 < 2 ^ 32"
    and "kmalloc_at (Suc n) sz p s = ret (a, s')"
  shows "\<forall>x :: u32. unat a - 8 \<le> unat x \<and> unat x < unat a + unat sz \<longrightarrow>
    (\<exists>r. lookup_page (current_page_dir s') x s' = Some r \<and> usable r s')"
proof (intro allI impI)
  fix x :: u32
  assume x: "unat a - 8 \<le> unat x \<and> unat x < unat a + unat sz"
  from pages.kmalloc_correct [OF assms(1-4), of "kmalloc_at n"] assms(5)
  obtain b e s1 s2 where s1: "heap_tables s1" "heap_span b e a sz"
    and lazy: "lazy_alloc_interval (kmalloc_at n) (current_page_dir s1) b e False True False s1 = ret s2"
    and more: "kheap_state.more s' = kheap_state.more s2" unfolding kmalloc_at_Suc by auto
  have sp: "page_aligned b" "page_aligned e" "unat KERNEL_HEAP_BEGIN \<le> unat b" "unat e \<le> unat KERNEL_HEAP_END"
    "unat b \<le> unat a - 8" "unat a + unat sz \<le> unat e" using s1(2) by (auto simp: heap_span_def)
  let ?j = "x AND 0xFFFFF000"
  let ?r = "(tables (dirs s1 (current_page_dir s1)) (tb_idx x), tb_offset x)"
  from lazy_alloc_interval_heap [OF s1(1) sp(1-4), of "kmalloc_at n"] lazy
  have same: "same_dirs s1 s2" and use: "\<forall>j. b \<le> j \<and> j < e \<and> 4096 dvd unat j \<longrightarrow>
      usable (tables (dirs s1 (current_page_dir s1)) (tb_idx j), tb_offset j) s2" by auto
  have "unat b div 4096 * 4096 \<le> unat x div 4096 * 4096" using x sp(5) by (intro mult_le_mono1 div_le_mono) simp
  moreover have "unat b div 4096 * 4096 = unat b" using sp(1) unfolding page_aligned_iff by (rule dvd_div_mult_self)
  ultimately have "unat b \<le> unat ?j" by (simp only: unat_and_page_mask)
  moreover have "unat ?j \<le> unat x" by (simp add: unat_and_page_mask)
  ultimately have "unat b \<le> unat ?j" "unat ?j < unat e" using x sp(6) by linarith+
  then have j: "b \<le> ?j" "?j < e" unfolding word_le_nat_alt word_less_nat_alt .
  have al: "4096 dvd unat ?j" by (simp add: unat_and_page_mask)
  have "usable ?r s2" using use j al tb_idx_page [of x] tb_offset_page [of x] by metis
  then have "usable ?r s'" using more by (cases s', cases s2) (simp add: usable_def ent_def)
  moreover have "unat KERNEL_HEAP_BEGIN \<le> unat x" "unat x < unat KERNEL_HEAP_END" using x sp by linarith+
  then have "lookup_page (current_page_dir s1) x s1 = Some ?r"
    using heap_table_of [OF s1(1)] by (simp add: lookup_page_def)
  then have "lookup_page (current_page_dir s') x s' = Some ?r"
    using same more by (cases s', cases s2) (simp add: lookup_page_def same_dirs_def)
  ultimately show "\<exists>r. lookup_page (current_page_dir s') x s' = Some r \<and> usable r s'" by blast
qed

text \<open>
  C18: every byte \<^verbatim>\<open>kmalloc\<close> hands out, and its header, lies in a kernel page that is
  writable and either has a frame or is marked for allocation on first use, so that touching
  it never ends in a fatal page fault.
\<close>

theorem kmalloc_usable:
  assumes "heap_inv s F A" "heap_tables s" "p \<le> 22" "unat sz + 8 < 2 ^ 32"
    and "kmalloc_at (Suc n) sz p s = ret (a, s')"
  shows "\<forall>x :: u32. unat a - 8 \<le> unat x \<and> unat x < unat a + unat sz \<longrightarrow>
    (\<exists>r. lookup_page (current_page_dir s') x s' = Some r \<and> usable r s')"
  using assms by (rule kmalloc_pages)

theorem kmalloc_usable_witness:
  "\<exists>a s'. kmalloc_at 1 100 12 fresh_heap = ret (a, s') \<and>
    (\<forall>x :: u32. unat a - 8 \<le> unat x \<and> unat x < unat a + unat (100 :: u32) \<longrightarrow>
      (\<exists>r. lookup_page (current_page_dir s') x s' = Some r \<and> usable r s'))"
proof -
  from pages.kmalloc_correct [OF fresh_inv fresh_tables, of 12 100 "kmalloc_at 0"] fresh_fits
  obtain a s' where r: "kmalloc_at (Suc 0) 100 12 fresh_heap = ret (a, s')"
    by (auto simp: max_nodes_def STATIC_SIZE_def)
  show ?thesis
    using kmalloc_usable [OF fresh_inv fresh_tables _ _ r] r by (intro exI [of _ a] exI [of _ s']) simp
qed

section \<open>Release\<close>

text \<open>The entry of the current directory's tables that maps the page of \<open>x\<close>.\<close>

definition entry_at :: "u32 \<Rightarrow> 'a page_state_scheme \<Rightarrow> entry_ref" where
  "entry_at x s = (tables (dirs s (current_page_dir s)) (tb_idx x), tb_offset x)"

lemma lookup_entry_at: "lookup_page (current_page_dir s) p s = Some q \<longleftrightarrow> fst q \<noteq> 0 \<and> q = entry_at p s"
  by (auto simp: lookup_page_def entry_at_def Let_def)

text \<open>
  What a release does to the page tables: an entry changes only when its page lies entirely in the free space \<open>F'\<close> there is
  afterwards, and every page that lies entirely in the released block has lost its frame.
\<close>

definition pages_released :: "Block_t \<Rightarrow> Block_t set \<Rightarrow> 'a page_state_scheme \<Rightarrow> 'a page_state_scheme \<Rightarrow> bool" where
  "pages_released blk F' s s' \<longleftrightarrow> dirs s' = dirs s \<and> current_page_dir s' = current_page_dir s \<and> frame_mem s' = frame_mem s \<and>
     (\<forall>q. ent q s' \<noteq> ent q s \<longrightarrow> (\<exists>p. page_aligned p \<and> {unat p..<unat p + 4096} \<subseteq> free_space F' \<and> q = entry_at p s \<and> fst q \<noteq> 0)) \<and>
     (\<forall>p. page_aligned p \<and> {unat p..<unat p + 4096} \<subseteq> space blk \<longrightarrow> fst (entry_at p s) \<noteq> 0 \<longrightarrow> \<not> backed (entry_at p s) s')"

lemma interval_pages_released:
  assumes r: "freed_range blk F' b e" "free_interval (current_page_dir s1) b e s1 = ret s'" and more: "kheap_state.more s1 = kheap_state.more s"
  shows "pages_released blk F' s s'"
proof -
  from r(1) have al: "page_aligned b" "page_aligned e" "unat e \<le> unat KERNEL_HEAP_END" "{unat b..<unat e} \<subseteq> free_space F'"
    and in_blk: "page_aligned p \<Longrightarrow> lo blk \<le> unat p \<Longrightarrow> unat p + 4096 \<le> hi blk \<Longrightarrow> b \<le> p \<and> p < e" for p
    by (auto simp: freed_range_def)
  note fr = free_interval_entries [OF al(1-3) r(2)]
  have same: "dirs s1 = dirs s" "current_page_dir s1 = current_page_dir s" "frame_mem s1 = frame_mem s" "ent q s1 = ent q s"
    "lookup_page d p s1 = lookup_page d p s" for q p d
    using more by (cases s1, cases s, simp add: ent_def lookup_page_def)+
  have sub: "{unat p..<unat p + 4096} \<subseteq> free_space F'" if p: "page_aligned p" "b \<le> p" "p < e" for p
  proof -
    have "unat p + 4096 \<le> unat e" using p(1,3) al(2) by (auto simp: page_aligned_iff word_less_nat_alt elim!: dvdE)
    then show ?thesis using p(2) al(4) by (auto simp: word_le_nat_alt subset_iff)
  qed
  have "b \<le> p \<and> p < e" if "page_aligned p" "{unat p..<unat p + 4096} \<subseteq> space blk" for p
    using that by (intro in_blk) (auto simp: space_def)
  then have "\<not> backed (entry_at p s) s'" if "page_aligned p" "{unat p..<unat p + 4096} \<subseteq> space blk" "fst (entry_at p s) \<noteq> 0" for p
    using fr(2) [of p "entry_at p s"] that by (simp add: same lookup_entry_at)
  moreover have "\<exists>p. page_aligned p \<and> {unat p..<unat p + 4096} \<subseteq> free_space F' \<and> q = entry_at p s \<and> fst q \<noteq> 0" if "ent q s' \<noteq> ent q s" for q
  proof -
    from fr(1) that obtain p where "page_aligned p" "b \<le> p" "p < e" "lookup_page (current_page_dir s) p s = Some q"
      unfolding interval_freed_def same by blast
    then show ?thesis using sub unfolding lookup_entry_at by blast
  qed
  ultimately show ?thesis using fr(1) by (simp add: pages_released_def interval_freed_def same_dirs_def same)
qed

text \<open>When no two entries of the directory share a table, nothing a live block lies in changes.\<close>

definition own_tables :: "'a page_state_scheme \<Rightarrow> bool" where
  "own_tables s \<longleftrightarrow> inj_on (tables (dirs s (current_page_dir s))) {i. i < 1024 \<and> tables (dirs s (current_page_dir s)) i \<noteq> 0}"

lemma released_keeps_live:
  assumes rel: "pages_released blk F' s s'" and inv: "heap_inv s' F' A" and c: "c \<in> ran A" "unat x \<in> space c"
    and inj: "own_tables s"
  shows "ent (entry_at x s) s' = ent (entry_at x s) s"
proof (rule ccontr)
  assume "\<not> ?thesis"
  with rel obtain p where p: "page_aligned p" "{unat p..<unat p + 4096} \<subseteq> free_space F'" "entry_at x s = entry_at p s" "fst (entry_at x s) \<noteq> 0"
    unfolding pages_released_def by blast
  then have "tb_idx x = tb_idx p" "tb_offset x = tb_offset p" using inj tb_idx_less by (auto simp: entry_at_def own_tables_def dest: inj_onD)
  then have "unat x div 4096 div 1024 = unat p div 4096 div 1024" "unat x div 4096 mod 1024 = unat p div 4096 mod 1024"
    by (simp_all add: tb_idx_div tb_offset_div div_mult2_eq [symmetric])
  then have "unat x div 4096 = unat p div 4096" by (metis div_mod_decomp)
  moreover have "unat p = unat p div 4096 * 4096" using p(1) by (simp add: page_aligned_iff)
  ultimately have "unat x \<in> free_space F'" using p(2) by (intro subsetD [OF p(2)]) auto
  moreover have "space c \<inter> free_space F' = {}" using inv c(1) by (auto simp: heap_inv_def ran_def dest: liveD(5))
  ultimately show False using c(2) by blast
qed

text \<open>
  C4: with the heap invariant, \<^verbatim>\<open>kfree\<close> of an allocated address returns unless the tree
  nodes are used up; it never takes one of its own "invalid memory" panics. The block is added
  to the free space, merged with its neighbours (the invariant keeps free blocks apart). In the page tables
  only entries of pages that are now entirely free change, the pages inside the block have lost their frames, no frame is written, and,
  when the directory's tables are distinct, the page of every byte of every remaining allocation is mapped as before.
\<close>

theorem kfree_sound:
  assumes "heap_inv s F A" "heap_tables s" "A a = Some blk"
  shows "kfree_here a s = halt nodes_full \<and> max_nodes \<le> 2 * card F + 1 \<or>
    (\<exists>s' F'. kfree_here a s = ret s' \<and> heap_tables s' \<and> released s F A a blk s' F' \<and> pages_released blk F' s s' \<and>
      (own_tables s \<longrightarrow>
        (\<forall>c \<in> ran (A(a := None)). \<forall>x. unat x \<in> space c \<longrightarrow> ent (entry_at x s) s' = ent (entry_at x s) s)))"
proof -
  from pages.kfree_correct [OF assms] consider "kfree_here a s = halt nodes_full" "max_nodes \<le> 2 * card F + 1"
    | b e s1 s' F' where "kfree_here a s = ret s'" "free_interval (current_page_dir s1) b e s1 = ret s'" "kheap_state.more s1 = kheap_state.more s"
      "freed_range blk F' b e" "heap_tables s'" "released s F A a blk s' F'" unfolding kfree_here_def by blast
  then show ?thesis
  proof cases
    case 2
    note rel = interval_pages_released [OF 2(4,2,3)]
    moreover have "heap_inv s' F' (A(a := None))" using 2(6) by (simp add: released_def)
    ultimately show ?thesis using 2 released_keeps_live [OF rel] by blast
  qed blast
qed

text \<open>The states after one and after two allocations, for the instances below.\<close>

lemma one_allocation:
  obtains a s' F' blk where "kmalloc_at (Suc 0) 100 12 fresh_heap = ret (a, s')" "heap_tables s'"
    "allocated fresh_heap {whole_heap} Map.empty 100 12 a s' F' blk"
proof -
  from pages.kmalloc_correct [OF fresh_inv fresh_tables, of 12 100 "kmalloc_at 0"] fresh_fits that
  show thesis by (auto simp: max_nodes_def STATIC_SIZE_def)
qed

lemma allocated_roomy:
  assumes "allocated s F A sz p a s' F' blk" "roomy F N" "unat sz \<le> 8192"
  shows "roomy F' (Suc N)"
proof -
  have al: "free_space F' = free_space F - space blk" "space blk \<subseteq> free_space F" "hi blk - lo blk \<le> unat sz + 40" "card F' \<le> card F + 1"
    using assms(1) by (simp_all add: allocated_def)
  have "card (free_space F') = card (free_space F) - card (space blk)" unfolding al(1)
    using al(2) by (intro card_Diff_subset) (auto simp: space_def)
  moreover have "card (space blk) \<le> 8232" using al(3) assms(3) by (simp add: space_def)
  ultimately show ?thesis using assms(2) al(4) unfolding roomy_def by (intro conjI) auto
qed

lemma kmalloc_keeps_dirs:
  fixes s :: page_state
  assumes "heap_inv s F A" "heap_tables s" "p \<le> 22" "unat sz + 8 < 2 ^ 32" "kmalloc_at (Suc n) sz p s = ret (a, s')"
  shows "dirs s' = dirs s \<and> current_page_dir s' = current_page_dir s"
proof -
  from pages.kmalloc_correct [OF assms(1-4), of "kmalloc_at n"] assms(5)
  obtain b e s1 s2 where s1: "heap_tables s1" "heap_span b e a sz"
    and lazy: "lazy_alloc_interval (kmalloc_at n) (current_page_dir s1) b e False True False s1 = ret s2"
    and more: "kheap_state.more s' = kheap_state.more s2" "kheap_state.more s1 = kheap_state.more s" unfolding kmalloc_at_Suc by auto
  have "page_aligned b" "page_aligned e" "unat KERNEL_HEAP_BEGIN \<le> unat b" "unat e \<le> unat KERNEL_HEAP_END"
    using s1(2) by (simp_all add: heap_span_def)
  from lazy_alloc_interval_heap [OF s1(1) this, of "kmalloc_at n"] lazy have "same_dirs s1 s2" by auto
  then have d12: "dirs s2 = dirs s1" "current_page_dir s2 = current_page_dir s1" unfolding same_dirs_def by blast+
  have d: "dirs x = dirs y \<and> current_page_dir x = current_page_dir y" if "kheap_state.more x = kheap_state.more y" for x y :: page_state
    using that by (cases x, cases y) simp
  show ?thesis using d [OF more(1)] d [OF more(2)] d12 by simp
qed

lemma fresh_own_tables: "own_tables fresh_heap"
proof -
  have "i = j" if "i < 1024" "j < 1024" "tables (dirs fresh_heap (current_page_dir fresh_heap)) i = tables (dirs fresh_heap (current_page_dir fresh_heap)) j" for i j
  proof -
    have "0x160000 + i * 4096 = 0x160000 + j * (4096 :: nat)"
      unfolding fresh_table [OF that(1), symmetric] fresh_table [OF that(2), symmetric] that(3) ..
    then show ?thesis by simp
  qed
  then show ?thesis by (auto simp: own_tables_def inj_on_def)
qed

lemma two_allocations:
  obtains a b s1 s F blk blk' where "kmalloc_at (Suc 0) 100 12 fresh_heap = ret (a, s1)" "kmalloc_at (Suc 0) 200 12 s1 = ret (b, s)"
    "heap_tables s" "heap_inv s F [a \<mapsto> blk, b \<mapsto> blk']" "a \<noteq> b" "2 * card F + 1 < max_nodes" "own_tables s"
proof -
  from one_allocation obtain a s1 F1 blk where s1: "kmalloc_at (Suc 0) 100 12 fresh_heap = ret (a, s1)" "heap_tables s1"
    "allocated fresh_heap {whole_heap} Map.empty 100 12 a s1 F1 blk" .
  then have inv: "heap_inv s1 F1 [a \<mapsto> blk]" and room: "roomy F1 1" using allocated_roomy [OF s1(3) roomy_whole] by (simp_all add: allocated_def)
  then obtain c where "c \<in> F1" "fits 200 12 c" using roomy_fits [of F1 1 200 12] by (auto simp: heap_inv_def trees_def)
  with pages.kmalloc_correct [OF inv s1(2), of 12 200 "kmalloc_at 0"] room obtain b s F blk' where
    s: "kmalloc_at (Suc 0) 200 12 s1 = ret (b, s)" "heap_tables s" "allocated s1 F1 [a \<mapsto> blk] 200 12 b s F blk'"
    by (auto simp: max_nodes_def STATIC_SIZE_def roomy_def)
  have "roomy F (Suc 1)" by (rule allocated_roomy [OF s(3) room]) simp
  then have "roomy F 2" by (simp only: Suc_1)
  have "own_tables s" using fresh_own_tables kmalloc_keeps_dirs [OF fresh_inv fresh_tables _ _ s1(1)] kmalloc_keeps_dirs [OF inv s1(2) _ _ s(1)]
    by (simp add: own_tables_def)
  then show thesis using that [OF s1(1) s(1,2)] s(3) \<open>roomy F 2\<close> by (auto simp: allocated_def roomy_def max_nodes_def STATIC_SIZE_def split: if_splits)
qed

theorem kfree_sound_witness:
  "\<exists>a b s1 s s' F' blk blk'. kmalloc_at 1 100 12 fresh_heap = ret (a, s1) \<and> kmalloc_at 1 200 12 s1 = ret (b, s) \<and> kfree_here a s = ret s' \<and>
    heap_inv s' F' [b \<mapsto> blk'] \<and> pages_released blk F' s s' \<and> (\<forall>x. unat x \<in> space blk' \<longrightarrow> ent (entry_at x s) s' = ent (entry_at x s) s)"
proof -
  from two_allocations obtain a b s1 s F blk blk' where r: "kmalloc_at (Suc 0) 100 12 fresh_heap = ret (a, s1)" "kmalloc_at (Suc 0) 200 12 s1 = ret (b, s)"
    "heap_tables s" "heap_inv s F [a \<mapsto> blk, b \<mapsto> blk']" "a \<noteq> b" "2 * card F + 1 < max_nodes" "own_tables s" .
  have A: "[a \<mapsto> blk, b \<mapsto> blk'](a := None) = [b \<mapsto> blk']" using r(5) by (auto simp: fun_eq_iff)
  have "[a \<mapsto> blk, b \<mapsto> blk'] a = Some blk" using r(5) by simp
  from kfree_sound [OF r(4,3) this] r(6,7) obtain s' F' where "kfree_here a s = ret s'"
    "released s F [a \<mapsto> blk, b \<mapsto> blk'] a blk s' F'" "pages_released blk F' s s'"
    "\<forall>c \<in> ran [b \<mapsto> blk']. \<forall>x. unat x \<in> space c \<longrightarrow> ent (entry_at x s) s' = ent (entry_at x s) s"
    unfolding A by (auto simp del: fun_upd_apply)
  with r(1,2) A show ?thesis unfolding released_def One_nat_def A by (metis ran_map_upd ranI fun_upd_same)
qed

text \<open>
  C17: allocating and releasing gives back exactly the heap there was: the same set of free
  blocks in both trees and the same allocations, however the block was cut and merged.
\<close>

theorem kmalloc_kfree_roundtrip:
  assumes "heap_inv s F A" "heap_tables s" "p \<le> 22" "unat sz + 8 < 2 ^ 32" "2 * card F + 3 < max_nodes"
    and "kmalloc_at (Suc n) sz p s = ret (a, s')"
  shows "\<exists>s''. kfree_here a s' = ret s'' \<and> heap_inv s'' F A \<and> heap_tables s''"
proof -
  from pages.kmalloc_correct [OF assms(1-4), of "kmalloc_at n"] assms(6) obtain F' blk where
    s': "heap_tables s'" "allocated s F A sz p a s' F' blk" unfolding kmalloc_at_Suc by auto
  then have inv: "heap_inv s' F' (A(a \<mapsto> blk))" "A a = None" "card F' \<le> card F + 1"
    "space blk \<subseteq> free_space F" "free_space F' = free_space F - space blk" by (auto simp: allocated_def)
  have "(A(a \<mapsto> blk)) a = Some blk" by simp
  from pages.kfree_correct [OF inv(1) s'(1) this] inv(3) assms(5) obtain s'' F'' where
    s'': "kfree_here a s' = ret s''" "heap_tables s''" "released s' F' (A(a \<mapsto> blk)) a blk s'' F''"
    unfolding kfree_here_def by (auto simp del: fun_upd_apply)
  have "(A(a \<mapsto> blk))(a := None) = A" using inv(2) by (auto simp: fun_upd_def)
  then have r: "heap_inv s'' F'' A" "free_space F'' = free_space F" using s''(3) inv(4,5) by (auto simp: released_def)
  have "F'' = F" using r assms(1) by (intro heap_free_unique) (auto simp: heap_inv_def)
  with r s'' show ?thesis by blast
qed

theorem kmalloc_kfree_roundtrip_witness:
  "\<exists>a s' s''. kmalloc_at 1 100 12 fresh_heap = ret (a, s') \<and> kfree_here a s' = ret s'' \<and>
    heap_inv s'' {whole_heap} Map.empty"
proof -
  from one_allocation obtain a s F blk where r: "kmalloc_at (Suc 0) 100 12 fresh_heap = ret (a, s)" .
  from kmalloc_kfree_roundtrip [OF fresh_inv fresh_tables _ _ _ r] r show ?thesis
    by (auto simp: max_nodes_def STATIC_SIZE_def simp del: kmalloc_at.simps)
qed

end
