(* ===== verification/Port.thy ===== *)
theory Port
  imports Prelude
begin

text \<open>
  Port I/O, \<^verbatim>\<open>src/src/include/port.h\<close>. What a device answers to \<^verbatim>\<open>inb\<close> is not the
  kernel's to decide: \<open>device\<close> gives the answer, as a function of what happened on the ports
  before. The accesses are recorded in order.
\<close>

datatype port_op = Out u16 u8 | In u16 u8

record io_state =
  io_log :: "port_op list"
  device :: "port_op list \<Rightarrow> u16 \<Rightarrow> u8"

definition outb :: "u16 \<Rightarrow> u8 \<Rightarrow> io_state \<Rightarrow> io_state" where
  "outb port v s = s\<lparr>io_log := io_log s @ [Out port v]\<rparr>"

definition inb :: "u16 \<Rightarrow> io_state \<Rightarrow> u8 \<times> io_state" where
  "inb port s = (let r = device s (io_log s) port in (r, s\<lparr>io_log := io_log s @ [In port r]\<rparr>))"

definition wait :: "io_state \<Rightarrow> io_state" where
  "wait s = outb 0x80 0 s"

lemma io_log_ops [simp]:
  "io_log (outb p v s) = io_log s @ [Out p v]" "device (outb p v s) = device s"
  "io_log (wait s) = io_log s @ [Out 0x80 0]" "device (wait s) = device s"
  by (simp_all add: outb_def wait_def)

end
