(* ===== verification/Errno.thy ===== *)
theory Errno
  imports Prelude
begin

text \<open>
  Error numbers (\<^verbatim>\<open>errno_base.h\<close>, \<^verbatim>\<open>errno.h\<close>), the identifier types of
  \<^verbatim>\<open>types.h\<close>, the capability test of \<^verbatim>\<open>user.cpp\<close> and the selectors and
  system call count of \<^verbatim>\<open>asm.h\<close>.
\<close>

datatype errno =
    EPERM | ENOENT | ESRCH | EINTR | EIO | ENXIO | E2BIG | ENOEXEC | EBADF | ECHILD | EAGAIN | ENOMEM
  | EACCES | EFAULT | ENOTBLK | EBUSY | EEXIST | EXDEV | ENODEV | ENOTDIR | EISDIR | EINVAL | ENFILE
  | EMFILE | ENOTTY | ETXTBSY | EFBIG | ENOSPC | ESPIPE | EROFS | EMLINK | EPIPE | EDOM | ERANGE
  | ENOTSUP

text \<open>The numbers of \<^verbatim>\<open>errno_base.h\<close>, and the one \<^verbatim>\<open>errno.h\<close> adds.\<close>

fun errno_code :: "errno \<Rightarrow> int" where
  "errno_code EPERM = 1" | "errno_code ENOENT = 2" | "errno_code ESRCH = 3" | "errno_code EINTR = 4"
| "errno_code EIO = 5" | "errno_code ENXIO = 6" | "errno_code E2BIG = 7" | "errno_code ENOEXEC = 8"
| "errno_code EBADF = 9" | "errno_code ECHILD = 10" | "errno_code EAGAIN = 11" | "errno_code ENOMEM = 12"
| "errno_code EACCES = 13" | "errno_code EFAULT = 14" | "errno_code ENOTBLK = 15" | "errno_code EBUSY = 16"
| "errno_code EEXIST = 17" | "errno_code EXDEV = 18" | "errno_code ENODEV = 19" | "errno_code ENOTDIR = 20"
| "errno_code EISDIR = 21" | "errno_code EINVAL = 22" | "errno_code ENFILE = 23" | "errno_code EMFILE = 24"
| "errno_code ENOTTY = 25" | "errno_code ETXTBSY = 26" | "errno_code EFBIG = 27" | "errno_code ENOSPC = 28"
| "errno_code ESPIPE = 29" | "errno_code EROFS = 30" | "errno_code EMLINK = 31" | "errno_code EPIPE = 32"
| "errno_code EDOM = 33" | "errno_code ERANGE = 34"
| "errno_code ENOTSUP = 35"

type_synonym pid_t = u32
type_synonym uid_t = u32
type_synonym gid_t = u32

datatype Cap_t = CAP_KILL

definition cap_test :: "uid_t \<Rightarrow> Cap_t \<Rightarrow> bool" where
  "cap_test usr cap \<longleftrightarrow> usr = 0"

definition KERNEL_CODE_SELECTOR :: u32 where "KERNEL_CODE_SELECTOR = 0x08"

definition KERNEL_DATA_SELECTOR :: u32 where "KERNEL_DATA_SELECTOR = 0x10"

definition USER_CODE_SELECTOR :: u32 where "USER_CODE_SELECTOR = 0x18"

definition USER_DATA_SELECTOR :: u32 where "USER_DATA_SELECTOR = 0x20"

definition TSS_DESCRIPTOR_SELECTOR :: u32 where "TSS_DESCRIPTOR_SELECTOR = 0x28"

definition NR_SYSCALLS :: u32 where "NR_SYSCALLS = 5"

lemmas selector_defs =
  KERNEL_CODE_SELECTOR_def KERNEL_DATA_SELECTOR_def USER_CODE_SELECTOR_def USER_DATA_SELECTOR_def
  TSS_DESCRIPTOR_SELECTOR_def

end
