(* ===== verification/Descriptor.thy ===== *)
theory Descriptor
  imports Port Errno Common
begin

text \<open>
  Descriptor tables, \<^verbatim>\<open>src/src/core/descriptor_table.cpp\<close> and \<^verbatim>\<open>descriptor_table.h\<close>:
  the segments of the GDT with the task state segment, the interrupt gates of the IDT, the table of
  interrupt handlers, and the two interrupt controllers. The addresses of the static tables and of the
  assembly stubs are arguments, since the linker chooses them.
\<close>

section \<open>Structures\<close>

record GDT_entry_t =
  limit_low :: u16
  base_low :: u16
  base_middle :: u8
  access :: u8
  limit_high_and_flag :: u8
  base_high :: u8

record GDT_ptr_t =
  gp_limit :: u16
  gp_base :: u32

record IDT_entry_t =
  offset_low :: u16
  selector :: u16
  idt_zero :: u8
  flag :: u8
  offset_high :: u16

record IDT_ptr_t =
  ip_limit :: u16
  ip_base :: u32

record TSS_entry_t =
  prev_tss :: u32
  tss_esp0 :: u32
  tss_ss0 :: u32
  tss_esp1 :: u32
  tss_ss1 :: u32
  tss_esp2 :: u32
  tss_ss2 :: u32
  tss_cr3 :: u32
  tss_eip :: u32
  tss_eflags :: u32
  tss_eax :: u32
  tss_ecx :: u32
  tss_edx :: u32
  tss_ebx :: u32
  tss_esp :: u32
  tss_ebp :: u32
  tss_esi :: u32
  tss_edi :: u32
  tss_es :: u32
  tss_cs :: u32
  tss_ss :: u32
  tss_ds :: u32
  tss_fs :: u32
  tss_gs :: u32
  tss_ldt :: u32
  tss_reserved :: u16
  iomap_base :: u16

definition sizeof_TSS_entry_t :: u32 where
  "sizeof_TSS_entry_t = 25 * 4 + 2 * 2"

definition zero_TSS :: TSS_entry_t where
  "zero_TSS = \<lparr>prev_tss = 0, tss_esp0 = 0, tss_ss0 = 0, tss_esp1 = 0, tss_ss1 = 0, tss_esp2 = 0, tss_ss2 = 0,
     tss_cr3 = 0, tss_eip = 0, tss_eflags = 0, tss_eax = 0, tss_ecx = 0, tss_edx = 0, tss_ebx = 0, tss_esp = 0,
     tss_ebp = 0, tss_esi = 0, tss_edi = 0, tss_es = 0, tss_cs = 0, tss_ss = 0, tss_ds = 0, tss_fs = 0, tss_gs = 0,
     tss_ldt = 0, tss_reserved = 0, iomap_base = 0\<rparr>"

definition zero_IDT_entry :: IDT_entry_t where
  "zero_IDT_entry = \<lparr>offset_low = 0, selector = 0, idt_zero = 0, flag = 0, offset_high = 0\<rparr>"

text \<open>The static tables, the registers they are loaded into, and the interrupt controllers' ports.\<close>

record dt_state =
  gdt_entries :: "nat \<Rightarrow> GDT_entry_t"
  gdt_ptr :: GDT_ptr_t
  tss_entry :: TSS_entry_t
  idt_entries :: "nat \<Rightarrow> IDT_entry_t"
  idt_ptr :: IDT_ptr_t
  isr_callback_table :: "nat \<Rightarrow> u32"
  gdtr :: GDT_ptr_t
  idtr :: IDT_ptr_t
  tr :: u16
  seg_cs :: u16
  seg_data :: u16
  io :: io_state

section \<open>Entries\<close>

definition GDT_set :: "u32 \<Rightarrow> u32 \<Rightarrow> u8 \<Rightarrow> u8 \<Rightarrow> GDT_entry_t \<Rightarrow> GDT_entry_t" where
  "GDT_set base limit acc flg e =
     e\<lparr>base_low := ucast (base AND 0xFFFF), base_middle := ucast (drop_bit 16 base AND 0xFF),
       base_high := ucast (drop_bit 24 base AND 0xFF), limit_low := ucast (limit AND 0xFFFF),
       limit_high_and_flag := ucast (drop_bit 16 limit AND 0xF) OR push_bit 4 (flg AND 0xF),
       access := acc\<rparr>"

definition IDT_set :: "u32 \<Rightarrow> u8 \<Rightarrow> u8 \<Rightarrow> IDT_entry_t \<Rightarrow> IDT_entry_t" where
  "IDT_set offset sel flg e =
     e\<lparr>offset_low := ucast (offset AND 0xFFFF), offset_high := ucast (drop_bit 16 offset AND 0xFFFF),
       selector := ucast sel, idt_zero := 0, flag := flg\<rparr>"

section \<open>Interrupt controllers\<close>

definition PIC1 :: u16 where "PIC1 = 0x20"

definition PIC2 :: u16 where "PIC2 = 0xA0"

definition PIC1_COMMAND :: u16 where "PIC1_COMMAND = PIC1"

definition PIC1_DATA :: u16 where "PIC1_DATA = PIC1 + 1"

definition PIC2_COMMAND :: u16 where "PIC2_COMMAND = PIC2"

definition PIC2_DATA :: u16 where "PIC2_DATA = PIC2 + 1"

definition ICW1_ICW4 :: u8 where "ICW1_ICW4 = 0x01"

definition ICW1_INIT :: u8 where "ICW1_INIT = 0x10"

definition ICW4_8086 :: u8 where "ICW4_8086 = 0x01"

definition remap_PIC :: "u8 \<Rightarrow> u8 \<Rightarrow> io_state \<Rightarrow> io_state" where
  "remap_PIC offset1 offset2 s =
     (let (a1, s) = inb PIC1_DATA s;
          (a2, s) = inb PIC2_DATA s;
          s = wait (outb PIC1_COMMAND (ICW1_INIT + ICW1_ICW4) s);
          s = wait (outb PIC2_COMMAND (ICW1_INIT + ICW1_ICW4) s);
          s = wait (outb PIC1_DATA offset1 s);
          s = wait (outb PIC2_DATA offset2 s);
          s = wait (outb PIC1_DATA 4 s);
          s = wait (outb PIC2_DATA 2 s);
          s = wait (outb PIC1_DATA ICW4_8086 s);
          s = wait (outb PIC2_DATA ICW4_8086 s);
          s = outb PIC1_DATA a1 s
      in outb PIC2_DATA a2 s)"

definition isr_eoi :: "int \<Rightarrow> io_state \<Rightarrow> io_state" where
  "isr_eoi int_no s =
     (let s = (if int_no \<ge> 40 then outb PIC2_COMMAND 0x20 s else s) in outb PIC1_COMMAND 0x20 s)"

section \<open>Initialization\<close>

text \<open>\<^verbatim>\<open>gdt_flush\<close>, \<^verbatim>\<open>idt_flush\<close> and \<^verbatim>\<open>tss_flush\<close> of \<^verbatim>\<open>misc.S\<close>.\<close>

definition gdt_flush :: "dt_state \<Rightarrow> dt_state" where
  "gdt_flush s = s\<lparr>gdtr := gdt_ptr s, seg_data := ucast KERNEL_DATA_SELECTOR, seg_cs := ucast KERNEL_CODE_SELECTOR\<rparr>"

definition idt_flush :: "dt_state \<Rightarrow> dt_state" where
  "idt_flush s = s\<lparr>idtr := idt_ptr s\<rparr>"

definition tss_flush :: "dt_state \<Rightarrow> dt_state" where
  "tss_flush s = s\<lparr>tr := ucast (TSS_DESCRIPTOR_SELECTOR OR 3)\<rparr>"

definition gdt_put :: "nat \<Rightarrow> u32 \<Rightarrow> u32 \<Rightarrow> u8 \<Rightarrow> u8 \<Rightarrow> dt_state \<Rightarrow> dt_state" where
  "gdt_put i base limit acc flg s =
     s\<lparr>gdt_entries := (gdt_entries s)(i := GDT_set base limit acc flg (gdt_entries s i))\<rparr>"

definition idt_put :: "nat \<Rightarrow> u32 \<Rightarrow> u8 \<Rightarrow> u8 \<Rightarrow> dt_state \<Rightarrow> dt_state" where
  "idt_put i offset sel flg s =
     s\<lparr>idt_entries := (idt_entries s)(i := IDT_set offset sel flg (idt_entries s i))\<rparr>"

definition init_gdt :: "u32 \<Rightarrow> u32 \<Rightarrow> dt_state \<Rightarrow> dt_state" where
  "init_gdt gdt_addr tss_addr s =
     (let s = s\<lparr>gdt_ptr := \<lparr>gp_limit = 6 * 8 - 1, gp_base = gdt_addr\<rparr>\<rparr>;
          s = gdt_put 0 0 0 0 0 s;
          s = gdt_put 1 0 0xFFFFFFFF 0b10011010 0b1100 s;
          s = gdt_put 2 0 0xFFFFFFFF 0b10010010 0b1100 s;
          s = gdt_put 3 0 0xFFFFFFFF 0b11111010 0b1100 s;
          s = gdt_put 4 0 0xFFFFFFFF 0b11110010 0b1100 s;
          d = KERNEL_DATA_SELECTOR OR 3;
          s = s\<lparr>tss_entry := zero_TSS\<lparr>tss_ss0 := KERNEL_DATA_SELECTOR, tss_esp0 := KERNEL_STACK_POS,
                 tss_cs := KERNEL_CODE_SELECTOR OR 3, tss_gs := d, tss_fs := d, tss_es := d, tss_ds := d, tss_ss := d\<rparr>\<rparr>;
          s = gdt_put 5 tss_addr (tss_addr + sizeof_TSS_entry_t) 0b11101001 0 s
      in tss_flush (gdt_flush s))"

text \<open>\<^verbatim>\<open>LOOP_ALL_INTERRUPT\<close>: the vectors with a stub.\<close>

definition all_interrupts :: "nat list" where
  "all_interrupts = [0..<48] @ [0x80]"

definition IDT_SEL :: u32 where "IDT_SEL = KERNEL_CODE_SELECTOR"

definition IDT_FLAG :: u32 where "IDT_FLAG = 0b10001110"

text \<open>
  \<open>isr n\<close> is the address of the stub \<^verbatim>\<open>isr##n\<close>, \<open>unhandled\<close> that of \<^verbatim>\<open>isr_unhandled\<close>. The
  selector is passed as a \<^verbatim>\<open>uint8_t\<close>.
\<close>

definition init_idt :: "u32 \<Rightarrow> (nat \<Rightarrow> u32) \<Rightarrow> u32 \<Rightarrow> dt_state \<Rightarrow> dt_state" where
  "init_idt idt_addr isr unhandled s =
     (let s = s\<lparr>idt_ptr := \<lparr>ip_limit = 256 * 8 - 1, ip_base = idt_addr\<rparr>, idt_entries := (\<lambda>i. zero_IDT_entry)\<rparr>;
          s = fold (\<lambda>i s. if isr_callback_table s i = 0
                then s\<lparr>isr_callback_table := (isr_callback_table s)(i := unhandled)\<rparr> else s) [0..<256] s;
          s = s\<lparr>io := remap_PIC 32 40 (io s)\<rparr>;
          s = fold (\<lambda>n. idt_put n (isr n) (ucast IDT_SEL) (ucast IDT_FLAG)) all_interrupts s;
          s = idt_put 0x80 (isr 0x80) (ucast IDT_SEL) (ucast (IDT_FLAG OR 0b01100000)) s
      in idt_flush s)"

definition init_descriptor_tables :: "u32 \<Rightarrow> u32 \<Rightarrow> u32 \<Rightarrow> (nat \<Rightarrow> u32) \<Rightarrow> u32 \<Rightarrow> dt_state \<Rightarrow> dt_state" where
  "init_descriptor_tables gdt_addr tss_addr idt_addr isr unhandled s =
     init_idt idt_addr isr unhandled (init_gdt gdt_addr tss_addr s)"

section \<open>Handlers\<close>

definition ISR_GET_NUM_BY_IRQ :: "int \<Rightarrow> int" where
  "ISR_GET_NUM_BY_IRQ n = n + 32"

definition isr_register :: "int \<Rightarrow> u32 \<Rightarrow> dt_state \<Rightarrow> dt_state" where
  "isr_register num callback s =
     (if num \<ge> 0 \<and> num < 256
      then s\<lparr>isr_callback_table := (isr_callback_table s)(nat num := callback)\<rparr> else s)"

end
