(* ===== verification/Descriptor_Thms.thy ===== *)
theory Descriptor_Thms
  imports Descriptor
begin

text \<open>
  What the processor reads from the descriptor tables the kernel builds, and the state in which the
  initialization leaves the interrupt controllers.
\<close>

section \<open>The processor's reading of an entry\<close>

text \<open>The fields of a segment descriptor and of a gate, put together as the architecture defines them.\<close>

definition seg_base :: "GDT_entry_t \<Rightarrow> u32" where
  "seg_base e = ucast (base_low e) OR push_bit 16 (ucast (base_middle e)) OR push_bit 24 (ucast (base_high e))"

definition seg_limit :: "GDT_entry_t \<Rightarrow> u32" where
  "seg_limit e = ucast (limit_low e) OR push_bit 16 (ucast (limit_high_and_flag e AND 0xF))"

definition seg_flags :: "GDT_entry_t \<Rightarrow> u8" where
  "seg_flags e = drop_bit 4 (limit_high_and_flag e)"

definition seg_dpl :: "GDT_entry_t \<Rightarrow> u8" where
  "seg_dpl e = drop_bit 5 (access e) AND 3"

definition seg_present :: "GDT_entry_t \<Rightarrow> bool" where
  "seg_present e \<longleftrightarrow> bit (access e) 7"

definition seg_code :: "GDT_entry_t \<Rightarrow> bool" where
  "seg_code e \<longleftrightarrow> bit (access e) 4 \<and> bit (access e) 3"

definition seg_writable_data :: "GDT_entry_t \<Rightarrow> bool" where
  "seg_writable_data e \<longleftrightarrow> bit (access e) 4 \<and> \<not> bit (access e) 3 \<and> bit (access e) 1"

definition gate_offset :: "IDT_entry_t \<Rightarrow> u32" where
  "gate_offset e = ucast (offset_low e) OR push_bit 16 (ucast (offset_high e))"

definition gate_present :: "IDT_entry_t \<Rightarrow> bool" where
  "gate_present e \<longleftrightarrow> bit (flag e) 7"

definition gate_dpl :: "IDT_entry_t \<Rightarrow> u8" where
  "gate_dpl e = drop_bit 5 (flag e) AND 3"

definition gate_type :: "IDT_entry_t \<Rightarrow> u8" where
  "gate_type e = flag e AND 0xF"

lemma low_masks:
  "(0xFFFF :: u32) = mask 16" "(0xFF :: u32) = mask 8" "(0xF :: u32) = mask 4" "(0xF :: u8) = mask 4"
  "(0xFFFFF :: u32) = mask 20"
  by (simp_all add: mask_eq_exp_minus_1)

lemma seg_base_set: "seg_base (GDT_set base limit acc flg e) = base"
proof (rule bit_eqI)
  fix n
  assume "possible_bit TYPE(u32) n"
  then have n: "n < 32" by simp
  then consider "n < 16" | "16 \<le> n" "n < 24" | "24 \<le> n" by linarith
  then show "bit (seg_base (GDT_set base limit acc flg e)) n = bit base n"
    using n unfolding low_masks seg_base_def GDT_set_def by cases (auto simp: bit_simps)
qed

lemma seg_limit_set: "seg_limit (GDT_set base limit acc flg e) = limit AND 0xFFFFF"
proof (rule bit_eqI)
  fix n
  assume "possible_bit TYPE(u32) n"
  then have n: "n < 32" by simp
  then consider "n < 16" | "16 \<le> n" "n < 20" | "20 \<le> n" by linarith
  then show "bit (seg_limit (GDT_set base limit acc flg e)) n = bit (limit AND 0xFFFFF) n"
    using n unfolding low_masks seg_limit_def GDT_set_def by cases (auto simp: bit_simps)
qed

lemma seg_flags_set: "seg_flags (GDT_set base limit acc flg e) = flg AND 0xF"
proof (rule bit_eqI)
  fix n
  assume "possible_bit TYPE(u8) n"
  then have n: "n < 8" by simp
  then show "bit (seg_flags (GDT_set base limit acc flg e)) n = bit (flg AND 0xF) n"
    unfolding low_masks seg_flags_def GDT_set_def by (auto simp: bit_simps)
qed

lemma access_set [simp]: "access (GDT_set base limit acc flg e) = acc"
  by (simp add: GDT_set_def)

lemma gate_offset_set: "gate_offset (IDT_set offset sel flg e) = offset"
proof (rule bit_eqI)
  fix n
  assume "possible_bit TYPE(u32) n"
  then have n: "n < 32" by simp
  then consider "n < 16" | "16 \<le> n" by linarith
  then show "bit (gate_offset (IDT_set offset sel flg e)) n = bit offset n"
    using n unfolding low_masks gate_offset_def IDT_set_def by cases (auto simp: bit_simps)
qed

lemma idt_set_fields [simp]:
  "flag (IDT_set offset sel flg e) = flg" "selector (IDT_set offset sel flg e) = ucast sel"
  by (simp_all add: IDT_set_def)

text \<open>
  \<^verbatim>\<open>GDT_entry_t::set\<close> and \<^verbatim>\<open>IDT_entry_t::set\<close> encode what the processor decodes: the
  base and the access byte exactly, the low 20 bits of the limit, the low four flags; the handler's
  address, flags and selector of a gate.
\<close>

theorem descriptor_roundtrip:
  "seg_base (GDT_set base limit acc flg e) = base \<and> seg_limit (GDT_set base limit acc flg e) = limit AND 0xFFFFF \<and>
   seg_flags (GDT_set base limit acc flg e) = flg AND 0xF \<and> access (GDT_set base limit acc flg e) = acc \<and>
   gate_offset (IDT_set offset sel gflg g) = offset \<and> selector (IDT_set offset sel gflg g) = ucast sel \<and>
   flag (IDT_set offset sel gflg g) = gflg"
  by (simp add: seg_base_set seg_limit_set seg_flags_set gate_offset_set)

section \<open>The segments\<close>

definition selected :: "dt_state \<Rightarrow> u32 \<Rightarrow> GDT_entry_t" where
  "selected s sel = gdt_entries s (unat (drop_bit 3 sel))"

lemma init_gdt_entries:
  "gdt_entries (init_gdt ga ta s) = (\<lambda>i. if i = 0 then GDT_set 0 0 0 0 (gdt_entries s 0)
     else if i = 1 then GDT_set 0 0xFFFFFFFF 0b10011010 0b1100 (gdt_entries s 1)
     else if i = 2 then GDT_set 0 0xFFFFFFFF 0b10010010 0b1100 (gdt_entries s 2)
     else if i = 3 then GDT_set 0 0xFFFFFFFF 0b11111010 0b1100 (gdt_entries s 3)
     else if i = 4 then GDT_set 0 0xFFFFFFFF 0b11110010 0b1100 (gdt_entries s 4)
     else if i = 5 then GDT_set ta (ta + sizeof_TSS_entry_t) 0b11101001 0 (gdt_entries s 5)
     else gdt_entries s i)"
  by (simp add: init_gdt_def Let_def gdt_put_def gdt_flush_def tss_flush_def fun_eq_iff)

definition flat :: "GDT_entry_t \<Rightarrow> bool" where
  "flat e \<longleftrightarrow> seg_present e \<and> seg_base e = 0 \<and> seg_limit e = 0xFFFFF \<and> seg_flags e = 0b1100"

text \<open>
  After \<^verbatim>\<open>init_gdt\<close> the four segment selectors name present segments over the whole
  address space (base 0, 1048576 pages of 4 KB, 32-bit): kernel code and data at level 0, user code and
  data at level 3; the task register selects a task state segment whose base is the kernel's, with the
  kernel stack for entries from user mode, and whose limit is not its size but the low bits of its end
  address.
\<close>

theorem gdt_segments:
  fixes s :: dt_state and ga ta :: u32
  defines "s' \<equiv> init_gdt ga ta s"
  shows "flat (selected s' KERNEL_CODE_SELECTOR) \<and> seg_code (selected s' KERNEL_CODE_SELECTOR) \<and>
      seg_dpl (selected s' KERNEL_CODE_SELECTOR) = 0 \<and>
    flat (selected s' KERNEL_DATA_SELECTOR) \<and> seg_writable_data (selected s' KERNEL_DATA_SELECTOR) \<and>
      seg_dpl (selected s' KERNEL_DATA_SELECTOR) = 0 \<and>
    flat (selected s' USER_CODE_SELECTOR) \<and> seg_code (selected s' USER_CODE_SELECTOR) \<and>
      seg_dpl (selected s' USER_CODE_SELECTOR) = 3 \<and>
    flat (selected s' USER_DATA_SELECTOR) \<and> seg_writable_data (selected s' USER_DATA_SELECTOR) \<and>
      seg_dpl (selected s' USER_DATA_SELECTOR) = 3 \<and>
    seg_present (selected s' TSS_DESCRIPTOR_SELECTOR) \<and> seg_base (selected s' TSS_DESCRIPTOR_SELECTOR) = ta \<and>
    seg_limit (selected s' TSS_DESCRIPTOR_SELECTOR) = (ta + sizeof_TSS_entry_t) AND 0xFFFFF \<and>
    tr s' = ucast (TSS_DESCRIPTOR_SELECTOR OR 3) \<and> gdtr s' = \<lparr>gp_limit = 47, gp_base = ga\<rparr> \<and>
    tss_esp0 (tss_entry s') = KERNEL_STACK_POS \<and> tss_ss0 (tss_entry s') = KERNEL_DATA_SELECTOR"
  by (simp add: s'_def selected_def init_gdt_entries selector_defs flat_def seg_present_def seg_code_def
      seg_writable_data_def seg_dpl_def seg_base_set seg_limit_set seg_flags_set bit_numeral_rec)
    (simp add: init_gdt_def Let_def gdt_put_def gdt_flush_def tss_flush_def selector_defs)

section \<open>The gates\<close>

lemma IDT_set_twice: "IDT_set o1 s1 f1 (IDT_set o2 s2 f2 e) = IDT_set o1 s1 f1 e"
  by (simp add: IDT_set_def)

lemma fold_idt_put:
  "fold (\<lambda>n. idt_put n (f n) a b) ns s =
     s\<lparr>idt_entries := (\<lambda>i. if i \<in> set ns then IDT_set (f i) a b (idt_entries s i) else idt_entries s i)\<rparr>"
proof (induction ns arbitrary: s)
  case (Cons n ns)
  have "fold (\<lambda>n. idt_put n (f n) a b) (n # ns) s = fold (\<lambda>n. idt_put n (f n) a b) ns (idt_put n (f n) a b s)" by simp
  also have "\<dots> = (idt_put n (f n) a b s)\<lparr>idt_entries := (\<lambda>i. if i \<in> set ns
      then IDT_set (f i) a b (idt_entries (idt_put n (f n) a b s) i) else idt_entries (idt_put n (f n) a b s) i)\<rparr>"
    by (rule Cons)
  also have "\<dots> = s\<lparr>idt_entries := (\<lambda>i. if i \<in> set (n # ns) then IDT_set (f i) a b (idt_entries s i) else idt_entries s i)\<rparr>"
    by (auto simp: idt_put_def IDT_set_twice fun_eq_iff intro!: dt_state.equality)
  finally show ?case .
qed simp

lemma fold_callbacks:
  "fold (\<lambda>i s. if isr_callback_table s i = 0 then s\<lparr>isr_callback_table := (isr_callback_table s)(i := u)\<rparr> else s) ns s =
     s\<lparr>isr_callback_table := (\<lambda>i. if i \<in> set ns \<and> isr_callback_table s i = 0 then u else isr_callback_table s i)\<rparr>"
proof (induction ns arbitrary: s)
  case (Cons n ns)
  show ?case
    by (simp only: fold.simps comp_apply Cons) (auto simp: fun_eq_iff intro!: dt_state.equality)
qed simp

lemma init_idt_entries:
  "idt_entries (init_idt ia isr u s) = (\<lambda>i. if i = 0x80 then IDT_set (isr 0x80) 8 0b11101110 zero_IDT_entry
     else if i < 48 then IDT_set (isr i) 8 0b10001110 zero_IDT_entry else zero_IDT_entry)"
  by (auto simp: init_idt_def Let_def fold_idt_put fold_callbacks idt_put_def idt_flush_def IDT_set_twice
      all_interrupts_def IDT_SEL_def IDT_FLAG_def KERNEL_CODE_SELECTOR_def fun_eq_iff)

lemma init_idt_callbacks:
  "isr_callback_table (init_idt ia isr u s) = (\<lambda>i. if i < 256 \<and> isr_callback_table s i = 0 then u else isr_callback_table s i)"
  by (simp add: init_idt_def Let_def fold_idt_put fold_callbacks idt_put_def idt_flush_def fun_eq_iff)

text \<open>
  After \<^verbatim>\<open>init_idt\<close> exactly the vectors 0 to 47 and 0x80 have a present 32-bit interrupt gate,
  to their own stub through the kernel code segment; only 0x80 may be raised from user mode. Every
  vector has a handler: the one registered before, or \<^verbatim>\<open>isr_unhandled\<close>.
\<close>

theorem idt_gates:
  fixes s :: dt_state and ia unhandled :: u32 and isr :: "nat \<Rightarrow> u32"
  defines "s' \<equiv> init_idt ia isr unhandled s"
  assumes "n < 256" "unhandled \<noteq> 0"
  shows "(gate_present (idt_entries s' n) \<longleftrightarrow> n < 48 \<or> n = 0x80) \<and>
    (gate_present (idt_entries s' n) \<longrightarrow> gate_offset (idt_entries s' n) = isr n \<and> gate_type (idt_entries s' n) = 0xE \<and>
       selector (idt_entries s' n) = ucast KERNEL_CODE_SELECTOR \<and>
       gate_dpl (idt_entries s' n) = (if n = 0x80 then 3 else 0)) \<and>
    isr_callback_table s' n = (if isr_callback_table s n = 0 then unhandled else isr_callback_table s n) \<and>
    isr_callback_table s' n \<noteq> 0 \<and> idtr s' = \<lparr>ip_limit = 2047, ip_base = ia\<rparr>"
proof -
  have "idtr s' = \<lparr>ip_limit = 2047, ip_base = ia\<rparr>"
    by (simp add: s'_def init_idt_def Let_def fold_idt_put fold_callbacks idt_put_def idt_flush_def)
  then show ?thesis using assms(2,3)
    by (auto simp: s'_def init_idt_entries init_idt_callbacks gate_present_def gate_type_def gate_dpl_def gate_offset_set
        zero_IDT_entry_def bit_numeral_rec KERNEL_CODE_SELECTOR_def)
qed

definition blank_tables :: dt_state where
  "blank_tables = \<lparr>gdt_entries = (\<lambda>_. GDT_set 0 0 0 0 \<lparr>limit_low = 0, base_low = 0, base_middle = 0, access = 0,
       limit_high_and_flag = 0, base_high = 0\<rparr>),
     gdt_ptr = \<lparr>gp_limit = 0, gp_base = 0\<rparr>, tss_entry = zero_TSS, idt_entries = (\<lambda>_. zero_IDT_entry),
     idt_ptr = \<lparr>ip_limit = 0, ip_base = 0\<rparr>, isr_callback_table = (\<lambda>i. if i = 14 then 0x104000 else 0),
     gdtr = \<lparr>gp_limit = 0, gp_base = 0\<rparr>, idtr = \<lparr>ip_limit = 0, ip_base = 0\<rparr>, tr = 0, seg_cs = 0, seg_data = 0,
     io = \<lparr>io_log = [], device = (\<lambda>l p. if p = 0x21 then 0xB8 else 0x8E)\<rparr>\<rparr>"

theorem idt_gates_witness:
  "isr_callback_table (init_idt 0x9000 (\<lambda>n. 0x100000 + of_nat n) 0x105000 blank_tables) 14 = 0x104000 \<and>
   isr_callback_table (init_idt 0x9000 (\<lambda>n. 0x100000 + of_nat n) 0x105000 blank_tables) 13 = 0x105000 \<and>
   \<not> gate_present (idt_entries (init_idt 0x9000 (\<lambda>n. 0x100000 + of_nat n) 0x105000 blank_tables) 48)"
  using idt_gates [of 14 "0x105000" "0x9000" "\<lambda>n. 0x100000 + of_nat n" blank_tables]
    idt_gates [of 13 "0x105000" "0x9000" "\<lambda>n. 0x100000 + of_nat n" blank_tables]
    idt_gates [of 48 "0x105000" "0x9000" "\<lambda>n. 0x100000 + of_nat n" blank_tables]
  by (simp add: blank_tables_def)

section \<open>The interrupt controllers\<close>

text \<open>
  An 8259A as its data sheet describes it: a first initialization word on the command port starts the
  sequence and clears the mask; the data port then takes the vector offset, the cascade wiring
  and, when announced, the mode; otherwise a write to it sets the mask.
\<close>

record pic =
  vector_base :: u8
  imr :: u8
  cascade :: u8
  pic_mode :: u8
  awaiting :: nat
  want_icw4 :: bool

definition pic_data :: "u8 \<Rightarrow> pic \<Rightarrow> pic" where
  "pic_data v p =
     (if awaiting p = 2 then p\<lparr>vector_base := v AND 0xF8, awaiting := 3\<rparr>
      else if awaiting p = 3 then p\<lparr>cascade := v, awaiting := (if want_icw4 p then 4 else 0)\<rparr>
      else if awaiting p = 4 then p\<lparr>pic_mode := v, awaiting := 0\<rparr>
      else p\<lparr>imr := v\<rparr>)"

definition pic_command :: "u8 \<Rightarrow> pic \<Rightarrow> pic" where
  "pic_command v p = (if bit v 4 then p\<lparr>awaiting := 2, want_icw4 := bit v 0, imr := 0\<rparr> else p)"

fun pic_step :: "u16 \<Rightarrow> port_op \<Rightarrow> pic \<Rightarrow> pic" where
  "pic_step cmd (Out port v) p = (if port = cmd then pic_command v p else if port = cmd + 1 then pic_data v p else p)"
| "pic_step cmd (In port v) p = p"

definition pic_after :: "u16 \<Rightarrow> pic \<Rightarrow> io_state \<Rightarrow> pic" where
  "pic_after cmd p s = fold (pic_step cmd) (io_log s) p"

lemmas pic_defs = PIC1_COMMAND_def PIC2_COMMAND_def PIC1_DATA_def PIC2_DATA_def PIC1_def PIC2_def
  ICW1_INIT_def ICW1_ICW4_def ICW4_8086_def

lemma remap_log:
  assumes "a1 = device s (io_log s) PIC1_DATA" "a2 = device s (io_log s @ [In PIC1_DATA a1]) PIC2_DATA"
  shows "io_log (remap_PIC o1 o2 s) = io_log s @ [In PIC1_DATA a1, In PIC2_DATA a2, Out 0x20 0x11, Out 0x80 0,
    Out 0xA0 0x11, Out 0x80 0, Out 0x21 o1, Out 0x80 0, Out 0xA1 o2, Out 0x80 0, Out 0x21 4, Out 0x80 0,
    Out 0xA1 2, Out 0x80 0, Out 0x21 1, Out 0x80 0, Out 0xA1 1, Out 0x80 0, Out 0x21 a1, Out 0xA1 a2]"
  using assms by (simp add: remap_PIC_def inb_def Let_def pic_defs)

text \<open>
  \<^verbatim>\<open>remap_PIC\<close> moves the vectors of the two controllers to the given offsets, wires the
  slave to line 2, selects 8086 mode, and leaves both ready with the interrupt masks they had,
  provided that reading the data port of a ready controller yields its mask.
\<close>

theorem remap_PIC_programs:
  assumes "awaiting (pic_after PIC1_COMMAND p1 s) = 0" "awaiting (pic_after PIC2_COMMAND p2 s) = 0"
    and "device s (io_log s) PIC1_DATA = imr (pic_after PIC1_COMMAND p1 s)"
    and "\<And>v. device s (io_log s @ [In PIC1_DATA v]) PIC2_DATA = imr (pic_after PIC2_COMMAND p2 s)"
  shows "let m = pic_after PIC1_COMMAND p1 (remap_PIC o1 o2 s); sl = pic_after PIC2_COMMAND p2 (remap_PIC o1 o2 s) in
    vector_base m = o1 AND 0xF8 \<and> vector_base sl = o2 AND 0xF8 \<and> cascade m = 4 \<and> cascade sl = 2 \<and>
    pic_mode m = 1 \<and> pic_mode sl = 1 \<and> awaiting m = 0 \<and> awaiting sl = 0 \<and>
    imr m = imr (pic_after PIC1_COMMAND p1 s) \<and> imr sl = imr (pic_after PIC2_COMMAND p2 s)"
  using assms remap_log [OF refl refl, of o1 o2 s]
  by (simp add: pic_after_def Let_def pic_defs pic_command_def pic_data_def bit_numeral_rec)

theorem remap_PIC_programs_witness:
  "let p = \<lparr>vector_base = 8, imr = 0xB8, cascade = 0, pic_mode = 0, awaiting = 0, want_icw4 = False\<rparr>;
       s = \<lparr>io_log = [], device = (\<lambda>l q. if q = 0x21 then 0xB8 else 0x8E)\<rparr>
   in vector_base (pic_after 0x20 p (remap_PIC 32 40 s)) = 32 \<and> imr (pic_after 0x20 p (remap_PIC 32 40 s)) = 0xB8"
  using remap_PIC_programs [of "\<lparr>vector_base = 8, imr = 0xB8, cascade = 0, pic_mode = 0, awaiting = 0, want_icw4 = False\<rparr>"
      "\<lparr>io_log = [], device = (\<lambda>l q. if q = 0x21 then 0xB8 else 0x8E)\<rparr>"
      "\<lparr>vector_base = 8, imr = 0x8E, cascade = 0, pic_mode = 0, awaiting = 0, want_icw4 = False\<rparr>" 32 40]
  by (simp add: Let_def pic_defs pic_after_def)

end
