(* ===== verification/Cstring.thy ===== *)
theory Cstring
  imports Memory
begin

text \<open>
  \<^verbatim>\<open>src/src/lib/cstring.cpp\<close>: \<^verbatim>\<open>memset\<close>, \<^verbatim>\<open>memcpy\<close> and \<^verbatim>\<open>strcpy\<close> over
  byte-addressed memory, as the string instructions they consist of. The direction flag is
  cleared first, so both pointers go up, and they wrap around at the end of the address space.
\<close>

section \<open>String instructions\<close>

primrec rep_stosb :: "nat \<Rightarrow> u32 \<Rightarrow> u8 \<Rightarrow> memory \<Rightarrow> memory" where
  "rep_stosb 0 edi al m = m"
| "rep_stosb (Suc ecx) edi al m = rep_stosb ecx (edi + 1) al (m(edi := al))"

primrec rep_movsb :: "nat \<Rightarrow> u32 \<Rightarrow> u32 \<Rightarrow> memory \<Rightarrow> memory" where
  "rep_movsb 0 edi esi m = m"
| "rep_movsb (Suc ecx) edi esi m = rep_movsb ecx (edi + 1) (esi + 1) (m(edi := m esi))"

section \<open>The library functions\<close>

definition memset :: "u32 \<Rightarrow> int \<Rightarrow> u32 \<Rightarrow> memory \<Rightarrow> memory" where
  "memset dest val cnt m = rep_stosb (unat cnt) dest (word_of_int val) m"

definition memcpy :: "u32 \<Rightarrow> u32 \<Rightarrow> u32 \<Rightarrow> memory \<Rightarrow> memory" where
  "memcpy dest src cnt m = rep_movsb (unat cnt) dest src m"

text \<open>The loop of \<^verbatim>\<open>lodsb\<close> and \<^verbatim>\<open>stosb\<close>; it ends only at a zero byte.\<close>

partial_function (option) strcpy_loop :: "u32 \<Rightarrow> u32 \<Rightarrow> memory \<Rightarrow> memory exec" where
  "strcpy_loop edi esi m =
     (let al = m esi; m' = m(edi := al)
      in if al \<noteq> 0 then strcpy_loop (edi + 1) (esi + 1) m' else ret m')"

definition strcpy :: "u32 \<Rightarrow> u32 \<Rightarrow> memory \<Rightarrow> (u32 \<times> memory) exec" where
  "strcpy dest src m = andThen (strcpy_loop dest src m) (\<lambda>m'. ret (dest, m'))"

section \<open>Their effect\<close>

lemma word_offset_eq:
  assumes "i < 2 ^ 32" "j < 2 ^ 32"
  shows "a + of_nat i = a + (of_nat j :: u32) \<longleftrightarrow> i = j"
  using assms by (metis add_left_cancel unat_of_nat_small)

lemma bytes_at_Suc: "bytes_at a (Suc n) = insert (a + of_nat n) (bytes_at a n)"
  by (auto simp: bytes_at_def less_Suc_eq)

lemma bytes_at_0 [simp]: "bytes_at a 0 = {}"
  by (simp add: bytes_at_def)

text \<open>The instructions seen from their last step.\<close>

lemma rep_stosb_snoc: "rep_stosb (Suc n) d v m = (rep_stosb n d v m)(d + of_nat n := v)"
proof (induction n arbitrary: d m)
  case (Suc n)
  have "rep_stosb (Suc (Suc n)) d v m = rep_stosb (Suc n) (d + 1) v (m(d := v))" by (rule rep_stosb.simps(2))
  also have "\<dots> = (rep_stosb n (d + 1) v (m(d := v)))(d + 1 + of_nat n := v)" by (rule Suc)
  finally show ?case by (simp only: rep_stosb.simps(2) of_nat_Suc add.assoc)
qed simp

lemma rep_movsb_snoc:
  "rep_movsb (Suc n) d s m = (let m' = rep_movsb n d s m in m'(d + of_nat n := m' (s + of_nat n)))"
proof (induction n arbitrary: d s m)
  case (Suc n)
  have "rep_movsb (Suc (Suc n)) d s m = rep_movsb (Suc n) (d + 1) (s + 1) (m(d := m s))" by (rule rep_movsb.simps(2))
  also have "\<dots> = (let m' = rep_movsb n (d + 1) (s + 1) (m(d := m s))
      in m'(d + 1 + of_nat n := m' (s + 1 + of_nat n)))" by (rule Suc)
  finally show ?case by (simp only: rep_movsb.simps(2) of_nat_Suc add.assoc)
qed simp

lemma rep_stosb_value: "rep_stosb n d v m a = (if a \<in> bytes_at d n then v else m a)"
proof (induction n)
  case (Suc n)
  then show ?case unfolding rep_stosb_snoc by (simp add: bytes_at_Suc del: rep_stosb.simps)
qed simp

lemma rep_movsb_other: "a \<notin> bytes_at d n \<Longrightarrow> rep_movsb n d s m a = m a"
proof (induction n)
  case (Suc n)
  then show ?case unfolding rep_movsb_snoc by (simp add: bytes_at_Suc Let_def del: rep_movsb.simps)
qed simp

text \<open>
  A forward copy is right when no byte is overwritten before it is read: the regions are
  disjoint, or the destination starts before the source.
\<close>

definition copy_safe :: "u32 \<Rightarrow> u32 \<Rightarrow> nat \<Rightarrow> bool" where
  "copy_safe d s n \<longleftrightarrow> (\<forall>i < n. s + of_nat i \<notin> bytes_at d i)"

lemma copy_safe_disjoint: "bytes_at d n \<inter> bytes_at s n = {} \<Longrightarrow> copy_safe d s n"
proof -
  assume dis: "bytes_at d n \<inter> bytes_at s n = {}"
  have "s + of_nat i \<notin> bytes_at d i" if "i < n" for i
  proof -
    have "s + of_nat i \<in> bytes_at s n" using that by (rule in_bytes_at)
    moreover have "bytes_at d i \<subseteq> bytes_at d n" using that by (auto simp: bytes_at_def intro: less_trans)
    ultimately show ?thesis using dis by blast
  qed
  then show ?thesis by (simp add: copy_safe_def)
qed

lemma rep_movsb_value:
  assumes "copy_safe d s n" "n \<le> 2 ^ 32" "i < n"
  shows "rep_movsb n d s m (d + of_nat i) = m (s + of_nat i)"
  using assms
proof (induction n)
  case (Suc n)
  have safe: "copy_safe d s n" "s + of_nat n \<notin> bytes_at d n" using Suc.prems(1) by (simp_all add: copy_safe_def)
  show ?case
  proof (cases "i = n")
    case True
    then show ?thesis unfolding rep_movsb_snoc
      using safe(2) by (simp add: Let_def rep_movsb_other del: rep_movsb.simps)
  next
    case False
    then have "i < n" using Suc.prems(3) by simp
    moreover have "d + of_nat i \<noteq> d + of_nat n"
      using word_offset_eq [of i n d] False Suc.prems by simp
    ultimately show ?thesis unfolding rep_movsb_snoc
      using Suc.IH [OF safe(1)] Suc.prems(2) by (simp add: Let_def del: rep_movsb.simps)
  qed
qed simp

lemma memcpy_value:
  assumes "copy_safe d s (unat n)" "i < unat n"
  shows "memcpy d s n m (d + of_nat i) = m (s + of_nat i)"
  unfolding memcpy_def using assms by (intro rep_movsb_value) (simp_all add: order_less_imp_le)

lemma memcpy_other: "a \<notin> bytes_at d (unat n) \<Longrightarrow> memcpy d s n m a = m a"
  by (simp add: memcpy_def rep_movsb_other)

lemma strcpy_loop_correct:
  assumes "\<forall>i < n. m (s + of_nat i) \<noteq> 0" "m (s + of_nat n) = 0" "copy_safe d s (Suc n)"
  shows "strcpy_loop d s m = ret (rep_movsb (Suc n) d s m)"
  using assms
proof (induction n arbitrary: d s m)
  case 0
  then show ?case by (subst strcpy_loop.simps) (simp add: Let_def)
next
  case (Suc n)
  let ?m = "m(d := m s)"
  have nz: "m s \<noteq> 0" using Suc.prems(1) by force
  have safe: "s + of_nat i \<noteq> d" if "0 < i" "i < Suc (Suc n)" for i
    using Suc.prems(3) that in_bytes_at [of 0 i d] by (auto simp: copy_safe_def)
  have eq: "?m (s + 1 + of_nat i) = m (s + of_nat (Suc i))" if "i \<le> n" for i
    using safe [of "Suc i"] that by (simp add: ac_simps)
  have "copy_safe (d + 1) (s + 1) (Suc n)"
    unfolding copy_safe_def
  proof (intro allI impI)
    fix i
    assume "i < Suc n"
    then have "s + of_nat (Suc i) \<notin> bytes_at d (Suc i)" using Suc.prems(3) by (simp add: copy_safe_def del: of_nat_Suc)
    moreover have "bytes_at (d + 1) i \<subseteq> bytes_at d (Suc i)"
    proof
      fix b
      assume "b \<in> bytes_at (d + 1) i"
      then obtain j where "j < i" "b = d + of_nat (Suc j)" by (auto simp: bytes_at_def ac_simps)
      then show "b \<in> bytes_at d (Suc i)" using in_bytes_at [of "Suc j" "Suc i" d] by simp
    qed
    ultimately show "s + 1 + of_nat i \<notin> bytes_at (d + 1) i" by (auto simp: ac_simps)
  qed
  moreover have "\<forall>i < n. ?m (s + 1 + of_nat i) \<noteq> 0" "?m (s + 1 + of_nat n) = 0"
    using Suc.prems(1,2) eq by (simp_all del: fun_upd_apply of_nat_Suc)
  ultimately have "strcpy_loop (d + 1) (s + 1) ?m = ret (rep_movsb (Suc n) (d + 1) (s + 1) ?m)"
    by (intro Suc.IH)
  then show ?case using nz by (subst strcpy_loop.simps) (simp add: Let_def)
qed

section \<open>Properties\<close>

text \<open>
  \<^verbatim>\<open>strcpy\<close> of a terminated string, to a place that does not overwrite characters
  still to be read, returns the destination, copies the string with its terminator, and changes no
  other byte.
\<close>

theorem strcpy_copies:
  assumes "\<forall>i < n. m (src + of_nat i) \<noteq> 0" "m (src + of_nat n) = 0"
    and "copy_safe dest src (Suc n)" "n < 2 ^ 32"
  shows "\<exists>m'. strcpy dest src m = ret (dest, m') \<and>
    (\<forall>i \<le> n. m' (dest + of_nat i) = m (src + of_nat i)) \<and>
    (\<forall>a. a \<notin> bytes_at dest (Suc n) \<longrightarrow> m' a = m a)"
proof -
  have "strcpy dest src m = ret (dest, rep_movsb (Suc n) dest src m)"
    unfolding strcpy_def strcpy_loop_correct [OF assms(1-3)] by simp
  moreover have "\<forall>i \<le> n. rep_movsb (Suc n) dest src m (dest + of_nat i) = m (src + of_nat i)"
    using rep_movsb_value [OF assms(3)] assms(4) by (simp del: rep_movsb.simps)
  ultimately show ?thesis using rep_movsb_other by blast
qed

definition hi_there :: memory where
  "hi_there = (\<lambda>a. if a = 0x1000 then 72 else if a = 0x1001 then 105 else 0)"

theorem strcpy_copies_witness:
  "\<exists>m'. strcpy 0x2000 0x1000 hi_there = ret (0x2000, m') \<and>
    (\<forall>i \<le> 2. m' (0x2000 + of_nat i) = hi_there (0x1000 + of_nat i)) \<and>
    (\<forall>a. a \<notin> bytes_at 0x2000 (Suc 2) \<longrightarrow> m' a = hi_there a)"
proof (rule strcpy_copies)
  show "\<forall>i < 2. hi_there (0x1000 + of_nat i) \<noteq> 0"
    by (auto simp: hi_there_def less_2_cases_iff)
  show "copy_safe 0x2000 0x1000 (Suc 2)"
    by (intro copy_safe_disjoint set_eqI) (simp add: bytes_at_unat del: One_nat_def)
qed (simp_all add: hi_there_def)

end
