(* ===== verification/Signal.thy ===== *)
theory Signal
  imports Cstring
begin

text \<open>
  Signal sets. \<^verbatim>\<open>src/src/core/signal.cpp\<close> is the kernel's class \<^verbatim>\<open>Sigset\<close>, a record here;
  \<^verbatim>\<open>src/lib/include/signal.h\<close> is the copy user programs are compiled with, modelled over
  the bytes of the program's memory, since a program passes its address to the kernel. A
  \<^verbatim>\<open>signum\<close> is a C \<^verbatim>\<open>int\<close>.
\<close>

section \<open>The kernel's class\<close>

definition NSIGNAL_MAX :: int where
  "NSIGNAL_MAX = 32"

text \<open>\<^verbatim>\<open>uint32_t val[NSIGNAL_MAX / 32]\<close>\<close>

record Sigset =
  val :: "u32 list"

definition sigset_words :: nat where
  "sigset_words = nat (NSIGNAL_MAX div 32)"

definition sigset_wf :: "Sigset \<Rightarrow> bool" where
  "sigset_wf s \<longleftrightarrow> length (val s) = sigset_words"

text \<open>\<^verbatim>\<open>memset\<close> and \<^verbatim>\<open>memcpy\<close> of the whole array: every byte of every word.\<close>

definition byte_word :: "int \<Rightarrow> u32" where
  "byte_word v = (let b = ucast (word_of_int v :: u8) in b OR push_bit 8 b OR push_bit 16 b OR push_bit 24 b)"

definition Sigset_clear :: "Sigset \<Rightarrow> Sigset" where
  "Sigset_clear s = s\<lparr>val := replicate sigset_words (byte_word 0)\<rparr>"

definition Sigset_fill :: "Sigset \<Rightarrow> Sigset" where
  "Sigset_fill s = s\<lparr>val := replicate sigset_words (byte_word (-1))\<rparr>"

definition Sigset_new :: "Sigset \<Rightarrow> Sigset" where
  "Sigset_new s = Sigset_clear s"

definition Sigset_copy :: "Sigset \<Rightarrow> Sigset \<Rightarrow> Sigset" where
  "Sigset_copy s this = this\<lparr>val := val s\<rparr>"

definition Sigset_assign :: "Sigset \<Rightarrow> Sigset \<Rightarrow> Sigset" where
  "Sigset_assign s this = this\<lparr>val := val s\<rparr>"

definition sig_bit :: "int \<Rightarrow> u32" where
  "sig_bit signum = push_bit (nat (signum AND 31)) 1"

definition sig_word :: "int \<Rightarrow> nat" where
  "sig_word signum = nat (drop_bit 5 signum)"

definition Sigset_add :: "int \<Rightarrow> Sigset \<Rightarrow> Sigset" where
  "Sigset_add signum s =
     (if signum \<ge> 0 \<and> signum < NSIGNAL_MAX
      then s\<lparr>val := (val s)[sig_word signum := val s ! sig_word signum OR sig_bit signum]\<rparr> else s)"

definition Sigset_del :: "int \<Rightarrow> Sigset \<Rightarrow> Sigset" where
  "Sigset_del signum s =
     (if signum \<ge> 0 \<and> signum < NSIGNAL_MAX
      then s\<lparr>val := (val s)[sig_word signum := val s ! sig_word signum AND NOT (sig_bit signum)]\<rparr> else s)"

definition Sigset_test :: "int \<Rightarrow> Sigset \<Rightarrow> bool" where
  "Sigset_test signum s =
     (if signum \<ge> 0 \<and> signum < NSIGNAL_MAX
      then drop_bit (nat (signum AND 31)) (val s ! sig_word signum) AND 1 \<noteq> 0 else False)"

section \<open>The user library's class, in memory\<close>

definition lib_memset :: "u32 \<Rightarrow> int \<Rightarrow> int \<Rightarrow> memory \<Rightarrow> memory" where
  "lib_memset dest v cnt m = rep_stosb (unat (word_of_int cnt :: u32)) dest (word_of_int v) m"

definition lib_memcpy :: "u32 \<Rightarrow> u32 \<Rightarrow> int \<Rightarrow> memory \<Rightarrow> memory" where
  "lib_memcpy dest src cnt m = rep_movsb (unat (word_of_int cnt :: u32)) dest src m"

definition lib_NSIGNAL_MAX :: int where
  "lib_NSIGNAL_MAX = 32"

text \<open>\<^verbatim>\<open>sizeof(val)\<close>, and the address of \<^verbatim>\<open>val[i]\<close> in the object at \<open>this\<close>.\<close>

definition lib_sizeof_val :: int where
  "lib_sizeof_val = 4 * (lib_NSIGNAL_MAX div 32)"

definition lib_val :: "u32 \<Rightarrow> nat \<Rightarrow> u32" where
  "lib_val this i = this + 4 * of_nat i"

definition lib_Sigset_clear :: "u32 \<Rightarrow> memory \<Rightarrow> memory" where
  "lib_Sigset_clear this m = lib_memset this 0 lib_sizeof_val m"

definition lib_Sigset_fill :: "u32 \<Rightarrow> memory \<Rightarrow> memory" where
  "lib_Sigset_fill this m = lib_memset this (-1) lib_sizeof_val m"

definition lib_Sigset_new :: "u32 \<Rightarrow> memory \<Rightarrow> memory" where
  "lib_Sigset_new this m = lib_Sigset_clear this m"

definition lib_Sigset_copy :: "u32 \<Rightarrow> u32 \<Rightarrow> memory \<Rightarrow> memory" where
  "lib_Sigset_copy s this m = lib_memcpy this s lib_sizeof_val m"

definition lib_Sigset_assign :: "u32 \<Rightarrow> u32 \<Rightarrow> memory \<Rightarrow> memory" where
  "lib_Sigset_assign s this m = lib_memcpy this s lib_sizeof_val m"

definition lib_Sigset_add :: "u32 \<Rightarrow> int \<Rightarrow> memory \<Rightarrow> memory" where
  "lib_Sigset_add this signum m =
     (if signum \<ge> 0 \<and> signum < lib_NSIGNAL_MAX then
        (let a = lib_val this (sig_word signum) in store32 a (load32 a m OR sig_bit signum) m)
      else m)"

definition lib_Sigset_del :: "u32 \<Rightarrow> int \<Rightarrow> memory \<Rightarrow> memory" where
  "lib_Sigset_del this signum m =
     (if signum \<ge> 0 \<and> signum < lib_NSIGNAL_MAX then
        (let a = lib_val this (sig_word signum) in store32 a (load32 a m AND NOT (sig_bit signum)) m)
      else m)"

definition lib_Sigset_test :: "u32 \<Rightarrow> int \<Rightarrow> memory \<Rightarrow> bool" where
  "lib_Sigset_test this signum m =
     (if signum \<ge> 0 \<and> signum < lib_NSIGNAL_MAX
      then drop_bit (nat (signum AND 31)) (load32 (lib_val this (sig_word signum)) m) AND 1 \<noteq> 0
      else False)"

text \<open>The object the kernel sees behind a \<^verbatim>\<open>const Sigset *\<close> of the program.\<close>

definition load_Sigset :: "u32 \<Rightarrow> memory \<Rightarrow> Sigset" where
  "load_Sigset this m = \<lparr>val = map (\<lambda>i. load32 (lib_val this i) m) [0..<sigset_words]\<rparr>"

section \<open>Signal sets as sets\<close>

definition signals :: "Sigset \<Rightarrow> int set" where
  "signals s = {n. Sigset_test n s}"

lemma valid_signum:
  fixes n :: int
  assumes "0 \<le> n" "n < 32"
  shows "n AND 31 = n" "drop_bit 5 n = 0"
proof -
  have "n AND 31 = take_bit 5 n" by (simp add: take_bit_eq_mask mask_eq_exp_minus_1)
  then show "n AND 31 = n" using assms by (simp add: take_bit_int_eq_self_iff)
  show "drop_bit 5 n = 0" using assms by (simp add: drop_bit_eq_div)
qed

lemma sig_word_0: "0 \<le> n \<Longrightarrow> n < NSIGNAL_MAX \<Longrightarrow> sig_word n = 0"
  by (simp add: sig_word_def NSIGNAL_MAX_def valid_signum)

lemma low_bit: "drop_bit k (w :: u32) AND 1 \<noteq> 0 \<longleftrightarrow> bit w k"
  by (simp add: and_one_eq bit_iff_odd_drop_bit odd_iff_mod_2_eq_one)

lemma Sigset_test_bit: "Sigset_test n s \<longleftrightarrow> 0 \<le> n \<and> n < 32 \<and> bit (val s ! 0) (nat n)"
  by (auto simp: Sigset_test_def NSIGNAL_MAX_def sig_word_def valid_signum low_bit)

lemma in_signals: "n \<in> signals s \<longleftrightarrow> 0 \<le> n \<and> n < 32 \<and> bit (val s ! 0) (nat n)"
  by (simp add: signals_def Sigset_test_bit)

lemma signals_assign: "signals (Sigset_assign s t) = signals s"
  by (simp add: set_eq_iff in_signals Sigset_assign_def)

lemma bit_sig_bit: "0 \<le> n \<Longrightarrow> n < 32 \<Longrightarrow> 0 \<le> k \<Longrightarrow> k < 32 \<Longrightarrow> bit (sig_bit n) (nat k) \<longleftrightarrow> k = n"
  by (auto simp: sig_bit_def valid_signum bit_simps)

lemma byte_word_vals: "byte_word 0 = 0" "byte_word (-1) = -1"
proof -
  show "byte_word 0 = 0" by (simp add: byte_word_def)
  have "ucast (-1 :: u8) = (0xFF :: u32)" by (simp add: unsigned_minus_1_eq_mask mask_eq_exp_minus_1)
  then show "byte_word (-1) = -1" unfolding byte_word_def by (simp add: Let_def)
qed

lemma sigset_words_1: "sigset_words = 1"
  by (simp add: sigset_words_def NSIGNAL_MAX_def)

text \<open>
  The contract of a signal set: what each operation does to the set of signals it holds.
\<close>

locale signal_set =
  fixes abs :: "'s \<Rightarrow> int set" and invar :: "'s \<Rightarrow> bool"
    and clear fill :: "'s \<Rightarrow> 's" and add del :: "int \<Rightarrow> 's \<Rightarrow> 's" and tst :: "int \<Rightarrow> 's \<Rightarrow> bool"
  assumes clear: "invar (clear s)" "abs (clear s) = {}"
    and fill: "invar (fill s)" "abs (fill s) = {0..<32}"
    and add: "invar s \<Longrightarrow> invar (add n s)" "invar s \<Longrightarrow> abs (add n s) = abs s \<union> ({n} \<inter> {0..<32})"
    and del: "invar s \<Longrightarrow> invar (del n s)" "invar s \<Longrightarrow> abs (del n s) = abs s - {n}"
    and tst: "invar s \<Longrightarrow> tst n s \<longleftrightarrow> n \<in> abs s"
begin

lemma add_all: "invar s \<Longrightarrow> invar (fold add ns s) \<and> abs (fold add ns s) = abs s \<union> (set ns \<inter> {0..<32})"
  by (induction ns arbitrary: s) (auto simp: add)

lemma add_all_clear: "abs (fold add ns (clear s)) = set ns \<inter> {0..<32}"
  using add_all [of "clear s" ns] by (simp add: clear)

lemma add_del: "invar s \<Longrightarrow> n \<notin> abs s \<Longrightarrow> abs (del n (add n s)) = abs s"
  by (auto simp: add del)

end

interpretation kernel_set: signal_set signals sigset_wf Sigset_clear Sigset_fill Sigset_add Sigset_del Sigset_test
proof unfold_locales
  fix s :: Sigset and n :: int
  show "sigset_wf (Sigset_clear s)" "sigset_wf (Sigset_fill s)"
    by (simp_all add: sigset_wf_def Sigset_clear_def Sigset_fill_def)
  show "signals (Sigset_clear s) = {}" "signals (Sigset_fill s) = {0..<32}"
    by (auto simp: in_signals Sigset_clear_def Sigset_fill_def sigset_words_1 byte_word_vals bit_simps)
  assume wf: "sigset_wf s"
  then have len: "length (val s) = 1" by (simp add: sigset_wf_def sigset_words_1)
  show "sigset_wf (Sigset_add n s)" "sigset_wf (Sigset_del n s)"
    using wf by (simp_all add: sigset_wf_def Sigset_add_def Sigset_del_def)
  show "signals (Sigset_add n s) = signals s \<union> ({n} \<inter> {0..<32})"
  proof (intro set_eqI)
    fix k
    show "k \<in> signals (Sigset_add n s) \<longleftrightarrow> k \<in> signals s \<union> ({n} \<inter> {0..<32})"
      using bit_sig_bit [of n k] len
      by (auto simp: in_signals Sigset_add_def sig_word_0 bit_or_iff NSIGNAL_MAX_def)
  qed
  show "signals (Sigset_del n s) = signals s - {n}"
  proof (intro set_eqI)
    fix k
    show "k \<in> signals (Sigset_del n s) \<longleftrightarrow> k \<in> signals s - {n}"
      using bit_sig_bit [of n k] len
      by (auto simp: in_signals Sigset_del_def sig_word_0 bit_and_iff bit_not_iff NSIGNAL_MAX_def)
  qed
  show "Sigset_test n s \<longleftrightarrow> n \<in> signals s" by (simp add: signals_def)
qed

section \<open>The two classes agree\<close>

lemma lib_MAX: "lib_NSIGNAL_MAX = NSIGNAL_MAX" "lib_sizeof_val = 4"
  by (simp_all add: lib_NSIGNAL_MAX_def NSIGNAL_MAX_def lib_sizeof_val_def)

lemma val_load_Sigset: "val (load_Sigset this m) = [load32 this m]"
  by (simp add: load_Sigset_def sigset_words_1 lib_val_def)

lemma load32_fill: "(\<And>a. a \<in> bytes_at this 4 \<Longrightarrow> m a = word_of_int v) \<Longrightarrow> load32 this m = byte_word v"
  using bytes_at_4 [of this] by (simp add: load32_def byte_word_def Let_def)

lemma lib_clear_agrees: "load_Sigset this (lib_Sigset_clear this m) = Sigset_clear (load_Sigset this m)"
  by (intro Sigset.equality)
    (simp_all add: val_load_Sigset Sigset_clear_def sigset_words_1 lib_Sigset_clear_def lib_memset_def
      lib_MAX rep_stosb_value load32_fill)

lemma lib_fill_agrees: "load_Sigset this (lib_Sigset_fill this m) = Sigset_fill (load_Sigset this m)"
  by (intro Sigset.equality)
    (simp_all add: val_load_Sigset Sigset_fill_def sigset_words_1 lib_Sigset_fill_def lib_memset_def
      lib_MAX rep_stosb_value load32_fill [where v = "-1"])

lemma lib_add_agrees: "load_Sigset this (lib_Sigset_add this n m) = Sigset_add n (load_Sigset this m)"
  by (intro Sigset.equality)
    (simp_all add: val_load_Sigset Sigset_add_def lib_Sigset_add_def lib_MAX sig_word_0 lib_val_def Let_def)

lemma lib_del_agrees: "load_Sigset this (lib_Sigset_del this n m) = Sigset_del n (load_Sigset this m)"
  by (intro Sigset.equality)
    (simp_all add: val_load_Sigset Sigset_del_def lib_Sigset_del_def lib_MAX sig_word_0 lib_val_def Let_def)

lemma lib_test_agrees: "lib_Sigset_test this n m = Sigset_test n (load_Sigset this m)"
  by (simp add: val_load_Sigset Sigset_test_def lib_Sigset_test_def lib_MAX sig_word_0 lib_val_def)

lemma load_Sigset_wf: "sigset_wf (load_Sigset this m)"
  by (simp add: sigset_wf_def load_Sigset_def)

interpretation lib_set: signal_set "\<lambda>m. signals (load_Sigset this m)" "\<lambda>m. True" "lib_Sigset_clear this"
  "lib_Sigset_fill this" "lib_Sigset_add this" "lib_Sigset_del this" "lib_Sigset_test this" for this
  by unfold_locales
    (simp_all add: lib_clear_agrees lib_fill_agrees lib_add_agrees lib_del_agrees lib_test_agrees
      load_Sigset_wf kernel_set.clear kernel_set.fill kernel_set.add kernel_set.del kernel_set.tst)

lemma lib_other_bytes:
  assumes "a \<notin> bytes_at this 4"
  shows "lib_Sigset_add this n m a = m a" "lib_Sigset_del this n m a = m a"
    "lib_Sigset_clear this m a = m a" "lib_Sigset_fill this m a = m a"
  using assms
  by (simp_all add: lib_Sigset_add_def lib_Sigset_del_def lib_Sigset_clear_def lib_Sigset_fill_def
      lib_memset_def lib_MAX rep_stosb_value store32_other sig_word_0 lib_val_def Let_def)

section \<open>Properties\<close>

text \<open>
  C37: the kernel's \<^verbatim>\<open>Sigset\<close> operations are the set operations on the signals 0 to 31:
  \<^verbatim>\<open>add\<close> and \<^verbatim>\<open>del\<close> change one signal and ignore numbers out of range, \<^verbatim>\<open>test\<close> is
  membership, and the array keeps its size.
\<close>

theorem sigset_is_set:
  assumes "sigset_wf s"
  shows "signals (Sigset_clear s) = {} \<and> signals (Sigset_fill s) = {0..<NSIGNAL_MAX} \<and>
    signals (Sigset_add n s) = (if 0 \<le> n \<and> n < NSIGNAL_MAX then insert n (signals s) else signals s) \<and>
    signals (Sigset_del n s) = signals s - {n} \<and> (Sigset_test n s \<longleftrightarrow> n \<in> signals s) \<and>
    sigset_wf (Sigset_add n s) \<and> sigset_wf (Sigset_del n s)"
  using assms kernel_set.clear kernel_set.fill kernel_set.add [of s n] kernel_set.del [of s n]
    kernel_set.tst [of s n]
  by (auto simp: NSIGNAL_MAX_def)

theorem sigset_is_set_witness:
  "signals (Sigset_add 7 (Sigset_clear \<lparr>val = [5]\<rparr>)) = {7}"
  using sigset_is_set [of "Sigset_clear \<lparr>val = [5]\<rparr>" 7] sigset_is_set [of "\<lparr>val = [5]\<rparr>" 7]
  by (simp add: sigset_wf_def Sigset_clear_def sigset_words_1 NSIGNAL_MAX_def)

text \<open>
  A signal set that a program builds in its memory with the library's \<^verbatim>\<open>Sigset\<close> and passes
  by address is read by the kernel as exactly the valid signals added, and building it writes only
  the four bytes of the object.
\<close>

theorem lib_sigset_reaches_kernel:
  "signals (load_Sigset this (fold (lib_Sigset_add this) ns (lib_Sigset_new this m))) = set ns \<inter> {0..<NSIGNAL_MAX} \<and>
   (\<forall>a. a \<notin> bytes_at this 4 \<longrightarrow> fold (lib_Sigset_add this) ns (lib_Sigset_new this m) a = m a)"
proof
  show "signals (load_Sigset this (fold (lib_Sigset_add this) ns (lib_Sigset_new this m))) = set ns \<inter> {0..<NSIGNAL_MAX}"
    using lib_set.add_all_clear [of this ns m] by (simp add: NSIGNAL_MAX_def lib_Sigset_new_def)
  have "fold (lib_Sigset_add this) ns m' a = m' a" if "a \<notin> bytes_at this 4" for m' a
    using that by (induction ns arbitrary: m') (simp_all add: lib_other_bytes)
  then show "\<forall>a. a \<notin> bytes_at this 4 \<longrightarrow> fold (lib_Sigset_add this) ns (lib_Sigset_new this m) a = m a"
    by (simp add: lib_other_bytes lib_Sigset_new_def)
qed

theorem lib_sigset_reaches_kernel_witness:
  "signals (load_Sigset 0x8000 (fold (lib_Sigset_add 0x8000) [3, 40, 9] (lib_Sigset_new 0x8000 (\<lambda>a. 7)))) = {3, 9}
   \<and> fold (lib_Sigset_add 0x8000) [3, 40, 9] (lib_Sigset_new 0x8000 (\<lambda>a. 7)) 0x8004 = 7"
  using lib_sigset_reaches_kernel [of "0x8000" "[3, 40, 9]" "\<lambda>a. 7"] bytes_at_unat [of "0x8000" 4 "0x8004"]
  by (auto simp: NSIGNAL_MAX_def)

end
