(* ===== verification/Task_Queue.thy ===== *)
theory Task_Queue
  imports Signal Errno
begin

text \<open>
  Tasks and the cyclic queues that hold them (\<^verbatim>\<open>Task_t\<close>, \<^verbatim>\<open>Task_queue\<close> of
  \<^verbatim>\<open>src/src/core/task.cpp\<close>), at the level of the \<^verbatim>\<open>queue_next\<close> and
  \<^verbatim>\<open>queue_prev\<close> pointers, with the contract of a queue as a locale and its proof for these
  operations.
\<close>

section \<open>Tasks\<close>

datatype Task_state_t = TS_RUNNING | TS_SLEEPING | TS_ZOMBIE

text \<open>
  A task object; \<^verbatim>\<open>rbt_node_mem\<close>, the memory of its tree node, is modelled by the nodes
  of the tree. Objects are found by address, \<^verbatim>\<open>NULL\<close> being 0.
\<close>

record Task_t =
  pid :: pid_t
  esp :: u32
  ebp :: u32
  eip :: u32
  page_dir :: u32
  state :: Task_state_t
  uid :: uid_t
  gid :: gid_t
  errno :: int
  parent :: u32
  queue_next :: u32
  queue_prev :: u32
  sig_wakeup :: Sigset

type_synonym task_store = "u32 \<Rightarrow> Task_t"

definition upd_task :: "u32 \<Rightarrow> (Task_t \<Rightarrow> Task_t) \<Rightarrow> task_store \<Rightarrow> task_store" where
  "upd_task a f T = T(a := f (T a))"

section \<open>Queue operations\<close>

text \<open>The queue is its \<^verbatim>\<open>ptr\<close>; the operations return the new one with the store.\<close>

definition Task_queue_insert :: "u32 \<Rightarrow> u32 \<Rightarrow> task_store \<Rightarrow> u32 \<times> task_store" where
  "Task_queue_insert ptr task T =
     (if ptr = 0 then (task, upd_task task (\<lambda>t. t\<lparr>queue_prev := task, queue_next := task\<rparr>) T)
      else
        (let T = upd_task task (\<lambda>t. t\<lparr>queue_next := queue_next (T ptr)\<rparr>) T;
             T = upd_task (queue_next (T task)) (\<lambda>t. t\<lparr>queue_prev := task\<rparr>) T;
             T = upd_task ptr (\<lambda>t. t\<lparr>queue_next := task\<rparr>) T;
             T = upd_task task (\<lambda>t. t\<lparr>queue_prev := ptr\<rparr>) T
         in (ptr, T)))"

definition Task_queue_remove :: "u32 \<Rightarrow> u32 \<Rightarrow> task_store \<Rightarrow> (u32 \<times> task_store) exec" where
  "Task_queue_remove ptr task T =
     (if queue_next (T ptr) = ptr then
        andThen (kassert (ptr = task) ''ptr == task'') (\<lambda>_. ret (0, T))
      else
        (let ptr' = (if ptr = task then queue_next (T ptr) else ptr);
             T = upd_task (queue_prev (T task)) (\<lambda>t. t\<lparr>queue_next := queue_next (T task)\<rparr>) T;
             T = upd_task (queue_next (T task)) (\<lambda>t. t\<lparr>queue_prev := queue_prev (T task)\<rparr>) T;
             T = upd_task task (\<lambda>t. t\<lparr>queue_prev := 0, queue_next := 0\<rparr>) T
         in ret (ptr', T)))"

section \<open>Rings\<close>

fun chain :: "task_store \<Rightarrow> u32 \<Rightarrow> u32 list \<Rightarrow> u32 \<Rightarrow> bool" where
  "chain T a [] b \<longleftrightarrow> queue_next (T a) = b \<and> queue_prev (T b) = a"
| "chain T a (x # xs) b \<longleftrightarrow> queue_next (T a) = x \<and> queue_prev (T x) = a \<and> chain T x xs b"

definition ring :: "task_store \<Rightarrow> u32 \<Rightarrow> u32 list \<Rightarrow> bool" where
  "ring T p xs \<longleftrightarrow> 0 \<notin> set xs \<and> distinct xs \<and>
     (case xs of [] \<Rightarrow> p = 0 | x # r \<Rightarrow> p = x \<and> chain T x r x)"

lemma chain_append: "chain T a (xs @ x # ys) b \<longleftrightarrow> chain T a xs x \<and> chain T x ys b"
  by (induction xs arbitrary: a) auto

lemma chain_cong:
  assumes "\<And>x. x \<in> set (a # xs) \<Longrightarrow> queue_next (T' x) = queue_next (T x)"
    and "\<And>x. x \<in> set (xs @ [b]) \<Longrightarrow> queue_prev (T' x) = queue_prev (T x)"
  shows "chain T' a xs b \<longleftrightarrow> chain T a xs b"
  using assms by (induction xs arbitrary: a) auto

lemma ring_cong:
  assumes "\<And>x. x \<in> set xs \<Longrightarrow> queue_next (T' x) = queue_next (T x) \<and> queue_prev (T' x) = queue_prev (T x)"
  shows "ring T' p xs \<longleftrightarrow> ring T p xs"
proof (cases xs)
  case (Cons x r)
  then have "chain T' x r x \<longleftrightarrow> chain T x r x" using assms by (intro chain_cong) auto
  with Cons show ?thesis by (simp add: ring_def)
qed (simp add: ring_def)

lemma ring_ptr: "ring T p xs \<Longrightarrow> p = 0 \<longleftrightarrow> xs = []"
  by (cases xs) (auto simp: ring_def)

text \<open>The ring seen from any of its tasks.\<close>

lemma ring_rotate: "ring T p (xs @ t # ys) \<Longrightarrow> ring T t (t # ys @ xs)"
  by (cases xs) (auto simp: ring_def chain_append)

lemma ring_next: "ring T p (x # y # r) \<Longrightarrow> queue_next (T x) = y"
  by (simp add: ring_def)

section \<open>Insertion and removal on rings\<close>

definition insert_after :: "'a \<Rightarrow> 'a list \<Rightarrow> 'a list" where
  "insert_after t xs = (case xs of [] \<Rightarrow> [t] | x # r \<Rightarrow> x # t # r)"

lemma set_insert_after [simp]: "set (insert_after t xs) = insert t (set xs)"
  by (cases xs) (auto simp: insert_after_def)

lemma link_chain:
  assumes "chain T p r p" "t \<notin> set (p # r)" "distinct (p # r)"
  defines "T' \<equiv> snd (Task_queue_insert p t T)"
  assumes "p \<noteq> 0"
  shows "chain T' p (t # r) p"
proof (cases r)
  case Nil
  then show ?thesis using assms by (auto simp: Task_queue_insert_def upd_task_def Let_def)
next
  case (Cons c r')
  have "chain T' c r' p \<longleftrightarrow> chain T c r' p"
    using assms Cons by (intro chain_cong) (auto simp: Task_queue_insert_def upd_task_def Let_def)
  then show ?thesis using assms Cons by (auto simp: Task_queue_insert_def upd_task_def Let_def)
qed

lemma insert_ring:
  assumes "ring T p xs" "t \<notin> set xs" "t \<noteq> 0" "Task_queue_insert p t T = (p', T')"
  shows "ring T' p' (insert_after t xs)"
proof (cases xs)
  case Nil
  then show ?thesis using assms by (auto simp: ring_def insert_after_def Task_queue_insert_def upd_task_def)
next
  case (Cons x r)
  then have "chain T' x (t # r) x"
    using assms link_chain [of T p r t] by (auto simp: ring_def)
  then show ?thesis using assms Cons by (auto simp: ring_def insert_after_def Task_queue_insert_def Let_def)
qed

definition unlink :: "u32 \<Rightarrow> task_store \<Rightarrow> task_store" where
  "unlink task T =
     (let T = upd_task (queue_prev (T task)) (\<lambda>t. t\<lparr>queue_next := queue_next (T task)\<rparr>) T;
          T = upd_task (queue_next (T task)) (\<lambda>t. t\<lparr>queue_prev := queue_prev (T task)\<rparr>) T
      in upd_task task (\<lambda>t. t\<lparr>queue_prev := 0, queue_next := 0\<rparr>) T)"

lemma unlink_chain:
  assumes "chain T a xs t" "chain T t ys a" "distinct (a # xs @ t # ys)"
  shows "chain (unlink t T) a (xs @ ys) a"
proof -
  have left: "chain (unlink t T) a zs u"
    if "chain T a zs u" "queue_prev (T t) = u" "set (a # zs) \<subseteq> set (a # xs) - {u}" "t \<notin> set (a # zs @ [u])"
      "queue_next (T t) \<notin> set (zs @ [u])" for zs u
    using that by (subst chain_cong [where T = T]) (auto simp: unlink_def upd_task_def Let_def)
  show ?thesis
  proof (cases xs rule: rev_cases)
    case Nil
    show ?thesis
    proof (cases ys)
      case Nil
      with \<open>xs = []\<close> assms show ?thesis by (auto simp: unlink_def upd_task_def Let_def)
    next
      case (Cons v ys')
      have "chain (unlink t T) v ys' a \<longleftrightarrow> chain T v ys' a"
        using assms \<open>xs = []\<close> Cons by (intro chain_cong) (auto simp: unlink_def upd_task_def Let_def)
      with \<open>xs = []\<close> Cons assms show ?thesis by (auto simp: unlink_def upd_task_def Let_def)
    qed
  next
    case (snoc xs' u)
    have ch: "chain T a xs' u" "queue_next (T u) = t" "queue_prev (T t) = u"
      using assms(1) snoc by (simp_all add: chain_append)
    show ?thesis
    proof (cases ys)
      case Nil
      then have "chain (unlink t T) a xs' u" using ch assms snoc by (intro left) auto
      with Nil snoc ch assms show ?thesis by (auto simp: chain_append unlink_def upd_task_def Let_def)
    next
      case (Cons v ys')
      have "chain (unlink t T) a xs' u" using ch assms snoc Cons by (intro left) auto
      moreover have "chain (unlink t T) v ys' a \<longleftrightarrow> chain T v ys' a"
        using ch assms snoc Cons by (intro chain_cong) (auto simp: unlink_def upd_task_def Let_def)
      ultimately show ?thesis
        using Cons snoc ch assms by (auto simp: chain_append unlink_def upd_task_def Let_def)
    qed
  qed
qed

lemma remove_unlink:
  "queue_next (T p) \<noteq> p \<Longrightarrow> Task_queue_remove p t T = ret (if p = t then queue_next (T p) else p, unlink t T)"
  by (simp add: Task_queue_remove_def unlink_def Let_def)

lemma remove_ring:
  assumes "ring T p xs" "t \<in> set xs"
  shows "\<exists>p' T'. Task_queue_remove p t T = ret (p', T') \<and> ring T' p' (remove1 t xs)"
proof (cases xs)
  case Nil
  with assms(2) show ?thesis by simp
next
  case (Cons x r)
  then have x: "p = x" "chain T p r p" "distinct (p # r)" "0 \<notin> set (p # r)" using assms(1) by (auto simp: ring_def)
  show ?thesis
  proof (cases r)
    case Nil
    with x Cons assms(2) show ?thesis by (auto simp: Task_queue_remove_def ring_def)
  next
    case (Cons c r')
    then have more: "queue_next (T p) \<noteq> p" using x by auto
    show ?thesis
    proof (cases "t = p")
      case True
      have "chain T c r' p" "chain T p [] c" using x Cons by auto
      then have "chain (unlink p T) c (r' @ []) c" using x Cons by (intro unlink_chain) auto
      then show ?thesis
        using True x Cons \<open>xs = x # r\<close> more by (auto simp: remove_unlink ring_def)
    next
      case False
      then obtain ys zs where r: "r = ys @ t # zs" using assms(2) \<open>xs = x # r\<close> x(1) by (auto dest: split_list)
      then have "chain (unlink t T) p (ys @ zs) p" using x by (intro unlink_chain) (auto simp: chain_append)
      then have "ring (unlink t T) p (p # ys @ zs)" using x r by (auto simp: ring_def)
      moreover have "remove1 t xs = p # ys @ zs"
        using \<open>xs = x # r\<close> x r False by (auto simp: remove1_append)
      ultimately show ?thesis using more False by (auto simp: remove_unlink)
    qed
  qed
qed

section \<open>The contract of a queue\<close>

text \<open>
  Several queues share one store. An operation on one of them keeps the others, whose tasks it
  does not touch, and whatever the tasks hold besides their links.
\<close>

locale task_queue =
  fixes rep :: "'s \<Rightarrow> u32 \<Rightarrow> u32 list \<Rightarrow> bool" and data :: "'s \<Rightarrow> u32 \<Rightarrow> 'd"
    and ins :: "u32 \<Rightarrow> u32 \<Rightarrow> 's \<Rightarrow> u32 \<times> 's" and rem :: "u32 \<Rightarrow> u32 \<Rightarrow> 's \<Rightarrow> (u32 \<times> 's) exec"
  assumes rep_distinct: "rep s p xs \<Longrightarrow> distinct xs" and rep_nonnull: "rep s p xs \<Longrightarrow> 0 \<notin> set xs"
    and ins_rep: "rep s p xs \<Longrightarrow> t \<notin> set xs \<Longrightarrow> t \<noteq> 0 \<Longrightarrow> ins p t s = (p', s') \<Longrightarrow> rep s' p' (insert_after t xs)"
    and ins_frame: "rep s p xs \<Longrightarrow> rep s q ys \<Longrightarrow> set xs \<inter> set ys = {} \<Longrightarrow> t \<notin> set ys \<Longrightarrow>
      ins p t s = (p', s') \<Longrightarrow> rep s' q ys"
    and ins_data: "ins p t s = (p', s') \<Longrightarrow> data s' = data s"
    and rem_rep: "rep s p xs \<Longrightarrow> t \<in> set xs \<Longrightarrow> \<exists>p' s'. rem p t s = ret (p', s') \<and> rep s' p' (remove1 t xs)"
    and rem_frame: "rep s p xs \<Longrightarrow> rep s q ys \<Longrightarrow> set xs \<inter> set ys = {} \<Longrightarrow> t \<in> set xs \<Longrightarrow>
      rem p t s = ret (p', s') \<Longrightarrow> rep s' q ys"
    and rem_data: "rem p t s = ret (p', s') \<Longrightarrow> data s' = data s"
begin

text \<open>Moving a task from one queue to another, as \<^verbatim>\<open>sleep\<close> and \<^verbatim>\<open>wakeup\<close> do.\<close>

lemma move:
  assumes "rep s p xs" "rep s q ys" "rep s z zs" "t \<in> set xs"
    and "set xs \<inter> set ys = {}" "set xs \<inter> set zs = {}" "set ys \<inter> set zs = {}"
  shows "\<exists>p' s1 q' s'. rem p t s = ret (p', s1) \<and> ins q t s1 = (q', s') \<and>
    rep s' p' (remove1 t xs) \<and> rep s' q' (insert_after t ys) \<and> rep s' z zs \<and> data s' = data s"
proof -
  obtain p' s1 where rem: "rem p t s = ret (p', s1)" and xs: "rep s1 p' (remove1 t xs)"
    using rem_rep [OF assms(1,4)] by blast
  obtain q' s' where ins: "ins q t s1 = (q', s')" by (metis surj_pair)
  have ys: "rep s1 q ys" and zs: "rep s1 z zs"
    using assms rem by (blast intro: rem_frame)+
  have t: "t \<notin> set ys" "t \<notin> set zs" "t \<noteq> 0" "t \<notin> set (remove1 t xs)"
    using assms rep_nonnull [OF assms(1)] rep_distinct [OF assms(1)] by auto
  have dis: "set ys \<inter> set (remove1 t xs) = {}" using assms(5) set_remove1_subset [of t xs] by blast
  have "rep s' q' (insert_after t ys)" by (rule ins_rep [OF ys t(1,3) ins])
  moreover have "rep s' p' (remove1 t xs)" by (rule ins_frame [OF ys xs dis t(4) ins])
  moreover have "rep s' z zs" by (rule ins_frame [OF ys zs assms(7) t(2) ins])
  moreover have "data s' = data s" using ins_data [OF ins] rem_data [OF rem] by simp
  ultimately show ?thesis using rem ins by blast
qed

end

definition task_data :: "task_store \<Rightarrow> u32 \<Rightarrow> Task_t" where
  "task_data T a = (T a)\<lparr>queue_next := 0, queue_prev := 0\<rparr>"

lemma task_data_links:
  "task_data (upd_task a (\<lambda>t. t\<lparr>queue_next := v\<rparr>) T) = task_data T"
  "task_data (upd_task a (\<lambda>t. t\<lparr>queue_prev := v\<rparr>) T) = task_data T"
  "task_data (upd_task a (\<lambda>t. t\<lparr>queue_prev := v, queue_next := w\<rparr>) T) = task_data T"
  by (simp_all add: fun_eq_iff task_data_def upd_task_def)

lemma chain_ends:
  assumes "chain T a xs b" "x \<in> set (a # xs)"
  shows "queue_next (T x) \<in> set (xs @ [b])"
  using assms by (induction xs arbitrary: a) auto

lemma chain_ends_prev:
  assumes "chain T a xs b" "x \<in> set (xs @ [b])"
  shows "queue_prev (T x) \<in> set (a # xs)"
  using assms by (induction xs arbitrary: a) auto

lemma ring_closed:
  assumes "ring T p xs" "x \<in> set xs"
  shows "queue_next (T x) \<in> set xs" "queue_prev (T x) \<in> set xs"
  using assms chain_ends [of T p "tl xs" p x] chain_ends_prev [of T p "tl xs" p x]
  by (cases xs; auto simp: ring_def)+

lemma insert_unchanged:
  assumes "ring T p xs" "a \<notin> set xs" "a \<noteq> t" "Task_queue_insert p t T = (p', T')"
  shows "T' a = T a"
proof (cases xs)
  case Nil
  then show ?thesis using assms by (auto simp: ring_def Task_queue_insert_def upd_task_def)
next
  case (Cons x r)
  then have "p \<in> set xs" using assms(1) by (auto simp: ring_def)
  then have "a \<noteq> p" "a \<noteq> queue_next (T p)" using assms(2) ring_closed(1) [OF assms(1)] by auto
  then show ?thesis using assms by (auto simp: Task_queue_insert_def upd_task_def Let_def split: if_splits)
qed

lemma remove_unchanged:
  assumes "ring T p xs" "t \<in> set xs" "a \<notin> set xs" "Task_queue_remove p t T = ret (p', T')"
  shows "T' a = T a"
proof -
  have "a \<noteq> t" "a \<noteq> queue_next (T t)" "a \<noteq> queue_prev (T t)"
    using assms ring_closed [OF assms(1,2)] by auto
  then show ?thesis using assms(4)
    by (auto simp: Task_queue_remove_def upd_task_def Let_def split: if_splits)
qed

interpretation ring_queue: task_queue ring task_data Task_queue_insert Task_queue_remove
proof unfold_locales
  fix T p xs t p' T' q ys
  show "ring T p xs \<Longrightarrow> distinct xs" "ring T p xs \<Longrightarrow> 0 \<notin> set xs" by (simp_all add: ring_def)
  show "ring T p xs \<Longrightarrow> t \<notin> set xs \<Longrightarrow> t \<noteq> 0 \<Longrightarrow> Task_queue_insert p t T = (p', T') \<Longrightarrow>
      ring T' p' (insert_after t xs)" by (rule insert_ring)
  show "ring T p xs \<Longrightarrow> t \<in> set xs \<Longrightarrow>
      \<exists>p' T'. Task_queue_remove p t T = ret (p', T') \<and> ring T' p' (remove1 t xs)" by (rule remove_ring)
  show "ring T' q ys" if "ring T p xs" "ring T q ys" "set xs \<inter> set ys = {}" "t \<notin> set ys"
    "Task_queue_insert p t T = (p', T')"
  proof -
    have "T' a = T a" if "a \<in> set ys" for a
      using that \<open>ring T p xs\<close> \<open>t \<notin> set ys\<close> \<open>set xs \<inter> set ys = {}\<close>
        \<open>Task_queue_insert p t T = (p', T')\<close> by (intro insert_unchanged) auto
    then show ?thesis using that(2) by (subst ring_cong [where T = T]) auto
  qed
  show "ring T' q ys" if "ring T p xs" "ring T q ys" "set xs \<inter> set ys = {}" "t \<in> set xs"
    "Task_queue_remove p t T = ret (p', T')"
  proof -
    have "T' a = T a" if "a \<in> set ys" for a
      using that \<open>ring T p xs\<close> \<open>t \<in> set xs\<close> \<open>set xs \<inter> set ys = {}\<close>
        \<open>Task_queue_remove p t T = ret (p', T')\<close> by (intro remove_unchanged) auto
    then show ?thesis using that(2) by (subst ring_cong [where T = T]) auto
  qed
  show "task_data T' = task_data T" if "Task_queue_insert p t T = (p', T')"
    using that by (auto simp: Task_queue_insert_def task_data_links Let_def split: if_splits)
  show "task_data T' = task_data T" if "Task_queue_remove p t T = ret (p', T')"
    using that by (auto simp: Task_queue_remove_def task_data_links Let_def split: if_splits)
qed

end
