(* ===== verification/Task.thy ===== *)
theory Task
  imports Task_Queue Page
begin

text \<open>
  Tasks, \<^verbatim>\<open>src/src/core/task.cpp\<close>: the table of tasks by identifier, \<^verbatim>\<open>fork\<close>,
  the scheduler, \<^verbatim>\<open>sleep\<close> and \<^verbatim>\<open>wakeup\<close>, the move of the boot stack and the switch to user
  mode.

  Where the code calls \<^verbatim>\<open>read_eip\<close>, control can come back a second time: the saved
  address is jumped to with \<open>0xFFFFFFFF\<close> in \<^verbatim>\<open>eax\<close>. What follows the call is a definition of
  its own (\<^verbatim>\<open>_after\<close>), whose first argument is the value \<^verbatim>\<open>read_eip\<close> returned. The
  argument \<open>ra\<close> of a routine is the address of its \<^verbatim>\<open>read_eip\<close> call's return, which the
  compiler chooses, and \<open>km\<close> is \<^verbatim>\<open>kmalloc\<close>.
\<close>

section \<open>State\<close>

record Pair_id_task =
  pair_id :: pid_t
  pair_task :: u32

definition lt_id :: "Pair_id_task \<Rightarrow> Pair_id_task \<Rightarrow> bool" where
  "lt_id p q \<longleftrightarrow> pair_id p < pair_id q"

text \<open>The registers this code reads and writes.\<close>

record cpu =
  r_eax :: u32
  r_esp :: u32
  r_ebp :: u32
  r_eip :: u32
  r_eflags :: u32
  r_cs :: u16
  r_ds :: u16
  r_es :: u16
  r_fs :: u16
  r_gs :: u16
  r_ss :: u16

record task_state =
  pg :: page_state
  tasks :: task_store
  rbt_id2task :: "Pair_id_task Rbt"
  latest_task :: u32
  current_task :: u32
  running :: u32
  sleeping :: u32
  zombie :: u32
  pid_next :: pid_t
  switch_to_user_mode_called :: bool
  initial_stack_pointer :: u32
  cpu :: cpu

type_synonym kmalloc_fn = "u32 \<Rightarrow> nat \<Rightarrow> page_state \<Rightarrow> (u32 \<times> page_state) exec"

text \<open>A routine returns to its caller, or it has jumped to the code of another task.\<close>

datatype 'a flow = Returned 'a | Jumped

definition FLAG_IF :: u32 where
  "FLAG_IF = 0x200"

definition CLI_SAVE_EFLAGS :: "task_state \<Rightarrow> u32 \<times> task_state" where
  "CLI_SAVE_EFLAGS s =
     (let old = r_eflags (cpu s) in (old, s\<lparr>cpu := (cpu s)\<lparr>r_eflags := old AND NOT FLAG_IF\<rparr>\<rparr>))"

definition RESTORE_EFLAGS :: "u32 \<Rightarrow> task_state \<Rightarrow> task_state" where
  "RESTORE_EFLAGS old s = s\<lparr>cpu := (cpu s)\<lparr>r_eflags := old\<rparr>\<rparr>"

definition set_task :: "u32 \<Rightarrow> (Task_t \<Rightarrow> Task_t) \<Rightarrow> task_state \<Rightarrow> task_state" where
  "set_task a f s = s\<lparr>tasks := upd_task a f (tasks s)\<rparr>"

section \<open>The table of tasks\<close>

text \<open>
  \<^verbatim>\<open>Task_t::rbt_alloc\<close>: the node lies in the newest task object, 52 bytes in, on the next even
  address; the object is 76 bytes, of which \<^verbatim>\<open>rbt_node_mem\<close> is 21.
\<close>

definition sizeof_Task_t :: u32 where
  "sizeof_Task_t = 76"

definition rbt_node_mem :: "u32 \<Rightarrow> u32" where
  "rbt_node_mem task = task + 52"

definition rbt_alloc :: "u32 \<Rightarrow> (u32 \<times> u32) exec" where
  "rbt_alloc latest = (let a = rbt_node_mem latest in ret (a + (a AND 1), latest))"

definition rbt_free :: "u32 \<Rightarrow> u32 \<Rightarrow> u32" where
  "rbt_free p latest = latest"

definition id2task :: "pid_t \<Rightarrow> task_state \<Rightarrow> u32 exec" where
  "id2task p s =
     andThen (find_ge lt_id \<lparr>pair_id = p, pair_task = 0\<rparr> (rbt_id2task s)) (\<lambda>ptr.
       if ptr \<noteq> 0 then ret (pair_task (key (node (rbt_id2task s) ptr))) else ret 0)"

partial_function (option) next_pid_loop :: "task_state \<Rightarrow> pid_t \<Rightarrow> pid_t exec" where
  "next_pid_loop s nxt =
     andThen (id2task nxt s) (\<lambda>t. if t \<noteq> 0 then next_pid_loop s (nxt + 1) else ret nxt)"

definition get_next_pid :: "task_state \<Rightarrow> (pid_t \<times> task_state) exec" where
  "get_next_pid s = andThen (next_pid_loop s (pid_next s)) (\<lambda>n. ret (n, s\<lparr>pid_next := n + 1\<rparr>))"

text \<open>What the compiler collects from \<^verbatim>\<open>task.cpp\<close> to run before \<^verbatim>\<open>main\<close>: the constructor of \<^verbatim>\<open>rbt_id2task\<close>.\<close>

definition task_static_init :: "task_state \<Rightarrow> task_state" where
  "task_static_init s = s\<lparr>rbt_id2task := Rbt_init (rbt_id2task s)\<rparr>"

text \<open>The constructor \<^verbatim>\<open>Task_t(dir)\<close> on the object at \<open>this\<close>.\<close>

definition Task_t_init :: "u32 \<Rightarrow> u32 \<Rightarrow> task_state \<Rightarrow> task_state exec" where
  "Task_t_init this dir s =
     andThen (get_next_pid s) (\<lambda>(n, s).
       let s = set_task this (\<lambda>t. t\<lparr>pid := n, esp := 0, ebp := 0, eip := 0, page_dir := dir,
                 state := TS_RUNNING, errno := 0, parent := 0, queue_next := 0, queue_prev := 0,
                 sig_wakeup := Sigset_new (sig_wakeup t)\<rparr>) s;
           s = s\<lparr>latest_task := this\<rparr>
       in andThen (rbt_insert rbt_alloc lt_id \<lparr>pair_id = n, pair_task = this\<rparr> (rbt_id2task s) (latest_task s))
            (\<lambda>(t, m). ret (s\<lparr>rbt_id2task := t, latest_task := m\<rparr>)))"

section \<open>Queues, the current task\<close>

definition running_insert :: "u32 \<Rightarrow> task_state \<Rightarrow> task_state" where
  "running_insert t s = (let (q, T) = Task_queue_insert (running s) t (tasks s) in s\<lparr>running := q, tasks := T\<rparr>)"

definition sleeping_insert :: "u32 \<Rightarrow> task_state \<Rightarrow> task_state" where
  "sleeping_insert t s = (let (q, T) = Task_queue_insert (sleeping s) t (tasks s) in s\<lparr>sleeping := q, tasks := T\<rparr>)"

definition running_remove :: "u32 \<Rightarrow> task_state \<Rightarrow> task_state exec" where
  "running_remove t s =
     andThen (Task_queue_remove (running s) t (tasks s)) (\<lambda>(q, T). ret (s\<lparr>running := q, tasks := T\<rparr>))"

definition sleeping_remove :: "u32 \<Rightarrow> task_state \<Rightarrow> task_state exec" where
  "sleeping_remove t s =
     andThen (Task_queue_remove (sleeping s) t (tasks s)) (\<lambda>(q, T). ret (s\<lparr>sleeping := q, tasks := T\<rparr>))"

definition set_errno :: "int \<Rightarrow> task_state \<Rightarrow> task_state" where
  "set_errno e s = set_task (current_task s) (\<lambda>t. t\<lparr>errno := e\<rparr>) s"

definition get_next_task :: "task_state \<Rightarrow> u32" where
  "get_next_task s = queue_next (tasks s (current_task s))"

definition getpid :: "task_state \<Rightarrow> pid_t" where
  "getpid s = pid (tasks s (current_task s))"

text \<open>\<^verbatim>\<open>CHECK_PERM\<close>: the caller owns the task, or is the superuser.\<close>

definition may_operate :: "u32 \<Rightarrow> task_state \<Rightarrow> bool" where
  "may_operate t s \<longleftrightarrow>
     \<not> (uid (tasks s t) \<noteq> uid (tasks s (current_task s)) \<and>
        \<not> cap_test (uid (tasks s (current_task s))) CAP_KILL)"

text \<open>
  \<^verbatim>\<open>GET_TASK_BY_ID\<close>, \<^verbatim>\<open>GET_TASK_BY_ID_NOZOMBIE\<close> and \<^verbatim>\<open>CHECK_PERM\<close>: the
  target and the rest of the routine, or \<open>-1\<close> with \<^verbatim>\<open>errno\<close> set.
\<close>

definition with_target ::
  "pid_t \<Rightarrow> (u32 \<Rightarrow> task_state \<Rightarrow> (int flow \<times> task_state) exec) \<Rightarrow> task_state \<Rightarrow> (int flow \<times> task_state) exec" where
  "with_target p body s =
     andThen (id2task p s) (\<lambda>t.
       if t = 0 \<or> state (tasks s t) = TS_ZOMBIE then ret (Returned (-1), set_errno (errno_code ESRCH) s)
       else if \<not> may_operate t s then ret (Returned (-1), set_errno (errno_code EPERM) s)
       else body t s)"

section \<open>Switching\<close>

text \<open>
  \<^verbatim>\<open>switch_task\<close>: the word it pushes and pops below the new stack pointer is not modelled.
\<close>

definition switch_task :: "u32 \<Rightarrow> u32 \<Rightarrow> task_state \<Rightarrow> task_state" where
  "switch_task t old_eflags s =
     (let s = s\<lparr>current_task := t\<rparr>;
          T = tasks s (current_task s);
          p = (pg s)\<lparr>current_page_dir := page_dir T\<rparr>;
          p = p\<lparr>cr3 := phyaddr (dirs p (current_page_dir p)), tlb := Map.empty\<rparr>
      in s\<lparr>pg := p, cpu := (cpu s)\<lparr>r_esp := esp T, r_ebp := ebp T, r_eip := eip T,
             r_eax := 0xFFFFFFFF, r_eflags := old_eflags\<rparr>\<rparr>)"

definition schedule_after :: "u32 \<Rightarrow> u32 \<Rightarrow> u32 \<Rightarrow> u32 \<Rightarrow> task_state \<Rightarrow> unit flow \<times> task_state" where
  "schedule_after eip_v esp_v ebp_v old_eflags s =
     (if eip_v = 0xFFFFFFFF then (Returned (), s)
      else
        (let s = set_task (current_task s) (\<lambda>t. t\<lparr>esp := esp_v, ebp := ebp_v, eip := eip_v\<rparr>) s
         in (Jumped, switch_task (get_next_task s) old_eflags s)))"

definition schedule :: "u32 \<Rightarrow> task_state \<Rightarrow> unit flow \<times> task_state" where
  "schedule ra s =
     (let (old_eflags, s) = CLI_SAVE_EFLAGS s
      in schedule_after ra (r_esp (cpu s)) (r_ebp (cpu s)) old_eflags s)"

section \<open>fork\<close>

definition fork_after :: "u32 \<Rightarrow> u32 \<Rightarrow> u32 \<Rightarrow> u32 \<Rightarrow> task_state \<Rightarrow> pid_t \<times> task_state" where
  "fork_after eip_v old_eflags par_task child s =
     (if current_task s = par_task then
        (let s = set_task child (\<lambda>t. t\<lparr>esp := r_esp (cpu s), ebp := r_ebp (cpu s)\<rparr>) s;
             s = set_task child (\<lambda>t. t\<lparr>eip := eip_v\<rparr>) s
         in (pid (tasks s child), RESTORE_EFLAGS old_eflags s))
      else (0, RESTORE_EFLAGS old_eflags s))"

text \<open>
  \<^verbatim>\<open>new Task_t(Page::clone_directory(..))\<close> may allocate the object before or after the
  directory is cloned; gcc allocates first.
\<close>

definition fork :: "kmalloc_fn \<Rightarrow> u32 \<Rightarrow> task_state \<Rightarrow> (pid_t \<times> task_state) exec" where
  "fork km ra s =
     (let (old_eflags, s) = CLI_SAVE_EFLAGS s;
          par_task = current_task s
      in andThen (km sizeof_Task_t 0 (pg s)) (\<lambda>(child, p).
         andThen (clone_directory km (current_page_dir p) p) (\<lambda>(dir, p).
         andThen (Task_t_init child dir (s\<lparr>pg := p\<rparr>)) (\<lambda>s.
           let s = set_task child (\<lambda>t. t\<lparr>parent := par_task\<rparr>) s;
               s = set_task child (\<lambda>t. t\<lparr>uid := uid (tasks s par_task)\<rparr>) s;
               s = set_task child (\<lambda>t. t\<lparr>gid := gid (tasks s par_task)\<rparr>) s;
               s = running_insert child s
           in ret (fork_after ra old_eflags par_task child s)))))"

section \<open>sleep, wakeup and exit\<close>

definition sleep_after :: "u32 \<Rightarrow> u32 \<Rightarrow> u32 \<Rightarrow> task_state \<Rightarrow> int flow \<times> task_state" where
  "sleep_after eip_v nxt old_eflags s =
     (if eip_v = 0xFFFFFFFF then (Returned 0, RESTORE_EFLAGS old_eflags s)
      else
        (let s = set_task (current_task s) (\<lambda>t. t\<lparr>esp := r_esp (cpu s), ebp := r_ebp (cpu s)\<rparr>) s;
             s = set_task (current_task s) (\<lambda>t. t\<lparr>eip := eip_v\<rparr>) s
         in (Jumped, switch_task nxt old_eflags s)))"

definition sleep :: "u32 \<Rightarrow> pid_t \<Rightarrow> Sigset \<Rightarrow> task_state \<Rightarrow> (int flow \<times> task_state) exec" where
  "sleep ra p sigs s =
     with_target p (\<lambda>target s.
       let (old_eflags, s) = CLI_SAVE_EFLAGS s
       in if state (tasks s target) = TS_RUNNING then
            (let nxt = get_next_task s
             in andThen (running_remove target s) (\<lambda>s.
                let s = sleeping_insert target s;
                    s = set_task target (\<lambda>t. t\<lparr>state := TS_SLEEPING\<rparr>) s;
                    s = set_task target (\<lambda>t. t\<lparr>sig_wakeup := Sigset_assign sigs (sig_wakeup t)\<rparr>) s
                in ret (if target = current_task s then sleep_after ra nxt old_eflags s
                        else (Returned 0, RESTORE_EFLAGS old_eflags s))))
          else ret (Returned 0, RESTORE_EFLAGS old_eflags s)) s"

definition wakeup :: "pid_t \<Rightarrow> task_state \<Rightarrow> (int flow \<times> task_state) exec" where
  "wakeup p s =
     with_target p (\<lambda>target s.
       let (old_eflags, s) = CLI_SAVE_EFLAGS s
       in if state (tasks s target) = TS_SLEEPING then
            andThen (sleeping_remove target s) (\<lambda>s.
              let s = running_insert target s;
                  s = set_task target (\<lambda>t. t\<lparr>state := TS_RUNNING\<rparr>) s
              in ret (Returned 0, RESTORE_EFLAGS old_eflags s))
          else ret (Returned 0, RESTORE_EFLAGS old_eflags s)) s"

text \<open>\<^verbatim>\<open>exit\<close> disables interrupts and returns; its local copy of the flags is unused.\<close>

definition exit_task :: "int \<Rightarrow> task_state \<Rightarrow> task_state" where
  "exit_task status s = snd (CLI_SAVE_EFLAGS s)"

section \<open>User mode\<close>

definition is_kernel :: "task_state \<Rightarrow> bool" where
  "is_kernel s \<longleftrightarrow> \<not> switch_to_user_mode_called s"

text \<open>The frame \<^verbatim>\<open>iret\<close> pops when it changes to an outer privilege level.\<close>

fun iret :: "u32 list \<Rightarrow> cpu \<Rightarrow> cpu option" where
  "iret [ip, c, fl, sp, st] r =
     Some (r\<lparr>r_eip := ip, r_cs := ucast c, r_eflags := fl, r_esp := sp, r_ss := ucast st\<rparr>)"
| "iret _ r = None"

definition switch_to_user_mode :: "u32 \<Rightarrow> u32 \<Rightarrow> task_state \<Rightarrow> task_state option" where
  "switch_to_user_mode a sp s =
     (let s = s\<lparr>switch_to_user_mode_called := True\<rparr>;
          r = (cpu s)\<lparr>r_eflags := r_eflags (cpu s) AND NOT FLAG_IF\<rparr>;
          sel = USER_DATA_SELECTOR OR 3;
          r = r\<lparr>r_ds := ucast sel, r_es := ucast sel, r_fs := ucast sel, r_gs := ucast sel\<rparr>;
          stk = [r_eflags r, sp, sel];
          eax = hd stk OR 0x200;
          stk = [a, USER_CODE_SELECTOR OR 3] @ eax # tl stk
      in map_option (\<lambda>r. s\<lparr>cpu := r\<rparr>) (iret stk (r\<lparr>r_eax := eax\<rparr>)))"

section \<open>Initialization\<close>

text \<open>\<^verbatim>\<open>for (i = KERNEL_STACK_POS - 4; i > new_esp; i -= 4)\<close> over the copied stack.\<close>

partial_function (option) relocate_loop :: "u32 \<Rightarrow> u32 \<Rightarrow> u32 \<Rightarrow> u32 \<Rightarrow> u32 \<Rightarrow> memory \<Rightarrow> memory exec" where
  "relocate_loop isp old_esp offset new_esp i m =
     (if i > new_esp then
        (let tmp = load32 i m;
             m = (if tmp < isp \<and> tmp > old_esp then store32 i (load32 i m + offset) m else m)
         in relocate_loop isp old_esp offset new_esp (i - 4) m)
      else ret m)"

definition move_stack :: "kmalloc_fn \<Rightarrow> task_state \<Rightarrow> task_state exec" where
  "move_stack km s =
     andThen (alloc_interval km (current_page_dir (pg s)) (KERNEL_STACK_POS - KERNEL_STACK_SIZE)
                KERNEL_STACK_POS False True (pg s)) (\<lambda>p.
       let old_esp = r_esp (cpu s);
           old_ebp = r_ebp (cpu s);
           isp = initial_stack_pointer s;
           offset = KERNEL_STACK_POS - isp;
           new_esp = old_esp + offset;
           new_ebp = old_ebp + offset;
           m = memcpy new_esp old_esp (isp - old_esp) (kmem p)
       in andThen (relocate_loop isp old_esp offset new_esp (KERNEL_STACK_POS - 4) m) (\<lambda>m.
            ret (s\<lparr>pg := p\<lparr>kmem := m\<rparr>, cpu := (cpu s)\<lparr>r_esp := new_esp, r_ebp := new_ebp\<rparr>\<rparr>)))"

text \<open>\<^verbatim>\<open>Task::init\<close>, up to its message: \<^verbatim>\<open>schedule\<close> comes back to it by the jump.\<close>

definition task_init :: "kmalloc_fn \<Rightarrow> u32 \<Rightarrow> task_state \<Rightarrow> (unit flow \<times> task_state) exec" where
  "task_init km ra s =
     andThen (move_stack km s) (\<lambda>s.
     andThen (km sizeof_Task_t 0 (pg s)) (\<lambda>(t, p).
     andThen (Task_t_init t (current_page_dir p) (s\<lparr>pg := p\<rparr>)) (\<lambda>s.
       let s = s\<lparr>current_task := t\<rparr>;
           s = set_task t (\<lambda>T. T\<lparr>uid := 0\<rparr>) s;
           s = set_task t (\<lambda>T. T\<lparr>gid := 0\<rparr>) s;
           s = running_insert t s
       in ret (schedule ra s))))"

end
