(* ===== verification/Task_Inv.thy ===== *)
theory Task_Inv
  imports Task Rbtree_Search
begin

text \<open>
  The state of the tasks: every task is in exactly one of the three queues, the one its state
  names, and the tree finds every task by its identifier, with the node that lies in the task
  itself. The operations of \<^verbatim>\<open>task.cpp\<close> on such states.
\<close>

section \<open>Invariant\<close>

definition node_of :: "u32 \<Rightarrow> u32" where
  "node_of a = rbt_node_mem a + (rbt_node_mem a AND 1)"

definition pair_of :: "task_store \<Rightarrow> u32 \<Rightarrow> Pair_id_task" where
  "pair_of T a = \<lparr>pair_id = pid (T a), pair_task = a\<rparr>"

definition table_ok :: "Pair_id_task Rbt \<Rightarrow> task_store \<Rightarrow> u32 set \<Rightarrow> Pair_id_task tr \<Rightarrow> bool" where
  "table_ok r T A t \<longleftrightarrow> rbt_ok lt_id r t \<and> set (keys t) = pair_of T ` A \<and> set (addrs t) = node_of ` A \<and>
     inj_on (\<lambda>a. pid (T a)) A \<and> 0 \<notin> A"

definition queues_ok :: "task_state \<Rightarrow> u32 list \<Rightarrow> u32 list \<Rightarrow> u32 list \<Rightarrow> bool" where
  "queues_ok s R S Z \<longleftrightarrow>
     ring (tasks s) (running s) R \<and> ring (tasks s) (sleeping s) S \<and> ring (tasks s) (zombie s) Z \<and>
     distinct (R @ S @ Z) \<and> (\<forall>a \<in> set R. state (tasks s a) = TS_RUNNING) \<and>
     (\<forall>a \<in> set S. state (tasks s a) = TS_SLEEPING) \<and> (\<forall>a \<in> set Z. state (tasks s a) = TS_ZOMBIE)"

definition tasks_ok :: "task_state \<Rightarrow> u32 list \<Rightarrow> u32 list \<Rightarrow> u32 list \<Rightarrow> bool" where
  "tasks_ok s R S Z \<longleftrightarrow> queues_ok s R S Z \<and> current_task s \<in> set R \<and>
     (\<exists>t. table_ok (rbt_id2task s) (tasks s) (set (R @ S @ Z)) t)"

lemma tasks_ok_cong [simp]:
  "tasks_ok (s\<lparr>pg := p\<rparr>) R S Z = tasks_ok s R S Z" "tasks_ok (s\<lparr>cpu := c\<rparr>) R S Z = tasks_ok s R S Z"
  "tasks_ok (s\<lparr>pid_next := n\<rparr>) R S Z = tasks_ok s R S Z"
  "tasks_ok (s\<lparr>latest_task := l\<rparr>) R S Z = tasks_ok s R S Z"
  "tasks_ok (s\<lparr>switch_to_user_mode_called := b\<rparr>) R S Z = tasks_ok s R S Z"
  by (simp_all add: tasks_ok_def queues_ok_def)

lemma table_ok_cong: "(\<And>a. a \<in> A \<Longrightarrow> pid (T' a) = pid (T a)) \<Longrightarrow> table_ok r T' A t = table_ok r T A t"
proof -
  assume "\<And>a. a \<in> A \<Longrightarrow> pid (T' a) = pid (T a)"
  then have "pair_of T' ` A = pair_of T ` A" "inj_on (\<lambda>a. pid (T' a)) A = inj_on (\<lambda>a. pid (T a)) A"
    by (auto simp: pair_of_def inj_on_def)
  then show ?thesis by (simp add: table_ok_def)
qed

text \<open>Fields outside the links, the state and the identifier may change freely.\<close>

lemma tasks_ok_set_task:
  assumes "\<And>t. queue_next (f t) = queue_next t" "\<And>t. queue_prev (f t) = queue_prev t"
    "\<And>t. state (f t) = state t" "\<And>t. pid (f t) = pid t"
  shows "tasks_ok (set_task a f s) R S Z = tasks_ok s R S Z"
proof -
  have "ring (upd_task a f (tasks s)) p xs = ring (tasks s) p xs" for p xs
    by (rule ring_cong) (simp add: upd_task_def assms)
  moreover have "table_ok r (upd_task a f (tasks s)) A t = table_ok r (tasks s) A t" for r A t
    by (rule table_ok_cong) (simp add: upd_task_def assms)
  ultimately show ?thesis
    by (simp add: tasks_ok_def queues_ok_def set_task_def) (auto simp: upd_task_def assms)
qed

section \<open>The table\<close>

interpretation by_id: weak_order lt_id
  by unfold_locales (auto simp: lt_id_def)

lemma find_id:
  assumes "table_ok r T A t"
  shows "\<exists>q. find_ge lt_id \<lparr>pair_id = p, pair_task = 0\<rparr> r = ret q \<and>
    (q = 0 \<and> (\<forall>a \<in> A. pid (T a) < p) \<or>
     q \<noteq> 0 \<and> (\<exists>a \<in> A. key (node r q) = pair_of T a \<and> p \<le> pid (T a) \<and>
       (\<forall>b \<in> A. p \<le> pid (T b) \<longrightarrow> pid (T a) \<le> pid (T b))))"
proof -
  from assms have ok: "rbt_ok lt_id r t" and keys: "set (keys t) = pair_of T ` A" by (auto simp: table_ok_def)
  from by_id.find_ge_correct [OF ok, of "\<lparr>pair_id = p, pair_task = 0\<rparr>"] show ?thesis
    unfolding keys by (fastforce simp: lt_id_def pair_of_def not_less)
qed

definition task_with :: "pid_t \<Rightarrow> task_state \<Rightarrow> u32 set \<Rightarrow> u32 \<Rightarrow> bool" where
  "task_with p s A a \<longleftrightarrow>
     (if \<forall>b \<in> A. pid (tasks s b) < p then a = 0
      else a \<in> A \<and> p \<le> pid (tasks s a) \<and> (\<forall>b \<in> A. p \<le> pid (tasks s b) \<longrightarrow> pid (tasks s a) \<le> pid (tasks s b)))"

lemma id2task_finds:
  assumes "table_ok (rbt_id2task s) (tasks s) A t"
  shows "\<exists>a. id2task p s = ret a \<and> task_with p s A a"
  using find_id [OF assms, of p] by (force simp: id2task_def task_with_def pair_of_def not_less)

lemma task_with_exact:
  assumes "task_with (pid (tasks s a)) s A b" "a \<in> A" "inj_on (\<lambda>a. pid (tasks s a)) A"
  shows "b = a"
proof -
  have "b \<in> A" "pid (tasks s b) = pid (tasks s a)"
    using assms(1,2) by (auto simp: task_with_def split: if_splits intro: antisym)
  with assms(2,3) show ?thesis by (auto dest: inj_onD)
qed

text \<open>The search for an identifier ends, unless the greatest one is in use.\<close>

lemma next_pid_loop_ends:
  assumes "table_ok (rbt_id2task s) (tasks s) A t" "\<forall>a \<in> A. pid (tasks s a) < 0xFFFFFFFF"
  shows "\<exists>n. next_pid_loop s k = ret n \<and> k \<le> n \<and> (\<forall>a \<in> A. pid (tasks s a) < n) \<and>
    ((\<forall>a \<in> A. pid (tasks s a) < k) \<longrightarrow> n = k)"
proof (induction "2 ^ 32 - unat k" arbitrary: k rule: less_induct)
  case less
  from id2task_finds [OF assms(1), of k] obtain b where b: "id2task k s = ret b" "task_with k s A b" by blast
  show ?case
  proof (cases "b = 0")
    case True
    then have "\<forall>a \<in> A. pid (tasks s a) < k"
      using b(2) assms(1) by (auto simp: task_with_def table_ok_def split: if_splits)
    then show ?thesis using True b by (subst next_pid_loop.simps) simp
  next
    case False
    then have "k \<le> pid (tasks s b)" "b \<in> A" using b(2) by (auto simp: task_with_def split: if_splits)
    then have "k < 0xFFFFFFFF" using assms(2) by (meson le_less_trans)
    then have Suc: "unat (k + 1) = unat k + 1" 
      by (subst unat_add) (simp_all add: word_less_nat_alt)
    then have "\<exists>n. next_pid_loop s (k + 1) = ret n \<and> k + 1 \<le> n \<and> (\<forall>a \<in> A. pid (tasks s a) < n) \<and>
        ((\<forall>a \<in> A. pid (tasks s a) < k + 1) \<longrightarrow> n = k + 1)"
      by (intro less.hyps diff_less_mono2) simp_all
    then obtain n where n: "next_pid_loop s (k + 1) = ret n" "k + 1 \<le> n" "\<forall>a \<in> A. pid (tasks s a) < n" by blast
    have "k \<le> k + 1" using Suc by (simp add: word_le_nat_alt)
    then have "k \<le> n" using n(2) by simp
    moreover have "next_pid_loop s k = ret n" using False b(1) n(1) by (subst next_pid_loop.simps) simp
    moreover have "\<not> (\<forall>a \<in> A. pid (tasks s a) < k)" using \<open>b \<in> A\<close> \<open>k \<le> pid (tasks s b)\<close> by (auto simp: not_less)
    ultimately show ?thesis using n(3) by blast
  qed
qed

section \<open>A new task\<close>

text \<open>
  Memory for a task object, apart from the objects of the tasks \<open>A\<close> and from the sentinel of
  the tree.
\<close>

definition new_object :: "task_state \<Rightarrow> u32 set \<Rightarrow> u32 \<Rightarrow> bool" where
  "new_object s A a \<longleftrightarrow> a \<noteq> 0 \<and> unat a + unat sizeof_Task_t \<le> 2 ^ 32 \<and>
     NIL (rbt_id2task s) \<notin> bytes_at a (unat sizeof_Task_t) \<and>
     (\<forall>b \<in> A. bytes_at b (unat sizeof_Task_t) \<inter> bytes_at a (unat sizeof_Task_t) = {})"

lemma and_1_le: "(w :: u32) AND 1 = 0 \<or> w AND 1 = 1"
  by (metis and_one_eq mod2_eq_if)

lemma even_node_of: "even_addr (node_of a)"
proof -
  have "even (w + (w AND 1))" for w :: u32
  proof (cases "even w")
    case True
    then have "w AND 1 = 0" by (simp add: and_one_eq even_iff_mod_2_eq_zero)
    with True show ?thesis by simp
  next
    case False
    then have "w AND 1 = 1" by (simp add: and_one_eq odd_iff_mod_2_eq_one)
    moreover have "even (w + 1)" using False by simp
    ultimately show ?thesis by simp
  qed
  then show ?thesis by (simp add: even_addr_def node_of_def and_one_eq even_iff_mod_2_eq_zero)
qed

lemma node_of_inside: "node_of a \<in> bytes_at a (unat sizeof_Task_t)"
proof -
  have "node_of a = a + 52 \<or> node_of a = a + 53"
    using and_1_le [of "rbt_node_mem a"] by (auto simp: node_of_def rbt_node_mem_def)
  then show ?thesis using in_bytes_at [of 52 76 a] in_bytes_at [of 53 76 a] by (auto simp: sizeof_Task_t_def)
qed

lemma node_of_nonzero:
  assumes "unat a + unat sizeof_Task_t \<le> 2 ^ 32"
  shows "node_of a \<noteq> 0"
proof
  assume "node_of a = 0"
  then have "0 \<in> bytes_at a (unat sizeof_Task_t)" using node_of_inside [of a] by simp
  then have "unat a = 0" using bytes_at_unat [OF assms, of 0] by simp
  then have "a = 0" by (simp add: unat_eq_0)
  with \<open>node_of a = 0\<close> show False by (simp add: node_of_def rbt_node_mem_def)
qed

lemma table_insert:
  assumes ok: "table_ok (rbt_id2task s) T A t" and new: "new_object s A a" "a \<notin> A"
    and pid: "\<forall>b \<in> A. pid (T b) < pid (T a)"
  shows "\<exists>r' t'. rbt_insert rbt_alloc lt_id (pair_of T a) (rbt_id2task s) a = ret (r', a) \<and>
    NIL r' = NIL (rbt_id2task s) \<and> table_ok r' T (insert a A) t'"
proof -
  have fresh: "node_of a \<notin> set (addrs t)"
  proof
    assume "node_of a \<in> set (addrs t)"
    then obtain b where "b \<in> A" "node_of a = node_of b" using ok by (auto simp: table_ok_def)
    then show False using new(1) node_of_inside [of a] node_of_inside [of b] by (auto simp: new_object_def)
  qed
  have nil: "node_of a \<noteq> NIL (rbt_id2task s)" using new(1) node_of_inside [of a] by (auto simp: new_object_def)
  have "rbt_alloc a = ret (node_of a, a)" by (simp add: rbt_alloc_def node_of_def Let_def)
  then obtain r' t' L R' where r': "rbt_insert rbt_alloc lt_id (pair_of T a) (rbt_id2task s) a = ret (r', a)"
      "NIL r' = NIL (rbt_id2task s)" "rbt_ok lt_id r' t'"
      "entries t = L @ R'" "entries t' = L @ (node_of a, pair_of T a) # R'"
    using by_id.rbt_insert_correct [of "rbt_id2task s" t rbt_alloc a "node_of a" a "pair_of T a"]
      ok fresh nil even_node_of [of a] new(1) node_of_nonzero [of a]
    by (auto simp: table_ok_def new_object_def)
  then have "set (keys t') = insert (pair_of T a) (set (keys t))"
    "set (addrs t') = insert (node_of a) (set (addrs t))"
    by (auto simp: keys_def addrs_def)
  moreover have "inj_on (\<lambda>a. pid (T a)) (insert a A)"
    using ok pid by (auto simp: table_ok_def)
  ultimately have "table_ok r' T (insert a A) t'"
    using ok r'(3) new(1) by (simp add: table_ok_def new_object_def)
  with r' show ?thesis by blast
qed


lemma new_object_notin: "new_object s A a \<Longrightarrow> a \<notin> A"
proof
  assume "new_object s A a" "a \<in> A"
  moreover have "a \<in> bytes_at a (unat sizeof_Task_t)" using in_bytes_at [of 0 76 a] by (simp add: sizeof_Task_t_def)
  ultimately show False by (auto simp: new_object_def)
qed

definition new_task :: "pid_t \<Rightarrow> u32 \<Rightarrow> Task_t \<Rightarrow> Task_t" where
  "new_task n dir t = t\<lparr>pid := n, esp := 0, ebp := 0, eip := 0, page_dir := dir,
     state := TS_RUNNING, errno := 0, parent := 0, queue_next := 0, queue_prev := 0,
     sig_wakeup := Sigset_new (sig_wakeup t)\<rparr>"

lemma Task_t_init_ok:
  assumes "table_ok (rbt_id2task s) (tasks s) A t" "new_object s A a"
    and "\<forall>b \<in> A. pid (tasks s b) < 0xFFFFFFFF"
  shows "\<exists>n r' t'. Task_t_init a dir s = ret (s\<lparr>pid_next := n + 1,
      tasks := upd_task a (new_task n dir) (tasks s), rbt_id2task := r', latest_task := a\<rparr>) \<and>
    (\<forall>b \<in> A. pid (tasks s b) < n) \<and> pid_next s \<le> n \<and> ((\<forall>b \<in> A. pid (tasks s b) < pid_next s) \<longrightarrow> n = pid_next s) \<and>
    NIL r' = NIL (rbt_id2task s) \<and> table_ok r' (upd_task a (new_task n dir) (tasks s)) (insert a A) t'"
proof -
  from next_pid_loop_ends [OF assms(1,3)] obtain n
    where n: "next_pid_loop s (pid_next s) = ret n" "pid_next s \<le> n" "\<forall>b \<in> A. pid (tasks s b) < n"
      "(\<forall>b \<in> A. pid (tasks s b) < pid_next s) \<longrightarrow> n = pid_next s" by blast
  let ?T = "upd_task a (new_task n dir) (tasks s)"
  have a: "a \<notin> A" by (rule new_object_notin [OF assms(2)])
  then have same: "pid (?T b) = pid (tasks s b)" if "b \<in> A" for b using that by (auto simp: upd_task_def)
  have "table_ok (rbt_id2task s) ?T A t" using assms(1) same by (subst table_ok_cong) auto
  moreover have "pid (?T a) = n" by (simp add: upd_task_def new_task_def)
  ultimately obtain r' t' where r': "rbt_insert rbt_alloc lt_id (pair_of ?T a) (rbt_id2task s) a = ret (r', a)"
      "NIL r' = NIL (rbt_id2task s)" "table_ok r' ?T (insert a A) t'"
    using table_insert [of s ?T A t a] assms(2) a n(3) same by auto
  have "pair_of ?T a = \<lparr>pair_id = n, pair_task = a\<rparr>" by (simp add: pair_of_def upd_task_def new_task_def)
  then have "Task_t_init a dir s = ret (s\<lparr>pid_next := n + 1, tasks := ?T, rbt_id2task := r', latest_task := a\<rparr>)"
    using r'(1) n(1) by (simp add: Task_t_init_def get_next_pid_def Let_def set_task_def new_task_def [abs_def])
  with n r' show ?thesis by blast
qed

section \<open>Moving between queues\<close>

lemma task_dataD:
  assumes "task_data T' = task_data T"
  shows "pid (T' a) = pid (T a)" "state (T' a) = state (T a)" "uid (T' a) = uid (T a)" "gid (T' a) = gid (T a)"
    "esp (T' a) = esp (T a)" "ebp (T' a) = ebp (T a)" "eip (T' a) = eip (T a)" "page_dir (T' a) = page_dir (T a)"
    "parent (T' a) = parent (T a)" "errno (T' a) = errno (T a)" "sig_wakeup (T' a) = sig_wakeup (T a)"
  using fun_cong [OF assms, of a] unfolding task_data_def
  by (cases "T' a"; cases "T a"; simp)+

lemma queues_rings:
  assumes "queues_ok s R S Z"
  shows "ring (tasks s) (running s) R" "ring (tasks s) (sleeping s) S" "ring (tasks s) (zombie s) Z"
    "set R \<inter> set S = {}" "set R \<inter> set Z = {}" "set S \<inter> set Z = {}" "distinct R" "distinct S"
  using assms by (auto simp: queues_ok_def)

definition moved :: "u32 \<Rightarrow> Task_state_t \<Rightarrow> task_state \<Rightarrow> task_state \<Rightarrow> bool" where
  "moved t st s s' \<longleftrightarrow> (\<exists>p q T. s' = s\<lparr>running := p, sleeping := q, tasks := T\<rparr> \<and>
     task_data T = task_data (upd_task t (\<lambda>x. x\<lparr>state := st\<rparr>) (tasks s)))"

lemma task_data_state:
  "task_data T' = task_data T \<Longrightarrow> task_data (upd_task t (\<lambda>x. x\<lparr>state := st\<rparr>) T') = task_data (upd_task t (\<lambda>x. x\<lparr>state := st\<rparr>) T)"
proof
  fix a
  assume "task_data T' = task_data T"
  then have "task_data T' a = task_data T a" by simp
  then show "task_data (upd_task t (\<lambda>x. x\<lparr>state := st\<rparr>) T') a = task_data (upd_task t (\<lambda>x. x\<lparr>state := st\<rparr>) T) a"
    unfolding task_data_def upd_task_def by (cases "T' a"; cases "T a") auto
qed

lemma ring_state: "ring (upd_task t (\<lambda>x. x\<lparr>state := st\<rparr>) T) p xs = ring T p xs"
  by (rule ring_cong) (simp add: upd_task_def)

lemma to_sleeping:
  assumes "queues_ok s R S Z" "t \<in> set R"
  shows "\<exists>s1 s2. running_remove t s = ret s1 \<and> s2 = set_task t (\<lambda>x. x\<lparr>state := TS_SLEEPING\<rparr>) (sleeping_insert t s1) \<and>
    queues_ok s2 (remove1 t R) (insert_after t S) Z \<and> moved t TS_SLEEPING s s2"
proof -
  note rings = queues_rings [OF assms(1)]
  from ring_queue.move [OF rings(1,2,3) assms(2) rings(4,5,6)] obtain p' T1 q' T2
    where mv: "Task_queue_remove (running s) t (tasks s) = ret (p', T1)" "Task_queue_insert (sleeping s) t T1 = (q', T2)"
      "ring T2 p' (remove1 t R)" "ring T2 q' (insert_after t S)" "ring T2 (zombie s) Z" "task_data T2 = task_data (tasks s)"
    by blast
  let ?s1 = "s\<lparr>running := p', tasks := T1\<rparr>"
  let ?T = "upd_task t (\<lambda>x. x\<lparr>state := TS_SLEEPING\<rparr>) T2"
  let ?s2 = "s\<lparr>running := p', sleeping := q', tasks := ?T\<rparr>"
  have "running_remove t s = ret ?s1" using mv(1) by (simp add: running_remove_def)
  moreover have "set_task t (\<lambda>x. x\<lparr>state := TS_SLEEPING\<rparr>) (sleeping_insert t ?s1) = ?s2"
    using mv(2) by (simp add: sleeping_insert_def set_task_def)
  moreover have "queues_ok ?s2 (remove1 t R) (insert_after t S) Z"
  proof -
    have "distinct (remove1 t R @ insert_after t S @ Z)"
      using assms rings ring_queue.rep_distinct [OF mv(4)] by (auto simp: queues_ok_def set_remove1_eq)
    moreover have "state (?T a) = (if a = t then TS_SLEEPING else state (tasks s a))" for a
      using task_dataD(2) [OF mv(6)] by (simp add: upd_task_def)
    ultimately show ?thesis using assms rings mv(3,4,5)
      by (auto simp: queues_ok_def ring_state set_remove1_eq)
  qed
  moreover have "moved t TS_SLEEPING s ?s2"
    unfolding moved_def using task_data_state [OF mv(6)] by blast
  ultimately show ?thesis by metis
qed

lemma to_running:
  assumes "queues_ok s R S Z" "t \<in> set S"
  shows "\<exists>s1 s2. sleeping_remove t s = ret s1 \<and> s2 = set_task t (\<lambda>x. x\<lparr>state := TS_RUNNING\<rparr>) (running_insert t s1) \<and>
    queues_ok s2 (insert_after t R) (remove1 t S) Z \<and> moved t TS_RUNNING s s2"
proof -
  note rings = queues_rings [OF assms(1)]
  have dis: "set S \<inter> set R = {}" using rings(4) by blast
  from ring_queue.move [OF rings(2,1,3) assms(2) dis rings(6,5)] obtain p' T1 q' T2
    where mv: "Task_queue_remove (sleeping s) t (tasks s) = ret (p', T1)" "Task_queue_insert (running s) t T1 = (q', T2)"
      "ring T2 p' (remove1 t S)" "ring T2 q' (insert_after t R)" "ring T2 (zombie s) Z" "task_data T2 = task_data (tasks s)"
    by blast
  let ?s1 = "s\<lparr>sleeping := p', tasks := T1\<rparr>"
  let ?T = "upd_task t (\<lambda>x. x\<lparr>state := TS_RUNNING\<rparr>) T2"
  let ?s2 = "s\<lparr>running := q', sleeping := p', tasks := ?T\<rparr>"
  have "sleeping_remove t s = ret ?s1" using mv(1) by (simp add: sleeping_remove_def)
  moreover have "set_task t (\<lambda>x. x\<lparr>state := TS_RUNNING\<rparr>) (running_insert t ?s1) = ?s2"
    using mv(2) by (simp add: running_insert_def set_task_def)
  moreover have "queues_ok ?s2 (insert_after t R) (remove1 t S) Z"
  proof -
    have "distinct (insert_after t R @ remove1 t S @ Z)"
      using assms rings ring_queue.rep_distinct [OF mv(4)] by (auto simp: queues_ok_def set_remove1_eq)
    moreover have "state (?T a) = (if a = t then TS_RUNNING else state (tasks s a))" for a
      using task_dataD(2) [OF mv(6)] by (simp add: upd_task_def)
    ultimately show ?thesis using assms rings mv(3,4,5)
      by (auto simp: queues_ok_def ring_state set_remove1_eq)
  qed
  moreover have "moved t TS_RUNNING s ?s2"
    unfolding moved_def using task_data_state [OF mv(6)] by blast
  ultimately show ?thesis by metis
qed

text \<open>A move changes nothing that the table depends on.\<close>

lemma movedD:
  assumes "moved t st s s'"
  shows "pg s' = pg s" "cpu s' = cpu s" "current_task s' = current_task s" "rbt_id2task s' = rbt_id2task s"
    "pid_next s' = pid_next s" "zombie s' = zombie s"
    "pid (tasks s' a) = pid (tasks s a)" "uid (tasks s' a) = uid (tasks s a)"
    "esp (tasks s' a) = esp (tasks s a)" "ebp (tasks s' a) = ebp (tasks s a)" "eip (tasks s' a) = eip (tasks s a)"
    "page_dir (tasks s' a) = page_dir (tasks s a)" "errno (tasks s' a) = errno (tasks s a)"
    "gid (tasks s' a) = gid (tasks s a)"
    "state (tasks s' a) = (if a = t then st else state (tasks s a))"
proof -
  from assms obtain p q T where s': "s' = s\<lparr>running := p, sleeping := q, tasks := T\<rparr>"
    and T: "task_data T = task_data (upd_task t (\<lambda>x. x\<lparr>state := st\<rparr>) (tasks s))" by (auto simp: moved_def)
  show "pg s' = pg s" "cpu s' = cpu s" "current_task s' = current_task s" "rbt_id2task s' = rbt_id2task s"
    "pid_next s' = pid_next s" "zombie s' = zombie s" by (simp_all add: s')
  show "pid (tasks s' a) = pid (tasks s a)" "uid (tasks s' a) = uid (tasks s a)"
    "esp (tasks s' a) = esp (tasks s a)" "ebp (tasks s' a) = ebp (tasks s a)" "eip (tasks s' a) = eip (tasks s a)"
    "page_dir (tasks s' a) = page_dir (tasks s a)" "errno (tasks s' a) = errno (tasks s a)"
    "gid (tasks s' a) = gid (tasks s a)"
    "state (tasks s' a) = (if a = t then st else state (tasks s a))"
    using task_dataD [OF T, of a] by (simp_all add: s' upd_task_def)
qed

end
