(* ===== verification/Task_Ops.thy ===== *)
theory Task_Ops
  imports Task_Inv
begin

text \<open>
  What each operation of \<^verbatim>\<open>task.cpp\<close> does to a state that satisfies the invariant:
  switching and the order in which tasks run, \<^verbatim>\<open>fork\<close>, \<^verbatim>\<open>sleep\<close> and \<^verbatim>\<open>wakeup\<close>.
\<close>

section \<open>The order of a ring\<close>

lemma ring_next_nth:
  assumes "ring T p xs" "i < length xs"
  shows "queue_next (T (xs ! i)) = xs ! (Suc i mod length xs)"
proof -
  have xs: "xs = take i xs @ xs ! i # drop (Suc i) xs" using assms(2) by (rule id_take_nth_drop)
  then have ring: "ring T (xs ! i) (xs ! i # drop (Suc i) xs @ take i xs)"
    using assms(1) by (metis ring_rotate)
  show ?thesis
  proof (cases "Suc i < length xs")
    case True
    then have "drop (Suc i) xs = xs ! Suc i # drop (Suc (Suc i)) xs" by (rule Cons_nth_drop_Suc [symmetric])
    then show ?thesis using ring True by (simp add: ring_def)
  next
    case False
    then have i: "Suc i = length xs" using assms(2) by simp
    show ?thesis
    proof (cases i)
      case 0
      then show ?thesis using ring i by (simp add: ring_def)
    next
      case (Suc j)
      then have "take i xs = xs ! 0 # take j (tl xs)" using assms(2) by (cases xs) auto
      then show ?thesis using ring i by (simp add: ring_def)
    qed
  qed
qed

lemma ring_next_neq:
  assumes "ring T p xs" "x \<in> set xs" "2 \<le> length xs"
  shows "queue_next (T x) \<noteq> x"
proof -
  from assms(2) obtain i where i: "i < length xs" "x = xs ! i" by (auto simp: in_set_conv_nth)
  have "Suc i mod length xs \<noteq> i" using i(1) assms(3) by (cases "Suc i = length xs") auto
  moreover have "Suc i mod length xs < length xs" using i(1) by (intro mod_less_divisor) auto
  moreover have "distinct xs" using assms(1) by (simp add: ring_def)
  ultimately show ?thesis using ring_next_nth [OF assms(1) i(1)] i by (simp add: nth_eq_iff_index_eq)
qed

section \<open>Flags and the current task\<close>

lemma restore_saved [simp]:
  "RESTORE_EFLAGS (r_eflags (cpu s)) (s\<lparr>cpu := (cpu s)\<lparr>r_eflags := v\<rparr>\<rparr>) = s"
  by (simp add: RESTORE_EFLAGS_def)

lemma tasks_ok_RESTORE [simp]: "tasks_ok (RESTORE_EFLAGS v s) R S Z = tasks_ok s R S Z"
  by (simp add: RESTORE_EFLAGS_def)

lemma tasks_ok_set_errno [simp]: "tasks_ok (set_errno e s) R S Z = tasks_ok s R S Z"
  unfolding set_errno_def by (rule tasks_ok_set_task) simp_all

lemma tasks_ok_current:
  "tasks_ok s R S Z \<Longrightarrow> t \<in> set R \<Longrightarrow> tasks_ok (s\<lparr>current_task := t\<rparr>) R S Z"
  by (simp add: tasks_ok_def queues_ok_def)

lemma tasks_ok_switch: "tasks_ok s R S Z \<Longrightarrow> t \<in> set R \<Longrightarrow> tasks_ok (switch_task t old s) R S Z"
  by (simp add: switch_task_def Let_def tasks_ok_current)

section \<open>schedule\<close>

definition saved :: "u32 \<Rightarrow> u32 \<Rightarrow> u32 \<Rightarrow> Task_t \<Rightarrow> Task_t" where
  "saved sp bp ip t = t\<lparr>esp := sp, ebp := bp, eip := ip\<rparr>"

lemma schedule_jumps:
  assumes "ra \<noteq> 0xFFFFFFFF"
  shows "schedule ra s = (Jumped,
    (let s1 = set_task (current_task s) (saved (r_esp (cpu s)) (r_ebp (cpu s)) ra)
                (s\<lparr>cpu := (cpu s)\<lparr>r_eflags := r_eflags (cpu s) AND NOT FLAG_IF\<rparr>\<rparr>)
     in switch_task (get_next_task s) (r_eflags (cpu s)) s1))"
  using assms
  by (simp add: schedule_def schedule_after_def CLI_SAVE_EFLAGS_def Let_def saved_def [abs_def]
      get_next_task_def set_task_def upd_task_def)

lemma schedule_ok:
  assumes "tasks_ok s R S Z"
  shows "tasks_ok (snd (schedule ra s)) R S Z"
proof (cases "ra = 0xFFFFFFFF")
  case True
  then show ?thesis using assms by (simp add: schedule_def schedule_after_def CLI_SAVE_EFLAGS_def Let_def)
next
  case False
  have ring: "ring (tasks s) (running s) R" "current_task s \<in> set R"
    using assms by (auto simp: tasks_ok_def queues_ok_def)
  have "tasks_ok (set_task (current_task s) (saved a b c) (s\<lparr>cpu := v\<rparr>)) R S Z" for a b c v
    using assms by (subst tasks_ok_set_task) (simp_all add: saved_def)
  then show ?thesis unfolding schedule_jumps [OF False] Let_def snd_conv get_next_task_def
    by (rule tasks_ok_switch) (rule ring_closed(1) [OF ring])
qed

text \<open>
  Time slices: in each the current task executes, leaving registers \<open>c\<close>, and then calls
  \<^verbatim>\<open>schedule\<close> from a place whose \<^verbatim>\<open>read_eip\<close> returns \<open>ra\<close>.
\<close>

definition time_slice :: "u32 \<times> cpu \<Rightarrow> task_state \<Rightarrow> task_state" where
  "time_slice = (\<lambda>(ra, c) s. snd (schedule ra (s\<lparr>cpu := c\<rparr>)))"

definition slices_ok :: "(u32 \<times> cpu) list \<Rightarrow> bool" where
  "slices_ok es \<longleftrightarrow> (\<forall>(ra, c) \<in> set es. ra \<noteq> 0xFFFFFFFF)"

lemma slice_current:
  assumes "tasks_ok s R S Z" "i < length R" "current_task s = R ! i" "ra \<noteq> 0xFFFFFFFF"
  shows "current_task (time_slice (ra, c) s) = R ! (Suc i mod length R)"
proof -
  have "ring (tasks s) (running s) R" using assms(1) by (simp add: tasks_ok_def queues_ok_def)
  from ring_next_nth [OF this assms(2)] assms(3) show ?thesis
    by (simp add: time_slice_def schedule_jumps [OF assms(4)] Let_def switch_task_def get_next_task_def)
qed

lemma slices_current:
  assumes "tasks_ok s R S Z" "i < length R" "current_task s = R ! i" "slices_ok es"
  shows "tasks_ok (fold time_slice es s) R S Z \<and> current_task (fold time_slice es s) = R ! ((i + length es) mod length R)"
  using assms
proof (induction es arbitrary: s i)
  case (Cons e es)
  obtain ra c where e: "e = (ra, c)" by (cases e)
  have ra: "ra \<noteq> 0xFFFFFFFF" using Cons.prems(4) e by (simp add: slices_ok_def)
  let ?s = "time_slice (ra, c) s"
  have "tasks_ok ?s R S Z" using Cons.prems(1) by (simp add: time_slice_def schedule_ok)
  moreover have "Suc i mod length R < length R" using Cons.prems(2) by (intro mod_less_divisor) auto
  moreover have "current_task ?s = R ! (Suc i mod length R)" using Cons.prems ra by (intro slice_current)
  moreover have "slices_ok es" using Cons.prems(4) by (simp add: slices_ok_def)
  ultimately have "tasks_ok (fold time_slice es ?s) R S Z \<and>
      current_task (fold time_slice es ?s) = R ! ((Suc i mod length R + length es) mod length R)" by (rule Cons.IH)
  moreover have "(Suc i mod length R + length es) mod length R = (i + length (e # es)) mod length R"
    by (simp add: mod_add_left_eq)
  ultimately show ?case by (simp add: e)
qed simp

text \<open>Every running task is reached.\<close>

lemma slices_reach:
  assumes "tasks_ok s R S Z" "slices_ok es" "length R \<le> length es" "t \<in> set R"
  shows "\<exists>k \<le> length R. 0 < k \<and> current_task (fold time_slice (take k es) s) = t"
proof -
  from assms(1) have "current_task s \<in> set R" by (simp add: tasks_ok_def)
  then obtain i where i: "i < length R" "current_task s = R ! i" by (auto simp: in_set_conv_nth)
  from assms(4) obtain j where j: "j < length R" "t = R ! j" by (auto simp: in_set_conv_nth)
  let ?k = "if i < j then j - i else j + length R - i"
  have k: "0 < ?k" "?k \<le> length R" using i j by auto
  have "slices_ok (take ?k es)" using assms(2) by (auto simp: slices_ok_def dest: in_set_takeD)
  from slices_current [OF assms(1) i this]
  have "current_task (fold time_slice (take ?k es) s) = R ! ((i + ?k) mod length R)"
    using k assms(3) by simp
  moreover have "(i + ?k) mod length R = j" using i j by auto
  ultimately have "current_task (fold time_slice (take ?k es) s) = t" using j(2) by simp
  with k show ?thesis by (intro exI [of _ ?k] conjI)
qed

lemma slice_context:
  assumes "ra \<noteq> 0xFFFFFFFF"
  shows "tasks (time_slice (ra, c) s) = upd_task (current_task s) (saved (r_esp c) (r_ebp c) ra) (tasks s)"
  by (simp add: time_slice_def schedule_jumps [OF assms] Let_def switch_task_def set_task_def)

text \<open>After a time_slice the registers are those saved for the task that is now current.\<close>

lemma slice_loads:
  assumes "ra \<noteq> 0xFFFFFFFF" "s' = time_slice (ra, c) s" "t = tasks s' (current_task s')"
  shows "r_esp (cpu s') = esp t" "r_ebp (cpu s') = ebp t" "r_eip (cpu s') = eip t" "r_eax (cpu s') = 0xFFFFFFFF"
    "current_page_dir (pg s') = page_dir t" "cr3 (pg s') = phyaddr (dirs (pg s') (page_dir t))"
    "tlb (pg s') = Map.empty"
  by (simp_all add: assms time_slice_def schedule_jumps [OF assms(1)] Let_def switch_task_def set_task_def)

lemma slices_keep:
  assumes "tasks_ok s R S Z" "i < length R" "current_task s = R ! i" "slices_ok es"
    and "j < length R" "\<forall>k < length es. (i + k) mod length R \<noteq> j"
  shows "tasks (fold time_slice es s) (R ! j) = tasks s (R ! j)"
  using assms
proof (induction es rule: rev_induct)
  case (snoc e es)
  obtain ra c where e: "e = (ra, c)" by (cases e)
  have ok: "slices_ok es" and ra: "ra \<noteq> 0xFFFFFFFF" using snoc.prems(4) e by (auto simp: slices_ok_def)
  have cur: "current_task (fold time_slice es s) = R ! ((i + length es) mod length R)"
    using slices_current [OF snoc.prems(1-3) ok] by simp
  have "(i + length es) mod length R < length R" using snoc.prems(2) by (intro mod_less_divisor) auto
  moreover have "distinct R" using snoc.prems(1) by (auto simp: tasks_ok_def queues_ok_def)
  moreover have "(i + length es) mod length R \<noteq> j" using snoc.prems(6) by simp
  ultimately have "current_task (fold time_slice es s) \<noteq> R ! j"
    using cur snoc.prems(5) by (simp add: nth_eq_iff_index_eq)
  then have "tasks (fold time_slice (es @ [e]) s) (R ! j) = tasks (fold time_slice es s) (R ! j)"
    by (simp add: e slice_context [OF ra] upd_task_def)
  also have "\<dots> = tasks s (R ! j)" using snoc ok by simp
  finally show ?case .
qed simp

lemma round_keeps:
  assumes "i < n" "0 < k" "k < (n :: nat)"
  shows "(i + k) mod n \<noteq> i"
  using assms by (cases "i + k < n") (auto simp: mod_if)

section \<open>fork\<close>

lemma tasks_ok_fork:
  assumes ok: "tasks_ok s R S Z" and new: "new_object s (set (R @ S @ Z)) child"
    and pids: "\<forall>a \<in> set (R @ S @ Z). pid (tasks s a) < 0xFFFFFFFF"
    and km: "km sizeof_Task_t 0 (pg s) = ret (child, p1)"
    and dir: "clone_directory km (current_page_dir p1) p1 = ret (dir, p2)"
  shows "\<exists>n s'. fork km ra s = ret (n, s') \<and> tasks_ok s' (insert_after child R) S Z \<and>
    (\<forall>a \<in> set (R @ S @ Z). pid (tasks s a) < n) \<and> pid_next s \<le> n \<and> pid_next s' = n + 1 \<and> latest_task s' = child \<and>
    ((\<forall>a \<in> set (R @ S @ Z). pid (tasks s a) < pid_next s) \<longrightarrow> n = pid_next s) \<and>
    cpu s' = cpu s \<and> pg s' = p2 \<and> current_task s' = current_task s \<and>
    (\<forall>a. a \<noteq> child \<longrightarrow> task_data (tasks s') a = task_data (tasks s) a) \<and>
    task_data (tasks s') child = (saved (r_esp (cpu s)) (r_ebp (cpu s)) ra (new_task n dir (tasks s child)))
      \<lparr>parent := current_task s, uid := uid (tasks s (current_task s)), gid := gid (tasks s (current_task s))\<rparr>"
proof -
  let ?A = "set (R @ S @ Z)" and ?s0 = "s\<lparr>cpu := (cpu s)\<lparr>r_eflags := r_eflags (cpu s) AND NOT FLAG_IF\<rparr>, pg := p2\<rparr>"
  from ok obtain t where t: "table_ok (rbt_id2task s) (tasks s) ?A t" and q: "queues_ok s R S Z"
    and cur: "current_task s \<in> set R" by (auto simp: tasks_ok_def)
  have fresh: "child \<notin> ?A" "child \<noteq> 0"
    using new_object_notin [OF new] new by (simp_all add: new_object_def)
  have prem: "table_ok (rbt_id2task ?s0) (tasks ?s0) ?A t" "new_object ?s0 ?A child"
      "\<forall>b \<in> ?A. pid (tasks ?s0 b) < 0xFFFFFFFF"
    using t new pids by (simp_all add: new_object_def)
  obtain n r' t' where ini: "Task_t_init child dir ?s0 = ret (?s0\<lparr>pid_next := n + 1,
        tasks := upd_task child (new_task n dir) (tasks s), rbt_id2task := r', latest_task := child\<rparr>)"
      "\<forall>b \<in> ?A. pid (tasks s b) < n" "pid_next s \<le> n" "(\<forall>b \<in> ?A. pid (tasks s b) < pid_next s) \<longrightarrow> n = pid_next s"
      "table_ok r' (upd_task child (new_task n dir) (tasks s)) (insert child ?A) t'"
    using Task_t_init_ok [OF prem, of dir] by (elim exE conjE) (rule that, simp_all)
  let ?c = "\<lambda>x. x\<lparr>parent := current_task s, uid := uid (tasks s (current_task s)), gid := gid (tasks s (current_task s))\<rparr>"
  let ?T1 = "upd_task child (?c \<circ> new_task n dir) (tasks s)"
  obtain q' T2 where ins: "Task_queue_insert (running s) child ?T1 = (q', T2)" by (metis surj_pair)
  let ?T = "upd_task child (saved (r_esp (cpu s)) (r_ebp (cpu s)) ra) T2"
  let ?s' = "s\<lparr>pg := p2, pid_next := n + 1, tasks := ?T, rbt_id2task := r', latest_task := child, running := q'\<rparr>"
  have data: "task_data T2 = task_data ?T1" by (rule ring_queue.ins_data [OF ins])
  have neq: "child \<noteq> current_task s" using cur fresh by auto
  have T1: "ring ?T1 p xs = ring (tasks s) p xs" if "child \<notin> set xs" for p xs
    using that by (intro ring_cong) (auto simp: upd_task_def)
  have T: "ring ?T p xs = ring T2 p xs" for p xs
    by (rule ring_cong) (simp add: upd_task_def saved_def)
  note rings = queues_rings [OF q]
  have before: "ring ?T1 (running s) R" "ring ?T1 (sleeping s) S" "ring ?T1 (zombie s) Z"
    using T1 rings(1-3) fresh(1) by simp_all
  have rR: "ring T2 q' (insert_after child R)"
    using fresh by (intro ring_queue.ins_rep [OF before(1) _ _ ins]) simp_all
  have rS: "ring T2 (sleeping s) S"
    using fresh(1) by (intro ring_queue.ins_frame [OF before(1,2) rings(4) _ ins]) simp
  have rZ: "ring T2 (zombie s) Z"
    using fresh(1) by (intro ring_queue.ins_frame [OF before(1,3) rings(5) _ ins]) simp
  have f: "state (?T a) = (if a = child then TS_RUNNING else state (tasks s a))"
    "pid (?T a) = (if a = child then n else pid (tasks s a))" for a
    using task_dataD(1,2) [OF data, of a] by (auto simp: upd_task_def saved_def new_task_def)
  have "fork km ra s = ret (n, ?s')"
    using km dir ini(1) ins neq f(2) [of child]
    by (simp add: fork_def CLI_SAVE_EFLAGS_def Let_def set_task_def running_insert_def fork_after_def
        upd_task_def saved_def [abs_def] RESTORE_EFLAGS_def new_task_def comp_def)
  moreover have "tasks_ok ?s' (insert_after child R) S Z"
  proof -
    have "distinct (insert_after child R @ S @ Z)"
      using q fresh ring_queue.rep_distinct [OF rR] by (auto simp: queues_ok_def)
    moreover have "table_ok r' ?T (insert child ?A) t'"
      using ini(5) f(2) by (subst table_ok_cong [where T = "upd_task child (new_task n dir) (tasks s)"])
        (auto simp: upd_task_def new_task_def)
    ultimately show ?thesis using q cur fresh rR rS rZ f(1)
      by (auto simp: tasks_ok_def queues_ok_def T)
  qed
  moreover have "task_data ?T a = task_data (tasks s) a" if "a \<noteq> child" for a
    using fun_cong [OF data, of a] that by (simp add: task_data_def upd_task_def)
  moreover have "task_data ?T child = ?c (saved (r_esp (cpu s)) (r_ebp (cpu s)) ra (new_task n dir (tasks s child)))"
    using fun_cong [OF data, of child] unfolding task_data_def upd_task_def
    by (cases "T2 child"; cases "tasks s child") (auto simp: saved_def new_task_def)
  ultimately show ?thesis using ini(2-4) by (intro exI [of _ n] exI [of _ ?s']) simp
qed

section \<open>sleep and wakeup\<close>

lemma tasks_ok_moved:
  assumes "tasks_ok s R S Z" "queues_ok s' R' S' Z" "moved t st s s'"
    and "set (R' @ S' @ Z) = set (R @ S @ Z)" "current_task s \<in> set R'"
  shows "tasks_ok s' R' S' Z"
proof -
  from assms(1) obtain u where "table_ok (rbt_id2task s) (tasks s) (set (R @ S @ Z)) u" by (auto simp: tasks_ok_def)
  then have "table_ok (rbt_id2task s') (tasks s') (set (R' @ S' @ Z)) u"
    using movedD [OF assms(3)] assms(4) by (subst table_ok_cong [where T = "tasks s"]) auto
  then show ?thesis using assms(2,5) movedD(3) [OF assms(3)] by (auto simp: tasks_ok_def)
qed

lemma id2task_cong:
  assumes "rbt_id2task s' = rbt_id2task s"
  shows "id2task p s' = id2task p s"
  unfolding id2task_def assms by (rule refl)

lemma id2task_in:
  assumes "tasks_ok s R S Z" "id2task p s = ret t" "t \<noteq> 0"
  shows "t \<in> set R \<or> t \<in> set S \<or> t \<in> set Z"
proof -
  from assms(1) obtain u where "table_ok (rbt_id2task s) (tasks s) (set (R @ S @ Z)) u" by (auto simp: tasks_ok_def)
  from id2task_finds [OF this, of p] assms(2,3) show ?thesis by (auto simp: task_with_def split: if_splits)
qed

lemma target_error:
  assumes "id2task p s = ret t" "t = 0 \<or> state (tasks s t) = TS_ZOMBIE"
  shows "with_target p body s = ret (Returned (-1), set_errno (errno_code ESRCH) s)"
  using assms by (auto simp: with_target_def)

lemma target_denied:
  assumes "id2task p s = ret t" "t \<noteq> 0" "state (tasks s t) \<noteq> TS_ZOMBIE" "\<not> may_operate t s"
  shows "with_target p body s = ret (Returned (-1), set_errno (errno_code EPERM) s)"
  using assms by (simp add: with_target_def)

lemma target_body:
  assumes "id2task p s = ret t" "t \<noteq> 0" "state (tasks s t) \<noteq> TS_ZOMBIE" "may_operate t s"
  shows "with_target p body s = body t s"
  using assms by (simp add: with_target_def)

text \<open>The target of an operation that is not refused is running or sleeping.\<close>

lemma tasks_in:
  assumes "tasks_ok s R S Z" "t \<in> set R \<or> t \<in> set S"
  shows "t \<noteq> 0" "state (tasks s t) = (if t \<in> set R then TS_RUNNING else TS_SLEEPING)"
proof -
  have "ring (tasks s) (running s) R" "ring (tasks s) (sleeping s) S" using assms(1) by (auto simp: tasks_ok_def queues_ok_def)
  then show "t \<noteq> 0" using assms(2) by (auto dest: ring_queue.rep_nonnull)
  show "state (tasks s t) = (if t \<in> set R then TS_RUNNING else TS_SLEEPING)"
    using assms by (auto simp: tasks_ok_def queues_ok_def)
qed

lemma remove_insert_set: "distinct R \<Longrightarrow> t \<in> set R \<Longrightarrow> set (remove1 t R @ insert_after t S @ Z) = set (R @ S @ Z)"
  by (auto simp: set_remove1_eq)

lemma wakeup_sleeping:
  assumes ok: "tasks_ok s R S Z" and t: "id2task p s = ret t" "t \<in> set S" "may_operate t s"
  shows "\<exists>s'. wakeup p s = ret (Returned 0, s') \<and> moved t TS_RUNNING s s' \<and>
    tasks_ok s' (insert_after t R) (remove1 t S) Z"
proof -
  let ?s = "s\<lparr>cpu := (cpu s)\<lparr>r_eflags := r_eflags (cpu s) AND NOT FLAG_IF\<rparr>\<rparr>"
  have q: "queues_ok s R S Z" using ok by (simp add: tasks_ok_def)
  have "t \<notin> set R" using queues_rings(4) [OF q] t(2) by blast
  then have st: "t \<noteq> 0" "state (tasks s t) = TS_SLEEPING" using tasks_in [OF ok] t(2) by auto
  have "queues_ok ?s R S Z" using q by (simp add: queues_ok_def)
  from to_running [OF this t(2)] obtain s1 s2 where mv: "sleeping_remove t ?s = ret s1"
      "s2 = set_task t (\<lambda>x. x\<lparr>state := TS_RUNNING\<rparr>) (running_insert t s1)"
      "queues_ok s2 (insert_after t R) (remove1 t S) Z" "moved t TS_RUNNING ?s s2" by blast
  let ?s' = "RESTORE_EFLAGS (r_eflags (cpu s)) s2"
  have "wakeup p s = ret (Returned 0, ?s')"
    unfolding wakeup_def using st t mv(1,2)
    by (subst target_body [OF t(1)]) (simp_all add: CLI_SAVE_EFLAGS_def Let_def)
  moreover have m: "moved t TS_RUNNING s ?s'"
  proof -
    from mv(4) obtain pp qq T where "s2 = ?s\<lparr>running := pp, sleeping := qq, tasks := T\<rparr>"
      "task_data T = task_data (upd_task t (\<lambda>x. x\<lparr>state := TS_RUNNING\<rparr>) (tasks s))" by (auto simp: moved_def)
    moreover from this(1) have "?s' = s\<lparr>running := pp, sleeping := qq, tasks := T\<rparr>" by (simp add: RESTORE_EFLAGS_def)
    ultimately show ?thesis unfolding moved_def by blast
  qed
  moreover have "tasks_ok ?s' (insert_after t R) (remove1 t S) Z"
  proof (rule tasks_ok_moved [OF ok _ m])
    show "queues_ok ?s' (insert_after t R) (remove1 t S) Z" using mv(3) by (simp add: queues_ok_def RESTORE_EFLAGS_def)
    show "set (insert_after t R @ remove1 t S @ Z) = set (R @ S @ Z)"
      using queues_rings(8) [OF q] t(2) by (auto simp: set_remove1_eq)
    show "current_task s \<in> set (insert_after t R)" using ok by (simp add: tasks_ok_def)
  qed
  ultimately show ?thesis by blast
qed

lemma wakeup_running:
  assumes ok: "tasks_ok s R S Z" and t: "id2task p s = ret t" "t \<in> set R" "may_operate t s"
  shows "wakeup p s = ret (Returned 0, s)"
  unfolding wakeup_def using t tasks_in [OF ok, of t]
  by (subst target_body [OF t(1)]) (simp_all add: CLI_SAVE_EFLAGS_def Let_def)

lemma sleep_sleeping:
  assumes ok: "tasks_ok s R S Z" and t: "id2task p s = ret t" "t \<in> set S" "may_operate t s"
  shows "sleep ra p sigs s = ret (Returned 0, s)"
proof -
  have "t \<notin> set R" using ok t(2) by (auto simp: tasks_ok_def queues_ok_def)
  then show ?thesis unfolding sleep_def using t tasks_in [OF ok, of t]
    by (subst target_body [OF t(1)]) (simp_all add: CLI_SAVE_EFLAGS_def Let_def)
qed

text \<open>A running task is put to sleep: what holds before control is given away.\<close>

definition slept :: "u32 \<Rightarrow> Sigset \<Rightarrow> task_state \<Rightarrow> task_state \<Rightarrow> bool" where
  "slept t sigs s s' \<longleftrightarrow> (\<exists>s2. moved t TS_SLEEPING s s2 \<and>
     s' = set_task t (\<lambda>x. x\<lparr>sig_wakeup := Sigset_assign sigs (sig_wakeup x)\<rparr>) s2)"

lemma sleep_running:
  assumes ok: "tasks_ok s R S Z" and t: "id2task p s = ret t" "t \<in> set R" "may_operate t s"
  shows "\<exists>s'. slept t sigs (snd (CLI_SAVE_EFLAGS s)) s' \<and> queues_ok s' (remove1 t R) (insert_after t S) Z \<and>
    sleep ra p sigs s = ret (if t = current_task s then sleep_after ra (get_next_task s) (r_eflags (cpu s)) s'
      else (Returned 0, RESTORE_EFLAGS (r_eflags (cpu s)) s'))"
proof -
  let ?s = "s\<lparr>cpu := (cpu s)\<lparr>r_eflags := r_eflags (cpu s) AND NOT FLAG_IF\<rparr>\<rparr>"
  have q: "queues_ok ?s R S Z" using ok by (simp add: tasks_ok_def queues_ok_def)
  have st: "t \<noteq> 0" "state (tasks s t) = TS_RUNNING" using tasks_in [OF ok, of t] t(2) by auto
  from to_sleeping [OF q t(2)] obtain s1 s2 where mv: "running_remove t ?s = ret s1"
      "s2 = set_task t (\<lambda>x. x\<lparr>state := TS_SLEEPING\<rparr>) (sleeping_insert t s1)"
      "queues_ok s2 (remove1 t R) (insert_after t S) Z" "moved t TS_SLEEPING ?s s2" by blast
  let ?s' = "set_task t (\<lambda>x. x\<lparr>sig_wakeup := Sigset_assign sigs (sig_wakeup x)\<rparr>) s2"
  have cur: "current_task ?s' = current_task s" using movedD(3) [OF mv(4)] by (simp add: set_task_def)
  have cli: "CLI_SAVE_EFLAGS s = (r_eflags (cpu s), ?s)" by (simp add: CLI_SAVE_EFLAGS_def Let_def)
  have "sleep ra p sigs s = ret (if t = current_task s then sleep_after ra (get_next_task s) (r_eflags (cpu s)) ?s'
      else (Returned 0, RESTORE_EFLAGS (r_eflags (cpu s)) ?s'))"
    unfolding sleep_def using st t mv(1,2) cur
    by (subst target_body [OF t(1)]) (simp_all add: cli Let_def get_next_task_def)
  moreover have "slept t sigs ?s ?s'" using mv(4) by (auto simp: slept_def)
  moreover have "queues_ok ?s' (remove1 t R) (insert_after t S) Z"
  proof -
    have "ring (tasks ?s') a xs = ring (tasks s2) a xs" for a xs
      by (rule ring_cong) (simp add: set_task_def upd_task_def)
    then show ?thesis using mv(3) by (simp add: queues_ok_def) (auto simp: set_task_def upd_task_def)
  qed
  ultimately show ?thesis by (auto simp: cli)
qed

lemma slept_ok:
  assumes "tasks_ok s R S Z" "slept t sigs (snd (CLI_SAVE_EFLAGS s)) s'" "t \<in> set R"
    and "queues_ok s' (remove1 t R) (insert_after t S) Z" "c \<in> set (remove1 t R)"
  shows "tasks_ok (s'\<lparr>current_task := c\<rparr>) (remove1 t R) (insert_after t S) Z"
proof -
  from assms(2) obtain s2 where mv: "moved t TS_SLEEPING (snd (CLI_SAVE_EFLAGS s)) s2"
    and s': "s' = set_task t (\<lambda>x. x\<lparr>sig_wakeup := Sigset_assign sigs (sig_wakeup x)\<rparr>) s2" by (auto simp: slept_def)
  from assms(1) obtain u where "table_ok (rbt_id2task s) (tasks s) (set (R @ S @ Z)) u" by (auto simp: tasks_ok_def)
  moreover have "distinct R" using assms(1) by (auto simp: tasks_ok_def queues_ok_def)
  ultimately have "table_ok (rbt_id2task s') (tasks s') (set (remove1 t R @ insert_after t S @ Z)) u"
    using movedD(4,7) [OF mv] remove_insert_set [of R t S Z] assms(3)
    by (subst table_ok_cong [where T = "tasks s"]) (auto simp: s' set_task_def upd_task_def CLI_SAVE_EFLAGS_def Let_def)
  then show ?thesis using assms(4,5) by (auto simp: tasks_ok_def queues_ok_def)
qed

text \<open>A task that puts itself to sleep gives the processor to the next one in the ring.\<close>

lemma sleep_after_jumps:
  assumes "ra \<noteq> 0xFFFFFFFF"
  shows "sleep_after ra nxt old s = (Jumped, switch_task nxt old
    (set_task (current_task s) (saved (r_esp (cpu s)) (r_ebp (cpu s)) ra) s))"
  using assms
  by (simp add: sleep_after_def Let_def set_task_def upd_task_def saved_def)

lemma sleep_self:
  assumes ok: "tasks_ok s R S Z" and t: "id2task p s = ret (current_task s)" and ra: "ra \<noteq> 0xFFFFFFFF"
    and s0: "slept (current_task s) sigs (snd (CLI_SAVE_EFLAGS s)) s0"
      "queues_ok s0 (remove1 (current_task s) R) (insert_after (current_task s) S) Z"
    and next_in: "get_next_task s \<in> set (remove1 (current_task s) R)"
    and s': "(f, s') = sleep_after ra (get_next_task s) (r_eflags (cpu s)) s0"
  shows "f = Jumped" "tasks_ok s' (remove1 (current_task s) R) (insert_after (current_task s) S) Z"
    "current_task s' = get_next_task s"
proof -
  let ?t = "current_task s"
  have cur: "current_task s \<in> set R" using ok by (simp add: tasks_ok_def)
  have cur0: "current_task s0 = ?t"
    using s0(1) by (auto simp: slept_def set_task_def CLI_SAVE_EFLAGS_def Let_def dest: movedD(3))
  show "f = Jumped" "current_task s' = get_next_task s"
    using s' by (simp_all add: sleep_after_jumps [OF ra] switch_task_def Let_def)
  have "tasks_ok (s0\<lparr>current_task := get_next_task s\<rparr>) (remove1 ?t R) (insert_after ?t S) Z"
    by (rule slept_ok [OF ok s0(1) cur s0(2) next_in])
  then have *: "tasks_ok (set_task a (saved x y z) (s0\<lparr>current_task := get_next_task s\<rparr>)) (remove1 ?t R) (insert_after ?t S) Z" for a x y z
    by (subst tasks_ok_set_task) (simp_all add: saved_def)
  have "s' = switch_task (get_next_task s) (r_eflags (cpu s))
      (set_task (current_task s0) (saved (r_esp (cpu s0)) (r_ebp (cpu s0)) ra) (s0\<lparr>current_task := get_next_task s\<rparr>))"
    using s' by (simp add: sleep_after_jumps [OF ra] switch_task_def Let_def set_task_def)
  then show "tasks_ok s' (remove1 ?t R) (insert_after ?t S) Z"
    using tasks_ok_switch [OF *] next_in by simp
qed

lemma next_in_rest:
  assumes "tasks_ok s R S Z" "get_next_task s \<noteq> current_task s"
  shows "get_next_task s \<in> set (remove1 (current_task s) R)"
proof -
  have "ring (tasks s) (running s) R" "current_task s \<in> set R" "distinct R"
    using assms(1) by (auto simp: tasks_ok_def queues_ok_def)
  then have "get_next_task s \<in> set R" unfolding get_next_task_def by (blast dest: ring_closed(1))
  with assms(2) \<open>distinct R\<close> show ?thesis by (simp add: set_remove1_eq)
qed

lemma may_operate_self: "may_operate (current_task s) s"
  by (simp add: may_operate_def)

text \<open>Every outcome of \<^verbatim>\<open>sleep\<close> and \<^verbatim>\<open>wakeup\<close> keeps the invariant.\<close>

lemma target_cases [consumes 1, case_names Missing Denied Asleep Awake]:
  assumes ok: "tasks_ok s R S Z"
    and "\<And>t. id2task p s = ret t \<Longrightarrow> t = 0 \<or> state (tasks s t) = TS_ZOMBIE \<Longrightarrow> P"
    and "\<And>t. id2task p s = ret t \<Longrightarrow> t \<noteq> 0 \<Longrightarrow> state (tasks s t) \<noteq> TS_ZOMBIE \<Longrightarrow> \<not> may_operate t s \<Longrightarrow> P"
    and "\<And>t. id2task p s = ret t \<Longrightarrow> t \<in> set S \<Longrightarrow> may_operate t s \<Longrightarrow> P"
    and "\<And>t. id2task p s = ret t \<Longrightarrow> t \<in> set R \<Longrightarrow> may_operate t s \<Longrightarrow> P"
  shows P
proof -
  from ok obtain u where "table_ok (rbt_id2task s) (tasks s) (set (R @ S @ Z)) u" by (auto simp: tasks_ok_def)
  then obtain t where t: "id2task p s = ret t" using id2task_finds by blast
  have "\<forall>a \<in> set Z. state (tasks s a) = TS_ZOMBIE" using ok by (simp add: tasks_ok_def queues_ok_def)
  then show P using id2task_in [OF ok t] assms(2-5) [OF t] by blast
qed

lemma sleep_keeps:
  assumes ok: "tasks_ok s R S Z" and res: "sleep ra p sigs s = ret (f, s')"
    and self: "id2task p s = ret (current_task s) \<Longrightarrow> get_next_task s \<noteq> current_task s" and ra: "ra \<noteq> 0xFFFFFFFF"
  shows "\<exists>R S. tasks_ok s' R S Z"
proof -
  from ok show ?thesis
  proof (cases rule: target_cases [where p = p])
    case (Missing t)
    then have "s' = set_errno (errno_code ESRCH) s" using target_error [OF Missing] res by (auto simp: sleep_def)
    then show ?thesis using ok by (intro exI [of _ R] exI [of _ S]) simp
  next
    case (Denied t)
    then have "s' = set_errno (errno_code EPERM) s" using target_denied [OF Denied] res by (auto simp: sleep_def)
    then show ?thesis using ok by (intro exI [of _ R] exI [of _ S]) simp
  next
    case (Asleep t)
    then show ?thesis using sleep_sleeping [OF ok Asleep] res ok by auto
  next
    case (Awake t)
    from sleep_running [OF ok Awake, of sigs ra] obtain s0
      where s0: "slept t sigs (snd (CLI_SAVE_EFLAGS s)) s0" "queues_ok s0 (remove1 t R) (insert_after t S) Z"
        "(f, s') = (if t = current_task s then sleep_after ra (get_next_task s) (r_eflags (cpu s)) s0
          else (Returned 0, RESTORE_EFLAGS (r_eflags (cpu s)) s0))" using res by auto
    show ?thesis
    proof (cases "t = current_task s")
      case True
      then show ?thesis using sleep_self(2) [OF ok _ ra, of p sigs s0 f s'] Awake(1) s0 next_in_rest [OF ok] self by auto
    next
      case False
      then have c: "current_task s \<in> set (remove1 t R)" using ok by (auto simp: tasks_ok_def set_remove1_eq queues_ok_def)
      have "current_task s0 = current_task s"
        using s0(1) by (auto simp: slept_def set_task_def CLI_SAVE_EFLAGS_def Let_def dest: movedD(3))
      then have "s0\<lparr>current_task := current_task s\<rparr> = s0" by simp
      then show ?thesis using slept_ok [OF ok s0(1) Awake(2) s0(2) c] s0(3) False by auto
    qed
  qed
qed

lemma wakeup_keeps:
  assumes ok: "tasks_ok s R S Z" and res: "wakeup p s = ret (f, s')"
  shows "\<exists>R S. tasks_ok s' R S Z"
proof -
  from ok show ?thesis
  proof (cases rule: target_cases [where p = p])
    case (Missing t)
    then have "s' = set_errno (errno_code ESRCH) s" using target_error [OF Missing] res by (auto simp: wakeup_def)
    then show ?thesis using ok by (intro exI [of _ R] exI [of _ S]) simp
  next
    case (Denied t)
    then have "s' = set_errno (errno_code EPERM) s" using target_denied [OF Denied] res by (auto simp: wakeup_def)
    then show ?thesis using ok by (intro exI [of _ R] exI [of _ S]) simp
  next
    case (Asleep t)
    then show ?thesis using wakeup_sleeping [OF ok Asleep] res by auto
  next
    case (Awake t)
    then show ?thesis using wakeup_running [OF ok Awake] res ok by auto
  qed
qed

end
