(* ===== verification/Task_Thms.thy ===== *)
theory Task_Thms
  imports Task_Ops
begin

text \<open>
  The properties of tasks and of their scheduling, each with a concrete instance on three tasks,
  two running and one asleep.
\<close>

section \<open>A concrete state\<close>

definition boot_pages :: page_state where
  "boot_pages =
     \<lparr>kheap_finish_init_called = False, kheap_static_end = 0x100000, USER_MEM_LOW = 0, USER_MEM_HIGH = 0,
      mm = \<lparr>static_mem = 0, freed = (\<lambda>_. 0), nstatic_mem = 0, nfreed = 0\<rparr>,
      tree_size = \<lparr>NIL = 0, tree_root = 0, node = (\<lambda>_. \<lparr>par_and_color = 0, ch0 = 0, ch1 = 0, key = \<lparr>start = 0, bsize = 0\<rparr>\<rparr>)\<rparr>,
      tree_start = \<lparr>NIL = 0, tree_root = 0, node = (\<lambda>_. \<lparr>par_and_color = 0, ch0 = 0, ch1 = 0, key = \<lparr>start = 0, bsize = 0\<rparr>\<rparr>)\<rparr>,
      kmem = (\<lambda>_. 0), current_page_dir = 0x8000,
      dirs = (\<lambda>_. \<lparr>tables = (\<lambda>i. 0), dentries = (\<lambda>_. zero_dentry), phyaddr = 0x9000\<rparr>),
      tabs = (\<lambda>_. zero_table), frames = (\<lambda>_. 6), nframes = 1, frame_ref_cnt = (\<lambda>_. 0),
      empty_page0_addr = 0, empty_page1_addr = 0, kernel_low_ntable = 0,
      empty_page0_ptr = (0, 0), empty_page1_ptr = (0, 0), init_finished = False,
      frame_mem = (\<lambda>f w. 0), tlb = Map.empty, cr3 = 0x9000, paging_on = False\<rparr>"

definition a_task :: "pid_t \<Rightarrow> Task_state_t \<Rightarrow> u32 \<Rightarrow> u32 \<Rightarrow> Task_t" where
  "a_task p st nxt prv = \<lparr>pid = p, esp = 0x700 + p, ebp = 0x800 + p, eip = 0x900 + p, page_dir = 0x8000,
     state = st, uid = p, gid = p, errno = 0, parent = 0, queue_next = nxt, queue_prev = prv,
     sig_wakeup = \<lparr>val = [0]\<rparr>\<rparr>"

definition three_store :: task_store where
  "three_store = (\<lambda>a. if a = 0x1000 then a_task 0 TS_RUNNING 0x2000 0x2000
     else if a = 0x2000 then a_task 1 TS_RUNNING 0x1000 0x1000
     else a_task 2 TS_SLEEPING 0x3000 0x3000)"

definition three_table :: "Pair_id_task Rbt" where
  "three_table = \<lparr>NIL = 2, tree_root = 0x2034,
     node = (\<lambda>a. if a = 0x2034 then \<lparr>par_and_color = 3, ch0 = 0x1034, ch1 = 0x3034, key = \<lparr>pair_id = 1, pair_task = 0x2000\<rparr>\<rparr>
       else if a = 0x1034 then \<lparr>par_and_color = 0x2034, ch0 = 2, ch1 = 2, key = \<lparr>pair_id = 0, pair_task = 0x1000\<rparr>\<rparr>
       else if a = 0x3034 then \<lparr>par_and_color = 0x2034, ch0 = 2, ch1 = 2, key = \<lparr>pair_id = 2, pair_task = 0x3000\<rparr>\<rparr>
       else \<lparr>par_and_color = 3, ch0 = 2, ch1 = 2, key = \<lparr>pair_id = 0, pair_task = 0\<rparr>\<rparr>)\<rparr>"

definition some_cpu :: cpu where
  "some_cpu = \<lparr>r_eax = 0, r_esp = 0x500, r_ebp = 0x600, r_eip = 0x100, r_eflags = 0x202,
     r_cs = 8, r_ds = 16, r_es = 16, r_fs = 16, r_gs = 16, r_ss = 16\<rparr>"

definition three_tasks :: task_state where
  "three_tasks = \<lparr>pg = boot_pages, tasks = three_store, rbt_id2task = three_table, latest_task = 0x3000,
     current_task = 0x1000, running = 0x1000, sleeping = 0x3000, zombie = 0, pid_next = 3,
     switch_to_user_mode_called = False, initial_stack_pointer = 0x7000, cpu = some_cpu\<rparr>"

lemma three_table_ok:
  "table_ok three_table three_store {0x1000, 0x2000, 0x3000}
     (Nd (Nd Lf 0x1034 Red \<lparr>pair_id = 0, pair_task = 0x1000\<rparr> Lf) 0x2034 Black \<lparr>pair_id = 1, pair_task = 0x2000\<rparr>
        (Nd Lf 0x3034 Red \<lparr>pair_id = 2, pair_task = 0x3000\<rparr> Lf))"
  by (simp add: table_ok_def rbt_ok_def rep_def rb_def three_table_def three_store_def a_task_def ordered_def
      is_node_def get_par_def is_black_def even_addr_def lt_id_def pair_of_def node_of_def rbt_node_mem_def)

lemma three_tasks_ok: "tasks_ok three_tasks [0x1000, 0x2000] [0x3000] []"
  using three_table_ok
  by (auto simp: tasks_ok_def queues_ok_def three_tasks_def ring_def three_store_def a_task_def)

lemmas three_fields = three_tasks_def three_store_def a_task_def some_cpu_def

section \<open>Scheduling\<close>

text \<open>
  Scheduling is fair. From any state that satisfies the invariant, whatever the tasks execute in
  their slices, every task of the running queue becomes current within as many calls of
  \<^verbatim>\<open>schedule\<close> as there are running tasks.
\<close>

theorem schedule_fair:
  assumes "tasks_ok s R S Z" "slices_ok es" "length R \<le> length es" "t \<in> set R"
  shows "\<exists>k \<le> length R. 0 < k \<and> current_task (fold time_slice (take k es) s) = t"
  using assms by (rule slices_reach)

theorem schedule_fair_witness:
  "\<exists>k \<le> length [0x1000, 0x2000 :: u32]. 0 < k \<and> current_task (fold time_slice (take k [(0x900, some_cpu), (0x901, some_cpu)]) three_tasks) = 0x2000"
  using schedule_fair [OF three_tasks_ok, of "[(0x900, some_cpu), (0x901, some_cpu)]" "0x2000"]
  by (simp add: slices_ok_def)

text \<open>
  C22: a task gets its context back. When a task calls \<^verbatim>\<open>schedule\<close> and every running task has
  had its turn, it is current again, at the instruction, stack and frame pointer it left with, in its own
  page directory with the translation buffer flushed, and \<^verbatim>\<open>read_eip\<close> appears to
  return the value that tells it so.
\<close>

theorem schedule_restores_context:
  assumes "tasks_ok s R S Z" "slices_ok ((ra, c) # es)" "length ((ra, c) # es) = length R"
    and "s' = fold time_slice ((ra, c) # es) s"
  shows "current_task s' = current_task s \<and> r_eip (cpu s') = ra \<and> r_esp (cpu s') = r_esp c \<and>
    r_ebp (cpu s') = r_ebp c \<and> r_eax (cpu s') = 0xFFFFFFFF \<and>
    current_page_dir (pg s') = page_dir (tasks s (current_task s)) \<and>
    cr3 (pg s') = phyaddr (dirs (pg s') (current_page_dir (pg s'))) \<and> tlb (pg s') = Map.empty"
proof -
  from assms(1) have "current_task s \<in> set R" by (simp add: tasks_ok_def)
  then obtain i where i: "i < length R" "current_task s = R ! i" by (auto simp: in_set_conv_nth)
  have ra: "ra \<noteq> 0xFFFFFFFF" and es: "slices_ok es" using assms(2) by (auto simp: slices_ok_def)
  let ?s1 = "time_slice (ra, c) s"
  have ok1: "tasks_ok ?s1 R S Z" using assms(1) by (simp add: time_slice_def schedule_ok)
  have cur1: "current_task ?s1 = R ! (Suc i mod length R)" by (rule slice_current [OF assms(1) i ra])
  have lt1: "Suc i mod length R < length R" using i(1) by (intro mod_less_divisor) auto
  have "(Suc i mod length R + k) mod length R \<noteq> i" if "k < length es" for k
    using round_keeps [OF i(1), of "Suc k"] that assms(3) by (simp add: mod_add_left_eq)
  then have "tasks s' (R ! i) = tasks ?s1 (R ! i)"
    using slices_keep [OF ok1 lt1 cur1 es i(1)] assms(4) by simp
  then have ctx: "tasks s' (R ! i) = saved (r_esp c) (r_ebp c) ra (tasks s (R ! i))"
    by (simp add: slice_context [OF ra] upd_task_def i(2))
  have cur: "current_task s' = R ! i"
  proof -
    have "(i + length ((ra, c) # es)) mod length R = i" unfolding assms(3) using i(1) by simp
    then show ?thesis using slices_current [OF assms(1) i assms(2)] unfolding assms(4) by simp
  qed
  obtain ra' c' s0 where s': "ra' \<noteq> 0xFFFFFFFF" "s' = time_slice (ra', c') s0"
  proof (cases es rule: rev_cases)
    case Nil
    then show ?thesis using that [OF ra] assms(4) by simp
  next
    case (snoc es' e)
    then show ?thesis using that [of "fst e" "snd e"] es assms(4) by (cases e) (auto simp: slices_ok_def)
  qed
  show ?thesis using slice_loads [OF s' refl] cur ctx i(2) by (simp add: saved_def)
qed

theorem schedule_restores_context_witness:
  "r_eip (cpu (fold time_slice [(0x900, some_cpu), (0x901, some_cpu\<lparr>r_esp := 1\<rparr>)] three_tasks)) = 0x900 \<and>
   r_esp (cpu (fold time_slice [(0x900, some_cpu), (0x901, some_cpu\<lparr>r_esp := 1\<rparr>)] three_tasks)) = 0x500"
  using schedule_restores_context [OF three_tasks_ok, of "0x900" some_cpu "[(0x901, some_cpu\<lparr>r_esp := 1\<rparr>)]"]
  by (simp add: slices_ok_def some_cpu_def)

section \<open>Identifiers\<close>

text \<open>
  C38: \<^verbatim>\<open>id2task\<close> returns the task with the least identifier that is not below the one
  asked for, and \<^verbatim>\<open>NULL\<close> only when every identifier is below it. So it finds a task that has
  the identifier, but also returns a task when none has it.
\<close>

theorem id2task_least_above:
  assumes "tasks_ok s R S Z"
  shows "\<exists>a. id2task p s = ret a \<and>
    (if \<forall>b \<in> set (R @ S @ Z). pid (tasks s b) < p then a = 0
     else a \<in> set (R @ S @ Z) \<and> p \<le> pid (tasks s a) \<and>
       (\<forall>b \<in> set (R @ S @ Z). p \<le> pid (tasks s b) \<longrightarrow> pid (tasks s a) \<le> pid (tasks s b)))"
proof -
  from assms obtain t where "table_ok (rbt_id2task s) (tasks s) (set (R @ S @ Z)) t" by (auto simp: tasks_ok_def)
  from id2task_finds [OF this, of p] show ?thesis unfolding task_with_def .
qed

text \<open>A task 7 is asked for and task 9, the only one, is returned.\<close>

definition lone_task :: task_state where
  "lone_task = three_tasks\<lparr>tasks := (\<lambda>a. a_task 9 TS_RUNNING 0x1000 0x1000), sleeping := 0,
     rbt_id2task := \<lparr>NIL = 2, tree_root = 0x1034,
       node = (\<lambda>a. \<lparr>par_and_color = 3, ch0 = 2, ch1 = 2, key = \<lparr>pair_id = 9, pair_task = 0x1000\<rparr>\<rparr>)\<rparr>\<rparr>"

lemma lone_task_ok: "tasks_ok lone_task [0x1000] [] []"
proof -
  have "table_ok (rbt_id2task lone_task) (tasks lone_task) {0x1000} (Nd Lf 0x1034 Black \<lparr>pair_id = 9, pair_task = 0x1000\<rparr> Lf)"
    by (simp add: table_ok_def rbt_ok_def rep_def rb_def lone_task_def a_task_def ordered_def
      is_node_def get_par_def is_black_def even_addr_def lt_id_def pair_of_def node_of_def rbt_node_mem_def)
  then show ?thesis
    by (auto simp: tasks_ok_def queues_ok_def ring_def lone_task_def three_tasks_def a_task_def)
qed

theorem id2task_least_above_witness:
  "id2task 7 lone_task = ret 0x1000 \<and> pid (tasks lone_task 0x1000) = 9 \<and> id2task 10 lone_task = ret 0"
  using id2task_least_above [OF lone_task_ok, of 7] id2task_least_above [OF lone_task_ok, of 10]
  by (simp add: lone_task_def a_task_def)

text \<open>
  \<^verbatim>\<open>get_next_pid\<close> ends as long as no task has the greatest identifier, and the
  identifier it returns is above that of every task and not below the next one to try.
\<close>

theorem get_next_pid_fresh:
  assumes "tasks_ok s R S Z" "\<forall>a \<in> set (R @ S @ Z). pid (tasks s a) < 0xFFFFFFFF"
  shows "\<exists>n. get_next_pid s = ret (n, s\<lparr>pid_next := n + 1\<rparr>) \<and> pid_next s \<le> n \<and>
    (\<forall>a \<in> set (R @ S @ Z). pid (tasks s a) < n)"
proof -
  from assms(1) obtain t where "table_ok (rbt_id2task s) (tasks s) (set (R @ S @ Z)) t" by (auto simp: tasks_ok_def)
  from next_pid_loop_ends [OF this assms(2), of "pid_next s"] show ?thesis by (auto simp: get_next_pid_def)
qed

theorem get_next_pid_fresh_witness:
  "\<exists>n. get_next_pid lone_task = ret (n, lone_task\<lparr>pid_next := n + 1\<rparr>) \<and> pid_next lone_task \<le> n \<and>
    (\<forall>a \<in> set ([0x1000] @ [] @ []). pid (tasks lone_task a) < n)"
  by (rule get_next_pid_fresh [OF lone_task_ok]) (simp add: lone_task_def a_task_def)

section \<open>fork\<close>

text \<open>
  C21: \<^verbatim>\<open>fork\<close>, when the allocator gives it an object apart from the existing tasks and a page
  directory can be cloned, returns to the parent the child's identifier, which no task had; the child
  joins the running queue right after the head with the parent's user and group, the cloned directory, and
  the parent's stack and frame pointer at the place \<^verbatim>\<open>read_eip\<close> returned to; no other task and no
  register changes, and the invariant holds.
\<close>

theorem fork_creates_child:
  assumes "tasks_ok s R S Z" "new_object s (set (R @ S @ Z)) child"
    and "\<forall>a \<in> set (R @ S @ Z). pid (tasks s a) < 0xFFFFFFFF"
    and "km sizeof_Task_t 0 (pg s) = ret (child, p1)"
    and "clone_directory km (current_page_dir p1) p1 = ret (dir, p2)"
  shows "\<exists>n s'. fork km ra s = ret (n, s') \<and> tasks_ok s' (insert_after child R) S Z \<and>
    (\<forall>a \<in> set (R @ S @ Z). pid (tasks s a) \<noteq> n) \<and> cpu s' = cpu s \<and> pg s' = p2 \<and>
    current_task s' = current_task s \<and> (\<forall>a. a \<noteq> child \<longrightarrow> task_data (tasks s') a = task_data (tasks s) a) \<and>
    (let c = tasks s' child; par = tasks s (current_task s) in
       pid c = n \<and> state c = TS_RUNNING \<and> parent c = current_task s \<and> uid c = uid par \<and> gid c = gid par \<and>
       page_dir c = dir \<and> eip c = ra \<and> esp c = r_esp (cpu s) \<and> ebp c = r_ebp (cpu s))"
proof -
  from tasks_ok_fork [OF assms, of ra] obtain n s' where f: "fork km ra s = ret (n, s')"
      "tasks_ok s' (insert_after child R) S Z" "\<forall>a \<in> set (R @ S @ Z). pid (tasks s a) < n" "cpu s' = cpu s" "pg s' = p2"
      "current_task s' = current_task s" "\<forall>a. a \<noteq> child \<longrightarrow> task_data (tasks s') a = task_data (tasks s) a"
    and c: "task_data (tasks s') child = (saved (r_esp (cpu s)) (r_ebp (cpu s)) ra (new_task n dir (tasks s child)))
      \<lparr>parent := current_task s, uid := uid (tasks s (current_task s)), gid := gid (tasks s (current_task s))\<rparr>"
    by blast
  have sel: "pid (tasks s' child) = pid (task_data (tasks s') child)" "state (tasks s' child) = state (task_data (tasks s') child)"
    "parent (tasks s' child) = parent (task_data (tasks s') child)" "uid (tasks s' child) = uid (task_data (tasks s') child)"
    "gid (tasks s' child) = gid (task_data (tasks s') child)" "page_dir (tasks s' child) = page_dir (task_data (tasks s') child)"
    "eip (tasks s' child) = eip (task_data (tasks s') child)" "esp (tasks s' child) = esp (task_data (tasks s') child)"
    "ebp (tasks s' child) = ebp (task_data (tasks s') child)"
    by (simp_all add: task_data_def)
  have "let c = tasks s' child; par = tasks s (current_task s) in
       pid c = n \<and> state c = TS_RUNNING \<and> parent c = current_task s \<and> uid c = uid par \<and> gid c = gid par \<and>
       page_dir c = dir \<and> eip c = ra \<and> esp c = r_esp (cpu s) \<and> ebp c = r_ebp (cpu s)"
    unfolding Let_def sel c by (simp add: saved_def new_task_def)
  moreover have "\<forall>a \<in> set (R @ S @ Z). pid (tasks s a) \<noteq> n" using f(3) by blast
  ultimately show ?thesis using f by blast
qed

lemma foldM_idle: "(\<And>x. x \<in> set xs \<Longrightarrow> f x s = ret s) \<Longrightarrow> foldM f xs s = ret s"
  by (induction xs) simp_all

lemma kmalloc_at_boot:
  "\<not> kheap_finish_init_called p \<Longrightarrow> kmalloc_at (Suc n) sz al p = ret (kmalloc_pre_init sz al p)"
  by (simp add: kmalloc_def)

lemma fold_link_table:
  "\<exists>D. fold (link_table dest src) xs p = upd_dir dest (\<lambda>_. D) p"
proof (induction xs arbitrary: p)
  case Nil
  have "p = upd_dir dest (\<lambda>_. dirs p dest) p" by (simp add: upd_dir_def)
  then show ?case by auto
next
  case (Cons x xs)
  obtain D where "fold (link_table dest src) xs (link_table dest src x p) = upd_dir dest (\<lambda>_. D) (link_table dest src x p)"
    using Cons by blast
  moreover have "upd_dir dest (\<lambda>_. D) (link_table dest src x p) = upd_dir dest (\<lambda>_. D) p"
    by (simp add: link_table_def upd_dir_def)
  ultimately show ?case by auto
qed

text \<open>While the static arena serves and no table of the source is set, cloning always succeeds.\<close>

definition booting :: "u32 \<Rightarrow> page_state \<Rightarrow> bool" where
  "booting src p \<longleftrightarrow> \<not> kheap_finish_init_called p \<and> \<not> init_finished p \<and> \<not> paging_on p \<and> tables (dirs p src) = (\<lambda>_. 0)"

lemma booting_stack_page:
  assumes "booting src p" "dest \<noteq> src"
  shows "\<exists>p'. clone_stack_page (kmalloc_at (Suc n)) dest i p = ret p' \<and> booting src p'"
  using assms
  by (auto simp: booting_def clone_stack_page_def get_page_def kernel_write_def kmalloc_at_boot get_physical_addr_def
      kmalloc_pre_init_def copy_page_physical_def upd_dir_def upd_ent_def invlpg_def hw_access_def Let_def
      simp del: kmalloc_at.simps)

lemma booting_clone:
  assumes "booting src p" "get_aligned (kheap_static_end p) 12 \<noteq> src"
  shows "\<exists>dir p'. clone_directory (kmalloc_at (Suc n)) src p = ret (dir, p')"
proof -
  obtain dest p1 where km: "kmalloc_pre_init sizeof_Directory_t 12 p = (dest, p1)" by (metis surj_pair)
  then have dest: "dest \<noteq> src" and p1: "booting src p1"
    using assms by (auto simp: kmalloc_pre_init_def Let_def booting_def)
  let ?p2 = "p1\<lparr>dirs := (dirs p1)(dest := zero_directory)\<rparr>"
  let ?p3 = "upd_dir dest (\<lambda>D. D\<lparr>phyaddr := dest + 4096\<rparr>) ?p2"
  obtain D where D: "fold (link_table dest src) [0..<unat (kernel_low_ntable ?p3)] ?p3 = upd_dir dest (\<lambda>_. D) ?p3"
    using fold_link_table by blast
  let ?p4 = "upd_dir dest (\<lambda>_. D) ?p3"
  obtain E where E: "fold (link_table dest src)
      [unat (drop_bit 22 KERNEL_HEAP_BEGIN)..<unat (drop_bit 22 KERNEL_HEAP_END)] ?p4 = upd_dir dest (\<lambda>_. E) ?p4"
    using fold_link_table by blast
  have p4: "booting src (upd_dir dest (\<lambda>_. E) ?p4)" using p1 dest by (simp add: booting_def upd_dir_def)
  have "\<exists>p5. page_loop (clone_stack_page (kmalloc_at (Suc n)) dest)
      (KERNEL_STACK_POS - KERNEL_STACK_SIZE) KERNEL_STACK_POS (upd_dir dest (\<lambda>_. E) ?p4) = ret p5 \<and> booting src p5"
    using p4 by (rule page_loop_invariant) (simp add: KERNEL_STACK_POS_def, rule booting_stack_page [OF _ dest])
  then obtain p5 where p5: "page_loop (clone_stack_page (kmalloc_at (Suc n)) dest)
      (KERNEL_STACK_POS - KERNEL_STACK_SIZE) KERNEL_STACK_POS (upd_dir dest (\<lambda>_. E) ?p4) = ret p5" "booting src p5"
    by blast
  have "foldM (clone_user_table (kmalloc_at (Suc n)) dest src) xs p5 = ret p5" for xs
    using p5(2) by (intro foldM_idle) (simp add: clone_user_table_def booting_def)
  then show ?thesis
    using assms(1) p1 km D E p5(1)
    by (simp add: clone_directory_def kernel_write_def booting_def kmalloc_at_boot get_physical_addr_def Let_def upd_dir_def del: kmalloc_at.simps)
qed

lemma boot_alloc:
  "kmalloc_at 1 sizeof_Task_t 0 boot_pages = ret (0x100000, boot_pages\<lparr>kheap_static_end := 0x10004C\<rparr>)"
  by (simp add: kmalloc_def kmalloc_pre_init_def boot_pages_def get_aligned_def sizeof_Task_t_def)

lemma three_new: "new_object three_tasks (set ([0x1000, 0x2000] @ [0x3000] @ [])) 0x100000"
  using bytes_at_unat [of "0x100000" 76] bytes_at_unat [of "0x1000" 76] bytes_at_unat [of "0x2000" 76]
    bytes_at_unat [of "0x3000" 76]
  by (auto simp: new_object_def sizeof_Task_t_def three_tasks_def three_table_def)

theorem fork_creates_child_witness:
  "\<exists>n s'. fork (kmalloc_at 1) 0x950 three_tasks = ret (n, s') \<and>
     tasks_ok s' [0x1000, 0x100000, 0x2000] [0x3000] [] \<and> pid (tasks s' 0x100000) = n \<and> n \<notin> {0, 1, 2} \<and>
     parent (tasks s' 0x100000) = 0x1000 \<and> eip (tasks s' 0x100000) = 0x950"
proof -
  let ?p = "boot_pages\<lparr>kheap_static_end := 0x10004C\<rparr>"
  have km: "kmalloc_at 1 sizeof_Task_t 0 (pg three_tasks) = ret (0x100000, ?p)"
    using boot_alloc by (simp add: three_tasks_def)
  have "booting (current_page_dir ?p) ?p" by (simp add: booting_def boot_pages_def)
  moreover have "get_aligned (kheap_static_end ?p) 12 \<noteq> current_page_dir ?p"
    by (simp add: boot_pages_def get_aligned_def)
  ultimately obtain dir p' where dir: "clone_directory (kmalloc_at 1) (current_page_dir ?p) ?p = ret (dir, p')"
    using booting_clone [of "current_page_dir ?p" ?p 0] unfolding One_nat_def by blast
  have pids: "\<forall>a \<in> set ([0x1000, 0x2000] @ [0x3000] @ []). pid (tasks three_tasks a) < 0xFFFFFFFF"
    by (simp add: three_fields)
  from fork_creates_child [OF three_tasks_ok three_new pids km dir, of "0x950"] show ?thesis
    by (auto simp: insert_after_def Let_def three_fields)
qed

section \<open>sleep and wakeup\<close>

text \<open>
  C33: \<^verbatim>\<open>sleep\<close> and \<^verbatim>\<open>wakeup\<close> refuse with \<open>-1\<close> and change nothing but the caller's
  \<^verbatim>\<open>errno\<close>: it is \<^verbatim>\<open>ESRCH\<close> when the table yields no task or a zombie, and
  \<^verbatim>\<open>EPERM\<close> when the caller neither owns the task nor is the superuser.
\<close>

theorem sleep_wakeup_refused:
  assumes "tasks_ok s R S Z" "id2task p s = ret t"
    and "t = 0 \<or> t \<in> set Z \<or> uid (tasks s t) \<noteq> uid (tasks s (current_task s)) \<and> uid (tasks s (current_task s)) \<noteq> 0"
  shows "\<exists>s'. sleep ra p sigs s = ret (Returned (-1), s') \<and> wakeup p s = ret (Returned (-1), s') \<and>
    s' = set_errno (if t = 0 \<or> t \<in> set Z then errno_code ESRCH else errno_code EPERM) s \<and> tasks_ok s' R S Z"
proof (cases "t = 0 \<or> t \<in> set Z")
  case True
  then have "t = 0 \<or> state (tasks s t) = TS_ZOMBIE" using assms(1) by (auto simp: tasks_ok_def queues_ok_def)
  then show ?thesis using target_error [OF assms(2)] assms(1) True by (auto simp: sleep_def wakeup_def)
next
  case False
  then have "\<not> may_operate t s" using assms(3) by (simp add: may_operate_def cap_test_def)
  moreover have "t \<in> set R \<or> t \<in> set S"
    using id2task_in [OF assms(1,2)] False by blast
  then have "state (tasks s t) \<noteq> TS_ZOMBIE" using tasks_in(2) [OF assms(1), of t] by (auto split: if_splits)
  ultimately show ?thesis using target_denied [OF assms(2)] assms(1) False by (auto simp: sleep_def wakeup_def)
qed

definition as_user :: "uid_t \<Rightarrow> task_state \<Rightarrow> task_state" where
  "as_user u s = set_task (current_task s) (\<lambda>t. t\<lparr>uid := u\<rparr>) s"

lemma three_id2task:
  "id2task 2 three_tasks = ret 0x3000" "id2task 1 three_tasks = ret 0x2000" "id2task 0 three_tasks = ret 0x1000"
  "id2task 2 (as_user u three_tasks) = ret 0x3000"
  by (simp_all add: id2task_def find_ge_def do_find_ge.simps three_tasks_def three_table_def lt_id_def as_user_def set_task_def)

theorem sleep_wakeup_refused_witness:
  "\<exists>s'. sleep 0x950 2 \<lparr>val = [0]\<rparr> (as_user 5 three_tasks) = ret (Returned (-1), s') \<and>
     wakeup 2 (as_user 5 three_tasks) = ret (Returned (-1), s') \<and> errno (tasks s' 0x1000) = 1"
proof -
  have ok: "tasks_ok (as_user 5 three_tasks) [0x1000, 0x2000] [0x3000] []"
    unfolding as_user_def using three_tasks_ok by (subst tasks_ok_set_task) simp_all
  show ?thesis
    using sleep_wakeup_refused [OF ok three_id2task(4), of "0x950" "\<lparr>val = [0]\<rparr>"]
    by (auto simp: as_user_def set_task_def upd_task_def set_errno_def three_fields)
qed

text \<open>
  C23: putting another running task to sleep and waking it again by the same identifier succeeds both
  times: in between it is in the sleeping queue with the given signals, afterwards it is running
  again right after the head of its queue; the caller stays current with its registers, and the
  invariant holds throughout.
\<close>

theorem sleep_wakeup_roundtrip:
  assumes "tasks_ok s R S Z" "id2task p s = ret t" "t \<in> set R" "t \<noteq> current_task s"
    and "uid (tasks s t) = uid (tasks s (current_task s)) \<or> uid (tasks s (current_task s)) = 0"
  shows "\<exists>s1 s2. sleep ra p sigs s = ret (Returned 0, s1) \<and> wakeup p s1 = ret (Returned 0, s2) \<and>
    tasks_ok s1 (remove1 t R) (insert_after t S) Z \<and> state (tasks s1 t) = TS_SLEEPING \<and>
    signals (sig_wakeup (tasks s1 t)) = signals sigs \<and>
    tasks_ok s2 (insert_after t (remove1 t R)) S Z \<and> state (tasks s2 t) = TS_RUNNING \<and>
    current_task s2 = current_task s \<and> cpu s2 = cpu s \<and> pg s2 = pg s"
proof -
  let ?old = "r_eflags (cpu s)"
  have may: "may_operate t s" using assms(5) by (auto simp: may_operate_def cap_test_def)
  from sleep_running [OF assms(1-3) may, of sigs ra] assms(4) obtain s0
    where s0: "slept t sigs (snd (CLI_SAVE_EFLAGS s)) s0" "queues_ok s0 (remove1 t R) (insert_after t S) Z"
      "sleep ra p sigs s = ret (Returned 0, RESTORE_EFLAGS ?old s0)" by auto
  from s0(1) obtain s00 where mv: "moved t TS_SLEEPING (snd (CLI_SAVE_EFLAGS s)) s00"
    and s0_def: "s0 = set_task t (\<lambda>x. x\<lparr>sig_wakeup := Sigset_assign sigs (sig_wakeup x)\<rparr>) s00" by (auto simp: slept_def)
  let ?s1 = "RESTORE_EFLAGS ?old s0"
  have f: "cpu ?s1 = cpu s" "pg ?s1 = pg s" "current_task ?s1 = current_task s" "rbt_id2task ?s1 = rbt_id2task s"
    "uid (tasks ?s1 a) = uid (tasks s a)" for a
    using movedD [OF mv] by (simp_all add: s0_def RESTORE_EFLAGS_def set_task_def upd_task_def CLI_SAVE_EFLAGS_def Let_def)
  have cur: "current_task s \<in> set (remove1 t R)"
    using assms(1,4) by (auto simp: tasks_ok_def queues_ok_def set_remove1_eq)
  have "s0\<lparr>current_task := current_task s\<rparr> = s0"
    using f(3) by (simp add: RESTORE_EFLAGS_def)
  then have ok1: "tasks_ok ?s1 (remove1 t R) (insert_after t S) Z"
    using slept_ok [OF assms(1) s0(1) assms(3) s0(2) cur] by simp
  have "id2task p ?s1 = ret t" using assms(2) id2task_cong [OF f(4)] by simp
  moreover have "may_operate t ?s1" using may f(3,5) by (simp add: may_operate_def)
  ultimately obtain s2 where s2: "wakeup p ?s1 = ret (Returned 0, s2)" "moved t TS_RUNNING ?s1 s2"
      "tasks_ok s2 (insert_after t (remove1 t R)) (remove1 t (insert_after t S)) Z"
    using wakeup_sleeping [OF ok1] by auto
  have "t \<notin> set S" using assms(1,3) by (auto simp: tasks_ok_def queues_ok_def)
  then have "remove1 t (insert_after t S) = S" by (cases S) (auto simp: insert_after_def remove1_idem)
  moreover have "state (tasks ?s1 t) = TS_SLEEPING" "signals (sig_wakeup (tasks ?s1 t)) = signals sigs"
    using movedD(15) [OF mv, of t]
    by (simp_all add: s0_def RESTORE_EFLAGS_def set_task_def upd_task_def Sigset_assign_def signals_def Sigset_test_def)
  ultimately show ?thesis
    using s0(3) s2 ok1 f movedD(1,2,3) [OF s2(2)] movedD(15) [OF s2(2), of t] by metis
qed

theorem sleep_wakeup_roundtrip_witness:
  "\<exists>s1 s2. sleep 0x950 1 \<lparr>val = [6]\<rparr> three_tasks = ret (Returned 0, s1) \<and> wakeup 1 s1 = ret (Returned 0, s2) \<and>
    tasks_ok s1 [0x1000] [0x3000, 0x2000] [] \<and> tasks_ok s2 [0x1000, 0x2000] [0x3000] [] \<and>
    signals (sig_wakeup (tasks s1 0x2000)) = signals \<lparr>val = [6]\<rparr>"
  using sleep_wakeup_roundtrip [OF three_tasks_ok three_id2task(2), of "0x950" "\<lparr>val = [6]\<rparr>"]
  by (auto simp: three_fields insert_after_def)

text \<open>
  A task that puts itself to sleep while others run saves its registers, leaves the running
  queue for the sleeping one, and control passes to the next running task with the registers saved for
  that one; the invariant holds.
\<close>

theorem sleep_self_switches:
  assumes "tasks_ok s R S Z" "id2task p s = ret (current_task s)" "2 \<le> length R" "ra \<noteq> 0xFFFFFFFF"
  shows "\<exists>s'. sleep ra p sigs s = ret (Jumped, s') \<and>
    tasks_ok s' (remove1 (current_task s) R) (insert_after (current_task s) S) Z \<and>
    current_task s' = get_next_task s \<and> current_task s' \<noteq> current_task s \<and>
    state (tasks s' (current_task s)) = TS_SLEEPING \<and>
    esp (tasks s' (current_task s)) = r_esp (cpu s) \<and> ebp (tasks s' (current_task s)) = r_ebp (cpu s) \<and>
    eip (tasks s' (current_task s)) = ra \<and>
    r_esp (cpu s') = esp (tasks s (current_task s')) \<and> r_ebp (cpu s') = ebp (tasks s (current_task s')) \<and>
    r_eip (cpu s') = eip (tasks s (current_task s'))"
proof -
  let ?t = "current_task s" and ?n = "get_next_task s"
  have R: "ring (tasks s) (running s) R" "?t \<in> set R" using assms(1) by (auto simp: tasks_ok_def queues_ok_def)
  have neq: "?n \<noteq> ?t" unfolding get_next_task_def by (rule ring_next_neq [OF R assms(3)])
  from sleep_running [OF assms(1,2) R(2) may_operate_self, of sigs ra] obtain s0
    where s0: "slept ?t sigs (snd (CLI_SAVE_EFLAGS s)) s0" "queues_ok s0 (remove1 ?t R) (insert_after ?t S) Z"
      "sleep ra p sigs s = ret (sleep_after ra ?n (r_eflags (cpu s)) s0)" by auto
  obtain f s' where s': "(f, s') = sleep_after ra ?n (r_eflags (cpu s)) s0" by (metis surj_pair)
  note res = sleep_self [OF assms(1,2,4) s0(1,2) next_in_rest [OF assms(1) neq] s']
  from s0(1) obtain s00 where mv: "moved ?t TS_SLEEPING (snd (CLI_SAVE_EFLAGS s)) s00"
    and s0_def: "s0 = set_task ?t (\<lambda>x. x\<lparr>sig_wakeup := Sigset_assign sigs (sig_wakeup x)\<rparr>) s00" by (auto simp: slept_def)
  note f = movedD [OF mv, unfolded CLI_SAVE_EFLAGS_def Let_def snd_conv, simplified]
  have "s' = switch_task ?n (r_eflags (cpu s)) (set_task ?t (saved (r_esp (cpu s)) (r_ebp (cpu s)) ra) s0)"
    using s' f by (simp add: sleep_after_jumps [OF assms(4)] s0_def set_task_def)
  then have "state (tasks s' ?t) = TS_SLEEPING" "esp (tasks s' ?t) = r_esp (cpu s)" "ebp (tasks s' ?t) = r_ebp (cpu s)"
    "eip (tasks s' ?t) = ra" "r_esp (cpu s') = esp (tasks s ?n)" "r_ebp (cpu s') = ebp (tasks s ?n)"
    "r_eip (cpu s') = eip (tasks s ?n)"
    using f neq by (simp_all add: switch_task_def Let_def set_task_def upd_task_def saved_def s0_def)
  then show ?thesis using s0(3) s' res neq by (intro exI [of _ s']) simp
qed

theorem sleep_self_switches_witness:
  "\<exists>s'. sleep 0x950 0 \<lparr>val = [6]\<rparr> three_tasks = ret (Jumped, s') \<and> current_task s' = 0x2000 \<and>
     tasks_ok s' [0x2000] [0x3000, 0x1000] [] \<and> r_eip (cpu s') = 0x901 \<and> eip (tasks s' 0x1000) = 0x950"
  using sleep_self_switches [OF three_tasks_ok, of 0 "0x950" "\<lparr>val = [6]\<rparr>"] three_id2task(3)
  by (auto simp: three_fields insert_after_def get_next_task_def)



section \<open>The invariant of the system\<close>

text \<open>The tasks of a state, and the steps the kernel takes on it.\<close>

definition tasks_of :: "task_state \<Rightarrow> u32 set" where
  "tasks_of s = {a. \<exists>R S Z. tasks_ok s R S Z \<and> a \<in> set (R @ S @ Z)}"

inductive task_step :: "kmalloc_fn \<Rightarrow> task_state \<Rightarrow> task_state \<Rightarrow> bool" for km where
  execute: "task_step km s (s\<lparr>cpu := c, pg := p\<rparr>)"
| schedule: "task_step km s (snd (schedule ra s))"
| fork: "km sizeof_Task_t 0 (pg s) = ret (child, p1) \<Longrightarrow> new_object s (tasks_of s) child \<Longrightarrow>
    \<forall>a \<in> tasks_of s. pid (tasks s a) < 0xFFFFFFFF \<Longrightarrow> fork km ra s = ret (n, s') \<Longrightarrow> task_step km s s'"
| sleep: "sleep ra p sigs s = ret (f, s') \<Longrightarrow> \<not> (id2task p s = ret (current_task s) \<and> get_next_task s = current_task s) \<Longrightarrow> ra \<noteq> 0xFFFFFFFF \<Longrightarrow>
    task_step km s s'"
| wakeup: "wakeup p s = ret (f, s') \<Longrightarrow> task_step km s s'"
| set_errno: "task_step km s (set_errno e s)"
| exit: "task_step km s (exit_task st s)"
| user_mode: "switch_to_user_mode a sp s = Some s' \<Longrightarrow> task_step km s s'"

definition task_inv :: "task_state \<Rightarrow> bool" where
  "task_inv s \<longleftrightarrow> (\<exists>R S Z. tasks_ok s R S Z)"

lemma new_object_mono: "new_object s A a \<Longrightarrow> B \<subseteq> A \<Longrightarrow> new_object s B a"
  by (auto simp: new_object_def)

lemma fork_keeps:
  assumes "tasks_ok s R S Z" "km sizeof_Task_t 0 (pg s) = ret (child, p1)" "new_object s (tasks_of s) child"
    and "\<forall>a \<in> tasks_of s. pid (tasks s a) < 0xFFFFFFFF" "fork km ra s = ret (n, s')"
  shows "task_inv s'"
proof -
  have sub: "set (R @ S @ Z) \<subseteq> tasks_of s" using assms(1) by (auto simp: tasks_of_def)
  obtain dir p2 where dir: "clone_directory km (current_page_dir p1) p1 = ret (dir, p2)"
    using assms(2,5) by (auto simp: fork_def CLI_SAVE_EFLAGS_def Let_def)
  have pids: "\<forall>a \<in> set (R @ S @ Z). pid (tasks s a) < 0xFFFFFFFF" using assms(4) sub by blast
  from tasks_ok_fork [OF assms(1) new_object_mono [OF assms(3) sub] pids assms(2) dir, of ra] assms(5)
  show ?thesis by (auto simp: task_inv_def)
qed

lemma user_mode_keeps: "switch_to_user_mode a sp s = Some s' \<Longrightarrow> tasks_ok s R S Z \<Longrightarrow> tasks_ok s' R S Z"
  by (auto simp: switch_to_user_mode_def Let_def)

lemma task_step_keeps: "task_step km s s' \<Longrightarrow> task_inv s \<Longrightarrow> task_inv s'"
proof (induction rule: task_step.induct)
  case (schedule s ra)
  then show ?case unfolding task_inv_def by (blast intro: schedule_ok)
next
  case (fork s child p1 ra n s')
  then show ?case using fork_keeps by (auto simp: task_inv_def)
next
  case (sleep ra p sigs s f s')
  then obtain R S Z where "tasks_ok s R S Z" by (auto simp: task_inv_def)
  then have "\<exists>R S. tasks_ok s' R S Z" using sleep(1) by (rule sleep_keeps) (use sleep(2,3) in auto)
  then show ?case by (auto simp: task_inv_def)
next
  case (wakeup p s f s')
  then show ?case using wakeup_keeps by (auto simp: task_inv_def) blast
next
  case (user_mode a sp s s')
  then show ?case unfolding task_inv_def by (blast intro: user_mode_keeps)
qed (auto simp: task_inv_def exit_task_def CLI_SAVE_EFLAGS_def Let_def)

text \<open>
  C10: the invariant of tasks, outside the one call that breaks it. After any sequence of kernel steps among slices of execution,
  \<^verbatim>\<open>schedule\<close>, \<^verbatim>\<open>fork\<close> while the allocator gives objects apart from the others and identifiers are left,
  \<^verbatim>\<open>sleep\<close> other than of the only running task by itself, \<^verbatim>\<open>wakeup\<close>, \<^verbatim>\<open>exit\<close> and the switch to user mode,
  every task is in exactly the queue its state names, the queues are proper rings, the tree finds
  every task by its own identifier, identifiers are unique, and the current task is running. The excluded call, by a task that is
  alone in the running queue and puts itself to sleep, leaves a current task that is asleep and an empty running queue, as a theorem above shows.
\<close>

theorem task_invariant:
  assumes "(task_step km)\<^sup>*\<^sup>* s s'" "\<exists>R S Z. tasks_ok s R S Z"
  shows "\<exists>R S Z. tasks_ok s' R S Z \<and>
    (\<forall>a \<in> set (R @ S @ Z). id2task (pid (tasks s' a)) s' = ret a) \<and> state (tasks s' (current_task s')) = TS_RUNNING"
proof -
  have "task_inv s'"
    using assms by (induction rule: rtranclp_induct) (auto simp: task_inv_def [symmetric] intro: task_step_keeps)
  then obtain R S Z where ok: "tasks_ok s' R S Z" by (auto simp: task_inv_def)
  then obtain t where t: "table_ok (rbt_id2task s') (tasks s') (set (R @ S @ Z)) t" by (auto simp: tasks_ok_def)
  have "id2task (pid (tasks s' a)) s' = ret a" if "a \<in> set (R @ S @ Z)" for a
    using id2task_finds [OF t, of "pid (tasks s' a)"] task_with_exact [OF _ that] t
    unfolding table_ok_def by metis
  moreover have "state (tasks s' (current_task s')) = TS_RUNNING" using ok by (auto simp: tasks_ok_def queues_ok_def)
  ultimately show ?thesis using ok by blast
qed

theorem task_invariant_witness:
  "\<exists>R S Z. tasks_ok (snd (schedule 0x950 (set_errno 3 three_tasks))) R S Z \<and>
    (\<forall>a \<in> set (R @ S @ Z). id2task (pid (tasks (snd (schedule 0x950 (set_errno 3 three_tasks))) a))
       (snd (schedule 0x950 (set_errno 3 three_tasks))) = ret a) \<and>
    state (tasks (snd (schedule 0x950 (set_errno 3 three_tasks))) (current_task (snd (schedule 0x950 (set_errno 3 three_tasks))))) = TS_RUNNING"
proof (rule task_invariant)
  show "(task_step (kmalloc_at 1))\<^sup>*\<^sup>* three_tasks (snd (schedule 0x950 (set_errno 3 three_tasks)))"
    by (meson converse_rtranclp_into_rtranclp r_into_rtranclp task_step.schedule task_step.set_errno)
qed (use three_tasks_ok in blast)

end
