(* ===== verification/Task_Boot.thy ===== *)
theory Task_Boot
  imports Task_Thms
begin

text \<open>
  The start of tasking: the boot stack is copied to its final place and its saved frame
  pointers are relocated, the kernel task is created, and, later, user mode is entered.
\<close>

section \<open>Relocating the copied stack\<close>

definition relocated :: "u32 \<Rightarrow> u32 \<Rightarrow> u32 \<Rightarrow> u32 \<Rightarrow> u32" where
  "relocated isp old_esp offset v = (if v < isp \<and> v > old_esp then v + offset else v)"

lemma unat_word_at:
  assumes "unat a + 4 * k < 2 ^ 32"
  shows "unat (a + 4 * of_nat k :: u32) = unat a + 4 * k"
proof -
  have "unat (of_nat (4 * k) :: u32) = 4 * k" using assms by (intro unat_of_nat_small) simp
  moreover have "(4 * of_nat k :: u32) = of_nat (4 * k)" by simp
  ultimately show ?thesis using assms by (metis unat_add)
qed

lemma words_apart:
  assumes "unat a + 4 * j + 4 \<le> 2 ^ 32" "unat a + 4 * k + 4 \<le> 2 ^ 32" "j < k"
  shows "bytes_at (a + 4 * of_nat j) 4 \<inter> bytes_at (a + 4 * of_nat k) 4 = {}"
proof -
  have j: "unat (a + 4 * of_nat j) = unat a + 4 * j" and k: "unat (a + 4 * of_nat k) = unat a + 4 * k"
    using assms by (auto intro!: unat_word_at)
  have "b \<notin> bytes_at (a + 4 * of_nat k) 4" if "b \<in> bytes_at (a + 4 * of_nat j) 4" for b
    using that assms j k bytes_at_unat [of "a + 4 * of_nat j" 4 b] bytes_at_unat [of "a + 4 * of_nat k" 4 b] by simp
  then show ?thesis by blast
qed

lemma relocate_loop_words:
  assumes "unat new_esp + 4 * k + 4 \<le> 2 ^ 32"
  shows "\<exists>m'. relocate_loop isp old_esp offset new_esp (new_esp + 4 * of_nat k) m = ret m' \<and>
    (\<forall>j. 0 < j \<and> j \<le> k \<longrightarrow> load32 (new_esp + 4 * of_nat j) m' =
       relocated isp old_esp offset (load32 (new_esp + 4 * of_nat j) m)) \<and>
    (\<forall>b. (\<forall>j. 0 < j \<and> j \<le> k \<longrightarrow> b \<notin> bytes_at (new_esp + 4 * of_nat j) 4) \<longrightarrow> m' b = m b)"
  using assms
proof (induction k arbitrary: m)
  case 0
  then show ?case by (subst relocate_loop.simps) simp
next
  case (Suc k)
  let ?i = "new_esp + 4 * of_nat (Suc k)"
  have "unat ?i = unat new_esp + 4 * Suc k" by (rule unat_word_at) (use Suc.prems in simp)
  then have gt: "?i > new_esp" by (simp add: word_less_nat_alt)
  let ?m = "if load32 ?i m < isp \<and> load32 ?i m > old_esp then store32 ?i (load32 ?i m + offset) m else m"
  have step: "relocate_loop isp old_esp offset new_esp ?i m =
      relocate_loop isp old_esp offset new_esp (new_esp + 4 * of_nat k) ?m"
    using gt by (subst relocate_loop.simps) (simp add: Let_def)
  have "unat new_esp + 4 * k + 4 \<le> 2 ^ 32" using Suc.prems by simp
  from Suc.IH [OF this, of ?m] obtain m' where m': "relocate_loop isp old_esp offset new_esp (new_esp + 4 * of_nat k) ?m = ret m'"
      "\<forall>j. 0 < j \<and> j \<le> k \<longrightarrow> load32 (new_esp + 4 * of_nat j) m' =
         relocated isp old_esp offset (load32 (new_esp + 4 * of_nat j) ?m)"
      "\<forall>b. (\<forall>j. 0 < j \<and> j \<le> k \<longrightarrow> b \<notin> bytes_at (new_esp + 4 * of_nat j) 4) \<longrightarrow> m' b = ?m b" by blast
  have apart: "bytes_at (new_esp + 4 * of_nat j) 4 \<inter> bytes_at ?i 4 = {}" if "j \<le> k" for j
    using that Suc.prems by (intro words_apart) auto
  have "load32 (new_esp + 4 * of_nat j) m' = relocated isp old_esp offset (load32 (new_esp + 4 * of_nat j) m)"
    if "0 < j" "j \<le> Suc k" for j
  proof (cases "j = Suc k")
    case True
    have "m' b = ?m b" if "b \<in> bytes_at ?i 4" for b using m'(3) apart that by blast
    then have "load32 ?i m' = load32 ?i ?m" by (rule load32_cong)
    also have "\<dots> = relocated isp old_esp offset (load32 ?i m)" by (simp add: relocated_def)
    finally show ?thesis using True by simp
  next
    case False
    then have j: "j \<le> k" using that by simp
    then have "load32 (new_esp + 4 * of_nat j) ?m = load32 (new_esp + 4 * of_nat j) m"
      using load32_disjoint [OF apart [OF j]] by simp
    then show ?thesis using m'(2) that(1) j by simp
  qed
  moreover have "m' b = m b" if "\<forall>j. 0 < j \<and> j \<le> Suc k \<longrightarrow> b \<notin> bytes_at (new_esp + 4 * of_nat j) 4" for b
  proof -
    have "b \<notin> bytes_at ?i 4" using that by blast
    then have "?m b = m b" by (simp add: store32_other)
    moreover have "m' b = ?m b" using m'(3) that by (meson le_SucI)
    ultimately show ?thesis by simp
  qed
  ultimately show ?case unfolding step using m'(1) by (intro exI [of _ m']) blast
qed

lemma load32_moved:
  assumes "\<And>i. i < 4 \<Longrightarrow> m' (a' + of_nat i) = m (a + of_nat i)"
  shows "load32 a' m' = load32 a m"
  using assms [of 0] assms [of 1] assms [of 2] assms [of 3] by (simp add: load32_def)

lemma memcpy_word:
  assumes "copy_safe d s (unat n)" "4 * j + 4 \<le> unat n"
  shows "load32 (d + 4 * of_nat j) (memcpy d s n m) = load32 (s + 4 * of_nat j) m"
proof (rule load32_moved)
  fix i :: nat
  assume "i < 4"
  then have "4 * j + i < unat n" using assms(2) by simp
  from memcpy_value [OF assms(1) this] show "memcpy d s n m (d + 4 * of_nat j + of_nat i) = m (s + 4 * of_nat j + of_nat i)"
    by (simp add: add.assoc)
qed

lemma move_stack_moves:
  fixes s :: task_state and k :: nat
  defines "old \<equiv> r_esp (cpu s)" and "isp \<equiv> initial_stack_pointer s"
  defines "offset \<equiv> KERNEL_STACK_POS - isp"
  assumes "alloc_interval km (current_page_dir (pg s)) (KERNEL_STACK_POS - KERNEL_STACK_SIZE) KERNEL_STACK_POS
      False True (pg s) = ret p"
    and "unat old + 4 * k = unat isp" "0 < k" "4 * k \<le> unat KERNEL_STACK_SIZE" "copy_safe (old + offset) old (4 * k)"
  shows "\<exists>s'. move_stack km s = ret s' \<and> r_esp (cpu s') = old + offset \<and> r_ebp (cpu s') = r_ebp (cpu s) + offset \<and>
    (\<forall>j. 0 < j \<and> j < k \<longrightarrow> load32 (old + offset + 4 * of_nat j) (kmem (pg s')) =
       (let v = load32 (old + 4 * of_nat j) (kmem p) in if old < v \<and> v < isp then v + offset else v)) \<and>
    load32 (old + offset) (kmem (pg s')) = load32 old (kmem p) \<and>
    (\<forall>b. b \<notin> bytes_at (old + offset) (4 * k) \<longrightarrow> kmem (pg s') b = kmem p b)"
proof -
  let ?new = "old + offset"
  have n: "unat (isp - old) = 4 * k" using assms(5) by (simp add: unat_diff)
  have new: "?new = KERNEL_STACK_POS - (isp - old)" by (simp add: offset_def)
  have un: "unat ?new = 0xFFFFF000 - 4 * k"
    unfolding new using n assms(7) by (subst unat_diff) (simp_all add: KERNEL_STACK_POS_def KERNEL_STACK_SIZE_def)
  have k: "4 * k \<le> 4096" using assms(7) by (simp add: KERNEL_STACK_SIZE_def)
  have last: "KERNEL_STACK_POS - 4 = ?new + 4 * of_nat (k - 1)"
  proof -
    have "unat (?new + 4 * of_nat (k - 1)) = unat ?new + 4 * (k - 1)" using un k assms(6) by (intro unat_word_at) simp
    also have "\<dots> = unat (KERNEL_STACK_POS - 4)" using un k assms(6) by (simp add: KERNEL_STACK_POS_def)
    finally show ?thesis by (simp add: word_unat_eq_iff)
  qed
  let ?m = "memcpy ?new old (isp - old) (kmem p)"
  have "unat ?new + 4 * (k - 1) + 4 \<le> 2 ^ 32" using un k assms(6) by simp
  from relocate_loop_words [OF this, of isp old offset ?m] obtain m'
    where m': "relocate_loop isp old offset ?new (KERNEL_STACK_POS - 4) ?m = ret m'"
      "\<forall>j. 0 < j \<and> j \<le> k - 1 \<longrightarrow> load32 (?new + 4 * of_nat j) m' = relocated isp old offset (load32 (?new + 4 * of_nat j) ?m)"
      "\<forall>b. (\<forall>j. 0 < j \<and> j \<le> k - 1 \<longrightarrow> b \<notin> bytes_at (?new + 4 * of_nat j) 4) \<longrightarrow> m' b = ?m b"
    unfolding last by blast
  have word: "load32 (?new + 4 * of_nat j) ?m = load32 (old + 4 * of_nat j) (kmem p)" if "j < k" for j
    using that n assms(8) by (intro memcpy_word) simp_all
  let ?s' = "s\<lparr>pg := p\<lparr>kmem := m'\<rparr>, cpu := (cpu s)\<lparr>r_esp := ?new, r_ebp := r_ebp (cpu s) + offset\<rparr>\<rparr>"
  have "move_stack km s = ret ?s'"
    using assms(4) m'(1) by (simp add: move_stack_def Let_def old_def isp_def offset_def)
  moreover have "load32 (?new + 4 * of_nat j) m' =
      (let v = load32 (old + 4 * of_nat j) (kmem p) in if old < v \<and> v < isp then v + offset else v)"
    if "0 < j" "j < k" for j
    using m'(2) that word [of j] by (auto simp: relocated_def Let_def)
  moreover have "load32 ?new m' = load32 old (kmem p)"
  proof -
    have "bytes_at ?new 4 \<inter> bytes_at (?new + 4 * of_nat j) 4 = {}" if "0 < j \<and> j \<le> k - 1" for j
    proof -
      have "unat ?new + 4 * 0 + 4 \<le> 2 ^ 32" "unat ?new + 4 * j + 4 \<le> 2 ^ 32" using un k that by (simp; arith)+
      from words_apart [OF this] that show ?thesis by simp
    qed
    then have "m' b = ?m b" if "b \<in> bytes_at ?new 4" for b using m'(3) that by blast
    then have "load32 ?new m' = load32 ?new ?m" by (rule load32_cong)
    then show ?thesis using word [of 0] assms(6) by simp
  qed
  moreover have "m' b = kmem p b" if "b \<notin> bytes_at ?new (4 * k)" for b
  proof -
    have "b \<notin> bytes_at (?new + 4 * of_nat j) 4" if "j \<le> k - 1" for j
    proof
      assume "b \<in> bytes_at (?new + 4 * of_nat j) 4"
      then obtain i where "i < 4" "b = ?new + of_nat (4 * j + i)" by (auto simp: bytes_at_def add.assoc)
      moreover from this(1) have "4 * j + i < 4 * k" using \<open>j \<le> k - 1\<close> assms(6) by simp
      ultimately show False using in_bytes_at \<open>b \<notin> bytes_at ?new (4 * k)\<close> by blast
    qed
    then have "m' b = ?m b" using m'(3) by blast
    then show ?thesis using memcpy_other [of b ?new "isp - old"] that n by simp
  qed
  ultimately show ?thesis by (intro exI [of _ ?s']) simp
qed

text \<open>
  C34: \<^verbatim>\<open>move_stack\<close>, for a boot stack of \<open>k\<close> words that fits the kernel stack, returns with the
  stack and frame pointers shifted by the distance between the stacks. The lowest word, at the stack pointer, is copied as it is, even if
  it points into the old stack; of the words above it, those whose value lies strictly between the old stack pointer and the old bottom of the stack
  are shifted by the same distance, so that they point to the same place of the new stack, and the others, a pointer to the stack pointer itself among
  them, are copied as they are; nothing else in memory changes.
\<close>

theorem move_stack_relocates:
  fixes s :: task_state and k :: nat
  defines "old \<equiv> r_esp (cpu s)" and "isp \<equiv> initial_stack_pointer s"
  defines "offset \<equiv> KERNEL_STACK_POS - isp"
  assumes "alloc_interval km (current_page_dir (pg s)) (KERNEL_STACK_POS - KERNEL_STACK_SIZE) KERNEL_STACK_POS
      False True (pg s) = ret p"
    and "unat old + 4 * k = unat isp" "0 < k" "4 * k \<le> unat KERNEL_STACK_SIZE" "copy_safe (old + offset) old (4 * k)"
  shows "\<exists>s'. move_stack km s = ret s' \<and> r_esp (cpu s') = old + offset \<and> r_ebp (cpu s') = r_ebp (cpu s) + offset \<and>
    (\<forall>j. 0 < j \<and> j < k \<longrightarrow> load32 (old + offset + 4 * of_nat j) (kmem (pg s')) =
       (let v = load32 (old + 4 * of_nat j) (kmem p) in if old < v \<and> v < isp then v + offset else v)) \<and>
    load32 (old + offset) (kmem (pg s')) = load32 old (kmem p) \<and>
    (\<forall>b. b \<notin> bytes_at (old + offset) (4 * k) \<longrightarrow> kmem (pg s') b = kmem p b)"
  using assms(4-) unfolding assms(1-3) by (rule move_stack_moves)

definition boot_tasks :: task_state where
  "boot_tasks = three_tasks\<lparr>pg := boot_pages\<lparr>kmem := store32 0x6FF4 0x6FF8 (\<lambda>_. 0)\<rparr>,
     cpu := some_cpu\<lparr>r_esp := 0x6FF0, r_ebp := 0x6FF8\<rparr>\<rparr>"

lemma boot_stack_alloc:
  "\<exists>p. alloc_interval (kmalloc_at 1) (current_page_dir (pg boot_tasks)) (KERNEL_STACK_POS - KERNEL_STACK_SIZE)
      KERNEL_STACK_POS False True (pg boot_tasks) = ret p \<and> kmem p = kmem (pg boot_tasks) \<and>
      \<not> kheap_finish_init_called p \<and> kheap_static_end p = 0x101000"
  by (simp add: alloc_interval_def boot_tasks_def three_tasks_def boot_pages_def KERNEL_STACK_POS_def
      KERNEL_STACK_SIZE_def page_loop_step get_page_def kernel_write_def kmalloc_def kmalloc_pre_init_def Let_def upd_dir_def
      get_physical_addr_def entry_alloc_def upd_ent_def ent_def page_of_def invlpg_def tb_idx_def tb_offset_def
      zero_table_def zero_entry_def sizeof_Table_t_def get_aligned_def)

theorem move_stack_relocates_witness:
  "\<exists>s'. move_stack (kmalloc_at 1) boot_tasks = ret s' \<and> r_esp (cpu s') = 0xFFFFEFF0 \<and>
     load32 0xFFFFEFF4 (kmem (pg s')) = 0xFFFFEFF8"
proof -
  obtain p where p: "alloc_interval (kmalloc_at 1) (current_page_dir (pg boot_tasks)) (KERNEL_STACK_POS - KERNEL_STACK_SIZE)
      KERNEL_STACK_POS False True (pg boot_tasks) = ret p" "kmem p = kmem (pg boot_tasks)"
    using boot_stack_alloc by blast
  have f: "r_esp (cpu boot_tasks) = 0x6FF0" "initial_stack_pointer boot_tasks = 0x7000"
    "KERNEL_STACK_POS - initial_stack_pointer boot_tasks = 0xFFFF8000"
    "r_esp (cpu boot_tasks) + (KERNEL_STACK_POS - initial_stack_pointer boot_tasks) = 0xFFFFEFF0"
    by (simp_all add: boot_tasks_def three_tasks_def KERNEL_STACK_POS_def)
  have "copy_safe 0xFFFFEFF0 0x6FF0 16"
    by (intro copy_safe_disjoint set_eqI) (simp add: bytes_at_unat)
  moreover have "load32 0x6FF4 (kmem p) = 0x6FF8" unfolding p(2) by (simp add: boot_tasks_def)
  ultimately obtain s' where s': "move_stack (kmalloc_at 1) boot_tasks = ret s'" "r_esp (cpu s') = 0xFFFFEFF0"
      "\<forall>j. 0 < j \<and> j < 4 \<longrightarrow> load32 (0xFFFFEFF0 + 4 * of_nat j) (kmem (pg s')) =
         (let v = load32 (0x6FF0 + 4 * of_nat j) (kmem p) in if 0x6FF0 < v \<and> v < 0x7000 then v + (0xFFFFF000 - 0x7000) else v)"
      "load32 0x6FF4 (kmem p) = 0x6FF8"
    using move_stack_relocates [OF p(1), of 4, unfolded f(1,2) KERNEL_STACK_POS_def] by (auto simp: KERNEL_STACK_SIZE_def KERNEL_STACK_POS_def)
  from s'(3) have "load32 (0xFFFFEFF0 + 4 * of_nat 1) (kmem (pg s')) =
      (let v = load32 (0x6FF0 + 4 * of_nat 1) (kmem p) in if 0x6FF0 < v \<and> v < 0x7000 then v + (0xFFFFF000 - 0x7000) else v)"
    by (rule allE [of _ 1]) simp
  then show ?thesis using s'(1,2,4) by (simp add: Let_def)
qed

section \<open>The kernel task\<close>

lemma task_init_ok:
  assumes "move_stack km s = ret s1" "km sizeof_Task_t 0 (pg s1) = ret (t, p)"
    and "rbt_ok lt_id (rbt_id2task s1) Lf" "new_object s1 {} t"
    and "running s1 = 0" "sleeping s1 = 0" "zombie s1 = 0" "ra \<noteq> 0xFFFFFFFF"
  shows "\<exists>s'. task_init km ra s = ret (Jumped, s') \<and> tasks_ok s' [t] [] [] \<and> current_task s' = t \<and>
    uid (tasks s' t) = 0 \<and> gid (tasks s' t) = 0 \<and> page_dir (tasks s' t) = current_page_dir p \<and>
    r_eip (cpu s') = ra \<and> r_esp (cpu s') = r_esp (cpu s1) \<and> r_ebp (cpu s') = r_ebp (cpu s1) \<and>
    r_eflags (cpu s') = r_eflags (cpu s1) \<and> pg s' = p\<lparr>cr3 := phyaddr (dirs p (current_page_dir p)), tlb := Map.empty\<rparr> \<and>
    pid (tasks s' t) = pid_next s1 \<and> pid_next s' = pid_next s1 + 1"
proof -
  let ?s = "s1\<lparr>pg := p\<rparr>" and ?dir = "current_page_dir p"
  have prem: "table_ok (rbt_id2task ?s) (tasks ?s) {} Lf" "new_object ?s {} t"
      "\<forall>b \<in> {}. pid (tasks ?s b) < 0xFFFFFFFF"
    using assms(3,4) by (simp_all add: table_ok_def new_object_def)
  obtain n r' t' where ini: "Task_t_init t ?dir ?s = ret (?s\<lparr>pid_next := n + 1,
        tasks := upd_task t (new_task n ?dir) (tasks s1), rbt_id2task := r', latest_task := t\<rparr>)"
      "table_ok r' (upd_task t (new_task n ?dir) (tasks s1)) {t} t'" "n = pid_next s1"
    using Task_t_init_ok [OF prem, of ?dir] by (elim exE conjE) (rule that, simp_all)
  let ?T = "upd_task t (\<lambda>x. (new_task n ?dir x)\<lparr>uid := 0, gid := 0, queue_prev := t, queue_next := t\<rparr>) (tasks s1)"
  let ?k = "s1\<lparr>pg := p, pid_next := n + 1, rbt_id2task := r', latest_task := t, current_task := t, running := t, tasks := ?T\<rparr>"
  have t: "t \<noteq> 0" using assms(4) by (simp add: new_object_def)
  have ti: "task_init km ra s = ret (schedule ra ?k)"
    using assms(1,2,5) ini(1)
    by (simp add: task_init_def Let_def set_task_def running_insert_def Task_queue_insert_def upd_task_def new_task_def)
  have "table_ok r' ?T {t} t'"
    using ini(2) by (subst table_ok_cong [where T = "upd_task t (new_task n ?dir) (tasks s1)"]) (simp_all add: upd_task_def)
  then have ok: "tasks_ok ?k [t] [] []"
    using t assms(6,7) by (auto simp: tasks_ok_def queues_ok_def ring_def upd_task_def new_task_def)
  obtain s' where s': "schedule ra ?k = (Jumped, s')" by (simp add: schedule_jumps [OF assms(8)])
  have "tasks_ok s' [t] [] []" using schedule_ok [OF ok, of ra] s' by simp
  moreover have "current_task s' = t \<and> uid (tasks s' t) = 0 \<and> gid (tasks s' t) = 0 \<and> page_dir (tasks s' t) = ?dir \<and>
    r_eip (cpu s') = ra \<and> r_esp (cpu s') = r_esp (cpu s1) \<and> r_ebp (cpu s') = r_ebp (cpu s1) \<and>
    r_eflags (cpu s') = r_eflags (cpu s1) \<and> pg s' = p\<lparr>cr3 := phyaddr (dirs p (current_page_dir p)), tlb := Map.empty\<rparr> \<and>
    pid (tasks s' t) = pid_next s1 \<and> pid_next s' = pid_next s1 + 1"
    using s' ini(3) by (auto simp: schedule_jumps [OF assms(8)] Let_def switch_task_def set_task_def upd_task_def saved_def
        get_next_task_def new_task_def)
  ultimately show ?thesis using ti s' by auto
qed

text \<open>
  \<^verbatim>\<open>Task::init\<close>, on empty queues and an empty table, makes the kernel task the only
  running one, with user and group 0 and the current page directory, and the first
  \<^verbatim>\<open>schedule\<close> comes back to itself with the stack and frame pointers \<^verbatim>\<open>move_stack\<close> set up and
  the interrupt flag as it was; the invariant of tasks holds.
\<close>

theorem task_init_establishes:
  assumes "move_stack km s = ret s1" "km sizeof_Task_t 0 (pg s1) = ret (t, p)"
    and "rbt_ok lt_id (rbt_id2task s1) Lf" "new_object s1 {} t"
    and "running s1 = 0" "sleeping s1 = 0" "zombie s1 = 0" "ra \<noteq> 0xFFFFFFFF"
  shows "\<exists>s'. task_init km ra s = ret (Jumped, s') \<and> tasks_ok s' [t] [] [] \<and> current_task s' = t \<and>
    uid (tasks s' t) = 0 \<and> gid (tasks s' t) = 0 \<and> page_dir (tasks s' t) = current_page_dir p \<and>
    r_eip (cpu s') = ra \<and> r_esp (cpu s') = r_esp (cpu s1) \<and> r_ebp (cpu s') = r_ebp (cpu s1) \<and>
    r_eflags (cpu s') = r_eflags (cpu s1)"
  using task_init_ok [OF assms] by blast

definition first_boot :: task_state where
  "first_boot = boot_tasks\<lparr>running := 0, sleeping := 0,
     rbt_id2task := \<lparr>NIL = 2, tree_root = 2, node = (\<lambda>a. \<lparr>par_and_color = 3, ch0 = 2, ch1 = 2, key = \<lparr>pair_id = 0, pair_task = 0\<rparr>\<rparr>)\<rparr>\<rparr>"

theorem task_init_establishes_witness:
  "\<exists>s'. task_init (kmalloc_at 1) 0x950 first_boot = ret (Jumped, s') \<and> tasks_ok s' [0x101000] [] [] \<and>
     r_esp (cpu s') = 0xFFFFEFF0 \<and> r_eip (cpu s') = 0x950"
proof -
  obtain p where p: "alloc_interval (kmalloc_at 1) (current_page_dir (pg first_boot)) (KERNEL_STACK_POS - KERNEL_STACK_SIZE)
      KERNEL_STACK_POS False True (pg first_boot) = ret p" "\<not> kheap_finish_init_called p" "kheap_static_end p = 0x101000"
    using boot_stack_alloc by (auto simp: first_boot_def)
  have "unat (0xFFFFEFF0 :: u32) + 4 * 3 + 4 \<le> 2 ^ 32" by simp
  from relocate_loop_words [OF this] obtain m' where
    "relocate_loop 0x7000 0x6FF0 0xFFFF8000 0xFFFFEFF0 (0xFFFFEFF0 + 4 * of_nat 3) (memcpy 0xFFFFEFF0 0x6FF0 16 (kmem p)) = ret m'"
    by blast
  then have mv: "move_stack (kmalloc_at 1) first_boot = ret (first_boot\<lparr>pg := p\<lparr>kmem := m'\<rparr>,
      cpu := (cpu first_boot)\<lparr>r_esp := 0xFFFFEFF0, r_ebp := 0xFFFFEFF8\<rparr>\<rparr>)" (is "_ = ret ?s1")
    using p(1) by (simp add: move_stack_def first_boot_def boot_tasks_def three_tasks_def KERNEL_STACK_POS_def Let_def)
  have km: "kmalloc_at 1 sizeof_Task_t 0 (pg ?s1) = ret (0x101000, p\<lparr>kmem := m', kheap_static_end := 0x10104C\<rparr>)"
    using p by (simp add: kmalloc_def kmalloc_pre_init_def get_aligned_def sizeof_Task_t_def)
  have rb: "rbt_ok lt_id (rbt_id2task ?s1) Lf"
    by (simp add: first_boot_def rbt_ok_def rep_def rb_def ordered_def is_black_def even_addr_def)
  have new: "new_object ?s1 {} 0x101000"
    using bytes_at_unat [of "0x101000" 76] by (simp add: new_object_def first_boot_def sizeof_Task_t_def)
  have queues: "running ?s1 = 0" "sleeping ?s1 = 0" "zombie ?s1 = 0"
    by (simp_all add: first_boot_def boot_tasks_def three_tasks_def)
  have "0x950 \<noteq> (0xFFFFFFFF :: u32)" by simp
  from task_init_establishes [where km = "kmalloc_at 1", OF mv km rb new queues this] show ?thesis by auto
qed

section \<open>User mode\<close>

lemma user_mode_state:
  "\<exists>s'. switch_to_user_mode a sp s = Some s' \<and> r_eip (cpu s') = a \<and> r_esp (cpu s') = sp \<and>
    r_cs (cpu s') = 0x1B \<and> r_ss (cpu s') = 0x23 \<and> r_ds (cpu s') = 0x23 \<and> r_es (cpu s') = 0x23 \<and>
    r_fs (cpu s') = 0x23 \<and> r_gs (cpu s') = 0x23 \<and>
    r_eflags (cpu s') = r_eflags (cpu s) OR FLAG_IF \<and> \<not> is_kernel s'"
proof -
  have "r_eflags (cpu s) AND NOT FLAG_IF OR 0x200 = r_eflags (cpu s) OR FLAG_IF"
    unfolding FLAG_IF_def by (rule bit_eqI) (auto simp: bit_simps)
  then show ?thesis by (simp add: switch_to_user_mode_def Let_def selector_defs is_kernel_def)
qed

end
