(* ===== verification/Interrupt.thy ===== *)
theory Interrupt
  imports Descriptor Task_Boot
begin

text \<open>
  The assembly stubs of interrupts (\<^verbatim>\<open>src/src/core/asm/interrupt.S\<close>) and of system calls
  (\<^verbatim>\<open>syscall.S\<close>, \<^verbatim>\<open>syscall.cpp\<close>, and the user side \<^verbatim>\<open>src/lib/include/syscall.h\<close>),
  instruction by instruction over the registers and a stack of words whose top is the head of the list.
\<close>

section \<open>Registers and stack\<close>

record x86 =
  x_eax :: u32
  x_ebx :: u32
  x_ecx :: u32
  x_edx :: u32
  x_esi :: u32
  x_edi :: u32
  x_ebp :: u32
  x_esp :: u32
  x_ds :: u16
  x_es :: u16
  x_fs :: u16
  x_gs :: u16
  x_if :: bool
  x_stack :: "u32 list"

definition push :: "u32 \<Rightarrow> x86 \<Rightarrow> x86" where
  "push v s = s\<lparr>x_stack := v # x_stack s, x_esp := x_esp s - 4\<rparr>"

definition pop :: "x86 \<Rightarrow> u32 \<times> x86" where
  "pop s = (hd (x_stack s), s\<lparr>x_stack := tl (x_stack s), x_esp := x_esp s + 4\<rparr>)"

definition pusha :: "x86 \<Rightarrow> x86" where
  "pusha s =
     (let sp = x_esp s
      in push (x_edi s) (push (x_esi s) (push (x_ebp s) (push sp
           (push (x_ebx s) (push (x_edx s) (push (x_ecx s) (push (x_eax s) s))))))))"

definition popa :: "x86 \<Rightarrow> x86" where
  "popa s =
     (let (v, s) = pop s; s = s\<lparr>x_edi := v\<rparr>;
          (v, s) = pop s; s = s\<lparr>x_esi := v\<rparr>;
          (v, s) = pop s; s = s\<lparr>x_ebp := v\<rparr>;
          (_, s) = pop s;
          (v, s) = pop s; s = s\<lparr>x_ebx := v\<rparr>;
          (v, s) = pop s; s = s\<lparr>x_edx := v\<rparr>;
          (v, s) = pop s; s = s\<lparr>x_ecx := v\<rparr>;
          (v, s) = pop s
      in s\<lparr>x_eax := v\<rparr>)"

definition load_segs :: "u16 \<Rightarrow> x86 \<Rightarrow> x86" where
  "load_segs v s = s\<lparr>x_ds := v, x_es := v, x_fs := v, x_gs := v\<rparr>"

text \<open>\<^verbatim>\<open>xor %eax, %eax; mov %ds, %ax; push %eax; mov $KERNEL_DATA_SELECTOR, %ax; ..\<close>\<close>

definition enter_segs :: "x86 \<Rightarrow> x86" where
  "enter_segs s =
     (let s = s\<lparr>x_eax := 0\<rparr>;
          s = s\<lparr>x_eax := ucast (x_ds s)\<rparr>;
          s = push (x_eax s) s;
          s = s\<lparr>x_eax := (x_eax s AND 0xFFFF0000) OR KERNEL_DATA_SELECTOR\<rparr>
      in load_segs (ucast (x_eax s)) s)"

section \<open>Interrupt stubs\<close>

text \<open>
  The macro \<^verbatim>\<open>ISR int, err_code\<close>, up to the call of the handler and from its return on. The
  handler's address is read from the table of handlers.
\<close>

definition isr_enter :: "u32 \<Rightarrow> bool \<Rightarrow> x86 \<Rightarrow> x86" where
  "isr_enter int_no err_code s =
     (let s = s\<lparr>x_if := False\<rparr>;
          s = (if \<not> err_code then push 0 s else s);
          s = push int_no s;
          s = pusha s
      in enter_segs s)"

definition isr_leave :: "x86 \<Rightarrow> x86" where
  "isr_leave s =
     (let (v, s) = pop s;
          s = s\<lparr>x_eax := v\<rparr>;
          s = load_segs (ucast (x_eax s)) s;
          s = popa s;
          s = s\<lparr>x_esp := x_esp s + 8, x_stack := drop 2 (x_stack s)\<rparr>
      in s\<lparr>x_if := True\<rparr>)"

definition isr_handler :: "dt_state \<Rightarrow> nat \<Rightarrow> u32" where
  "isr_handler d n = isr_callback_table d n"

text \<open>The vectors whose exception pushes an error code.\<close>

definition isr_err_code :: "nat \<Rightarrow> bool" where
  "isr_err_code n \<longleftrightarrow> n \<in> {8, 10, 11, 12, 13, 14}"

text \<open>The structure the C++ handler takes by value, read off the stack at the call.\<close>

record Isr_registers_t =
  ir_ds :: u32
  ir_edi :: u32
  ir_esi :: u32
  ir_ebp :: u32
  ir_esp :: u32
  ir_ebx :: u32
  ir_edx :: u32
  ir_ecx :: u32
  ir_eax :: u32
  ir_int_no :: u32
  ir_err_code :: u32
  ir_eip :: u32
  ir_cs :: u32
  ir_eflags :: u32
  ir_useresp :: u32
  ir_ss :: u32

definition handler_argument :: "u32 list \<Rightarrow> Isr_registers_t" where
  "handler_argument st = \<lparr>ir_ds = st ! 0, ir_edi = st ! 1, ir_esi = st ! 2, ir_ebp = st ! 3, ir_esp = st ! 4,
     ir_ebx = st ! 5, ir_edx = st ! 6, ir_ecx = st ! 7, ir_eax = st ! 8, ir_int_no = st ! 9, ir_err_code = st ! 10,
     ir_eip = st ! 11, ir_cs = st ! 12, ir_eflags = st ! 13, ir_useresp = st ! 14, ir_ss = st ! 15\<rparr>"

section \<open>System calls\<close>

text \<open>The functions of \<^verbatim>\<open>syscall_func_addr\<close>, in order.\<close>

datatype sys_func = Klog_puts | Task_fork | Task_getpid | Sys_sleep | Task_wakeup

definition syscall_func_addr :: "sys_func list" where
  "syscall_func_addr = [Klog_puts, Task_fork, Task_getpid, Sys_sleep, Task_wakeup]"

text \<open>
  \<^verbatim>\<open>isr0x80\<close> up to the call. The comparison is a signed one; \<open>None\<close> is the jump to
  \<^verbatim>\<open>done\<close>, otherwise the index into the table, which is not bounded below, and the state at the
  call, whose stack holds the arguments.
\<close>

definition isr0x80_enter :: "x86 \<Rightarrow> (int \<times> x86) option" where
  "isr0x80_enter s =
     (if sint (x_eax s) \<ge> sint NR_SYSCALLS then None
      else
        (let s = push (x_eax s) s;
             s = enter_segs s;
             s = push (x_edi s) s;
             s = push (x_esi s) s;
             s = push (x_edx s) s;
             s = push (x_ecx s) s;
             s = push (x_ebx s) s;
             s = s\<lparr>x_eax := x_stack s ! 6\<rparr>
         in Some (sint (x_eax s), s)))"

text \<open>After the call, which left its result in \<^verbatim>\<open>eax\<close>.\<close>

definition isr0x80_leave :: "x86 \<Rightarrow> x86" where
  "isr0x80_leave s =
     (let s = s\<lparr>x_ebx := x_stack s ! 5\<rparr>;
          s = load_segs (ucast (x_ebx s)) s
      in s\<lparr>x_esp := x_esp s + 4 * 7, x_stack := drop 7 (x_stack s)\<rparr>)"

text \<open>\<^verbatim>\<open>sys_sleep\<close> of the kernel: the second argument is the address of the program's signal set.\<close>

definition sys_sleep :: "u32 \<Rightarrow> pid_t \<Rightarrow> u32 \<Rightarrow> task_state \<Rightarrow> (int flow \<times> task_state) exec" where
  "sys_sleep ra p sig_wakeup_addr s = sleep ra p (load_Sigset sig_wakeup_addr (kmem (pg s))) s"

text \<open>
  The user side, \<^verbatim>\<open>DEFN_SYSCALL0\<close> to \<^verbatim>\<open>DEFN_SYSCALL2\<close>: the registers at \<^verbatim>\<open>int $0x80\<close>.
\<close>

definition DEFN_SYSCALL0 :: "u32 \<Rightarrow> x86 \<Rightarrow> x86" where
  "DEFN_SYSCALL0 num s = s\<lparr>x_eax := num\<rparr>"

definition DEFN_SYSCALL1 :: "u32 \<Rightarrow> u32 \<Rightarrow> x86 \<Rightarrow> x86" where
  "DEFN_SYSCALL1 num p0 s = s\<lparr>x_eax := num, x_ebx := p0\<rparr>"

definition DEFN_SYSCALL2 :: "u32 \<Rightarrow> u32 \<Rightarrow> u32 \<Rightarrow> x86 \<Rightarrow> x86" where
  "DEFN_SYSCALL2 num p0 p1 s = s\<lparr>x_eax := num, x_ebx := p0, x_ecx := p1\<rparr>"

definition user_sys_puts :: "u32 \<Rightarrow> x86 \<Rightarrow> x86" where
  "user_sys_puts str s = DEFN_SYSCALL1 0 str s"

definition user_sys_fork :: "x86 \<Rightarrow> x86" where
  "user_sys_fork s = DEFN_SYSCALL0 1 s"

definition user_sys_getpid :: "x86 \<Rightarrow> x86" where
  "user_sys_getpid s = DEFN_SYSCALL0 2 s"

definition user_sys_sleep :: "u32 \<Rightarrow> u32 \<Rightarrow> x86 \<Rightarrow> x86" where
  "user_sys_sleep p sigset_addr s = s\<lparr>x_eax := 3, x_ebx := p, x_ecx := sigset_addr\<rparr>"

definition user_sys_wakeup :: "u32 \<Rightarrow> x86 \<Rightarrow> x86" where
  "user_sys_wakeup p s = DEFN_SYSCALL1 4 p s"

section \<open>Properties\<close>

lemma segs_word: "ucast ((ucast (d :: u16) AND 0xFFFF0000) OR KERNEL_DATA_SELECTOR :: u32) = (0x10 :: u16)"
proof -
  have high: "(0xFFFF0000 :: u32) = push_bit 16 (mask 16)" by (simp add: mask_eq_exp_minus_1)
  have "ucast d AND (0xFFFF0000 :: u32) = 0"
    unfolding high by (rule bit_eqI) (auto simp: bit_simps dest: bit_imp_le_length)
  then show ?thesis by (simp add: KERNEL_DATA_SELECTOR_def)
qed

lemma ucast_down_up [simp]: "ucast (ucast (d :: u16) :: u32) = d"
  by (rule bit_eqI) (auto simp: bit_simps)

lemma enter_segs_state:
  "enter_segs s = s\<lparr>x_eax := (ucast (x_ds s) AND 0xFFFF0000) OR KERNEL_DATA_SELECTOR,
     x_stack := ucast (x_ds s) # x_stack s, x_esp := x_esp s - 4, x_ds := 0x10, x_es := 0x10, x_fs := 0x10, x_gs := 0x10\<rparr>"
  by (simp add: enter_segs_def push_def load_segs_def Let_def segs_word)

text \<open>
  C24: the structure an interrupt handler receives holds the interrupted registers: an interrupt
  stub lays out the stack as \<^verbatim>\<open>Isr_registers_t\<close> declares it, with the vector, the error code
  (0 when the exception pushes none) and what the processor pushed. The handler may then change every general register but
  \<^verbatim>\<open>esp\<close>, the segment registers and the interrupt flag; when it returns with the stack it was called on, the stub brings back
  every general register of the interrupted code and its data segment, in all four data segment registers, and leaves the stack
  at what the processor pushed, for \<^verbatim>\<open>iret\<close>.
\<close>

theorem isr_frame_roundtrip:
  assumes "x_stack s = (if err then [e] else []) @ [ip, cs, fl, usp, ss] @ rest"
  shows "handler_argument (x_stack (isr_enter n err s)) = \<lparr>ir_ds = ucast (x_ds s), ir_edi = x_edi s, ir_esi = x_esi s,
      ir_ebp = x_ebp s, ir_esp = x_esp s - (if err then 4 else 8), ir_ebx = x_ebx s, ir_edx = x_edx s, ir_ecx = x_ecx s,
      ir_eax = x_eax s, ir_int_no = n, ir_err_code = (if err then e else 0), ir_eip = ip, ir_cs = cs, ir_eflags = fl,
      ir_useresp = usp, ir_ss = ss\<rparr> \<and>
    (\<forall>h. x_esp h = x_esp (isr_enter n err s) \<and> x_stack h = x_stack (isr_enter n err s) \<longrightarrow>
      isr_leave h = s\<lparr>x_es := x_ds s, x_fs := x_ds s, x_gs := x_ds s, x_if := True,
        x_stack := [ip, cs, fl, usp, ss] @ rest, x_esp := x_esp s + (if err then 4 else 0)\<rparr>)"
  using assms
  by (auto intro!: x86.equality simp: isr_enter_def isr_leave_def pusha_def popa_def push_def pop_def load_segs_def enter_segs_state
      handler_argument_def Let_def)

definition user_regs :: x86 where
  "user_regs = \<lparr>x_eax = 1, x_ebx = 2, x_ecx = 3, x_edx = 4, x_esi = 5, x_edi = 6, x_ebp = 7, x_esp = 0xFFFFEFEC,
     x_ds = 0x23, x_es = 0x23, x_fs = 0x23, x_gs = 0x23, x_if = True, x_stack = [0x8048000, 0x1B, 0x202, 0xBFFF0000, 0x23]\<rparr>"

theorem isr_frame_roundtrip_witness:
  "ir_int_no (handler_argument (x_stack (isr_enter 32 False user_regs))) = 32 \<and>
   ir_eip (handler_argument (x_stack (isr_enter 32 False user_regs))) = 0x8048000 \<and>
   isr_leave ((isr_enter 32 False user_regs)\<lparr>x_eax := 91, x_ecx := 92, x_edx := 93, x_esi := 94, x_ds := 95, x_if := True\<rparr>) = user_regs"
  using isr_frame_roundtrip [of user_regs False 0 "0x8048000" "0x1B" "0x202" "0xBFFF0000" "0x23" "[]" 32]
  by (simp add: user_regs_def)

text \<open>
  C25: a system call number below five, read as a signed integer, is dispatched with the arguments of
  \<^verbatim>\<open>ebx\<close>, \<^verbatim>\<open>ecx\<close>, \<^verbatim>\<open>edx\<close>, \<^verbatim>\<open>esi\<close>, \<^verbatim>\<open>edi\<close> on the stack in C order and
  the kernel's data segments; numbers from five up are ignored, while a negative number passes the
  check, so that the index can lie below the table. When the function returns, having changed the registers a C
  function may change, the caller's stack and data segment are back; the caller's \<^verbatim>\<open>ebx\<close> is
  not: it holds the data segment selector.
\<close>

theorem syscall_dispatch:
  "if sint (x_eax s) \<ge> 5 then isr0x80_enter s = None
   else \<exists>s1. isr0x80_enter s = Some (sint (x_eax s), s1) \<and> x_ds s1 = 0x10 \<and>
     take 5 (x_stack s1) = [x_ebx s, x_ecx s, x_edx s, x_esi s, x_edi s] \<and>
     isr0x80_leave (s1\<lparr>x_eax := r, x_ecx := c, x_edx := d\<rparr>) =
       s\<lparr>x_eax := r, x_ecx := c, x_edx := d, x_ebx := ucast (x_ds s), x_es := x_ds s, x_fs := x_ds s, x_gs := x_ds s\<rparr>"
  by (simp add: isr0x80_enter_def isr0x80_leave_def NR_SYSCALLS_def push_def enter_segs_state load_segs_def Let_def)

theorem syscall_dispatch_witness:
  "isr0x80_enter (user_regs\<lparr>x_eax := 5\<rparr>) = None \<and>
   (\<exists>s1. isr0x80_enter (user_regs\<lparr>x_eax := -1\<rparr>) = Some (-1, s1) \<and> take 5 (x_stack s1) = [2, 3, 4, 5, 6])"
  using syscall_dispatch [of "user_regs\<lparr>x_eax := 5\<rparr>" 0 0 0] syscall_dispatch [of "user_regs\<lparr>x_eax := -1\<rparr>" 0 0 0]
  by (auto simp: user_regs_def)

text \<open>
  The user library and the kernel agree on the system calls: the number each wrapper loads selects, in
  the kernel's table, the function of that name, and the kernel finds the wrapper's arguments in the
  positions of that function's parameters.
\<close>

definition syscall_reaches :: "x86 \<Rightarrow> sys_func \<Rightarrow> u32 list \<Rightarrow> bool" where
  "syscall_reaches s f args \<longleftrightarrow> (\<exists>i s1. isr0x80_enter s = Some (i, s1) \<and> 0 \<le> i \<and> i < int (length syscall_func_addr) \<and>
     syscall_func_addr ! nat i = f \<and> take (length args) (x_stack s1) = args)"

theorem syscall_abi:
  "syscall_reaches (user_sys_puts str s) Klog_puts [str] \<and> syscall_reaches (user_sys_fork s) Task_fork [] \<and>
   syscall_reaches (user_sys_getpid s) Task_getpid [] \<and> syscall_reaches (user_sys_sleep p sigs s) Sys_sleep [p, sigs] \<and>
   syscall_reaches (user_sys_wakeup p s) Task_wakeup [p] \<and> length syscall_func_addr = unat NR_SYSCALLS"
  by (simp add: syscall_reaches_def syscall_func_addr_def user_sys_puts_def user_sys_fork_def user_sys_getpid_def
      user_sys_sleep_def user_sys_wakeup_def DEFN_SYSCALL0_def DEFN_SYSCALL1_def isr0x80_enter_def NR_SYSCALLS_def
      push_def enter_segs_state Let_def)

text \<open>
  C26: a program that builds a signal set with the library and calls \<^verbatim>\<open>sys_sleep\<close> on another running
  task puts that task to sleep with exactly the valid signals it added.
\<close>

theorem sys_sleep_passes_signals:
  assumes "tasks_ok s R S Z" "id2task p s = ret t" "t \<in> set R" "t \<noteq> current_task s"
    and "uid (tasks s t) = uid (tasks s (current_task s)) \<or> uid (tasks s (current_task s)) = 0"
    and "kmem (pg s) = fold (lib_Sigset_add a) ns (lib_Sigset_new a m)"
  shows "\<exists>s'. sys_sleep ra p a s = ret (Returned 0, s') \<and> state (tasks s' t) = TS_SLEEPING \<and>
    signals (sig_wakeup (tasks s' t)) = set ns \<inter> {0..<NSIGNAL_MAX}"
proof -
  have may: "may_operate t s" using assms(5) by (auto simp: may_operate_def cap_test_def)
  let ?sigs = "load_Sigset a (kmem (pg s))"
  from sleep_running [OF assms(1-3) may, of ?sigs ra] assms(4) obtain s0
    where s0: "slept t ?sigs (snd (CLI_SAVE_EFLAGS s)) s0" "sleep ra p ?sigs s = ret (Returned 0, RESTORE_EFLAGS (r_eflags (cpu s)) s0)"
    by auto
  from s0(1) obtain s00 where mv: "moved t TS_SLEEPING (snd (CLI_SAVE_EFLAGS s)) s00"
    and s0_def: "s0 = set_task t (\<lambda>x. x\<lparr>sig_wakeup := Sigset_assign ?sigs (sig_wakeup x)\<rparr>) s00" by (auto simp: slept_def)
  have "signals ?sigs = set ns \<inter> {0..<NSIGNAL_MAX}"
    using lib_set.add_all_clear [of a ns m] assms(6) by (simp add: lib_Sigset_new_def NSIGNAL_MAX_def)
  then show ?thesis using s0(2) movedD(15) [OF mv, of t]
    by (simp add: sys_sleep_def s0_def RESTORE_EFLAGS_def set_task_def upd_task_def signals_assign)
qed

definition three_with_set :: task_state where
  "three_with_set = three_tasks\<lparr>pg := boot_pages\<lparr>kmem := fold (lib_Sigset_add 0x8000) [3, 9] (lib_Sigset_new 0x8000 (\<lambda>_. 0))\<rparr>\<rparr>"

theorem sys_sleep_passes_signals_witness:
  "\<exists>s'. sys_sleep 0x950 1 0x8000 three_with_set = ret (Returned 0, s') \<and> signals (sig_wakeup (tasks s' 0x2000)) = {3, 9}"
proof -
  have ok: "tasks_ok three_with_set [0x1000, 0x2000] [0x3000] []" using three_tasks_ok by (simp add: three_with_set_def)
  have id: "id2task 1 three_with_set = ret 0x2000"
    using three_id2task(2) id2task_cong [of three_with_set three_tasks] by (simp add: three_with_set_def)
  have "\<exists>s'. sys_sleep 0x950 1 0x8000 three_with_set = ret (Returned 0, s') \<and> state (tasks s' 0x2000) = TS_SLEEPING \<and>
      signals (sig_wakeup (tasks s' 0x2000)) = set [3, 9] \<inter> {0..<NSIGNAL_MAX}"
    by (rule sys_sleep_passes_signals [OF ok id, where m = "\<lambda>_. 0"]) (simp_all add: three_with_set_def three_fields)
  then show ?thesis by (auto simp: NSIGNAL_MAX_def)
qed

end
