(* ===== verification/Ctype.thy ===== *)
theory Ctype
  imports Prelude
begin

text \<open>
  Character classification, \<^verbatim>\<open>src/src/include/lib/ctype.h\<close>. Arguments are C
  \<^verbatim>\<open>int\<close>s; the character constants are written by their codes.
\<close>

definition isascii :: "int \<Rightarrow> bool" where
  "isascii c \<longleftrightarrow> c AND NOT 0x7f = 0"

definition iscntrl :: "int \<Rightarrow> bool" where
  "iscntrl c \<longleftrightarrow> c < 32 \<or> c > 126"

definition isdigit :: "int \<Rightarrow> bool" where
  "isdigit c \<longleftrightarrow> c \<ge> 48 \<and> c \<le> 57"

definition isgraph :: "int \<Rightarrow> bool" where
  "isgraph c \<longleftrightarrow> c > 32 \<and> c \<le> 126"

definition islower :: "int \<Rightarrow> bool" where
  "islower c \<longleftrightarrow> c \<ge> 97 \<and> c \<le> 122"

definition isprint :: "int \<Rightarrow> bool" where
  "isprint c \<longleftrightarrow> c \<ge> 32 \<and> c \<le> 126"

definition isspace :: "int \<Rightarrow> bool" where
  "isspace c \<longleftrightarrow> c = 32 \<or> c = 12 \<or> c = 10 \<or> c = 13 \<or> c = 9 \<or> c = 11"

definition isupper :: "int \<Rightarrow> bool" where
  "isupper c \<longleftrightarrow> c \<ge> 65 \<and> c \<le> 90"

definition isxdigit :: "int \<Rightarrow> bool" where
  "isxdigit c \<longleftrightarrow> isdigit c \<or> (c \<ge> 65 \<and> c \<le> 70) \<or> (c \<ge> 97 \<and> c \<le> 102)"

definition isalpha :: "int \<Rightarrow> bool" where
  "isalpha c \<longleftrightarrow> islower c \<or> isupper c"

definition isalnum :: "int \<Rightarrow> bool" where
  "isalnum c \<longleftrightarrow> isalpha c \<or> isdigit c"

definition ispunct :: "int \<Rightarrow> bool" where
  "ispunct c \<longleftrightarrow> isgraph c \<and> \<not> isalnum c"

definition toascii :: "int \<Rightarrow> int" where
  "toascii c = c AND 0x7f"

definition toupper :: "int \<Rightarrow> int" where
  "toupper c = (if c \<ge> 97 \<and> c \<le> 122 then c - 97 + 65 else c)"

definition tolower :: "int \<Rightarrow> int" where
  "tolower c = (if c \<ge> 65 \<and> c \<le> 90 then c - 65 + 97 else c)"

lemmas ctype_defs = isascii_def iscntrl_def isdigit_def isgraph_def islower_def isprint_def isspace_def
  isupper_def isxdigit_def isalpha_def isalnum_def ispunct_def toascii_def toupper_def tolower_def

text \<open>
  Every character is a control character or printable, never both; a printable one is a space,
  a letter, a digit or punctuation, exactly one of these; and changing the case of letters is
  undone by changing it back.
\<close>

theorem ctype_partition:
  "(iscntrl c \<longleftrightarrow> \<not> isprint c) \<and> (isprint c \<longleftrightarrow> c = 32 \<or> isalpha c \<or> isdigit c \<or> ispunct c) \<and>
   \<not> (isalpha c \<and> isdigit c) \<and> \<not> (ispunct c \<and> isalnum c) \<and> \<not> (isupper c \<and> islower c) \<and>
   (isupper c \<longrightarrow> islower (tolower c) \<and> toupper (tolower c) = c) \<and>
   (islower c \<longrightarrow> isupper (toupper c) \<and> tolower (toupper c) = c)"
  by (auto simp: ctype_defs)

end
