(* ===== verification/Klog.thy ===== *)
theory Klog
  imports Ctype Port Cstring
begin

text \<open>
  The kernel's console, \<^verbatim>\<open>src/src/core/klog.cpp\<close>: the text screen with its colour stack, cursor and
  scrolling, and formatted output.

  \<^verbatim>\<open>videomem\<close> is the memory behind the screen, indexed from its base; characters are bytes, and a C
  string is the list of its bytes without the terminator. The arguments of a format are typed, as the
  compiler checks for functions declared with the \<^verbatim>\<open>format\<close> attribute; a format that reads an
  argument of another type has no value, nor has a store past the end of \<^verbatim>\<open>buf_mem\<close>. Arithmetic on \<^verbatim>\<open>double\<close> is an argument, \<open>fp\<close>.
\<close>

section \<open>State\<close>

definition COLOR_STACK_SIZE :: int where "COLOR_STACK_SIZE = 32"

definition NCOL :: int where "NCOL = 80"

definition NROW :: int where "NROW = 25"

definition FLOAT_PRECESION :: nat where "FLOAT_PRECESION = 4"

record klog_state =
  videomem :: "int \<Rightarrow> u8"
  video_base :: u32
  video_monochrome :: bool
  color_stack :: "int \<Rightarrow> u8"
  ncolor_stack :: int
  xpos :: int
  ypos :: int
  buf_mem :: "nat \<Rightarrow> u8"
  u2s_ret :: "nat \<Rightarrow> u8"
  kio :: io_state

datatype Color_t =
    BLACK | BLUE | GREEN | CYAN | RED | MAGENTA | BROWN | LIGHT_GRAY
  | DARK_GRAY | LIGHT_BLUE | LIGHT_GREEN | LIGHT_CYAN | LIGHT_RED | LIGHT_MAGENTA | LIGHT_BROWN | WHITE

fun color_code :: "Color_t \<Rightarrow> u8" where
  "color_code BLACK = 0" | "color_code BLUE = 1" | "color_code GREEN = 2" | "color_code CYAN = 3"
| "color_code RED = 4" | "color_code MAGENTA = 5" | "color_code BROWN = 6" | "color_code LIGHT_GRAY = 7"
| "color_code DARK_GRAY = 8" | "color_code LIGHT_BLUE = 9" | "color_code LIGHT_GREEN = 10"
| "color_code LIGHT_CYAN = 11" | "color_code LIGHT_RED = 12" | "color_code LIGHT_MAGENTA = 13"
| "color_code LIGHT_BROWN = 14" | "color_code WHITE = 15"

datatype Log_level_t = DEBUG | INFO | ERROR

text \<open>A string literal as bytes.\<close>

definition cstr :: "string \<Rightarrow> u8 list" where
  "cstr s = map of_char s"

section \<open>Colours and the screen\<close>

definition push_color :: "Color_t \<Rightarrow> Color_t \<Rightarrow> klog_state \<Rightarrow> klog_state" where
  "push_color forecolor backcolor s =
     (let s = (if ncolor_stack s = COLOR_STACK_SIZE then s\<lparr>ncolor_stack := ncolor_stack s - 1\<rparr> else s);
          v = (if video_monochrome s then (if forecolor = backcolor then 0 else 0x07)
               else push_bit 4 (color_code backcolor) OR color_code forecolor)
      in s\<lparr>color_stack := (color_stack s)(ncolor_stack s := v), ncolor_stack := ncolor_stack s + 1\<rparr>)"

definition pop_color :: "klog_state \<Rightarrow> klog_state" where
  "pop_color s = (if ncolor_stack s > 1 then s\<lparr>ncolor_stack := ncolor_stack s - 1\<rparr> else s)"

definition top_color :: "klog_state \<Rightarrow> u8" where
  "top_color s = color_stack s (ncolor_stack s - 1)"

text \<open>The cell at byte \<open>p\<close>: the character and its colour.\<close>

definition put_cell :: "int \<Rightarrow> u8 \<Rightarrow> klog_state \<Rightarrow> klog_state" where
  "put_cell p c s = s\<lparr>videomem := (videomem s)(p := c, p + 1 := top_color s)\<rparr>"

definition cls :: "klog_state \<Rightarrow> klog_state" where
  "cls s =
     fold (\<lambda>k. put_cell (2 * int k) 32) [0..<nat (NCOL * NROW)] (s\<lparr>xpos := 0, ypos := 0\<rparr>)"

text \<open>\<^verbatim>\<open>memcpy\<close> of the screen memory onto itself, one line down, byte after byte.\<close>

primrec scroll_copy :: "nat \<Rightarrow> int \<Rightarrow> (int \<Rightarrow> u8) \<Rightarrow> (int \<Rightarrow> u8)" where
  "scroll_copy 0 csize v = v"
| "scroll_copy (Suc n) csize v = (let v = scroll_copy n csize v in v(int n := v (int n + csize)))"

definition scroll :: "klog_state \<Rightarrow> klog_state" where
  "scroll s =
     (let csize = NCOL * 2;
          bsize = (NROW - 1) * NCOL * 2;
          s = s\<lparr>videomem := scroll_copy (nat bsize) csize (videomem s)\<rparr>;
          s = fold (\<lambda>k. put_cell (bsize + 2 * int k) 32) [0..<nat NCOL] s
      in s\<lparr>ypos := NROW - 1\<rparr>)"

text \<open>\<^verbatim>\<open>char\<close> is signed, so bytes from 128 up are not printable.\<close>

definition putc :: "u8 \<Rightarrow> klog_state \<Rightarrow> klog_state" where
  "putc c s =
     (if \<not> isprint (sint c) \<and> c \<noteq> 13 \<and> c \<noteq> 10 then s
      else if c = 13 then s\<lparr>xpos := 0\<rparr>
      else
        (let s = (if c \<noteq> 10 then
                    (let p = (xpos s + ypos s * NCOL) * 2; s = put_cell p c s in s\<lparr>xpos := xpos s + 1\<rparr>)
                  else s)
         in if c = 10 \<or> xpos s = NCOL then
              (let s = s\<lparr>xpos := 0, ypos := ypos s + 1\<rparr>
               in if ypos s = NROW then scroll s else s)
            else s))"

definition move_cursor :: "klog_state \<Rightarrow> klog_state" where
  "move_cursor s =
     (let pos = ypos s * NCOL + xpos s;
          d = outb 0x3D4 0x0E (kio s);
          d = outb 0x3D5 (word_of_int (drop_bit 8 pos AND 0xFF)) d;
          d = outb 0x3D4 0x0F d;
          d = outb 0x3D5 (word_of_int (pos AND 0xFF)) d
      in s\<lparr>kio := d\<rparr>)"

definition puts :: "u8 list \<Rightarrow> klog_state \<Rightarrow> klog_state" where
  "puts str s = move_cursor (fold putc str s)"

section \<open>Numbers\<close>

definition digit_char :: "u32 \<Rightarrow> u8" where
  "digit_char d = (if d < 10 then 48 + ucast d else 97 + ucast d - 10)"

text \<open>The digits, lowest first, with their count.\<close>

partial_function (option) u2s_loop :: "u32 \<Rightarrow> u32 \<Rightarrow> nat \<Rightarrow> (nat \<Rightarrow> u8) \<Rightarrow> (nat \<times> (nat \<Rightarrow> u8)) exec" where
  "u2s_loop base n len r =
     (if n \<noteq> 0 then u2s_loop base (n div base) (len + 1) (r(len := digit_char (n mod base)))
      else ret (len, r))"

text \<open>\<^verbatim>\<open>for (int i = len / 2 - 1; i >= 0; i --)\<close>, exchanging the ends of the first \<open>len\<close> characters.\<close>

primrec swap_loop :: "nat \<Rightarrow> nat \<Rightarrow> (nat \<Rightarrow> u8) \<Rightarrow> (nat \<Rightarrow> u8)" where
  "swap_loop 0 len r = r"
| "swap_loop (Suc i) len r =
     (let tmp = r i; r = r(i := r (len - 1 - i)); r = r(len - 1 - i := tmp) in swap_loop i len r)"

definition store_str :: "nat \<Rightarrow> u8 list \<Rightarrow> (nat \<Rightarrow> u8) \<Rightarrow> (nat \<Rightarrow> u8)" where
  "store_str off str r = (\<lambda>i. if off \<le> i \<and> i < off + length str then str ! (i - off) else r i)"

definition u2s :: "u32 \<Rightarrow> u32 \<Rightarrow> (nat \<Rightarrow> u8) \<Rightarrow> (nat \<Rightarrow> u8) exec" where
  "u2s n base r =
     (if n = 0 then ret (store_str 0 (cstr ''0'' @ [0]) r)
      else
        andThen (u2s_loop base n 0 r) (\<lambda>(len, r).
          ret ((swap_loop (len div 2) len r)(len := 0))))"

text \<open>The C string in a buffer, from an offset on.\<close>

partial_function (option) str_at :: "(nat \<Rightarrow> u8) \<Rightarrow> nat \<Rightarrow> u8 list exec" where
  "str_at r i = (if r i = 0 then ret [] else andThen (str_at r (i + 1)) (\<lambda>xs. ret (r i # xs)))"

section \<open>Formatted output\<close>

record 'd fpu =
  f_less :: "'d \<Rightarrow> 'd \<Rightarrow> bool"
  f_ge :: "'d \<Rightarrow> 'd \<Rightarrow> bool"
  f_neg :: "'d \<Rightarrow> 'd"
  f_div :: "'d \<Rightarrow> 'd \<Rightarrow> 'd"
  f_mul :: "'d \<Rightarrow> 'd \<Rightarrow> 'd"
  f_sub :: "'d \<Rightarrow> 'd \<Rightarrow> 'd"
  f_of_int :: "int \<Rightarrow> 'd"
  f_to_int :: "'d \<Rightarrow> int"

datatype 'd arg = A_str "u8 list option" | A_word u32 | A_double 'd

text \<open>Where \<^verbatim>\<open>buf\<close> points: into \<^verbatim>\<open>buf_mem\<close>, into the buffer of \<^verbatim>\<open>u2s\<close>, or to a string argument.\<close>

datatype bufptr = P_mem nat | P_ret nat | P_str "u8 list"

definition float_digit :: "'d fpu \<Rightarrow> 'd \<Rightarrow> u8" where
  "float_digit fp f = word_of_int (f_to_int fp (f_mul fp (f_sub fp f (f_of_int fp (f_to_int fp f))) (f_of_int fp 10)) + 48)"

text \<open>A store into \<^verbatim>\<open>buf_mem\<close>; one past its end has no value.\<close>

definition BUF_MEM_SIZE :: nat where "BUF_MEM_SIZE = 128"

definition buf_store :: "nat \<Rightarrow> u8 \<Rightarrow> (nat \<Rightarrow> u8) \<Rightarrow> (nat \<Rightarrow> u8) exec" where
  "buf_store n c r = (if n < BUF_MEM_SIZE then ret (r(n := c)) else None)"

text \<open>\<^verbatim>\<open>while (f >= 1)\<close>: a number that is not ordered with one, a NaN, ends it. The buffer bounds the rounds.\<close>

function float_int_loop :: "'d fpu \<Rightarrow> 'd \<Rightarrow> nat \<Rightarrow> (nat \<Rightarrow> u8) \<Rightarrow> (nat \<times> (nat \<Rightarrow> u8)) exec" where
  "float_int_loop fp f n r =
     (if f_ge fp f (f_of_int fp 1) then
        (let f = f_div fp f (f_of_int fp 10)
         in if n < BUF_MEM_SIZE then float_int_loop fp f (n + 1) (r(n := float_digit fp f)) else None)
      else ret (n, r))"
  by pat_completeness auto

termination float_int_loop
  by (relation "measure (\<lambda>(fp, f, n, r). BUF_MEM_SIZE - n)") auto

declare float_int_loop.simps [simp del]

primrec float_frac_loop :: "nat \<Rightarrow> 'd fpu \<Rightarrow> 'd \<Rightarrow> nat \<Rightarrow> (nat \<Rightarrow> u8) \<Rightarrow> (nat \<times> (nat \<Rightarrow> u8)) exec" where
  "float_frac_loop 0 fp f n r = ret (n, r)"
| "float_frac_loop (Suc k) fp f n r =
     andThen (buf_store n (float_digit fp f) r) (float_frac_loop k fp (f_mul fp f (f_of_int fp 10)) (n + 1))"

definition format_float :: "'d fpu \<Rightarrow> 'd \<Rightarrow> (nat \<Rightarrow> u8) \<Rightarrow> (nat \<Rightarrow> u8) exec" where
  "format_float fp f r =
     andThen (if f_less fp f (f_of_int fp 1) then ret (1, r(0 := 48)) else float_int_loop fp f 0 r) (\<lambda>(n, r).
     andThen (buf_store n 46 (swap_loop (n div 2) n r)) (\<lambda>r.
     andThen (float_frac_loop FLOAT_PRECESION fp f (n + 1) r) (\<lambda>(n, r).
       buf_store n 0 r)))"

text \<open>The eight digits of a pointer.\<close>

definition format_pointer :: "u32 \<Rightarrow> (nat \<Rightarrow> u8) \<Rightarrow> (nat \<Rightarrow> u8)" where
  "format_pointer v r =
     (let r = store_str 0 (cstr ''#0x'' @ [0]) r;
          r = fold (\<lambda>i r. let x = drop_bit (4 * i) v AND 0xF;
                        x = (if x < 10 then x + 48 else x + (65 - 10))
                    in r(10 - i := ucast x)) (rev [0..<8]) r
      in r(11 := 0))"

text \<open>
  One conversion: the letter after the percent sign, the arguments and the value of \<^verbatim>\<open>buf\<close>, which
  the default case leaves as it was.
\<close>

definition convert ::
  "'d fpu \<Rightarrow> u8 \<Rightarrow> 'd arg list \<Rightarrow> bufptr option \<Rightarrow> klog_state \<Rightarrow> ('d arg list \<times> bufptr option \<times> klog_state) exec" where
  "convert fp c args buf s =
     (if c = 115 then
        (case args of
           A_str (Some str) # as \<Rightarrow> ret (as, Some (P_str str), s)
         | A_str None # as \<Rightarrow> ret (as, Some (P_mem 0), s\<lparr>buf_mem := store_str 0 (cstr ''(null)'' @ [0]) (buf_mem s)\<rparr>)
         | _ \<Rightarrow> None)
      else if c = 120 then
        (case args of
           A_word n # as \<Rightarrow> andThen (u2s n 16 (u2s_ret s)) (\<lambda>r. ret (as, Some (P_ret 0), s\<lparr>u2s_ret := r\<rparr>))
         | _ \<Rightarrow> None)
      else if c = 100 then
        (case args of
           A_word n # as \<Rightarrow>
             (let (n, s) = (if sint n < 0 then (- n, putc 45 s) else (n, s))
              in andThen (u2s n 10 (u2s_ret s)) (\<lambda>r. ret (as, Some (P_ret 0), s\<lparr>u2s_ret := r\<rparr>)))
         | _ \<Rightarrow> None)
      else if c = 117 then
        (case args of
           A_word n # as \<Rightarrow> andThen (u2s n 10 (u2s_ret s)) (\<lambda>r. ret (as, Some (P_ret 0), s\<lparr>u2s_ret := r\<rparr>))
         | _ \<Rightarrow> None)
      else if c = 99 then
        (case args of
           A_word n # as \<Rightarrow> ret (as, Some (P_mem 0), s\<lparr>buf_mem := (buf_mem s)(0 := ucast n, 1 := 0)\<rparr>)
         | _ \<Rightarrow> None)
      else if c = 37 then
        ret (args, Some (P_mem 0), s\<lparr>buf_mem := store_str 0 (cstr ''%'' @ [0]) (buf_mem s)\<rparr>)
      else if c = 102 then
        (case args of
           A_double f # as \<Rightarrow>
             (let (f, s) = (if f_less fp f (f_of_int fp 0) then (f_neg fp f, putc 45 s) else (f, s))
              in andThen (format_float fp f (buf_mem s)) (\<lambda>r. ret (as, Some (P_mem 0), s\<lparr>buf_mem := r\<rparr>)))
         | _ \<Rightarrow> None)
      else if c = 112 then
        (case args of
           A_word v # as \<Rightarrow> ret (as, Some (P_mem 0), s\<lparr>buf_mem := format_pointer v (buf_mem s)\<rparr>)
         | _ \<Rightarrow> None)
      else ret (args, buf, s\<lparr>buf_mem := store_str 0 (cstr ''(%?)'' @ [0]) (buf_mem s)\<rparr>))"

text \<open>
  \<^verbatim>\<open>while ( *buf) putc( *(buf ++))\<close>, after which \<^verbatim>\<open>buf\<close> points to the terminator; reading an
  unset \<^verbatim>\<open>buf\<close> has no value.
\<close>

definition put_buf :: "bufptr option \<Rightarrow> klog_state \<Rightarrow> (bufptr option \<times> klog_state) exec" where
  "put_buf buf s =
     (case buf of
        None \<Rightarrow> None
      | Some (P_str str) \<Rightarrow> ret (Some (P_str []), fold putc str s)
      | Some (P_mem i) \<Rightarrow> andThen (str_at (buf_mem s) i) (\<lambda>str. ret (Some (P_mem (i + length str)), fold putc str s))
      | Some (P_ret i) \<Rightarrow> andThen (str_at (u2s_ret s) i) (\<lambda>str. ret (Some (P_ret (i + length str)), fold putc str s)))"

text \<open>The format ends at its terminator; a percent sign just before it reads past it, which has no value.\<close>

fun vprintf_loop :: "'d fpu \<Rightarrow> u8 list \<Rightarrow> 'd arg list \<Rightarrow> bufptr option \<Rightarrow> klog_state \<Rightarrow> klog_state exec" where
  "vprintf_loop fp [] args buf s = ret s"
| "vprintf_loop fp (c # fmt) args buf s =
     (if c = 37 then
        (case fmt of
           [] \<Rightarrow> None
         | d # fmt' \<Rightarrow>
             andThen (convert fp d args buf s) (\<lambda>(args, buf, s).
             andThen (put_buf buf s) (\<lambda>(buf, s). vprintf_loop fp fmt' args buf s)))
      else vprintf_loop fp fmt args buf (putc c s))"

definition vprintf :: "'d fpu \<Rightarrow> u8 list \<Rightarrow> 'd arg list \<Rightarrow> klog_state \<Rightarrow> klog_state exec" where
  "vprintf fp fmt args s = andThen (vprintf_loop fp fmt args None s) (\<lambda>s. ret (move_cursor s))"

definition printf :: "'d fpu \<Rightarrow> u8 list \<Rightarrow> 'd arg list \<Rightarrow> klog_state \<Rightarrow> klog_state exec" where
  "printf fp fmt args s = vprintf fp fmt args s"

fun LEVEL_STR :: "Log_level_t \<Rightarrow> string" where
  "LEVEL_STR DEBUG = ''[debug] ''"
| "LEVEL_STR INFO = ''[info] ''"
| "LEVEL_STR ERROR = ''[error] ''"

definition log :: "'d fpu \<Rightarrow> Log_level_t \<Rightarrow> u8 list \<Rightarrow> 'd arg list \<Rightarrow> klog_state \<Rightarrow> klog_state exec" where
  "log fp level fmt args s =
     (let s = push_color LIGHT_BLUE BLACK s;
          s = puts (cstr (LEVEL_STR level)) s;
          s = pop_color s
      in andThen (vprintf fp fmt args s) (\<lambda>s. ret (puts [10] s)))"

text \<open>\<^verbatim>\<open>init\<close>: \<open>bios\<close> is the equipment word at 0x410.\<close>

definition klog_init :: "'d fpu \<Rightarrow> u16 \<Rightarrow> klog_state \<Rightarrow> klog_state exec" where
  "klog_init fp bios s =
     (let c = bios AND 0x30;
          s = (if c = 0x30 then s\<lparr>video_base := 0xB0000, video_monochrome := True\<rparr>
               else s\<lparr>video_base := 0xB8000, video_monochrome := False\<rparr>);
          s = push_color LIGHT_GRAY BLACK s;
          s = cls s
      in printf fp (cstr ''video intialized. mode: %s'' @ [10])
           [A_str (Some (cstr (if video_monochrome s then ''monochrome'' else ''color'')))] s)"

end
