(* ===== verification/Klog_Thms.thy ===== *)
theory Klog_Thms
  imports Klog
begin

text \<open>
  The console: numerals are the numbers they denote and fit their buffers, the screen behaves as a
  terminal of 25 lines whose memory is never left, and formatted output prints the text its
  format and arguments describe.
\<close>

section \<open>Numerals\<close>

text \<open>The digits of a number, lowest first, and the number a numeral denotes.\<close>

function digits :: "nat \<Rightarrow> nat \<Rightarrow> u8 list" where
  "digits b n = (if n = 0 \<or> b < 2 then [] else digit_char (of_nat (n mod b)) # digits b (n div b))"
  by pat_completeness auto
termination by (relation "measure snd") auto

declare digits.simps [simp del]

lemma digits_0 [simp]: "digits b 0 = []"
  by (subst digits.simps) simp

lemma digits_step: "0 < n \<Longrightarrow> 2 \<le> b \<Longrightarrow> digits b n = digit_char (of_nat (n mod b)) # digits b (n div b)"
  by (subst digits.simps) simp

definition digit_value :: "u8 \<Rightarrow> nat" where
  "digit_value c = (if c < 58 then unat c - 48 else unat c - 87)"

definition numeral_value :: "nat \<Rightarrow> u8 list \<Rightarrow> nat" where
  "numeral_value b str = fold (\<lambda>c v. v * b + digit_value c) str 0"

lemma digit_char_small:
  assumes "d < 16"
  shows "unat (digit_char (of_nat d)) = (if d < 10 then 48 + d else 87 + d)"
proof -
  have "d = 0 \<or> d = 1 \<or> d = 2 \<or> d = 3 \<or> d = 4 \<or> d = 5 \<or> d = 6 \<or> d = 7 \<or> d = 8 \<or> d = 9 \<or> d = 10 \<or>
      d = 11 \<or> d = 12 \<or> d = 13 \<or> d = 14 \<or> d = 15" using assms by arith
  then show ?thesis by (elim disjE) (simp_all add: digit_char_def)
qed

lemma digit_value_char: "d < 16 \<Longrightarrow> digit_value (digit_char (of_nat d)) = d"
  using digit_char_small [of d] by (auto simp: digit_value_def word_less_nat_alt split: if_splits)

lemma digits_value: "2 \<le> b \<Longrightarrow> b \<le> 16 \<Longrightarrow> numeral_value b (rev (digits b n)) = n"
proof (induction n rule: less_induct)
  case (less n)
  show ?case
  proof (cases "n = 0")
    case True
    then show ?thesis by (simp add: numeral_value_def)
  next
    case False
    have "n mod b < 16" using less.prems mod_less_divisor [of b n] by linarith
    moreover have "numeral_value b (rev (digits b (n div b))) = n div b" using less False by simp
    ultimately show ?thesis using False less.prems
      by (simp add: digits_step numeral_value_def digit_value_char)
  qed
qed

lemma digits_length: "0 < n \<Longrightarrow> 2 \<le> b \<Longrightarrow> b ^ (length (digits b n) - 1) \<le> n"
proof (induction n rule: less_induct)
  case (less n)
  show ?case
  proof (cases "n div b = 0")
    case True
    then show ?thesis using less.prems by (simp add: digits_step)
  next
    case False
    then have "b ^ (length (digits b (n div b)) - 1) \<le> n div b" using less by simp
    then have "b ^ (length (digits b (n div b)) - 1) * b \<le> n div b * b" by (rule mult_le_mono1)
    also have "\<dots> \<le> n" by simp
    finally have "b ^ Suc (length (digits b (n div b)) - 1) \<le> n" by (simp add: mult.commute)
    moreover have "Suc (length (digits b (n div b)) - 1) = length (digits b (n div b))"
      using False less.prems by (simp add: digits_step)
    ultimately have "b ^ length (digits b (n div b)) \<le> n" by (simp only:)
    then show ?thesis using less.prems by (simp add: digits_step [of n])
  qed
qed

lemma digits_nonzero: "b \<le> 16 \<Longrightarrow> c \<in> set (digits b n) \<Longrightarrow> c \<noteq> 0"
proof (induction n rule: less_induct)
  case (less n)
  then have n: "n \<noteq> 0" "2 \<le> b" using less.prems(2) by (auto simp: digits.simps [of b n] split: if_splits)
  then have "n mod b < 16" using less.prems(1) mod_less_divisor [of b n] by linarith
  then have "unat (digit_char (of_nat (n mod b))) \<noteq> 0" by (simp add: digit_char_small)
  then have "digit_char (of_nat (n mod b)) \<noteq> 0" by force
  moreover have "c \<noteq> 0" if "c \<in> set (digits b (n div b))" using less.IH [of "n div b"] that less.prems(1) n by simp
  ultimately show ?case using less.prems(2) n by (auto simp: digits_step)
qed

lemma digits_last: "0 < n \<Longrightarrow> 2 \<le> b \<Longrightarrow> b \<le> 16 \<Longrightarrow> last (digits b n) \<noteq> 48"
proof (induction n rule: less_induct)
  case (less n)
  show ?case
  proof (cases "n div b = 0")
    case True
    then have "n < b" using less.prems by (simp add: div_eq_0_iff)
    then have "unat (digit_char (of_nat n)) \<noteq> 48" using less.prems digit_char_small [of n] by simp
    then show ?thesis using True less.prems \<open>n < b\<close> by (auto simp: digits_step)
  next
    case False
    then have "n div b < n" "digits b (n div b) \<noteq> []" using less.prems by (simp_all add: digits_step [of "n div b"])
    then show ?thesis using less False by (simp add: digits_step [of n])
  qed
qed

subsection \<open>The loops of \<^verbatim>\<open>u2s\<close>\<close>

lemma store_str_Nil [simp]: "store_str i [] r = r"
  by (rule ext) (auto simp: store_str_def)

lemma store_str_Cons: "store_str i (x # xs) r = store_str (i + 1) xs (r(i := x))"
proof
  fix j
  consider "j < i" | "j = i" | "i < j" by linarith
  then show "store_str i (x # xs) r j = store_str (i + 1) xs (r(i := x)) j"
    by cases (auto simp: store_str_def nth_Cons')
qed

lemma u2s_loop_digits:
  assumes "2 \<le> unat base"
  shows "u2s_loop base n len r = ret (len + length (digits (unat base) (unat n)), store_str len (digits (unat base) (unat n)) r)"
proof (induction "unat n" arbitrary: n len r rule: less_induct)
  case less
  show ?case
  proof (cases "n = 0")
    case True
    then show ?thesis by (subst u2s_loop.simps) simp
  next
    case False
    then have n: "0 < unat n" by (simp add: unat_gt_0)
    have div: "unat (n div base) = unat n div unat base" and md: "unat (n mod base) = unat n mod unat base"
      by (simp_all add: unat_div unat_mod)
    have lt: "unat (n div base) < unat n" using n assms by (simp add: div)
    have "n mod base = of_nat (unat n mod unat base)" by (metis md of_nat_unat ucast_id)
    then show ?thesis using False less [OF lt] n assms
      by (subst u2s_loop.simps) (simp add: digits_step div store_str_Cons)
  qed
qed

lemma swap_loop_value:
  "2 * k \<le> len \<Longrightarrow> swap_loop k len r j = (if j < k \<or> len - k \<le> j \<and> j < len then r (len - 1 - j) else r j)"
proof (induction k arbitrary: r)
  case (Suc k)
  let ?r = "r(k := r (len - 1 - k), len - 1 - k := r k)"
  have "swap_loop (Suc k) len r j = swap_loop k len ?r j" by (simp add: Let_def)
  also have "\<dots> = (if j < k \<or> len - k \<le> j \<and> j < len then ?r (len - 1 - j) else ?r j)"
    using Suc.prems by (intro Suc.IH) simp
  also have "\<dots> = (if j < Suc k \<or> len - Suc k \<le> j \<and> j < len then r (len - 1 - j) else r j)"
    using Suc.prems by auto
  finally show ?case .
qed auto

lemma swap_loop_rev: "swap_loop (length xs div 2) (length xs) (store_str 0 xs r) = store_str 0 (rev xs) r"
proof
  fix j
  let ?n = "length xs"
  have "swap_loop (?n div 2) ?n (store_str 0 xs r) j =
      (if j < ?n div 2 \<or> ?n - ?n div 2 \<le> j \<and> j < ?n then store_str 0 xs r (?n - 1 - j) else store_str 0 xs r j)"
    by (rule swap_loop_value) simp
  also have "\<dots> = store_str 0 (rev xs) r j"
  proof (cases "j < ?n div 2 \<or> ?n - ?n div 2 \<le> j")
    case True
    then show ?thesis by (auto simp: store_str_def rev_nth)
  next
    case False
    then have "j < ?n" "?n - Suc j = j" by arith+
    then show ?thesis using False by (simp add: store_str_def rev_nth)
  qed
  finally show "swap_loop (?n div 2) ?n (store_str 0 xs r) j = store_str 0 (rev xs) r j" .
qed

lemma str_at_list:
  assumes "\<forall>j < length xs. r (i + j) = xs ! j" "r (i + length xs) = 0" "0 \<notin> set xs"
  shows "str_at r i = ret xs"
  using assms
proof (induction xs arbitrary: i)
  case Nil
  then show ?case by (subst str_at.simps) simp
next
  case (Cons x xs)
  have "r i = x" using Cons.prems(1) by force
  moreover have "str_at r (i + 1) = ret xs"
    using Cons.prems by (intro Cons.IH) (auto dest: spec [of _ "Suc _"])
  ultimately show ?case using Cons.prems(3) by (subst str_at.simps) simp
qed

lemma str_at_store: "0 \<notin> set xs \<Longrightarrow> str_at ((store_str 0 xs r)(length xs := 0)) 0 = ret xs"
  by (rule str_at_list) (auto simp: store_str_def)

text \<open>The text of a number.\<close>

definition numeral_text :: "u32 \<Rightarrow> u32 \<Rightarrow> u8 list" where
  "numeral_text n base = (if n = 0 then [48] else rev (digits (unat base) (unat n)))"

lemma u2s_text:
  assumes "2 \<le> unat base" "unat base \<le> 16"
  shows "\<exists>r'. u2s n base r = ret r' \<and> str_at r' 0 = ret (numeral_text n base) \<and>
    (\<forall>i > length (numeral_text n base). r' i = r i)"
proof (cases "n = 0")
  case True
  let ?r = "(store_str 0 [48] r)(1 := 0)"
  have "store_str 0 (cstr ''0'' @ [0]) r = ?r" by (rule ext) (auto simp: store_str_def cstr_def nth_Cons')
  moreover have "str_at ?r 0 = ret [48]" using str_at_store [of "[48]" r] by simp
  ultimately show ?thesis using True by (auto simp: u2s_def numeral_text_def store_str_def)
next
  case False
  let ?d = "digits (unat base) (unat n)"
  have nz: "0 \<notin> set (rev ?d)" using digits_nonzero [OF assms(2)] by auto
  have "u2s n base r = ret ((store_str 0 (rev ?d) r)(length ?d := 0))"
    using False u2s_loop_digits [OF assms(1), of n 0 r] swap_loop_rev [of ?d r] by (simp add: u2s_def)
  moreover have "str_at ((store_str 0 (rev ?d) r)(length ?d := 0)) 0 = ret (rev ?d)"
    using str_at_store [OF nz, of r] by simp
  ultimately show ?thesis using False by (auto simp: numeral_text_def store_str_def)
qed

text \<open>
  \<^verbatim>\<open>u2s\<close> in base 10 and 16 ends with a numeral that denotes the number, without leading
  zeros and at most ten digits long, so that with its terminator it stays inside the 20 bytes of its static
  buffer.
\<close>

theorem u2s_numeral:
  assumes "base = 10 \<or> base = 16"
  shows "\<exists>r' str. u2s n base r = ret r' \<and> str_at r' 0 = ret str \<and> numeral_value (unat base) str = unat n \<and>
    0 < length str \<and> length str \<le> 10 \<and> (hd str = 48 \<longrightarrow> n = 0) \<and> (\<forall>i \<ge> 20. r' i = r i)"
proof -
  have b: "2 \<le> unat base" "unat base \<le> 16" "10 \<le> unat base" using assms by auto
  let ?str = "numeral_text n base"
  have len: "length ?str \<le> 10"
  proof (cases "n = 0")
    case False
    then have n: "0 < unat n" by (simp add: unat_gt_0)
    show ?thesis
    proof (rule ccontr)
      assume "\<not> length ?str \<le> 10"
      then have l: "10 \<le> length (digits (unat base) (unat n)) - 1" using False by (simp add: numeral_text_def)
      have "(10 :: nat) ^ 10 \<le> unat base ^ 10" using b(3) by (rule power_mono) simp
      also have "\<dots> \<le> unat base ^ (length (digits (unat base) (unat n)) - 1)" using l b by (intro power_increasing) auto
      also have "\<dots> \<le> unat n" by (rule digits_length [OF n b(1)])
      finally show False using unat_lt_2_32 [of n] by simp
    qed
  qed (simp add: numeral_text_def)
  have val: "numeral_value (unat base) ?str = unat n"
    using digits_value [OF b(1,2)] by (simp add: numeral_text_def numeral_value_def digit_value_def)
  have pos: "0 < length ?str" "hd ?str = 48 \<longrightarrow> n = 0"
  proof -
    have "digits (unat base) (unat n) \<noteq> []" if "n \<noteq> 0"
      using that b(1) by (simp add: digits_step unat_gt_0)
    then show "0 < length ?str" by (simp add: numeral_text_def)
    show "hd ?str = 48 \<longrightarrow> n = 0"
      using digits_last [of "unat n" "unat base"] b by (auto simp: numeral_text_def unat_gt_0 hd_rev)
  qed
  from u2s_text [OF b(1,2), of n r] obtain r' where r': "u2s n base r = ret r'" "str_at r' 0 = ret ?str"
      "\<forall>i > length ?str. r' i = r i" by blast
  have "\<forall>i \<ge> 20. r' i = r i" using r'(3) len by simp
  with r' val pos len show ?thesis by blast
qed

theorem u2s_numeral_witness:
  "\<exists>r' str. u2s 4294967295 16 (\<lambda>_. 0) = ret r' \<and> str_at r' 0 = ret str \<and>
    numeral_value (unat (16 :: u32)) str = unat (4294967295 :: u32) \<and>
    0 < length str \<and> length str \<le> 10 \<and> (hd str = 48 \<longrightarrow> (4294967295 :: u32) = 0) \<and> (\<forall>i \<ge> 20. r' i = 0)"
  using u2s_numeral [of 16 4294967295 "\<lambda>_. 0"] by simp

section \<open>The screen\<close>

text \<open>
  A terminal: its lines of cells, a cell being a character with its colour, and the position of the
  cursor. A line feed on the last line drops the first one.
\<close>

record terminal =
  lines :: "(u8 \<times> u8) list list"
  col :: nat
  row :: nat

definition term_newline :: "u8 \<Rightarrow> terminal \<Rightarrow> terminal" where
  "term_newline color t =
     (if row t + 1 < 25 then t\<lparr>col := 0, row := row t + 1\<rparr>
      else t\<lparr>lines := tl (lines t) @ [replicate 80 (32, color)], col := 0\<rparr>)"

definition term_put :: "u8 \<Rightarrow> u8 \<Rightarrow> terminal \<Rightarrow> terminal" where
  "term_put color c t =
     (if c = 13 then t\<lparr>col := 0\<rparr>
      else if c = 10 then term_newline color t
      else if 32 \<le> c \<and> c < 127 then
        (let t = t\<lparr>lines := (lines t)[row t := (lines t ! row t)[col t := (c, color)]], col := col t + 1\<rparr>
         in if col t = 80 then term_newline color t else t)
      else t)"

definition cell :: "(int \<Rightarrow> u8) \<Rightarrow> nat \<Rightarrow> nat \<Rightarrow> u8 \<times> u8" where
  "cell v y x = (v (2 * (80 * int y + int x)), v (2 * (80 * int y + int x) + 1))"

definition lines_of :: "(int \<Rightarrow> u8) \<Rightarrow> (u8 \<times> u8) list list" where
  "lines_of v = map (\<lambda>y. map (cell v y) [0..<80]) [0..<25]"

definition terminal_of :: "klog_state \<Rightarrow> terminal" where
  "terminal_of s = \<lparr>lines = lines_of (videomem s), col = nat (xpos s), row = nat (ypos s)\<rparr>"

definition console_ok :: "klog_state \<Rightarrow> bool" where
  "console_ok s \<longleftrightarrow> 0 \<le> xpos s \<and> xpos s < 80 \<and> 0 \<le> ypos s \<and> ypos s < 25 \<and> 1 \<le> ncolor_stack s \<and> ncolor_stack s \<le> 32"

lemma lines_of_eqI:
  assumes "length L = 25" "\<And>y. y < 25 \<Longrightarrow> length (L ! y) = 80"
    "\<And>y x. y < 25 \<Longrightarrow> x < 80 \<Longrightarrow> cell v y x = L ! y ! x"
  shows "lines_of v = L"
proof (rule nth_equalityI)
  show "length (lines_of v) = length L" using assms(1) by (simp add: lines_of_def)
  fix y assume "y < length (lines_of v)"
  then have y: "y < 25" by (simp add: lines_of_def)
  show "lines_of v ! y = L ! y"
    by (rule nth_equalityI) (use y assms in \<open>auto simp: lines_of_def\<close>)
qed

lemma length_lines_of [simp]: "length (lines_of v) = 25"
  by (simp add: lines_of_def)

lemma length_line [simp]: "y < 25 \<Longrightarrow> length (lines_of v ! y) = 80"
  by (simp add: lines_of_def)

lemma nth_lines_of [simp]: "y < 25 \<Longrightarrow> x < 80 \<Longrightarrow> lines_of v ! y ! x = cell v y x"
  by (simp add: lines_of_def)

subsection \<open>Scrolling\<close>

lemma scroll_copy_value:
  "0 < c \<Longrightarrow> scroll_copy n c v i = (if 0 \<le> i \<and> i < int n then v (i + c) else v i)"
  by (induction n arbitrary: i) (auto simp: Let_def)

lemma blank_fold:
  "videomem (fold (\<lambda>k. put_cell (b + 2 * int k) 32) [0..<n] s) i =
     (if b \<le> i \<and> i < b + 2 * int n then (if even (i - b) then 32 else top_color s) else videomem s i) \<and>
   (\<exists>v. fold (\<lambda>k. put_cell (b + 2 * int k) 32) [0..<n] s = s\<lparr>videomem := v\<rparr>)"
proof (induction n)
  case 0
  have "\<exists>v. s = s\<lparr>videomem := v\<rparr>" by (rule exI [of _ "videomem s"]) simp
  then show ?case by auto
next
  case (Suc n)
  let ?s = "fold (\<lambda>k. put_cell (b + 2 * int k) 32) [0..<n] s"
  from Suc obtain v where v: "?s = s\<lparr>videomem := v\<rparr>" by blast
  have c: "top_color ?s = top_color s" by (simp add: v top_color_def)
  have "videomem (put_cell (b + 2 * int n) 32 ?s) i =
      (if i = b + 2 * int n then 32 else if i = b + 2 * int n + 1 then top_color s else videomem ?s i)"
    by (auto simp: put_cell_def c)
  also have "\<dots> = (if b \<le> i \<and> i < b + 2 * int (Suc n) then (if even (i - b) then 32 else top_color s) else videomem s i)"
    using Suc by auto
  finally have "videomem (put_cell (b + 2 * int n) 32 ?s) i =
      (if b \<le> i \<and> i < b + 2 * int (Suc n) then (if even (i - b) then 32 else top_color s) else videomem s i)" .
  moreover have "\<exists>v. put_cell (b + 2 * int n) 32 ?s = s\<lparr>videomem := v\<rparr>" by (auto simp: put_cell_def v)
  ultimately show ?case by simp
qed

lemma scroll_state: "\<exists>v. scroll s = s\<lparr>videomem := v, ypos := 24\<rparr>"
proof -
  obtain v where "fold (\<lambda>k. put_cell (3840 + 2 * int k) 32) [0..<80] (s\<lparr>videomem := scroll_copy 3840 160 (videomem s)\<rparr>) =
      s\<lparr>videomem := scroll_copy 3840 160 (videomem s)\<rparr>\<lparr>videomem := v\<rparr>"
    using blank_fold by blast
  then have "scroll s = s\<lparr>videomem := v, ypos := 24\<rparr>" by (simp add: scroll_def NCOL_def NROW_def Let_def)
  then show ?thesis by blast
qed

lemma scroll_memory:
  "videomem (scroll s) i =
     (if 0 \<le> i \<and> i < 3840 then videomem s (i + 160)
      else if 3840 \<le> i \<and> i < 4000 then (if even i then 32 else top_color s) else videomem s i)"
proof -
  have "videomem (scroll s) i =
      videomem (fold (\<lambda>k. put_cell (3840 + 2 * int k) 32) [0..<80] (s\<lparr>videomem := scroll_copy 3840 160 (videomem s)\<rparr>)) i"
    by (simp add: scroll_def NCOL_def NROW_def Let_def)
  also have "\<dots> = (if 3840 \<le> i \<and> i < 3840 + 2 * int 80 then (if even (i - 3840) then 32 else top_color s)
      else scroll_copy 3840 160 (videomem s) i)"
    using blank_fold [of 3840 80 "s\<lparr>videomem := scroll_copy 3840 160 (videomem s)\<rparr>" i] by (auto simp: top_color_def)
  also have "\<dots> = (if 0 \<le> i \<and> i < 3840 then videomem s (i + 160)
      else if 3840 \<le> i \<and> i < 4000 then (if even i then 32 else top_color s) else videomem s i)"
    by (auto simp: scroll_copy_value)
  finally show ?thesis .
qed

lemma scroll_lines:
  "lines_of (videomem (scroll s)) = tl (lines_of (videomem s)) @ [replicate 80 (32, top_color s)]"
proof (rule lines_of_eqI)
  fix y assume y: "y < (25 :: nat)"
  show "length ((tl (lines_of (videomem s)) @ [replicate 80 (32, top_color s)]) ! y) = 80"
    using y by (auto simp: nth_append nth_tl)
  fix x assume x: "x < (80 :: nat)"
  show "cell (videomem (scroll s)) y x = (tl (lines_of (videomem s)) @ [replicate 80 (32, top_color s)]) ! y ! x"
  proof (cases "y < 24")
    case True
    then show ?thesis using x by (auto simp: nth_append nth_tl cell_def scroll_memory algebra_simps)
  next
    case False
    then have "y = 24" using y by simp
    then show ?thesis using x by (auto simp: nth_append cell_def scroll_memory algebra_simps)
  qed
qed simp

subsection \<open>One character\<close>

lemma isprint_byte: "isprint (sint (c :: u8)) \<longleftrightarrow> 32 \<le> c \<and> c < 127"
proof (cases "bit c 7")
  case True
  have "sint c < 0" using True by (simp add: sint_uint signed_take_bit_negative_iff bit_simps)
  moreover have "\<not> c < 127"
  proof
    assume "c < 127"
    then have "uint c < 2 ^ 7" by (simp add: word_less_def)
    then have "\<not> bit (uint c) 7" by (simp add: bit_iff_odd)
    then show False using True by (simp add: bit_uint_iff)
  qed
  ultimately show ?thesis by (simp add: isprint_def)
next
  case False
  then have e: "even (uint c div 128)" using bit_uint_iff [of c 7] by (simp add: bit_iff_odd [of "uint c"])
  have "uint c < 128"
  proof (rule ccontr)
    assume "\<not> uint c < 128"
    then have "uint c div 128 = 1" using uint_lt2p [of c] by (intro int_div_pos_eq [of _ _ _ "uint c - 128"]) auto
    then show False using e by simp
  qed
  then have "take_bit 7 (uint c) = uint c" by (simp add: take_bit_int_eq_self_iff)
  then have "sint c = uint c" using False
    by (simp add: sint_uint signed_take_bit_eq_if_positive bit_uint_iff)
  then show ?thesis by (auto simp: isprint_def word_le_def word_less_def)
qed

lemma newline_refines:
  assumes "console_ok s'" "s = s'\<lparr>xpos := x\<rparr>"
  defines "n \<equiv> s\<lparr>xpos := 0, ypos := ypos s + 1\<rparr>"
  defines "r \<equiv> (if ypos n = NROW then scroll n else n)"
  shows "console_ok r" "terminal_of r = term_newline (top_color s) (terminal_of s)"
    "r\<lparr>videomem := v', xpos := x', ypos := y'\<rparr> = s\<lparr>videomem := v', xpos := x', ypos := y'\<rparr>"
    "i < 0 \<or> 4000 \<le> i \<Longrightarrow> videomem r i = videomem s i"
proof -
  have y: "0 \<le> ypos s" "ypos s < 25" "1 \<le> ncolor_stack s" "ncolor_stack s \<le> 32" using assms(1,2) by (simp_all add: console_ok_def)
  obtain v where v: "scroll n = n\<lparr>videomem := v, ypos := 24\<rparr>" using scroll_state by blast
  have c: "top_color n = top_color s" "videomem n = videomem s" by (simp_all add: n_def top_color_def)
  show "console_ok r" using y by (auto simp: r_def console_ok_def NROW_def v) (simp_all add: n_def)
  show "r\<lparr>videomem := v', xpos := x', ypos := y'\<rparr> = s\<lparr>videomem := v', xpos := x', ypos := y'\<rparr>"
    by (simp add: r_def v) (simp add: n_def)
  show "videomem r i = videomem s i" if "i < 0 \<or> 4000 \<le> i"
    using that by (auto simp: r_def scroll_memory c)
  show "terminal_of r = term_newline (top_color s) (terminal_of s)"
  proof (cases "ypos n = NROW")
    case True
    then have "ypos s = 24" by (simp add: n_def NROW_def)
    moreover have "terminal_of r = \<lparr>lines = lines_of (videomem (scroll n)), col = 0, row = 24\<rparr>"
      using True by (simp add: r_def terminal_of_def v) (simp add: n_def)
    ultimately show ?thesis by (simp add: scroll_lines c term_newline_def terminal_of_def)
  next
    case False
    then have "ypos s \<noteq> 24" by (simp add: n_def NROW_def)
    then show ?thesis using False y by (auto simp: r_def n_def terminal_of_def term_newline_def nat_add_distrib)
  qed
qed

lemma lines_of_put:
  assumes "x < 80" "y < 25"
  shows "lines_of (v(2 * (80 * int y + int x) := a, 2 * (80 * int y + int x) + 1 := b)) =
    (lines_of v)[y := (lines_of v ! y)[x := (a, b)]]"
proof (rule lines_of_eqI)
  let ?v = "v(2 * (80 * int y + int x) := a, 2 * (80 * int y + int x) + 1 := b)"
  fix y' assume y': "y' < (25 :: nat)"
  show "length ((lines_of v)[y := (lines_of v ! y)[x := (a, b)]] ! y') = 80"
    using y' assms by (auto simp: nth_list_update)
  fix x' assume x': "x' < (80 :: nat)"
  show "cell ?v y' x' = (lines_of v)[y := (lines_of v ! y)[x := (a, b)]] ! y' ! x'"
  proof (cases "y' = y \<and> x' = x")
    case True
    then show ?thesis using assms by (simp add: cell_def)
  next
    case False
    have ne: "80 * int y' + int x' \<noteq> 80 * int y + int x"
    proof
      assume "80 * int y' + int x' = 80 * int y + int x"
      then have "80 * y' + x' = 80 * y + x" by linarith
      then have "(80 * y' + x') div 80 = (80 * y + x) div 80 \<and> (80 * y' + x') mod 80 = (80 * y + x) mod 80" by simp
      then show False using False assms x' by simp
    qed
    then have "cell ?v y' x' = cell v y' x'" by (simp add: cell_def)
    then show ?thesis using False assms x' y' by (auto simp: nth_list_update)
  qed
qed simp

definition keeps_screen :: "klog_state \<Rightarrow> klog_state \<Rightarrow> bool" where
  "keeps_screen s s' \<longleftrightarrow> s'\<lparr>videomem := videomem s, xpos := xpos s, ypos := ypos s\<rparr> = s \<and>
     (\<forall>i. i < 0 \<or> 4000 \<le> i \<longrightarrow> videomem s' i = videomem s i)"

lemma putc_refines:
  assumes "console_ok s"
  shows "console_ok (putc c s) \<and> terminal_of (putc c s) = term_put (top_color s) c (terminal_of s) \<and> keeps_screen s (putc c s)"
proof -
  have ok: "0 \<le> xpos s" "xpos s < 80" "0 \<le> ypos s" "ypos s < 25" "1 \<le> ncolor_stack s" "ncolor_stack s \<le> 32"
    using assms by (simp_all add: console_ok_def)
  consider "c = 13" | "c = 10" | "32 \<le> c" "c < 127" | "c \<noteq> 13" "c \<noteq> 10" "\<not> (32 \<le> c \<and> c < 127)" by blast
  then show ?thesis
  proof cases
    case 1
    then show ?thesis using ok by (auto simp: putc_def keeps_screen_def terminal_of_def term_put_def console_ok_def isprint_byte)
  next
    case 2
    have "s = s\<lparr>xpos := xpos s\<rparr>" by simp
    note n = newline_refines [OF assms this]
    have "putc c s = (if ypos (s\<lparr>xpos := 0, ypos := ypos s + 1\<rparr>) = NROW then scroll (s\<lparr>xpos := 0, ypos := ypos s + 1\<rparr>)
      else s\<lparr>xpos := 0, ypos := ypos s + 1\<rparr>)" using 2 by (simp add: putc_def)
    moreover have "term_put (top_color s) c (terminal_of s) = term_newline (top_color s) (terminal_of s)"
      using 2 by (simp add: term_put_def)
    ultimately show ?thesis using n by (auto simp: keeps_screen_def)
  next
    case 3
    then have c: "c \<noteq> 13" "c \<noteq> 10" by auto
    obtain p where p: "(xpos s + ypos s * 80) * 2 = p" by blast
    let ?v = "(videomem s)(p := c, p + 1 := top_color s)"
    let ?t = "s\<lparr>videomem := ?v\<rparr>"
    let ?s = "?t\<lparr>xpos := xpos s + 1\<rparr>"
    let ?n = "?s\<lparr>xpos := 0, ypos := ypos ?s + 1\<rparr>"
    have range: "0 \<le> p" "p + 1 < 4000" using ok p by simp_all
    have keep: "keeps_screen s ?s" using range by (auto simp: keeps_screen_def)
    have ok': "console_ok ?t" using ok by (simp add: console_ok_def)
    have top: "top_color ?s = top_color s" by (simp add: top_color_def)
    have trm: "terminal_of ?s = (terminal_of s)\<lparr>lines := (lines_of (videomem s))[nat (ypos s) :=
        (lines_of (videomem s) ! nat (ypos s))[nat (xpos s) := (c, top_color s)]], col := nat (xpos s) + 1\<rparr>"
    proof -
      have "lines_of ?v = (lines_of (videomem s))[nat (ypos s) := (lines_of (videomem s) ! nat (ypos s))[nat (xpos s) := (c, top_color s)]]"
        using lines_of_put [of "nat (xpos s)" "nat (ypos s)" "videomem s" c "top_color s"] ok p by (simp add: algebra_simps)
      moreover have "nat (xpos s + 1) = nat (xpos s) + 1" using ok by simp
      ultimately show ?thesis by (simp add: terminal_of_def)
    qed
    have t: "put_cell ((xpos s + ypos s * NCOL) * 2) c s = ?t" by (simp only: put_cell_def NCOL_def p)
    have put: "putc c s = (if xpos s + 1 = NCOL then (if ypos ?n = NROW then scroll ?n else ?n) else ?s)"
      unfolding putc_def Let_def t using 3 c by (simp add: isprint_byte)
    note n = newline_refines [OF ok' refl [of ?s], unfolded top]
    have "putc c s = (if ypos ?n = NROW then scroll ?n else ?n) \<and> xpos s = 79 \<or> putc c s = ?s \<and> xpos s < 79"
      unfolding put using ok by (auto simp: NCOL_def)
    moreover have tp: "term_put (top_color s) c (terminal_of s) =
        (if nat (xpos s) + 1 = 80 then term_newline (top_color s) (terminal_of ?s) else terminal_of ?s)"
      unfolding trm using 3 c by (simp add: term_put_def) (simp add: terminal_of_def)
    ultimately show ?thesis
    proof (elim disjE)
      assume a: "putc c s = (if ypos ?n = NROW then scroll ?n else ?n) \<and> xpos s = 79"
      have "term_put (top_color s) c (terminal_of s) = term_newline (top_color s) (terminal_of ?s)"
        using a tp by simp
      then show ?thesis using n a keep by (simp add: keeps_screen_def)
    next
      assume a: "putc c s = ?s \<and> xpos s < 79"
      then have "term_put (top_color s) c (terminal_of s) = terminal_of ?s"
        using tp ok by auto
      then show ?thesis using a keep ok by (simp add: console_ok_def)
    qed
  next
    case 4
    then show ?thesis using assms by (auto simp: putc_def keeps_screen_def term_put_def isprint_byte)
  qed
qed

text \<open>A colour and an attribute that a run of \<^verbatim>\<open>putc\<close> does not change.\<close>

lemma keeps_screen_refl: "keeps_screen s s"
  by (simp add: keeps_screen_def)

lemma keeps_screen_trans: "keeps_screen s t \<Longrightarrow> keeps_screen t u \<Longrightarrow> keeps_screen s u"
proof -
  assume a: "keeps_screen s t" "keeps_screen t u"
  have "u\<lparr>videomem := videomem s, xpos := xpos s, ypos := ypos s\<rparr> =
      (u\<lparr>videomem := videomem t, xpos := xpos t, ypos := ypos t\<rparr>)\<lparr>videomem := videomem s, xpos := xpos s, ypos := ypos s\<rparr>"
    by simp
  also have "\<dots> = s" using a by (simp add: keeps_screen_def)
  finally show "keeps_screen s u" using a by (simp add: keeps_screen_def)
qed

lemma keeps_screen_top: "keeps_screen s t \<Longrightarrow> top_color t = top_color s"
proof -
  assume "keeps_screen s t"
  then have "top_color (t\<lparr>videomem := videomem s, xpos := xpos s, ypos := ypos s\<rparr>) = top_color s"
    by (simp add: keeps_screen_def)
  then show ?thesis by (simp add: top_color_def)
qed

lemma fold_putc_refines:
  "console_ok s \<Longrightarrow> console_ok (fold putc str s) \<and>
     terminal_of (fold putc str s) = fold (term_put (top_color s)) str (terminal_of s) \<and> keeps_screen s (fold putc str s)"
proof (induction str arbitrary: s)
  case Nil
  then show ?case by (simp add: keeps_screen_refl)
next
  case (Cons c str)
  note p = putc_refines [OF Cons.prems, of c]
  have "console_ok (putc c s)" using p by blast
  from Cons.IH [OF this] show ?case using p keeps_screen_top [of s "putc c s"] keeps_screen_trans by auto
qed

lemma cursor_bytes:
  "(word_of_int (drop_bit 8 (int n) AND 0xFF) :: u8) = of_nat (n div 256)"
  "(word_of_int (int n AND 0xFF) :: u8) = of_nat (n mod 256)"
proof -
  have "(word_of_int (x AND 0xFF) :: u8) = word_of_int x" for x
  proof -
    have "x AND 0xFF = take_bit 8 x" by (simp add: take_bit_eq_mask mask_eq_exp_minus_1)
    then show ?thesis by (simp add: word_of_int_eq_iff)
  qed
  moreover have "drop_bit 8 (int n) = int (n div 256)" by (simp add: drop_bit_eq_div zdiv_int)
  moreover have "(of_nat (n mod 256) :: u8) = of_nat n" by (simp add: word_of_nat_eq_iff take_bit_eq_mod)
  ultimately show "(word_of_int (drop_bit 8 (int n) AND 0xFF) :: u8) = of_nat (n div 256)"
    "(word_of_int (int n AND 0xFF) :: u8) = of_nat (n mod 256)" by simp_all
qed

text \<open>
  C13: Writing a string to the console writes it to the terminal of 25 lines of 80 cells that the
  video memory shows, in the colour on top of the stack: carriage return, line feed, wrapping at the last
  column, and scrolling by one line at the bottom. The cursor stays on the screen and its
  position is what the display controller is told, no byte outside the 4000 of the screen is written
  and no other part of the console's state changes.
\<close>

theorem puts_refines_terminal:
  assumes "console_ok s"
  shows "console_ok (puts str s) \<and> terminal_of (puts str s) = fold (term_put (top_color s)) str (terminal_of s) \<and>
    (\<forall>i. i < 0 \<or> 4000 \<le> i \<longrightarrow> videomem (puts str s) i = videomem s i) \<and>
    (let t = fold (term_put (top_color s)) str (terminal_of s); pos = 80 * row t + col t in
     puts str s = s\<lparr>videomem := videomem (puts str s), xpos := int (col t), ypos := int (row t),
       kio := outb 0x3D5 (of_nat (pos mod 256)) (outb 0x3D4 0x0F (outb 0x3D5 (of_nat (pos div 256)) (outb 0x3D4 0x0E (kio s))))\<rparr>)"
proof -
  let ?f = "fold putc str s"
  let ?t = "fold (term_put (top_color s)) str (terminal_of s)"
  note f = fold_putc_refines [OF assms, of str]
  have ok: "0 \<le> xpos ?f" "0 \<le> ypos ?f" "xpos ?f < 80" "ypos ?f < 25" using f by (auto simp: console_ok_def)
  have t: "terminal_of ?f = ?t" using f by blast
  have xy: "xpos ?f = int (col ?t)" "ypos ?f = int (row ?t)"
    using ok unfolding t [symmetric] by (simp_all add: terminal_of_def)
  have pos: "ypos ?f * NCOL + xpos ?f = int (80 * row ?t + col ?t)" by (simp add: xy NCOL_def)
  have kept: "?f\<lparr>videomem := videomem s, xpos := xpos s, ypos := ypos s\<rparr> = s" using f by (simp add: keeps_screen_def)
  have "?f = (?f\<lparr>videomem := videomem s, xpos := xpos s, ypos := ypos s\<rparr>)
      \<lparr>videomem := videomem ?f, xpos := xpos ?f, ypos := ypos ?f\<rparr>" by simp
  then have fs: "?f = s\<lparr>videomem := videomem ?f, xpos := int (col ?t), ypos := int (row ?t)\<rparr>" unfolding kept xy .
  have io: "kio ?f = kio s" by (subst fs) simp
  let ?io = "outb 0x3D5 (of_nat ((80 * row ?t + col ?t) mod 256)) (outb 0x3D4 0x0F
    (outb 0x3D5 (of_nat ((80 * row ?t + col ?t) div 256)) (outb 0x3D4 0x0E (kio s))))"
  have puts: "puts str s = ?f\<lparr>kio := ?io\<rparr>"
    by (simp only: puts_def move_cursor_def Let_def pos cursor_bytes io)
  have v: "videomem (puts str s) = videomem ?f" by (simp add: puts)
  have "puts str s = s\<lparr>videomem := videomem (puts str s), xpos := int (col ?t), ypos := int (row ?t), kio := ?io\<rparr>"
    unfolding v by (subst puts, subst fs) simp
  moreover have "console_ok (puts str s)" "terminal_of (puts str s) = ?t"
    using f by (simp_all add: puts console_ok_def terminal_of_def)
  ultimately show ?thesis using f by (simp add: v keeps_screen_def Let_def)
qed

theorem puts_refines_terminal_witness:
  defines "s \<equiv> \<lparr>videomem = (\<lambda>_. 0), video_base = 0xB8000, video_monochrome = False, color_stack = (\<lambda>_. 7),
    ncolor_stack = 1, xpos = 79, ypos = 24, buf_mem = (\<lambda>_. 0), u2s_ret = (\<lambda>_. 0),
    kio = \<lparr>io_log = [], device = (\<lambda>_ _. 0)\<rparr>\<rparr>"
  shows "console_ok (puts [65, 66] s) \<and> xpos (puts [65, 66] s) = 1 \<and> ypos (puts [65, 66] s) = 24 \<and>
    lines (terminal_of (puts [65, 66] s)) ! 23 ! 79 = (65, 7) \<and> lines (terminal_of (puts [65, 66] s)) ! 24 ! 0 = (66, 7)"
proof -
  have ok: "console_ok s" by (simp add: s_def console_ok_def)
  have t: "fold (term_put (top_color s)) [65, 66] (terminal_of s) =
      \<lparr>lines = (tl ((lines_of (\<lambda>_. 0))[24 := (lines_of (\<lambda>_. 0) ! 24)[79 := (65, 7)]]) @ [replicate 80 (32, 7)])
         [24 := (replicate 80 (32, 7))[0 := (66, 7)]], col = 1, row = 24\<rparr>"
    by (simp add: s_def terminal_of_def top_color_def term_put_def term_newline_def nth_append)
  note p = puts_refines_terminal [OF ok, of "[65, 66]", unfolded t Let_def]
  note eq = p [THEN conjunct2, THEN conjunct2, THEN conjunct2]
  have "xpos (puts [65, 66] s) = 1" "ypos (puts [65, 66] s) = 24"
    using arg_cong [OF eq, of xpos] arg_cong [OF eq, of ypos] by simp_all
  with p [THEN conjunct1] p [THEN conjunct2, THEN conjunct1] show ?thesis by (simp add: nth_append nth_tl)
qed

section \<open>Formatted output\<close>

text \<open>
  The text a conversion stands for, and the text of a format with its arguments. Unknown letters, \<^verbatim>\<open>%f\<close>,
  missing arguments and a percent sign at the end have none.
\<close>

definition pointer_digit :: "nat \<Rightarrow> u8" where
  "pointer_digit d = (if d < 10 then 48 + of_nat d else 55 + of_nat d)"

definition pointer_text :: "u32 \<Rightarrow> u8 list" where
  "pointer_text v = cstr ''#0x'' @ map (\<lambda>k. pointer_digit (unat v div 16 ^ (7 - k) mod 16)) [0..<8]"

fun conversion_text :: "u8 \<Rightarrow> 'd arg list \<Rightarrow> (u8 list \<times> 'd arg list) option" where
  "conversion_text c args =
     (if c = 37 then Some ([37], args)
      else case args of
        A_str None # as \<Rightarrow> if c = 115 then Some (cstr ''(null)'', as) else None
      | A_str (Some str) # as \<Rightarrow> if c = 115 then Some (str, as) else None
      | A_word n # as \<Rightarrow>
          if c = 120 then Some (numeral_text n 16, as)
          else if c = 117 then Some (numeral_text n 10, as)
          else if c = 100 then Some (if sint n < 0 then 45 # numeral_text (- n) 10 else numeral_text n 10, as)
          else if c = 99 then Some (if (ucast n :: u8) = 0 then [] else [ucast n], as)
          else if c = 112 then Some (pointer_text n, as)
          else None
      | _ \<Rightarrow> None)"

fun format_text :: "u8 list \<Rightarrow> 'd arg list \<Rightarrow> u8 list option" where
  "format_text [] args = Some []"
| "format_text (c # fmt) args =
     (if c = 37 then
        (case fmt of
           [] \<Rightarrow> None
         | d # fmt' \<Rightarrow>
             (case conversion_text d args of
                None \<Rightarrow> None
              | Some (out, args') \<Rightarrow> map_option (\<lambda>rest. out @ rest) (format_text fmt' args')))
      else map_option (\<lambda>rest. c # rest) (format_text fmt args))"

declare conversion_text.simps [simp del]

lemma str_at_text:
  assumes "0 \<notin> set xs" "r = store_str 0 (xs @ [0]) r'"
  shows "str_at r 0 = ret xs"
  by (rule str_at_list) (use assms in \<open>auto simp: store_str_def nth_append\<close>)

lemma format_pointer_text: "str_at (format_pointer v r) 0 = ret (pointer_text v)"
proof (rule str_at_list)
  have hex: "(let x = drop_bit (4 * i) v AND 0xF; x = (if x < 10 then x + 48 else x + (65 - 10)) in ucast x :: u8) =
      pointer_digit (unat v div 16 ^ i mod 16)" for i
  proof -
    let ?x = "drop_bit (4 * i) v AND 0xF"
    have "unat ?x = unat v div 16 ^ i mod 16"
    proof -
      have "?x = take_bit 4 (drop_bit (4 * i) v)" by (simp add: take_bit_eq_mask mask_eq_exp_minus_1)
      moreover have "unat (take_bit 4 (drop_bit (4 * i) v)) = take_bit 4 (drop_bit (4 * i) (unat v))"
        by (simp only: unsigned_take_bit_eq unsigned_drop_bit_eq) (simp add: take_bit_nat_eq_self)
      ultimately show ?thesis by (simp add: take_bit_eq_mod drop_bit_eq_div power_mult)
    qed
    then obtain d where d: "d = unat v div 16 ^ i mod 16" "?x = of_nat d" by (metis of_nat_unat ucast_id)
    have "d < 16" by (simp add: d(1))
    then have "d = 0 \<or> d = 1 \<or> d = 2 \<or> d = 3 \<or> d = 4 \<or> d = 5 \<or> d = 6 \<or> d = 7 \<or> d = 8 \<or> d = 9 \<or> d = 10 \<or>
      d = 11 \<or> d = 12 \<or> d = 13 \<or> d = 14 \<or> d = 15" by arith
    then show ?thesis unfolding d(2) d(1) [symmetric] by (elim disjE) (simp_all add: pointer_digit_def)
  qed
  have fp: "format_pointer v r = (fold (\<lambda>i r. r(10 - i := pointer_digit (unat v div 16 ^ i mod 16))) (rev [0..<8])
      (store_str 0 (cstr ''#0x'' @ [0]) r))(11 := 0)"
    unfolding format_pointer_def Let_def hex [unfolded Let_def] ..
  have upt: "[0..<8] = [0, 1, 2, 3, 4, 5, 6, 7 :: nat]" by code_simp
  have "format_pointer v r j = pointer_text v ! j" if "j < 11" for j
  proof -
    have "j = 0 \<or> j = 1 \<or> j = 2 \<or> j = 3 \<or> j = 4 \<or> j = 5 \<or> j = 6 \<or> j = 7 \<or> j = 8 \<or> j = 9 \<or> j = 10" using that by arith
    then show ?thesis by (elim disjE) (simp_all add: fp upt pointer_text_def cstr_def store_str_def)
  qed
  then show "\<forall>j < length (pointer_text v). format_pointer v r (0 + j) = pointer_text v ! j"
    by (simp add: pointer_text_def cstr_def)
  show "format_pointer v r (0 + length (pointer_text v)) = 0" by (simp add: pointer_text_def cstr_def fp)
  have "0 \<noteq> pointer_digit (n mod 16)" for n
  proof -
    obtain d where d: "n mod 16 = d" "d < 16" by simp
    from d(2) have "d = 0 \<or> d = 1 \<or> d = 2 \<or> d = 3 \<or> d = 4 \<or> d = 5 \<or> d = 6 \<or> d = 7 \<or> d = 8 \<or> d = 9 \<or> d = 10 \<or>
      d = 11 \<or> d = 12 \<or> d = 13 \<or> d = 14 \<or> d = 15" by arith
    then show ?thesis unfolding d(1) by (elim disjE) (simp_all add: pointer_digit_def)
  qed
  then have "0 \<notin> {35, 48, 120} \<union> range (\<lambda>n. pointer_digit (n mod 16))" by auto
  moreover have "set (pointer_text v) \<subseteq> {35, 48, 120} \<union> range (\<lambda>n. pointer_digit (n mod 16))"
    unfolding pointer_text_def set_append set_map by (rule Un_mono) (auto simp: cstr_def)
  ultimately show "0 \<notin> set (pointer_text v)" by blast
qed

definition rebuffer :: "(nat \<Rightarrow> u8) \<Rightarrow> (nat \<Rightarrow> u8) \<Rightarrow> klog_state \<Rightarrow> klog_state" where
  "rebuffer b r s = s\<lparr>buf_mem := b, u2s_ret := r\<rparr>"

lemma put_cell_rebuffer: "put_cell p c (rebuffer b r s) = rebuffer b r (put_cell p c s)"
  by (cases s) (simp add: put_cell_def rebuffer_def top_color_def)

lemma fold_cell_rebuffer:
  "fold (\<lambda>k. put_cell (f k) c) ks (rebuffer b r s) = rebuffer b r (fold (\<lambda>k. put_cell (f k) c) ks s)"
  by (induction ks arbitrary: s) (simp_all add: put_cell_rebuffer)

lemma update_rebuffer:
  "(rebuffer b r s)\<lparr>xpos := x\<rparr> = rebuffer b r (s\<lparr>xpos := x\<rparr>)" "(rebuffer b r s)\<lparr>ypos := y\<rparr> = rebuffer b r (s\<lparr>ypos := y\<rparr>)"
  "(rebuffer b r s)\<lparr>videomem := v\<rparr> = rebuffer b r (s\<lparr>videomem := v\<rparr>)"
  "xpos (rebuffer b r s) = xpos s" "ypos (rebuffer b r s) = ypos s" "videomem (rebuffer b r s) = videomem s"
  "kio (rebuffer b r s) = kio s" "(rebuffer b r s)\<lparr>kio := d\<rparr> = rebuffer b r (s\<lparr>kio := d\<rparr>)"
  by (cases s, simp add: rebuffer_def)+

lemma scroll_rebuffer: "scroll (rebuffer b r s) = rebuffer b r (scroll s)"
  by (simp add: scroll_def Let_def update_rebuffer fold_cell_rebuffer)

lemma putc_rebuffer: "putc c (rebuffer b r s) = rebuffer b r (putc c s)"
  by (simp add: putc_def Let_def update_rebuffer put_cell_rebuffer scroll_rebuffer)

lemma fold_putc_rebuffer: "fold putc str (rebuffer b r s) = rebuffer b r (fold putc str s)"
  by (induction str arbitrary: s) (simp_all add: putc_rebuffer)

lemma rebuffer_self: "rebuffer (buf_mem s) (u2s_ret s) s = s"
  by (simp add: rebuffer_def)

lemma rebuffer_rebuffer [simp]: "rebuffer b r (rebuffer b' r' s) = rebuffer b r s"
  by (simp add: rebuffer_def)

lemma rebuffer_fields [simp]: "buf_mem (rebuffer b r s) = b" "u2s_ret (rebuffer b r s) = r"
  by (simp_all add: rebuffer_def)

text \<open>One conversion leaves its text where \<^verbatim>\<open>buf\<close> points, having printed at most a sign.\<close>

definition after_buf :: "bufptr \<Rightarrow> nat \<Rightarrow> bufptr" where
  "after_buf buf n = (case buf of P_mem i \<Rightarrow> P_mem (i + n) | P_ret i \<Rightarrow> P_ret (i + n) | P_str _ \<Rightarrow> P_str [])"

lemma put_buf_mem:
  "str_at b 0 = ret out \<Longrightarrow> put_buf (Some (P_mem 0)) (rebuffer b r s) = ret (Some (after_buf (P_mem 0) (length out)), fold putc out (rebuffer b r s))"
  by (simp add: put_buf_def after_buf_def)

lemma put_buf_ret:
  "str_at r 0 = ret out \<Longrightarrow> put_buf (Some (P_ret 0)) (rebuffer b r s) = ret (Some (after_buf (P_ret 0) (length out)), fold putc out (rebuffer b r s))"
  by (simp add: put_buf_def after_buf_def)

lemma convert_text:
  assumes "conversion_text c args = Some (out, args')"
  shows "\<exists>buf' b r pre out'. convert fp c args buf s = ret (args', Some buf', rebuffer b r (fold putc pre s)) \<and> out = pre @ out' \<and>
    (\<forall>s'. put_buf (Some buf') (rebuffer b r s') = ret (Some (after_buf buf' (length out')), fold putc out' (rebuffer b r s')))"
proof -
  note conv = assms [unfolded conversion_text.simps]
  have num: "?thesis" if "args = A_word n # args'" "out = pre @ numeral_text m base" "base = 10 \<or> base = 16"
    "convert fp c args buf s = andThen (u2s m base (u2s_ret (fold putc pre s))) (\<lambda>r. ret (args', Some (P_ret 0), (fold putc pre s)\<lparr>u2s_ret := r\<rparr>))"
    for n m base pre
  proof -
    have "2 \<le> unat base" "unat base \<le> 16" using that(3) by auto
    from u2s_text [OF this, of m "u2s_ret (fold putc pre s)"] obtain r where r: "u2s m base (u2s_ret (fold putc pre s)) = ret r" "str_at r 0 = ret (numeral_text m base)"
      by blast
    have "convert fp c args buf s = ret (args', Some (P_ret 0), rebuffer (buf_mem (fold putc pre s)) r (fold putc pre s))"
      using that(4) r(1) by (simp add: rebuffer_def)
    with put_buf_ret [OF r(2)] that(2) show ?thesis by blast
  qed
  have mem: "?thesis" if "convert fp c args buf s = ret (args', Some (P_mem 0), s\<lparr>buf_mem := b\<rparr>)" "str_at b 0 = ret out" for b
  proof -
    have "convert fp c args buf s = ret (args', Some (P_mem 0), rebuffer b (u2s_ret s) (fold putc [] s))"
      using that(1) by (simp add: rebuffer_def)
    with put_buf_mem [OF that(2)] show ?thesis by (metis append_Nil)
  qed
  consider "c = 37" | "c = 115" "\<exists>x. args = A_str x # args'" | "\<exists>n. args = A_word n # args'" "c = 120 \<or> c = 117 \<or> c = 100 \<or> c = 99 \<or> c = 112"
    using conv by (auto split: list.splits arg.splits option.splits if_splits)
  then show ?thesis
  proof cases
    case 1
    then show ?thesis using conv
      by (intro mem [of "store_str 0 (cstr ''%'' @ [0]) (buf_mem s)"] str_at_text) (auto simp: convert_def cstr_def)
  next
    case 2
    then obtain x where x: "args = A_str x # args'" by blast
    show ?thesis
    proof (cases x)
      case None
      then show ?thesis using 2 x conv
        by (intro mem [of "store_str 0 (cstr ''(null)'' @ [0]) (buf_mem s)"] str_at_text) (auto simp: convert_def cstr_def)
    next
      case (Some str)
      then have "convert fp c args buf s = ret (args', Some (P_str str), rebuffer (buf_mem s) (u2s_ret s) (fold putc [] s)) \<and> out = [] @ str"
        using 2 x conv by (simp add: convert_def rebuffer_self)
      moreover have "put_buf (Some (P_str str)) t = ret (Some (after_buf (P_str str) (length str)), fold putc str t)" for t
        by (simp add: put_buf_def after_buf_def)
      ultimately show ?thesis by blast
    qed
  next
    case 3
    then obtain n where n: "args = A_word n # args'" by blast
    from 3(2) show ?thesis
    proof (elim disjE)
      assume "c = 120"
      then show ?thesis using n conv by (intro num [of n "[]" n 16]) (auto simp: convert_def)
    next
      assume "c = 117"
      then show ?thesis using n conv by (intro num [of n "[]" n 10]) (auto simp: convert_def)
    next
      assume c: "c = 100"
      show ?thesis
      proof (cases "sint n < 0")
        case True
        then show ?thesis using n conv c by (intro num [of n "[45]" "- n" 10]) (auto simp: convert_def)
      next
        case False
        then show ?thesis using n conv c by (intro num [of n "[]" n 10]) (auto simp: convert_def)
      qed
    next
      assume c: "c = 99"
      have "str_at ((buf_mem s)(0 := ucast n, 1 := 0)) 0 = ret (if (ucast n :: u8) = 0 then [] else [ucast n])"
        by (rule str_at_list) auto
      then show ?thesis using n conv c by (intro mem [of "(buf_mem s)(0 := ucast n, 1 := 0)"]) (auto simp: convert_def)
    next
      assume c: "c = 112"
      then show ?thesis using n conv format_pointer_text [of n "buf_mem s"]
        by (intro mem [of "format_pointer n (buf_mem s)"]) (auto simp: convert_def)
    qed
  qed
qed

lemma vprintf_loop_text:
  "format_text fmt args = Some out \<Longrightarrow>
    \<exists>b r. vprintf_loop fp fmt args buf s = ret (rebuffer b r (fold putc out s))"
proof (induction fmt args arbitrary: out buf s rule: format_text.induct)
  case (1 args)
  then show ?case using rebuffer_self [of s] by (metis fold_simps(1) format_text.simps(1) option.inject vprintf_loop.simps(1))
next
  case (2 c fmt args)
  show ?case
  proof (cases "c = 37")
    case True
    then obtain d fmt' out1 args' rest where d: "fmt = d # fmt'" "conversion_text d args = Some (out1, args')"
        "format_text fmt' args' = Some rest" "out = out1 @ rest"
      using 2(3) by (auto split: list.splits option.splits)
    from convert_text [OF d(2), of fp buf s] obtain buf' b r pre out' where c:
      "convert fp d args buf s = ret (args', Some buf', rebuffer b r (fold putc pre s))" "out1 = pre @ out'"
      "\<And>s'. put_buf (Some buf') (rebuffer b r s') = ret (Some (after_buf buf' (length out')), fold putc out' (rebuffer b r s'))"
      by blast
    from 2(1) [OF True d(1,2) refl d(3)] obtain b' r' where
      "vprintf_loop fp fmt' args' (Some (after_buf buf' (length out'))) (fold putc out' (rebuffer b r (fold putc pre s))) =
       ret (rebuffer b' r' (fold putc rest (fold putc out' (rebuffer b r (fold putc pre s)))))" by blast
    then have "vprintf_loop fp (c # fmt) args buf s = ret (rebuffer b' r' (fold putc out s))"
      using True c d(1,4) by (simp add: fold_putc_rebuffer)
    then show ?thesis by blast
  next
    case False
    then obtain rest where "format_text fmt args = Some rest" "out = c # rest" using 2(3) by auto
    with 2(2) [OF False this(1), of buf "putc c s"] False show ?thesis by auto
  qed
qed

lemma log_returns:
  assumes "format_text fmt args = Some out"
  shows "\<exists>k. log fp level fmt args s = ret k"
proof -
  let ?s = "pop_color (puts (cstr (LEVEL_STR level)) (push_color LIGHT_BLUE BLACK s))"
  from vprintf_loop_text [OF assms, of fp None ?s] show ?thesis
    by (auto simp: log_def vprintf_def Let_def)
qed

text \<open>
  C27: Formatted output prints the text that its format and arguments describe: string, decimal,
  unsigned, hexadecimal, character, pointer and percent conversions, and the null string; beyond the
  two internal buffers the console ends exactly as after writing that text.
\<close>

theorem vprintf_prints:
  assumes "format_text fmt args = Some out"
  shows "\<exists>b r. vprintf fp fmt args s = ret ((puts out s)\<lparr>buf_mem := b, u2s_ret := r\<rparr>)"
proof -
  from vprintf_loop_text [OF assms, of fp None s] obtain b r where
    "vprintf_loop fp fmt args None s = ret (rebuffer b r (fold putc out s))" by blast
  then have "vprintf fp fmt args s = ret (rebuffer b r (puts out s))"
    by (simp add: vprintf_def puts_def move_cursor_def Let_def update_rebuffer)
  then show ?thesis by (auto simp: rebuffer_def)
qed

theorem vprintf_prints_witness:
  "\<forall>fp s. \<exists>b r. vprintf fp (cstr ''pid %d at %p'') [A_word (- 12), A_word 0xC0DE :: nat arg] s =
     ret ((puts (cstr ''pid -12 at #0x0000C0DE'') s)\<lparr>buf_mem := b, u2s_ret := r\<rparr>)"
proof -
  have "[0..<8] = [0, 1, 2, 3, 4, 5, 6, 7 :: nat]" by code_simp
  then have "format_text (cstr ''pid %d at %p'') [A_word (- 12), A_word 0xC0DE :: nat arg] = Some (cstr ''pid -12 at #0x0000C0DE'')"
    by (simp add: conversion_text.simps cstr_def numeral_text_def digits_step digit_char_def pointer_text_def pointer_digit_def)
  then show ?thesis by (intro allI) (rule vprintf_prints)
qed

end
