(* ===== verification/Klog_Types.thy ===== *)
theory Klog_Types
  imports Complex_Main Klog_Thms
begin

text \<open>
  The types of a format: \<^verbatim>\<open>klog.h\<close> declares \<^verbatim>\<open>printf\<close> and \<^verbatim>\<open>log\<close> with the attribute \<^verbatim>\<open>format(printf, ...)\<close>, by which
  the compiler compares the arguments of a call with the letters of its format. What that check accepts cannot get stuck.
\<close>

datatype arg_type = T_str | T_word | T_double

fun arg_type_of :: "'d arg \<Rightarrow> arg_type" where
  "arg_type_of (A_str _) = T_str"
| "arg_type_of (A_word _) = T_word"
| "arg_type_of (A_double _) = T_double"

text \<open>The letters the comment of \<^verbatim>\<open>printf\<close> lists: s, x, d, u, c, f, p, and the percent sign, which takes no argument.\<close>

definition letter_type :: "u8 \<Rightarrow> arg_type option" where
  "letter_type c =
     (if c = 115 then Some T_str else if c \<in> {120, 100, 117, 99, 112} then Some T_word else if c = 102 then Some T_double else None)"

fun format_types :: "u8 list \<Rightarrow> arg_type list option" where
  "format_types [] = Some []"
| "format_types (c # fmt) =
     (if c = 37 then
        (case fmt of
           [] \<Rightarrow> None
         | d # fmt' \<Rightarrow>
             if d = 37 then format_types fmt'
             else case letter_type d of None \<Rightarrow> None | Some t \<Rightarrow> map_option ((#) t) (format_types fmt'))
      else format_types fmt)"

text \<open>
  What the formatting relies on of IEEE 754 arithmetic, the floating-point unit being an argument of the model. \<open>v\<close> is the
  number a double stands for, if it is finite: finite doubles compare as their numbers, negation is exact, small integers are represented,
  and a division that cannot overflow is rounded to a neighbour, with a relative error of at most \<open>2\<close> to the power \<open>-53\<close> or, near zero,
  an absolute one of at most \<open>2\<close> to the power \<open>-1074\<close>.
\<close>

definition ieee_double :: "'d fpu \<Rightarrow> ('d \<Rightarrow> real option) \<Rightarrow> bool" where
  "ieee_double fp v \<longleftrightarrow>
     (\<forall>x y a b. v x = Some a \<and> v y = Some b \<longrightarrow> f_less fp x y = (a < b) \<and> f_ge fp x y = (b \<le> a)) \<and>
     (\<forall>x a. v x = Some a \<longrightarrow> v (f_neg fp x) = Some (- a)) \<and>
     (\<forall>i. \<bar>i\<bar> \<le> 2 ^ 53 \<longrightarrow> v (f_of_int fp i) = Some (of_int i)) \<and>
     (\<forall>x y a b. v x = Some a \<and> v y = Some b \<and> 1 \<le> \<bar>b\<bar> \<longrightarrow>
        (\<exists>c. v (f_div fp x y) = Some c \<and> \<bar>c - a / b\<bar> \<le> \<bar>a / b\<bar> / 2 ^ 53 + 1 / 2 ^ 1074))"

lemma ieee_const: "ieee_double fp v \<Longrightarrow> v (f_of_int fp 0) = Some 0" "ieee_double fp v \<Longrightarrow> v (f_of_int fp 1) = Some 1"
  "ieee_double fp v \<Longrightarrow> v (f_of_int fp 10) = Some 10"
proof -
  assume "ieee_double fp v"
  then have "\<forall>i. \<bar>i\<bar> \<le> 2 ^ 53 \<longrightarrow> v (f_of_int fp i) = Some (of_int i)" unfolding ieee_double_def by blast
  from this [rule_format, of 0] this [rule_format, of 1] this [rule_format, of 10]
  show "v (f_of_int fp 0) = Some 0" "v (f_of_int fp 1) = Some 1" "v (f_of_int fp 10) = Some 10" by simp_all
qed

lemma ieee_compare:
  assumes "ieee_double fp v" "v x = Some a"
  shows "f_less fp x (f_of_int fp 0) = (a < 0)" "f_less fp x (f_of_int fp 1) = (a < 1)" "f_ge fp x (f_of_int fp 1) = (1 \<le> a)"
    "v (f_neg fp x) = Some (- a)"
  using assms ieee_const [OF assms(1)] unfolding ieee_double_def by blast+

lemma ieee_div:
  assumes "ieee_double fp v" "v x = Some a" "v y = Some b" "1 \<le> \<bar>b\<bar>"
  shows "\<exists>c. v (f_div fp x y) = Some c \<and> \<bar>c - a / b\<bar> \<le> \<bar>a / b\<bar> / 2 ^ 53 + 1 / 2 ^ 1074"
  using assms unfolding ieee_double_def by blast

text \<open>One step of the digit loop divides by ten, nearly.\<close>

lemma ieee_div_ten:
  assumes "ieee_double fp v" "v x = Some a" "1 \<le> a"
  shows "\<exists>c. v (f_div fp x (f_of_int fp 10)) = Some c \<and> a / 11 \<le> c \<and> c \<le> a * (101 / 1000)"
proof -
  have "v (f_of_int fp 10) = Some 10" using assms(1) by (rule ieee_const)
  from ieee_div [OF assms(1,2) this] obtain c where c: "v (f_div fp x (f_of_int fp 10)) = Some c" "\<bar>c - a / 10\<bar> \<le> \<bar>a / 10\<bar> / 2 ^ 53 + 1 / 2 ^ 1074" by auto
  have "(2 :: real) ^ 20 \<le> 2 ^ 53" "(2 :: real) ^ 20 \<le> 2 ^ 1074" by (rule power_increasing; simp)+
  then have "a / 10 / 2 ^ 53 \<le> a / 10 / 2 ^ 20" "1 / (2 :: real) ^ 1074 \<le> 1 / 2 ^ 20"
    using assms(3) by (intro divide_left_mono; simp)+
  moreover have "1 / (2 :: real) ^ 20 \<le> a / 2 ^ 20" using assms(3) by (intro divide_right_mono) simp_all
  ultimately have "\<bar>c - a / 10\<bar> \<le> a / 10 / 2 ^ 20 + a / 2 ^ 20" using c(2) assms(3) by simp
  then have "\<bar>c - a / 10\<bar> \<le> a / 1000" using assms(3) by simp
  then have "c - a / 10 \<le> a / 1000" "a / 10 - c \<le> a / 1000" by linarith+
  then have "a / 11 \<le> c" "c \<le> a * (101 / 1000)" using assms(3) by linarith+
  with c(1) show ?thesis by blast
qed

lemma float_int_loop_returns:
  "ieee_double fp v \<Longrightarrow> v f = Some a \<Longrightarrow> a * (101 / 1000) ^ k < 1 \<Longrightarrow> n + k \<le> BUF_MEM_SIZE \<Longrightarrow>
    \<exists>n' r'. float_int_loop fp f n r = ret (n', r') \<and> n' \<le> n + k"
proof (induction k arbitrary: f a n r)
  case 0
  then show ?case using ieee_compare(3) [OF 0(1,2)] by (subst float_int_loop.simps) simp
next
  case (Suc k)
  show ?case
  proof (cases "1 \<le> a")
    case False
    then show ?thesis using ieee_compare(3) [OF Suc.prems(1,2)] by (subst float_int_loop.simps) simp
  next
    case True
    from ieee_div_ten [OF Suc.prems(1,2) True] obtain c where c: "v (f_div fp f (f_of_int fp 10)) = Some c" "c \<le> a * (101 / 1000)" by blast
    have "c * (101 / 1000) ^ k \<le> a * (101 / 1000) * (101 / 1000) ^ k" using c(2) by (intro mult_right_mono) simp_all
    also have "\<dots> = a * (101 / 1000) ^ Suc k" by (simp only: power_Suc mult.assoc)
    also note Suc.prems(3)
    finally have "c * (101 / 1000) ^ k < 1" .
    from Suc.IH [OF Suc.prems(1) c(1) this, of "n + 1"] Suc.prems(4) ieee_compare(3) [OF Suc.prems(1,2)] True
    show ?thesis by (subst float_int_loop.simps) (simp add: Let_def)
  qed
qed

text \<open>Too large a number leaves the buffer.\<close>

lemma float_int_loop_overflow:
  "ieee_double fp v \<Longrightarrow> v f = Some a \<Longrightarrow> 11 ^ k \<le> a \<Longrightarrow> BUF_MEM_SIZE \<le> n + k \<Longrightarrow> float_int_loop fp f n r = None"
proof (induction k arbitrary: f a n r)
  case 0
  then show ?case using ieee_compare(3) [OF 0(1,2)] by (subst float_int_loop.simps) (simp add: Let_def)
next
  case (Suc k)
  have "(1 :: real) \<le> 11 ^ Suc k" by (rule one_le_power) simp
  then have a: "1 \<le> a" using Suc.prems(3) by simp
  from ieee_div_ten [OF Suc.prems(1,2) a] obtain c where c: "v (f_div fp f (f_of_int fp 10)) = Some c" "a / 11 \<le> c" by blast
  then have "11 ^ k \<le> c" using Suc.prems(3) by simp
  from Suc.IH [OF Suc.prems(1) c(1) this, of "n + 1"] Suc.prems(4) ieee_compare(3) [OF Suc.prems(1,2)] a
  show ?case by (subst float_int_loop.simps) (simp add: Let_def)
qed

text \<open>A buffer that holds a zero holds a string.\<close>

lemma str_at_zero: "r (i + n) = 0 \<Longrightarrow> \<exists>str. str_at r i = ret str"
proof (induction n arbitrary: i)
  case 0
  then show ?case by (subst str_at.simps) simp
next
  case (Suc n)
  from Suc.IH [of "Suc i"] Suc.prems show ?case by (subst str_at.simps) auto
qed

lemma float_frac_loop_returns:
  "n + k \<le> BUF_MEM_SIZE \<Longrightarrow> \<exists>r'. float_frac_loop k fp f n r = ret (n + k, r')"
proof (induction k arbitrary: f n r)
  case (Suc k)
  then show ?case using Suc.IH [of "n + 1"] by (simp add: buf_store_def)
qed simp

text \<open>The doubles whose digits fit: numbers below \<open>10\<close> to the power \<open>120\<close>.\<close>

definition printable :: "('d \<Rightarrow> real option) \<Rightarrow> 'd \<Rightarrow> bool" where
  "printable v f \<longleftrightarrow> (\<exists>a. v f = Some a \<and> \<bar>a\<bar> < 10 ^ 120)"

lemma format_float_returns:
  assumes "ieee_double fp v" "v f = Some a" "a < 10 ^ 120"
  shows "\<exists>r' str. format_float fp f r = ret r' \<and> str_at r' 0 = ret str"
proof -
  have "(101 :: real) ^ 121 < 10 ^ 243" by simp
  have below: "x * (y / (x * z)) < 1" if "0 < x" "0 < z" "y < z" for x y z :: real using that by simp
  have "(1000 :: real) ^ 121 = (10 ^ 3) ^ 121" by (rule arg_cong [where f = "\<lambda>x. x ^ 121"]) simp
  then have "(1000 :: real) ^ 121 = 10 ^ 120 * 10 ^ 243" unfolding power_mult [symmetric] power_add [symmetric] by (simp only: arith_simps)
  then have k: "(10 :: real) ^ 120 * (101 / 1000) ^ 121 < 1" unfolding power_divide
    using below [of "10 ^ 120" "10 ^ 243" "101 ^ 121"] \<open>101 ^ 121 < 10 ^ 243\<close> zero_less_power [of "10 :: real"] by (simp only: simp_thms zero_less_numeral)
  have "a * (101 / 1000) ^ 121 \<le> 10 ^ 120 * (101 / 1000) ^ 121" using assms(3) by (intro mult_right_mono) simp_all
  then have "a * (101 / 1000) ^ 121 < 1" using k by (rule le_less_trans)
  from float_int_loop_returns [OF assms(1,2) this, of 0 r]
  obtain n r1 where n: "(if f_less fp f (f_of_int fp 1) then ret (1, r(0 := 48)) else float_int_loop fp f 0 r) = ret (n, r1)" "n \<le> 121"
    by (cases "f_less fp f (f_of_int fp 1)") (auto simp: BUF_MEM_SIZE_def)
  have "n + 1 + FLOAT_PRECESION \<le> BUF_MEM_SIZE" using n(2) by (simp add: BUF_MEM_SIZE_def FLOAT_PRECESION_def)
  from float_frac_loop_returns [OF this, of fp f "(swap_loop (n div 2) n r1)(n := 46)"] obtain r2 where
    r2: "float_frac_loop FLOAT_PRECESION fp f (n + 1) ((swap_loop (n div 2) n r1)(n := 46)) = ret (n + 1 + FLOAT_PRECESION, r2)" by blast
  have "\<exists>str. str_at (r2(n + 1 + FLOAT_PRECESION := 0)) 0 = ret str" by (rule str_at_zero [of _ _ "n + 1 + FLOAT_PRECESION"]) simp
  then show ?thesis using n r2 by (simp add: format_float_def buf_store_def BUF_MEM_SIZE_def FLOAT_PRECESION_def)
qed

text \<open>
  The buffer is written past its end for large doubles: from \<open>11\<close> to the power \<open>128\<close> on, about \<open>2 * 10\<close> to the power \<open>133\<close>, for certain.
\<close>

lemma format_float_overflow:
  assumes "ieee_double fp v" "v f = Some a" "11 ^ 128 \<le> a"
  shows "format_float fp f r = None"
proof -
  have "(1 :: real) \<le> 11 ^ 128" by (rule one_le_power) simp
  then have "\<not> a < 1" using assms(3) by linarith
  then show ?thesis using float_int_loop_overflow [OF assms, of 0 r] ieee_compare(2) [OF assms(1,2)]
    by (simp add: format_float_def BUF_MEM_SIZE_def)
qed

fun arg_ok :: "('d \<Rightarrow> real option) \<Rightarrow> 'd arg \<Rightarrow> bool" where
  "arg_ok v (A_double f) \<longleftrightarrow> printable v f"
| "arg_ok v _ \<longleftrightarrow> True"

text \<open>One conversion: with an argument of its type it takes that argument and leaves a string to print.\<close>

lemma convert_progress:
  assumes "letter_type d = Some (arg_type_of a)" "arg_ok v a" "ieee_double fp v"
  shows "\<exists>b b' s1 s2. convert fp d (a # as) buf s = ret (as, b, s1) \<and> put_buf b s1 = ret (b', s2)"
proof (cases a)
  case (A_double f)
  let ?neg = "f_less fp f (f_of_int fp 0)"
  let ?f = "if ?neg then f_neg fp f else f" and ?s = "if ?neg then putc 45 s else s"
  have d: "d = 102" using assms(1) A_double by (auto simp: letter_type_def split: if_splits)
  from assms(2) A_double obtain x where x: "v f = Some x" "\<bar>x\<bar> < 10 ^ 120" by (auto simp: printable_def)
  have "v ?f = Some \<bar>x\<bar>" using ieee_compare(1,4) [OF assms(3) x(1)] x(1) by simp
  from format_float_returns [OF assms(3) this x(2), of "buf_mem ?s"] obtain r str where
    "format_float fp ?f (buf_mem ?s) = ret r" "str_at r 0 = ret str" by blast
  then show ?thesis by (cases ?neg) (simp_all add: convert_def d A_double put_buf_def)
next
  case (A_str x)
  then have "d = 115" using assms(1) by (auto simp: letter_type_def split: if_splits)
  then have "\<exists>out. conversion_text d (a # as) = Some (out, as)" using A_str by (cases x) (simp_all add: conversion_text.simps)
  then show ?thesis using convert_text [where args = "a # as" and args' = as and c = d] by metis
next
  case (A_word n)
  then have "d \<in> {120, 100, 117, 99, 112}" using assms(1) by (auto simp: letter_type_def split: if_splits)
  then have "\<exists>out. conversion_text d (a # as) = Some (out, as)" using A_word by (auto simp: conversion_text.simps)
  then show ?thesis using convert_text [where args = "a # as" and args' = as and c = d] by metis
qed

lemma percent_progress: "\<exists>b b' s1 s2. convert fp 37 as buf s = ret (as, b, s1) \<and> put_buf b s1 = ret (b', s2)"
proof -
  have "conversion_text 37 as = Some ([37], as)" by (simp add: conversion_text.simps)
  from convert_text [OF this] show ?thesis by metis
qed

lemma vprintf_loop_progress:
  "format_types fmt = Some ts \<Longrightarrow> map arg_type_of args = ts @ us \<Longrightarrow> \<forall>a \<in> set args. arg_ok v a \<Longrightarrow> ieee_double fp v \<Longrightarrow>
    \<exists>s'. vprintf_loop fp fmt args buf s = ret s'"
proof (induction fmt arbitrary: ts args buf s rule: format_types.induct)
  case (2 c fmt)
  show ?case
  proof (cases "c = 37")
    case False
    then show ?thesis using 2(3) [OF False] 2(4-) by simp
  next
    case c: True
    then obtain d fmt' where d: "fmt = d # fmt'" using 2(4) by (cases fmt) auto
    show ?thesis
    proof (cases "d = 37")
      case True
      then obtain b b' s1 s2 where "convert fp d args buf s = ret (args, b, s1)" "put_buf b s1 = ret (b', s2)" using percent_progress by blast
      then show ?thesis using 2(1) [OF c d True, of ts args b' s2] 2(4-) c d True by simp
    next
      case False
      then obtain t ts' where t: "letter_type d = Some t" "format_types fmt' = Some ts'" "ts = t # ts'"
        using 2(4) c d by (auto split: option.splits)
      then obtain a as where a: "args = a # as" "t = arg_type_of a" "map arg_type_of as = ts' @ us" using 2(5) by auto
      then obtain b b' s1 s2 where "convert fp d args buf s = ret (as, b, s1)" "put_buf b s1 = ret (b', s2)"
        using convert_progress [of d a v fp as buf s] t(1) 2(6,7) by auto
      then show ?thesis using 2(2) [OF c d False t(1,2) a(3), of b' s2] 2(6,7) a(1) c d by simp
    qed
  qed
qed simp

text \<open>
  C36: Well-typed output does not get stuck: with IEEE 754 arithmetic, a call of \<^verbatim>\<open>printf\<close> whose arguments have the types its format
  names, in order, as the compiler checks, and whose doubles are finite and below \<open>10\<close> to the power \<open>120\<close> in magnitude, returns, whatever
  else is passed: it never reads a missing argument, a pointer that was not set or past the end of the format, the loop over the digits of
  a double ends, and no digit is written outside the 128 bytes of \<^verbatim>\<open>buf_mem\<close>.
\<close>

theorem printf_well_typed:
  assumes "format_types fmt = Some ts" "map arg_type_of args = ts @ us" "ieee_double fp v" "\<forall>a \<in> set args. arg_ok v a"
  shows "\<exists>s'. printf fp fmt args s = ret s'"
  using vprintf_loop_progress [OF assms(1,2,4,3), of None s] by (auto simp: printf_def vprintf_def)

text \<open>Exact arithmetic on the real numbers satisfies what is asked; it prints two and a half as \<^verbatim>\<open>2.5000\<close>.\<close>

definition real_fpu :: "real fpu" where
  "real_fpu = \<lparr>f_less = (<), f_ge = (\<ge>), f_neg = uminus, f_div = (/), f_mul = (*), f_sub = (-), f_of_int = of_int,
     f_to_int = (\<lambda>x. if 0 \<le> x then \<lfloor>x\<rfloor> else \<lceil>x\<rceil>)\<rparr>"

lemma real_fpu_ieee: "ieee_double real_fpu Some"
  by (auto simp: ieee_double_def real_fpu_def)

lemma printable_half: "printable Some (5 / 2 :: real)"
proof -
  have "\<bar>5 / 2 :: real\<bar> < 10 ^ 120" by simp
  then show ?thesis unfolding printable_def by blast
qed

lemma real_fpu_prints: "\<exists>r'. format_float real_fpu (5 / 2) r = ret r' \<and> str_at r' 0 = ret (cstr ''2.5000'')"
proof -
  have loop: "float_int_loop real_fpu (5 / 2) 0 r = ret (1, r(0 := 50))"
    by (simp add: float_int_loop.simps float_digit_def BUF_MEM_SIZE_def real_fpu_def)
  have four: "FLOAT_PRECESION = Suc (Suc (Suc (Suc 0)))" by (simp add: FLOAT_PRECESION_def)
  have "format_float real_fpu (5 / 2) r = ret (r(0 := 50, 1 := 46, 2 := 53, 3 := 48, 4 := 48, 5 := 48, 6 := 0))"
    unfolding format_float_def four
    by (simp add: loop) (simp add: real_fpu_def float_digit_def buf_store_def BUF_MEM_SIZE_def eval_nat_numeral)
  moreover have "str_at (r(0 := 50, 1 := 46, 2 := 53, 3 := 48, 4 := 48, 5 := 48, 6 := 0)) 0 = ret (cstr ''2.5000'')"
    by (simp add: str_at.simps cstr_def)
  ultimately show ?thesis by blast
qed

theorem printf_well_typed_witness:
  "\<forall>s. \<exists>s'. printf real_fpu (cstr ''pid %d: load %f%%'') [A_word 3, A_double (5 / 2)] s = ret s'"
  by (intro allI, rule printf_well_typed [where ts = "[T_word, T_double]" and us = "[]" and v = Some])
    (simp_all add: cstr_def letter_type_def real_fpu_ieee printable_half)

end
