(* ===== verification/Page_Frames.thy ===== *)
theory Page_Frames
  imports Page_Heap
begin

text \<open>
  Frames: the two windows through which the kernel fills and copies frames, the accounting of
  free and referenced frames, and copy-on-write.
\<close>

section \<open>The copy windows\<close>

text \<open>
  The window addresses are translated by the entries the kernel keeps pointers to, and the two
  windows are different pages.
\<close>

definition windows_ok :: "'a page_state_scheme \<Rightarrow> bool" where
  "windows_ok s \<longleftrightarrow>
     (tables (dirs s (current_page_dir s)) (tb_idx (empty_page0_addr s)), tb_offset (empty_page0_addr s)) = empty_page0_ptr s \<and>
     (tables (dirs s (current_page_dir s)) (tb_idx (empty_page1_addr s)), tb_offset (empty_page1_addr s)) = empty_page1_ptr s \<and>
     empty_page0_ptr s \<noteq> empty_page1_ptr s \<and> vpn (empty_page0_addr s) \<noteq> vpn (empty_page1_addr s)"

definition window_refs :: "'a page_state_scheme \<Rightarrow> entry_ref set" where
  "window_refs s = {empty_page0_ptr s, empty_page1_ptr s}"

lemma hw_frame_miss:
  "tlb s (vpn a) = None \<Longrightarrow> hw_frame a s = addr (ent (tables (dirs s (current_page_dir s)) (tb_idx a), tb_offset a) s)"
  by (simp add: hw_frame_def)

lemma hw_access_fields [simp]:
  "dirs (hw_access a s) = dirs s" "current_page_dir (hw_access a s) = current_page_dir s"
  "ent r (hw_access a s) = ent r s" "frame_mem (hw_access a s) = frame_mem s"
  "nframes (hw_access a s) = nframes s" "frames (hw_access a s) = frames s"
  "frame_ref_cnt (hw_access a s) = frame_ref_cnt s"
  "empty_page0_ptr (hw_access a s) = empty_page0_ptr s" "empty_page1_ptr (hw_access a s) = empty_page1_ptr s"
  "empty_page0_addr (hw_access a s) = empty_page0_addr s" "empty_page1_addr (hw_access a s) = empty_page1_addr s"
  "tlb (hw_access a s) = (tlb s)(vpn a \<mapsto> hw_frame a s)"
  by (simp_all add: hw_access_def ent_def)

lemma ent_update [simp]: "ent r (s\<lparr>frame_mem := m\<rparr>) = ent r s" "ent r (s\<lparr>frame_ref_cnt := c\<rparr>) = ent r s"
  "ent r (s\<lparr>nframes := n\<rparr>) = ent r s" "ent r (s\<lparr>frames := g\<rparr>) = ent r s" "ent r (s\<lparr>tlb := t\<rparr>) = ent r s"
  by (simp_all add: ent_def)

text \<open>What an operation on frame contents keeps of the rest of the state.\<close>

definition same_frames :: "'a page_state_scheme \<Rightarrow> 'a page_state_scheme \<Rightarrow> bool" where
  "same_frames s s' \<longleftrightarrow> nframes s' = nframes s \<and> frames s' = frames s \<and> frame_ref_cnt s' = frame_ref_cnt s \<and>
     dirs s' = dirs s \<and> current_page_dir s' = current_page_dir s \<and>
     empty_page0_ptr s' = empty_page0_ptr s \<and> empty_page1_ptr s' = empty_page1_ptr s \<and>
     empty_page0_addr s' = empty_page0_addr s \<and> empty_page1_addr s' = empty_page1_addr s"

lemma windows_ok_same: "same_frames s s' \<Longrightarrow> windows_ok s' = windows_ok s"
  by (simp add: windows_ok_def same_frames_def)

lemma window_refs_same: "same_frames s s' \<Longrightarrow> window_refs s' = window_refs s"
  by (simp add: window_refs_def same_frames_def)

lemma fill_uint32_correct:
  assumes "windows_ok s" "r \<notin> window_refs s"
  shows "frame_mem (fill_uint32 r val s) = (frame_mem s)(addr (ent r s) := (\<lambda>w. val))"
    "q \<notin> window_refs s \<Longrightarrow> ent q (fill_uint32 r val s) = ent q s" "same_frames s (fill_uint32 r val s)"
  using assms
  by (auto simp: fill_uint32_def Let_def hw_frame_def windows_ok_def window_refs_def same_frames_def ent_upd_ent)

lemma copy_page_physical_correct:
  assumes "windows_ok s"
  shows "frame_mem (copy_page_physical d p s) =
      (frame_mem s)(ucast (drop_bit 12 d) := frame_mem s (ucast (drop_bit 12 p)))"
    "q \<notin> window_refs s \<Longrightarrow> ent q (copy_page_physical d p s) = ent q s"
    "same_frames s (copy_page_physical d p s)"
  using assms
  by (auto simp: copy_page_physical_def Let_def hw_frame_def windows_ok_def window_refs_def same_frames_def ent_upd_ent)

section \<open>Accounting\<close>

text \<open>
  \<open>M\<close> is the set of frames the kernel manages, \<open>R\<close> the table entries it counts (those of
  user tables, the kernel stack and the heap; not the windows, nor the identity map of the
  kernel image). The reference count of a managed frame that is held is the number of
  entries that hold it (the count of a free frame is set when it is handed out), and the stack of free frames holds exactly the frames that no entry holds.
\<close>

definition holders :: "entry_ref set \<Rightarrow> 'a page_state_scheme \<Rightarrow> frame_no \<Rightarrow> entry_ref set" where
  "holders R s f = {r \<in> R. addr (ent r s) = f}"

definition free_stack :: "'a page_state_scheme \<Rightarrow> nat \<Rightarrow> u32" where
  "free_stack s i = frames s (of_nat i)"

definition frames_ok :: "frame_no set \<Rightarrow> entry_ref set \<Rightarrow> 'a page_state_scheme \<Rightarrow> bool" where
  "frames_ok M R s \<longleftrightarrow> finite R \<and> card R < 2 ^ 32 \<and> 0 \<notin> M \<and>
     (\<forall>r \<in> R. addr (ent r s) \<noteq> 0 \<longrightarrow> addr (ent r s) \<in> M) \<and>
     (\<forall>f \<in> M. holders R s f \<noteq> {} \<longrightarrow> unat (frame_ref_cnt s (ucast f)) = card (holders R s f)) \<and>
     inj_on (free_stack s) {..<unat (nframes s)} \<and>
     free_stack s ` {..<unat (nframes s)} = ucast ` {f \<in> M. holders R s f = {}}"

lemma ucast_frame [simp]: "(ucast (ucast (f :: frame_no) :: u32) :: frame_no) = f"
  by (simp add: ucast_up_ucast_id is_up)

lemma ucast_frame_inject [simp]: "(ucast (f :: frame_no) :: u32) = ucast g \<longleftrightarrow> f = g"
  by (metis ucast_frame)

lemma finite_holders [simp]: "finite R \<Longrightarrow> finite (holders R s f)"
  by (simp add: holders_def)

lemma holders_cong:
  assumes "\<And>q. q \<in> R \<Longrightarrow> addr (ent q s') = addr (ent q s)"
  shows "holders R s' f = holders R s f"
  unfolding holders_def by (rule Collect_cong) (auto simp: assms)

lemma frames_okD:
  assumes "frames_ok M R s"
  shows "finite R" "card R < 2 ^ 32" "0 \<notin> M" "r \<in> R \<Longrightarrow> addr (ent r s) \<noteq> 0 \<Longrightarrow> addr (ent r s) \<in> M"
    "f \<in> M \<Longrightarrow> holders R s f \<noteq> {} \<Longrightarrow> unat (frame_ref_cnt s (ucast f)) = card (holders R s f)"
    "inj_on (free_stack s) {..<unat (nframes s)}"
    "free_stack s ` {..<unat (nframes s)} = ucast ` {f \<in> M. holders R s f = {}}"
  using assms by (auto simp: frames_ok_def)

lemma last_holder_iff:
  assumes ok: "frames_ok M R s" and r: "r \<in> R" "addr (ent r s) \<noteq> 0"
  shows "frame_ref_cnt s (ucast (addr (ent r s))) = 1 \<longleftrightarrow> holders R s (addr (ent r s)) = {r}"
proof -
  have "holders R s (addr (ent r s)) \<noteq> {}" using r by (cases r) (auto simp: holders_def)
  then have "unat (frame_ref_cnt s (ucast (addr (ent r s)))) = card (holders R s (addr (ent r s)))"
    by (rule frames_okD(5) [OF ok frames_okD(4) [OF ok r]])
  then have "frame_ref_cnt s (ucast (addr (ent r s))) = 1 \<longleftrightarrow> card (holders R s (addr (ent r s))) = 1"
    by (metis unat_1 word_unat_eq_iff)
  moreover have "r \<in> holders R s (addr (ent r s))" using r by (simp add: holders_def)
  ultimately show ?thesis by (auto simp: card_1_singleton_iff)
qed

lemma frames_okI:
  assumes "finite R" "card R < 2 ^ 32" "0 \<notin> M" "\<And>r. r \<in> R \<Longrightarrow> addr (ent r s) \<noteq> 0 \<Longrightarrow> addr (ent r s) \<in> M"
    "\<And>f. f \<in> M \<Longrightarrow> holders R s f \<noteq> {} \<Longrightarrow> unat (frame_ref_cnt s (ucast f)) = card (holders R s f)"
    "inj_on (free_stack s) {..<unat (nframes s)}"
    "free_stack s ` {..<unat (nframes s)} = ucast ` {f \<in> M. holders R s f = {}}"
  shows "frames_ok M R s"
  unfolding frames_ok_def using assms by (intro conjI ballI impI)

lemma frames_ok_same:
  assumes ok: "frames_ok M R s" and "nframes s' = nframes s" "frames s' = frames s" "frame_ref_cnt s' = frame_ref_cnt s"
    and a: "\<And>r. r \<in> R \<Longrightarrow> addr (ent r s') = addr (ent r s)"
  shows "frames_ok M R s'"
proof (rule frames_okI)
  have h: "holders R s' f = holders R s f" for f using a by (rule holders_cong)
  have g: "free_stack s' = free_stack s" using assms(3) by (auto simp: free_stack_def)
  show "unat (frame_ref_cnt s' (ucast f)) = card (holders R s' f)" if "f \<in> M" "holders R s' f \<noteq> {}" for f
    using that unfolding h assms(4) by (rule frames_okD(5) [OF ok])
  show "inj_on (free_stack s') {..<unat (nframes s')}" unfolding g assms(2) by (rule frames_okD(6) [OF ok])
  show "free_stack s' ` {..<unat (nframes s')} = ucast ` {f \<in> M. holders R s' f = {}}"
    unfolding g h assms(2) by (rule frames_okD(7) [OF ok])
  show "addr (ent r s') \<in> M" if "r \<in> R" "addr (ent r s') \<noteq> 0" for r
    using frames_okD(4) [OF ok that(1)] that(2) unfolding a [OF that(1)] .
qed (rule frames_okD(1-3) [OF ok])+

text \<open>The number of free frames is the number of managed frames that no entry holds.\<close>

lemma nframes_card:
  assumes "frames_ok M R s"
  shows "unat (nframes s) = card {f \<in> M. holders R s f = {}}"
proof -
  have "card (free_stack s ` {..<unat (nframes s)}) = unat (nframes s)"
    using frames_okD(6) [OF assms] by (simp add: card_image)
  moreover have "card ((ucast :: frame_no \<Rightarrow> u32) ` {f \<in> M. holders R s f = {}}) = card {f \<in> M. holders R s f = {}}"
    by (rule card_image) (simp add: inj_on_def)
  ultimately show ?thesis unfolding frames_okD(7) [OF assms] by simp
qed

section \<open>Operations on entries\<close>

text \<open>The window state an entry operation keeps, and the entries it leaves alone.\<close>

definition same_windows :: "'a page_state_scheme \<Rightarrow> 'a page_state_scheme \<Rightarrow> bool" where
  "same_windows s s' \<longleftrightarrow> dirs s' = dirs s \<and> current_page_dir s' = current_page_dir s \<and>
     empty_page0_ptr s' = empty_page0_ptr s \<and> empty_page1_ptr s' = empty_page1_ptr s \<and>
     empty_page0_addr s' = empty_page0_addr s \<and> empty_page1_addr s' = empty_page1_addr s"

lemma same_windows_refl [simp]: "same_windows s s"
  by (simp add: same_windows_def)

lemma same_windows_trans: "same_windows s s' \<Longrightarrow> same_windows s' s'' \<Longrightarrow> same_windows s s''"
  by (simp add: same_windows_def)

lemma same_frames_windows: "same_frames s s' \<Longrightarrow> same_windows s s'"
  by (simp add: same_windows_def same_frames_def)

lemma windows_ok_cong: "same_windows s s' \<Longrightarrow> windows_ok s' = windows_ok s"
  "same_windows s s' \<Longrightarrow> window_refs s' = window_refs s"
  by (simp_all add: windows_ok_def window_refs_def same_windows_def)

lemma frames_ok_upd_ent:
  assumes "frames_ok M R s" "\<And>e. addr (f e) = addr e"
  shows "frames_ok M R (upd_ent q f s)"
  using assms(1) by (rule frames_ok_same) (simp_all add: ent_upd_ent assms(2))

lemma top_frame:
  assumes "frames_ok M R s" "nframes s \<noteq> 0"
  obtains f k where "f \<in> M" "holders R s f = {}" "frames s (nframes s - 1) = ucast f"
    "unat (nframes s) = Suc k" "unat (nframes s - 1) = k" "free_stack s k = ucast f"
proof -
  have k: "unat (nframes s) = Suc (unat (nframes s - 1))"
    using assms(2) by (simp add: unat_minus_1 unat_gt_0)
  have top: "free_stack s (unat (nframes s - 1)) = frames s (nframes s - 1)" by (simp add: free_stack_def)
  have "free_stack s (unat (nframes s - 1)) \<in> free_stack s ` {..<unat (nframes s)}" using k by simp
  then obtain f where f: "f \<in> M" "holders R s f = {}" "free_stack s (unat (nframes s - 1)) = ucast f"
    unfolding frames_okD(7) [OF assms(1)] by blast
  show thesis by (rule that [OF f(1,2) _ k refl f(3)]) (simp add: f(3) flip: top)
qed

text \<open>The entry \<open>r\<close> takes the frame on top of the stack.\<close>

definition popped :: "entry_ref \<Rightarrow> bool \<Rightarrow> bool \<Rightarrow> frame_no \<Rightarrow> 'a page_state_scheme \<Rightarrow> 'a page_state_scheme" where
  "popped r u w f s = upd_ent r (\<lambda>e. e\<lparr>rw := w, user := u, addr := f, allocable := True, present := True\<rparr>)
     (s\<lparr>nframes := nframes s - 1, frame_ref_cnt := (frame_ref_cnt s)(ucast f := 1)\<rparr>)"

lemma entry_alloc_cases:
  "entry_alloc r u w s =
    (if addr (ent r s) \<noteq> 0 then ret (upd_ent r (\<lambda>e. e\<lparr>rw := w, user := u\<rparr>) s)
     else if nframes s = 0 then halt (Panic ''no free frame'')
     else ret (popped r u w (ucast (frames s (nframes s - 1))) s))"
  by (cases r) (simp add: entry_alloc_def Let_def upd_ent_def ent_def popped_def)

lemma popped_fields [simp]:
  "ent q (popped r u w f s) = (if q = r then (ent r s)\<lparr>rw := w, user := u, addr := f, allocable := True, present := True\<rparr> else ent q s)"
  "nframes (popped r u w f s) = nframes s - 1" "frames (popped r u w f s) = frames s"
  "frame_ref_cnt (popped r u w f s) = (frame_ref_cnt s)(ucast f := 1)" "frame_mem (popped r u w f s) = frame_mem s"
  "same_windows s (popped r u w f s)"
  by (auto simp: popped_def ent_upd_ent same_windows_def upd_ent_def ent_def prod_eq_iff)

lemma popped_frames_ok:
  assumes ok: "frames_ok M R s" and r: "r \<in> R" "addr (ent r s) = 0"
    and f: "f \<in> M" "holders R s f = {}" "unat (nframes s) = Suc k" "unat (nframes s - 1) = k" "free_stack s k = ucast f"
  shows "frames_ok M R (popped r u w f s)" "holders R (popped r u w f s) f = {r}"
proof -
  let ?s = "popped r u w f s"
  have f0: "f \<noteq> 0" using f(1) frames_okD(3) [OF ok] by auto
  have h: "holders R ?s g = (if g = f then {r} else if g = 0 then holders R s g - {r} else holders R s g)" for g
    using r f(2) f0 by (auto simp: holders_def)
  show "holders R ?s f = {r}" by (simp add: h)
  show "frames_ok M R ?s"
  proof (rule frames_okI)
    show "addr (ent q ?s) \<in> M" if "q \<in> R" "addr (ent q ?s) \<noteq> 0" for q
      using frames_okD(4) [OF ok, of q] that f(1) by (auto split: if_splits)
    show "unat (frame_ref_cnt ?s (ucast g)) = card (holders R ?s g)" if "g \<in> M" "holders R ?s g \<noteq> {}" for g
      using frames_okD(3,5) [OF ok] that unfolding h by (auto split: if_splits)
    have st: "free_stack ?s = free_stack s" by (auto simp: free_stack_def)
    have inj: "inj_on (free_stack s) {..<Suc k}" using frames_okD(6) [OF ok] f(3) by simp
    then show "inj_on (free_stack ?s) {..<unat (nframes ?s)}" using f(4) by (simp add: st lessThan_Suc)
    have "free_stack s ` {..<k} = free_stack s ` {..<Suc k} - {ucast f}"
      using inj f(5) by (auto simp: lessThan_Suc)
    also have "\<dots> = ucast ` {g \<in> M. holders R s g = {}} - {ucast f}" using frames_okD(7) [OF ok] f(3) by simp
    also have "\<dots> = ucast ` {g \<in> M. holders R ?s g = {}}"
      unfolding h using f0 frames_okD(3) [OF ok] by auto
    finally show "free_stack ?s ` {..<unat (nframes ?s)} = ucast ` {g \<in> M. holders R ?s g = {}}"
      using f(4) by (simp add: st)
  qed (rule frames_okD(1-3) [OF ok])+
qed

lemma entry_alloc_frames:
  assumes ok: "frames_ok M R s" and r: "r \<in> R"
  shows "addr (ent r s) = 0 \<and> nframes s = 0 \<and> entry_alloc r u w s = halt (Panic ''no free frame'') \<or>
    addr (ent r s) \<noteq> 0 \<and> entry_alloc r u w s = ret (upd_ent r (\<lambda>e. e\<lparr>rw := w, user := u\<rparr>) s) \<and>
      frames_ok M R (upd_ent r (\<lambda>e. e\<lparr>rw := w, user := u\<rparr>) s) \<or>
    addr (ent r s) = 0 \<and> (\<exists>f. entry_alloc r u w s = ret (popped r u w f s) \<and> f \<in> M \<and> holders R s f = {} \<and>
      frames_ok M R (popped r u w f s) \<and> holders R (popped r u w f s) f = {r})"
proof (cases "addr (ent r s) = 0 \<and> nframes s \<noteq> 0")
  case True
  then obtain f k where f: "f \<in> M" "holders R s f = {}" "frames s (nframes s - 1) = ucast f"
    "unat (nframes s) = Suc k" "unat (nframes s - 1) = k" "free_stack s k = ucast f"
    using top_frame [OF ok] by blast
  have "entry_alloc r u w s = ret (popped r u w f s)" using True f(3) by (simp add: entry_alloc_cases)
  then show ?thesis using True f popped_frames_ok [OF ok r _ f(1,2,4-6)] by blast
next
  case False
  moreover have "frames_ok M R (upd_ent r (\<lambda>e. e\<lparr>rw := w, user := u\<rparr>) s)"
    by (rule frames_ok_upd_ent [OF ok]) simp
  ultimately show ?thesis by (auto simp: entry_alloc_cases)
qed

text \<open>An entry gives up the frame it holds.\<close>

lemma holders_drop:
  assumes "r \<in> R" "addr (ent r s) = f" "f \<noteq> 0" "addr (ent r s') = 0"
    and "\<And>q. q \<in> R \<Longrightarrow> q \<noteq> r \<Longrightarrow> addr (ent q s') = addr (ent q s)"
  shows "holders R s' g = (if g = f then holders R s f - {r} else if g = 0 then insert r (holders R s 0) else holders R s g)"
proof (intro set_eqI)
  fix q
  show "q \<in> holders R s' g \<longleftrightarrow>
    q \<in> (if g = f then holders R s f - {r} else if g = 0 then insert r (holders R s 0) else holders R s g)"
    using assms(1-4) assms(5) [of q] by (cases "q = r") (auto simp: holders_def)
qed

lemma nframes_small:
  assumes "frames_ok M R s"
  shows "unat (nframes s) < 2 ^ 20"
proof -
  have fin: "finite (UNIV :: frame_no set)" by simp
  have "unat (nframes s) = card {f \<in> M. holders R s f = {}}" by (rule nframes_card [OF assms])
  also have "\<dots> < card (UNIV :: frame_no set)"
    using frames_okD(3) [OF assms] by (intro psubset_card_mono [OF fin]) blast
  also have "\<dots> = 2 ^ 20" by (simp add: card_word)
  finally show ?thesis .
qed

lemma drop_frames_ok:
  assumes ok: "frames_ok M R s" and r: "r \<in> R" "addr (ent r s) = f" "f \<noteq> 0"
    and s': "addr (ent r s') = 0" "\<And>q. q \<in> R \<Longrightarrow> q \<noteq> r \<Longrightarrow> addr (ent q s') = addr (ent q s)"
      "frame_ref_cnt s' = (frame_ref_cnt s)(ucast f := frame_ref_cnt s (ucast f) - 1)"
      "if frame_ref_cnt s (ucast f) = 1
       then frames s' = (frames s)(nframes s := ucast f) \<and> nframes s' = nframes s + 1
       else frames s' = frames s \<and> nframes s' = nframes s"
  shows "frames_ok M R s'"
proof (rule frames_okI)
  have h: "holders R s' g = (if g = f then holders R s f - {r} else if g = 0 then insert r (holders R s 0) else holders R s g)" for g
    by (rule holders_drop [OF r s'(1,2)])
  have fM: "f \<in> M" "0 \<notin> M" using frames_okD(3) [OF ok] frames_okD(4) [OF ok, of r] r by auto
  have fin: "finite (holders R s f)" using frames_okD(1) [OF ok] by simp
  have rf: "r \<in> holders R s f" using r by (simp add: holders_def)
  have cnt: "unat (frame_ref_cnt s (ucast f)) = card (holders R s f)" using rf by (intro frames_okD(5) [OF ok fM(1)]) auto
  have pos: "frame_ref_cnt s (ucast f) \<noteq> 0" using cnt rf fin by (auto simp: card_gt_0_iff)
  show "addr (ent q s') \<in> M" if "q \<in> R" "addr (ent q s') \<noteq> 0" for q
    using frames_okD(4) [OF ok, of q] s'(1,2) that by (cases "q = r") auto
  show "unat (frame_ref_cnt s' (ucast g)) = card (holders R s' g)" if "g \<in> M" "holders R s' g \<noteq> {}" for g
  proof (cases "g = f")
    case True
    have "unat (frame_ref_cnt s' (ucast f)) = card (holders R s f) - 1" using cnt pos by (simp add: s'(3) unat_minus_1)
    moreover have "holders R s' f = holders R s f - {r}" by (simp add: h)
    ultimately show ?thesis using True rf fin by simp
  next
    case False
    moreover have "g \<noteq> 0" using that fM by auto
    ultimately show ?thesis using frames_okD(5) [OF ok that(1)] that(2) by (simp add: h s'(3))
  qed
  have last: "frame_ref_cnt s (ucast f) = 1 \<longleftrightarrow> holders R s f = {r}"
    using last_holder_iff [OF ok r(1)] r(2,3) by simp
  note inj = frames_okD(6) [OF ok] and img = frames_okD(7) [OF ok]
  have stack: "inj_on (free_stack s') {..<unat (nframes s')} \<and>
    free_stack s' ` {..<unat (nframes s')} = ucast ` {g \<in> M. holders R s' g = {}}"
  proof (cases "holders R s f = {r}")
    case True
    with s'(4) last have new: "frames s' = (frames s)(nframes s := ucast f)" "nframes s' = nframes s + 1" by auto
    have n: "unat (nframes s') = Suc (unat (nframes s))"
      using nframes_small [OF ok] unat_add [of "nframes s" 1] by (simp add: new(2))
    have top: "free_stack s' (unat (nframes s)) = ucast f" by (simp add: free_stack_def new(1))
    have old: "free_stack s' i = free_stack s i" if "i < unat (nframes s)" for i
    proof -
      have "unat (of_nat i :: u32) = i" using that nframes_small [OF ok] by (intro unat_of_nat_small) simp
      then have "of_nat i \<noteq> nframes s" using that by auto
      then show ?thesis by (simp add: free_stack_def new(1))
    qed
    have img': "free_stack s' ` {..<unat (nframes s)} = ucast ` {g \<in> M. holders R s g = {}}"
      unfolding img [symmetric] using old by (intro image_cong) auto
    have "(ucast f :: u32) \<notin> ucast ` {g \<in> M. holders R s g = {}}" using rf by auto
    moreover have "inj_on (free_stack s') {..<unat (nframes s)}" using inj old by (simp add: inj_on_def)
    ultimately have "inj_on (free_stack s') {..<unat (nframes s')}"
      using top unfolding n lessThan_Suc by (simp add: img')
    moreover have "{g \<in> M. holders R s' g = {}} = insert f {g \<in> M. holders R s g = {}}"
      using True fM by (auto simp: h split: if_splits)
    ultimately show ?thesis using top img' unfolding n lessThan_Suc by simp
  next
    case False
    with s'(4) last have same: "frames s' = frames s" "nframes s' = nframes s" by auto
    have "free_stack s' = free_stack s" by (simp add: free_stack_def same fun_eq_iff)
    moreover have "{g \<in> M. holders R s' g = {}} = {g \<in> M. holders R s g = {}}"
      using False rf fM by (auto simp: h split: if_splits)
    ultimately show ?thesis using inj img same by simp
  qed
  then show "inj_on (free_stack s') {..<unat (nframes s')}"
    "free_stack s' ` {..<unat (nframes s')} = ucast ` {g \<in> M. holders R s' g = {}}" by blast+
qed (rule frames_okD(1-3) [OF ok])+

lemma entry_free_frames_ok:
  assumes "frames_ok M R s" "r \<in> R"
  shows "frames_ok M R (entry_free r s)"
proof (cases "addr (ent r s) = 0")
  case True
  then show ?thesis using assms(1) by (simp add: entry_free_def)
next
  case False
  show ?thesis
  proof (rule drop_frames_ok [OF assms refl False])
    have "x - 1 = 0 \<longleftrightarrow> x = 1" for x :: u32 by (metis diff_add_cancel diff_self add_0)
    then show "if frame_ref_cnt s (ucast (addr (ent r s))) = 1
       then frames (entry_free r s) = (frames s)(nframes s := ucast (addr (ent r s))) \<and> nframes (entry_free r s) = nframes s + 1
       else frames (entry_free r s) = frames s \<and> nframes (entry_free r s) = nframes s"
      using False by (simp add: entry_free_def Let_def)
  qed (use False in \<open>simp_all add: entry_free_def Let_def ent_upd_ent\<close>)
qed

text \<open>Cloning one entry adds a holder of its frame.\<close>

lemma clone_entry_ent:
  assumes "d \<noteq> p"
  shows "ent q (clone_entry d p base i s) =
    (let e = (if addr (ent (p, i) s) \<noteq> 0 then (ent (p, i) s)\<lparr>rw := False\<rparr> else ent (p, i) s)
     in if q = (d, i) \<or> q = (p, i) then e else ent q s)"
  using assms by (auto simp: clone_entry_def Let_def ent_upd_ent)

lemma clone_entry_fields [simp]:
  "nframes (clone_entry d p base i s) = nframes s" "frames (clone_entry d p base i s) = frames s"
  "frame_mem (clone_entry d p base i s) = frame_mem s" "same_windows s (clone_entry d p base i s)"
  "dirs (clone_entry d p base i s) = dirs s"
  by (simp_all add: clone_entry_def Let_def same_windows_def)

lemma clone_entry_frames_ok:
  assumes ok: "frames_ok M R s" and dp: "d \<noteq> p" and r: "(p, i) \<in> R" "(d, i) \<notin> R"
    and small: "card (insert (d, i) R) < 2 ^ 32"
  shows "frames_ok M (insert (d, i) R) (clone_entry d p base i s)"
proof (rule frames_okI)
  let ?s = "clone_entry d p base i s" and ?R = "insert (d, i) R" and ?f = "addr (ent (p, i) s)"
  note e = clone_entry_ent [OF dp, of _ base i s]
  have same: "addr (ent q ?s) = addr (ent q s)" if "q \<in> R" for q
    using that r by (auto simp: e Let_def)
  have new: "addr (ent (d, i) ?s) = ?f" by (simp add: e Let_def)
  have h: "holders ?R ?s g = (if g = ?f then insert (d, i) (holders R s g) else holders R s g)" for g
    using same new by (auto simp: holders_def)
  have fin: "finite (holders R s g)" for g using frames_okD(1) [OF ok] by simp
  have M: "?f \<noteq> 0 \<Longrightarrow> ?f \<in> M" using frames_okD(4) [OF ok r(1)] .
  show "finite ?R" "card ?R < 2 ^ 32" "0 \<notin> M" using frames_okD(1,3) [OF ok] small by auto
  show "addr (ent q ?s) \<in> M" if "q \<in> ?R" "addr (ent q ?s) \<noteq> 0" for q
    using that frames_okD(4) [OF ok, of q] same new M by (cases "q = (d, i)") auto
  have some: "holders R s ?f \<noteq> {}" using r(1) by (auto simp: holders_def)
  show "unat (frame_ref_cnt ?s (ucast g)) = card (holders ?R ?s g)" if g: "g \<in> M" "holders ?R ?s g \<noteq> {}" for g
  proof (cases "g = ?f")
    case True
    have g0: "?f \<noteq> 0" using g(1) True frames_okD(3) [OF ok] by auto
    have "(d, i) \<notin> holders R s ?f" using r(2) by (simp add: holders_def)
    then have card: "card (holders ?R ?s ?f) = Suc (card (holders R s ?f))" using fin by (simp add: h)
    have "card (holders ?R ?s ?f) \<le> card ?R"
      using frames_okD(1) [OF ok] by (intro card_mono) (auto simp: holders_def)
    then have "Suc (card (holders R s ?f)) < 2 ^ 32" using small card by simp
    moreover have "frame_ref_cnt ?s (ucast ?f) = frame_ref_cnt s (ucast ?f) + 1"
      using g0 dp by (simp add: clone_entry_def Let_def ent_upd_ent)
    moreover have "unat (frame_ref_cnt s (ucast ?f)) = card (holders R s ?f)" using frames_okD(5) [OF ok g(1)] True some by simp
    ultimately show ?thesis using card True unat_add [of "frame_ref_cnt s (ucast ?f)" 1] by simp
  next
    case False
    then have "frame_ref_cnt ?s (ucast g) = frame_ref_cnt s (ucast g)" using dp by (simp add: clone_entry_def Let_def ent_upd_ent)
    then show ?thesis using False frames_okD(5) [OF ok g(1)] g(2) by (simp add: h)
  qed
  have st: "free_stack ?s = free_stack s" by (simp add: free_stack_def fun_eq_iff)
  show "inj_on (free_stack ?s) {..<unat (nframes ?s)}" using frames_okD(6) [OF ok] by (simp add: st)
  have "{g \<in> M. holders ?R ?s g = {}} = {g \<in> M. holders R s g = {}}" using some by (auto simp: h)
  then show "free_stack ?s ` {..<unat (nframes ?s)} = ucast ` {g \<in> M. holders ?R ?s g = {}}"
    using frames_okD(7) [OF ok] by (simp add: st)
qed

text \<open>Cloning a table: the entries of the new one are counted, and both hold the same frames read-only.\<close>

definition table_refs :: "u32 \<Rightarrow> entry_ref set" where
  "table_refs t = {t} \<times> {..<1024}"

lemma clone_entries:
  assumes ok: "frames_ok M R s" and dp: "d \<noteq> p" and p: "table_refs p \<subseteq> R" and d: "table_refs d \<inter> R = {}"
    and small: "card R + 1024 < 2 ^ 32" and n: "n \<le> 1024"
  shows "frames_ok M (R \<union> {d} \<times> {..<n}) (fold (clone_entry d p base) [0..<n] s) \<and>
    same_windows s (fold (clone_entry d p base) [0..<n] s) \<and>
    frame_mem (fold (clone_entry d p base) [0..<n] s) = frame_mem s \<and>
    dirs (fold (clone_entry d p base) [0..<n] s) = dirs s \<and>
    (\<forall>q. ent q (fold (clone_entry d p base) [0..<n] s) =
      (if (fst q = d \<or> fst q = p) \<and> snd q < n
       then (let e = ent (p, snd q) s in if addr e \<noteq> 0 then e\<lparr>rw := False\<rparr> else e) else ent q s))"
  using n
proof (induction n)
  case 0
  then show ?case using ok by simp
next
  case (Suc n)
  let ?s = "fold (clone_entry d p base) [0..<n] s" and ?R = "R \<union> {d} \<times> {..<n}"
  from Suc have IH: "frames_ok M ?R ?s" "same_windows s ?s" "frame_mem ?s = frame_mem s" "dirs ?s = dirs s"
    "\<forall>q. ent q ?s = (if (fst q = d \<or> fst q = p) \<and> snd q < n
       then (let e = ent (p, snd q) s in if addr e \<noteq> 0 then e\<lparr>rw := False\<rparr> else e) else ent q s)" by simp_all
  have step: "fold (clone_entry d p base) [0..<Suc n] s = clone_entry d p base n ?s" by simp
  have R: "R \<union> {d} \<times> {..<Suc n} = insert (d, n) ?R" by (auto simp: lessThan_Suc)
  have finR: "finite R" by (rule frames_okD(1) [OF ok])
  have "(d, n) \<in> table_refs d" "(p, n) \<in> table_refs p" using Suc.prems by (auto simp: table_refs_def)
  then have "(p, n) \<in> ?R" "(d, n) \<notin> ?R" using p d by auto
  moreover have "card (insert (d, n) ?R) < 2 ^ 32"
  proof -
    have "card (R \<union> {d} \<times> {..<Suc n}) \<le> card R + card ({d} \<times> {..<Suc n})" by (rule card_Un_le)
    also have "\<dots> = card R + Suc n" by (simp add: card_cartesian_product)
    finally show ?thesis using small Suc.prems unfolding R by simp
  qed
  ultimately have "frames_ok M (insert (d, n) ?R) (clone_entry d p base n ?s)"
    by (intro clone_entry_frames_ok [OF IH(1) dp])
  moreover have "ent q (clone_entry d p base n ?s) = (if (fst q = d \<or> fst q = p) \<and> snd q < Suc n
       then (let e = ent (p, snd q) s in if addr e \<noteq> 0 then e\<lparr>rw := False\<rparr> else e) else ent q s)" for q
    using IH(5) by (cases q) (auto simp: clone_entry_ent [OF dp] Let_def less_Suc_eq)
  moreover have "same_windows s (clone_entry d p base n ?s)"
    by (rule same_windows_trans [OF IH(2)]) simp
  ultimately show ?case using IH(3,4) unfolding step R by simp
qed

end
