(* ===== verification/Page_Thms.thy ===== *)
theory Page_Thms
  imports Page_Frames
begin

text \<open>
  The properties of paging: demand allocation, copy-on-write isolation, the exact panics of
  the page fault handler, and the frame accounting as an invariant of every sequence of page
  operations.
\<close>

section \<open>The handler, case by case\<close>

text \<open>The faults the handler does not treat as fatal.\<close>

definition demand_fault :: "u32 \<Rightarrow> u32 \<Rightarrow> u32 \<Rightarrow> entry_ref \<Rightarrow> 'a page_state_scheme \<Rightarrow> bool" where
  "demand_fault kce eip err r s \<longleftrightarrow> allocable (ent r s) \<and> (user (ent r s) \<or> eip < kce) \<and> err AND 1 = 0"

definition cow_fault :: "u32 \<Rightarrow> entry_ref \<Rightarrow> 'a page_state_scheme \<Rightarrow> bool" where
  "cow_fault err r s \<longleftrightarrow> allocable (ent r s) \<and> user (ent r s) \<and> err AND 1 \<noteq> 0 \<and> err AND 2 \<noteq> 0"

lemma page_fault_demand_eq:
  assumes "lookup_page (current_page_dir s) cr2 s = Some r" "demand_fault kce eip err r s"
  shows "page_fault kce eip err cr2 s =
    andThen (entry_alloc r (user (ent r s)) (rw (ent r s)) s) (\<lambda>s.
      ret (if alloc_fill (ent r s) \<noteq> 0 then fill_uint32 r 0 s else s))"
  using assms by (auto simp: page_fault_def demand_fault_def Let_def)

lemma page_fault_cow_eq:
  assumes "lookup_page (current_page_dir s) cr2 s = Some r" "cow_fault err r s" "addr (ent r s) = f" "f \<noteq> 0"
    "frame_ref_cnt s (ucast f) \<noteq> 0"
  shows "page_fault kce eip err cr2 s =
    (if frame_ref_cnt s (ucast f) = 1 then ret (upd_ent r (\<lambda>e. e\<lparr>rw := True\<rparr>) s)
     else andThen (entry_alloc r True True (upd_ent r (\<lambda>e. e\<lparr>addr := 0\<rparr>)
        (s\<lparr>frame_ref_cnt := (frame_ref_cnt s)(ucast f := frame_ref_cnt s (ucast f) - 1)\<rparr>)))
        (\<lambda>s. ret (copy_page_physical (push_bit 12 (ucast (addr (ent r s)))) (push_bit 12 (ucast f)) s)))"
  using assms by (auto simp: page_fault_def cow_fault_def Let_def)

lemma frame_of_push: "ucast (drop_bit 12 (push_bit 12 (ucast (f :: frame_no) :: u32))) = f"
  by (rule bit_eqI) (auto simp: bit_simps dest: bit_imp_le_length)

section \<open>Demand allocation\<close>

lemma demand_done:
  assumes "frames_ok M R s" "windows_ok s" "window_refs s \<inter> R = {}" "r \<in> R" "nframes s \<noteq> 0"
    and "lookup_page (current_page_dir s) cr2 s = Some r" "demand_fault kce eip err r s" "addr (ent r s) = 0"
  shows "\<exists>s' f. page_fault kce eip err cr2 s = ret s' \<and> frames_ok M R s' \<and> same_windows s s' \<and>
    f \<in> M \<and> holders R s f = {} \<and> holders R s' f = {r} \<and>
    ent r s' = (ent r s)\<lparr>addr := f, allocable := True, present := True\<rparr> \<and>
    (\<forall>q \<in> R - {r}. ent q s' = ent q s) \<and>
    frame_mem s' = (if alloc_fill (ent r s) \<noteq> 0 then (frame_mem s)(f := (\<lambda>w. 0)) else frame_mem s)"
proof -
  let ?u = "user (ent r s)" and ?w = "rw (ent r s)"
  from entry_alloc_frames [OF assms(1,4), of ?u ?w] assms(5,8) obtain f where
    f: "entry_alloc r ?u ?w s = ret (popped r ?u ?w f s)" "f \<in> M" "holders R s f = {}"
      "frames_ok M R (popped r ?u ?w f s)" "holders R (popped r ?u ?w f s) f = {r}" by blast
  let ?s = "popped r ?u ?w f s"
  have win: "windows_ok ?s" "window_refs ?s = window_refs s"
    using windows_ok_cong [of s ?s] assms(2) by simp_all
  have rw: "r \<notin> window_refs ?s" using assms(3,4) win(2) by blast
  note fill = fill_uint32_correct [OF win(1) rw, where val = 0]
  have eq: "page_fault kce eip err cr2 s = ret (if alloc_fill (ent r s) \<noteq> 0 then fill_uint32 r 0 ?s else ?s)"
    using page_fault_demand_eq [OF assms(6,7)] f(1) by simp
  show ?thesis
  proof (cases "alloc_fill (ent r s) = 0")
    case True
    then show ?thesis using eq f win by (intro exI [of _ ?s] exI [of _ f]) auto
  next
    case False
    let ?t = "fill_uint32 r 0 ?s"
    have keep: "ent q ?t = ent q ?s" if "q \<in> R" for q
      using fill(2) that assms(3) win(2) by blast
    have "frames_ok M R ?t" using f(4)
      by (rule frames_ok_same) (use fill(3) keep in \<open>simp_all add: same_frames_def\<close>)
    moreover have "holders R ?t f = holders R ?s f" by (rule holders_cong) (simp only: keep)
    moreover have "same_windows s ?t" by (rule same_windows_trans [OF popped_fields(6) same_frames_windows [OF fill(3)]])
    ultimately show ?thesis using eq False f keep assms(4) fill(1)
      by (intro exI [of _ ?t] exI [of _ f]) auto
  qed
qed

text \<open>
  C19: a fault on a page that is marked allocable but has no frame gives it a frame that
  nothing else holds, cleared if the page asks for it, with the page's permissions unchanged;
  no other counted entry and no other frame changes, and the accounting stays exact.
\<close>

theorem page_fault_demand:
  assumes "frames_ok M R s" "windows_ok s" "window_refs s \<inter> R = {}" "r \<in> R" "nframes s \<noteq> 0"
    and "lookup_page (current_page_dir s) cr2 s = Some r" "demand_fault kce eip err r s" "addr (ent r s) = 0"
  shows "\<exists>s' f. page_fault kce eip err cr2 s = ret s' \<and> frames_ok M R s' \<and> same_windows s s' \<and>
    f \<in> M \<and> holders R s f = {} \<and> holders R s' f = {r} \<and>
    ent r s' = (ent r s)\<lparr>addr := f, allocable := True, present := True\<rparr> \<and>
    (\<forall>q \<in> R - {r}. ent q s' = ent q s) \<and>
    frame_mem s' = (if alloc_fill (ent r s) \<noteq> 0 then (frame_mem s)(f := (\<lambda>w. 0)) else frame_mem s)"
  by (rule demand_done [OF assms])

section \<open>Copy-on-write\<close>

lemma cow_done:
  assumes "frames_ok M R s" "windows_ok s" "window_refs s \<inter> R = {}" "r \<in> R" "nframes s \<noteq> 0"
    and "lookup_page (current_page_dir s) cr2 s = Some r" "cow_fault err r s"
    and "addr (ent r s) = f" "f \<noteq> 0" "holders R s f \<noteq> {r}"
  shows "\<exists>s' g. page_fault kce eip err cr2 s = ret s' \<and> frames_ok M R s' \<and> same_windows s s' \<and>
    g \<noteq> f \<and> holders R s g = {} \<and> holders R s' g = {r} \<and> holders R s' f = holders R s f - {r} \<and>
    rw (ent r s') \<and> addr (ent r s') = g \<and> (\<forall>q \<in> R - {r}. ent q s' = ent q s) \<and>
    frame_mem s' = (frame_mem s)(g := frame_mem s f)"
proof -
  have fM: "f \<in> M" using frames_okD(4) [OF assms(1,4)] assms(8,9) by simp
  have rf: "r \<in> holders R s f" using assms(4,8) by (simp add: holders_def)
  have fin: "finite (holders R s f)" using frames_okD(1) [OF assms(1)] by simp
  have "2 \<le> card (holders R s f)"
  proof -
    obtain q where "q \<in> holders R s f" "q \<noteq> r" using assms(10) rf by blast
    then have "card {q, r} \<le> card (holders R s f)" using rf fin by (intro card_mono) auto
    then show ?thesis using \<open>q \<noteq> r\<close> by simp
  qed
  then have cnt: "2 \<le> unat (frame_ref_cnt s (ucast f))" using frames_okD(5) [OF assms(1) fM] rf by (metis empty_iff)
  then have n01: "frame_ref_cnt s (ucast f) \<noteq> 0" "frame_ref_cnt s (ucast f) \<noteq> 1" by auto
  let ?s1 = "upd_ent r (\<lambda>e. e\<lparr>addr := 0\<rparr>)
    (s\<lparr>frame_ref_cnt := (frame_ref_cnt s)(ucast f := frame_ref_cnt s (ucast f) - 1)\<rparr>)"
  have ent1: "ent q ?s1 = (if q = r then (ent r s)\<lparr>addr := 0\<rparr> else ent q s)" for q by (simp add: ent_upd_ent)
  have ok1: "frames_ok M R ?s1"
    by (rule drop_frames_ok [OF assms(1,4,8,9)]) (use n01 in \<open>simp_all add: ent1\<close>)
  have win1: "same_windows s ?s1" by (simp add: same_windows_def)
  have "addr (ent r ?s1) = 0" "nframes ?s1 \<noteq> 0" using assms(5) by (simp_all add: ent1)
  with entry_alloc_frames [OF ok1 assms(4), of True True] obtain g where
    g: "entry_alloc r True True ?s1 = ret (popped r True True g ?s1)" "g \<in> M" "holders R ?s1 g = {}"
      "frames_ok M R (popped r True True g ?s1)" "holders R (popped r True True g ?s1) g = {r}" by blast
  let ?s2 = "popped r True True g ?s1"
  let ?s3 = "copy_page_physical (push_bit 12 (ucast g)) (push_bit 12 (ucast f)) ?s2"
  have win2: "windows_ok ?s2" "window_refs ?s2 = window_refs s"
    using windows_ok_cong [OF same_windows_trans [OF win1 popped_fields(6)]] assms(2) by simp_all
  note copy = copy_page_physical_correct [OF win2(1), where d = "push_bit 12 (ucast g)" and p = "push_bit 12 (ucast f)", unfolded frame_of_push]
  have keep: "ent q ?s3 = ent q ?s2" if "q \<in> R" for q using copy(2) that assms(3) win2(2) by blast
  have eq: "page_fault kce eip err cr2 s = ret ?s3"
    using page_fault_cow_eq [OF assms(6,7,8,9) n01(1)] n01(2) g(1) by simp
  have h1: "holders R ?s1 h = (if h = f then holders R s f - {r} else if h = 0 then insert r (holders R s 0) else holders R s h)" for h
    by (rule holders_drop [OF assms(4,8,9)]) (simp_all add: ent1)
  have hf1: "holders R ?s1 f \<noteq> {}" using assms(10) rf h1 [of f] by auto
  then have gf: "g \<noteq> f" using g(3) by auto
  have g0: "g \<noteq> 0" using g(2) frames_okD(3) [OF ok1] by auto
  have hg: "holders R s g = {}" using g(3) gf g0 h1 [of g] by simp
  have "frames_ok M R ?s3" using g(4)
    by (rule frames_ok_same) (use copy(3) keep in \<open>simp_all add: same_frames_def\<close>)
  moreover have "same_windows s ?s3"
    by (rule same_windows_trans [OF same_windows_trans [OF win1 popped_fields(6)] same_frames_windows [OF copy(3)]])
  moreover have h3: "holders R ?s3 h = holders R ?s2 h" for h by (rule holders_cong) (simp only: keep)
  moreover have "holders R ?s2 f = holders R s f - {r}"
  proof (intro set_eqI)
    fix q
    show "q \<in> holders R ?s2 f \<longleftrightarrow> q \<in> holders R s f - {r}" using gf by (cases "q = r") (simp_all add: holders_def ent1)
  qed
  moreover have "ent q ?s3 = ent q s" if "q \<in> R - {r}" for q using that keep [of q] by (simp add: ent1)
  moreover have "rw (ent r ?s3)" "addr (ent r ?s3) = g" using keep [OF assms(4)] by simp_all
  moreover have "frame_mem ?s3 = (frame_mem s)(g := frame_mem s f)" using copy(1) by simp
  ultimately show ?thesis using eq gf hg g(5) by (intro exI [of _ ?s3] exI [of _ g]) simp
qed

text \<open>
  C9: a write to a user page whose frame other entries hold too gives the page a frame of
  its own with the same contents, writable; the old frame keeps its contents and all its other
  holders, and the accounting stays exact.
\<close>

theorem page_fault_cow:
  assumes "frames_ok M R s" "windows_ok s" "window_refs s \<inter> R = {}" "r \<in> R" "nframes s \<noteq> 0"
    and "lookup_page (current_page_dir s) cr2 s = Some r" "cow_fault err r s"
    and "addr (ent r s) = f" "f \<noteq> 0" "holders R s f \<noteq> {r}"
  shows "\<exists>s' g. page_fault kce eip err cr2 s = ret s' \<and> frames_ok M R s' \<and> same_windows s s' \<and>
    g \<noteq> f \<and> holders R s g = {} \<and> holders R s' g = {r} \<and> holders R s' f = holders R s f - {r} \<and>
    rw (ent r s') \<and> addr (ent r s') = g \<and> (\<forall>q \<in> R - {r}. ent q s' = ent q s) \<and>
    frame_mem s' = (frame_mem s)(g := frame_mem s f)"
  by (rule cow_done [OF assms])

lemma last_done:
  assumes "frames_ok M R s" "r \<in> R"
    and "lookup_page (current_page_dir s) cr2 s = Some r" "cow_fault err r s"
    and "addr (ent r s) = f" "f \<noteq> 0" "holders R s f = {r}"
  shows "page_fault kce eip err cr2 s = ret (upd_ent r (\<lambda>e. e\<lparr>rw := True\<rparr>) s) \<and>
    frames_ok M R (upd_ent r (\<lambda>e. e\<lparr>rw := True\<rparr>) s)"
proof -
  have fM: "f \<in> M" using frames_okD(4) [OF assms(1,2)] assms(5,6) by simp
  have "unat (frame_ref_cnt s (ucast f)) = 1" using frames_okD(5) [OF assms(1) fM] assms(7) by simp
  then have "frame_ref_cnt s (ucast f) = 1" by (metis unat_1 word_unat_eq_iff)
  then have "page_fault kce eip err cr2 s = ret (upd_ent r (\<lambda>e. e\<lparr>rw := True\<rparr>) s)"
    using page_fault_cow_eq [OF assms(3-6)] by simp
  moreover have "frames_ok M R (upd_ent r (\<lambda>e. e\<lparr>rw := True\<rparr>) s)"
    by (rule frames_ok_upd_ent [OF assms(1)]) simp
  ultimately show ?thesis by blast
qed

text \<open>
  A write to a copy-on-write page that is the last holder of its frame only makes the page
  writable again: no frame is taken and nothing is copied.
\<close>

theorem page_fault_last_holder:
  assumes "frames_ok M R s" "r \<in> R"
    and "lookup_page (current_page_dir s) cr2 s = Some r" "cow_fault err r s"
    and "addr (ent r s) = f" "f \<noteq> 0" "holders R s f = {r}"
  shows "page_fault kce eip err cr2 s = ret (upd_ent r (\<lambda>e. e\<lparr>rw := True\<rparr>) s) \<and>
    frames_ok M R (upd_ent r (\<lambda>e. e\<lparr>rw := True\<rparr>) s)"
  by (rule last_done [OF assms])

section \<open>Fatal faults\<close>

text \<open>The access that faulted is not one the page's entry allows, now or after a copy.\<close>

definition illegal_access :: "u32 \<Rightarrow> u32 \<Rightarrow> u32 \<Rightarrow> u32 \<Rightarrow> 'a page_state_scheme \<Rightarrow> bool" where
  "illegal_access kce eip err cr2 s \<longleftrightarrow>
     (case lookup_page (current_page_dir s) cr2 s of None \<Rightarrow> True
      | Some r \<Rightarrow> \<not> allocable (ent r s) \<or> \<not> user (ent r s) \<and> kce \<le> eip \<or>
          err AND 1 \<noteq> 0 \<and> \<not> (err AND 2 \<noteq> 0 \<and> user (ent r s) \<and> addr (ent r s) \<noteq> 0))"

text \<open>Serving the fault takes a frame: the page is absent and has none, or it is present and other entries hold its frame too.\<close>

definition takes_frame :: "entry_ref set \<Rightarrow> u32 \<Rightarrow> u32 \<Rightarrow> 'a page_state_scheme \<Rightarrow> bool" where
  "takes_frame R err cr2 s \<longleftrightarrow>
     (\<exists>r. lookup_page (current_page_dir s) cr2 s = Some r \<and>
        (if err AND 1 = 0 then addr (ent r s) = 0 else holders R s (addr (ent r s)) \<noteq> {r}))"

lemma no_frames_left:
  assumes "frames_ok M R s"
  shows "nframes s = 0 \<longleftrightarrow> (\<forall>f \<in> M. holders R s f \<noteq> {})"
proof -
  have "free_stack s ` {..<unat (nframes s)} = ucast ` {f \<in> M. holders R s f = {}}" using assms by (simp add: frames_ok_def)
  from arg_cong [OF this, of "\<lambda>A. A = {}"] have "{..<unat (nframes s)} = {} \<longleftrightarrow> {f \<in> M. holders R s f = {}} = {}"
    unfolding image_is_empty .
  then have "unat (nframes s) = 0 \<longleftrightarrow> (\<forall>f \<in> M. holders R s f \<noteq> {})" unfolding lessThan_empty_iff bot_nat_def by blast
  then show ?thesis by (simp only: unsigned_eq_0_iff)
qed

text \<open>With exact accounting the count of a frame tells whether an entry is its only holder.\<close>

lemma sole_holder:
  assumes "frames_ok M R s" "r \<in> R" "addr (ent r s) \<noteq> 0"
  shows "frame_ref_cnt s (ucast (addr (ent r s))) \<noteq> 0" "frame_ref_cnt s (ucast (addr (ent r s))) = 1 \<longleftrightarrow> holders R s (addr (ent r s)) = {r}"
proof -
  let ?H = "holders R s (addr (ent r s))"
  have r: "r \<in> ?H" using assms(2) by (simp add: holders_def)
  have fin: "finite ?H" using frames_okD(1) [OF assms(1)] by simp
  have "unat (frame_ref_cnt s (ucast (addr (ent r s)))) = card ?H" using frames_okD(5) [OF assms(1) frames_okD(4) [OF assms]] r by blast
  moreover have "card ?H \<noteq> 0" using r fin by auto
  moreover have "card ?H = 1 \<longleftrightarrow> ?H = {r}" using r by (auto simp: card_1_singleton_iff)
  moreover have "frame_ref_cnt s g = 1 \<longleftrightarrow> unat (frame_ref_cnt s g) = 1" for g by (simp add: word_unat_eq_iff)
  ultimately show "frame_ref_cnt s (ucast (addr (ent r s))) \<noteq> 0" "frame_ref_cnt s (ucast (addr (ent r s))) = 1 \<longleftrightarrow> ?H = {r}" by auto
qed

text \<open>
  C32: with exact accounting, the handler has three outcomes, each under exactly its condition. It panics with "page fault" when the page
  has no table or is not allocable, when user code touches a kernel page, or on a protection
  fault that is not a write to a user page with a frame; its "frame reference count error" branch is unreachable. It panics with
  "no free frame" when the access is legal, serving it takes a frame - the page has none, or shares its frame with another entry - and
  every frame of the machine is held by some entry. In all other cases it returns.
\<close>

theorem page_fault_fatal:
  assumes "frames_ok M R s" "\<forall>r. lookup_page (current_page_dir s) cr2 s = Some r \<longrightarrow> r \<in> R"
  shows "(page_fault kce eip err cr2 s = halt (Panic ''page fault'') \<longleftrightarrow> illegal_access kce eip err cr2 s) \<and>
    (page_fault kce eip err cr2 s = halt (Panic ''no free frame'') \<longleftrightarrow>
      \<not> illegal_access kce eip err cr2 s \<and> takes_frame R err cr2 s \<and> (\<forall>f \<in> M. holders R s f \<noteq> {})) \<and>
    ((\<exists>s'. page_fault kce eip err cr2 s = ret s') \<longleftrightarrow>
      \<not> illegal_access kce eip err cr2 s \<and> (takes_frame R err cr2 s \<longrightarrow> (\<exists>f \<in> M. holders R s f = {})))"
proof (cases "lookup_page (current_page_dir s) cr2 s")
  case None
  then show ?thesis by (simp add: page_fault_def illegal_access_def)
next
  case (Some r)
  then have r: "r \<in> R" using assms(2) by simp
  have free: "(\<forall>f \<in> M. holders R s f \<noteq> {}) \<longleftrightarrow> nframes s = 0" "(\<exists>f \<in> M. holders R s f = {}) \<longleftrightarrow> nframes s \<noteq> 0"
    using no_frames_left [OF assms(1)] by auto
  note sole = sole_holder [OF assms(1) r]
  show ?thesis unfolding free illegal_access_def takes_frame_def Some
    using sole by (cases "addr (ent r s) = 0") (auto simp: page_fault_def Some Let_def entry_alloc_cases not_le)
qed

section \<open>Cloning a table\<close>

lemma ent_zero_table [simp]: "fst q \<noteq> d \<Longrightarrow> ent q (s\<lparr>tabs := (tabs s)(d := zero_table)\<rparr>) = ent q s"
  by (simp add: ent_def)

lemma zero_table_frames_ok:
  assumes "frames_ok M R s" "\<forall>q \<in> R. fst q \<noteq> d"
  shows "frames_ok M R (s\<lparr>tabs := (tabs s)(d := zero_table)\<rparr>)"
  using assms(1) by (rule frames_ok_same) (use assms(2) in simp_all)

text \<open>
  C20: \<^verbatim>\<open>clone_table\<close> makes both tables hold the same frames, every one of them read-only in
  both, without touching the contents of any frame, and counts the new references exactly.
\<close>

theorem clone_table_shares:
  assumes "km sizeof_Table_t 12 s = ret (d, s0)" "kernel_write d s0 = ret s1" "frames_ok M R s1" "table_refs p \<subseteq> R" "\<forall>q \<in> R. fst q \<noteq> d"
    and "card R + 1024 < 2 ^ 32"
  shows "\<exists>s'. clone_table km p base s = ret (d, s') \<and> frames_ok M (R \<union> table_refs d) s' \<and>
    (\<forall>i < 1024. ent (d, i) s' = ent (p, i) s' \<and> addr (ent (p, i) s') = addr (ent (p, i) s1) \<and>
      (addr (ent (p, i) s') \<noteq> 0 \<longrightarrow> \<not> rw (ent (p, i) s'))) \<and>
    (\<forall>q. fst q \<noteq> d \<and> q \<notin> table_refs p \<longrightarrow> ent q s' = ent q s1) \<and> frame_mem s' = frame_mem s1"
proof -
  let ?s2 = "s1\<lparr>tabs := (tabs s1)(d := zero_table)\<rparr>"
  have "(p, 0) \<in> table_refs p" by (simp add: table_refs_def)
  then have "(p, 0) \<in> R" using assms(4) by blast
  then have dp: "d \<noteq> p" using assms(5) by auto
  have dR: "table_refs d \<inter> R = {}" using assms(5) by (auto simp: table_refs_def)
  note cl = clone_entries [OF zero_table_frames_ok [OF assms(3,5)] dp assms(4) dR assms(6) order_refl, of base]
  let ?s' = "fold (clone_entry d p base) [0..<1024] ?s2"
  have ents: "ent q ?s' = (if (fst q = d \<or> fst q = p) \<and> snd q < 1024
       then (let e = ent (p, snd q) ?s2 in if addr e \<noteq> 0 then e\<lparr>rw := False\<rparr> else e) else ent q ?s2)" for q
    using cl by blast
  have p2: "ent (p, i) ?s2 = ent (p, i) s1" for i using dp by simp
  have "clone_table km p base s = ret (d, ?s')" using assms(1,2) by (simp add: clone_table_def Let_def)
  moreover have "frames_ok M (R \<union> table_refs d) ?s'" using cl by (simp only: table_refs_def)
  moreover have "\<forall>i < 1024. ent (d, i) ?s' = ent (p, i) ?s' \<and> addr (ent (p, i) ?s') = addr (ent (p, i) s1) \<and>
      (addr (ent (p, i) ?s') \<noteq> 0 \<longrightarrow> \<not> rw (ent (p, i) ?s'))"
    unfolding ents p2 by (simp add: Let_def)
  moreover have "ent q ?s' = ent q s1" if "fst q \<noteq> d" "q \<notin> table_refs p" for q
  proof -
    have "\<not> ((fst q = d \<or> fst q = p) \<and> snd q < 1024)" using that by (cases q) (auto simp: table_refs_def)
    then have "ent q ?s' = ent q ?s2" unfolding ents by (rule if_not_P)
    then show ?thesis using that(1) by simp
  qed
  moreover have "frame_mem ?s' = frame_mem s1" using cl by simp
  ultimately show ?thesis by blast
qed

section \<open>Every sequence of page operations\<close>

text \<open>
  The steps: a fault the handler survives, the entry operations, cloning a table, and loading
  another directory, all of which link the kernel tables, so that the windows stay mapped.
\<close>

inductive page_step ::
  "frame_no set \<Rightarrow> entry_ref set \<times> 'a page_state_scheme \<Rightarrow> entry_ref set \<times> 'a page_state_scheme \<Rightarrow> bool"
  for M :: "frame_no set" where
  Fault: "page_fault kce eip err cr2 s = ret s' \<Longrightarrow>
    \<forall>r. lookup_page (current_page_dir s) cr2 s = Some r \<longrightarrow> r \<in> R \<Longrightarrow> page_step M (R, s) (R, s')"
| Alloc: "r \<in> R \<Longrightarrow> entry_alloc r u w s = ret s' \<Longrightarrow> page_step M (R, s) (R, s')"
| Lazy: "r \<in> R \<Longrightarrow> page_step M (R, s) (R, entry_lazy_alloc r u w z s)"
| Free: "r \<in> R \<Longrightarrow> page_step M (R, s) (R, entry_free r s)"
| Clone: "table_refs p \<subseteq> R \<Longrightarrow> \<forall>q \<in> R \<union> window_refs s. fst q \<noteq> d \<Longrightarrow> card R + 1024 < 2 ^ 32 \<Longrightarrow>
    page_step M (R, s) (R \<union> table_refs d, fold (clone_entry d p base) [0..<1024] (s\<lparr>tabs := (tabs s)(d := zero_table)\<rparr>))"
| Switch: "tables (dirs s d) (tb_idx (empty_page0_addr s)) = fst (empty_page0_ptr s) \<Longrightarrow>
    tables (dirs s d) (tb_idx (empty_page1_addr s)) = fst (empty_page1_ptr s) \<Longrightarrow>
    page_step M (R, s) (R, enable d s)"

definition page_inv :: "frame_no set \<Rightarrow> entry_ref set \<times> 'a page_state_scheme \<Rightarrow> bool" where
  "page_inv M x \<longleftrightarrow> (case x of (R, s) \<Rightarrow> frames_ok M R s \<and> windows_ok s \<and> window_refs s \<inter> R = {})"

lemma same_windows_intros [simp]: "same_windows s (upd_ent r f s)" "same_windows s (entry_free r s)"
  by (simp_all add: same_windows_def entry_free_def Let_def)

lemma page_inv_same:
  assumes "page_inv M (R, s)" "frames_ok M R s'" "same_windows s s'"
  shows "page_inv M (R, s')"
  using assms windows_ok_cong [OF assms(3)] by (simp add: page_inv_def)

lemma page_inv_alloc:
  assumes "page_inv M (R, s)" "r \<in> R" "entry_alloc r u w s = ret s'"
  shows "page_inv M (R, s')"
proof -
  have ok: "frames_ok M R s" using assms(1) by (simp add: page_inv_def)
  from entry_alloc_frames [OF ok assms(2), of u w] assms(3) consider
    "s' = upd_ent r (\<lambda>e. e\<lparr>rw := w, user := u\<rparr>) s" "frames_ok M R s'"
    | f where "s' = popped r u w f s" "frames_ok M R s'" by fastforce
  then show ?thesis
    by cases (auto intro!: page_inv_same [OF assms(1)])
qed

lemma page_inv_fill:
  assumes inv: "page_inv M (R, s)" and r: "r \<in> R"
  shows "page_inv M (R, fill_uint32 r v s)"
proof -
  have ok: "frames_ok M R s" "windows_ok s" "r \<notin> window_refs s" using inv r by (auto simp: page_inv_def)
  note fill = fill_uint32_correct [OF ok(2,3), where val = v]
  have keep: "ent q (fill_uint32 r v s) = ent q s" if "q \<in> R" for q
  proof -
    have "q \<notin> window_refs s" using inv that by (auto simp: page_inv_def)
    then show ?thesis by (rule fill(2))
  qed
  have "frames_ok M R (fill_uint32 r v s)" using ok(1)
    by (rule frames_ok_same) (use fill(3) keep in \<open>simp_all add: same_frames_def\<close>)
  then show ?thesis by (rule page_inv_same [OF inv]) (rule same_frames_windows [OF fill(3)])
qed

lemma page_inv_lazy:
  assumes inv: "page_inv M (R, s)" and r: "r \<in> R"
  shows "page_inv M (R, entry_lazy_alloc r u w z s)"
proof -
  let ?s1 = "upd_ent r (\<lambda>e. e\<lparr>rw := w, user := u\<rparr>) s"
  have ok: "frames_ok M R s" "windows_ok s" "window_refs s \<inter> R = {}" using inv by (simp_all add: page_inv_def)
  have w1: "same_windows s ?s1" by (simp add: same_windows_def)
  have ok1: "frames_ok M R ?s1" by (rule frames_ok_upd_ent [OF ok(1)]) simp
  have inv1: "page_inv M (R, ?s1)" by (rule page_inv_same [OF inv ok1 w1])
  consider "addr (ent r s) = 0" | "addr (ent r s) \<noteq> 0" "z" | "addr (ent r s) \<noteq> 0" "\<not> z" by blast
  then show ?thesis
  proof cases
    case 1
    have "frames_ok M R (upd_ent r (\<lambda>e. e\<lparr>allocable := True, alloc_fill := of_bool z\<rparr>) ?s1)"
      by (rule frames_ok_upd_ent [OF ok1]) simp
    then have "page_inv M (R, upd_ent r (\<lambda>e. e\<lparr>allocable := True, alloc_fill := of_bool z\<rparr>) ?s1)"
      by (rule page_inv_same [OF inv1]) (simp add: same_windows_def)
    then show ?thesis using 1 by (simp add: entry_lazy_alloc_def Let_def)
  next
    case 2
    have "page_inv M (R, fill_uint32 r 0 ?s1)" by (rule page_inv_fill [OF inv1 r])
    then show ?thesis using 2 by (simp add: entry_lazy_alloc_def Let_def)
  next
    case 3
    then show ?thesis using inv1 by (simp add: entry_lazy_alloc_def Let_def)
  qed
qed

lemma page_inv_fault:
  assumes inv: "page_inv M (R, s)" and f: "page_fault kce eip err cr2 s = ret s'"
    and R: "\<forall>r. lookup_page (current_page_dir s) cr2 s = Some r \<longrightarrow> r \<in> R"
  shows "page_inv M (R, s')"
proof -
  have ok: "frames_ok M R s" "windows_ok s" "window_refs s \<inter> R = {}" using inv by (simp_all add: page_inv_def)
  from f obtain r where r: "lookup_page (current_page_dir s) cr2 s = Some r"
    by (cases "lookup_page (current_page_dir s) cr2 s") (auto simp: page_fault_def)
  then have rR: "r \<in> R" using R by simp
  have fault: "demand_fault kce eip err r s \<or> cow_fault err r s \<and> addr (ent r s) \<noteq> 0 \<and>
      frame_ref_cnt s (ucast (addr (ent r s))) \<noteq> 0"
    using f r by (auto simp: page_fault_def demand_fault_def cow_fault_def Let_def split: if_splits)
  then consider (demand) "demand_fault kce eip err r s" "addr (ent r s) = 0"
    | (present) "demand_fault kce eip err r s" "addr (ent r s) \<noteq> 0"
    | (last) "cow_fault err r s" "addr (ent r s) \<noteq> 0" "holders R s (addr (ent r s)) = {r}"
    | (cow) "cow_fault err r s" "addr (ent r s) \<noteq> 0" "holders R s (addr (ent r s)) \<noteq> {r}" by blast
  then show ?thesis
  proof cases
    case demand
    have "nframes s \<noteq> 0" using f page_fault_demand_eq [OF r demand(1)] demand(2) by (auto simp: entry_alloc_cases)
    from demand_done [OF ok rR this r demand] f show ?thesis by (auto intro: page_inv_same [OF inv])
  next
    case present
    let ?s1 = "upd_ent r (\<lambda>e. e\<lparr>rw := rw (ent r s), user := user (ent r s)\<rparr>) s"
    have "entry_alloc r (user (ent r s)) (rw (ent r s)) s = ret ?s1" using present(2) by (simp add: entry_alloc_cases)
    then have s': "s' = (if alloc_fill (ent r ?s1) \<noteq> 0 then fill_uint32 r 0 ?s1 else ?s1)"
      and inv1: "page_inv M (R, ?s1)"
      using f page_fault_demand_eq [OF r present(1)] page_inv_alloc [OF inv rR] by auto
    show ?thesis unfolding s' using page_inv_fill [OF inv1 rR] inv1 by simp
  next
    case last
    then show ?thesis using last_done [OF ok(1) rR r last(1) refl last(2,3)] f
      by (auto intro: page_inv_same [OF inv])
  next
    case cow
    note 1 = cow_done [OF ok rR _ r cow(1) refl cow(2,3)]
    show ?thesis
    proof (cases "nframes s = 0")
      case True
      have "frame_ref_cnt s (ucast (addr (ent r s))) \<noteq> 1"
        using cow last_holder_iff [OF ok(1) rR] by blast
      then have False
        using f cow(1) page_fault_cow_eq [OF r cow(1) refl cow(2), of kce eip] fault True
        by (auto simp: entry_alloc_cases cow_fault_def demand_fault_def)
      then show ?thesis ..
    next
      case False
      from 1 [OF this, of kce eip] f show ?thesis by (auto intro: page_inv_same [OF inv])
    qed
  qed
qed

lemma page_inv_clone:
  assumes inv: "page_inv M (R, s)" and p: "table_refs p \<subseteq> R" and d: "\<forall>q \<in> R \<union> window_refs s. fst q \<noteq> d"
    and small: "card R + 1024 < 2 ^ 32"
  shows "page_inv M (R \<union> table_refs d, fold (clone_entry d p base) [0..<1024] (s\<lparr>tabs := (tabs s)(d := zero_table)\<rparr>))"
proof -
  let ?s = "s\<lparr>tabs := (tabs s)(d := zero_table)\<rparr>"
  have ok: "frames_ok M R s" "windows_ok s" "window_refs s \<inter> R = {}" using inv by (simp_all add: page_inv_def)
  have "(p, 0) \<in> table_refs p" by (simp add: table_refs_def)
  then have "(p, 0) \<in> R \<union> window_refs s" using p by blast
  then have "fst (p, 0 :: nat) \<noteq> d" using d by (rule bspec [rotated])
  then have dp: "d \<noteq> p" by simp
  have "\<forall>q \<in> R. fst q \<noteq> d" using d by blast
  then have dR: "table_refs d \<inter> R = {}" by (auto simp: table_refs_def)
  have "frames_ok M R ?s" using zero_table_frames_ok [OF ok(1)] d by simp
  note cl = clone_entries [OF this dp p dR small order_refl, of base]
  let ?s' = "fold (clone_entry d p base) [0..<1024] ?s"
  have "same_windows s ?s" by (simp add: same_windows_def)
  then have win: "same_windows s ?s'" using cl same_windows_trans by blast
  have "\<forall>q \<in> window_refs s. fst q \<noteq> d" using d by blast
  then have "window_refs s \<inter> table_refs d = {}" by (auto simp: table_refs_def)
  then show ?thesis using cl windows_ok_cong [OF win] ok by (auto simp: page_inv_def table_refs_def)
qed

lemma page_inv_switch:
  assumes "page_inv M (R, s)" "tables (dirs s d) (tb_idx (empty_page0_addr s)) = fst (empty_page0_ptr s)"
    "tables (dirs s d) (tb_idx (empty_page1_addr s)) = fst (empty_page1_ptr s)"
  shows "page_inv M (R, enable d s)"
proof -
  have ok: "frames_ok M R s" "windows_ok s" "window_refs s \<inter> R = {}" using assms(1) by (simp_all add: page_inv_def)
  have "frames_ok M R (enable d s)" using ok(1) by (rule frames_ok_same) (simp_all add: enable_def ent_def)
  moreover have "windows_ok (enable d s)"
    using ok(2) assms(2,3) by (simp add: windows_ok_def enable_def prod_eq_iff)
  ultimately show ?thesis using ok(3) by (simp add: page_inv_def window_refs_def enable_def)
qed

lemma page_step_inv: "page_step M x y \<Longrightarrow> page_inv M x \<Longrightarrow> page_inv M y"
proof (induction rule: page_step.induct)
  case (Free r R s)
  then show ?case
    by (intro page_inv_same [OF Free.prems] entry_free_frames_ok) (simp_all add: page_inv_def)
qed (blast intro: page_inv_fault page_inv_alloc page_inv_lazy page_inv_clone page_inv_switch)+

text \<open>
  C8: the frame accounting is an invariant of the system: after any sequence of survived
  faults, page allocations, lazy allocations, frees, table clonings and directory switches, every
  managed frame that is held has as its reference count the number of entries holding it, and the free frames
  on the stack are exactly the frames that no entry holds, each once; no frame is lost,
  handed out twice or freed while in use.
\<close>

theorem page_accounting:
  assumes "page_inv M (R, s)" "(page_step M)\<^sup>*\<^sup>* (R, s) (R', s')"
  shows "page_inv M (R', s') \<and> unat (nframes s') = card {f \<in> M. holders R' s' f = {}} \<and>
    (\<forall>f \<in> M. holders R' s' f \<noteq> {} \<longrightarrow> unat (frame_ref_cnt s' (ucast f)) = card (holders R' s' f))"
proof -
  from assms(2) have "page_inv M (R', s')"
  proof (induction rule: rtranclp_induct2)
    case refl
    show ?case by (rule assms(1))
  next
    case (step R1 s1 R2 s2)
    from page_step_inv [OF step(2,3)] show ?case .
  qed
  then show ?thesis using nframes_card frames_okD(5) by (fastforce simp: page_inv_def)
qed

section \<open>Concrete instances\<close>

text \<open>
  Page 0, and page 1 if \<open>shared\<close>, hold frame 5; page 2 is to be allocated on demand and
  cleared; frame 6 is free. The windows are the first two pages of another table.
\<close>

definition demo_entry :: "bool \<Rightarrow> 2 word \<Rightarrow> frame_no \<Rightarrow> Table_entry_t" where
  "demo_entry there fill f =
     zero_entry\<lparr>present := there, user := True, allocable := True, alloc_fill := fill, addr := f\<rparr>"

definition demo_pages :: "bool \<Rightarrow> page_state" where
  "demo_pages shared =
     \<lparr>kheap_finish_init_called = True, kheap_static_end = 0, USER_MEM_LOW = 0, USER_MEM_HIGH = 0,
      mm = \<lparr>static_mem = 0, freed = (\<lambda>_. 0), nstatic_mem = 0, nfreed = 0\<rparr>,
      tree_size = \<lparr>NIL = 0, tree_root = 0, node = (\<lambda>_. \<lparr>par_and_color = 0, ch0 = 0, ch1 = 0, key = \<lparr>start = 0, bsize = 0\<rparr>\<rparr>)\<rparr>,
      tree_start = \<lparr>NIL = 0, tree_root = 0, node = (\<lambda>_. \<lparr>par_and_color = 0, ch0 = 0, ch1 = 0, key = \<lparr>start = 0, bsize = 0\<rparr>\<rparr>)\<rparr>,
      kmem = (\<lambda>_. 0), current_page_dir = 0x1000,
      dirs = (\<lambda>_. \<lparr>tables = (\<lambda>i. if i = 0 then 0x2000 else 0x3000), dentries = (\<lambda>_. zero_dentry), phyaddr = 0\<rparr>),
      tabs = (\<lambda>t i. if t = 0x2000 \<and> (i = 0 \<or> i = 1 \<and> shared) then demo_entry True 0 5
        else if t = 0x2000 \<and> i = 2 then demo_entry False 1 0 else zero_entry),
      frames = (\<lambda>_. 6), nframes = 1, frame_ref_cnt = (\<lambda>f. if f = 5 then (if shared then 2 else 1) else 0),
      empty_page0_addr = 0xF0000000, empty_page1_addr = 0xF0001000, kernel_low_ntable = 0,
      empty_page0_ptr = (0x3000, 0), empty_page1_ptr = (0x3000, 1), init_finished = True,
      frame_mem = (\<lambda>f w. if f = 5 then 42 else 7), tlb = [0xF0000 \<mapsto> 9], cr3 = 0, paging_on = True\<rparr>"

lemma demo_fields:
  "nframes (demo_pages b) = 1" "frames (demo_pages b) = (\<lambda>_. 6)"
  "frame_ref_cnt (demo_pages b) = (\<lambda>f. if f = 5 then (if b then 2 else 1) else 0)"
  "current_page_dir (demo_pages b) = 0x1000" "empty_page0_ptr (demo_pages b) = (0x3000, 0)"
  "empty_page1_ptr (demo_pages b) = (0x3000, 1)" "empty_page0_addr (demo_pages b) = 0xF0000000"
  "empty_page1_addr (demo_pages b) = 0xF0001000" "tables (dirs (demo_pages b) d) = (\<lambda>i. if i = 0 then 0x2000 else 0x3000)"
  by (simp_all add: demo_pages_def)

lemma demo_ent:
  "ent (0x2000, i) (demo_pages b) = (if i = 0 \<or> i = 1 \<and> b then demo_entry True 0 5
     else if i = 2 then demo_entry False 1 0 else zero_entry)"
  by (simp add: ent_def demo_pages_def)

lemma demo_holders:
  "f \<noteq> 0 \<Longrightarrow> holders (table_refs 0x2000) (demo_pages b) f =
     (if f = 5 then (if b then {(0x2000, 0), (0x2000, 1)} else {(0x2000, 0)}) else {})"
  by (auto simp: holders_def table_refs_def demo_ent demo_entry_def zero_entry_def split: if_splits)

lemma demo_inv: "page_inv {5, 6} (table_refs 0x2000, demo_pages b)"
proof -
  have "frames_ok {5, 6} (table_refs 0x2000) (demo_pages b)"
  proof (rule frames_okI)
    show "card (table_refs 0x2000) < 2 ^ 32" by (simp add: table_refs_def)
    show "addr (ent r (demo_pages b)) \<in> {5, 6}" if "r \<in> table_refs 0x2000" "addr (ent r (demo_pages b)) \<noteq> 0" for r
      using that by (cases r) (auto simp: table_refs_def demo_ent demo_entry_def zero_entry_def split: if_splits)
    show "unat (frame_ref_cnt (demo_pages b) (ucast f)) = card (holders (table_refs 0x2000) (demo_pages b) f)"
      if "f \<in> {5, 6}" for f :: frame_no using that by (auto simp: demo_fields demo_holders)
    have "{f \<in> {5, 6}. holders (table_refs 0x2000) (demo_pages b) f = {}} = {6}" by (auto simp: demo_holders split: if_splits)
    then show "free_stack (demo_pages b) ` {..<unat (nframes (demo_pages b))} =
      ucast ` {f \<in> {5, 6}. holders (table_refs 0x2000) (demo_pages b) f = {}}"
      by (auto simp: demo_fields free_stack_def)
  qed (simp_all add: table_refs_def demo_fields lessThan_Suc)
  then show ?thesis
    by (auto simp: page_inv_def windows_ok_def window_refs_def table_refs_def demo_fields tb_idx_def tb_offset_def vpn_def)
qed

lemmas demo_ok = demo_inv [unfolded page_inv_def prod.case]

lemma demo_lookup: "lookup_page 0x1000 0x2000 (demo_pages b) = Some (0x2000, 2)"
  "lookup_page 0x1000 0 (demo_pages b) = Some (0x2000, 0)"
  by (simp_all add: lookup_page_def demo_fields tb_idx_def tb_offset_def Let_def)

lemma demo_faults:
  "demand_fault kce eip 4 (0x2000, 2) (demo_pages b)" "cow_fault 7 (0x2000, 0) (demo_pages b)"
  "addr (ent (0x2000, 2) (demo_pages b)) = 0" "addr (ent (0x2000, 0) (demo_pages b)) = 5"
  "(0x2000, 0) \<in> table_refs 0x2000" "(0x2000, 2) \<in> table_refs 0x2000"
  by (simp_all add: demand_fault_def cow_fault_def demo_ent demo_entry_def zero_entry_def table_refs_def)

lemma demo_current: "lookup_page (current_page_dir (demo_pages b)) 0x2000 (demo_pages b) = Some (0x2000, 2)"
  "lookup_page (current_page_dir (demo_pages b)) 0 (demo_pages b) = Some (0x2000, 0)" "nframes (demo_pages b) \<noteq> 0"
  by (simp_all add: demo_lookup demo_fields)

theorem page_fault_demand_witness:
  "\<exists>s' f. page_fault 0x200000 0x8000000 4 0x2000 (demo_pages True) = ret s' \<and>
    holders (table_refs 0x2000) s' f = {(0x2000, 2)} \<and> frames_ok {5, 6} (table_refs 0x2000) s'"
  using page_fault_demand [OF conjunct1 [OF demo_ok] conjunct1 [OF conjunct2 [OF demo_ok]]
      conjunct2 [OF conjunct2 [OF demo_ok]] demo_faults(6) demo_current(3) demo_current(1) demo_faults(1,3)]
  by blast

theorem page_fault_cow_witness:
  "\<exists>s' g. page_fault 0x200000 0x8000000 7 0 (demo_pages True) = ret s' \<and> g \<noteq> 5 \<and>
    frame_mem s' = (frame_mem (demo_pages True))(g := frame_mem (demo_pages True) 5)"
proof -
  have "holders (table_refs 0x2000) (demo_pages True) 5 \<noteq> {(0x2000, 0)}" by (auto simp: demo_holders)
  from page_fault_cow [OF conjunct1 [OF demo_ok] conjunct1 [OF conjunct2 [OF demo_ok]]
      conjunct2 [OF conjunct2 [OF demo_ok]] demo_faults(5) demo_current(3) demo_current(2) demo_faults(2,4) _ this, of "0x200000" "0x8000000"]
  show ?thesis by auto
qed

theorem page_fault_last_holder_witness:
  "page_fault 0x200000 0x8000000 7 0 (demo_pages False) = ret (upd_ent (0x2000, 0) (\<lambda>e. e\<lparr>rw := True\<rparr>) (demo_pages False))"
  using page_fault_last_holder [OF conjunct1 [OF demo_ok] demo_faults(5) demo_current(2) demo_faults(2,4)]
  by (simp add: demo_holders)

text \<open>After the page at \<open>0x2000\<close> got the last frame, the page at \<open>0\<close> cannot get a copy of its shared one.\<close>

lemma demo_exhausted:
  obtains s where "page_fault 0x200000 0x8000000 4 0x2000 (demo_pages True) = ret s" "frames_ok {5, 6} (table_refs 0x2000) s"
    "lookup_page (current_page_dir s) 0 s = Some (0x2000, 0)" "ent (0x2000, 0) s = demo_entry True 0 5"
    "holders (table_refs 0x2000) s 5 \<noteq> {(0x2000, 0)}" "\<forall>f \<in> {5, 6}. holders (table_refs 0x2000) s f \<noteq> {}"
proof -
  from demand_done [OF conjunct1 [OF demo_ok] conjunct1 [OF conjunct2 [OF demo_ok]]
      conjunct2 [OF conjunct2 [OF demo_ok]] demo_faults(6) demo_current(3) demo_current(1) demo_faults(1,3)]
  obtain s f where s: "page_fault 0x200000 0x8000000 4 0x2000 (demo_pages True) = ret s" "frames_ok {5, 6} (table_refs 0x2000) s"
    "same_windows (demo_pages True) s" "f \<in> {5, 6}" "holders (table_refs 0x2000) (demo_pages True) f = {}"
    "holders (table_refs 0x2000) s f = {(0x2000, 2)}" "\<forall>q \<in> table_refs 0x2000 - {(0x2000, 2)}. ent q s = ent q (demo_pages True)" by blast
  have e: "ent (0x2000, i) s = demo_entry True 0 5" if "i = 0 \<or> i = 1" for i
    using s(7) that by (auto simp: table_refs_def demo_ent)
  then have "{(0x2000, 0), (0x2000, 1)} \<subseteq> holders (table_refs 0x2000) s 5" by (auto simp: holders_def table_refs_def demo_entry_def)
  then have 5: "holders (table_refs 0x2000) s 5 \<noteq> {(0x2000, 0)}" "holders (table_refs 0x2000) s 5 \<noteq> {}" by auto
  have "f = 6" using s(4,5) by (auto simp: demo_holders)
  then have "\<forall>f \<in> {5, 6}. holders (table_refs 0x2000) s f \<noteq> {}" using s(6) 5(2) by auto
  moreover have "lookup_page (current_page_dir s) 0 s = Some (0x2000, 0)" using s(3) demo_current(2) [of True] by (simp add: same_windows_def lookup_page_def)
  ultimately show thesis using that [OF s(1,2)] e 5(1) by blast
qed

theorem page_fault_fatal_witness:
  "page_fault 0x200000 0x8000000 5 0 (demo_pages True) = halt (Panic ''page fault'') \<and>
   (\<exists>s. page_fault 0x200000 0x8000000 4 0x2000 (demo_pages True) = ret s \<and> page_fault 0x200000 0x8000000 7 0 s = halt (Panic ''no free frame''))"
proof
  have in_R: "\<forall>r. lookup_page (current_page_dir (demo_pages True)) 0 (demo_pages True) = Some r \<longrightarrow> r \<in> table_refs 0x2000"
    using demo_faults(5) by (simp add: demo_current)
  have "illegal_access 0x200000 0x8000000 5 0 (demo_pages True)" by (simp add: illegal_access_def demo_current demo_ent demo_entry_def)
  with page_fault_fatal [OF conjunct1 [OF demo_ok] in_R, where kce = "0x200000" and eip = "0x8000000" and err = 5]
  show "page_fault 0x200000 0x8000000 5 0 (demo_pages True) = halt (Panic ''page fault'')" by blast
  obtain s where s: "page_fault 0x200000 0x8000000 4 0x2000 (demo_pages True) = ret s" "frames_ok {5, 6} (table_refs 0x2000) s"
    "lookup_page (current_page_dir s) 0 s = Some (0x2000, 0)" "ent (0x2000, 0) s = demo_entry True 0 5"
    "holders (table_refs 0x2000) s 5 \<noteq> {(0x2000, 0)}" "\<forall>f \<in> {5, 6}. holders (table_refs 0x2000) s f \<noteq> {}" by (rule demo_exhausted)
  have in_R': "\<forall>r. lookup_page (current_page_dir s) 0 s = Some r \<longrightarrow> r \<in> table_refs 0x2000" using s(3) by (simp add: table_refs_def)
  have "\<not> illegal_access 0x200000 0x8000000 7 0 s" "takes_frame (table_refs 0x2000) 7 0 s"
    using s(3-5) by (simp_all add: illegal_access_def takes_frame_def demo_entry_def zero_entry_def)
  then have "page_fault 0x200000 0x8000000 7 0 s = halt (Panic ''no free frame'')"
    using page_fault_fatal [OF s(2) in_R', where kce = "0x200000" and eip = "0x8000000" and err = 7] s(6) by blast
  with s(1) show "\<exists>s. page_fault 0x200000 0x8000000 4 0x2000 (demo_pages True) = ret s \<and> page_fault 0x200000 0x8000000 7 0 s = halt (Panic ''no free frame'')"
    by blast
qed

theorem clone_table_shares_witness:
  "\<exists>s'. clone_table (\<lambda>sz p s. ret (0x1000, s)) 0x2000 0 (demo_pages True) = ret (0x1000, s') \<and>
    ent (0x1000, 0) s' = ent (0x2000, 0) s' \<and> \<not> rw (ent (0x2000, 0) s')"
proof -
  have c: "card (table_refs 0x2000) + 1024 < 2 ^ 32" "\<forall>q \<in> table_refs 0x2000. fst q \<noteq> 0x1000"
    by (auto simp: table_refs_def)
  have w: "kernel_write 0x1000 (demo_pages True) = ret (demo_pages True)"
    by (simp add: kernel_write_def demo_fields lookup_page_def tb_idx_def tb_offset_def demo_ent demo_entry_def)
  from clone_table_shares [where km = "\<lambda>sz p s. ret (0x1000, s)" and s = "demo_pages True" and base = 0,
      OF refl w conjunct1 [OF demo_ok] subset_refl c(2,1)]
  obtain s' where "clone_table (\<lambda>sz p s. ret (0x1000, s)) 0x2000 0 (demo_pages True) = ret (0x1000, s')"
    "\<forall>i < 1024. ent (0x1000, i) s' = ent (0x2000, i) s' \<and>
      addr (ent (0x2000, i) s') = addr (ent (0x2000, i) (demo_pages True)) \<and>
      (addr (ent (0x2000, i) s') \<noteq> 0 \<longrightarrow> \<not> rw (ent (0x2000, i) s'))" by blast
  then show ?thesis using demo_faults(4) [of True] by (intro exI [of _ s']) simp
qed

theorem page_accounting_witness:
  "page_inv {5, 6} (table_refs 0x2000, entry_free (0x2000, 0) (demo_pages True))"
proof -
  have "page_step {5, 6} (table_refs 0x2000, demo_pages True) (table_refs 0x2000, entry_free (0x2000, 0) (demo_pages True))"
    by (rule page_step.Free [OF demo_faults(5)])
  from page_accounting [OF demo_inv r_into_rtranclp [of "page_step {5, 6}", OF this]] show ?thesis by blast
qed

end
