(* ===== verification/Page_Init.thy ===== *)
theory Page_Init
  imports Page_Thms Heap_Thms
begin

text \<open>
  \<^verbatim>\<open>Page::init\<close> brings up paging and the heap from a memory map: which frames it collects, the page tables
  it builds in static memory, and that the heap invariant and the frame accounting hold
  when it returns.
\<close>

section \<open>The memory map\<close>

text \<open>The entries the loops of \<^verbatim>\<open>init_frames\<close> visit, from address \<open>a\<close> to \<open>e\<close>.\<close>

fun mmap_chain :: "memory \<Rightarrow> u32 \<Rightarrow> u32 \<Rightarrow> Multiboot_mmap_entry_t list \<Rightarrow> bool" where
  "mmap_chain m e a [] \<longleftrightarrow> \<not> a < e"
| "mmap_chain m e a (x # xs) \<longleftrightarrow> a < e \<and> load_mmap_entry a m = x \<and> mmap_chain m e (a + (me_size x + 4)) xs"

definition available :: "Multiboot_mmap_entry_t \<Rightarrow> bool" where
  "available x \<longleftrightarrow> me_type x = MULTIBOOT_MEMORY_AVAILABLE"

text \<open>A region below 4 GB with at least two frames.\<close>

definition region_ok :: "Multiboot_mmap_entry_t \<Rightarrow> bool" where
  "region_ok x \<longleftrightarrow> me_addr x < 0xFFFFFFFF \<and> me_len x < 0xFFFFFFFF \<and> me_addr x + me_len x \<le> 0xFFFFFFFF \<and>
     0x2000 \<le> me_addr x + me_len x"

definition region_first :: "Multiboot_mmap_entry_t \<Rightarrow> nat" where
  "region_first x = (unat (me_addr x) + 4095) div 4096"

definition region_last :: "Multiboot_mmap_entry_t \<Rightarrow> nat" where
  "region_last x = unat (me_addr x + me_len x) div 4096"

text \<open>The frames taken from a region when static memory ends in frame \<open>k\<close>: the highest one is left out.\<close>

definition region_frames :: "nat \<Rightarrow> Multiboot_mmap_entry_t \<Rightarrow> nat list" where
  "region_frames k x = rev [max (region_first x) (Suc k)..<region_last x - 1]"

definition static_frame :: "'a kheap_state_scheme \<Rightarrow> nat" where
  "static_frame s = unat (kheap_static_end s) div 4096"

lemma unat_ucast_u32: "unat x < 2 ^ 32 \<Longrightarrow> unat (ucast (x :: u64) :: u32) = unat x"
  by (simp add: unsigned_ucast_eq take_bit_eq_mod)

lemma mmap_memsize_returns:
  "mmap_chain m (mmap_addr mbd + mmap_length mbd) a es \<Longrightarrow> \<forall>x \<in> set es. available x \<longrightarrow> region_ok x \<Longrightarrow>
    \<exists>n. mmap_memsize mbd m a memsize = ret n"
proof (induction es arbitrary: a memsize)
  case Nil
  then show ?case by (subst mmap_memsize.simps) auto
next
  case (Cons x es)
  then have step: "\<exists>n. mmap_memsize mbd m (a + (me_size x + 4)) k = ret n" for k by simp
  have "a < mmap_addr mbd + mmap_length mbd" "load_mmap_entry a m = x" using Cons.prems(1) by simp_all
  moreover have "\<not> (me_addr x \<ge> 0xFFFFFFFF \<or> me_len x \<ge> 0xFFFFFFFF \<or> me_addr x + me_len x > 0xFFFFFFFF)"
    if "me_type x = MULTIBOOT_MEMORY_AVAILABLE"
    using Cons.prems(2) that by (auto simp: available_def region_ok_def)
  ultimately show ?case using step by (subst mmap_memsize.simps) (simp add: Let_def)
qed

section \<open>Collecting frames\<close>

definition push_frame :: "u32 \<Rightarrow> 'a page_state_scheme \<Rightarrow> 'a page_state_scheme" where
  "push_frame f s = s\<lparr>frames := (frames s)(nframes s := f), nframes := nframes s + 1\<rparr>"

definition push_all :: "nat list \<Rightarrow> 'a page_state_scheme \<Rightarrow> 'a page_state_scheme" where
  "push_all fs = fold push_frame (map of_nat fs)"

lemma push_all_simps [simp]:
  "push_all [] s = s" "push_all (f # fs) s = push_all fs (push_frame (of_nat f) s)"
  "push_all (fs @ gs) s = push_all gs (push_all fs s)"
  by (simp_all add: push_all_def)

text \<open>Pushing changes the stack and nothing else.\<close>

lemma push_all_frame: "push_all fs s = s\<lparr>frames := frames (push_all fs s), nframes := nframes (push_all fs s)\<rparr>"
proof (induction fs arbitrary: s)
  case (Cons f fs)
  have "push_all (f # fs) s = (push_frame (of_nat f) s)\<lparr>frames := frames (push_all fs (push_frame (of_nat f) s)),
      nframes := nframes (push_all fs (push_frame (of_nat f) s))\<rparr>" using Cons by simp
  then show ?case by (simp add: push_frame_def)
qed simp

lemma push_all_stack:
  assumes "unat (nframes s) + length fs < 2 ^ 32"
  shows "unat (nframes (push_all fs s)) = unat (nframes s) + length fs \<and>
    (\<forall>i < unat (nframes s) + length fs. free_stack (push_all fs s) i =
      (if i < unat (nframes s) then free_stack s i else of_nat (fs ! (i - unat (nframes s)))))"
  using assms
proof (induction fs arbitrary: s)
  case (Cons f fs)
  let ?s = "push_frame (of_nat f) s"
  have n: "unat (nframes ?s) = Suc (unat (nframes s))"
    using Cons.prems unat_add [of "nframes s" 1] by (simp add: push_frame_def)
  have st: "free_stack ?s i = (if i = unat (nframes s) then of_nat f else free_stack s i)" if "i < 2 ^ 32" for i
  proof -
    have "of_nat i = nframes s \<longleftrightarrow> i = unat (nframes s)" using that unat_of_nat_small [of i] by auto
    then show ?thesis by (simp add: free_stack_def push_frame_def)
  qed
  have IH: "unat (nframes (push_all fs ?s)) = unat (nframes ?s) + length fs"
    "\<And>i. i < unat (nframes ?s) + length fs \<Longrightarrow> free_stack (push_all fs ?s) i =
      (if i < unat (nframes ?s) then free_stack ?s i else of_nat (fs ! (i - unat (nframes ?s))))"
    using Cons.IH [of ?s] Cons.prems n by auto
  have len: "unat (nframes (push_all (f # fs) s)) = unat (nframes s) + length (f # fs)" using IH(1) n by simp
  show ?case unfolding len
  proof (intro conjI refl allI impI)
    fix i
    assume "i < unat (nframes s) + length (f # fs)"
    then have i: "i < Suc (unat (nframes s) + length fs)" by simp
    then have "i < 2 ^ 32" using Cons.prems by simp
    then show "free_stack (push_all (f # fs) s) i =
      (if i < unat (nframes s) then free_stack s i else of_nat ((f # fs) ! (i - unat (nframes s))))"
      using IH(2) [of i] i n st [of i] by (auto simp: nth_Cons' less_Suc_eq)
  qed
qed simp

lemma push_frames_region:
  "0 < unat i \<Longrightarrow> push_frames i low s =
    ret (push_all (rev [max (unat low) (Suc (static_frame s))..<unat i]) s)"
proof (induction "unat i" arbitrary: i s)
  case (Suc n)
  have i: "unat (i - 1) = n"
  proof -
    have "i \<noteq> 0" using Suc.hyps(2) by (metis unat_0 nat.distinct(1))
    from unat_minus_1 [OF this] show ?thesis by (simp flip: Suc.hyps(2))
  qed
  have k: "unat (drop_bit 12 (kheap_get_size_pre_init s)) = static_frame s"
    by (simp add: static_frame_def kheap_get_size_pre_init_def unat_drop_bit)
  show ?case
  proof (cases "unat low \<le> n \<and> static_frame s < n")
    case True
    let ?s = "push_frame (i - 1) s"
    have "i - 1 \<ge> low" "i - 1 > drop_bit 12 (kheap_get_size_pre_init s)"
      using True i k by (simp_all add: word_le_nat_alt word_less_nat_alt)
    then have "push_frames i low s = push_frames (i - 1) low ?s"
      by (subst push_frames.simps) (simp add: push_frame_def Let_def)
    also have "\<dots> = ret (push_all (rev [max (unat low) (Suc (static_frame s))..<n]) ?s)"
      using Suc.hyps(1) [of "i - 1" ?s] True i by (simp add: push_frame_def static_frame_def)
    also have "\<dots> = ret (push_all (n # rev [max (unat low) (Suc (static_frame s))..<n]) s)"
      using i by (simp flip: i)
    also have "n # rev [max (unat low) (Suc (static_frame s))..<n] = rev [max (unat low) (Suc (static_frame s))..<Suc n]"
      using True by simp
    finally show ?thesis using Suc.hyps(2) by simp
  next
    case False
    then have "push_frames i low s = ret s"
      using i k by (subst push_frames.simps) (auto simp: Let_def word_le_nat_alt word_less_nat_alt not_le not_less)
    then show ?thesis using False Suc.hyps(2) by (auto simp flip: Suc.hyps(2))
  qed
qed simp

lemma region_words:
  assumes "region_ok x"
  shows "unat (drop_bit 12 (ucast (me_addr x + me_len x) :: u32) - 1) = region_last x - 1" "2 \<le> region_last x"
    "unat (let a = ucast (me_addr x) :: u32 in if a \<noteq> 0 then drop_bit 12 (a - 1) + 1 else a) = region_first x"
proof -
  have top: "unat (me_addr x + me_len x) \<le> 0xFFFFFFFF" "0x2000 \<le> unat (me_addr x + me_len x)" "unat (me_addr x) < 0xFFFFFFFF"
    using assms by (simp_all add: region_ok_def word_le_nat_alt word_less_nat_alt)
  have w: "unat (ucast (me_addr x + me_len x) :: u32) = unat (me_addr x + me_len x)" "unat (ucast (me_addr x) :: u32) = unat (me_addr x)"
    using top by (intro unat_ucast_u32, simp)+
  have "unat (drop_bit 12 (ucast (me_addr x + me_len x) :: u32)) = region_last x"
    unfolding unat_drop_bit w region_last_def by simp
  moreover show two: "2 \<le> region_last x"
  proof -
    have "0x2000 div 4096 \<le> unat (me_addr x + me_len x) div (4096 :: nat)" using top(2) by (rule div_le_mono)
    then show ?thesis by (simp add: region_last_def)
  qed
  ultimately show "unat (drop_bit 12 (ucast (me_addr x + me_len x) :: u32) - 1) = region_last x - 1"
    using unat_minus_1 [of "drop_bit 12 (ucast (me_addr x + me_len x) :: u32)"] by (metis unat_0 not_numeral_le_zero)
  define a where "a = (ucast (me_addr x) :: u32)"
  have "unat (drop_bit 12 (a - 1) + 1) = (unat a + 4095) div 4096" if "a \<noteq> 0"
  proof -
    have d: "unat (drop_bit 12 (a - 1)) = (unat a - 1) div 4096" using that by (simp add: unat_drop_bit unat_minus_1)
    moreover have "unat a \<noteq> 0" using that by (simp add: unat_eq_0)
    then have "(unat a + 4095) div 4096 = (unat a - 1) div 4096 + 1" by simp
    moreover have "(unat a - 1) div 4096 < 4294967295"
    proof -
      have "(unat a - 1) div 4096 \<le> unat a - 1" by (rule div_le_dividend)
      also have "\<dots> < 4294967295" using unat_lt_2_32 [of a] \<open>unat a \<noteq> 0\<close> unfolding power_numeral by linarith
      finally show ?thesis .
    qed
    ultimately show ?thesis using unat_add [of "drop_bit 12 (a - 1)" 1] by simp
  qed
  then show "unat (let a = ucast (me_addr x) :: u32 in if a \<noteq> 0 then drop_bit 12 (a - 1) + 1 else a) = region_first x"
    using w(2) by (auto simp: Let_def region_first_def simp flip: a_def)
qed

definition map_frames :: "nat \<Rightarrow> Multiboot_mmap_entry_t list \<Rightarrow> nat list" where
  "map_frames k es = concat (map (region_frames k) (filter available es))"

lemma push_all_fields [simp]:
  "kmem (push_all fs s) = kmem s" "kheap_static_end (push_all fs s) = kheap_static_end s"
  "static_frame (push_all fs s) = static_frame s"
  by (subst push_all_frame, simp add: static_frame_def)+

lemma mmap_frames_collects:
  "mmap_chain (kmem s) (mmap_addr mbd + mmap_length mbd) a es \<Longrightarrow> \<forall>x \<in> set es. available x \<longrightarrow> region_ok x \<Longrightarrow>
    mmap_frames mbd a s = ret (push_all (map_frames (static_frame s) es) s)"
proof (induction es arbitrary: a s)
  case Nil
  then show ?case by (subst mmap_frames.simps) (simp add: map_frames_def)
next
  case (Cons x es)
  let ?s = "if available x then push_all (region_frames (static_frame s) x) s else s"
  have x: "a < mmap_addr mbd + mmap_length mbd" "load_mmap_entry a (kmem s) = x" using Cons.prems(1) by simp_all
  have rest: "mmap_frames mbd (a + (me_size x + 4)) ?s = ret (push_all (map_frames (static_frame s) es) ?s)"
    using Cons.IH [of ?s "a + (me_size x + 4)"] Cons.prems by (cases "available x") auto
  show ?case
  proof (cases "available x")
    case True
    then have ok: "region_ok x" using Cons.prems(2) by simp
    have "0 < unat (drop_bit 12 (ucast (me_addr x + me_len x) :: u32) - 1)" using region_words(1,2) [OF ok] by simp
    note p = push_frames_region [OF this, of "let a = ucast (me_addr x) :: u32 in if a \<noteq> 0 then drop_bit 12 (a - 1) + 1 else a" s,
      unfolded region_words(1,3) [OF ok], folded region_frames_def]
    show ?thesis using x p rest True
      by (subst mmap_frames.simps) (simp add: Let_def available_def map_frames_def)
  next
    case False
    then show ?thesis using x rest
      by (subst mmap_frames.simps) (simp add: Let_def available_def map_frames_def)
  qed
qed

end
