(* ===== verification/Page_Boot.thy ===== *)
theory Page_Boot
  imports Page_Init
begin

text \<open>
  The tables \<^verbatim>\<open>Page::init\<close> builds before paging is on, and the state in which it leaves the kernel.
\<close>

section \<open>Tables in static memory\<close>

definition tab :: "'a page_state_scheme \<Rightarrow> nat \<Rightarrow> u32" where
  "tab s i = tables (dirs s (current_page_dir s)) i"

definition dir_tables :: "'a page_state_scheme \<Rightarrow> nat set" where
  "dir_tables s = {i. tab s i \<noteq> 0}"

definition heap_idx :: "nat set" where
  "heap_idx = {unat (drop_bit 22 KERNEL_HEAP_BEGIN)..<unat (drop_bit 22 KERNEL_HEAP_END)}"

text \<open>Tables exist for the heap and for static memory, and for nothing else.\<close>

definition low_dir :: "'a page_state_scheme \<Rightarrow> bool" where
  "low_dir s \<longleftrightarrow> (\<forall>i \<in> dir_tables s. i \<in> heap_idx \<or> i * 2 ^ 22 < unat (kheap_static_end s))"

text \<open>
  While the directory is built, its tables lie one after the other in static memory, those of the heap are empty, and
  static memory, with all tables that may still come, ends below \<open>L\<close>.
\<close>

definition boot_inv :: "nat \<Rightarrow> 'a page_state_scheme \<Rightarrow> bool" where
  "boot_inv L s \<longleftrightarrow> \<not> kheap_finish_init_called s \<and> \<not> init_finished s \<and> \<not> paging_on s \<and> kheap_static_end s \<noteq> 0 \<and>
     unat (kheap_static_end s) \<le> L \<and> L \<le> 0xEFC00000 \<and>
     unat (get_aligned (kheap_static_end s) 12) + 4096 * (1024 - card (dir_tables s)) \<le> L \<and>
     dir_tables s \<subseteq> {..<1023} \<and> inj_on (tab s) (dir_tables s) \<and>
     (\<forall>i \<in> dir_tables s. unat (tab s i) + 4096 \<le> unat (kheap_static_end s)) \<and>
     (\<forall>i \<in> dir_tables s \<inter> heap_idx. \<forall>j. ent (tab s i, j) s = zero_entry) \<and> low_dir s"

text \<open>\<^verbatim>\<open>kmalloc\<close> before \<^verbatim>\<open>kheap_finish_init\<close>.\<close>

definition static_km :: "(u32 \<Rightarrow> nat \<Rightarrow> 'a page_state_scheme \<Rightarrow> (u32 \<times> 'a page_state_scheme) exec) \<Rightarrow> bool" where
  "static_km km \<longleftrightarrow> (\<forall>sz p s. \<not> kheap_finish_init_called s \<longrightarrow> km sz p s = ret (kmalloc_pre_init sz p s))"

lemma static_kmalloc_at: "static_km (kmalloc_at (Suc n))"
  by (simp add: static_km_def kmalloc_def)

text \<open>What making tables changes.\<close>

definition built :: "'a page_state_scheme \<Rightarrow> 'a page_state_scheme \<Rightarrow> bool" where
  "built s s' \<longleftrightarrow> s' = s\<lparr>kheap_static_end := kheap_static_end s', dirs := dirs s', tabs := tabs s'\<rparr> \<and>
     kheap_static_end s \<le> kheap_static_end s' \<and> dir_tables s \<subseteq> dir_tables s' \<and>
     (\<forall>i \<in> dir_tables s. tab s' i = tab s i \<and> (\<forall>j. ent (tab s i, j) s' = ent (tab s i, j) s))"

lemma built_refl [simp]: "built s s"
  by (simp add: built_def)

lemma built_fields:
  assumes "built s s'"
  shows "kmem s' = kmem s" "mm s' = mm s" "tree_size s' = tree_size s" "tree_start s' = tree_start s"
    "current_page_dir s' = current_page_dir s" "frames s' = frames s" "nframes s' = nframes s"
    "kheap_finish_init_called s' = kheap_finish_init_called s"
proof -
  have eq: "s' = s\<lparr>kheap_static_end := kheap_static_end s', dirs := dirs s', tabs := tabs s'\<rparr>" using assms by (simp only: built_def)
  show "kmem s' = kmem s" "mm s' = mm s" "tree_size s' = tree_size s" "tree_start s' = tree_start s"
    "current_page_dir s' = current_page_dir s" "frames s' = frames s" "nframes s' = nframes s"
    "kheap_finish_init_called s' = kheap_finish_init_called s" by (subst eq, simp)+
qed

lemma built_trans:
  assumes "built s s'" "built s' s''"
  shows "built s s''"
proof -
  have "s'' = s\<lparr>kheap_static_end := kheap_static_end s'', dirs := dirs s'', tabs := tabs s''\<rparr>"
    using assms by (cases s, cases s', cases s'') (simp add: built_def)
  moreover have "tab s'' i = tab s i \<and> (\<forall>j. ent (tab s i, j) s'' = ent (tab s i, j) s)" if "i \<in> dir_tables s" for i
    using assms that unfolding built_def by (metis subsetD)
  ultimately show ?thesis using assms unfolding built_def by (auto intro: order.trans)
qed

text \<open>The state after the table for \<open>a\<close> was made.\<close>

definition new_table :: "u32 \<Rightarrow> u32 \<Rightarrow> 'a page_state_scheme \<Rightarrow> 'a page_state_scheme" where
  "new_table a t s = s\<lparr>kheap_static_end := t + sizeof_Table_t, tabs := (tabs s)(t := zero_table),
     dirs := (dirs s)(current_page_dir s := (dirs s (current_page_dir s))\<lparr>
       tables := (tables (dirs s (current_page_dir s)))(tb_idx a := t),
       dentries := (dentries (dirs s (current_page_dir s)))(tb_idx a :=
         (dentries (dirs s (current_page_dir s)) (tb_idx a))\<lparr>de_present := True, de_rw := True, de_user := True,
            de_addr := ucast (drop_bit 12 t)\<rparr>)\<rparr>)\<rparr>"

lemma get_page_makes:
  assumes "static_km km" "\<not> kheap_finish_init_called s" "\<not> init_finished s" "\<not> paging_on s" "tab s (tb_idx a) = 0"
  shows "get_page km (current_page_dir s) a True s =
    ret (Some (get_aligned (kheap_static_end s) 12, tb_offset a), new_table a (get_aligned (kheap_static_end s) 12) s)"
proof -
  have "km sizeof_Table_t 12 s = ret (kmalloc_pre_init sizeof_Table_t 12 s)" using assms(1,2) by (simp add: static_km_def)
  then show ?thesis using assms(3-5)
    by (simp add: get_page_def kernel_write_def tab_def kmalloc_pre_init_def get_physical_addr_def upd_dir_def new_table_def Let_def)
qed

lemma new_table_tab:
  "tab (new_table a t s) i = (if i = tb_idx a then t else tab s i)"
  "ent q (new_table a t s) = (if fst q = t then zero_entry else ent q s)"
  "kheap_static_end (new_table a t s) = t + sizeof_Table_t" "current_page_dir (new_table a t s) = current_page_dir s"
  "kheap_finish_init_called (new_table a t s) = kheap_finish_init_called s" "init_finished (new_table a t s) = init_finished s"
  "paging_on (new_table a t s) = paging_on s"
  by (simp_all add: tab_def new_table_def ent_def zero_table_def)

lemma new_table_boot:
  assumes inv: "boot_inv L s" and new: "tab s (tb_idx a) = 0" "tb_idx a < 1023"
    and low: "tb_idx a \<in> heap_idx \<or> tb_idx a * 2 ^ 22 < unat (kheap_static_end s)"
  defines "t \<equiv> get_aligned (kheap_static_end s) 12"
  shows "boot_inv L (new_table a t s)" "built s (new_table a t s)" "dir_tables (new_table a t s) = insert (tb_idx a) (dir_tables s)"
proof -
  let ?s = "new_table a t s" and ?T = "dir_tables s" and ?i = "tb_idx a"
  note I = inv [unfolded boot_inv_def]
  have i: "?i \<notin> ?T" "?i < 1023" using new by (simp_all add: dir_tables_def)
  have sub: "?T \<subset> {..<1023}" using I i by auto
  have fin: "finite ?T" using I finite_subset by blast
  have "card ?T < 1023" using psubset_card_mono [OF _ sub] by simp
  then have room: "4096 * (1024 - card (insert ?i ?T)) + 4096 = 4096 * (1024 - card ?T)" using fin i by simp
  have small: "unat (kheap_static_end s) + 2 ^ 12 \<le> 2 ^ 32" using I by simp
  note al = get_aligned_bounds [OF small, folded t_def]
  have t0: "t \<noteq> 0" using al(1) I by (metis le_zero_eq unat_0 unat_eq_0)
  show T: "dir_tables ?s = insert ?i ?T" using t0 by (auto simp: dir_tables_def new_table_tab)
  have tL: "unat t + 4096 + 4096 * (1024 - card (insert ?i ?T)) \<le> L" using I room unfolding t_def by linarith
  have end': "unat (t + sizeof_Table_t) = unat t + 4096" using tL I unat_add [of t 4096] by (simp add: sizeof_Table_t_def)
  have below: "tab s k \<noteq> t \<and> unat (tab s k) + 4096 \<le> unat t" if "k \<in> ?T" for k
  proof -
    have "unat (tab s k) + 4096 \<le> unat (kheap_static_end s)" using I that by blast
    then show ?thesis using al(1) by auto
  qed
  have "page_aligned (t + sizeof_Table_t)" using al(3) end' by (simp add: page_aligned_iff)
  then have "get_aligned (t + sizeof_Table_t) 12 = t + sizeof_Table_t"
  proof -
    have "unat (get_aligned (t + sizeof_Table_t) 12) = ((unat t + 4096 + 4095) div 4096 * 4096) mod 2 ^ 32"
      unfolding unat_get_aligned end' by simp
    also have "(unat t + 4096 + 4095) div 4096 * 4096 = unat t + 4096" using al(3) by auto
    also have "(unat t + 4096) mod 2 ^ 32 = unat t + 4096" using tL I by simp
    finally show ?thesis by (simp only: word_unat_eq_iff end')
  qed
  moreover have "t + sizeof_Table_t \<noteq> 0" using end' by (metis add_is_0 unat_0 zero_neq_numeral)
  moreover have "inj_on (tab ?s) (insert ?i ?T)"
    using I i below by (auto simp: inj_on_def new_table_tab)
  moreover have "unat (tab ?s k) + 4096 \<le> unat (t + sizeof_Table_t)" if "k \<in> insert ?i ?T" for k
    using that below [of k] by (auto simp: new_table_tab end')
  moreover have "ent (tab ?s k, j) ?s = zero_entry" if "k \<in> insert ?i ?T \<inter> heap_idx" for k j
    using that I by (auto simp: new_table_tab)
  moreover have le: "unat (kheap_static_end s) \<le> unat (t + sizeof_Table_t)" using al(1) end' by simp
  have "low_dir ?s" using I low le unfolding low_dir_def T new_table_tab(3) by (auto intro: less_le_trans)
  ultimately show "boot_inv L ?s"
    using I tL i unfolding boot_inv_def T by (simp add: new_table_tab(3-) end')
  have "kheap_static_end s \<le> t + sizeof_Table_t" using al(1) end' by (simp add: word_le_nat_alt)
  then show "built s ?s" unfolding built_def T using below i by (auto simp: new_table_tab) (simp add: new_table_def)
qed

lemma get_page_boot:
  assumes km: "static_km km" and inv: "boot_inv L s" and a: "tb_idx a < 1023" "tb_idx a \<in> heap_idx \<or> tb_idx a * 2 ^ 22 < unat (kheap_static_end s)"
  shows "\<exists>s'. get_page km (current_page_dir s) a True s = ret (Some (tab s' (tb_idx a), tb_offset a), s') \<and>
    boot_inv L s' \<and> built s s' \<and> tb_idx a \<in> dir_tables s'"
proof (cases "tab s (tb_idx a) = 0")
  case True
  have "\<not> kheap_finish_init_called s" "\<not> init_finished s" "\<not> paging_on s" using inv by (simp_all add: boot_inv_def)
  from get_page_makes [OF km this True] new_table_boot [OF inv True a] show ?thesis
    by (intro exI [of _ "new_table a (get_aligned (kheap_static_end s) 12) s"]) (simp add: new_table_tab)
next
  case False
  then show ?thesis using inv by (intro exI [of _ s]) (simp add: get_page_def tab_def dir_tables_def)
qed

section \<open>The heap's trees and tables\<close>

text \<open>The static objects of \<^verbatim>\<open>kheap.cpp\<close> as the program image holds them.\<close>

definition heap_image :: "'a kheap_state_scheme \<Rightarrow> bool" where
  "heap_image s \<longleftrightarrow> nstatic_mem (mm s) = 0 \<and> nfreed (mm s) = 0 \<and> even_addr (static_mem (mm s)) \<and> static_mem (mm s) \<noteq> 0 \<and>
     unat (static_mem (mm s)) + STATIC_MEM_SIZE \<le> 2 ^ 32 \<and>
     even_addr (NIL (tree_size s)) \<and> even_addr (NIL (tree_start s)) \<and>
     NIL (tree_size s) \<notin> mm_pool (mm s) \<and> NIL (tree_start s) \<notin> mm_pool (mm s)"

lemma empty_trees:
  assumes "heap_image s"
  shows "trees (s\<lparr>tree_size := Rbt_init (tree_size s), tree_start := Rbt_init (tree_start s)\<rparr>) {} {}"
proof -
  have mm: "mm_inv (mm s)" "mm_in_use (mm s) = {}"
    using assms by (simp_all add: heap_image_def mm_inv_def mm_freed_def mm_in_use_def mm_given_def mm_sizes)
  have "by_size.owned (Rbt_init (tree_size s)) (mm s) Lf" "by_start.owned (Rbt_init (tree_start s)) (mm s) Lf"
    unfolding by_size.owned_def by_start.owned_def using assms mm by (simp_all add: heap_image_def Rbt_init_ok)
  then show ?thesis using mm by (intro treesI [of _ Lf Lf]) simp_all
qed

lemma boot_inv_frame: "frame s s' \<Longrightarrow> boot_inv L s' = boot_inv L s"
  by (cases s, cases s') (simp add: frame_def boot_inv_def low_dir_def dir_tables_def tab_def ent_def inj_on_def)

lemma heap_tables_iff: "heap_tables s \<longleftrightarrow> heap_idx \<subseteq> dir_tables s"
  by (auto simp: heap_tables_def heap_idx_def dir_tables_def tab_def)

lemma heap_idx_val: "heap_idx = {0x3BF..<0x3FF}"
  by (simp add: heap_idx_def unat_drop_bit heap_bounds)

lemma heap_idx_page:
  assumes "i \<in> heap_idx"
  obtains j where "KERNEL_HEAP_BEGIN \<le> j" "j < KERNEL_HEAP_END" "4096 dvd unat j" "tb_idx j = i"
proof
  have i: "0x3BF \<le> i" "i < 0x3FF" using assms by (simp_all add: heap_idx_val)
  let ?j = "of_nat (i * 2 ^ 22) :: u32"
  have j: "unat ?j = i * 2 ^ 22" using i by (intro unat_of_nat_small) simp
  show "4096 dvd unat ?j" unfolding j by (simp add: dvd_mult)
  show "tb_idx ?j = i" unfolding tb_idx_div j by simp
  show "KERNEL_HEAP_BEGIN \<le> ?j" "?j < KERNEL_HEAP_END"
    unfolding word_le_nat_alt word_less_nat_alt j heap_bounds using i by simp_all
qed

lemma heap_addr_idx: "unat KERNEL_HEAP_BEGIN \<le> unat a \<Longrightarrow> unat a < unat KERNEL_HEAP_END \<Longrightarrow> tb_idx a \<in> heap_idx"
proof -
  assume a: "unat KERNEL_HEAP_BEGIN \<le> unat a" "unat a < unat KERNEL_HEAP_END"
  have "0xEFC00000 div 2 ^ 22 \<le> unat a div (2 ^ 22 :: nat)" using a(1) unfolding heap_bounds by (rule div_le_mono)
  moreover have "unat a div 2 ^ 22 < 0x3FF" using a(2) unfolding heap_bounds by (intro less_mult_imp_div_less) simp
  ultimately show ?thesis by (simp add: heap_idx_val tb_idx_div)
qed

lemma kheap_init_boot:
  assumes km: "static_km km" and inv: "boot_inv L s" and img: "heap_image s"
  shows "\<exists>s'. kheap_init (\<lambda>i s. andThen (get_page km (current_page_dir s) i True s) (\<lambda>(_, s). ret s)) s = ret s' \<and>
    boot_inv L s' \<and> trees s' {whole_heap} {whole_heap} \<and> heap_tables s' \<and> kheap_static_end s \<le> kheap_static_end s' \<and>
    frames s' = frames s \<and> nframes s' = nframes s \<and> current_page_dir s' = current_page_dir s \<and> kmem s' = kmem s"
proof -
  let ?s0 = "s\<lparr>tree_size := Rbt_init (tree_size s), tree_start := Rbt_init (tree_start s)\<rparr>"
  let ?f = "\<lambda>i s. andThen (get_page km (current_page_dir s) i True s) (\<lambda>(_, s). ret s)"
  from size_insert_trees [OF empty_trees [OF img], of whole_heap] obtain s1 where
    s1: "size_insert whole_heap ?s0 = ret s1" "frame ?s0 s1" "trees s1 {whole_heap} {}"
    by (auto simp: max_nodes_def STATIC_SIZE_def)
  from start_insert_trees [OF s1(3), of whole_heap] obtain s2 where
    s2: "start_insert whole_heap s1 = ret s2" "frame s1 s2" "trees s2 {whole_heap} {whole_heap}"
    by (auto simp: max_nodes_def STATIC_SIZE_def)
  have "frame s ?s0" by (simp add: frame_def)
  then have fr: "frame s s2" using frame_trans s1(2) s2(2) by blast
  have inv2: "boot_inv L s2" using inv boot_inv_frame [OF fr] by simp
  have step: "\<exists>s'. ?f i x = ret s' \<and> (boot_inv L s' \<and> built s2 s') \<and> tb_idx i \<in> dir_tables s' \<and>
      (\<forall>j. tb_idx j \<in> dir_tables x \<longrightarrow> tb_idx j \<in> dir_tables s')"
    if "boot_inv L x \<and> built s2 x" "KERNEL_HEAP_BEGIN \<le> i" "i < KERNEL_HEAP_END" for i x
  proof -
    have idx: "tb_idx i \<in> heap_idx" using that by (intro heap_addr_idx) (simp_all add: word_le_nat_alt word_less_nat_alt)
    then have "tb_idx i < 1023" by (simp add: heap_idx_val)
    from get_page_boot [OF km _ this, of L x] idx that obtain x' where
      x': "get_page km (current_page_dir x) i True x = ret (Some (tab x' (tb_idx i), tb_offset i), x')"
        "boot_inv L x'" "built x x'" "tb_idx i \<in> dir_tables x'" by blast
    then show ?thesis using that(1) built_trans [of s2 x x'] by (intro exI [of _ x']) (auto simp: built_def)
  qed
  have "\<exists>s'. page_loop ?f KERNEL_HEAP_BEGIN KERNEL_HEAP_END s2 = ret s' \<and> (boot_inv L s' \<and> built s2 s') \<and>
      (\<forall>j. tb_idx j \<in> dir_tables s2 \<longrightarrow> tb_idx j \<in> dir_tables s') \<and>
      (\<forall>j. KERNEL_HEAP_BEGIN \<le> j \<and> j < KERNEL_HEAP_END \<and> 4096 dvd unat j \<longrightarrow> tb_idx j \<in> dir_tables s')"
    by (rule page_loop_marks [where I = "\<lambda>x. boot_inv L x \<and> built s2 x" and P = "\<lambda>j x. tb_idx j \<in> dir_tables x"])
      (use inv2 step in \<open>simp_all add: heap_bounds del: andThen_eq_ret\<close>)
  then obtain s' where s': "page_loop ?f KERNEL_HEAP_BEGIN KERNEL_HEAP_END s2 = ret s'" "boot_inv L s'" "built s2 s'"
    "\<forall>j. KERNEL_HEAP_BEGIN \<le> j \<and> j < KERNEL_HEAP_END \<and> 4096 dvd unat j \<longrightarrow> tb_idx j \<in> dir_tables s'" by blast
  have "heap_tables s'" unfolding heap_tables_iff using s'(4) heap_idx_page by (metis subsetI)
  moreover have "trees s' {whole_heap} {whole_heap}"
    using s2(3) trees_cong [of s' s2] built_fields [OF s'(3)] by simp
  moreover have "kheap_init ?f s = ret s'" using s1(1) s2(1) s'(1) by (simp add: kheap_init_def whole_heap_def Let_def)
  moreover have "kheap_static_end s2 = kheap_static_end s" "kheap_state.more s2 = kheap_state.more s" "kmem s2 = kmem s" using frame_fields [OF fr] by simp_all
  moreover have "kheap_static_end s2 \<le> kheap_static_end s'" using s'(3) by (simp add: built_def)
  ultimately show ?thesis using s'(2) built_fields [OF s'(3)]
    by (intro exI [of _ s']) (cases s, cases s2, simp)
qed

section \<open>The identity map of the kernel image\<close>

definition identity :: "u32 \<Rightarrow> 'a page_state_scheme \<Rightarrow> bool" where
  "identity p s \<longleftrightarrow> tb_idx p \<in> dir_tables s \<and>
     (let e = ent (tab s (tb_idx p), tb_offset p) s in present e \<and> rw e \<and> \<not> user e \<and> addr e = ucast (drop_bit 12 p))"

text \<open>Every page from the second up to the end of static memory.\<close>

definition image_mapped :: "u32 \<Rightarrow> 'a page_state_scheme \<Rightarrow> bool" where
  "image_mapped e s \<longleftrightarrow> (\<forall>p. 4096 dvd unat p \<and> 0x1000 \<le> p \<and> p < e \<longrightarrow> identity p s)"

lemma page_split: "4096 dvd unat a \<Longrightarrow> unat a = tb_idx a * 2 ^ 22 + tb_offset a * 4096"
proof -
  assume "4096 dvd unat a"
  then obtain n where n: "unat a = 4096 * n" ..
  have "tb_idx a = n div 1024" "tb_offset a = n mod 1024"
    using div_mult2_eq [of "unat a" 4096 1024] by (simp_all add: tb_idx_div tb_offset_div n)
  moreover have "4096 * n = n div 1024 * 4194304 + n mod 1024 * 4096" using div_mult_mod_eq [of n 1024] by linarith
  ultimately show ?thesis unfolding n by simp
qed

lemma page_eqI:
  "4096 dvd unat p \<Longrightarrow> 4096 dvd unat q \<Longrightarrow> tb_idx p = tb_idx q \<Longrightarrow> tb_offset p = tb_offset q \<Longrightarrow> p = q"
  by (metis page_split word_unat_eq_iff)

lemma low_not_heap: "unat i < 0xEFC00000 \<Longrightarrow> tb_idx i \<notin> heap_idx"
proof -
  assume "unat i < 0xEFC00000"
  then have "unat i div 2 ^ 22 < 0x3BF" by (intro less_mult_imp_div_less) simp
  then show ?thesis by (simp add: heap_idx_val tb_idx_div)
qed

lemma upd_ent_dir [simp]: "tab (upd_ent r f s) = tab s" "dir_tables (upd_ent r f s) = dir_tables s"
  by (simp_all add: tab_def dir_tables_def fun_eq_iff)

lemma upd_ent_kheap [simp]:
  "kheap_static_end (upd_ent r f s) = kheap_static_end s" "kheap_finish_init_called (upd_ent r f s) = kheap_finish_init_called s"
  "paging_on (upd_ent r f s) = paging_on s"
  by (simp_all add: upd_ent_def)

lemma boot_inv_upd_ent:
  assumes "boot_inv L s" "i \<in> dir_tables s" "i \<notin> heap_idx"
  shows "boot_inv L (upd_ent (tab s i, j) f s)"
proof -
  have "tab s k \<noteq> tab s i" if "k \<in> dir_tables s \<inter> heap_idx" for k
    using assms that by (auto simp: boot_inv_def inj_on_def)
  then show ?thesis using assms(1) by (auto simp: boot_inv_def low_dir_def ent_upd_ent)
qed

lemma identity_built:
  assumes "built s s'" "identity p s"
  shows "identity p s'"
proof -
  have p: "tb_idx p \<in> dir_tables s" using assms(2) by (simp add: identity_def)
  then have "tb_idx p \<in> dir_tables s'" "tab s' (tb_idx p) = tab s (tb_idx p)"
    "ent (tab s (tb_idx p), tb_offset p) s' = ent (tab s (tb_idx p), tb_offset p) s"
    using assms(1) by (auto simp: built_def)
  then show ?thesis using assms(2) by (simp add: identity_def)
qed

text \<open>What the loop over the kernel image keeps.\<close>

definition mapped :: "'a page_state_scheme \<Rightarrow> 'a page_state_scheme \<Rightarrow> bool" where
  "mapped s s' \<longleftrightarrow> s' = s\<lparr>kheap_static_end := kheap_static_end s', dirs := dirs s', tabs := tabs s'\<rparr> \<and>
     kheap_static_end s \<le> kheap_static_end s' \<and> dir_tables s \<subseteq> dir_tables s'"

lemma mapped_refl [simp]: "mapped s s"
  by (simp add: mapped_def)

lemma mapped_trans:
  assumes "mapped s s'" "mapped s' s''"
  shows "mapped s s''"
proof -
  have "s'' = s\<lparr>kheap_static_end := kheap_static_end s'', dirs := dirs s'', tabs := tabs s''\<rparr>"
    using assms by (cases s, cases s', cases s'') (simp add: mapped_def)
  then show ?thesis using assms unfolding mapped_def by (auto intro: order.trans)
qed

lemma map_identity_boot:
  assumes km: "static_km km" and inv: "boot_inv L s" and i: "4096 dvd unat i" "i < kheap_static_end s" and below: "image_mapped i s"
  shows "\<exists>s'. map_identity km i s = ret s' \<and> boot_inv L s' \<and> mapped s s' \<and> image_mapped (i + 0x1000) s'"
proof -
  have top: "unat i < 0xEFC00000" using inv i(2) by (auto simp: boot_inv_def word_less_nat_alt)
  then have "unat i div 2 ^ 22 < 1023" by (intro less_mult_imp_div_less) simp
  then have "tb_idx i < 1023" by (simp only: tb_idx_div)
  moreover have "tb_idx i * 2 ^ 22 < unat (kheap_static_end s)"
    using i(2) div_times_less_eq_dividend [of "unat i" "2 ^ 22"] unfolding tb_idx_div word_less_nat_alt by linarith
  ultimately obtain s1 where
    s1: "get_page km (current_page_dir s) i True s = ret (Some (tab s1 (tb_idx i), tb_offset i), s1)"
      "boot_inv L s1" "built s s1" "tb_idx i \<in> dir_tables s1" using get_page_boot [OF km inv] by blast
  let ?f = "\<lambda>e. e\<lparr>present := True, rw := True, user := False, addr := ucast (drop_bit 12 i)\<rparr>"
  let ?r = "(tab s1 (tb_idx i), tb_offset i)" let ?s = "upd_ent ?r ?f s1"
  have run: "map_identity km i s = ret ?s" using s1(1) by (simp add: map_identity_def page_of_def)
  have inv': "boot_inv L ?s" using boot_inv_upd_ent [OF s1(2,4) low_not_heap [OF top]] .
  have "s1 = s\<lparr>kheap_static_end := kheap_static_end s1, dirs := dirs s1, tabs := tabs s1\<rparr>" using s1(3) by (simp only: built_def)
  then have "?s = s\<lparr>kheap_static_end := kheap_static_end ?s, dirs := dirs ?s, tabs := tabs ?s\<rparr>"
    by (cases s, cases s1) (simp add: upd_ent_def)
  then have m: "mapped s ?s" using s1(3) unfolding mapped_def built_def by simp
  have "identity p ?s" if p: "4096 dvd unat p" "0x1000 \<le> p" "p < i + 0x1000" for p
  proof (cases "p = i")
    case True
    then show ?thesis using s1(4) by (simp add: identity_def)
  next
    case False
    have "unat (i + 0x1000) = unat i + 0x1000" using top unat_add [of i "0x1000"] by simp
    then have "unat p < unat i + 4096" using p(3) by (simp add: word_less_nat_alt)
    moreover have "unat p \<noteq> unat i" using False by (simp add: word_unat_eq_iff)
    ultimately have "unat p < unat i" using p(1) i(1) by (auto elim!: dvdE)
    then have old: "identity p s1" using below p identity_built [OF s1(3)] by (auto simp: image_mapped_def word_less_nat_alt)
    have "(tab s1 (tb_idx p), tb_offset p) \<noteq> ?r"
    proof
      assume eq: "(tab s1 (tb_idx p), tb_offset p) = ?r"
      have "tb_idx p \<in> dir_tables s1" using old by (simp add: identity_def)
      then have "tb_idx p = tb_idx i" using eq s1(2,4) by (auto simp: boot_inv_def inj_on_def)
      then show False using eq False page_eqI [OF p(1) i(1)] by simp
    qed
    then show ?thesis using old by (auto simp: identity_def ent_upd_ent)
  qed
  then show ?thesis using run inv' m by (auto simp: image_mapped_def)
qed

lemma map_kernel_image_boot:
  assumes km: "static_km km"
  shows "boot_inv L s \<Longrightarrow> 4096 dvd unat i \<Longrightarrow> image_mapped i s \<Longrightarrow>
    \<exists>s'. map_kernel_image km i s = ret s' \<and> boot_inv L s' \<and> mapped s s' \<and> image_mapped (kheap_static_end s') s'"
proof (induction "L - unat i" arbitrary: i s rule: less_induct)
  case less
  show ?case
  proof (cases "i < kheap_static_end s")
    case False
    then have "image_mapped (kheap_static_end s) s" using less.prems(3) by (auto simp: image_mapped_def not_less intro: order.strict_trans2)
    then show ?thesis using False less.prems(1) by (subst map_kernel_image.simps) (auto simp: kheap_get_size_pre_init_def)
  next
    case True
    from map_identity_boot [OF km less.prems(1,2) True less.prems(3)] obtain s1 where
      s1: "map_identity km i s = ret s1" "boot_inv L s1" "mapped s s1" "image_mapped (i + 0x1000) s1" by blast
    have b: "unat (kheap_static_end s) \<le> L" "L \<le> 0xEFC00000" using less.prems(1) by (simp_all add: boot_inv_def)
    have iL: "unat i < L" using True b by (simp add: word_less_nat_alt)
    have nxt: "unat (i + 0x1000) = unat i + 0x1000" using iL b unat_add [of i "0x1000"] by simp
    have "L - unat (i + 0x1000) < L - unat i" using iL nxt by simp
    moreover have "4096 dvd unat (i + 0x1000)" using less.prems(2) nxt by simp
    ultimately obtain s' where s': "map_kernel_image km (i + 0x1000) s1 = ret s'" "boot_inv L s'" "mapped s1 s'"
      "image_mapped (kheap_static_end s') s'" using less.hyps s1(2,4) by blast
    then show ?thesis using True s1(1) mapped_trans [OF s1(3) s'(3)]
      by (subst map_kernel_image.simps) (auto simp: kheap_get_size_pre_init_def)
  qed
qed

section \<open>The stack of free frames\<close>

definition stack_is :: "nat list \<Rightarrow> 'a page_state_scheme \<Rightarrow> bool" where
  "stack_is fs s \<longleftrightarrow> unat (nframes s) = length fs \<and> (\<forall>j < length fs. free_stack s j = of_nat (fs ! j)) \<and> (\<forall>f \<in> set fs. f < 2 ^ 20)"

lemma stack_is_cong: "frames s' = frames s \<Longrightarrow> nframes s' = nframes s \<Longrightarrow> stack_is fs s' = stack_is fs s"
  by (simp add: stack_is_def free_stack_def)

lemma drop_frames_boot:
  "stack_is fs s \<Longrightarrow> sorted_wrt (>) fs \<Longrightarrow> fs \<noteq> [] \<Longrightarrow> static_frame s < hd fs \<Longrightarrow>
    \<exists>n. drop_frames s = ret (s\<lparr>nframes := n\<rparr>) \<and> stack_is (filter (\<lambda>f. static_frame s < f) fs) (s\<lparr>nframes := n\<rparr>)"
proof (induction fs arbitrary: s rule: rev_induct)
  case (snoc f fs)
  have n: "unat (nframes s) = Suc (length fs)" using snoc.prems(1) by (simp add: stack_is_def)
  then have n1: "unat (nframes s - 1) = length fs" using unat_minus_1 [of "nframes s"] by (metis diff_Suc_1 nat.distinct(1) unat_0)
  have "frames s (nframes s - 1) = free_stack s (length fs)" unfolding free_stack_def n1 [symmetric] by simp
  then have top: "frames s (nframes s - 1) = of_nat f" using snoc.prems(1) by (simp add: stack_is_def nth_append)
  have f: "unat (of_nat f :: u32) = f" using snoc.prems(1) by (intro unat_of_nat_small) (simp add: stack_is_def)
  have le: "frames s (nframes s - 1) \<le> drop_bit 12 (kheap_get_size_pre_init s) \<longleftrightarrow> f \<le> static_frame s"
    by (simp add: top word_le_nat_alt f static_frame_def kheap_get_size_pre_init_def unat_drop_bit)
  show ?case
  proof (cases "f \<le> static_frame s")
    case True
    let ?s = "s\<lparr>nframes := nframes s - 1\<rparr>"
    have fs: "fs \<noteq> []" using snoc.prems(4) True by auto
    have "stack_is fs ?s" using snoc.prems(1) n1 by (auto simp: stack_is_def free_stack_def nth_append)
    then obtain m where "drop_frames ?s = ret (?s\<lparr>nframes := m\<rparr>)" "stack_is (filter (\<lambda>f. static_frame s < f) fs) (?s\<lparr>nframes := m\<rparr>)"
      using snoc.IH [of ?s] snoc.prems(2,4) fs by (auto simp: static_frame_def sorted_wrt_append)
    then show ?thesis using True le by (subst drop_frames.simps) auto
  next
    case False
    have "filter (\<lambda>f. static_frame s < f) (fs @ [f]) = fs @ [f]"
      using False snoc.prems(2) by (intro filter_True) (auto simp: sorted_wrt_append)
    moreover have "drop_frames s = ret s" using False le by (subst drop_frames.simps) simp
    ultimately show ?thesis using snoc.prems(1) by (intro exI [of _ "nframes s"]) simp
  qed
qed simp

lemma get_aligned_0: "get_aligned a 0 = a"
proof -
  have "unat (get_aligned a 0) = unat a" unfolding unat_get_aligned using unat_lt_2_32 [of a] by simp
  then show ?thesis by (simp add: word_unat_eq_iff)
qed

text \<open>An allocation in static memory without alignment.\<close>

lemma static_alloc:
  assumes "static_km km" "\<not> kheap_finish_init_called s"
  shows "km sz 0 s = ret (kheap_static_end s, s\<lparr>kheap_static_end := kheap_static_end s + sz\<rparr>)"
  using assms by (simp add: static_km_def kmalloc_pre_init_def get_aligned_0 Let_def)

lemma boot_inv_static:
  assumes inv: "boot_inv L s" and sz: "unat sz \<le> n" "L + n + 4096 \<le> 0xEFC00000"
  shows "boot_inv (L + n + 4096) (s\<lparr>kheap_static_end := kheap_static_end s + sz\<rparr>)"
    "kheap_static_end s \<le> kheap_static_end s + sz"
proof -
  let ?s = "s\<lparr>kheap_static_end := kheap_static_end s + sz\<rparr>"
  note I = inv [unfolded boot_inv_def]
  have e: "unat (kheap_static_end s + sz) = unat (kheap_static_end s) + unat sz"
    using I sz unat_add [of "kheap_static_end s" sz] by simp
  have a: "unat (kheap_static_end s) \<le> unat (get_aligned (kheap_static_end s) 12)"
    using I by (intro get_aligned_bounds) simp
  have "unat (kheap_static_end s + sz) + 2 ^ 12 \<le> 2 ^ 32" using e I sz by simp
  from get_aligned_bounds(2) [OF this] have
    "unat (get_aligned (kheap_static_end s + sz) 12) < unat (kheap_static_end s) + unat sz + 4096" by (simp add: e)
  then have b: "unat (get_aligned (kheap_static_end s + sz) 12) + 4096 * (1024 - card (dir_tables s)) \<le> L + n + 4096"
    using I a sz by linarith
  have same: "tab ?s = tab s" "dir_tables ?s = dir_tables s" "\<And>q. ent q ?s = ent q s"
    by (simp_all add: tab_def dir_tables_def ent_def fun_eq_iff)
  have "kheap_static_end s + sz \<noteq> 0" using e I by (metis add_is_0 unat_0 unat_eq_0)
  moreover have "low_dir ?s" using I e unfolding low_dir_def same by (auto intro: trans_less_add1)
  ultimately show "boot_inv (L + n + 4096) ?s" using I sz b e unfolding boot_inv_def same by (auto intro: trans_le_add1)
  show "kheap_static_end s \<le> kheap_static_end s + sz" by (simp add: word_le_nat_alt e)
qed

section \<open>The usable region\<close>

text \<open>
  A memory map whose available regions end below the kernel's static memory, except the one the kernel was loaded into, \<open>x\<close>,
  which reaches at least 17 MB above it: static memory grows by less than that.
\<close>

definition boot_map :: "memory \<Rightarrow> Multiboot_info_t \<Rightarrow> u32 \<Rightarrow> Multiboot_mmap_entry_t list \<Rightarrow> Multiboot_mmap_entry_t \<Rightarrow> bool" where
  "boot_map m mbd e es x \<longleftrightarrow> mmap_chain m (mmap_addr mbd + mmap_length mbd) (mmap_addr mbd) es \<and>
     (\<forall>y \<in> set es. available y \<longrightarrow> region_ok y) \<and>
     (\<exists>low high. filter available es = low @ x # high \<and> (\<forall>y \<in> set (low @ high). me_addr y + me_len y \<le> ucast e)) \<and>
     unat (me_addr x) \<le> unat e \<and> unat e + 0x1100000 \<le> unat (me_addr x + me_len x)"

lemma boot_map_region: "boot_map m mbd e es x \<Longrightarrow> region_ok x"
proof -
  assume map: "boot_map m mbd e es x"
  then obtain low high where "filter available es = low @ x # high" by (auto simp: boot_map_def)
  then have "x \<in> set (filter available es)" by (metis in_set_conv_decomp)
  then show ?thesis using map by (auto simp: boot_map_def)
qed

lemma boot_map_frames:
  assumes "boot_map m mbd e es x" "unat e div 4096 \<le> k"
  shows "map_frames k es = region_frames k x"
proof -
  from assms(1) obtain low high where lh: "filter available es = low @ x # high" "\<forall>y \<in> set (low @ high). me_addr y + me_len y \<le> ucast e"
    unfolding boot_map_def by blast
  have "region_frames k y = []" if "y \<in> set (low @ high)" for y
  proof -
    have "unat e < 2 ^ 64" using unat_lt_2_32 [of e] by (rule less_le_trans) simp
    then have "unat (ucast e :: u64) = unat e" by (simp add: unsigned_ucast_eq take_bit_nat_eq_self)
    then have "unat (me_addr y + me_len y) \<le> unat e" using lh(2) that by (simp add: word_le_nat_alt)
    then have "unat (me_addr y + me_len y) div 4096 \<le> unat e div 4096" by (rule div_le_mono)
    then have "region_last y \<le> k" using assms(2) by (simp add: region_last_def)
    then show ?thesis by (simp add: region_frames_def)
  qed
  then have "concat (map (region_frames k) low) = []" "concat (map (region_frames k) high) = []" by auto
  then show ?thesis unfolding map_frames_def lh(1) by (simp only: map_append concat_append list.map concat.simps append_Nil append_Nil2)
qed

lemma region_last_less: "region_ok x \<Longrightarrow> region_last x < 2 ^ 20"
proof -
  assume "region_ok x"
  then have "unat (me_addr x + me_len x) < 2 ^ 20 * 4096" by (simp add: region_ok_def word_le_nat_alt)
  then show ?thesis unfolding region_last_def by (rule less_mult_imp_div_less)
qed

lemma region_frames_props:
  assumes "region_ok x"
  shows "sorted_wrt (>) (region_frames k x)" "f \<in> set (region_frames k x) \<longleftrightarrow> region_first x \<le> f \<and> k < f \<and> f + 1 < region_last x"
    "f \<in> set (region_frames k x) \<Longrightarrow> f < 2 ^ 20" "length (region_frames k x) < 2 ^ 20"
    "region_first x + 2 \<le> region_last x \<Longrightarrow> k + 2 < region_last x \<Longrightarrow> region_frames k x \<noteq> [] \<and> hd (region_frames k x) = region_last x - 2"
proof -
  show "sorted_wrt (>) (region_frames k x)" unfolding region_frames_def sorted_wrt_rev by (rule sorted_wrt_upt)
  show mem: "f \<in> set (region_frames k x) \<longleftrightarrow> region_first x \<le> f \<and> k < f \<and> f + 1 < region_last x" for f
    by (auto simp: region_frames_def)
  show "f < 2 ^ 20" if "f \<in> set (region_frames k x)" using that region_last_less [OF assms] unfolding mem by simp
  show "length (region_frames k x) < 2 ^ 20" using region_last_less [OF assms] by (simp add: region_frames_def)
  show "region_frames k x \<noteq> [] \<and> hd (region_frames k x) = region_last x - 2"
    if "region_first x + 2 \<le> region_last x" "k + 2 < region_last x"
    using that by (auto simp: region_frames_def hd_rev last_conv_nth)
qed

lemma init_frames_boot:
  assumes km: "static_km km" and s: "\<not> kheap_finish_init_called s" and map: "boot_map (kmem s) mbd e es x"
    and e: "unat e \<le> unat (kheap_static_end s)" "unat (kheap_static_end s) + 4194304 < 2 ^ 32"
  shows "\<exists>s' sz. init_frames km mbd s = ret s' \<and> s' = s\<lparr>kheap_static_end := kheap_static_end s + sz, frames := frames s', nframes := nframes s'\<rparr> \<and>
    unat sz \<le> 4194304 \<and> stack_is (region_frames (static_frame s') x) s'"
proof -
  have ch: "mmap_chain (kmem s) (mmap_addr mbd + mmap_length mbd) (mmap_addr mbd) es" "\<forall>y \<in> set es. available y \<longrightarrow> region_ok y"
    using map by (simp_all add: boot_map_def)
  have x: "region_ok x" using boot_map_region [OF map] .
  from mmap_memsize_returns [OF ch] obtain n where n: "mmap_memsize mbd (kmem s) (mmap_addr mbd) 0 = ret n" by blast
  let ?sz = "4 * drop_bit 12 n"
  let ?s = "s\<lparr>kheap_static_end := kheap_static_end s + ?sz, nframes := 0\<rparr>"
  have d: "unat (drop_bit 12 n) < 2 ^ 20" using unat_lt_2_32 [of n] by (simp add: unat_drop_bit less_mult_imp_div_less)
  then have sz: "unat ?sz \<le> 4194304" using unat_mult_lem [of 4 "drop_bit 12 n"] by simp
  have "unat (kheap_static_end ?s) = unat (kheap_static_end s) + unat ?sz" using sz e(2) unat_add [of "kheap_static_end s" ?sz] by simp
  then have "unat e div 4096 \<le> static_frame ?s" unfolding static_frame_def using e(1) by (intro div_le_mono) simp
  from boot_map_frames [OF map this] have fr: "map_frames (static_frame ?s) es = region_frames (static_frame ?s) x" .
  let ?fs = "region_frames (static_frame ?s) x"
  have "mmap_frames mbd (mmap_addr mbd) ?s = ret (push_all ?fs ?s)"
    using mmap_frames_collects [of ?s mbd "mmap_addr mbd" es] ch unfolding fr by simp
  then have run: "init_frames km mbd s = ret (push_all ?fs ?s)"
    using n static_alloc [OF km s] by (simp add: init_frames_def)
  have "unat (nframes ?s) + length ?fs < 2 ^ 32" using region_frames_props(4) [OF x, of "static_frame ?s"] by simp
  from push_all_stack [OF this] have "stack_is ?fs (push_all ?fs ?s)"
    using region_frames_props(3) [OF x] unfolding stack_is_def by simp
  moreover have "push_all ?fs ?s = s\<lparr>kheap_static_end := kheap_static_end s + ?sz, frames := frames (push_all ?fs ?s), nframes := nframes (push_all ?fs ?s)\<rparr>"
    by (subst push_all_frame) simp
  ultimately show ?thesis using run sz by (intro exI [of _ "push_all ?fs ?s"] exI [of _ ?sz]) simp
qed

section \<open>The two windows\<close>

text \<open>What marking pages of the heap changes: flags of entries of the heap's tables.\<close>

definition flags_only :: "Table_entry_t \<Rightarrow> Table_entry_t \<Rightarrow> bool" where
  "flags_only e e' \<longleftrightarrow> addr e' = addr e \<and> present e' = present e \<and> (alloc_fill e = 0 \<longrightarrow> alloc_fill e' = 0)"

definition kept :: "'a page_state_scheme \<Rightarrow> 'a page_state_scheme \<Rightarrow> bool" where
  "kept s s' \<longleftrightarrow> dirs s' = dirs s \<and> current_page_dir s' = current_page_dir s \<and> frames s' = frames s \<and> nframes s' = nframes s \<and>
     frame_ref_cnt s' = frame_ref_cnt s \<and> init_finished s' = init_finished s \<and> paging_on s' = paging_on s \<and> same_windows s s' \<and>
     (\<forall>q. ent q s' = ent q s \<or> fst q \<in> tab s ` heap_idx \<and> flags_only (ent q s) (ent q s'))"

lemma kept_refl [simp]: "kept s s"
  by (simp add: kept_def)

lemma kept_trans:
  assumes k: "kept s s'" "kept s' s''"
  shows "kept s s''"
proof -
  have t: "tab s' = tab s" using k(1) by (simp add: kept_def tab_def fun_eq_iff)
  have "ent q s'' = ent q s \<or> fst q \<in> tab s ` heap_idx \<and> flags_only (ent q s) (ent q s'')" for q
  proof -
    have "ent q s' = ent q s \<or> fst q \<in> tab s ` heap_idx \<and> flags_only (ent q s) (ent q s')"
      "ent q s'' = ent q s' \<or> fst q \<in> tab s ` heap_idx \<and> flags_only (ent q s') (ent q s'')"
      using k unfolding kept_def t by blast+
    then show ?thesis by (auto simp: flags_only_def)
  qed
  then show ?thesis using k same_windows_trans [of s s' s''] by (simp add: kept_def)
qed

lemma kept_addr: "kept s s' \<Longrightarrow> flags_only (ent q s) (ent q s')"
  unfolding kept_def by (metis flags_only_def)

lemma kept_more: "kheap_state.more s1 = kheap_state.more s \<Longrightarrow> kheap_state.more s2 = kheap_state.more s' \<Longrightarrow> kept s1 s2 = kept s s'"
  by (cases s, cases s', cases s1, cases s2) (simp add: kept_def ent_def tab_def image_def same_windows_def)

lemma kept_lazy:
  assumes "i \<in> heap_idx"
  shows "kept s (invlpg a (entry_lazy_alloc (tab s i, j) u w False s))"
proof -
  have "paging_on (upd_ent r f s) = paging_on s" "init_finished (invlpg a s) = init_finished s" "paging_on (invlpg a s) = paging_on s"
    for r f and s :: "'a page_state_scheme" by (simp_all add: upd_ent_def invlpg_def)
  then show ?thesis using assms by (auto simp: kept_def entry_lazy_alloc_def Let_def ent_upd_ent same_windows_def flags_only_def)
qed

lemma lazy_alloc_keeps:
  assumes rdy: "heap_tables s" and al: "page_aligned b" "page_aligned e"
    and heap: "unat KERNEL_HEAP_BEGIN \<le> unat b" "unat e \<le> unat KERNEL_HEAP_END"
    and run: "lazy_alloc_interval km (current_page_dir s) b e False True False s = ret s'"
  shows "kept s s'"
proof -
  let ?f = "\<lambda>i x. andThen (get_page km (current_page_dir s) i True x) (\<lambda>(r, x). ret (invlpg i (entry_lazy_alloc (page_of r) False True False x)))"
  have "\<exists>x. page_loop ?f b e s = ret x \<and> kept s x"
  proof (rule page_loop_invariant)
    show "\<exists>x'. ?f i x = ret x' \<and> kept s x'" if x: "kept s x" and i: "b \<le> i" "i < e" for i x
    proof -
      have idx: "tb_idx i \<in> heap_idx" using i heap by (intro heap_addr_idx) (simp_all add: word_le_nat_alt word_less_nat_alt)
      then have "tab s (tb_idx i) \<noteq> 0" using rdy by (auto simp: heap_tables_iff dir_tables_def)
      moreover have d: "dirs x = dirs s" "current_page_dir x = current_page_dir s" using x by (simp_all add: kept_def)
      ultimately have "tables (dirs x (current_page_dir s)) (tb_idx i) \<noteq> 0" by (simp add: tab_def)
      then have "?f i x = ret (invlpg i (entry_lazy_alloc (tab x (tb_idx i), tb_offset i) False True False x))"
        by (simp add: get_page_present page_of_def tab_def d)
      then show ?thesis using kept_trans [OF x kept_lazy [OF idx]] by blast
    qed
  qed (use heap(2) in \<open>simp_all add: heap_bounds\<close>)
  then show ?thesis using run al by (auto simp: lazy_alloc_interval_def page_aligned_def)
qed

lemma kmalloc_roomy:
  assumes inv: "heap_inv s F A" and rdy: "heap_tables s" and room: "roomy F N" "N \<le> 100" and sz: "unat sz \<le> 8192" "p \<le> 12"
  shows "\<exists>a s' F' blk. kmalloc_at (Suc n) sz p s = ret (a, s') \<and> heap_tables s' \<and> allocated s F A sz p a s' F' blk \<and>
    roomy F' (Suc N) \<and> kept s s' \<and> same_bounds s s'"
proof -
  have fin: "finite F" and F: "heap_free F" using inv by (auto simp: heap_inv_def trees_def)
  from roomy_fits [OF fin F room sz] obtain b0 where "b0 \<in> F" "fits sz p b0" ..
  moreover have "\<not> max_nodes \<le> 2 * card F + 1" using room by (simp add: roomy_def max_nodes_def STATIC_SIZE_def)
  moreover have "p \<le> 22" "unat sz + 8 < 2 ^ 32" using sz by simp_all
  ultimately obtain a s' F' blk b e s1 s2 where
    r: "kmalloc_at (Suc n) sz p s = ret (a, s')" "heap_tables s'" "allocated s F A sz p a s' F' blk"
      "heap_tables s1" "heap_span b e a sz"
      "lazy_alloc_interval (kmalloc_at n) (current_page_dir s1) b e False True False s1 = ret s2"
      "kheap_state.more s' = kheap_state.more s2" "kheap_state.more s1 = kheap_state.more s" "same_bounds s s'"
    using pages.kmalloc_correct [OF inv rdy, of p sz "kmalloc_at n"] by auto
  have "page_aligned b" "page_aligned e" "unat KERNEL_HEAP_BEGIN \<le> unat b" "unat e \<le> unat KERNEL_HEAP_END"
    using r(5) by (simp_all add: heap_span_def)
  from lazy_alloc_keeps [OF r(4) this r(6)] have k: "kept s s'" using kept_more [OF r(8) r(7) [symmetric]] by simp
  have al: "free_space F' = free_space F - space blk" "space blk \<subseteq> free_space F" "hi blk - lo blk \<le> unat sz + 40" "card F' \<le> card F + 1"
    using r(3) by (simp_all add: allocated_def)
  have "card (free_space F') = card (free_space F) - card (space blk)" unfolding al(1)
    using al(2) by (intro card_Diff_subset) (auto simp: space_def)
  moreover have "card (space blk) \<le> 8232" using al(3) sz(1) by (simp add: space_def)
  ultimately have "roomy F' (Suc N)" using room(1) al(4) unfolding roomy_def by (intro conjI) auto
  then show ?thesis using r(1,2,3,9) k by blast
qed

text \<open>Where an allocated address lies.\<close>

lemma allocated_bounds:
  assumes "allocated s F A sz p a s' F' blk" "free_space F \<subseteq> {0xEFC00000..<0xFFC00000}" "0 < unat sz"
  shows "0xEFC00000 \<le> unat a" "unat a + unat sz \<le> 0xFFC00000"
proof -
  have sub: "{unat a - 8..<unat a + unat sz} \<subseteq> {0xEFC00000..<0xFFC00000}" using assms(1,2) unfolding allocated_def by (meson order.trans)
  have "unat a \<in> {unat a - 8..<unat a + unat sz}" "unat a + unat sz - 1 \<in> {unat a - 8..<unat a + unat sz}" using assms(3) by simp_all
  then have "unat a \<in> {0xEFC00000..<0xFFC00000}" "unat a + unat sz - 1 \<in> {0xEFC00000..<0xFFC00000}" using sub by blast+
  then show "0xEFC00000 \<le> unat a" "unat a + unat sz \<le> 0xFFC00000" by auto
qed

lemma heap_inv_space: "heap_inv s F A \<Longrightarrow> free_space F \<subseteq> {0xEFC00000..<0xFFC00000}"
  unfolding heap_inv_def heap_bounds by blast

section \<open>From the boot loader to the first page fault\<close>

lemma static_frame_le: "unat (kheap_static_end s) \<le> unat e + c * 4096 \<Longrightarrow> static_frame s \<le> unat e div 4096 + c"
  unfolding static_frame_def by (drule div_le_mono [where k = 4096]) simp

lemma boot_map_room:
  assumes map: "boot_map m mbd e es x" and k: "k \<le> unat e div 4096 + 0xC20"
  shows "region_frames k x \<noteq> []" "hd (region_frames k x) = region_last x - 2" "k < region_last x - 2"
proof -
  have "(unat e + 0x1100 * 4096) div 4096 \<le> region_last x"
    using map unfolding region_last_def by (intro div_le_mono) (simp add: boot_map_def)
  then have "unat e div 4096 + 0x1100 \<le> region_last x" by simp
  moreover from this have "k + 2 < region_last x" using k by simp
  moreover have "(unat (me_addr x) + 4095) div 4096 \<le> (unat e + 4096) div 4096" using map by (intro div_le_mono) (simp add: boot_map_def)
  then have "region_first x \<le> unat e div 4096 + 1" by (simp add: region_first_def)
  ultimately have "k + 2 < region_last x" "region_first x + 2 \<le> region_last x" by simp_all
  then show "region_frames k x \<noteq> []" "hd (region_frames k x) = region_last x - 2" "k < region_last x - 2"
    using region_frames_props(5) [OF boot_map_region [OF map]] by auto
qed

lemma boot_inv_start:
  assumes "\<not> kheap_finish_init_called s" "\<not> init_finished s" "\<not> paging_on s" "dirs s (current_page_dir s) = zero_directory" "kheap_static_end s \<noteq> 0"
    and "unat (kheap_static_end s) + 4198400 \<le> L" "L \<le> 0xEFC00000"
  shows "boot_inv L s"
proof -
  have T: "dir_tables s = {}" using assms(4) by (simp add: dir_tables_def tab_def zero_directory_def)
  have "unat (get_aligned (kheap_static_end s) 12) < unat (kheap_static_end s) + 2 ^ 12"
    using assms(6,7) by (intro get_aligned_bounds) simp
  then show ?thesis using assms unfolding boot_inv_def low_dir_def T by simp
qed

text \<open>The size of the array of reference counts, one word for each frame from the lowest to the highest.\<close>

lemma ref_cnt_size:
  assumes st: "stack_is fs s" and fs: "sorted_wrt (>) fs" "fs \<noteq> []"
  shows "unat (4 * (frames s 0 - frames s (nframes s - 1) + 1)) = 4 * (hd fs - last fs + 1)"
    "hd fs - last fs < 2 ^ 20" "last fs \<le> hd fs"
proof -
  have n: "unat (nframes s) = length fs" using st by (simp add: stack_is_def)
  have "frames s 0 = free_stack s 0" by (simp add: free_stack_def)
  then have first: "frames s 0 = of_nat (hd fs)" using st fs(2) by (simp add: stack_is_def hd_conv_nth)
  have "unat (nframes s - 1) = length fs - 1" using n fs(2) unat_minus_1 [of "nframes s"] by (metis length_0_conv unat_0)
  then have "nframes s - 1 = of_nat (length fs - 1)" by (metis of_nat_unat ucast_id)
  then have last: "frames s (nframes s - 1) = of_nat (last fs)"
    using st fs(2) by (simp add: stack_is_def free_stack_def last_conv_nth)
  have small: "hd fs < 2 ^ 20" "last fs < 2 ^ 20" using st fs(2) by (simp_all add: stack_is_def)
  then show "hd fs - last fs < 2 ^ 20" by simp
  show le: "last fs \<le> hd fs" using fs by (cases fs) (auto simp: less_imp_le)
  have "(4 :: u32) * (of_nat (hd fs) - of_nat (last fs) + 1) = of_nat (4 * (hd fs - last fs + 1))"
    using le by (simp add: of_nat_diff)
  moreover have "unat (of_nat (4 * (hd fs - last fs + 1)) :: u32) = 4 * (hd fs - last fs + 1)"
    using small by (intro unat_of_nat_small) simp
  ultimately show "unat (4 * (frames s 0 - frames s (nframes s - 1) + 1)) = 4 * (hd fs - last fs + 1)"
    by (simp only: first last)
qed

text \<open>The directory and the stack of frames.\<close>

lemma page_init_collects:
  assumes km: "static_km km" and s: "\<not> kheap_finish_init_called s" "\<not> init_finished s" "heap_image s" "\<not> paging_on s"
    and map: "boot_map (kmem s) mbd (kheap_static_end s) es x" and room: "unat (kheap_static_end s) + 0x1100000 \<le> 0xEFC00000"
  shows "\<exists>d s1 s2. km sizeof_Directory_t 12 s = ret (d, s1) \<and>
    init_frames km mbd (s1\<lparr>current_page_dir := d, dirs := (dirs s1)(d := zero_directory)\<rparr>) = ret s2 \<and>
    boot_inv (unat (kheap_static_end s) + 0x810000) s2 \<and> heap_image s2 \<and> stack_is (region_frames (static_frame s2) x) s2 \<and> kmem s2 = kmem s"
proof -
  let ?e = "kheap_static_end s" let ?d = "get_aligned ?e 12"
  let ?s1 = "s\<lparr>kheap_static_end := ?d + sizeof_Directory_t\<rparr>"
  let ?sA = "?s1\<lparr>current_page_dir := ?d, dirs := (dirs ?s1)(?d := zero_directory)\<rparr>"
  have dir: "km sizeof_Directory_t 12 s = ret (?d, ?s1)" using km s(1) by (simp add: static_km_def kmalloc_pre_init_def Let_def)
  have "unat ?e + 2 ^ 12 \<le> 2 ^ 32" using room by simp
  note al = get_aligned_bounds [OF this]
  have eA: "unat (kheap_static_end ?sA) = unat ?d + 8196" using al(2) room unat_add [of ?d 8196] by (simp add: sizeof_Directory_t_def)
  have "\<exists>s2 sz. init_frames km mbd ?sA = ret s2 \<and>
      s2 = ?sA\<lparr>kheap_static_end := kheap_static_end ?sA + sz, frames := frames s2, nframes := nframes s2\<rparr> \<and>
      unat sz \<le> 4194304 \<and> stack_is (region_frames (static_frame s2) x) s2"
    by (rule init_frames_boot [OF km, of ?sA mbd ?e es x]) (use s(1) map al(1,2) eA room in simp_all)
  then obtain s2 sz where s2: "init_frames km mbd ?sA = ret s2"
      "s2 = ?sA\<lparr>kheap_static_end := kheap_static_end ?sA + sz, frames := frames s2, nframes := nframes s2\<rparr>"
      "unat sz \<le> 4194304" "stack_is (region_frames (static_frame s2) x) s2" by blast
  have f2: "kheap_finish_init_called s2 = kheap_finish_init_called s" "init_finished s2 = init_finished s" "mm s2 = mm s" "paging_on s2 = paging_on s"
    "tree_size s2 = tree_size s" "tree_start s2 = tree_start s" "dirs s2 (current_page_dir s2) = zero_directory"
    "kheap_static_end s2 = kheap_static_end ?sA + sz" "kmem s2 = kmem s" by (subst s2(2), simp)+
  have e2: "unat (kheap_static_end s2) = unat ?d + 8196 + unat sz"
    using f2(8) eA s2(3) al(2) room unat_add [of "kheap_static_end ?sA" sz] by simp
  have "boot_inv (unat ?e + 0x810000) s2"
  proof (rule boot_inv_start)
    show "kheap_static_end s2 \<noteq> 0" using e2 by (metis add_is_0 unat_0 zero_neq_numeral)
  qed (use f2 s e2 al(2) s2(3) room in simp_all)
  moreover have "heap_image s2" using s(3) f2 by (simp add: heap_image_def)
  ultimately show ?thesis using dir s2(1,4) f2(9) by (intro exI [of _ ?d] exI [of _ ?s1] exI [of _ s2]) simp
qed

text \<open>The heap, the reference counts and the identity map.\<close>

lemma page_init_tables:
  assumes km: "static_km km" and img: "heap_image s2" and inv: "boot_inv (unat e + 0x810000) s2"
    and st: "stack_is fs s2" "fs = region_frames (static_frame s2) x"
    and map: "boot_map m mbd e es x" and room: "unat e + 0x1100000 \<le> 0xEFC00000"
  shows "\<exists>s3 b s4 s5. kheap_init (\<lambda>i s. andThen (get_page km (current_page_dir s) i True s) (\<lambda>(_, s). ret s)) s2 = ret s3 \<and>
    km (4 * (frames s3 0 - frames s3 (nframes s3 - 1) + 1)) 0 s3 = ret (b, s4) \<and>
    map_kernel_image km 0x1000 s4 = ret s5 \<and>
    boot_inv (unat e + 0xC20000) s5 \<and> trees s5 {whole_heap} {whole_heap} \<and> heap_tables s5 \<and>
    image_mapped (kheap_static_end s5) s5 \<and> stack_is fs s5 \<and> sorted_wrt (>) fs \<and> fs \<noteq> [] \<and> static_frame s5 < hd fs \<and>
    (\<forall>f. static_frame s5 < f \<longrightarrow> f \<in> set fs \<longleftrightarrow> region_first x \<le> f \<and> f + 1 < region_last x) \<and> kmem s5 = kmem s2"
proof -
  note x = boot_map_region [OF map]
  have k2: "static_frame s2 \<le> unat e div 4096 + 0xC20" using inv by (intro static_frame_le) (simp add: boot_inv_def)
  note fs = boot_map_room [OF map k2, folded st(2)]
  have sorted: "sorted_wrt (>) fs" unfolding st(2) by (rule region_frames_props(1) [OF x])
  obtain s3 where s3: "kheap_init (\<lambda>i s. andThen (get_page km (current_page_dir s) i True s) (\<lambda>(_, s). ret s)) s2 = ret s3"
      "boot_inv (unat e + 0x810000) s3" "trees s3 {whole_heap} {whole_heap}" "heap_tables s3" "kheap_static_end s2 \<le> kheap_static_end s3"
      "frames s3 = frames s2" "nframes s3 = nframes s2" "kmem s3 = kmem s2" using kheap_init_boot [OF km inv img] by blast
  have st3: "stack_is fs s3" using st(1) stack_is_cong [OF s3(6,7)] by simp
  let ?n = "4 * (frames s3 0 - frames s3 (nframes s3 - 1) + 1)" let ?s4 = "s3\<lparr>kheap_static_end := kheap_static_end s3 + ?n\<rparr>"
  have n: "unat ?n \<le> 4194304" using ref_cnt_size [OF st3 sorted fs(1)] by simp
  have r4: "km ?n 0 s3 = ret (kheap_static_end s3, ?s4)" using static_alloc [OF km] s3(2) by (simp add: boot_inv_def)
  have "boot_inv (unat e + 0x810000 + 4194304 + 4096) ?s4" by (rule boot_inv_static [OF s3(2) n]) (use room in simp)
  then have "boot_inv (unat e + 0xC20000) ?s4" using room by (auto simp: boot_inv_def)
  moreover have "image_mapped 0x1000 ?s4" by (auto simp: image_mapped_def)
  ultimately obtain s5 where s5: "map_kernel_image km 0x1000 ?s4 = ret s5" "boot_inv (unat e + 0xC20000) s5" "mapped ?s4 s5"
      "image_mapped (kheap_static_end s5) s5" using map_kernel_image_boot [OF km, of _ ?s4 "0x1000"] by auto
  have eq5: "s5 = ?s4\<lparr>kheap_static_end := kheap_static_end s5, dirs := dirs s5, tabs := tabs s5\<rparr>" using s5(3) by (simp only: mapped_def)
  have f5: "mm s5 = mm s3" "tree_size s5 = tree_size s3" "tree_start s5 = tree_start s3" "frames s5 = frames s3" "nframes s5 = nframes s3" "kmem s5 = kmem s3"
    by (subst eq5, simp)+
  have "dir_tables ?s4 = dir_tables s3" by (simp add: dir_tables_def tab_def)
  then have "heap_tables s5" using s3(4) s5(3) by (auto simp: heap_tables_iff mapped_def)
  moreover have "trees s5 {whole_heap} {whole_heap}" using s3(3) trees_cong [of s5 s3] f5 by simp
  moreover have "static_frame s5 \<le> unat e div 4096 + 0xC20" using s5(2) by (intro static_frame_le) (simp add: boot_inv_def)
  then have "static_frame s5 < hd fs" using boot_map_room(3) [OF map] by (simp add: fs)
  moreover have "f \<in> set fs \<longleftrightarrow> region_first x \<le> f \<and> f + 1 < region_last x" if "static_frame s5 < f" for f
  proof -
    have "kheap_static_end s2 \<le> kheap_static_end s5" using s3(5) boot_inv_static(2) [OF s3(2) n] s5(3) room
      by (auto simp: mapped_def intro: order.trans)
    then have "static_frame s2 \<le> static_frame s5" unfolding static_frame_def word_le_nat_alt by (rule div_le_mono)
    then show ?thesis using that region_frames_props(2) [OF x, of f "static_frame s2"] by (auto simp: st(2))
  qed
  ultimately show ?thesis using s3(1,8) r4 s5 stack_is_cong [OF f5(4,5)] st3 sorted fs(1) f5(6)
    by (intro exI [of _ s3] exI [of _ "kheap_static_end s3"] exI [of _ ?s4] exI [of _ s5]) simp
qed

section \<open>The state Page::init leaves\<close>

text \<open>Tables of their own for every part of the address space, in static memory.\<close>

definition tables_ok :: "'a page_state_scheme \<Rightarrow> bool" where
  "tables_ok s \<longleftrightarrow> heap_idx \<subseteq> dir_tables s \<and> dir_tables s \<subseteq> {..<1023} \<and> inj_on (tab s) (dir_tables s) \<and>
     (\<forall>i \<in> dir_tables s. unat (tab s i) < 0xEFC00000)"

text \<open>The heap's part of it, which stays when more tables are made.\<close>

definition heap_tabs :: "'a page_state_scheme \<Rightarrow> bool" where
  "heap_tabs s \<longleftrightarrow> inj_on (tab s) heap_idx \<and> (\<forall>i \<in> heap_idx. tab s i \<noteq> 0 \<and> unat (tab s i) < 0xEFC00000)"

lemma tables_ok_heap: "tables_ok s \<Longrightarrow> heap_tabs s"
  unfolding tables_ok_def heap_tabs_def dir_tables_def by (auto intro: inj_on_subset)

text \<open>Pages that have no frame yet.\<close>

definition cold :: "entry_ref set \<Rightarrow> 'a page_state_scheme \<Rightarrow> bool" where
  "cold R s \<longleftrightarrow> (\<forall>r \<in> R. addr (ent r s) = 0 \<and> \<not> present (ent r s) \<and> alloc_fill (ent r s) = 0)"

text \<open>The entries of the heap's pages, except the two windows.\<close>

definition heap_refs :: "'a page_state_scheme \<Rightarrow> entry_ref set" where
  "heap_refs s = tab s ` heap_idx \<times> {..<1024} - window_refs s"

lemma heap_refs_small: "finite (heap_refs s)" "card (heap_refs s) < 2 ^ 32"
proof -
  have fin: "finite (tab s ` heap_idx \<times> {..<1024 :: nat})" by (simp add: heap_idx_val)
  then show "finite (heap_refs s)" by (simp add: heap_refs_def)
  have "card (heap_refs s) \<le> card (tab s ` heap_idx \<times> {..<1024 :: nat})" unfolding heap_refs_def by (intro card_mono fin) auto
  also have "\<dots> = card (tab s ` heap_idx) * 1024" by (simp add: card_cartesian_product)
  also have "card (tab s ` heap_idx) \<le> 64" using card_image_le [of heap_idx "tab s"] by (simp add: heap_idx_val)
  finally show "card (heap_refs s) < 2 ^ 32" by simp
qed

lemma heap_frames_ok:
  assumes cold: "cold (heap_refs s) s" and st: "stack_is fs s" and fs: "distinct fs" "0 \<notin> set fs"
  shows "frames_ok {f. unat f \<in> set fs} (heap_refs s) s"
proof (rule frames_okI)
  have zero: "addr (ent r s) = 0" if "r \<in> heap_refs s" for r using cold that by (simp add: cold_def)
  then have none: "holders (heap_refs s) s f = {}" if "unat f \<in> set fs" for f using fs(2) that by (auto simp: holders_def)
  show "addr (ent r s) \<in> {f. unat f \<in> set fs}" if "r \<in> heap_refs s" "addr (ent r s) \<noteq> 0" for r using zero that by simp
  show "unat (frame_ref_cnt s (ucast f)) = card (holders (heap_refs s) s f)"
    if "f \<in> {f. unat f \<in> set fs}" "holders (heap_refs s) s f \<noteq> {}" for f using none that by simp
  have n: "unat (nframes s) = length fs" and at: "\<And>j. j < length fs \<Longrightarrow> free_stack s j = of_nat (fs ! j)"
    and small: "\<And>f. f \<in> set fs \<Longrightarrow> f < 2 ^ 20" using st by (auto simp: stack_is_def)
  have of: "unat (of_nat f :: u32) = f" "unat (of_nat f :: frame_no) = f" "(of_nat f :: u32) = ucast (of_nat f :: frame_no)" if "f \<in> set fs" for f
  proof -
    show 1: "unat (of_nat f :: u32) = f" "unat (of_nat f :: frame_no) = f" using small [OF that] by (simp_all add: unat_of_nat)
    have "f < 2 ^ 32" using small [OF that] by simp
    then have "unat (ucast (of_nat f :: frame_no) :: u32) = f" unfolding unsigned_ucast_eq 1(2) by (simp add: take_bit_nat_eq_self)
    then show "(of_nat f :: u32) = ucast (of_nat f :: frame_no)" using 1(1) by (simp add: word_unat_eq_iff)
  qed
  have "inj_on (\<lambda>j. of_nat (fs ! j) :: u32) {..<length fs}"
    using fs(1) of(1) by (intro inj_onI) (metis lessThan_iff nth_eq_iff_index_eq nth_mem)
  then show "inj_on (free_stack s) {..<unat (nframes s)}" using at by (simp add: n inj_on_def)
  have "free_stack s ` {..<length fs} = (\<lambda>f. ucast (of_nat f :: frame_no)) ` set fs"
    using at of(3) by (force simp: set_conv_nth image_def)
  also have "\<dots> = ucast ` {f :: frame_no. unat f \<in> set fs}"
  proof -
    have "{f :: frame_no. unat f \<in> set fs} = of_nat ` set fs" using of(2) by (auto simp: image_iff) (metis of_nat_unat ucast_id)
    then show ?thesis by (simp add: image_image)
  qed
  finally show "free_stack s ` {..<unat (nframes s)} = ucast ` {f \<in> {f. unat f \<in> set fs}. holders (heap_refs s) s f = {}}"
    using none n by (simp add: Collect_conj_eq [symmetric] cong: conj_cong)
  show "0 \<notin> {f :: frame_no. unat f \<in> set fs}" using fs(2) by simp
qed (rule heap_refs_small)+

lemma windows_up:
  assumes ok: "heap_tabs s" and a: "4096 dvd unat a" "0xEFC00000 \<le> unat a" "unat a + 8192 \<le> 0xFFC00000"
  shows "tb_idx a \<in> heap_idx" "tb_idx (a + 0x1000) \<in> heap_idx" "vpn a \<noteq> vpn (a + 0x1000)"
    "(tab s (tb_idx a), tb_offset a) \<noteq> (tab s (tb_idx (a + 0x1000)), tb_offset (a + 0x1000))"
proof -
  have b: "unat (a + 0x1000) = unat a + 0x1000" using a(3) unat_add [of a "0x1000"] by simp
  show i: "tb_idx a \<in> heap_idx" "tb_idx (a + 0x1000) \<in> heap_idx" using a b by (auto intro!: heap_addr_idx simp: heap_bounds)
  have v: "unat (vpn c) = unat c div 4096" for c
    using less_mult_imp_div_less [of "unat c" "2 ^ 20" 4096] unat_lt_2_32 [of c]
    by (simp add: vpn_def unsigned_ucast_eq unat_drop_bit take_bit_nat_eq_self)
  show "vpn a \<noteq> vpn (a + 0x1000)"
  proof
    assume "vpn a = vpn (a + 0x1000)"
    then have "unat a div 4096 = (unat a + 4096) div 4096" using v [of a] v [of "a + 0x1000"] by (simp add: b)
    then show False by simp
  qed
  show "(tab s (tb_idx a), tb_offset a) \<noteq> (tab s (tb_idx (a + 0x1000)), tb_offset (a + 0x1000))"
  proof
    assume eq: "(tab s (tb_idx a), tb_offset a) = (tab s (tb_idx (a + 0x1000)), tb_offset (a + 0x1000))"
    then have "tb_idx a = tb_idx (a + 0x1000)" using ok i unfolding heap_tabs_def by (metis inj_onD prod.inject)
    moreover have "4096 dvd unat (a + 0x1000)" using a(1) b by simp
    ultimately have "a = a + 0x1000" using eq a(1) by (intro page_eqI) (simp_all only: prod.inject)
    then show False by simp
  qed
qed

text \<open>The last steps: the windows are allocated on the heap and marked present.\<close>

definition open_windows :: "u32 \<Rightarrow> 'a page_state_scheme \<Rightarrow> 'a page_state_scheme" where
  "open_windows a s =
     (let s = s\<lparr>empty_page0_addr := a, empty_page1_addr := a + 0x1000, empty_page0_ptr := (tab s (tb_idx a), tb_offset a),
            empty_page1_ptr := (tab s (tb_idx (a + 0x1000)), tb_offset (a + 0x1000))\<rparr>;
          s = upd_ent (empty_page0_ptr s) (\<lambda>e. e\<lparr>present := True\<rparr>) s
      in upd_ent (empty_page1_ptr s) (\<lambda>e. e\<lparr>present := True\<rparr>) s)"

lemma open_windows_fields:
  "kheap_state.truncate (open_windows a s) = kheap_state.truncate s" "tab (open_windows a s) = tab s"
  "dir_tables (open_windows a s) = dir_tables s" "frames (open_windows a s) = frames s" "nframes (open_windows a s) = nframes s"
  "kheap_static_end (open_windows a s) = kheap_static_end s" "init_finished (open_windows a s) = init_finished s"
  "paging_on (open_windows a s) = paging_on s"
  by (simp_all add: open_windows_def Let_def upd_ent_def kheap_state.truncate_def tab_def dir_tables_def fun_eq_iff)

lemma open_windows_ent:
  "ent q (open_windows a s) = (if q = (tab s (tb_idx a), tb_offset a) \<or> q = (tab s (tb_idx (a + 0x1000)), tb_offset (a + 0x1000))
     then (ent q s)\<lparr>present := True\<rparr> else ent q s)"
proof -
  have "ent q (s\<lparr>empty_page0_addr := b, empty_page1_addr := c, empty_page0_ptr := d, empty_page1_ptr := e\<rparr>) = ent q s" for q b c d e
    by (simp add: ent_def)
  then show ?thesis by (simp add: open_windows_def Let_def ent_upd_ent)
qed

lemma open_windows_up:
  assumes ok: "tables_ok s" and a: "4096 dvd unat a" "0xEFC00000 \<le> unat a" "unat a + 8192 \<le> 0xFFC00000"
  shows "tables_ok (open_windows a s)" "windows_ok (open_windows a s)" "cold (tab s ` heap_idx \<times> UNIV) s \<Longrightarrow> cold (heap_refs (open_windows a s)) (open_windows a s)"
    "identity p s \<Longrightarrow> unat p < 0xEFC00000 \<Longrightarrow> identity p (open_windows a s)"
proof -
  note w = windows_up [OF tables_ok_heap [OF ok] a]
  show "tables_ok (open_windows a s)" using ok by (auto simp: tables_ok_def open_windows_fields open_windows_ent)
  have ptr: "empty_page0_ptr (open_windows a s) = (tab s (tb_idx a), tb_offset a)" "empty_page0_addr (open_windows a s) = a"
    "empty_page1_ptr (open_windows a s) = (tab s (tb_idx (a + 0x1000)), tb_offset (a + 0x1000))" "empty_page1_addr (open_windows a s) = a + 0x1000"
    by (simp_all add: open_windows_def Let_def)
  show "windows_ok (open_windows a s)"
    unfolding windows_ok_def ptr tab_def [symmetric] open_windows_fields using w by simp
  show "cold (heap_refs (open_windows a s)) (open_windows a s)" if "cold (tab s ` heap_idx \<times> UNIV) s"
    using that by (auto simp: cold_def heap_refs_def window_refs_def ptr open_windows_fields open_windows_ent)
  show "identity p (open_windows a s)" if p: "identity p s" "unat p < 0xEFC00000"
  proof -
    have "tab s (tb_idx p) \<noteq> tab s i" if "i \<in> heap_idx" for i
      using ok p that low_not_heap [OF p(2)] unfolding tables_ok_def identity_def by (metis inj_onD subsetD)
    then show ?thesis using p(1) w(1,2) by (auto simp: identity_def open_windows_fields open_windows_ent Let_def)
  qed
qed

lemma kept_identity:
  assumes k: "kept s s'" and ok: "tables_ok s" and p: "identity p s" "unat p < 0xEFC00000"
  shows "identity p s'"
proof -
  have t: "tab s' = tab s" "dir_tables s' = dir_tables s" using k by (simp_all add: kept_def tab_def dir_tables_def fun_eq_iff)
  have "tab s (tb_idx p) \<notin> tab s ` heap_idx"
    using ok p low_not_heap [OF p(2)] unfolding tables_ok_def identity_def by (metis imageE inj_onD subsetD)
  then have "ent (tab s (tb_idx p), tb_offset p) s' = ent (tab s (tb_idx p), tb_offset p) s" using k unfolding kept_def by (metis fst_conv)
  then show ?thesis using p(1) by (simp add: identity_def t)
qed

lemma kept_tables:
  assumes "kept s s'"
  shows "tab s' = tab s" "dir_tables s' = dir_tables s" "tables_ok s' = tables_ok s" "cold R s \<Longrightarrow> cold R s'"
proof -
  show t: "tab s' = tab s" "dir_tables s' = dir_tables s" using assms by (simp_all add: kept_def tab_def dir_tables_def fun_eq_iff)
  show "tables_ok s' = tables_ok s" unfolding tables_ok_def t ..
  show "cold R s'" if "cold R s" using that kept_addr [OF assms] unfolding cold_def flags_only_def by metis
qed

text \<open>Turning paging on and handing the heap over.\<close>

definition paging_start :: "'a page_state_scheme \<Rightarrow> 'a page_state_scheme" where
  "paging_start s =
     (let s = upd_dir (current_page_dir s) (\<lambda>D. D\<lparr>phyaddr := current_page_dir s + 4096\<rparr>) s;
          s = enable (current_page_dir s) s
      in kheap_finish_init (s\<lparr>paging_on := True, init_finished := True\<rparr>))"

lemma paging_start_fields:
  "tab (paging_start s) = tab s" "dir_tables (paging_start s) = dir_tables s" "ent q (paging_start s) = ent q s"
  "frames (paging_start s) = frames s" "nframes (paging_start s) = nframes s" "mm (paging_start s) = mm s"
  "tree_size (paging_start s) = tree_size s" "tree_start (paging_start s) = tree_start s"
  "kheap_static_end (paging_start s) = kheap_static_end s" "kheap_finish_init_called (paging_start s)"
  "paging_on (paging_start s)" "init_finished (paging_start s)"
  by (simp_all add: paging_start_def Let_def upd_dir_def enable_def kheap_finish_init_def tab_def dir_tables_def ent_def fun_eq_iff)

lemma paging_start_ready:
  assumes "trees s {whole_heap} {whole_heap}" "heap_tables s" "boot_inv L s"
  shows "heap_inv (paging_start s) {whole_heap} Map.empty" "heap_tables (paging_start s)" "tables_ok (paging_start s)"
    "cold (tab (paging_start s) ` heap_idx \<times> UNIV) (paging_start s)"
proof -
  have "trees (paging_start s) {whole_heap} {whole_heap}" using assms(1) trees_cong [of "paging_start s" s] by (simp add: paging_start_fields)
  then show "heap_inv (paging_start s) {whole_heap} Map.empty"
    using paging_start_fields(10) [of s]
    by (simp add: heap_inv_def heap_free_def whole_heap_space live_ok_def free_space_def space_def)
  show "heap_tables (paging_start s)" using assms(2) by (simp add: heap_tables_iff paging_start_fields)
  show "tables_ok (paging_start s)" using assms(2,3) unfolding tables_ok_def paging_start_fields heap_tables_iff boot_inv_def
    by (auto intro: le_less_trans)
  show "cold (tab (paging_start s) ` heap_idx \<times> UNIV) (paging_start s)" using assms(2,3)
    by (auto simp: cold_def paging_start_fields heap_tables_iff boot_inv_def zero_entry_def)
qed

text \<open>User memory begins at the first table behind static memory and ends below the heap.\<close>

definition user_bounds :: "'a kheap_state_scheme \<Rightarrow> bool" where
  "user_bounds s \<longleftrightarrow> USER_MEM_LOW s = get_aligned (kheap_static_end s) 22 \<and> USER_MEM_HIGH s = KERNEL_HEAP_BEGIN - 1"

lemma user_bounds_same: "same_bounds s s' \<Longrightarrow> user_bounds s' = user_bounds s"
  by (simp add: same_bounds_def user_bounds_def)

lemma low_dir_same: "tab s' = tab s \<Longrightarrow> kheap_static_end s' = kheap_static_end s \<Longrightarrow> low_dir s' = low_dir s"
  by (simp add: low_dir_def dir_tables_def)

text \<open>Memory below the heap: the kernel image, what the boot loader left, and user memory.\<close>

definition same_low :: "'a kheap_state_scheme \<Rightarrow> 'a kheap_state_scheme \<Rightarrow> bool" where
  "same_low s s' \<longleftrightarrow> (\<forall>x. unat x < 0xEFC00000 \<longrightarrow> kmem s' x = kmem s x)"

lemma same_low_kmem: "kmem s' = kmem s \<Longrightarrow> same_low s s'"
  by (simp add: same_low_def)

lemma same_low_trans: "same_low s s' \<Longrightarrow> same_low s' s'' \<Longrightarrow> same_low s s''"
  by (simp add: same_low_def)

lemma allocated_low:
  assumes al: "allocated s F A sz p a s' F' blk" and inv: "heap_inv s F A" and sz: "0 < unat sz"
  shows "same_low s s'"
proof -
  have "{unat a - 8..<unat a + unat sz} \<subseteq> {0xEFC00000..<0xFFC00000}" using al heap_inv_space [OF inv] unfolding allocated_def by (meson order.trans)
  moreover have "unat a - 8 \<in> {unat a - 8..<unat a + unat sz}" using sz by auto
  ultimately have a: "0xEFC00000 \<le> unat a - 8" by (meson atLeastLessThan_iff subsetD)
  have "8 \<le> unat a" using a by simp
  then have "unat (a - sizeof_Block_t) = unat a - 8" "unat (a - sizeof_Block_t) + 8 \<le> 2 ^ 32" using header_bounds [of "\<lparr>start = 0, bsize = 0\<rparr>" a]
    by (simp_all add: lo_def)
  then have "x \<notin> bytes_at (a - sizeof_Block_t) 8" if "unat x < 0xEFC00000" for x using that a by (simp add: bytes_at_unat)
  then show ?thesis using al by (simp add: same_low_def allocated_def)
qed

text \<open>The state between turning paging on and allocating the windows, with the free frames \<open>fs\<close> on the stack.\<close>

definition heap_ready :: "nat list \<Rightarrow> 'a page_state_scheme \<Rightarrow> bool" where
  "heap_ready fs s \<longleftrightarrow> heap_inv s {whole_heap} Map.empty \<and> heap_tables s \<and> tables_ok s \<and> cold (tab s ` heap_idx \<times> UNIV) s \<and>
     stack_is fs s \<and> distinct fs \<and> 0 \<notin> set fs \<and> image_mapped (kheap_static_end s) s \<and> unat (kheap_static_end s) \<le> 0xEFC00000 \<and>
     paging_on s \<and> init_finished s \<and> user_bounds s \<and> low_dir s"

text \<open>The windows are two pages of an allocated block.\<close>

definition windows_live :: "(u32 \<rightharpoonup> Block_t) \<Rightarrow> 'a page_state_scheme \<Rightarrow> bool" where
  "windows_live A s \<longleftrightarrow> (let a = empty_page0_addr s in empty_page1_addr s = a + 0x1000 \<and> 4096 dvd unat a \<and> 0xEFC00000 \<le> unat a \<and>
     unat a + 8192 \<le> 0xFFC00000 \<and> (\<exists>blk. A a = Some blk \<and> {unat a..<unat a + 8192} \<subseteq> space blk))"

text \<open>
  Memory management is up: the heap's invariant with room left, its tables, the accounting of the frames \<open>M\<close> over the
  entries \<open>R\<close>, and the windows.
\<close>

definition memory_up :: "nat \<Rightarrow> Block_t set \<Rightarrow> (u32 \<rightharpoonup> Block_t) \<Rightarrow> frame_no set \<Rightarrow> entry_ref set \<Rightarrow> 'a page_state_scheme \<Rightarrow> bool" where
  "memory_up N F A M R s \<longleftrightarrow> heap_inv s F A \<and> roomy F N \<and> heap_tables s \<and> page_inv M (R, s) \<and>
     windows_live A s \<and> paging_on s \<and> init_finished s"

lemma page_init_windows:
  assumes rdy: "heap_ready fs s"
  shows "\<exists>a s1 F A. kmalloc_at (Suc n) (push_bit 13 1) 12 s = ret (a, s1) \<and>
    lookup_page (current_page_dir s1) a s1 = Some (tab s1 (tb_idx a), tb_offset a) \<and>
    lookup_page (current_page_dir s1) (a + 0x1000) s1 = Some (tab s1 (tb_idx (a + 0x1000)), tb_offset (a + 0x1000)) \<and>
    memory_up 1 F A {f. unat f \<in> set fs} (heap_refs (open_windows a s1)) (open_windows a s1) \<and>
    tables_ok (open_windows a s1) \<and> cold (heap_refs (open_windows a s1)) (open_windows a s1) \<and>
    image_mapped (kheap_static_end s) (open_windows a s1) \<and> kheap_static_end (open_windows a s1) = kheap_static_end s \<and>
    user_bounds (open_windows a s1) \<and> low_dir (open_windows a s1) \<and> same_low s (open_windows a s1)"
proof -
  note R = rdy [unfolded heap_ready_def]
  have inv: "heap_inv s {whole_heap} Map.empty" "heap_tables s" using R by simp_all
  have "unat (push_bit 13 1 :: u32) = 8192" by simp
  with kmalloc_roomy [OF inv roomy_whole, of "push_bit 13 1" 12 n] obtain a s1 F blk where
    al: "kmalloc_at (Suc n) (push_bit 13 1) 12 s = ret (a, s1)" "heap_tables s1" "allocated s {whole_heap} Map.empty (push_bit 13 1) 12 a s1 F blk"
      "roomy F 1" "kept s s1" "same_bounds s s1" by (auto simp del: kmalloc_at.simps)
  let ?A = "Map.empty(a \<mapsto> blk)" let ?s = "open_windows a s1"
  have A: "heap_inv s1 F ?A" "4096 dvd unat a" "{unat a..<unat a + 8192} \<subseteq> space blk"
    using al(3) by (auto simp: allocated_def subset_iff)
  have ends: "0xEFC00000 \<le> unat a" "unat a + 8192 \<le> 0xFFC00000" using allocated_bounds [OF al(3) heap_inv_space [OF inv(1)]] by simp_all
  have ok: "tables_ok s1" using kept_tables(3) [OF al(5)] R by simp
  note w = windows_up [OF tables_ok_heap [OF ok] A(2) ends] and up = open_windows_up [OF ok A(2) ends]
  have "tb_idx a \<in> dir_tables s1" "tb_idx (a + 0x1000) \<in> dir_tables s1" using ok w(1,2) by (auto simp: tables_ok_def)
  then have look: "lookup_page (current_page_dir s1) a s1 = Some (tab s1 (tb_idx a), tb_offset a)"
    "lookup_page (current_page_dir s1) (a + 0x1000) s1 = Some (tab s1 (tb_idx (a + 0x1000)), tb_offset (a + 0x1000))"
    by (simp_all add: lookup_page_def tab_def dir_tables_def)
  have cold: "cold (heap_refs ?s) ?s" using up(3) kept_tables [OF al(5)] R by simp
  have "stack_is fs ?s" using R stack_is_cong [of ?s s] al(5) by (simp add: open_windows_fields kept_def)
  then have "page_inv {f. unat f \<in> set fs} (heap_refs ?s, ?s)"
    using heap_frames_ok [OF cold] R up(2) by (auto simp: page_inv_def heap_refs_def)
  moreover have "heap_inv ?s F ?A" using A(1) heap_inv_truncate [OF open_windows_fields(1)] by blast
  moreover have "heap_tables ?s" using al(2) by (simp add: heap_tables_iff open_windows_fields)
  moreover have "windows_live ?A ?s" using A ends by (simp add: windows_live_def open_windows_def Let_def)
  moreover have "paging_on ?s" "init_finished ?s" using al(5) R by (simp_all add: kept_def open_windows_fields)
  ultimately have "memory_up 1 F ?A {f. unat f \<in> set fs} (heap_refs ?s) ?s" using al(4) by (simp add: memory_up_def)
  moreover have "identity p ?s" if "identity p s" "unat p < 0xEFC00000" for p
    using that R kept_identity [OF al(5)] up(4) by blast
  then have "image_mapped (kheap_static_end s) ?s" using R by (auto simp: image_mapped_def word_less_nat_alt)
  moreover have tr: "kheap_state.truncate ?s = kheap_state.truncate s1" by (rule open_windows_fields)
  then have "same_low s1 ?s" "same_bounds s1 ?s" using truncate_fields [OF tr] by (simp_all add: same_low_kmem same_bounds_def)
  then have "same_low s ?s" "same_bounds s ?s"
    using same_low_trans [OF allocated_low [OF al(3) inv(1)]] same_bounds_trans [OF al(6)] by simp_all
  moreover from this(2) have "user_bounds ?s" "low_dir ?s"
    using R user_bounds_same [of s ?s] low_dir_same [of ?s s] kept_tables(1) [OF al(5)] by (simp_all add: open_windows_fields same_bounds_def)
  ultimately show ?thesis using al(1,6) look up(1) cold
    by (intro exI [of _ a] exI [of _ s1] exI [of _ F] exI [of _ ?A]) (simp add: open_windows_fields same_bounds_def del: kmalloc_at.simps)
qed

section \<open>Initialization\<close>

text \<open>Where static memory starts: behind the kernel image and the module the boot loader placed after it.\<close>

definition boot_end :: "u32 \<Rightarrow> 'a page_state_scheme \<Rightarrow> u32" where
  "boot_end ptr_mbd s =
     (let mbd = load_Multiboot_info ptr_mbd (kmem s)
      in kheap_static_end (if mods_count mbd \<noteq> 0 then kheap_preserve_mem (load32 (mods_addr mbd + 4) (kmem s) + 4) s else s))"

text \<open>The calls of \<^verbatim>\<open>Page::init\<close> in their order.\<close>

definition low_tables :: "'a page_state_scheme \<Rightarrow> 'a page_state_scheme" where
  "low_tables s = s\<lparr>kernel_low_ntable := drop_bit 22 (kheap_get_size_pre_init s - 1) + 1\<rparr>"

lemma page_init_run:
  assumes "mb_flags (load_Multiboot_info ptr (kmem s)) AND MULTIBOOT_INFO_MEM_MAP \<noteq> 0"
    and "s0 = (if mods_count (load_Multiboot_info ptr (kmem s)) \<noteq> 0
      then kheap_preserve_mem (load32 (mods_addr (load_Multiboot_info ptr (kmem s)) + 4) (kmem s) + 4) s else s)"
    and "km sizeof_Directory_t 12 s0 = ret (d, s1)"
    and "init_frames km (load_Multiboot_info ptr (kmem s)) (s1\<lparr>current_page_dir := d, dirs := (dirs s1)(d := zero_directory)\<rparr>) = ret s2"
    and "kheap_init (\<lambda>i s. andThen (get_page km (current_page_dir s) i True s) (\<lambda>(_, s). ret s)) s2 = ret s3"
    and "km (4 * (frames s3 0 - frames s3 (nframes s3 - 1) + 1)) 0 s3 = ret (b, s4)" "map_kernel_image km 0x1000 s4 = ret s5"
    and "drop_frames (low_tables s5) = ret s6" "km (push_bit 13 1) 12 (paging_start s6) = ret (a, s8)"
    and "lookup_page (current_page_dir s8) a s8 = Some (tab s8 (tb_idx a), tb_offset a)"
      "lookup_page (current_page_dir s8) (a + 0x1000) s8 = Some (tab s8 (tb_idx (a + 0x1000)), tb_offset (a + 0x1000))"
  shows "page_init km (\<lambda>p. p) ptr s = ret (open_windows a s8)"
proof -
  have look: "lookup_page (current_page_dir s8) c (s8\<lparr>empty_page0_addr := a, empty_page1_addr := a + 0x1000\<rparr>) = lookup_page (current_page_dir s8) c s8" for c
    by (simp add: lookup_page_def)
  show ?thesis
    unfolding page_init_def Let_def using assms(1,3-7) assms(8) [unfolded low_tables_def] assms(9) [unfolded paging_start_def Let_def] assms(10,11)
    by (simp add: assms(2) [symmetric] look open_windows_def page_of_def Let_def)
qed

text \<open>The frames static memory has grown over are given up before paging is turned on.\<close>

lemma page_init_frames:
  assumes s: "boot_inv L s" "trees s {whole_heap} {whole_heap}" "heap_tables s" "image_mapped (kheap_static_end s) s"
    and fs: "stack_is fs s" "sorted_wrt (>) fs" "fs \<noteq> []" "static_frame s < hd fs"
  defines "gs \<equiv> filter (\<lambda>f. static_frame s < f) fs"
  shows "\<exists>s6. drop_frames (low_tables s) = ret s6 \<and> heap_ready gs (paging_start s6) \<and> kheap_static_end (paging_start s6) = kheap_static_end s \<and>
    kmem (paging_start s6) = kmem s"
proof -
  let ?s = "low_tables s"
  have "stack_is fs ?s" "static_frame ?s = static_frame s"
    using fs(1) stack_is_cong [of ?s s] by (simp_all add: low_tables_def static_frame_def)
  with drop_frames_boot [OF _ fs(2,3), of ?s] fs(4) obtain m where
    m: "drop_frames ?s = ret (?s\<lparr>nframes := m\<rparr>)" "stack_is gs (?s\<lparr>nframes := m\<rparr>)" by (auto simp: gs_def)
  let ?t = "?s\<lparr>nframes := m\<rparr>"
  have same: "tab ?t = tab s" "dir_tables ?t = dir_tables s" "ent q ?t = ent q s" "kheap_static_end ?t = kheap_static_end s"
    "kheap_finish_init_called ?t = kheap_finish_init_called s" "init_finished ?t = init_finished s" "paging_on ?t = paging_on s" for q
    by (simp_all add: tab_def dir_tables_def ent_def fun_eq_iff low_tables_def)
  have low: "low_dir ?t" using s(1) unfolding boot_inv_def low_dir_def same by blast
  have "boot_inv L ?t" using s(1) low unfolding boot_inv_def same by blast
  moreover have "trees ?t {whole_heap} {whole_heap}" using s(2) trees_cong [of ?t s] by (simp add: low_tables_def)
  moreover have "heap_tables ?t" using s(3) unfolding heap_tables_iff same .
  ultimately have "heap_inv (paging_start ?t) {whole_heap} Map.empty" "heap_tables (paging_start ?t)" "tables_ok (paging_start ?t)"
    "cold (tab (paging_start ?t) ` heap_idx \<times> UNIV) (paging_start ?t)" using paging_start_ready by blast+
  moreover have "distinct fs" using fs(2) by (metis distinct_rev sorted_wrt_rev strict_sorted_iff)
  then have "distinct gs" "0 \<notin> set gs" by (simp_all add: gs_def)
  moreover have "stack_is gs (paging_start ?t)" using m(2) stack_is_cong [of "paging_start ?t" ?t] by (simp add: paging_start_fields)
  moreover have "image_mapped (kheap_static_end (paging_start ?t)) (paging_start ?t)"
    using s(4) unfolding image_mapped_def identity_def paging_start_fields same .
  moreover have "unat (kheap_static_end s) \<le> 0xEFC00000" using s(1) by (simp add: boot_inv_def)
  moreover have "low_dir (paging_start ?t)" using low low_dir_same paging_start_fields(1,9) by blast
  moreover have "user_bounds (paging_start ?t)" "kmem (paging_start ?t) = kmem s"
    by (simp_all add: paging_start_def user_bounds_def kheap_finish_init_def upd_dir_def enable_def Let_def low_tables_def)
  ultimately have "heap_ready gs (paging_start ?t)" using paging_start_fields(9-12) [of ?t] by (simp add: heap_ready_def same)
  then show ?thesis using m(1) \<open>kmem (paging_start ?t) = kmem s\<close> by (intro exI [of _ ?t]) (simp add: paging_start_fields same)
qed

text \<open>The frames of a region above static memory, except the last one.\<close>

definition boot_frames :: "Multiboot_mmap_entry_t \<Rightarrow> 'a kheap_state_scheme \<Rightarrow> frame_no set" where
  "boot_frames x s = {f. static_frame s < unat f \<and> region_first x \<le> unat f \<and> unat f + 1 < region_last x}"

lemma page_init_up:
  assumes "\<not> kheap_finish_init_called s" "\<not> init_finished s" "heap_image s" "\<not> paging_on s"
    and "mb_flags (load_Multiboot_info ptr (kmem s)) AND MULTIBOOT_INFO_MEM_MAP \<noteq> 0"
    and "boot_map (kmem s) (load_Multiboot_info ptr (kmem s)) (boot_end ptr s) es x" "unat (boot_end ptr s) + 0x1100000 \<le> 0xEFC00000"
  shows "\<exists>s' F A. page_init (kmalloc_at (Suc n)) (\<lambda>p. p) ptr s = ret s' \<and> memory_up 1 F A (boot_frames x s') (heap_refs s') s' \<and>
    tables_ok s' \<and> cold (heap_refs s') s' \<and> image_mapped (kheap_static_end s') s' \<and> unat (kheap_static_end s') \<le> unat (boot_end ptr s) + 0xC20000 \<and>
    user_bounds s' \<and> low_dir s' \<and> same_low s s'"
proof -
  let ?mbd = "load_Multiboot_info ptr (kmem s)"
  define s0 where "s0 = (if mods_count ?mbd \<noteq> 0 then kheap_preserve_mem (load32 (mods_addr ?mbd + 4) (kmem s) + 4) s else s)"
  have f0: "kheap_finish_init_called s0 = kheap_finish_init_called s" "init_finished s0 = init_finished s" "paging_on s0 = paging_on s" "kmem s0 = kmem s"
    "heap_image s0 = heap_image s" "kheap_static_end s0 = boot_end ptr s"
    by (simp_all add: s0_def boot_end_def kheap_preserve_mem_def heap_image_def Let_def)
  have map: "boot_map (kmem s0) ?mbd (kheap_static_end s0) es x" "unat (kheap_static_end s0) + 0x1100000 \<le> 0xEFC00000"
    using assms(6,7) f0 by simp_all
  let ?km = "kmalloc_at (Suc n) :: _ \<Rightarrow> _ \<Rightarrow> 'a page_state_scheme \<Rightarrow> _"
  from page_init_collects [OF static_kmalloc_at _ _ _ _ map, of n] assms(1-4) f0 obtain d s1 s2 where
    run: "?km sizeof_Directory_t 12 s0 = ret (d, s1)"
      "init_frames ?km ?mbd (s1\<lparr>current_page_dir := d, dirs := (dirs s1)(d := zero_directory)\<rparr>) = ret s2"
    and s2: "boot_inv (unat (kheap_static_end s0) + 0x810000) s2" "heap_image s2" "stack_is (region_frames (static_frame s2) x) s2" "kmem s2 = kmem s"
    by (simp del: kmalloc_at.simps) blast
  define fs where "fs = region_frames (static_frame s2) x"
  from page_init_tables [OF static_kmalloc_at s2(2,1) _ fs_def map, of n] s2(3) obtain s3 b s4 s5 where
    run': "kheap_init (\<lambda>i s. andThen (get_page ?km (current_page_dir s) i True s) (\<lambda>(_, s). ret s)) s2 = ret s3"
      "?km (4 * (frames s3 0 - frames s3 (nframes s3 - 1) + 1)) 0 s3 = ret (b, s4)" "map_kernel_image ?km 0x1000 s4 = ret s5"
    and s5: "boot_inv (unat (boot_end ptr s) + 0xC20000) s5" "trees s5 {whole_heap} {whole_heap}" "heap_tables s5"
      "image_mapped (kheap_static_end s5) s5" "stack_is fs s5" "sorted_wrt (>) fs" "fs \<noteq> []" "static_frame s5 < hd fs"
      "\<forall>f. static_frame s5 < f \<longrightarrow> f \<in> set fs \<longleftrightarrow> region_first x \<le> f \<and> f + 1 < region_last x" "kmem s5 = kmem s2"
    by (auto simp: fs_def f0(6) simp del: kmalloc_at.simps)
  from page_init_frames [OF s5(1-8)] obtain s6 where
    s6: "drop_frames (low_tables s5) = ret s6" "heap_ready (filter (\<lambda>f. static_frame s5 < f) fs) (paging_start s6)"
      "kheap_static_end (paging_start s6) = kheap_static_end s5" "kmem (paging_start s6) = kmem s5" by blast
  from page_init_windows [OF s6(2), of n] obtain a s8 F A where s8: "?km (push_bit 13 1) 12 (paging_start s6) = ret (a, s8)"
      "lookup_page (current_page_dir s8) a s8 = Some (tab s8 (tb_idx a), tb_offset a)"
      "lookup_page (current_page_dir s8) (a + 0x1000) s8 = Some (tab s8 (tb_idx (a + 0x1000)), tb_offset (a + 0x1000))"
    and up: "memory_up 1 F A {f. unat f \<in> set (filter (\<lambda>f. static_frame s5 < f) fs)} (heap_refs (open_windows a s8)) (open_windows a s8)"
      "image_mapped (kheap_static_end s5) (open_windows a s8)" "kheap_static_end (open_windows a s8) = kheap_static_end s5"
      "tables_ok (open_windows a s8)" "cold (heap_refs (open_windows a s8)) (open_windows a s8)"
      "user_bounds (open_windows a s8)" "low_dir (open_windows a s8)" "same_low (paging_start s6) (open_windows a s8)"
    by (auto simp: s6(3) simp del: kmalloc_at.simps)
  have "{f :: frame_no. unat f \<in> set (filter (\<lambda>f. static_frame s5 < f) fs)} = boot_frames x (open_windows a s8)"
    using s5(9) by (auto simp: static_frame_def boot_frames_def up(3))
  moreover have "page_init ?km (\<lambda>p. p) ptr s = ret (open_windows a s8)"
    by (rule page_init_run [OF assms(5) s0_def run run' s6(1) s8])
  moreover have "unat (kheap_static_end s5) \<le> unat (boot_end ptr s) + 0xC20000" using s5(1) by (simp add: boot_inv_def)
  moreover have "same_low s (open_windows a s8)" using same_low_trans [OF same_low_kmem up(8)] s6(4) s5(10) s2(4) by simp
  ultimately show ?thesis using up
    by (intro exI [of _ "open_windows a s8"] exI [of _ F] exI [of _ A]) (simp del: kmalloc_at.simps)
qed

text \<open>
  C7: \<^verbatim>\<open>Page::init\<close> returns on every memory map in which the region that holds static memory reaches 17 MB above it, and then:
  the heap invariant holds, with the two windows allocated; every page of static memory is mapped to
  itself, for the kernel, writable; the free frames are exactly the frames of that region above
  static memory, except its last one, none of them is held by a page of the heap, and the accounting invariant
  holds, so that every later fault, allocation and release starts from it.
\<close>

theorem page_init_establishes:
  assumes "\<not> kheap_finish_init_called s" "\<not> init_finished s" "heap_image s" "\<not> paging_on s"
    and "mb_flags (load_Multiboot_info ptr (kmem s)) AND MULTIBOOT_INFO_MEM_MAP \<noteq> 0"
    and "boot_map (kmem s) (load_Multiboot_info ptr (kmem s)) (boot_end ptr s) es x" "unat (boot_end ptr s) + 0x1100000 \<le> 0xEFC00000"
  shows "\<exists>s' F A. page_init (kmalloc_at (Suc n)) (\<lambda>p. p) ptr s = ret s' \<and> heap_inv s' F A \<and> heap_tables s' \<and>
    page_inv {f. static_frame s' < unat f \<and> region_first x \<le> unat f \<and> unat f + 1 < region_last x} (heap_refs s', s') \<and>
    image_mapped (kheap_static_end s') s' \<and> unat (kheap_static_end s') \<le> unat (boot_end ptr s) + 0xC20000 \<and>
    paging_on s' \<and> init_finished s'"
  using page_init_up [OF assms, of n] unfolding memory_up_def boot_frames_def by blast

section \<open>A concrete boot\<close>

text \<open>A machine with 128 MB: the loader's structures at \<open>0x8000\<close>, and one region from 1 MB on.\<close>

definition boot_bytes :: memory where
  "boot_bytes = fold (\<lambda>(a, v). store32 a v)
     [(0x8000, 0x40), (0x8014, 0), (0x802C, 24), (0x8030, 0x9000),
      (0x9000, 20), (0x9004, 0x100000), (0x9008, 0), (0x900C, 0x7EE0000), (0x9010, 0), (0x9014, 1)] (\<lambda>_. 0)"

definition boot_region :: Multiboot_mmap_entry_t where
  "boot_region = \<lparr>me_size = 20, me_addr = 0x100000, me_len = 0x7EE0000, me_type = 1\<rparr>"

definition boot_state :: page_state where
  "boot_state = fresh_heap\<lparr>kheap_finish_init_called := False, init_finished := False, paging_on := False, kmem := boot_bytes,
     mm := \<lparr>static_mem = 0x100000, freed = (\<lambda>_. 0), nstatic_mem = 0, nfreed = 0\<rparr>\<rparr>"

lemma boot_bytes_load:
  "load32 0x8000 boot_bytes = 0x40" "load32 0x8014 boot_bytes = 0" "load32 0x802C boot_bytes = 24" "load32 0x8030 boot_bytes = 0x9000"
  "load_mmap_entry 0x9000 boot_bytes = boot_region"
  by (simp_all add: boot_bytes_def boot_region_def load_mmap_entry_def load64_def load32_def store32_def)

lemma boot_info:
  "mb_flags (load_Multiboot_info 0x8000 boot_bytes) = 0x40" "mods_count (load_Multiboot_info 0x8000 boot_bytes) = 0"
  "mmap_length (load_Multiboot_info 0x8000 boot_bytes) = 24" "mmap_addr (load_Multiboot_info 0x8000 boot_bytes) = 0x9000"
  using boot_bytes_load by (simp_all add: load_Multiboot_info_def)

lemma boot_state_image: "heap_image boot_state"
proof -
  have pool: "mm_pool (mm boot_state) = mm_pool (mm fresh_heap)"
    by (simp add: mm_pool_def mm_node_def boot_state_def fresh_heap_def)
  have "0x180000 \<notin> mm_pool (mm boot_state)" "0x180020 \<notin> mm_pool (mm boot_state)"
    unfolding pool using fresh_pool [of "0x180000"] fresh_pool [of "0x180020"] by auto
  then show ?thesis by (simp add: heap_image_def boot_state_def fresh_heap_def mm_sizes even_addr_def)
qed

lemma boot_region_map:
  assumes "mmap_addr mbd = 0x9000" "mmap_length mbd = 24" "load_mmap_entry 0x9000 m = boot_region"
  shows "boot_map m mbd 0x200000 [boot_region] boot_region"
proof -
  have "mmap_chain m (0x9000 + 24) 0x9000 [boot_region]" using assms(3) by (simp add: boot_region_def)
  moreover have av: "available boot_region" by (simp add: available_def boot_region_def MULTIBOOT_MEMORY_AVAILABLE_def)
  moreover have "region_ok boot_region" "unat (me_addr boot_region) \<le> unat (0x200000 :: u32)"
    "unat (0x200000 :: u32) + 0x1100000 \<le> unat (me_addr boot_region + me_len boot_region)"
    by (simp_all add: region_ok_def boot_region_def)
  moreover have "\<exists>low high. filter available [boot_region] = low @ boot_region # high \<and>
      (\<forall>y \<in> set (low @ high). me_addr y + me_len y \<le> ucast (0x200000 :: u32))"
    using av by (intro exI [of _ "[]"]) simp
  ultimately show ?thesis using assms(1,2) by (simp add: boot_map_def)
qed

lemma boot_state_map:
  "boot_end 0x8000 boot_state = 0x200000"
  "boot_map (kmem boot_state) (load_Multiboot_info 0x8000 (kmem boot_state)) 0x200000 [boot_region] boot_region"
proof -
  have m: "kmem boot_state = boot_bytes" "kheap_static_end boot_state = 0x200000" by (simp_all add: boot_state_def fresh_heap_def)
  show "boot_end 0x8000 boot_state = 0x200000" by (simp add: boot_end_def m boot_info)
  show "boot_map (kmem boot_state) (load_Multiboot_info 0x8000 (kmem boot_state)) 0x200000 [boot_region] boot_region"
    unfolding m by (rule boot_region_map) (simp_all add: boot_info boot_bytes_load)
qed

theorem page_init_establishes_witness:
  "\<exists>s' F A. page_init (kmalloc_at 1) (\<lambda>p. p) 0x8000 boot_state = ret s' \<and> heap_inv s' F A \<and> heap_tables s' \<and>
    page_inv {f. static_frame s' < unat f \<and> region_first boot_region \<le> unat f \<and> unat f + 1 < region_last boot_region} (heap_refs s', s') \<and>
    image_mapped (kheap_static_end s') s'"
proof -
  have "\<not> kheap_finish_init_called boot_state" "\<not> init_finished boot_state" "\<not> paging_on boot_state" by (simp_all add: boot_state_def)
  moreover have "mb_flags (load_Multiboot_info 0x8000 (kmem boot_state)) AND MULTIBOOT_INFO_MEM_MAP \<noteq> 0"
    by (simp add: boot_state_def boot_info MULTIBOOT_INFO_MEM_MAP_def)
  ultimately show ?thesis
    using page_init_establishes [OF _ _ boot_state_image _ _ boot_state_map(2) [folded boot_state_map(1)], of 0] boot_state_map(1)
    by (simp del: kmalloc_at.simps) blast
qed

end
