(* ===== verification/Paged.thy ===== *)
theory Paged
  imports Page_Boot
begin

text \<open>
  Memory management while the kernel runs: page tables made on demand. A table is memory of the kernel heap, so making one allocates
  a block, touches its page, which may need a frame, and enters the table in the directory. The invariant is kept
  by all of it, and what was mapped before stays mapped.
\<close>

section \<open>The invariant\<close>

text \<open>Entries that have a frame are present; the others fault, and are not filled.\<close>

definition tame :: "entry_ref set \<Rightarrow> 'a page_state_scheme \<Rightarrow> bool" where
  "tame R s \<longleftrightarrow> (\<forall>r \<in> R. if addr (ent r s) = 0 then \<not> present (ent r s) \<and> alloc_fill (ent r s) = 0 else present (ent r s))"

lemma cold_tame: "cold R s \<Longrightarrow> tame R s"
  by (simp add: cold_def tame_def)

lemma kept_tame: "kept s s' \<Longrightarrow> tame R s \<Longrightarrow> tame R s'"
  using kept_addr unfolding tame_def flags_only_def by metis

text \<open>
  The entries \<open>R\<close> of the accounting are those of the heap's tables and of tables made on demand, which are blocks of the heap; the
  tables from index \<open>k\<close> on are of these two kinds.
\<close>

definition paged :: "nat \<Rightarrow> nat \<Rightarrow> Block_t set \<Rightarrow> (u32 \<rightharpoonup> Block_t) \<Rightarrow> frame_no set \<Rightarrow> entry_ref set \<Rightarrow> 'a page_state_scheme \<Rightarrow> bool" where
  "paged k N F A M R s \<longleftrightarrow> memory_up N F A M R s \<and> heap_tabs s \<and> tame R s \<and> heap_refs s \<subseteq> R \<and>
     (\<forall>q \<in> R. fst q \<in> tab s ` heap_idx \<or> fst q \<in> dom A) \<and> card R \<le> 1024 * (64 + N) \<and>
     (\<forall>i \<ge> k. tab s i \<noteq> 0 \<longrightarrow> i \<in> heap_idx \<or> table_refs (tab s i) \<subseteq> R \<and> tab s i \<in> dom A)"

lemma pagedD:
  assumes "paged k N F A M R s"
  shows "heap_inv s F A" "roomy F N" "heap_tables s" "page_inv M (R, s)" "frames_ok M R s" "windows_live A s" "paging_on s" "init_finished s"
    "heap_tabs s" "tame R s" "heap_refs s \<subseteq> R" "\<forall>q \<in> R. fst q \<in> tab s ` heap_idx \<or> fst q \<in> dom A" "card R \<le> 1024 * (64 + N)"
    "\<forall>i \<ge> k. tab s i \<noteq> 0 \<longrightarrow> i \<in> heap_idx \<or> table_refs (tab s i) \<subseteq> R \<and> tab s i \<in> dom A"
  using assms by (simp_all add: paged_def memory_up_def page_inv_def)

lemma paged_dom: "paged k N F A M R s \<Longrightarrow> t \<in> dom A \<Longrightarrow> 0xEFC00000 \<le> unat t"
proof -
  assume p: "paged k N F A M R s" and "t \<in> dom A"
  then obtain b where "A t = Some b" by auto
  moreover have "live_ok (kmem s) F A" using pagedD(1) [OF p] by (simp add: heap_inv_def)
  ultimately have "in_heap b" "lo b + 8 \<le> unat t" using liveD by blast+
  then show ?thesis by (simp add: in_heap_def heap_bounds)
qed

lemma memory_up_cong:
  assumes "memory_up N F A M R s" "kheap_state.truncate s' = kheap_state.truncate s" "page_inv M (R', s')"
    and "empty_page0_addr s' = empty_page0_addr s" "empty_page1_addr s' = empty_page1_addr s"
    and "heap_tables s'" "paging_on s'" "init_finished s'"
  shows "memory_up N F A M R' s'"
  using assms heap_inv_truncate [OF assms(2)] by (auto simp: memory_up_def windows_live_def Let_def)

lemma heap_refs_cong: "tab s' = tab s \<Longrightarrow> window_refs s' = window_refs s \<Longrightarrow> heap_refs s' = heap_refs s"
  by (simp add: heap_refs_def)

lemma paged_cong:
  assumes p: "paged k N F A M R s" and "kheap_state.truncate s' = kheap_state.truncate s" "frames_ok M R s'" "same_windows s s'" "tame R s'"
    and "paging_on s' = paging_on s" "init_finished s' = init_finished s"
  shows "paged k N F A M R s'"
proof -
  note P = pagedD [OF p]
  have t: "tab s' = tab s" using assms(4) by (simp add: same_windows_def tab_def fun_eq_iff)
  have inv: "page_inv M (R, s')" by (rule page_inv_same [OF P(4) assms(3,4)])
  have ht: "heap_tables s'" using P(3) by (simp add: heap_tables_iff dir_tables_def t)
  have up: "memory_up N F A M R s" using p by (simp add: paged_def)
  have "memory_up N F A M R s'"
    by (rule memory_up_cong [OF up assms(2) inv _ _ ht]) (use assms(4,6,7) P(7,8) in \<open>simp_all add: same_windows_def\<close>)
  moreover have "heap_refs s' = heap_refs s" by (rule heap_refs_cong [OF t windows_ok_cong(2) [OF assms(4)]])
  ultimately show ?thesis using p assms(5) by (simp add: paged_def heap_tabs_def t)
qed

section \<open>Allocation\<close>

lemma memory_up_kmalloc:
  assumes up: "memory_up N F A M R s" and N: "N \<le> 100" and sz: "unat sz \<le> 8192" "p \<le> 12"
  shows "\<exists>a s' F' blk. kmalloc_at (Suc n) sz p s = ret (a, s') \<and> memory_up (Suc N) F' (A(a \<mapsto> blk)) M R s' \<and>
    allocated s F A sz p a s' F' blk \<and> kept s s' \<and> same_bounds s s'"
proof -
  note U = up [unfolded memory_up_def]
  from kmalloc_roomy [OF _ _ _ N sz, of s F A n] U obtain a s' F' blk where
    r: "kmalloc_at (Suc n) sz p s = ret (a, s')" "heap_tables s'" "allocated s F A sz p a s' F' blk" "roomy F' (Suc N)"
      "kept s s'" "same_bounds s s'" by blast
  have k: "same_windows s s'" "nframes s' = nframes s" "frames s' = frames s" "frame_ref_cnt s' = frame_ref_cnt s"
    "paging_on s'" "init_finished s'" using r(5) U by (simp_all add: kept_def)
  have "frames_ok M R s" using U by (simp add: page_inv_def)
  then have "frames_ok M R s'" by (rule frames_ok_same) (use k kept_addr [OF r(5)] in \<open>simp_all add: flags_only_def\<close>)
  then have "page_inv M (R, s')" using U k(1) page_inv_same by blast
  moreover have "heap_inv s' F' (A(a \<mapsto> blk))" "A a = None" using r(3) by (simp_all add: allocated_def)
  moreover have "windows_live (A(a \<mapsto> blk)) s'" using U k(1) \<open>A a = None\<close> by (auto simp: windows_live_def same_windows_def Let_def)
  ultimately show ?thesis using r k(5,6) unfolding memory_up_def by blast
qed

lemma paged_kmalloc:
  assumes p: "paged k N F A M R s" and N: "N \<le> 100" and sz: "unat sz \<le> 8192" "0 < unat sz" "al \<le> 12"
  shows "\<exists>a s' F' blk. kmalloc_at (Suc n) sz al s = ret (a, s') \<and> paged k (Suc N) F' (A(a \<mapsto> blk)) M R s' \<and>
    allocated s F A sz al a s' F' blk \<and> kept s s' \<and> same_bounds s s' \<and> same_low s s'"
proof -
  note P = pagedD [OF p]
  have "memory_up N F A M R s" using p by (simp add: paged_def)
  from memory_up_kmalloc [OF this N sz(1,3), of n] obtain a s' F' blk where
    r: "kmalloc_at (Suc n) sz al s = ret (a, s')" "memory_up (Suc N) F' (A(a \<mapsto> blk)) M R s'" "allocated s F A sz al a s' F' blk"
      "kept s s'" "same_bounds s s'" by blast
  have t: "tab s' = tab s" using kept_tables [OF r(4)] by blast
  have "same_windows s s'" using r(4) by (simp add: kept_def)
  then have "heap_refs s' = heap_refs s" using heap_refs_cong [OF t windows_ok_cong(2)] by blast
  then have "paged k (Suc N) F' (A(a \<mapsto> blk)) M R s'"
    using r(2) P(9,11-14) kept_tame [OF r(4) P(10)] unfolding paged_def heap_tabs_def t by auto
  then show ?thesis using r allocated_low [OF r(3) P(1) sz(2)] by blast
qed

lemma windows_ok_tab:
  "windows_ok s \<longleftrightarrow> (tab s (tb_idx (empty_page0_addr s)), tb_offset (empty_page0_addr s)) = empty_page0_ptr s \<and>
     (tab s (tb_idx (empty_page1_addr s)), tb_offset (empty_page1_addr s)) = empty_page1_ptr s \<and>
     empty_page0_ptr s \<noteq> empty_page1_ptr s \<and> vpn (empty_page0_addr s) \<noteq> vpn (empty_page1_addr s)"
  by (simp add: windows_ok_def tab_def)

text \<open>The pages of a block are not the windows.\<close>

lemma new_page_no_window:
  assumes p: "paged k N F A M R s" and new: "space blk \<subseteq> free_space F" "unat t \<in> space blk"
    and t: "4096 dvd unat t" "tb_idx t \<in> heap_idx"
  shows "(tab s (tb_idx t), tb_offset t) \<notin> window_refs s"
proof
  assume in_win: "(tab s (tb_idx t), tb_offset t) \<in> window_refs s"
  note P = pagedD [OF p]
  define a where "a = empty_page0_addr s"
  from P(6) obtain w where w: "empty_page1_addr s = a + 0x1000" "4096 dvd unat a" "0xEFC00000 \<le> unat a" "unat a + 8192 \<le> 0xFFC00000"
    "A a = Some w" "{unat a..<unat a + 8192} \<subseteq> space w" by (auto simp: a_def windows_live_def Let_def)
  have "live_ok (kmem s) F A" using P(1) by (simp add: heap_inv_def)
  from liveD(5) [OF this w(5)] have dis: "unat t \<notin> {unat a..<unat a + 8192}" using new w(6) by blast
  have b: "unat (a + 0x1000) = unat a + 0x1000" using w(4) unat_add [of a "0x1000"] by simp
  have "windows_ok s" using P(4) by (simp add: page_inv_def)
  then have "window_refs s = {(tab s (tb_idx a), tb_offset a), (tab s (tb_idx (a + 0x1000)), tb_offset (a + 0x1000))}"
    unfolding windows_ok_tab window_refs_def w(1) a_def by auto
  then obtain c where c: "c = a \<or> c = a + 0x1000" "(tab s (tb_idx t), tb_offset t) = (tab s (tb_idx c), tb_offset c)" using in_win by auto
  have "tb_idx c \<in> heap_idx" "4096 dvd unat c" using c(1) windows_up(1,2) [OF P(9) w(2-4)] w(2) b by auto
  moreover from this have "tb_idx t = tb_idx c" using c(2) P(9) t(2) unfolding heap_tabs_def by (metis inj_onD prod.inject)
  ultimately have "t = c" using c(2) t(1) by (intro page_eqI) simp_all
  then show False using c(1) dis b by auto
qed

lemma window_tables:
  assumes p: "paged k N F A M R s"
  shows "tb_idx (empty_page0_addr s) \<in> heap_idx" "tb_idx (empty_page1_addr s) \<in> heap_idx" "q \<in> window_refs s \<Longrightarrow> fst q \<in> tab s ` heap_idx"
proof -
  note P = pagedD [OF p]
  show w: "tb_idx (empty_page0_addr s) \<in> heap_idx" "tb_idx (empty_page1_addr s) \<in> heap_idx"
    using P(6) windows_up [OF P(9), of "empty_page0_addr s"] by (auto simp: windows_live_def Let_def)
  have "windows_ok s" using P(4) by (simp add: page_inv_def)
  then show "fst q \<in> tab s ` heap_idx" if "q \<in> window_refs s" using that w unfolding windows_ok_tab window_refs_def
    by (metis empty_iff fst_conv imageI insert_iff)
qed

section \<open>Touching a page of the heap\<close>

lemma popped_more [simp]:
  "kheap_state.truncate (popped r u w f s) = kheap_state.truncate s" "tab (popped r u w f s) = tab s"
  "current_page_dir (popped r u w f s) = current_page_dir s" "paging_on (popped r u w f s) = paging_on s"
  "init_finished (popped r u w f s) = init_finished s" "empty_page0_addr (popped r u w f s) = empty_page0_addr s"
  "empty_page1_addr (popped r u w f s) = empty_page1_addr s"
  by (simp_all add: popped_def upd_ent_def kheap_state.truncate_def tab_def fun_eq_iff)

text \<open>The state after a write to the kernel page \<open>r\<close>: it has a frame.\<close>

definition framed :: "entry_ref \<Rightarrow> 'a page_state_scheme \<Rightarrow> 'a page_state_scheme" where
  "framed r s = (if addr (ent r s) = 0 then popped r False True (ucast (frames s (nframes s - 1))) s else s)"

lemma framed_more:
  "kheap_state.truncate (framed r s) = kheap_state.truncate s" "tab (framed r s) = tab s"
  "current_page_dir (framed r s) = current_page_dir s" "paging_on (framed r s) = paging_on s"
  "init_finished (framed r s) = init_finished s" "same_windows s (framed r s)" "q \<noteq> r \<Longrightarrow> ent q (framed r s) = ent q s"
  by (simp_all add: framed_def)

lemma framed_dirs: "dirs (framed r s) = dirs s"
  by (simp add: framed_def popped_def)

lemma framed_upd_dir: "framed r (upd_dir d g s) = upd_dir d g (framed r s)"
  by (simp add: framed_def popped_def upd_ent_def upd_dir_def ent_def)

lemma framed_paged:
  assumes p: "paged k N F A M R s" and r: "r \<in> R" and n: "nframes s \<noteq> 0"
  shows "paged k N F A M R (framed r s)" "addr (ent r (framed r s)) \<noteq> 0" "unat (nframes s) \<le> unat (nframes (framed r s)) + 1"
proof -
  note P = pagedD [OF p]
  have "paged k N F A M R (framed r s) \<and> addr (ent r (framed r s)) \<noteq> 0 \<and> unat (nframes s) \<le> unat (nframes (framed r s)) + 1"
  proof (cases "addr (ent r s) = 0")
    case True
    from entry_alloc_frames [OF P(5) r, of False True] True n obtain f where
      f: "entry_alloc r False True s = ret (popped r False True f s)" "f \<in> M" "frames_ok M R (popped r False True f s)" by auto
    have eq: "framed r s = popped r False True f s" using f(1) True n by (simp add: framed_def entry_alloc_cases)
    have f0: "f \<noteq> 0" using f(2) frames_okD(3) [OF P(5)] by auto
    have "tame R (framed r s)" using P(10) f0 unfolding tame_def eq by simp
    then have "paged k N F A M R (framed r s)" using f(3) by (intro paged_cong [OF p]) (simp_all add: framed_more flip: eq)
    then show ?thesis using f0 n by (simp add: eq unat_minus_1)
  qed (use p in \<open>simp add: framed_def\<close>)
  then show "paged k N F A M R (framed r s)" "addr (ent r (framed r s)) \<noteq> 0" "unat (nframes s) \<le> unat (nframes (framed r s)) + 1" by auto
qed

lemma kernel_write_framed:
  assumes "lookup_page (current_page_dir s) t s = Some r" "usable r s" "tame {r} s" "paging_on s" "nframes s \<noteq> 0"
  shows "kernel_write t s = ret (framed r s)"
proof (cases "addr (ent r s) = 0")
  case True
  then have e: "\<not> present (ent r s)" "alloc_fill (ent r s) = 0" "rw (ent r s)" "\<not> user (ent r s)" "allocable (ent r s)"
    using assms(2,3) by (simp_all add: tame_def usable_def)
  then have "demand_fault 1 0 2 r s" by (simp add: demand_fault_def)
  from page_fault_demand_eq [OF assms(1) this] show ?thesis
    using e True assms(1,4,5) by (simp add: kernel_write_def entry_alloc_cases framed_def)
next
  case False
  then show ?thesis using assms by (simp add: kernel_write_def tame_def framed_def)
qed

section \<open>A page table from the heap\<close>

text \<open>The state after the table for \<open>a\<close> was made at \<open>t\<close>, a page that has the frame \<open>f\<close>.\<close>

definition table_linked :: "u32 \<Rightarrow> u32 \<Rightarrow> frame_no \<Rightarrow> 'a page_state_scheme \<Rightarrow> 'a page_state_scheme" where
  "table_linked a t f s =
     (let D = dirs s (current_page_dir s)
      in s\<lparr>tabs := (tabs s)(t := zero_table), dirs := (dirs s)(current_page_dir s := D\<lparr>tables := (tables D)(tb_idx a := t),
           dentries := (dentries D)(tb_idx a := (dentries D (tb_idx a))\<lparr>de_present := True, de_rw := True, de_user := True, de_addr := f\<rparr>)\<rparr>)\<rparr>)"

lemma table_linked_fields:
  "tab (table_linked a t f s) = (tab s)(tb_idx a := t)" "ent q (table_linked a t f s) = (if fst q = t then zero_entry else ent q s)"
  "kheap_state.truncate (table_linked a t f s) = kheap_state.truncate s" "current_page_dir (table_linked a t f s) = current_page_dir s"
  "nframes (table_linked a t f s) = nframes s" "frames (table_linked a t f s) = frames s"
  "frame_ref_cnt (table_linked a t f s) = frame_ref_cnt s" "paging_on (table_linked a t f s) = paging_on s"
  "init_finished (table_linked a t f s) = init_finished s" "window_refs (table_linked a t f s) = window_refs s"
  "empty_page0_addr (table_linked a t f s) = empty_page0_addr s" "empty_page1_addr (table_linked a t f s) = empty_page1_addr s"
  "empty_page0_ptr (table_linked a t f s) = empty_page0_ptr s" "empty_page1_ptr (table_linked a t f s) = empty_page1_ptr s"
  by (simp_all add: table_linked_def Let_def tab_def ent_def zero_table_def kheap_state.truncate_def fun_eq_iff window_refs_def)

lemma page_addr_frame:
  assumes "4096 dvd unat t"
  shows "ucast (drop_bit 12 (push_bit 12 (ucast (f :: frame_no) :: u32) OR (t AND 0xFFF))) = f"
proof -
  have "t AND 0xFFF = 0"
  proof -
    have "t AND 0xFFF = take_bit 12 t" by (simp add: take_bit_eq_mask mask_eq_exp_minus_1)
    moreover have "unat (take_bit 12 t) = 0" using assms by (simp only: unsigned_take_bit_eq) (simp add: take_bit_eq_mod)
    ultimately show ?thesis by (simp add: unat_eq_0)
  qed
  then show ?thesis by (simp add: frame_of_push)
qed

lemma get_page_live:
  assumes km: "km sizeof_Table_t 12 s = ret (t, s1)" and new: "tab s (tb_idx a) = 0"
    and s1: "current_page_dir s1 = current_page_dir s" "paging_on s1" "init_finished s1"
    and t: "4096 dvd unat t" "tb_idx t \<noteq> tb_idx a" "tab s1 (tb_idx t) \<noteq> 0" "tab s1 (tb_idx t) \<noteq> t"
    and r: "r = (tab s1 (tb_idx t), tb_offset t)" "usable r s1" "tame {r} s1"
    and f: "nframes s1 \<noteq> 0" "addr (ent r (framed r s1)) = f" "f \<noteq> 0"
  shows "get_page km (current_page_dir s) a True s = ret (Some (t, tb_offset a), table_linked a t f (framed r s1))"
proof -
  let ?d = "current_page_dir s" and ?g = "\<lambda>D. D\<lparr>tables := (tables D)(tb_idx a := t)\<rparr>"
  let ?s2 = "upd_dir ?d ?g s1"
  have "lookup_page (current_page_dir ?s2) t ?s2 = Some r" using t s1(1) by (simp add: lookup_page_def r(1) tab_def)
  moreover have "ent r ?s2 = ent r s1" "paging_on ?s2" "nframes ?s2 \<noteq> 0" using s1(2) f(1) by (simp_all add: upd_dir_def ent_def)
  moreover from this(1) have "usable r ?s2" "tame {r} ?s2" using r(2,3) by (simp_all add: usable_def tame_def)
  ultimately have kw: "kernel_write t ?s2 = ret (upd_dir ?d ?g (framed r s1))"
    unfolding framed_upd_dir [symmetric] by (intro kernel_write_framed)
  let ?p = "framed r s1"
  let ?s4 = "upd_dir ?d (\<lambda>D. D\<lparr>dentries := (dentries D)(tb_idx a := (dentries D (tb_idx a))\<lparr>de_present := True, de_rw := True, de_user := True\<rparr>)\<rparr>)
     ((upd_dir ?d ?g ?p)\<lparr>tabs := (tabs (upd_dir ?d ?g ?p))(t := zero_table)\<rparr>)"
  have p: "tables (dirs ?p ?d) (tb_idx t) = fst r" "current_page_dir ?p = ?d" "init_finished ?p"
    using s1(1,3) by (simp_all add: framed_more framed_dirs tab_def r(1))
  have "lookup_page (current_page_dir ?s4) t ?s4 = Some r" "init_finished ?s4"
    using t p s1 by (simp_all add: lookup_page_def r(1) tab_def upd_dir_def)
  moreover have "addr (ent r ?s4) = f" using t(4) r(1) f(2) by (simp add: ent_def upd_dir_def)
  ultimately have "get_physical_addr (current_page_dir ?s4) t False False True ?s4 =
      ret (push_bit 12 (ucast f) OR (t AND 0xFFF), ?s4)" using f(3) by (simp add: get_physical_addr_def)
  then obtain pa where ph: "get_physical_addr (current_page_dir ?s4) t False False True ?s4 = ret (pa, ?s4)" "ucast (drop_bit 12 pa) = f"
    using page_addr_frame [OF t(1)] by blast
  let ?h = "\<lambda>D. D\<lparr>dentries := (dentries D)(tb_idx a := (dentries D (tb_idx a))\<lparr>de_addr := f\<rparr>)\<rparr>"
  have "get_page km ?d a True s = ret (Some (tables (dirs (upd_dir ?d ?h ?s4) ?d) (tb_idx a), tb_offset a), upd_dir ?d ?h ?s4)"
    unfolding get_page_def using new km kw ph by (simp add: tab_def Let_def)
  moreover have "upd_dir ?d ?h ?s4 = table_linked a t f ?p" using p(2) by (simp add: table_linked_def upd_dir_def Let_def)
  ultimately show ?thesis using p(2) by (simp add: table_linked_def Let_def)
qed

text \<open>Entries without frames can be added to the accounting.\<close>

lemma frames_ok_extend:
  assumes ok: "frames_ok M R s" and new: "finite R'" "card R + card R' < 2 ^ 32" "\<And>r. r \<in> R' \<Longrightarrow> addr (ent r s) = 0"
  shows "frames_ok M (R \<union> R') s" "f \<noteq> 0 \<Longrightarrow> holders (R \<union> R') s f = holders R s f"
proof -
  show h: "holders (R \<union> R') s f = holders R s f" if "f \<noteq> 0" for f using that new(3) by (auto simp: holders_def)
  have M: "f \<noteq> 0" if "f \<in> M" for f using frames_okD(3) [OF ok] that by auto
  show "frames_ok M (R \<union> R') s"
  proof (rule frames_okI)
    show "card (R \<union> R') < 2 ^ 32" using new(2) card_Un_le [of R R'] by linarith
    show "finite (R \<union> R')" using frames_okD(1) [OF ok] new(1) by simp
    show "addr (ent r s) \<in> M" if "r \<in> R \<union> R'" "addr (ent r s) \<noteq> 0" for r using that new(3) frames_okD(4) [OF ok] by blast
    show "unat (frame_ref_cnt s (ucast f)) = card (holders (R \<union> R') s f)" if "f \<in> M" "holders (R \<union> R') s f \<noteq> {}" for f
      using that frames_okD(5) [OF ok that(1)] h [OF M [OF that(1)]] by simp
    have "{f \<in> M. holders (R \<union> R') s f = {}} = {f \<in> M. holders R s f = {}}" using h M by auto
    then show "free_stack s ` {..<unat (nframes s)} = ucast ` {f \<in> M. holders (R \<union> R') s f = {}}" using frames_okD(7) [OF ok] by simp
  qed (rule frames_okD [OF ok])+
qed

lemma table_refs_small: "finite (table_refs t)" "card (table_refs t) \<le> 1024"
proof -
  have eq: "table_refs t = {t} \<times> {..<1024}" by (auto simp: table_refs_def)
  show "finite (table_refs t)" "card (table_refs t) \<le> 1024" by (simp_all add: eq card_cartesian_product)
qed

text \<open>The accounting with a new table: it holds no frames, and its own page holds one.\<close>

lemma page_inv_table_linked:
  assumes inv: "page_inv M (R, s)" and R: "card R + 1024 < 2 ^ 32" "\<forall>q \<in> R. fst q \<noteq> t" "\<forall>q \<in> window_refs s. fst q \<noteq> t"
    and w: "tb_idx (empty_page0_addr s) \<noteq> tb_idx a" "tb_idx (empty_page1_addr s) \<noteq> tb_idx a"
  shows "page_inv M (R \<union> table_refs t, table_linked a t f s)"
proof -
  let ?s = "table_linked a t f s"
  have ok: "frames_ok M R s" "windows_ok s" "window_refs s \<inter> R = {}" using inv by (simp_all add: page_inv_def)
  have "frames_ok M R ?s" using ok(1) by (rule frames_ok_same) (use R(2) in \<open>auto simp: table_linked_fields\<close>)
  then have "frames_ok M (R \<union> table_refs t) ?s"
    by (rule frames_ok_extend) (use R(1) table_refs_small [of t] in \<open>auto simp: table_linked_fields table_refs_def zero_entry_def\<close>)
  moreover have "windows_ok ?s" using ok(2) w unfolding windows_ok_tab table_linked_fields by simp
  moreover have "window_refs ?s \<inter> (R \<union> table_refs t) = {}" using ok(3) R(3) by (auto simp: table_linked_fields table_refs_def)
  ultimately show ?thesis by (simp add: page_inv_def)
qed

text \<open>A page allocated for a table: it is in the heap and is touched when it is cleared.\<close>

lemma table_page:
  assumes p: "paged k N F A M R s" "N \<le> 100"
  shows "\<exists>t s1 F' blk. kmalloc_at (Suc n) sizeof_Table_t 12 s = ret (t, s1) \<and> paged k (Suc N) F' (A(t \<mapsto> blk)) M R s1 \<and>
    kept s s1 \<and> same_bounds s s1 \<and> same_low s s1 \<and> A t = None \<and> 4096 dvd unat t \<and> tb_idx t \<in> heap_idx \<and>
    (tab s (tb_idx t), tb_offset t) \<in> heap_refs s \<and> usable (tab s (tb_idx t), tb_offset t) s1"
proof -
  have "unat sizeof_Table_t \<le> 8192" "0 < unat sizeof_Table_t" by (simp_all add: sizeof_Table_t_def)
  from paged_kmalloc [OF p this, of 12 n] obtain t s1 F' blk where
    km: "kmalloc_at (Suc n) sizeof_Table_t 12 s = ret (t, s1)" "paged k (Suc N) F' (A(t \<mapsto> blk)) M R s1"
      "allocated s F A sizeof_Table_t 12 t s1 F' blk" "kept s s1" "same_bounds s s1" "same_low s s1" by auto
  note P = pagedD [OF p(1)] and K = kept_tables [OF km(4)]
  from allocated_bounds [OF km(3) heap_inv_space [OF P(1)]] have t: "0xEFC00000 \<le> unat t" "unat t + 4096 \<le> 0xFFC00000" by (simp_all add: sizeof_Table_t_def)
  have al: "A t = None" "4096 dvd unat t" "space blk \<subseteq> free_space F" "{unat t - 8..<unat t + unat sizeof_Table_t} \<subseteq> space blk"
    using km(3) by (simp_all add: allocated_def)
  have tin: "unat t \<in> space blk" using al(4) by (rule subsetD) (simp add: sizeof_Table_t_def)
  have ti: "tb_idx t \<in> heap_idx" using t by (intro heap_addr_idx) (simp_all add: heap_bounds)
  let ?r = "(tab s (tb_idx t), tb_offset t)"
  have "?r \<in> heap_refs s" using new_page_no_window [OF p(1) al(3) tin al(2) ti] ti by (auto simp: heap_refs_def tb_offset_div)
  moreover have "usable ?r s1"
  proof -
    have sz: "(12 :: nat) \<le> 22" "unat sizeof_Table_t + 8 < 2 ^ 32" by (simp_all add: sizeof_Table_t_def)
    have "unat t - 8 \<le> unat t \<and> unat t < unat t + unat sizeof_Table_t" by (simp add: sizeof_Table_t_def)
    with kmalloc_pages [OF P(1,3) sz km(1)] obtain q where
      "lookup_page (current_page_dir s1) t s1 = Some q" "usable q s1" by blast
    then show ?thesis by (auto simp: lookup_page_def K(1) [symmetric] tab_def Let_def split: if_splits)
  qed
  ultimately show ?thesis using km al(1,2) ti by blast
qed

text \<open>What making a table keeps: the tables that exist, their entries if they are memory of the heap, and memory below the heap.\<close>

definition grown :: "(u32 \<rightharpoonup> Block_t) \<Rightarrow> 'a page_state_scheme \<Rightarrow> 'a page_state_scheme \<Rightarrow> bool" where
  "grown A s s' \<longleftrightarrow> current_page_dir s' = current_page_dir s \<and> same_bounds s s' \<and> same_low s s' \<and>
     (\<forall>i. tab s i \<noteq> 0 \<longrightarrow> tab s' i = tab s i) \<and> (\<forall>q. fst q \<in> dom A \<longrightarrow> ent q s' = ent q s)"

lemma get_page_paged:
  assumes p: "paged k N F A M R s" "N \<le> 100" and a: "tab s (tb_idx a) = 0" and n: "nframes s \<noteq> 0"
  shows "\<exists>t s' F' blk. get_page (kmalloc_at (Suc n)) (current_page_dir s) a True s = ret (Some (t, tb_offset a), s') \<and>
    paged k (Suc N) F' (A(t \<mapsto> blk)) M (R \<union> table_refs t) s' \<and> tab s' = (tab s)(tb_idx a := t) \<and> A t = None \<and> grown A s s' \<and>
    unat (nframes s) \<le> unat (nframes s') + 1 \<and> (\<forall>j. ent (t, j) s' = zero_entry)"
proof -
  from table_page [OF p, of n] obtain t s1 F' blk where
    km: "kmalloc_at (Suc n) sizeof_Table_t 12 s = ret (t, s1)" "paged k (Suc N) F' (A(t \<mapsto> blk)) M R s1" "kept s s1" "same_bounds s s1" "same_low s s1"
    and t: "A t = None" "4096 dvd unat t" "tb_idx t \<in> heap_idx" "(tab s (tb_idx t), tb_offset t) \<in> heap_refs s" "usable (tab s (tb_idx t), tb_offset t) s1"
    by blast
  note P = pagedD [OF p(1)] and Q = pagedD [OF km(2)] and K = kept_tables [OF km(3)]
  define r where "r = (tab s (tb_idx t), tb_offset t)"
  have high: "0xEFC00000 \<le> unat t" using paged_dom [OF km(2)] by simp
  have low: "tab s i \<noteq> 0" "unat (tab s i) < 0xEFC00000" if "i \<in> heap_idx" for i using P(9) that by (auto simp: heap_tabs_def)
  have k: "current_page_dir s1 = current_page_dir s" "same_windows s s1" "nframes s1 = nframes s" using km(3) by (simp_all add: kept_def)
  have r: "r \<in> R" "usable r s1" "tame {r} s1" using t(4,5) P(11) Q(10) by (auto simp: r_def tame_def)
  let ?p = "framed r s1"
  have n1: "nframes s1 \<noteq> 0" using n k(3) by simp
  note f = framed_paged [OF km(2) r(1) n1]
  define f where "f = addr (ent r ?p)"
  have ai: "tb_idx a \<notin> heap_idx" using a low(1) by auto
  have get: "get_page (kmalloc_at (Suc n)) (current_page_dir s) a True s = ret (Some (t, tb_offset a), table_linked a t f ?p)"
    using km(1) a k(1) Q(7,8) t low [OF t(3)] high r(2,3) n1 f(2) ai
    by (intro get_page_live [where r = r]) (auto simp: r_def K f_def simp del: kmalloc_at.simps)
  let ?s = "table_linked a t f ?p"
  have nt: "fst q \<noteq> t" if "q \<in> R" for q using that P(12) t(1) low(2) high by force
  have w: "window_refs ?p = window_refs s" "empty_page0_addr ?p = empty_page0_addr s" "empty_page1_addr ?p = empty_page1_addr s"
    using k(2) framed_more(6) [of s1 r] by (simp_all add: same_windows_def window_refs_def)
  have wt: "fst q \<noteq> t" if "q \<in> window_refs ?p" for q
  proof -
    have "fst q \<in> tab s ` heap_idx" using that window_tables(3) [OF p(1)] w(1) by blast
    then show ?thesis using low(2) high by force
  qed
  have big: "card R + 1024 < 2 ^ 32" using P(13) p(2) by simp
  have wi: "tb_idx (empty_page0_addr ?p) \<noteq> tb_idx a" "tb_idx (empty_page1_addr ?p) \<noteq> tb_idx a"
    using window_tables(1,2) [OF p(1)] ai unfolding w by auto
  have inv: "page_inv M (R \<union> table_refs t, ?s)"
    by (rule page_inv_table_linked [OF pagedD(4) [OF f(1)] big _ _ wi]) (use nt wt in blast)+
  have tb: "tab ?s = (tab s)(tb_idx a := t)" by (simp add: table_linked_fields framed_more K)
  have ht: "heap_tables ?s" using P(3) ai high unfolding heap_tables_iff dir_tables_def tb by auto
  have up: "memory_up (Suc N) F' (A(t \<mapsto> blk)) M R ?p" using f(1) by (simp add: paged_def)
  have up': "memory_up (Suc N) F' (A(t \<mapsto> blk)) M (R \<union> table_refs t) ?s"
    by (rule memory_up_cong [OF up _ inv _ _ ht]) (use Q(7,8) in \<open>simp_all add: table_linked_fields framed_more\<close>)
  have same: "tab ?s i = tab s i" if "i \<in> heap_idx" for i using that ai by (auto simp: tb)
  then have img: "tab ?s ` heap_idx = tab s ` heap_idx" by (intro image_cong) simp_all
  have hr: "heap_refs ?s = heap_refs s" unfolding heap_refs_def img by (simp add: table_linked_fields w)
  have ent: "ent q ?s = (if fst q = t then zero_entry else ent q ?p)" for q by (simp add: table_linked_fields)
  have "tame (R \<union> table_refs t) ?s" using pagedD(10) [OF f(1)] nt unfolding tame_def ent
    by (auto simp: zero_entry_def table_refs_def)
  moreover have "heap_tabs ?s" using P(9) same unfolding heap_tabs_def by (auto simp: inj_on_def)
  moreover have "\<forall>q \<in> R \<union> table_refs t. fst q \<in> tab ?s ` heap_idx \<or> fst q \<in> dom (A(t \<mapsto> blk))"
    using P(12) unfolding img by (auto simp: table_refs_def)
  moreover have "card (R \<union> table_refs t) \<le> 1024 * (64 + Suc N)" using card_Un_le [of R "table_refs t"] P(13) table_refs_small(2) [of t] by simp
  moreover have "\<forall>i \<ge> k. tab ?s i \<noteq> 0 \<longrightarrow> i \<in> heap_idx \<or> table_refs (tab ?s i) \<subseteq> R \<union> table_refs t \<and> tab ?s i \<in> dom (A(t \<mapsto> blk))"
    using P(14) unfolding tb by auto
  ultimately have "paged k (Suc N) F' (A(t \<mapsto> blk)) M (R \<union> table_refs t) ?s" using up' P(11) hr unfolding paged_def by auto
  moreover have "grown A s ?s"
  proof -
    have tr: "kheap_state.truncate ?s = kheap_state.truncate s1" by (simp add: table_linked_fields framed_more)
    have "same_bounds s1 ?s" "same_low s1 ?s" using truncate_fields [OF tr] by (simp_all add: same_low_kmem same_bounds_def)
    moreover have "ent q ?s = ent q s" if "fst q \<in> dom A" for q
    proof -
      have "fst q \<noteq> t" "fst q \<notin> tab s ` heap_idx" using that t(1) low(2) paged_dom [OF p(1) that] by force+
      moreover from this(2) have "q \<noteq> r" using t(3) by (auto simp: r_def)
      ultimately have "ent q ?s = ent q s1" using framed_more(7) [of q r s1] by (simp only: ent if_False not_False_eq_True simp_thms)
      moreover have "ent q s1 = ent q s" using km(3) \<open>fst q \<notin> tab s ` heap_idx\<close> unfolding kept_def by blast
      ultimately show ?thesis by (rule trans)
    qed
    moreover have "tab ?s i = tab s i" if "tab s i \<noteq> 0" for i using that a by (auto simp: tb)
    ultimately show ?thesis using same_bounds_trans [OF km(4)] same_low_trans [OF km(5)] k(1)
      by (simp add: grown_def table_linked_fields framed_more)
  qed
  moreover have "unat (nframes s) \<le> unat (nframes ?s) + 1" "\<forall>j. ent (t, j) ?s = zero_entry"
    using f(3) k(3) by (simp_all add: table_linked_fields)
  ultimately show ?thesis using get tb t(1) by blast
qed

section \<open>A frame for a page\<close>

lemma entry_alloc_paged:
  assumes p: "paged k N F A M R s" and r: "r \<in> R" and n: "nframes s \<noteq> 0"
  shows "\<exists>s'. entry_alloc r u w s = ret s' \<and> paged k N F A M R s' \<and> same_windows s s' \<and> kheap_state.truncate s' = kheap_state.truncate s \<and>
    (\<forall>q. q \<noteq> r \<longrightarrow> ent q s' = ent q s) \<and> present (ent r s') \<and> rw (ent r s') = w \<and> user (ent r s') = u \<and> unat (nframes s) \<le> unat (nframes s') + 1 \<and>
    (addr (ent r s) = 0 \<longrightarrow> holders R s' (addr (ent r s')) = {r})"
proof -
  note P = pagedD [OF p]
  consider (has) "addr (ent r s) \<noteq> 0" "entry_alloc r u w s = ret (upd_ent r (\<lambda>e. e\<lparr>rw := w, user := u\<rparr>) s)"
      "frames_ok M R (upd_ent r (\<lambda>e. e\<lparr>rw := w, user := u\<rparr>) s)"
    | (new) f where "addr (ent r s) = 0" "entry_alloc r u w s = ret (popped r u w f s)" "f \<in> M" "frames_ok M R (popped r u w f s)"
      "holders R (popped r u w f s) f = {r}"
    using entry_alloc_frames [OF P(5) r, of u w] n by auto
  then show ?thesis
  proof cases
    case has
    let ?s = "upd_ent r (\<lambda>e. e\<lparr>rw := w, user := u\<rparr>) s"
    have "tame R ?s" using P(10) by (simp add: tame_def ent_upd_ent)
    moreover have tr: "kheap_state.truncate ?s = kheap_state.truncate s" "paging_on ?s = paging_on s" by (simp_all add: upd_ent_def kheap_state.truncate_def)
    ultimately have "paged k N F A M R ?s" using has(3) by (intro paged_cong [OF p]) simp_all
    then show ?thesis using has(1,2) P(10) r tr(1) by (intro exI [of _ ?s]) (auto simp: ent_upd_ent tame_def)
  next
    case new
    let ?s = "popped r u w f s"
    have f0: "f \<noteq> 0" using new(3) frames_okD(3) [OF P(5)] by auto
    then have "tame R ?s" using P(10) by (simp add: tame_def)
    then have "paged k N F A M R ?s" using new(4) by (intro paged_cong [OF p]) simp_all
    then show ?thesis using new(2,5) n by (intro exI [of _ ?s]) (simp add: unat_minus_1)
  qed
qed

lemma invlpg_paged: "paged k N F A M R s \<Longrightarrow> paged k N F A M R (invlpg a s)"
proof -
  assume p: "paged k N F A M R s"
  note P = pagedD [OF p]
  have "frames_ok M R (invlpg a s)" using P(5) by (rule frames_ok_same) simp_all
  moreover have "tame R (invlpg a s)" using P(10) by (simp add: tame_def)
  ultimately show ?thesis by (intro paged_cong [OF p]) (simp_all add: same_windows_def invlpg_def kheap_state.truncate_def)
qed

end
