(* ===== verification/Boot.thy ===== *)
theory Boot
  imports Paged Task_Boot
begin

text \<open>
  The kernel from the boot loader to its first task: \<^verbatim>\<open>Page::init\<close> and \<^verbatim>\<open>Task::init\<close> in the order
  \<^verbatim>\<open>kmain\<close> calls them. The second needs the memory management the first has set up: a page table for the kernel
  stack from the heap, frames for that table and for the stack, and the memory of the task.
\<close>

section \<open>The kernel stack\<close>

lemma stack_alloc_up:
  assumes p: "paged k N F A M R s" "N \<le> 100" and new: "tab s 1023 = 0" and n: "2 \<le> unat (nframes s)"
  shows "\<exists>t s' F' blk. alloc_interval (kmalloc_at (Suc n)) (current_page_dir s) (KERNEL_STACK_POS - KERNEL_STACK_SIZE) KERNEL_STACK_POS
      False True s = ret s' \<and> paged k (Suc N) F' (A(t \<mapsto> blk)) M (R \<union> table_refs t) s' \<and>
    tab s' = (tab s)(1023 := t) \<and> current_page_dir s' = current_page_dir s \<and> same_bounds s s' \<and> same_low s s' \<and>
    present (ent (t, 0x3FE) s') \<and> rw (ent (t, 0x3FE) s') \<and> \<not> user (ent (t, 0x3FE) s') \<and>
    holders (R \<union> table_refs t) s' (addr (ent (t, 0x3FE) s')) = {(t, 0x3FE)} \<and> unat (nframes s) \<le> unat (nframes s') + 2"
proof -
  have pos: "KERNEL_STACK_POS - KERNEL_STACK_SIZE = 0xFFFFE000" "KERNEL_STACK_POS = 0xFFFFF000"
    by (simp_all add: KERNEL_STACK_POS_def KERNEL_STACK_SIZE_def)
  have idx: "tb_idx 0xFFFFE000 = 1023" "tb_offset 0xFFFFE000 = 0x3FE" by (simp_all add: tb_idx_def tb_offset_def)
  have n0: "nframes s \<noteq> 0" using n by auto
  from get_page_paged [OF p, of "0xFFFFE000" n] new n0 obtain t s1 F' blk where
    g: "get_page (kmalloc_at (Suc n)) (current_page_dir s) 0xFFFFE000 True s = ret (Some (t, 0x3FE), s1)"
      "paged k (Suc N) F' (A(t \<mapsto> blk)) M (R \<union> table_refs t) s1" "tab s1 = (tab s)(1023 := t)" "grown A s s1"
      "unat (nframes s) \<le> unat (nframes s1) + 1" "\<forall>j. ent (t, j) s1 = zero_entry"
    unfolding idx by blast
  have r: "(t, 0x3FE) \<in> R \<union> table_refs t" by (simp add: table_refs_def)
  have "nframes s1 \<noteq> 0" using g(5) n by auto
  from entry_alloc_paged [OF g(2) r this, of False True] g(6) obtain s2 where
    s2: "entry_alloc (t, 0x3FE) False True s1 = ret s2" "paged k (Suc N) F' (A(t \<mapsto> blk)) M (R \<union> table_refs t) s2" "same_windows s1 s2"
      "kheap_state.truncate s2 = kheap_state.truncate s1" "present (ent (t, 0x3FE) s2)" "rw (ent (t, 0x3FE) s2)" "\<not> user (ent (t, 0x3FE) s2)"
      "unat (nframes s1) \<le> unat (nframes s2) + 1" "holders (R \<union> table_refs t) s2 (addr (ent (t, 0x3FE) s2)) = {(t, 0x3FE)}"
    by (auto simp: zero_entry_def)
  let ?s = "invlpg 0xFFFFE000 s2"
  have "alloc_interval (kmalloc_at (Suc n)) (current_page_dir s) (KERNEL_STACK_POS - KERNEL_STACK_SIZE) KERNEL_STACK_POS False True s = ret ?s"
    unfolding pos(1) unfolding pos(2) using g(1) s2(1) by (simp add: alloc_interval_def page_loop_step page_of_def del: kmalloc_at.simps)
  moreover have "holders (R \<union> table_refs t) ?s = holders (R \<union> table_refs t) s2" by (simp add: holders_def fun_eq_iff)
  moreover have "tab ?s = (tab s)(1023 := t)" using s2(3) g(3) by (simp add: tab_def fun_eq_iff same_windows_def)
  moreover have tr: "kheap_state.truncate ?s = kheap_state.truncate s1" using s2(4) by (simp add: kheap_state.truncate_def invlpg_def)
  then have "same_bounds s1 ?s" "same_low s1 ?s" using truncate_fields [OF tr] by (simp_all add: same_low_kmem same_bounds_def)
  then have "same_bounds s ?s" "same_low s ?s" "current_page_dir ?s = current_page_dir s"
    using g(4) s2(3) same_bounds_trans same_low_trans by (auto simp: grown_def same_windows_def)
  ultimately show ?thesis using invlpg_paged [OF s2(2)] s2(5-9) g(5)
    by (intro exI [of _ t] exI [of _ ?s] exI [of _ F'] exI [of _ blk]) simp
qed

lemma bytes_at_sub: "i + k \<le> n \<Longrightarrow> bytes_at (a + of_nat i) k \<subseteq> bytes_at a n"
proof
  fix x
  assume n: "i + k \<le> n" and "x \<in> bytes_at (a + of_nat i) k"
  then obtain j where "j < k" "x = a + of_nat i + of_nat j" by (auto simp: bytes_at_def)
  then show "x \<in> bytes_at a n" using n in_bytes_at [of "i + j" n a] by (simp add: add.assoc)
qed

text \<open>Writes outside the heap keep its invariant: the headers are inside.\<close>

lemma heap_inv_outside:
  assumes inv: "heap_inv s F A" and m: "\<And>x. 0xEFC00000 \<le> unat x \<Longrightarrow> unat x < 0xFFC00000 \<Longrightarrow> m x = kmem s x"
  shows "heap_inv (s\<lparr>kmem := m\<rparr>) F A"
proof -
  have live: "live_ok (kmem s) F A" using inv by (simp add: heap_inv_def)
  have "load_Block (a - sizeof_Block_t) m = b" if a: "A a = Some b" for a b
  proof -
    note L = liveD [OF live a] and hdr = header_bounds [OF liveD(2) [OF live a]]
    have in_heap: "0xEFC00000 \<le> lo b" "hi b \<le> 0xFFC00000" using L(1) by (simp_all add: in_heap_def heap_bounds)
    have at: "m x = kmem s x" if "x \<in> bytes_at (a - sizeof_Block_t) 8" for x
    proof -
      have "unat a - 8 \<le> unat x" "unat x < unat a" using that hdr L(2) by (simp_all add: bytes_at_unat)
      then show ?thesis using L(2,3) in_heap by (intro m) linarith+
    qed
    have sub: "bytes_at (a - sizeof_Block_t) 4 \<subseteq> bytes_at (a - sizeof_Block_t) 8" "bytes_at (a - sizeof_Block_t + 4) 4 \<subseteq> bytes_at (a - sizeof_Block_t) 8"
      using bytes_at_sub [of 0 4 8 "a - sizeof_Block_t"] bytes_at_sub [of 4 4 8 "a - sizeof_Block_t"] by simp_all
    have "load32 (a - sizeof_Block_t) m = load32 (a - sizeof_Block_t) (kmem s)" "load32 (a - sizeof_Block_t + 4) m = load32 (a - sizeof_Block_t + 4) (kmem s)"
      using at sub by (auto intro!: load32_cong)
    then show ?thesis using L(4) by (simp add: load_Block_def)
  qed
  then have "live_ok m F A" using live unfolding live_ok_def by blast
  then show ?thesis using inv by (simp add: heap_inv_def)
qed

lemma memory_up_outside:
  assumes up: "memory_up N F A M R s" and m: "\<And>x. 0xEFC00000 \<le> unat x \<Longrightarrow> unat x < 0xFFC00000 \<Longrightarrow> m x = kmem s x"
  shows "memory_up N F A M R (s\<lparr>kmem := m\<rparr>)"
proof -
  let ?s = "s\<lparr>kmem := m\<rparr>"
  note U = up [unfolded memory_up_def]
  have "heap_inv s F A" "page_inv M (R, s)" "frames_ok M R s" using U by (simp_all add: page_inv_def)
  then have "heap_inv ?s F A" using m by (intro heap_inv_outside)
  moreover have "ent r ?s = ent r s" for r by (simp add: ent_def)
  then have "frames_ok M R ?s" by (intro frames_ok_same [OF \<open>frames_ok M R s\<close>]) simp_all
  then have "page_inv M (R, ?s)" by (rule page_inv_same [OF \<open>page_inv M (R, s)\<close>]) (simp add: same_windows_def)
  moreover have "heap_tables ?s = heap_tables s" "windows_live A ?s = windows_live A s"
    by (simp_all add: heap_tables_def windows_live_def)
  ultimately show ?thesis using U by (simp add: memory_up_def)
qed

lemma paged_outside:
  assumes p: "paged k N F A M R s" and m: "\<And>x. 0xEFC00000 \<le> unat x \<Longrightarrow> unat x < 0xFFC00000 \<Longrightarrow> m x = kmem s x"
  shows "paged k N F A M R (s\<lparr>kmem := m\<rparr>)"
proof -
  let ?s = "s\<lparr>kmem := m\<rparr>"
  have "memory_up N F A M R ?s" using p m by (intro memory_up_outside) (simp_all add: paged_def)
  moreover have "ent q ?s = ent q s" "tab ?s = tab s" "window_refs ?s = window_refs s" for q by (simp_all add: ent_def tab_def fun_eq_iff window_refs_def)
  ultimately show ?thesis using p unfolding paged_def heap_tabs_def tame_def heap_refs_def by simp
qed

section \<open>From the boot loader to the first task\<close>

text \<open>More than a thousand frames are left for the kernel's tables and for programs.\<close>

lemma boot_frames_many:
  assumes map: "boot_map m mbd e es x" and s: "unat (kheap_static_end s) \<le> unat e + 0xC20000"
  shows "1246 \<le> card (boot_frames x s)"
proof -
  have k: "static_frame s \<le> unat e div 4096 + 0xC20" using s by (intro static_frame_le) simp
  have "(unat e + 0x1100 * 4096) div 4096 \<le> region_last x"
    using map unfolding region_last_def by (intro div_le_mono) (simp add: boot_map_def)
  then have last: "unat e div 4096 + 0x1100 \<le> region_last x" by simp
  have "(unat (me_addr x) + 4095) div 4096 \<le> (unat e + 4096) div 4096" using map by (intro div_le_mono) (simp add: boot_map_def)
  then have first: "region_first x \<le> unat e div 4096 + 1" by (simp add: region_first_def)
  have small: "region_last x < 2 ^ 20" by (rule region_last_less [OF boot_map_region [OF map]])
  let ?I = "{unat e div 4096 + 0xC21..<unat e div 4096 + 0x10FF}" and ?f = "of_nat :: nat \<Rightarrow> frame_no"
  have u: "unat (?f i) = i" if "i \<in> ?I" for i using small last that by (simp add: unat_of_nat)
  have "inj_on ?f ?I" by (rule inj_on_inverseI [where g = unat]) (rule u)
  then have "card (?f ` ?I) = 1246" by (simp add: card_image)
  moreover have "?f ` ?I \<subseteq> boot_frames x s" using k last first u by (auto simp: boot_frames_def)
  then have "card (?f ` ?I) \<le> card (boot_frames x s)" by (intro card_mono) simp_all
  ultimately show ?thesis by simp
qed

lemma cold_free:
  assumes "page_inv M (R, s)" "cold R s"
  shows "unat (nframes s) = card M"
proof -
  have ok: "frames_ok M R s" using assms(1) by (simp add: page_inv_def)
  have "{f \<in> M. holders R s f = {}} = M" using assms(2) frames_okD(3) [OF ok] by (auto simp: holders_def cold_def)
  then show ?thesis using nframes_card [OF ok] by simp
qed

text \<open>
  What the image and the boot loader provide for tasking: empty queues, a table whose constructor has not run, of which only the address of
  the node \<^verbatim>\<open>NIL\<close> is known, and a stack of \<open>k\<close> words below the heap.
\<close>

definition task_image :: "nat \<Rightarrow> task_state \<Rightarrow> bool" where
  "task_image k s \<longleftrightarrow> even_addr (NIL (rbt_id2task s)) \<and> unat (NIL (rbt_id2task s)) < 0xEFC00000 \<and>
     running s = 0 \<and> sleeping s = 0 \<and> zombie s = 0 \<and> unat (r_esp (cpu s)) + 4 * k = unat (initial_stack_pointer s) \<and> 0 < k \<and>
     4 * k \<le> unat KERNEL_STACK_SIZE \<and> unat (initial_stack_pointer s) \<le> 0xEFC00000"

lemma move_stack_frame:
  assumes "alloc_interval km (current_page_dir (pg s)) (KERNEL_STACK_POS - KERNEL_STACK_SIZE) KERNEL_STACK_POS False True (pg s) = ret p"
    and "move_stack km s = ret s1"
  shows "s1 = s\<lparr>pg := p\<lparr>kmem := kmem (pg s1)\<rparr>, cpu := (cpu s)\<lparr>r_esp := r_esp (cpu s1), r_ebp := r_ebp (cpu s1)\<rparr>\<rparr>"
  using assms by (auto simp: move_stack_def Let_def)

text \<open>The stack moves to its page; nothing in the heap changes.\<close>

lemma move_stack_up:
  assumes up: "paged ki N F A M R (pg s)" "N \<le> 100" and new: "tab (pg s) 1023 = 0" and n: "2 \<le> unat (nframes (pg s))" and img: "task_image k s"
  shows "\<exists>s' u F' blk. move_stack (kmalloc_at (Suc n)) s = ret s' \<and>
    s' = s\<lparr>pg := pg s', cpu := (cpu s)\<lparr>r_esp := r_esp (cpu s) + (KERNEL_STACK_POS - initial_stack_pointer s), r_ebp := r_ebp (cpu s')\<rparr>\<rparr> \<and>
    paged ki (Suc N) F' (A(u \<mapsto> blk)) M (R \<union> table_refs u) (pg s') \<and> tab (pg s') = (tab (pg s))(1023 := u) \<and>
    current_page_dir (pg s') = current_page_dir (pg s) \<and> same_bounds (pg s) (pg s') \<and> same_low (pg s) (pg s') \<and>
    present (ent (u, 0x3FE) (pg s')) \<and> rw (ent (u, 0x3FE) (pg s')) \<and> \<not> user (ent (u, 0x3FE) (pg s')) \<and>
    holders (R \<union> table_refs u) (pg s') (addr (ent (u, 0x3FE) (pg s'))) = {(u, 0x3FE)} \<and>
    unat (nframes (pg s)) \<le> unat (nframes (pg s')) + 2"
proof -
  let ?km = "kmalloc_at (Suc n) :: kmalloc_fn" let ?new = "r_esp (cpu s) + (KERNEL_STACK_POS - initial_stack_pointer s)"
  from stack_alloc_up [OF up new n, of n] obtain u p F' blk where
    p: "alloc_interval ?km (current_page_dir (pg s)) (KERNEL_STACK_POS - KERNEL_STACK_SIZE) KERNEL_STACK_POS False True (pg s) = ret p"
      "paged ki (Suc N) F' (A(u \<mapsto> blk)) M (R \<union> table_refs u) p" "tab p = (tab (pg s))(1023 := u)"
      "current_page_dir p = current_page_dir (pg s)" "same_bounds (pg s) p" "same_low (pg s) p" "present (ent (u, 0x3FE) p)" "rw (ent (u, 0x3FE) p)"
      "\<not> user (ent (u, 0x3FE) p)" "holders (R \<union> table_refs u) p (addr (ent (u, 0x3FE) p)) = {(u, 0x3FE)}"
      "unat (nframes (pg s)) \<le> unat (nframes p) + 2"
    by (auto simp del: kmalloc_at.simps)
  have k: "unat (r_esp (cpu s)) + 4 * k = unat (initial_stack_pointer s)" "0 < k" "4 * k \<le> unat KERNEL_STACK_SIZE" "unat (initial_stack_pointer s) \<le> 0xEFC00000"
    using img by (simp_all add: task_image_def)
  have new: "unat ?new = 0xFFFFF000 - 4 * k"
  proof -
    define d where "d = initial_stack_pointer s - r_esp (cpu s)"
    have d: "unat d = 4 * k" "?new = KERNEL_STACK_POS - d" using k(1) by (simp_all add: d_def unat_diff)
    show ?thesis unfolding d(2) using k(3) d(1) by (simp add: unat_diff KERNEL_STACK_POS_def KERNEL_STACK_SIZE_def)
  qed
  have k4: "4 * k \<le> 4096" using k(3) by (simp add: KERNEL_STACK_SIZE_def)
  have at: "0xFFFFE000 \<le> unat b" if "b \<in> bytes_at ?new (4 * k)" for b
  proof -
    have "0xFFFFF000 - 4 * k \<le> unat b" using that new k4 by (simp add: bytes_at_unat)
    then show ?thesis using k4 by linarith
  qed
  have "bytes_at ?new (4 * k) \<inter> bytes_at (r_esp (cpu s)) (4 * k) = {}"
  proof -
    have "unat b < 0xEFC00000" if "b \<in> bytes_at (r_esp (cpu s)) (4 * k)" for b using that k(1,4) by (simp add: bytes_at_unat)
    then show ?thesis using at by force
  qed
  from move_stack_moves [OF p(1) k(1-3) copy_safe_disjoint [OF this]] obtain s' where
    s': "move_stack ?km s = ret s'" "r_esp (cpu s') = ?new" "\<forall>b. b \<notin> bytes_at ?new (4 * k) \<longrightarrow> kmem (pg s') b = kmem p b" by blast
  from move_stack_frame [OF p(1) s'(1)] have eq: "s' = s\<lparr>pg := p\<lparr>kmem := kmem (pg s')\<rparr>, cpu := (cpu s)\<lparr>r_esp := ?new, r_ebp := r_ebp (cpu s')\<rparr>\<rparr>"
    using s'(2) by simp
  have pg': "pg s' = p\<lparr>kmem := kmem (pg s')\<rparr>" by (subst (1) eq) simp
  have below: "kmem (pg s') b = kmem p b" if "unat b < 0xFFC00000" for b
  proof -
    have "b \<notin> bytes_at ?new (4 * k)" using at that by force
    then show ?thesis using s'(3) by blast
  qed
  then have "paged ki (Suc N) F' (A(u \<mapsto> blk)) M (R \<union> table_refs u) (p\<lparr>kmem := kmem (pg s')\<rparr>)"
    by (intro paged_outside [OF p(2)])
  then have "paged ki (Suc N) F' (A(u \<mapsto> blk)) M (R \<union> table_refs u) (pg s')" unfolding pg' [symmetric] .
  moreover have same: "ent q (pg s') = ent q p" "tab (pg s') = tab p" "current_page_dir (pg s') = current_page_dir p" "nframes (pg s') = nframes p"
    "same_bounds p (pg s')" for q
    by (subst pg', simp add: ent_def tab_def fun_eq_iff same_bounds_def)+
  moreover from this(1) have "holders R' (pg s') = holders R' p" for R' by (simp add: holders_def fun_eq_iff)
  moreover have "s' = s\<lparr>pg := pg s', cpu := (cpu s)\<lparr>r_esp := ?new, r_ebp := r_ebp (cpu s')\<rparr>\<rparr>" using eq unfolding pg' [symmetric] .
  moreover have "same_low p (pg s')" unfolding same_low_def using below by auto
  then have "same_low (pg s) (pg s')" "same_bounds (pg s) (pg s')" using same_low_trans [OF p(6)] same_bounds_trans [OF p(5) same(5)] by blast+
  ultimately show ?thesis using s'(1) p(3-)
    by (intro exI [of _ s'] exI [of _ u] exI [of _ F'] exI [of _ blk] conjI) (simp_all only: not_False_eq_True)
qed

lemma task_init_up:
  assumes up: "paged ki N F A M R (pg s)" "N < 100" and new: "tab (pg s) 1023 = 0" and n: "2 \<le> unat (nframes (pg s))"
    and img: "task_image k s" "ra \<noteq> 0xFFFFFFFF" and rbt: "rbt_ok lt_id (rbt_id2task s) Lf"
  shows "\<exists>s' t u F' A'. task_init (kmalloc_at (Suc n)) ra s = ret (Jumped, s') \<and> tasks_ok s' [t] [] [] \<and> current_task s' = t \<and>
    page_dir (tasks s' t) = current_page_dir (pg s') \<and> pid (tasks s' t) = pid_next s \<and> pid_next s' = pid_next s + 1 \<and> t \<in> dom A' \<and> u \<in> dom A' \<and>
    paged ki (N + 2) F' A' M (R \<union> table_refs u) (pg s') \<and> tab (pg s') = (tab (pg s))(1023 := u) \<and>
    current_page_dir (pg s') = current_page_dir (pg s) \<and> same_bounds (pg s) (pg s') \<and> same_low (pg s) (pg s') \<and>
    r_eip (cpu s') = ra \<and> r_eflags (cpu s') = r_eflags (cpu s) \<and>
    r_esp (cpu s') = r_esp (cpu s) + (KERNEL_STACK_POS - initial_stack_pointer s) \<and>
    present (ent (u, 0x3FE) (pg s')) \<and> rw (ent (u, 0x3FE) (pg s')) \<and> \<not> user (ent (u, 0x3FE) (pg s')) \<and>
    holders (R \<union> table_refs u) (pg s') (addr (ent (u, 0x3FE) (pg s'))) = {(u, 0x3FE)} \<and>
    unat (nframes (pg s)) \<le> unat (nframes (pg s')) + 2"
proof -
  let ?km = "kmalloc_at (Suc n) :: kmalloc_fn" and ?R = "\<lambda>u. R \<union> table_refs u"
  from move_stack_up [OF up(1) _ new n img(1), of n] up(2) obtain s1 u F1 b1 where
    s1: "move_stack ?km s = ret s1"
      "s1 = s\<lparr>pg := pg s1, cpu := (cpu s)\<lparr>r_esp := r_esp (cpu s) + (KERNEL_STACK_POS - initial_stack_pointer s), r_ebp := r_ebp (cpu s1)\<rparr>\<rparr>"
      "paged ki (Suc N) F1 (A(u \<mapsto> b1)) M (?R u) (pg s1)" "tab (pg s1) = (tab (pg s))(1023 := u)"
      "current_page_dir (pg s1) = current_page_dir (pg s)" "same_bounds (pg s) (pg s1)" "same_low (pg s) (pg s1)"
      "present (ent (u, 0x3FE) (pg s1))" "rw (ent (u, 0x3FE) (pg s1))"
      "\<not> user (ent (u, 0x3FE) (pg s1))" "holders (?R u) (pg s1) (addr (ent (u, 0x3FE) (pg s1))) = {(u, 0x3FE)}"
      "unat (nframes (pg s)) \<le> unat (nframes (pg s1)) + 2"
    by (auto simp del: kmalloc_at.simps)
  have f1: "rbt_id2task s1 = rbt_id2task s" "running s1 = running s" "sleeping s1 = sleeping s" "zombie s1 = zombie s"
    "r_esp (cpu s1) = r_esp (cpu s) + (KERNEL_STACK_POS - initial_stack_pointer s)" "r_eflags (cpu s1) = r_eflags (cpu s)" "pid_next s1 = pid_next s"
    by (subst s1(2), simp)+
  have "unat sizeof_Task_t \<le> 8192" "0 < unat sizeof_Task_t" by (simp_all add: sizeof_Task_t_def)
  from paged_kmalloc [OF s1(3) _ this, of 0 n] up(2) obtain t p F2 b2 where
    p: "?km sizeof_Task_t 0 (pg s1) = ret (t, p)" "paged ki (Suc (Suc N)) F2 (A(u \<mapsto> b1, t \<mapsto> b2)) M (?R u) p"
      "allocated (pg s1) F1 (A(u \<mapsto> b1)) sizeof_Task_t 0 t p F2 b2" "kept (pg s1) p" "same_bounds (pg s1) p" "same_low (pg s1) p"
    by (auto simp del: kmalloc_at.simps)
  note P1 = pagedD [OF s1(3)]
  from allocated_bounds [OF p(3) heap_inv_space [OF P1(1)]] have t: "0xEFC00000 \<le> unat t" "unat t + 76 \<le> 0xFFC00000"
    by (simp_all add: sizeof_Task_t_def)
  have "new_object s1 {} t"
    using t img(1) by (auto simp: new_object_def sizeof_Task_t_def bytes_at_unat f1 task_image_def)
  moreover have "rbt_ok lt_id (rbt_id2task s1) Lf" "running s1 = 0" "sleeping s1 = 0" "zombie s1 = 0"
    using img(1) rbt by (simp_all add: f1 task_image_def)
  ultimately obtain s' where s': "task_init ?km ra s = ret (Jumped, s')" "tasks_ok s' [t] [] []" "current_task s' = t"
      "page_dir (tasks s' t) = current_page_dir p" "r_eip (cpu s') = ra" "r_esp (cpu s') = r_esp (cpu s1)" "r_eflags (cpu s') = r_eflags (cpu s1)"
      "pg s' = p\<lparr>cr3 := phyaddr (dirs p (current_page_dir p)), tlb := Map.empty\<rparr>" "pid (tasks s' t) = pid_next s1" "pid_next s' = pid_next s1 + 1"
    using task_init_ok [OF s1(1) p(1) _ _ _ _ _ img(2)] by (auto simp del: kmalloc_at.simps)
  have same: "ent q (pg s') = ent q p" "tab (pg s') = tab p" "current_page_dir (pg s') = current_page_dir p" "same_windows p (pg s')"
    "nframes (pg s') = nframes p" "frames (pg s') = frames p" "frame_ref_cnt (pg s') = frame_ref_cnt p" "same_bounds p (pg s')" "kmem (pg s') = kmem p"
    "kheap_state.truncate (pg s') = kheap_state.truncate p" "paging_on (pg s') = paging_on p" "init_finished (pg s') = init_finished p" for q
    unfolding s'(8) by (simp_all add: ent_def tab_def fun_eq_iff same_windows_def same_bounds_def kheap_state.truncate_def)
  note P = pagedD [OF p(2)]
  have "frames_ok M (?R u) (pg s')" using P(5) by (rule frames_ok_same) (simp_all only: same)
  moreover have "tame (?R u) (pg s')" using P(10) by (simp only: tame_def same)
  ultimately have "paged ki (Suc (Suc N)) F2 (A(u \<mapsto> b1, t \<mapsto> b2)) M (?R u) (pg s')"
    by (intro paged_cong [OF p(2) same(10)]) (simp_all only: same)
  then have up': "paged ki (N + 2) F2 (A(u \<mapsto> b1, t \<mapsto> b2)) M (?R u) (pg s')" by simp
  have "u \<notin> tab (pg s1) ` heap_idx" using P1(9) paged_dom [OF s1(3), of u] by (force simp: heap_tabs_def)
  then have eu: "ent (u, 0x3FE) p = ent (u, 0x3FE) (pg s1)" using p(4) unfolding kept_def by (metis fst_conv)
  have "holders (?R u) (pg s') f = holders (?R u) (pg s1) f" for f
    using kept_addr [OF p(4)] by (intro holders_cong) (simp add: same flags_only_def)
  moreover have "same_low (pg s) (pg s')" "same_bounds (pg s) (pg s')"
    using same_low_trans [OF s1(7) same_low_trans [OF p(6) same_low_kmem [OF same(9)]]]
      same_bounds_trans [OF s1(6) same_bounds_trans [OF p(5) same(8)]] by blast+
  ultimately show ?thesis using s' up' s1(4,5,8-12) f1(5-7) same(1-3,5) eu kept_tables(1) [OF p(4)] p(4)
    by (intro exI [of _ s'] exI [of _ t] exI [of _ u] exI [of _ F2] exI [of _ "A(u \<mapsto> b1, t \<mapsto> b2)"])
      (simp add: kept_def del: kmalloc_at.simps)
qed

text \<open>The state \<^verbatim>\<open>Page::init\<close> leaves: no table for user memory yet.\<close>

lemma user_memory_low:
  assumes "user_bounds s" "unat (kheap_static_end s) + 2 ^ 22 \<le> 2 ^ 32" "low_dir s" "tb_idx (USER_MEM_LOW s) \<le> i" "tab s i \<noteq> 0"
  shows "i \<in> heap_idx"
proof (rule ccontr)
  assume "i \<notin> heap_idx"
  then have "i * 2 ^ 22 < unat (kheap_static_end s)" using assms(3,5) by (auto simp: low_dir_def dir_tables_def)
  moreover note get_aligned_bounds [OF assms(2)]
  ultimately have "i * 2 ^ 22 < unat (USER_MEM_LOW s)" "2 ^ 22 dvd unat (USER_MEM_LOW s)" using assms(1) by (simp_all add: user_bounds_def)
  then have "i < unat (USER_MEM_LOW s) div 2 ^ 22" by (auto elim!: dvdE)
  then show False using assms(4) by (simp add: tb_idx_div)
qed

lemma heap_refs_card: "card (heap_refs s) \<le> 1024 * 64"
proof -
  have "card (heap_refs s) \<le> card (tab s ` heap_idx \<times> {..<1024 :: nat})" unfolding heap_refs_def by (intro card_mono) (auto simp: heap_idx_val)
  also have "\<dots> \<le> 64 * 1024" using card_image_le [of heap_idx "tab s"] by (simp add: card_cartesian_product heap_idx_val)
  finally show ?thesis by simp
qed

lemma paged_start:
  assumes "memory_up N F A M (heap_refs s) s" "tables_ok s" "cold (heap_refs s) s"
    and "user_bounds s" "unat (kheap_static_end s) + 2 ^ 22 \<le> 2 ^ 32" "low_dir s"
  shows "paged (tb_idx (USER_MEM_LOW s)) N F A M (heap_refs s) s"
  using assms(1) tables_ok_heap [OF assms(2)] cold_tame [OF assms(3)] user_memory_low [OF assms(4-6)] heap_refs_card [of s]
  by (auto simp: paged_def heap_refs_def)

text \<open>The two initializations in sequence.\<close>

definition boot_ok :: "u32 \<Rightarrow> Multiboot_mmap_entry_t list \<Rightarrow> Multiboot_mmap_entry_t \<Rightarrow> 'a page_state_scheme \<Rightarrow> bool" where
  "boot_ok ptr es x s \<longleftrightarrow> \<not> kheap_finish_init_called s \<and> \<not> init_finished s \<and> heap_image s \<and> \<not> paging_on s \<and>
     mb_flags (load_Multiboot_info ptr (kmem s)) AND MULTIBOOT_INFO_MEM_MAP \<noteq> 0 \<and>
     boot_map (kmem s) (load_Multiboot_info ptr (kmem s)) (boot_end ptr s) es x \<and> unat (boot_end ptr s) + 0x1100000 \<le> 0xEFC00000"

lemma boot_up:
  assumes boot: "boot_ok ptr es x (pg s)" and img: "task_image k s" "ra \<noteq> 0xFFFFFFFF" and rbt: "rbt_ok lt_id (rbt_id2task s) Lf"
  shows "\<exists>p s' t u F A. page_init (kmalloc_at (Suc n)) (\<lambda>p. p) ptr (pg s) = ret p \<and>
    task_init (kmalloc_at (Suc n)) ra (s\<lparr>pg := p\<rparr>) = ret (Jumped, s') \<and> tasks_ok s' [t] [] [] \<and> current_task s' = t \<and>
    page_dir (tasks s' t) = current_page_dir (pg s') \<and> pid (tasks s' t) = pid_next s \<and> pid_next s' = pid_next s + 1 \<and> t \<in> dom A \<and> u \<in> dom A \<and>
    paged (tb_idx (USER_MEM_LOW (pg s'))) 3 F A (boot_frames x p) (heap_refs p \<union> table_refs u) (pg s') \<and> tab (pg s') = (tab p)(1023 := u) \<and>
    user_bounds (pg s') \<and> unat (kheap_static_end (pg s')) \<le> unat (boot_end ptr (pg s)) + 0xC20000 \<and> same_low (pg s) (pg s') \<and>
    1244 \<le> unat (nframes (pg s')) \<and>
    r_eip (cpu s') = ra \<and> r_esp (cpu s') = r_esp (cpu s) + (KERNEL_STACK_POS - initial_stack_pointer s) \<and>
    present (ent (u, 0x3FE) (pg s')) \<and> rw (ent (u, 0x3FE) (pg s')) \<and> \<not> user (ent (u, 0x3FE) (pg s')) \<and>
    holders (heap_refs p \<union> table_refs u) (pg s') (addr (ent (u, 0x3FE) (pg s'))) = {(u, 0x3FE)}"
proof -
  note B = boot [unfolded boot_ok_def]
  from page_init_up [of "pg s" ptr es x n] B obtain p F A where
    p: "page_init (kmalloc_at (Suc n)) (\<lambda>p. p) ptr (pg s) = ret p" "memory_up 1 F A (boot_frames x p) (heap_refs p) p"
      "tables_ok p" "cold (heap_refs p) p" "unat (kheap_static_end p) \<le> unat (boot_end ptr (pg s)) + 0xC20000"
      "user_bounds p" "low_dir p" "same_low (pg s) p"
    by (auto simp del: kmalloc_at.simps)
  have "boot_map (kmem (pg s)) (load_Multiboot_info ptr (kmem (pg s))) (boot_end ptr (pg s)) es x" using B by blast
  then have "1246 \<le> card (boot_frames x p)" using p(5) by (rule boot_frames_many)
  moreover have "page_inv (boot_frames x p) (heap_refs p, p)" using p(2) by (simp add: memory_up_def)
  ultimately have c: "1246 \<le> unat (nframes p)" using cold_free [OF _ p(4)] by simp
  let ?k = "tb_idx (USER_MEM_LOW p)"
  have pp: "paged ?k 1 F A (boot_frames x p) (heap_refs p) p" using B p(5) by (intro paged_start p) simp
  have i: "task_image k (s\<lparr>pg := p\<rparr>)" using img(1) by (simp add: task_image_def)
  have new: "tab p 1023 = 0" using p(3) by (auto simp: tables_ok_def dir_tables_def)
  from task_init_up [of ?k 1 F A "boot_frames x p" "heap_refs p" "s\<lparr>pg := p\<rparr>" k ra n, OF _ _ _ _ i img(2)] pp new c rbt
  obtain s' t u F' A' where s': "task_init (kmalloc_at (Suc n)) ra (s\<lparr>pg := p\<rparr>) = ret (Jumped, s')" "tasks_ok s' [t] [] []" "current_task s' = t"
    "page_dir (tasks s' t) = current_page_dir (pg s')" "pid (tasks s' t) = pid_next s" "pid_next s' = pid_next s + 1" "t \<in> dom A'" "u \<in> dom A'"
    "paged ?k (1 + 2) F' A' (boot_frames x p) (heap_refs p \<union> table_refs u) (pg s')" "tab (pg s') = (tab p)(1023 := u)"
    "same_bounds p (pg s')" "same_low p (pg s')" "r_eip (cpu s') = ra" "r_esp (cpu s') = r_esp (cpu s) + (KERNEL_STACK_POS - initial_stack_pointer s)"
    "present (ent (u, 0x3FE) (pg s'))" "rw (ent (u, 0x3FE) (pg s'))" "\<not> user (ent (u, 0x3FE) (pg s'))"
    "holders (heap_refs p \<union> table_refs u) (pg s') (addr (ent (u, 0x3FE) (pg s'))) = {(u, 0x3FE)}" "unat (nframes p) \<le> unat (nframes (pg s')) + 2"
    by (simp del: kmalloc_at.simps) blast
  have "USER_MEM_LOW (pg s') = USER_MEM_LOW p" "user_bounds (pg s')" "unat (kheap_static_end (pg s')) \<le> unat (boot_end ptr (pg s)) + 0xC20000"
    "same_low (pg s) (pg s')" "1244 \<le> unat (nframes (pg s'))"
    using s'(11,12,19) p(5,6,8) c user_bounds_same [OF s'(11)] same_low_trans [of "pg s" p "pg s'"] by (simp_all add: same_bounds_def)
  moreover have "(1 :: nat) + 2 = 3" by simp
  ultimately show ?thesis using p(1) s' by metis
qed

end
