(* ===== verification/Fs.thy ===== *)
theory Fs
  imports Task
begin

text \<open>
  The file system interface, \<^verbatim>\<open>src/src/fs/base.cpp\<close> and \<^verbatim>\<open>src/src/include/fs/base.h\<close>: the
  base classes of files, directories and file systems with their default methods, which report
  \<^verbatim>\<open>ENOTSUP\<close> to the running task. Pointers to nodes are addresses, \<^verbatim>\<open>NULL\<close> being 0; the
  arguments a default method ignores are kept. \<^verbatim>\<open>off_t\<close> is a signed 64-bit integer, kept as a word.
\<close>

section \<open>Constants and data\<close>

definition FILENAME_LEN_MAX :: int where "FILENAME_LEN_MAX = 128"

type_synonym off_t = u64

definition SEEK_SET :: int where "SEEK_SET = 0"

definition SEEK_CUR :: int where "SEEK_CUR = 1"

definition SEEK_END :: int where "SEEK_END = 2"

datatype Fsid_t = FSID_RAMDISK | FSID_JKFS

type_synonym mode_t = u16
type_synonym nlink_t = u32

record Stat_t =
  st_mode :: mode_t
  st_nlink :: nlink_t

record Node_file =
  nf_mount_point :: u32

record Dirent_t =
  de_name :: u32
  de_type :: u8

record Node_dir =
  nd_mount_point :: u32

text \<open>\<^verbatim>\<open>ERROR_RETURN\<close>, and its counterpart in the methods that return a pointer or a truth value.\<close>

definition ERROR_RETURN :: "errno \<Rightarrow> task_state \<Rightarrow> int \<times> task_state" where
  "ERROR_RETURN e s = (-1, set_errno (errno_code e) s)"

section \<open>Files\<close>

definition Node_file_new :: Node_file where
  "Node_file_new = \<lparr>nf_mount_point = 0\<rparr>"

definition Node_file_get_mount_point :: "'a Node_file_scheme \<Rightarrow> u32" where
  "Node_file_get_mount_point f = nf_mount_point f"

definition Node_file_set_mount_point :: "u32 \<Rightarrow> 'a Node_file_scheme \<Rightarrow> 'a Node_file_scheme" where
  "Node_file_set_mount_point ptr f = f\<lparr>nf_mount_point := ptr\<rparr>"

definition Node_file_get_dir :: "task_state \<Rightarrow> u32 \<times> task_state" where
  "Node_file_get_dir s = (0, set_errno (errno_code ENOTSUP) s)"

definition Node_file_seek :: "off_t \<Rightarrow> int \<Rightarrow> task_state \<Rightarrow> int \<times> task_state" where
  "Node_file_seek offset whence s = ERROR_RETURN ENOTSUP s"

definition Node_file_read :: "u32 \<Rightarrow> u32 \<Rightarrow> task_state \<Rightarrow> int \<times> task_state" where
  "Node_file_read buf cnt s = ERROR_RETURN ENOTSUP s"

definition Node_file_write :: "u32 \<Rightarrow> u32 \<Rightarrow> task_state \<Rightarrow> int \<times> task_state" where
  "Node_file_write buf cnt s = ERROR_RETURN ENOTSUP s"

definition Node_file_ioctl :: "u32 \<Rightarrow> u32 \<Rightarrow> task_state \<Rightarrow> int \<times> task_state" where
  "Node_file_ioctl cmd arg s = ERROR_RETURN ENOTSUP s"

definition Node_file_stat :: "u32 \<Rightarrow> task_state \<Rightarrow> int \<times> task_state" where
  "Node_file_stat buf s = ERROR_RETURN ENOTSUP s"

definition Node_file_close :: "'a Node_file_scheme \<Rightarrow> 'a Node_file_scheme" where
  "Node_file_close f = f"

section \<open>Directories\<close>

definition Dirent_next :: "task_state \<Rightarrow> bool \<times> task_state" where
  "Dirent_next s = (False, set_errno (errno_code ENOTSUP) s)"

definition Node_dir_new :: Node_dir where
  "Node_dir_new = \<lparr>nd_mount_point = 0\<rparr>"

definition Node_dir_get_mount_point :: "'a Node_dir_scheme \<Rightarrow> u32" where
  "Node_dir_get_mount_point d = nd_mount_point d"

definition Node_dir_set_mount_point :: "u32 \<Rightarrow> 'a Node_dir_scheme \<Rightarrow> 'a Node_dir_scheme" where
  "Node_dir_set_mount_point ptr d = d\<lparr>nd_mount_point := ptr\<rparr>"

definition Node_dir_openf :: "u32 \<Rightarrow> task_state \<Rightarrow> u32 \<times> task_state" where
  "Node_dir_openf fname s = (0, set_errno (errno_code ENOTSUP) s)"

definition Node_dir_opend :: "u32 \<Rightarrow> task_state \<Rightarrow> u32 \<times> task_state" where
  "Node_dir_opend fname s = (0, set_errno (errno_code ENOTSUP) s)"

definition Node_dir_creat :: "u32 \<Rightarrow> mode_t \<Rightarrow> task_state \<Rightarrow> u32 \<times> task_state" where
  "Node_dir_creat fname mode s = (0, set_errno (errno_code ENOTSUP) s)"

text \<open>\<^verbatim>\<open>chmod\<close> returns \<^verbatim>\<open>NULL\<close> as an \<^verbatim>\<open>int\<close>, which is 0.\<close>

definition Node_dir_chmod :: "u32 \<Rightarrow> mode_t \<Rightarrow> task_state \<Rightarrow> int \<times> task_state" where
  "Node_dir_chmod fname mode s = (0, set_errno (errno_code ENOTSUP) s)"

definition Node_dir_unlink :: "u32 \<Rightarrow> task_state \<Rightarrow> int \<times> task_state" where
  "Node_dir_unlink fname s = ERROR_RETURN ENOTSUP s"

definition Node_dir_link :: "u32 \<Rightarrow> u32 \<Rightarrow> task_state \<Rightarrow> int \<times> task_state" where
  "Node_dir_link fptr fname s = ERROR_RETURN ENOTSUP s"

definition Node_dir_symlink :: "u32 \<Rightarrow> u32 \<Rightarrow> task_state \<Rightarrow> int \<times> task_state" where
  "Node_dir_symlink oldpath fname s = ERROR_RETURN ENOTSUP s"

definition Node_dir_mkdir :: "u32 \<Rightarrow> mode_t \<Rightarrow> task_state \<Rightarrow> u32 \<times> task_state" where
  "Node_dir_mkdir fname mode s = (0, set_errno (errno_code ENOTSUP) s)"

definition Node_dir_rmdir :: "u32 \<Rightarrow> task_state \<Rightarrow> int \<times> task_state" where
  "Node_dir_rmdir fname s = ERROR_RETURN ENOTSUP s"

definition Node_dir_mount :: "u32 \<Rightarrow> task_state \<Rightarrow> int \<times> task_state" where
  "Node_dir_mount target s = ERROR_RETURN ENOTSUP s"

definition Node_dir_is_empty :: "task_state \<Rightarrow> bool \<times> task_state" where
  "Node_dir_is_empty s = (False, set_errno (errno_code ENOTSUP) s)"

definition Node_dir_list :: "task_state \<Rightarrow> u32 \<times> task_state" where
  "Node_dir_list s = (0, set_errno (errno_code ENOTSUP) s)"

definition Node_dir_get_par :: "task_state \<Rightarrow> u32 \<times> task_state" where
  "Node_dir_get_par s = (0, set_errno (errno_code ENOTSUP) s)"

definition Node_dir_close :: "'a Node_dir_scheme \<Rightarrow> 'a Node_dir_scheme" where
  "Node_dir_close d = d"

definition Fs_mv :: "u32 \<Rightarrow> u32 \<Rightarrow> task_state \<Rightarrow> int \<times> task_state" where
  "Fs_mv oldpath newpath s = ERROR_RETURN ENOTSUP s"

section \<open>The methods of a file\<close>

text \<open>
  What a client of \<^verbatim>\<open>Fs::Node_file\<close> reaches through the virtual table: \<^verbatim>\<open>seek\<close> and
  \<^verbatim>\<open>read\<close> of the object's class. \<^verbatim>\<open>seek\<close> returns a signed 64-bit value.
\<close>

record 'f file_ops =
  fo_seek :: "off_t \<Rightarrow> int \<Rightarrow> 'f \<Rightarrow> task_state \<Rightarrow> int \<times> 'f \<times> task_state"
  fo_read :: "u32 \<Rightarrow> u32 \<Rightarrow> 'f \<Rightarrow> task_state \<Rightarrow> int \<times> 'f \<times> task_state"

lemma set_errno_errno [simp]: "errno (tasks (set_errno e s) (current_task s)) = e"
  by (simp add: set_errno_def set_task_def upd_task_def)

lemma set_errno_pg [simp]: "pg (set_errno e s) = pg s" "cpu (set_errno e s) = cpu s" "current_task (set_errno e s) = current_task s"
  by (simp_all add: set_errno_def set_task_def)

end
