(* ===== verification/Ramdisk.thy ===== *)
theory Ramdisk
  imports Fs Cstring
begin

text \<open>
  The RAM disk, \<^verbatim>\<open>src/src/drv/ramdisk.cpp\<close>: one file over the memory [start, end). Offsets are
  64-bit and sizes 32-bit; the conversions between them are the ones the C++ compiler inserts.
\<close>

record Ramdisk_file_node = Node_file +
  rd_start :: u32
  rd_end :: u32
  cur_offset :: off_t
  closed :: bool

definition get_fs_id :: Fsid_t where
  "get_fs_id = FSID_RAMDISK"

definition Ramdisk_file_node_new :: "u32 \<Rightarrow> u32 \<Rightarrow> Ramdisk_file_node" where
  "Ramdisk_file_node_new s e = \<lparr>nf_mount_point = nf_mount_point Node_file_new, rd_start = s, rd_end = e, cur_offset = 0, closed = False\<rparr>"

text \<open>\<^verbatim>\<open>this->end - this->start\<close>, an unsigned 32-bit difference, as an \<^verbatim>\<open>off_t\<close>.\<close>

definition rd_size :: "Ramdisk_file_node \<Rightarrow> off_t" where
  "rd_size f = ucast (rd_end f - rd_start f)"

definition ramdisk_seek :: "off_t \<Rightarrow> int \<Rightarrow> Ramdisk_file_node \<Rightarrow> task_state \<Rightarrow> int \<times> Ramdisk_file_node \<times> task_state" where
  "ramdisk_seek offset whence f s =
     (if closed f then (-1, f, set_errno (errno_code EBADF) s)
      else
        (let off1 = (if whence = SEEK_SET then offset
                     else if whence = SEEK_CUR then offset + cur_offset f
                     else if whence = SEEK_END then rd_size f + offset
                     else -1)
         in if sint off1 < 0 \<or> sint off1 \<ge> sint (rd_size f) then (-1, f, set_errno (errno_code EINVAL) s)
            else (sint off1, f\<lparr>cur_offset := off1\<rparr>, s)))"

text \<open>The address \<^verbatim>\<open>(void* )(this->start + this->cur_offset)\<close>.\<close>

definition rd_pos :: "Ramdisk_file_node \<Rightarrow> u32" where
  "rd_pos f = ucast (ucast (rd_start f) + cur_offset f)"

definition rd_count :: "u32 \<Rightarrow> Ramdisk_file_node \<Rightarrow> u32" where
  "rd_count cnt f =
     (let a = ucast cnt :: off_t; b = rd_size f - cur_offset f in ucast (if sint a < sint b then a else b))"

definition ramdisk_read :: "u32 \<Rightarrow> u32 \<Rightarrow> Ramdisk_file_node \<Rightarrow> task_state \<Rightarrow> int \<times> Ramdisk_file_node \<times> task_state" where
  "ramdisk_read buf cnt f s =
     (if closed f then (-1, f, set_errno (errno_code EBADF) s)
      else
        (let cnt = rd_count cnt f
         in if cnt = 0 then (0, f, s)
            else
              (let (old_eflags, s) = CLI_SAVE_EFLAGS s;
                   s = s\<lparr>pg := (pg s)\<lparr>kmem := memcpy buf (rd_pos f) cnt (kmem (pg s))\<rparr>\<rparr>;
                   f = f\<lparr>cur_offset := cur_offset f + ucast cnt\<rparr>
               in (sint cnt, f, RESTORE_EFLAGS old_eflags s))))"

definition ramdisk_write :: "u32 \<Rightarrow> u32 \<Rightarrow> Ramdisk_file_node \<Rightarrow> task_state \<Rightarrow> int \<times> Ramdisk_file_node \<times> task_state" where
  "ramdisk_write buf cnt f s =
     (if closed f then (-1, f, set_errno (errno_code EBADF) s)
      else
        (let cnt = rd_count cnt f
         in if cnt = 0 then (0, f, s)
            else
              (let (old_eflags, s) = CLI_SAVE_EFLAGS s;
                   s = s\<lparr>pg := (pg s)\<lparr>kmem := memcpy (rd_pos f) buf cnt (kmem (pg s))\<rparr>\<rparr>;
                   f = f\<lparr>cur_offset := cur_offset f + ucast cnt\<rparr>
               in (sint cnt, f, RESTORE_EFLAGS old_eflags s))))"

definition ramdisk_close :: "Ramdisk_file_node \<Rightarrow> Ramdisk_file_node" where
  "ramdisk_close f = f\<lparr>closed := True\<rparr>"

text \<open>
  \<^verbatim>\<open>new Ramdisk_file_node\<close>: 28 bytes with the virtual table pointer and the padding of the i386
  ABI. The object stands apart from the bytes at its address.
\<close>

definition sizeof_Ramdisk_file_node :: u32 where
  "sizeof_Ramdisk_file_node = 28"

definition ramdisk_get_file_node :: "kmalloc_fn \<Rightarrow> u32 \<Rightarrow> u32 \<Rightarrow> task_state \<Rightarrow> ((u32 \<times> Ramdisk_file_node) \<times> task_state) exec" where
  "ramdisk_get_file_node km start_addr end_addr s =
     andThen (km sizeof_Ramdisk_file_node 0 (pg s)) (\<lambda>(p, pg').
       ret ((p, Ramdisk_file_node_new start_addr end_addr), s\<lparr>pg := pg'\<rparr>))"

definition ramdisk_ops :: "Ramdisk_file_node file_ops" where
  "ramdisk_ops = \<lparr>fo_seek = ramdisk_seek, fo_read = ramdisk_read\<rparr>"

end
