(* ===== verification/Elf.thy ===== *)
theory Elf
  imports Ramdisk
begin

text \<open>
  Loading an ELF executable, \<^verbatim>\<open>src/src/core/elf.cpp\<close>, with the two structures and the constants of
  \<^verbatim>\<open>elf_base.h\<close> it uses. The file is any object with the \<^verbatim>\<open>seek\<close> and \<^verbatim>\<open>read\<close>
  methods of \<^verbatim>\<open>Fs::Node_file\<close>. The local variables \<^verbatim>\<open>elf_header\<close> and \<^verbatim>\<open>header\<close> are bytes on
  the kernel stack, at addresses the compiler chooses. Memory is the running address space's.
\<close>

section \<open>Structures\<close>

definition EI_NIDENT :: nat where "EI_NIDENT = 16"

record Elf32_Ehdr =
  e_ident :: "u8 list"
  e_type :: u16
  e_machine :: u16
  e_version :: u32
  e_entry :: u32
  e_phoff :: u32
  e_shoff :: u32
  e_flags :: u32
  e_ehsize :: u16
  e_phentsize :: u16
  e_phnum :: u16
  e_shentsize :: u16
  e_shnum :: u16
  e_shstrndx :: u16

record Elf32_Phdr =
  p_type :: u32
  p_offset :: u32
  p_vaddr :: u32
  p_paddr :: u32
  p_filesz :: u32
  p_memsz :: u32
  p_flags :: u32
  p_align :: u32

definition load16 :: "u32 \<Rightarrow> memory \<Rightarrow> u16" where
  "load16 a m = ucast (m a) OR push_bit 8 (ucast (m (a + 1)))"

definition load_Ehdr :: "u32 \<Rightarrow> memory \<Rightarrow> Elf32_Ehdr" where
  "load_Ehdr a m = \<lparr>e_ident = map (\<lambda>i. m (a + of_nat i)) [0..<EI_NIDENT], e_type = load16 (a + 16) m, e_machine = load16 (a + 18) m,
     e_version = load32 (a + 20) m, e_entry = load32 (a + 24) m, e_phoff = load32 (a + 28) m, e_shoff = load32 (a + 32) m,
     e_flags = load32 (a + 36) m, e_ehsize = load16 (a + 40) m, e_phentsize = load16 (a + 42) m, e_phnum = load16 (a + 44) m,
     e_shentsize = load16 (a + 46) m, e_shnum = load16 (a + 48) m, e_shstrndx = load16 (a + 50) m\<rparr>"

definition load_Phdr :: "u32 \<Rightarrow> memory \<Rightarrow> Elf32_Phdr" where
  "load_Phdr a m = \<lparr>p_type = load32 a m, p_offset = load32 (a + 4) m, p_vaddr = load32 (a + 8) m, p_paddr = load32 (a + 12) m,
     p_filesz = load32 (a + 16) m, p_memsz = load32 (a + 20) m, p_flags = load32 (a + 24) m, p_align = load32 (a + 28) m\<rparr>"

definition sizeof_Elf32_Ehdr :: u32 where "sizeof_Elf32_Ehdr = 52"

definition sizeof_Elf32_Phdr :: u32 where "sizeof_Elf32_Phdr = 32"

definition EI_MAG0 :: nat where "EI_MAG0 = 0"
definition ELFMAG0 :: u8 where "ELFMAG0 = 0x7f"
definition EI_MAG1 :: nat where "EI_MAG1 = 1"
definition ELFMAG1 :: u8 where "ELFMAG1 = 69"
definition EI_MAG2 :: nat where "EI_MAG2 = 2"
definition ELFMAG2 :: u8 where "ELFMAG2 = 76"
definition EI_MAG3 :: nat where "EI_MAG3 = 3"
definition ELFMAG3 :: u8 where "ELFMAG3 = 70"
definition EI_CLASS :: nat where "EI_CLASS = 4"
definition ELFCLASS32 :: u8 where "ELFCLASS32 = 1"
definition EI_DATA :: nat where "EI_DATA = 5"
definition ELFDATA2LSB :: u8 where "ELFDATA2LSB = 1"
definition EI_VERSION :: nat where "EI_VERSION = 6"
definition EV_CURRENT :: u32 where "EV_CURRENT = 1"
definition ET_EXEC :: u16 where "ET_EXEC = 2"
definition EM_386 :: u16 where "EM_386 = 3"
definition PT_LOAD :: u32 where "PT_LOAD = 1"

lemmas elf_consts = EI_MAG0_def ELFMAG0_def EI_MAG1_def ELFMAG1_def EI_MAG2_def ELFMAG2_def EI_MAG3_def ELFMAG3_def
  EI_CLASS_def ELFCLASS32_def EI_DATA_def ELFDATA2LSB_def EI_VERSION_def EV_CURRENT_def ET_EXEC_def EM_386_def PT_LOAD_def
  sizeof_Elf32_Ehdr_def sizeof_Elf32_Phdr_def

section \<open>Loading\<close>

definition is_header_valid :: "Elf32_Ehdr \<Rightarrow> bool" where
  "is_header_valid h \<longleftrightarrow>
     e_ident h ! EI_MAG0 = ELFMAG0 \<and> e_ident h ! EI_MAG1 = ELFMAG1 \<and> e_ident h ! EI_MAG2 = ELFMAG2 \<and> e_ident h ! EI_MAG3 = ELFMAG3 \<and>
     e_ident h ! EI_CLASS = ELFCLASS32 \<and> e_ident h ! EI_DATA = ELFDATA2LSB \<and> e_ident h ! EI_VERSION = ucast EV_CURRENT \<and>
     e_type h = ET_EXEC \<and> e_machine h = EM_386 \<and> e_version h = EV_CURRENT \<and> e_entry h \<noteq> 0 \<and> e_phoff h \<noteq> 0 \<and>
     e_phnum h \<noteq> 0 \<and> e_phentsize h = ucast sizeof_Elf32_Phdr"

text \<open>\<^verbatim>\<open>current_page_dir->get_page(a, true)->alloc(true, true)\<close>, then \<^verbatim>\<open>memset(a, 0, cnt)\<close>.\<close>

definition clear_in_page :: "kmalloc_fn \<Rightarrow> u32 \<Rightarrow> u32 \<Rightarrow> task_state \<Rightarrow> task_state exec" where
  "clear_in_page km a cnt s =
     andThen (get_page km (current_page_dir (pg s)) a True (pg s)) (\<lambda>(r, p).
     andThen (entry_alloc (page_of r) True True p) (\<lambda>p.
       ret (s\<lparr>pg := p\<lparr>kmem := memset a 0 cnt (kmem p)\<rparr>\<rparr>)))"

text \<open>The rest of a segment beyond its bytes in the file.\<close>

definition load_bss :: "kmalloc_fn \<Rightarrow> u32 \<Rightarrow> u32 \<Rightarrow> task_state \<Rightarrow> task_state exec" where
  "load_bss km space_start space_end s =
     (if space_start < space_end then
        (let start_alg = get_aligned space_start 12
         in andThen (if space_start \<noteq> start_alg then clear_in_page km space_start (start_alg - space_start) s else ret s) (\<lambda>s.
            let end_alg = space_end AND 0xFFFFF000
            in andThen (if end_alg \<noteq> space_end then clear_in_page km end_alg (space_end - end_alg) s else ret s) (\<lambda>s.
               andThen (lazy_alloc_interval km (current_page_dir (pg s)) start_alg end_alg True True True (pg s)) (\<lambda>p.
                 ret (s\<lparr>pg := p\<rparr>)))))
      else ret s)"

text \<open>
  The segment's bytes in the file; the result is the start of the remaining space, or the error to report.
\<close>

definition load_data ::
  "kmalloc_fn \<Rightarrow> 'f file_ops \<Rightarrow> Elf32_Phdr \<Rightarrow> 'f \<Rightarrow> task_state \<Rightarrow> ((errno + u32) \<times> 'f \<times> task_state) exec" where
  "load_data km ops h f s =
     (if p_filesz h \<noteq> 0 then
        (let filesz = cmin (p_filesz h) (p_memsz h);
             (r, f, s) = fo_seek ops (ucast (p_offset h)) SEEK_SET f s
         in if r = -1 then ret (Inl EIO, f, s)
            else
              andThen (alloc_interval km (current_page_dir (pg s)) (p_vaddr h AND 0xFFFFF000)
                         (get_aligned (p_vaddr h + p_memsz h) 12) True True (pg s)) (\<lambda>p.
                let (r, f, s) = fo_read ops (p_vaddr h) filesz f (s\<lparr>pg := p\<rparr>)
                in if r \<noteq> sint filesz then ret (Inl EIO, f, s) else ret (Inr (p_vaddr h + filesz), f, s)))
      else ret (Inr (p_vaddr h), f, s))"

text \<open>
  One round of the loop over the program headers; \<^verbatim>\<open>load_done\<close> is the result, an error ends the loop.
\<close>

definition load_segment ::
  "kmalloc_fn \<Rightarrow> 'f file_ops \<Rightarrow> u32 \<Rightarrow> Elf32_Ehdr \<Rightarrow> nat \<Rightarrow> bool \<Rightarrow> 'f \<Rightarrow> task_state \<Rightarrow> ((errno + bool) \<times> 'f \<times> task_state) exec" where
  "load_segment km ops header_addr elf_header i load_done f s =
     (let (r, f, s) = fo_seek ops (ucast (of_nat i * sizeof_Elf32_Phdr + e_phoff elf_header)) SEEK_SET f s
      in if r = -1 then ret (Inl EIO, f, s)
         else
           (let (r, f, s) = fo_read ops header_addr sizeof_Elf32_Phdr f s
            in if r \<noteq> sint sizeof_Elf32_Phdr then ret (Inl EIO, f, s)
               else
                 (let h = load_Phdr header_addr (kmem (pg s))
                  in if p_type h \<noteq> PT_LOAD \<or> p_memsz h = 0 then ret (Inr load_done, f, s)
                     else if p_vaddr h < USER_MEM_LOW (pg s) \<or>
                        (ucast (p_vaddr h) + ucast (p_memsz h) :: u64) > ucast (USER_MEM_HIGH (pg s)) then ret (Inl ENOMEM, f, s)
                     else
                       andThen (load_data km ops h f s) (\<lambda>(r, f, s).
                         case r of
                           Inl e \<Rightarrow> ret (Inl e, f, s)
                         | Inr space_start \<Rightarrow>
                             andThen (load_bss km space_start (p_vaddr h + p_memsz h) s) (\<lambda>s. ret (Inr True, f, s))))))"

fun load_segments ::
  "kmalloc_fn \<Rightarrow> 'f file_ops \<Rightarrow> u32 \<Rightarrow> Elf32_Ehdr \<Rightarrow> nat list \<Rightarrow> bool \<Rightarrow> 'f \<Rightarrow> task_state \<Rightarrow> ((errno + bool) \<times> 'f \<times> task_state) exec" where
  "load_segments km ops ha eh [] load_done f s = ret (Inr load_done, f, s)"
| "load_segments km ops ha eh (i # is) load_done f s =
     andThen (load_segment km ops ha eh i load_done f s) (\<lambda>(r, f, s).
       case r of Inl e \<Rightarrow> ret (Inl e, f, s) | Inr ld \<Rightarrow> load_segments km ops ha eh is ld f s)"

text \<open>\<open>f\<close> is \<open>None\<close> for a null pointer; the entry address is returned as an \<^verbatim>\<open>int\<close>.\<close>

definition load_elf ::
  "kmalloc_fn \<Rightarrow> 'f file_ops \<Rightarrow> u32 \<Rightarrow> u32 \<Rightarrow> 'f option \<Rightarrow> task_state \<Rightarrow> (int \<times> 'f option \<times> task_state) exec" where
  "load_elf km ops elf_header_addr header_addr f s =
     (case f of
        None \<Rightarrow> (let (r, s) = ERROR_RETURN ENOENT s in ret (r, None, s))
      | Some f \<Rightarrow>
          (let (r, f, s) = fo_read ops elf_header_addr sizeof_Elf32_Ehdr f s
           in if r \<noteq> sint sizeof_Elf32_Ehdr then (let (r, s) = ERROR_RETURN EIO s in ret (r, Some f, s))
              else
                (let elf_header = load_Ehdr elf_header_addr (kmem (pg s))
                 in if \<not> is_header_valid elf_header then (let (r, s) = ERROR_RETURN ENOEXEC s in ret (r, Some f, s))
                    else
                      andThen (load_segments km ops header_addr elf_header [0..<unat (e_phnum elf_header)] False f s) (\<lambda>(r, f, s).
                        case r of
                          Inl e \<Rightarrow> (let (r, s) = ERROR_RETURN e s in ret (r, Some f, s))
                        | Inr load_done \<Rightarrow>
                            if \<not> load_done then (let (r, s) = ERROR_RETURN ENOEXEC s in ret (r, Some f, s))
                            else ret (sint (e_entry elf_header), Some f, s)))))"

end
