(* ===== verification/Cxxsupport.thy ===== *)
theory Cxxsupport
  imports Klog_Thms Page
begin

text \<open>
  The C++ run time, \<^verbatim>\<open>src/src/lib/cxxsupport.cpp\<close>: constructors and destructors of static objects,
  the table of functions to call at exit, and the operators \<^verbatim>\<open>new\<close> and \<^verbatim>\<open>delete\<close>. Functions
  are their addresses; calling one appends it, with its argument, to the calls made. What a constructor does to the
  kernel is an argument of \<^verbatim>\<open>cxxsupport_init\<close>, defined with \<^verbatim>\<open>kmain\<close>. A called destructor
  does not itself register functions.
\<close>

record Atexit_func_entry_t =
  ax_func :: u32
  ax_arg :: u32
  dso_handle :: u32

definition NATEXIT_FUNCS_MAX :: nat where "NATEXIT_FUNCS_MAX = 128"

record cxx_state =
  atexit_funcs :: "nat \<Rightarrow> Atexit_func_entry_t"
  natexit_funcs :: nat
  cxx_calls :: "(u32 \<times> u32) list"
  cxx_log :: klog_state

definition call :: "u32 \<Rightarrow> u32 \<Rightarrow> cxx_state \<Rightarrow> cxx_state" where
  "call f a s = s\<lparr>cxx_calls := cxx_calls s @ [(f, a)]\<rparr>"

definition cxa_atexit :: "u32 \<Rightarrow> u32 \<Rightarrow> u32 \<Rightarrow> cxx_state \<Rightarrow> (int \<times> cxx_state) exec" where
  "cxa_atexit func a dso s =
     (if natexit_funcs s = NATEXIT_FUNCS_MAX then halt (Panic ''too many functions registered by __cxa_atexit'')
      else
        (let i = natexit_funcs s;
             e = (atexit_funcs s i)\<lparr>ax_func := func, ax_arg := a, dso_handle := dso\<rparr>
         in ret (0, s\<lparr>atexit_funcs := (atexit_funcs s)(i := e), natexit_funcs := i + 1\<rparr>)))"

text \<open>\<^verbatim>\<open>for (int i = natexit_funcs; (-- i) >= 0; )\<close> when everything is to be destroyed.\<close>

primrec finalize_all :: "nat \<Rightarrow> cxx_state \<Rightarrow> cxx_state" where
  "finalize_all 0 s = s"
| "finalize_all (Suc i) s = finalize_all i (call (ax_func (atexit_funcs s i)) (ax_arg (atexit_funcs s i)) s)"

text \<open>\<^verbatim>\<open>for (int j = i; j + 1 < natexit_funcs; j ++)\<close>, moving the later entries down.\<close>

definition shift_down :: "nat \<Rightarrow> nat \<Rightarrow> (nat \<Rightarrow> Atexit_func_entry_t) \<Rightarrow> (nat \<Rightarrow> Atexit_func_entry_t)" where
  "shift_down i n t = fold (\<lambda>j t. t(j := t (j + 1))) [i..<n - 1] t"

primrec finalize_one :: "u32 \<Rightarrow> nat \<Rightarrow> cxx_state \<Rightarrow> cxx_state" where
  "finalize_one f 0 s = s"
| "finalize_one f (Suc i) s =
     finalize_one f i
       (if ax_func (atexit_funcs s i) = f then
          (let s = call (ax_func (atexit_funcs s i)) (ax_arg (atexit_funcs s i)) s
           in s\<lparr>atexit_funcs := shift_down i (natexit_funcs s) (atexit_funcs s), natexit_funcs := natexit_funcs s - 1\<rparr>)
        else s)"

definition cxa_finalize :: "'d fpu \<Rightarrow> u32 \<Rightarrow> cxx_state \<Rightarrow> cxx_state exec" where
  "cxa_finalize fp f s =
     (if f = 0 then
        andThen (log fp DEBUG (cstr ''__cxa_finalize called with f=0'') [] (cxx_log s)) (\<lambda>k.
          ret ((finalize_all (natexit_funcs s) (s\<lparr>cxx_log := k\<rparr>))\<lparr>natexit_funcs := 0\<rparr>))
      else ret (finalize_one f (natexit_funcs s) s))"

text \<open>
  The tables the linker script delimits: \<open>ctors\<close> and \<open>dtors\<close> are the words between the two symbols. The functions of the first
  construct the static objects of the kernel's files, so calling one changes the state of the program: \<open>run\<close> is what a call of the
  function at an address does, given in \<^verbatim>\<open>Kmain\<close> for the files of the kernel.
\<close>

definition cxxsupport_init :: "(u32 \<Rightarrow> 's \<Rightarrow> 's exec) \<Rightarrow> u32 list \<Rightarrow> 's \<Rightarrow> 's exec" where
  "cxxsupport_init run ctors s = foldM run ctors s"

definition cxxsupport_finalize :: "'d fpu \<Rightarrow> u32 list \<Rightarrow> cxx_state \<Rightarrow> cxx_state exec" where
  "cxxsupport_finalize fp dtors s = cxa_finalize fp 0 (fold (\<lambda>f. call f 0) dtors s)"

definition cxa_pure_virtual :: "'a exec" where
  "cxa_pure_virtual = halt (Panic ''pure virtual function can not be called'')"

definition operator_new :: "(u32 \<Rightarrow> nat \<Rightarrow> page_state \<Rightarrow> (u32 \<times> page_state) exec) \<Rightarrow> u32 \<Rightarrow> page_state \<Rightarrow> (u32 \<times> page_state) exec" where
  "operator_new km sz s = km sz 0 s"

definition operator_new_array :: "(u32 \<Rightarrow> nat \<Rightarrow> page_state \<Rightarrow> (u32 \<times> page_state) exec) \<Rightarrow> u32 \<Rightarrow> page_state \<Rightarrow> (u32 \<times> page_state) exec" where
  "operator_new_array km sz s = km sz 0 s"

definition operator_delete :: "u32 \<Rightarrow> page_state \<Rightarrow> page_state exec" where
  "operator_delete p s = kfree_here p s"

definition operator_delete_array :: "u32 \<Rightarrow> page_state \<Rightarrow> page_state exec" where
  "operator_delete_array p s = kfree_here p s"

section \<open>Exit order\<close>

text \<open>The registered functions, first registered first.\<close>

definition registered :: "cxx_state \<Rightarrow> (u32 \<times> u32) list" where
  "registered s = map (\<lambda>i. (ax_func (atexit_funcs s i), ax_arg (atexit_funcs s i))) [0..<natexit_funcs s]"

lemma registered_atexit:
  assumes "cxa_atexit f a dso s = ret (r, s')"
  shows "registered s' = registered s @ [(f, a)] \<and> cxx_calls s' = cxx_calls s \<and> natexit_funcs s' = natexit_funcs s + 1"
  using assms by (auto simp: cxa_atexit_def registered_def Let_def split: if_splits)

lemma finalize_all_calls:
  "cxx_calls (finalize_all n s) = cxx_calls s @ rev (map (\<lambda>i. (ax_func (atexit_funcs s i), ax_arg (atexit_funcs s i))) [0..<n])"
  by (induction n arbitrary: s) (simp_all add: call_def)

lemma finalize_all_keeps: "natexit_funcs (finalize_all n s) = natexit_funcs s" "atexit_funcs (finalize_all n s) = atexit_funcs s"
  by (induction n arbitrary: s) (simp_all add: call_def)

lemma shift_down_value: "shift_down i n t j = (if i \<le> j \<and> j < n - 1 then t (j + 1) else t j)"
proof (induction n arbitrary: j)
  case (Suc n)
  show ?case
  proof (cases "i < n")
    case True
    then have "[i..<Suc n - 1] = [i..<n - 1] @ [n - 1]" by (cases n) simp_all
    then have "shift_down i (Suc n) t = (shift_down i n t)(n - 1 := shift_down i n t n)" using True by (simp add: shift_down_def)
    then show ?thesis using Suc [of j] Suc [of n] True by auto
  qed (auto simp: shift_down_def)
qed (simp add: shift_down_def)

text \<open>One round of the loop that looks for \<open>f\<close>.\<close>

definition finalize_step :: "u32 \<Rightarrow> nat \<Rightarrow> cxx_state \<Rightarrow> cxx_state" where
  "finalize_step f i s =
     (if ax_func (atexit_funcs s i) = f then
        (let s = call (ax_func (atexit_funcs s i)) (ax_arg (atexit_funcs s i)) s
         in s\<lparr>atexit_funcs := shift_down i (natexit_funcs s) (atexit_funcs s), natexit_funcs := natexit_funcs s - 1\<rparr>)
      else s)"

lemma finalize_one_Suc: "finalize_one f (Suc i) s = finalize_one f i (finalize_step f i s)"
  by (simp add: finalize_step_def)

lemma registered_nth: "i < natexit_funcs s \<Longrightarrow> registered s ! i = (ax_func (atexit_funcs s i), ax_arg (atexit_funcs s i))"
  by (simp add: registered_def)

lemma length_registered [simp]: "length (registered s) = natexit_funcs s"
  by (simp add: registered_def)

lemma finalize_step_registered:
  assumes "i < natexit_funcs s"
  shows "registered (finalize_step f i s) =
      (if fst (registered s ! i) = f then take i (registered s) @ drop (Suc i) (registered s) else registered s)"
    "cxx_calls (finalize_step f i s) = cxx_calls s @ (if fst (registered s ! i) = f then [registered s ! i] else [])"
proof -
  have n: "registered s ! i = (ax_func (atexit_funcs s i), ax_arg (atexit_funcs s i))" by (rule registered_nth [OF assms])
  show "cxx_calls (finalize_step f i s) = cxx_calls s @ (if fst (registered s ! i) = f then [registered s ! i] else [])"
    by (auto simp: finalize_step_def call_def Let_def n)
  show "registered (finalize_step f i s) =
      (if fst (registered s ! i) = f then take i (registered s) @ drop (Suc i) (registered s) else registered s)"
  proof (cases "ax_func (atexit_funcs s i) = f")
    case True
    have "registered (finalize_step f i s) = take i (registered s) @ drop (Suc i) (registered s)"
      by (rule nth_equalityI)
        (use assms True in \<open>auto simp: finalize_step_def call_def Let_def registered_def shift_down_value nth_append\<close>)
    then show ?thesis using True n by simp
  next
    case False
    then show ?thesis by (simp add: finalize_step_def n)
  qed
qed

lemma finalize_one_effect:
  "n \<le> natexit_funcs s \<Longrightarrow>
    cxx_calls (finalize_one f n s) = cxx_calls s @ rev (filter (\<lambda>x. fst x = f) (take n (registered s))) \<and>
    registered (finalize_one f n s) = filter (\<lambda>x. fst x \<noteq> f) (take n (registered s)) @ drop n (registered s)"
proof (induction n arbitrary: s)
  case (Suc n)
  let ?r = "registered s"
  let ?s = "finalize_step f n s"
  have lt: "n < length ?r" using Suc.prems by simp
  note st = finalize_step_registered [of n s f, OF Suc_le_lessD [OF Suc.prems]]
  have "n \<le> natexit_funcs ?s"
    using Suc.prems by (auto simp: finalize_step_def call_def Let_def)
  note IH = Suc.IH [OF this]
  have tk: "take n (registered ?s) = take n ?r" unfolding st(1) using lt by simp
  have t: "take (Suc n) ?r = take n ?r @ [?r ! n]" by (rule take_Suc_conv_app_nth [OF lt])
  have d: "drop n ?r = ?r ! n # drop (Suc n) ?r" by (rule Cons_nth_drop_Suc [OF lt, symmetric])
  have dn: "drop n (registered ?s) = (if fst (?r ! n) = f then drop (Suc n) ?r else drop n ?r)"
    unfolding st(1) using lt by (simp add: drop_append)
  show ?case using IH unfolding finalize_one_Suc tk t dn st(2) by (auto simp: d)
qed simp

text \<open>
  C40: \<^verbatim>\<open>__cxa_finalize\<close> with no function calls everything registered with \<^verbatim>\<open>__cxa_atexit\<close>, the latest
  first, and empties the table; with a function it calls that function once for every registration of
  it, the latest first, and leaves the other registrations in their order.
\<close>

theorem cxa_finalize_order:
  "\<exists>s'. cxa_finalize fp f s = ret s' \<and>
    cxx_calls s' = cxx_calls s @ rev (filter (\<lambda>x. f = 0 \<or> fst x = f) (registered s)) \<and>
    registered s' = filter (\<lambda>x. f \<noteq> 0 \<and> fst x \<noteq> f) (registered s)"
proof (cases "f = 0")
  case True
  have "format_text (cstr ''__cxa_finalize called with f=0'') [] = Some (cstr ''__cxa_finalize called with f=0'')"
    by (simp add: cstr_def)
  from log_returns [OF this, of fp DEBUG "cxx_log s"] show ?thesis using True
    by (auto simp: cxa_finalize_def finalize_all_calls registered_def finalize_all_keeps)
next
  case False
  then show ?thesis using finalize_one_effect [of "natexit_funcs s" s f] by (simp add: cxa_finalize_def)
qed

end
