(* ===== verification/Panic.thy ===== *)
theory Panic
  imports Klog_Thms Common
begin

text \<open>
  \<^verbatim>\<open>src/src/core/common.cpp\<close>: what a panic and a failed assertion do before the machine halts. The
  other theories only record that the machine halted; here is the state it halts in.
\<close>

text \<open>\<^verbatim>\<open>die\<close> turns the speaker on and halts with interrupts disabled; the result is the final state of the ports.\<close>

definition die :: "io_state \<Rightarrow> io_state" where
  "die s =
     (let (v, s) = inb 0x61 s;
          port_0x61_val = v AND 0xFC;
          s = wait s;
          s = outb 0x43 0xB6 s;
          count = ucast (CLOCK_TICK_RATE div 2000) :: u16;
          s = outb 0x42 (ucast (count AND 0xFF)) s;
          s = outb 0x42 (ucast (drop_bit 8 count)) s
      in outb 0x61 (port_0x61_val OR 3) s)"

definition panic_func ::
  "'d fpu \<Rightarrow> u8 list \<Rightarrow> u8 list \<Rightarrow> u32 \<Rightarrow> u8 list \<Rightarrow> 'd arg list \<Rightarrow> klog_state \<Rightarrow> klog_state exec" where
  "panic_func fp file func line fmt args s =
     (let s = push_color RED BLACK s
      in andThen (printf fp (cstr ''KERNEL PANIC at %s:%s:%d :'' @ [10]) [A_str (Some file), A_str (Some func), A_word line] s) (\<lambda>s.
         andThen (vprintf fp fmt args s) (\<lambda>s. ret (s\<lparr>kio := die (kio s)\<rparr>))))"

definition kassert_failed :: "'d fpu \<Rightarrow> u8 list \<Rightarrow> u8 list \<Rightarrow> u32 \<Rightarrow> klog_state \<Rightarrow> klog_state exec" where
  "kassert_failed fp statement file line s =
     (let s = push_color RED BLACK s
      in andThen (printf fp (cstr ''assertion \"%s\" failed at %s:%d'' @ [10]) [A_str (Some statement), A_str (Some file), A_word line] s) (\<lambda>s.
         ret (s\<lparr>kio := die (kio s)\<rparr>)))"

lemma die_log:
  "io_log (die s) = io_log s @ [In 0x61 (device s (io_log s) 0x61), Out 0x80 0, Out 0x43 0xB6, Out 0x42 0x54, Out 0x42 0x02,
     Out 0x61 ((device s (io_log s) 0x61 AND 0xFC) OR 3)]"
  by (simp add: die_def inb_def outb_def wait_def CLOCK_TICK_RATE_def Let_def)

end
