(* ===== verification/Kmain.thy ===== *)
theory Kmain
  imports Interrupt Elf Cxxsupport Panic
begin

text \<open>
  The kernel's entry, \<^verbatim>\<open>src/src/core/main.cpp\<close>: the order of initialization, the timer and the
  keyboard, and the start of the user program; with \<^verbatim>\<open>isr_unhandled\<close> of
  \<^verbatim>\<open>descriptor_table.cpp\<close>, which prints. The state is the components' states side by side, over one set of
  ports. The addresses the linker assigns are the fields of an image.
\<close>

section \<open>State\<close>

record kernel =
  k_io :: io_state
  k_dt :: dt_state
  k_log :: klog_state
  k_task :: task_state
  k_cxx :: cxx_state
  last_key :: int
  tick :: u32

record image =
  gdt_at :: u32
  tss_at :: u32
  idt_at :: u32
  isr_at :: "nat \<Rightarrow> u32"
  isr_unhandled_at :: u32
  page_fault_at :: u32
  timer_tick_at :: u32
  isr_kbd_at :: u32
  ctors :: "u32 list"
  task_ctors_at :: u32
  ramdisk_ctors_at :: u32
  dtors :: "u32 list"
  bios_equipment :: u16
  elf_header_at :: u32
  header_at :: u32
  schedule_ra :: u32

text \<open>Running a component over the shared ports.\<close>

definition with_dt :: "(dt_state \<Rightarrow> dt_state) \<Rightarrow> kernel \<Rightarrow> kernel" where
  "with_dt f k = (let d = f ((k_dt k)\<lparr>io := k_io k\<rparr>) in k\<lparr>k_dt := d, k_io := io d\<rparr>)"

definition with_log :: "(klog_state \<Rightarrow> klog_state exec) \<Rightarrow> kernel \<Rightarrow> kernel exec" where
  "with_log f k = andThen (f ((k_log k)\<lparr>kio := k_io k\<rparr>)) (\<lambda>l. ret (k\<lparr>k_log := l, k_io := kio l\<rparr>))"

definition with_task :: "(task_state \<Rightarrow> task_state exec) \<Rightarrow> kernel \<Rightarrow> kernel exec" where
  "with_task f k = andThen (f (k_task k)) (\<lambda>t. ret (k\<lparr>k_task := t\<rparr>))"

definition with_ports :: "(io_state \<Rightarrow> io_state) \<Rightarrow> kernel \<Rightarrow> kernel" where
  "with_ports f k = k\<lparr>k_io := f (k_io k)\<rparr>"

section \<open>Interrupt handlers\<close>

definition isr_unhandled :: "'d fpu \<Rightarrow> Isr_registers_t \<Rightarrow> kernel \<Rightarrow> kernel exec" where
  "isr_unhandled fp reg k =
     andThen (with_log (printf fp (cstr ''unhandled interrupt: int_no=0x%x  err_code=0x%x'' @ [10])
                [A_word (ir_int_no reg), A_word (ir_err_code reg)]) k) (\<lambda>k.
       if ir_int_no reg \<ge> 32 \<and> ir_int_no reg \<le> 47 then ret (with_ports (isr_eoi (sint (ir_int_no reg))) k)
       else halt (Panic ''unhandled interrupt''))"

definition timer_tick :: "u32 \<Rightarrow> Isr_registers_t \<Rightarrow> kernel \<Rightarrow> unit flow \<times> kernel" where
  "timer_tick ra reg k =
     (let k = k\<lparr>tick := tick k + 1\<rparr>;
          k = with_ports (isr_eoi (sint (ir_int_no reg))) k;
          (fl, t) = schedule ra (k_task k)
      in (fl, k\<lparr>k_task := t\<rparr>))"

definition isr_kbd :: "Isr_registers_t \<Rightarrow> kernel \<Rightarrow> kernel" where
  "isr_kbd reg k =
     (let k = k\<lparr>last_key := 0\<rparr>;
          (code, d) = inb 0x60 (k_io k);
          k = k\<lparr>k_io := d, last_key := uint code\<rparr>
      in with_ports (isr_eoi (sint (ir_int_no reg))) k)"

section \<open>Initialization\<close>

text \<open>
  The functions of the constructor table. Two files of the kernel other than \<^verbatim>\<open>kheap.cpp\<close>, whose constructors \<^verbatim>\<open>kheap_init\<close> runs, have
  static objects to construct: \<^verbatim>\<open>task.cpp\<close> the tree \<^verbatim>\<open>rbt_id2task\<close>, and \<^verbatim>\<open>ramdisk.cpp\<close> the object
  \<^verbatim>\<open>ramdisk_fs\<close>, which has no data but the pointer to its virtual functions. A call of another address has no value.
\<close>

definition run_ctor :: "image \<Rightarrow> u32 \<Rightarrow> kernel \<Rightarrow> kernel exec" where
  "run_ctor img f k =
     (let k = k\<lparr>k_cxx := call f 0 (k_cxx k)\<rparr>
      in if f = task_ctors_at img then ret (k\<lparr>k_task := task_static_init (k_task k)\<rparr>)
         else if f = ramdisk_ctors_at img then ret k
         else None)"

definition init_timer :: "u32 \<Rightarrow> kernel \<Rightarrow> kernel" where
  "init_timer timer_tick_addr k =
     (let k = with_dt (isr_register (ISR_GET_NUM_BY_IRQ 0) timer_tick_addr) k;
          divisor = CLOCK_TICK_RATE div KERNEL_HZ;
          k = with_ports (outb 0x43 0b00110110) k;
          k = with_ports wait k;
          k = with_ports (outb 0x40 (ucast (divisor AND 0xFF))) k;
          k = with_ports wait k
      in with_ports (outb 0x40 (ucast (drop_bit 8 divisor AND 0xFF))) k)"

text \<open>
  \<^verbatim>\<open>test_elf\<close>: the user program is the first boot module. The result of \<^verbatim>\<open>load_elf\<close> is
  used as the entry address whatever it is; \<^verbatim>\<open>switch_to_user_mode\<close> does not return.
\<close>

definition test_elf :: "kmalloc_fn \<Rightarrow> image \<Rightarrow> u32 \<Rightarrow> task_state \<Rightarrow> task_state exec" where
  "test_elf km img ptr_mbd s =
     (let mbd = load_Multiboot_info ptr_mbd (kmem (pg s))
      in andThen (kassert (mods_count mbd \<noteq> 0) ''mbd->mods_count'') (\<lambda>_.
         let start_addr = load32 (mods_addr mbd) (kmem (pg s));
             end_addr = load32 (mods_addr mbd + 4) (kmem (pg s))
         in andThen (ramdisk_get_file_node km start_addr end_addr s) (\<lambda>((_, file), s).
            andThen (load_elf km ramdisk_ops (elf_header_at img) (header_at img) (Some file) s) (\<lambda>(r, _, s).
              let entry = word_of_int r;
                  stack = 0xC0000000
              in andThen (get_page km (current_page_dir (pg s)) stack True (pg s)) (\<lambda>(page, p).
                 andThen (entry_alloc (page_of page) True True p) (\<lambda>p.
                   switch_to_user_mode entry (stack + 0x1000 - 4) (s\<lparr>pg := p\<rparr>) \<bind> ret))))))"

text \<open>
  \<^verbatim>\<open>kmain\<close>: it returns to the loader on a wrong magic number; otherwise it ends in user mode, or would
  call \<^verbatim>\<open>cxxsupport_finalize\<close> if the switch came back. \<^verbatim>\<open>Page::init\<close> registers the
  page fault handler. \<^verbatim>\<open>Task::init\<close> calls \<^verbatim>\<open>schedule\<close> with the kernel's task as the only
  one, so the switch resumes here.
\<close>

datatype boot = Bad_magic | User_mode

definition kmain :: "'d fpu \<Rightarrow> kmalloc_fn \<Rightarrow> image \<Rightarrow> u32 \<Rightarrow> u32 \<Rightarrow> kernel \<Rightarrow> (boot \<times> kernel) exec" where
  "kmain fp km img ptr_mbd magic k =
     (let k = with_dt (init_descriptor_tables (gdt_at img) (tss_at img) (idt_at img) (isr_at img) (isr_unhandled_at img)) k
      in andThen (with_log (klog_init fp (bios_equipment img)) k) (\<lambda>k.
         if magic \<noteq> MULTIBOOT_BOOTLOADER_MAGIC then
           andThen (with_log (printf fp (cstr ''invalid magic: 0x%x'' @ [10]) [A_word magic]) k) (\<lambda>k. ret (Bad_magic, k))
         else
           andThen (with_task (\<lambda>s. andThen (page_init km (\<lambda>p. p) ptr_mbd (pg s)) (\<lambda>p. ret (s\<lparr>pg := p\<rparr>))) k) (\<lambda>k.
           let k = with_dt (isr_register 14 (page_fault_at img)) k
           in andThen (cxxsupport_init (run_ctor img) (ctors img) k) (\<lambda>k.
              andThen (with_task (\<lambda>s. andThen (task_init km (schedule_ra img) s) (\<lambda>(_, s). ret s)) k) (\<lambda>k.
              let k = init_timer (timer_tick_at img) k;
                  k = with_dt (isr_register (ISR_GET_NUM_BY_IRQ 1) (isr_kbd_at img)) k;
                  k = k\<lparr>k_task := (k_task k)\<lparr>cpu := (cpu (k_task k))\<lparr>r_eflags := r_eflags (cpu (k_task k)) OR FLAG_IF\<rparr>\<rparr>\<rparr>
              in andThen (with_log (printf fp (cstr ''hello, world!'' @ [10]) []) k) (\<lambda>k.
                 andThen (with_task (test_elf km img ptr_mbd) k) (\<lambda>k. ret (User_mode, k))))))))"

end
