(* ===== verification/Ramdisk_Thms.thy ===== *)
theory Ramdisk_Thms
  imports Ramdisk Task_Thms
begin

text \<open>
  The RAM disk is a file: an array of bytes with a position that never leaves it. The contract of
  such a file is a locale, from which the loader's way of fetching bytes follows once; the RAM disk
  interprets it.
\<close>

section \<open>The contract of a file\<close>

text \<open>
  \<open>valid\<close> is the invariant of an open file, \<open>position\<close> where it stands, \<open>content s f i\<close> its byte \<open>i\<close>.
  Reading into \<open>buf\<close> is only promised when the buffer is apart from the file's own bytes.
\<close>

definition copied :: "u32 \<Rightarrow> nat \<Rightarrow> (nat \<Rightarrow> u8) \<Rightarrow> task_state \<Rightarrow> task_state \<Rightarrow> bool" where
  "copied buf n bytes s s' \<longleftrightarrow>
     s' = s\<lparr>pg := (pg s)\<lparr>kmem := kmem (pg s')\<rparr>\<rparr> \<and>
     (\<forall>i < n. kmem (pg s') (buf + of_nat i) = bytes i) \<and>
     (\<forall>a. a \<notin> bytes_at buf n \<longrightarrow> kmem (pg s') a = kmem (pg s) a)"

lemma copied_frame:
  assumes "copied buf n bytes s s'"
  shows "tasks s' = tasks s" "current_task s' = current_task s" "cpu s' = cpu s" "pg s' = (pg s)\<lparr>kmem := kmem (pg s')\<rparr>"
proof -
  have eq: "s' = s\<lparr>pg := (pg s)\<lparr>kmem := kmem (pg s')\<rparr>\<rparr>" using assms by (simp only: copied_def)
  show "tasks s' = tasks s" "current_task s' = current_task s" "cpu s' = cpu s" "pg s' = (pg s)\<lparr>kmem := kmem (pg s')\<rparr>"
    using arg_cong [OF eq, of tasks] arg_cong [OF eq, of current_task] arg_cong [OF eq, of cpu] arg_cong [OF eq, of pg] by simp_all
qed

locale file_node =
  fixes ops :: "'f file_ops"
    and valid :: "'f \<Rightarrow> bool"
    and size_of :: "'f \<Rightarrow> nat"
    and position :: "'f \<Rightarrow> nat"
    and at :: "'f \<Rightarrow> nat \<Rightarrow> 'f"
    and area :: "'f \<Rightarrow> u32 set"
    and content :: "memory \<Rightarrow> 'f \<Rightarrow> nat \<Rightarrow> u8"
  assumes seek_in: "valid f \<Longrightarrow> unat off < size_of f \<Longrightarrow> fo_seek ops off SEEK_SET f s = (int (unat off), at f (unat off), s)"
    and seek_out: "valid f \<Longrightarrow> unat off < 2 ^ 63 \<Longrightarrow> size_of f \<le> unat off \<Longrightarrow>
      fo_seek ops off SEEK_SET f s = (-1, f, set_errno (errno_code EINVAL) s)"
    and valid_at: "valid f \<Longrightarrow> i \<le> size_of f \<Longrightarrow> valid (at f i)"
    and position_at: "i \<le> size_of f \<Longrightarrow> position (at f i) = i"
    and at_laws: "size_of (at f i) = size_of f" "at (at f i) j = at f j"
      "content m (at f i) = content m f" "area (at f i) = area f"
    and read: "valid f \<Longrightarrow> position f \<le> size_of f \<Longrightarrow> n = min (unat cnt) (size_of f - position f) \<Longrightarrow>
      bytes_at buf n \<inter> area f = {} \<Longrightarrow>
      \<exists>s'. fo_read ops buf cnt f s = (sint (of_nat n :: u32), at f (position f + n), s') \<and>
        copied buf n (\<lambda>i. content (kmem (pg s)) f (position f + i)) s s'"
begin

text \<open>Seeking to \<open>off\<close> and reading \<open>cnt\<close> bytes that are there fetches them.\<close>

lemma fetch:
  assumes "valid f" "unat off < size_of f" "unat off + unat cnt \<le> size_of f" "bytes_at buf (unat cnt) \<inter> area f = {}"
  shows "\<exists>s'. fo_seek ops off SEEK_SET f s = (int (unat off), at f (unat off), s) \<and>
    fo_read ops buf cnt (at f (unat off)) s = (sint cnt, at f (unat off + unat cnt), s') \<and>
    copied buf (unat cnt) (\<lambda>i. content (kmem (pg s)) f (unat off + i)) s s'"
proof -
  let ?f = "at f (unat off)"
  have v: "valid ?f" using assms(1,2) by (simp add: valid_at)
  have "min (unat cnt) (size_of ?f - position ?f) = unat cnt" using assms(2,3) by (simp add: at_laws position_at)
  moreover have "bytes_at buf (unat cnt) \<inter> area ?f = {}" using assms(4) by (simp add: at_laws)
  ultimately obtain s' where "fo_read ops buf cnt ?f s = (sint cnt, at ?f (position ?f + unat cnt), s')"
      "copied buf (unat cnt) (\<lambda>i. content (kmem (pg s)) ?f (position ?f + i)) s s'"
    using read [OF v, of "unat cnt" cnt buf s] assms(2) by (auto simp: at_laws position_at)
  then show ?thesis using seek_in [OF assms(1,2)] assms(2) by (auto simp: at_laws position_at)
qed

text \<open>A file shorter than a structure gives fewer bytes than asked for.\<close>

lemma short_read:
  assumes "valid f" "position f \<le> size_of f" "size_of f - position f < unat cnt" "unat cnt < 2 ^ 31"
    "bytes_at buf (size_of f - position f) \<inter> area f = {}"
  shows "\<exists>r f' s'. fo_read ops buf cnt f s = (r, f', s') \<and> r \<noteq> sint cnt \<and> tasks s' = tasks s \<and> current_task s' = current_task s"
proof -
  let ?n = "size_of f - position f"
  have "min (unat cnt) ?n = ?n" using assms(3) by simp
  from read [OF assms(1,2), of ?n cnt buf s] this assms(5) obtain s'
    where r: "fo_read ops buf cnt f s = (sint (of_nat ?n :: u32), at f (position f + ?n), s')" "copied buf ?n (\<lambda>i. content (kmem (pg s)) f (position f + i)) s s'"
    by auto
  have "unat (of_nat ?n :: u32) = ?n" using assms(3,4) by (intro unat_of_nat_small) simp
  then have "(of_nat ?n :: u32) \<noteq> cnt" using assms(3) by auto
  then have "sint (of_nat ?n :: u32) \<noteq> sint cnt" by (simp add: word_eq_iff_signed [where ?'a = int])
  moreover have "tasks s' = tasks s" "current_task s' = current_task s" using copied_frame [OF r(2)] by simp_all
  ultimately show ?thesis using r(1) by blast
qed

end

section \<open>The RAM disk\<close>

definition rd_len :: "Ramdisk_file_node \<Rightarrow> nat" where
  "rd_len f = unat (rd_end f - rd_start f)"

definition rd_ok :: "Ramdisk_file_node \<Rightarrow> bool" where
  "rd_ok f \<longleftrightarrow> \<not> closed f \<and> unat (cur_offset f) \<le> rd_len f"

definition rd_at :: "Ramdisk_file_node \<Rightarrow> nat \<Rightarrow> Ramdisk_file_node" where
  "rd_at f i = f\<lparr>cur_offset := of_nat i\<rparr>"

definition rd_area :: "Ramdisk_file_node \<Rightarrow> u32 set" where
  "rd_area f = bytes_at (rd_start f) (rd_len f)"

definition rd_byte :: "memory \<Rightarrow> Ramdisk_file_node \<Rightarrow> nat \<Rightarrow> u8" where
  "rd_byte m f i = m (rd_start f + of_nat i)"

lemma rd_len_lt: "rd_len f < 2 ^ 32"
  by (simp add: rd_len_def unat_lt_2_32)

lemma sint_u64: "unat (w :: u64) < 2 ^ 63 \<Longrightarrow> sint w = int (unat w)"
proof -
  assume lt: "unat w < 2 ^ 63"
  then have "int (unat w) < int (2 ^ 63)" by (simp only: of_nat_less_iff)
  then have "uint w < 2 ^ 63" by simp
  then have "take_bit 63 (uint w) = uint w" by (simp add: take_bit_int_eq_self_iff)
  moreover have "\<not> bit (unat w) 63" using lt by (simp add: bit_iff_odd)
  then have "\<not> bit w 63" by (simp add: bit_unsigned_iff)
  ultimately show ?thesis by (simp add: sint_uint signed_take_bit_eq_if_positive bit_uint_iff)
qed

lemma unat_up64 [simp]: "unat (ucast (w :: u32) :: u64) = unat w"
  by (simp add: unsigned_ucast_eq take_bit_nat_eq_self less_le_trans [OF unat_lt_2_32])

lemma ucast_up64_down [simp]: "ucast (ucast (w :: u32) :: u64) = w"
  by (rule bit_eqI) (auto simp: bit_simps)

lemma unat_rd_size: "unat (rd_size f) = rd_len f"
  by (simp add: rd_size_def rd_len_def)

lemma rd_count_min:
  assumes "unat (cur_offset f) \<le> rd_len f"
  shows "unat (rd_count cnt f) = min (unat cnt) (rd_len f - unat (cur_offset f))"
proof -
  let ?b = "rd_size f - cur_offset f"
  have b: "unat ?b = rd_len f - unat (cur_offset f)"
    using assms by (simp add: unat_sub word_le_nat_alt unat_rd_size)
  have "unat (ucast cnt :: u64) < 2 ^ 63" "unat ?b < 2 ^ 63"
    using rd_len_lt [of f] less_trans [OF unat_lt_2_32 [of cnt], of "2 ^ 63"] b by simp_all
  then have lt: "sint (ucast cnt :: u64) < sint ?b \<longleftrightarrow> unat cnt < unat ?b" by (simp only: sint_u64 of_nat_less_iff unat_up64)
  have "unat (ucast ?b :: u32) = unat ?b" using b rd_len_lt [of f] by (simp add: unsigned_ucast_eq take_bit_nat_eq_self)
  then show ?thesis using b lt by (simp add: rd_count_def Let_def)
qed

lemma rd_pos_at: "rd_pos f = rd_start f + of_nat (unat (cur_offset f))"
proof -
  have "(ucast (x + y :: u64) :: u32) = ucast x + ucast y" for x y
    by transfer (simp add: take_bit_eq_mod mod_mod_cancel, rule mod_add_cong, simp_all add: mod_mod_cancel)
  then show ?thesis by (simp add: rd_pos_def)
qed

lemma unat_of_nat64: "n < 2 ^ 63 \<Longrightarrow> unat (of_nat n :: u64) = n"
  by (simp add: unsigned_of_nat take_bit_nat_eq_self)

lemma rd_at_laws:
  "rd_len (rd_at f i) = rd_len f" "rd_at (rd_at f i) j = rd_at f j" "rd_byte m (rd_at f i) = rd_byte m f"
  "rd_area (rd_at f i) = rd_area f" "closed (rd_at f i) = closed f" "rd_start (rd_at f i) = rd_start f"
  by (simp_all add: rd_at_def rd_len_def rd_byte_def rd_area_def fun_eq_iff)

lemma rd_at_offset: "i \<le> rd_len f \<Longrightarrow> unat (cur_offset (rd_at f i)) = i"
  using rd_len_lt [of f] by (simp add: rd_at_def unat_of_nat64)

lemma rd_seek_set:
  assumes "\<not> closed f" "unat off < 2 ^ 63"
  shows "ramdisk_seek off SEEK_SET f s =
    (if unat off < rd_len f then (int (unat off), rd_at f (unat off), s) else (-1, f, set_errno (errno_code EINVAL) s))"
proof -
  have "sint off = int (unat off)" by (rule sint_u64 [OF assms(2)])
  moreover have "sint (rd_size f) = int (rd_len f)"
    using sint_u64 [of "rd_size f"] rd_len_lt [of f] by (simp add: unat_rd_size del: of_nat_unat)
  ultimately show ?thesis using assms(1) by (auto simp: ramdisk_seek_def rd_at_def simp del: of_nat_unat) auto
qed

text \<open>The next bytes lie in the file's memory, and the position advances past them.\<close>

lemma rd_window:
  assumes "n = min (unat cnt) (rd_len f - unat (cur_offset f))"
  shows "bytes_at (rd_pos f) n \<subseteq> rd_area f"
proof
  fix a assume "a \<in> bytes_at (rd_pos f) n"
  then obtain i where i: "a = rd_start f + of_nat (unat (cur_offset f) + i)" "i < n"
    by (auto simp: bytes_at_def rd_pos_at add.assoc)
  then have "unat (cur_offset f) + i < rd_len f" using assms by linarith
  then show "a \<in> rd_area f" unfolding rd_area_def i(1) by (rule in_bytes_at)
qed

lemma rd_advance: "unat c = n \<Longrightarrow> cur_offset f + ucast (c :: u32) = of_nat (unat (cur_offset f) + n)"
proof -
  assume "unat c = n"
  moreover have "(ucast c :: u64) = of_nat (unat c)" by (metis of_nat_unat ucast_id unat_up64)
  ultimately show ?thesis by simp
qed

text \<open>The bytes a read moves, with the position after it; interrupts end as they were.\<close>

lemma rd_read_copies:
  assumes "rd_ok f" "n = min (unat cnt) (rd_len f - unat (cur_offset f))" "bytes_at buf n \<inter> rd_area f = {}"
  shows "\<exists>s'. ramdisk_read buf cnt f s = (sint (of_nat n :: u32), rd_at f (unat (cur_offset f) + n), s') \<and>
    copied buf n (\<lambda>i. rd_byte (kmem (pg s)) f (unat (cur_offset f) + i)) s s'"
proof -
  let ?c = "rd_count cnt f"
  have c: "unat ?c = n" using rd_count_min [of f cnt] assms(1,2) by (simp add: rd_ok_def)
  then have cw: "?c = of_nat n" by auto
  have self: "rd_at f (unat (cur_offset f)) = f" by (simp add: rd_at_def)
  show ?thesis
  proof (cases "?c = 0")
    case True
    then have "n = 0" using c by simp
    then show ?thesis using True assms(1) self by (auto simp: ramdisk_read_def rd_ok_def copied_def)
  next
    case False
    let ?m = "memcpy buf (rd_pos f) ?c (kmem (pg s))"
    let ?s = "s\<lparr>pg := (pg s)\<lparr>kmem := ?m\<rparr>\<rparr>"
    have r: "ramdisk_read buf cnt f s = (sint ?c, rd_at f (unat (cur_offset f) + n), ?s)"
      using assms(1) False rd_advance [OF c]
      by (simp add: ramdisk_read_def rd_ok_def Let_def CLI_SAVE_EFLAGS_def RESTORE_EFLAGS_def rd_at_def)
    have "copy_safe buf (rd_pos f) n" using assms(3) rd_window [OF assms(2)] by (intro copy_safe_disjoint) blast
    then have "?m (buf + of_nat i) = kmem (pg s) (rd_pos f + of_nat i)" if "i < n" for i
      using memcpy_value [of buf "rd_pos f" ?c i "kmem (pg s)"] that c by simp
    then have "copied buf n (\<lambda>i. rd_byte (kmem (pg s)) f (unat (cur_offset f) + i)) s ?s"
      using memcpy_other [of _ buf ?c] c by (auto simp: copied_def rd_byte_def rd_pos_at add.assoc)
    with r cw show ?thesis by auto
  qed
qed

text \<open>The open RAM disk is a file.\<close>

interpretation rd_file: file_node ramdisk_ops rd_ok rd_len "\<lambda>f. unat (cur_offset f)" rd_at rd_area rd_byte
proof unfold_locales
  fix f s
  fix off :: off_t
  assume f: "rd_ok f" "unat off < rd_len f"
  then have "unat off < 2 ^ 63" using rd_len_lt [of f] by simp
  then show "fo_seek ramdisk_ops off SEEK_SET f s = (int (unat off), rd_at f (unat off), s)"
    using f rd_seek_set by (simp add: ramdisk_ops_def rd_ok_def del: of_nat_unat)
next
  fix f off s
  assume "rd_ok f" "unat (off :: off_t) < 2 ^ 63" "rd_len f \<le> unat off"
  then show "fo_seek ramdisk_ops off SEEK_SET f s = (-1, f, set_errno (errno_code EINVAL) s)"
    using rd_seek_set [of f off s] by (simp add: ramdisk_ops_def rd_ok_def)
next
  fix f i
  assume "rd_ok f" "i \<le> rd_len f"
  then show "rd_ok (rd_at f i)" using rd_at_offset [of i f] by (simp add: rd_ok_def rd_at_laws)
next
  fix f n buf s
  fix cnt :: u32
  assume "rd_ok f" "n = min (unat cnt) (rd_len f - unat (cur_offset f))" "bytes_at buf n \<inter> rd_area f = {}"
  then show "\<exists>s'. fo_read ramdisk_ops buf cnt f s = (sint (of_nat n :: u32), rd_at f (unat (cur_offset f) + n), s') \<and>
      copied buf n (\<lambda>i. rd_byte (kmem (pg s)) f (unat (cur_offset f) + i)) s s'"
    using rd_read_copies by (simp add: ramdisk_ops_def)
qed (simp_all add: rd_at_laws rd_at_offset)

section \<open>Properties\<close>

text \<open>
  C29: Reading an open RAM disk delivers the next bytes of its memory, as many as asked for or as there are
  left; the position advances by that number, no byte outside the buffer changes and interrupts are as
  before. On a closed one it fails with \<^verbatim>\<open>EBADF\<close> and moves nothing.
\<close>

theorem ramdisk_read_delivers:
  assumes "unat (cur_offset f) \<le> rd_len f" "n = min (unat cnt) (rd_len f - unat (cur_offset f))" "bytes_at buf n \<inter> rd_area f = {}"
  shows "if closed f then ramdisk_read buf cnt f s = (-1, f, set_errno (errno_code EBADF) s)
    else \<exists>f' s'. ramdisk_read buf cnt f s = (sint (of_nat n :: u32), f', s') \<and> rd_ok f' \<and>
      unat (cur_offset f') = unat (cur_offset f) + n \<and> rd_start f' = rd_start f \<and> rd_end f' = rd_end f \<and>
      s' = s\<lparr>pg := (pg s)\<lparr>kmem := kmem (pg s')\<rparr>\<rparr> \<and>
      (\<forall>i < n. kmem (pg s') (buf + of_nat i) = kmem (pg s) (rd_start f + of_nat (unat (cur_offset f) + i))) \<and>
      (\<forall>a. a \<notin> bytes_at buf n \<longrightarrow> kmem (pg s') a = kmem (pg s) a)"
proof (cases "closed f")
  case True
  then show ?thesis by (simp add: ramdisk_read_def)
next
  case False
  then have ok: "rd_ok f" using assms(1) by (simp add: rd_ok_def)
  from rd_read_copies [OF ok assms(2,3), of s] obtain s' where s':
    "ramdisk_read buf cnt f s = (sint (of_nat n :: u32), rd_at f (unat (cur_offset f) + n), s')"
    "copied buf n (\<lambda>i. rd_byte (kmem (pg s)) f (unat (cur_offset f) + i)) s s'" by blast
  have le: "unat (cur_offset f) + n \<le> rd_len f" using assms(1,2) by simp
  have "rd_ok (rd_at f (unat (cur_offset f) + n))" using le ok rd_at_offset [OF le] by (simp add: rd_ok_def rd_at_laws)
  moreover have "rd_start (rd_at f (unat (cur_offset f) + n)) = rd_start f" "rd_end (rd_at f (unat (cur_offset f) + n)) = rd_end f"
    by (simp_all add: rd_at_def)
  ultimately show ?thesis using False s' rd_at_offset [OF le] unfolding copied_def rd_byte_def by (simp only: if_False) blast
qed

definition small_disk :: Ramdisk_file_node where
  "small_disk = \<lparr>nf_mount_point = 0, rd_start = 0x8000, rd_end = 0x8003, cur_offset = 1, closed = False\<rparr>"

theorem ramdisk_read_delivers_witness:
  "\<exists>f' s'. ramdisk_read 0x9000 10 small_disk three_tasks = (2, f', s') \<and> unat (cur_offset f') = 3 \<and>
    kmem (pg s') 0x9001 = kmem (pg three_tasks) 0x8002"
proof -
  have len: "rd_len small_disk = 3" "unat (cur_offset small_disk) = 1" "\<not> closed small_disk" "rd_start small_disk = 0x8000"
    by (simp_all add: rd_len_def small_disk_def)
  have "bytes_at 0x9000 2 \<inter> rd_area small_disk = {}"
    unfolding rd_area_def len by (intro set_eqI) (simp add: bytes_at_unat)
  then have *: "bytes_at 0x9000 (min (unat (10 :: u32)) (rd_len small_disk - unat (cur_offset small_disk))) \<inter> rd_area small_disk = {}"
    by (simp add: len)
  from ramdisk_read_delivers [OF _ refl *, of three_tasks] obtain f' s' where
    "ramdisk_read 0x9000 10 small_disk three_tasks = (2, f', s')" "unat (cur_offset f') = 3"
    "\<forall>i < 2. kmem (pg s') (0x9000 + of_nat i) = kmem (pg three_tasks) (0x8000 + of_nat (1 + i))"
    by (auto simp: len)
  then show ?thesis by (auto dest: spec [of _ 1])
qed

text \<open>Writing, the other direction.\<close>

lemma rd_write_stores:
  assumes "rd_ok f" "n = min (unat cnt) (rd_len f - unat (cur_offset f))" "bytes_at buf n \<inter> rd_area f = {}"
  shows "\<exists>s'. ramdisk_write buf cnt f s = (sint (of_nat n :: u32), rd_at f (unat (cur_offset f) + n), s') \<and>
    copied (rd_pos f) n (\<lambda>i. kmem (pg s) (buf + of_nat i)) s s'"
proof -
  let ?c = "rd_count cnt f"
  have c: "unat ?c = n" using rd_count_min [of f cnt] assms(1,2) by (simp add: rd_ok_def)
  then have cw: "?c = of_nat n" by auto
  have self: "rd_at f (unat (cur_offset f)) = f" by (simp add: rd_at_def)
  show ?thesis
  proof (cases "?c = 0")
    case True
    then have "n = 0" using c by simp
    then show ?thesis using True assms(1) self by (auto simp: ramdisk_write_def rd_ok_def copied_def)
  next
    case False
    let ?m = "memcpy (rd_pos f) buf ?c (kmem (pg s))"
    let ?s = "s\<lparr>pg := (pg s)\<lparr>kmem := ?m\<rparr>\<rparr>"
    have r: "ramdisk_write buf cnt f s = (sint ?c, rd_at f (unat (cur_offset f) + n), ?s)"
      using assms(1) False rd_advance [OF c]
      by (simp add: ramdisk_write_def rd_ok_def Let_def CLI_SAVE_EFLAGS_def RESTORE_EFLAGS_def rd_at_def)
    have "copy_safe (rd_pos f) buf n" using assms(3) rd_window [OF assms(2)] by (intro copy_safe_disjoint) blast
    then have "copied (rd_pos f) n (\<lambda>i. kmem (pg s) (buf + of_nat i)) s ?s"
      using memcpy_value [of "rd_pos f" buf ?c _ "kmem (pg s)"] memcpy_other [of _ "rd_pos f" ?c] c by (auto simp: copied_def)
    with r cw show ?thesis by auto
  qed
qed

text \<open>
  C14: What is written to the RAM disk is read back: seeking to an offset, writing, seeking there again and
  reading the same number of bytes into another buffer delivers the bytes written, all of them, and no
  memory changes but those bytes of the disk and the second buffer.
\<close>

theorem ramdisk_write_read:
  assumes "rd_ok f" "unat off < rd_len f" "unat off + unat cnt \<le> rd_len f"
    and "bytes_at buf (unat cnt) \<inter> rd_area f = {}" "bytes_at buf' (unat cnt) \<inter> rd_area f = {}"
    and "ramdisk_seek off SEEK_SET f s = (r1, f1, s1)" "ramdisk_write buf cnt f1 s1 = (r2, f2, s2)"
    and "ramdisk_seek off SEEK_SET f2 s2 = (r3, f3, s3)" "ramdisk_read buf' cnt f3 s3 = (r4, f4, s4)"
  shows "r2 = sint cnt \<and> r4 = sint cnt \<and> (\<forall>i < unat cnt. kmem (pg s4) (buf' + of_nat i) = kmem (pg s) (buf + of_nat i)) \<and>
    (\<forall>a. a \<notin> bytes_at (rd_start f + of_nat (unat off)) (unat cnt) \<union> bytes_at buf' (unat cnt) \<longrightarrow> kmem (pg s4) a = kmem (pg s) a)"
proof -
  have off: "unat off < 2 ^ 63" using assms(2) rd_len_lt [of f] by simp
  have le: "unat off \<le> rd_len f" using assms(2) by simp
  have f1: "f1 = rd_at f (unat off)" "s1 = s" using assms(1,2,6) rd_seek_set [OF _ off, of f s] by (auto simp: rd_ok_def)
  have ok1: "rd_ok f1" and o1: "unat (cur_offset f1) = unat off"
    using assms(1) le rd_at_offset [OF le] by (auto simp: f1 rd_ok_def rd_at_laws)
  have n1: "unat cnt = min (unat cnt) (rd_len f1 - unat (cur_offset f1))" using assms(3) by (simp add: o1) (simp add: f1 rd_at_laws)
  have a1: "rd_area f1 = rd_area f" by (simp add: f1 rd_at_laws)
  from rd_write_stores [OF ok1 n1, of buf s] assms(4,7) have w: "r2 = sint cnt" "f2 = rd_at f1 (unat off + unat cnt)"
      "copied (rd_pos f1) (unat cnt) (\<lambda>i. kmem (pg s) (buf + of_nat i)) s s2"
    by (auto simp: a1 o1 f1(2))
  have f2: "\<not> closed f2" "rd_at f2 (unat off) = f1" "rd_len f2 = rd_len f" using ok1 by (auto simp: w(2) f1 rd_ok_def rd_at_laws)
  have f3: "f3 = f1" "s3 = s2" using assms(2,8) rd_seek_set [OF f2(1) off, of s2] f2 by auto
  from rd_read_copies [OF ok1 n1, of buf' s2] assms(5,9) have r: "r4 = sint cnt"
      "copied buf' (unat cnt) (\<lambda>i. rd_byte (kmem (pg s2)) f1 (unat (cur_offset f1) + i)) s2 s4"
    by (auto simp: a1 f3)
  have "kmem (pg s4) (buf' + of_nat i) = kmem (pg s) (buf + of_nat i)" if "i < unat cnt" for i
    using w(3) r(2) that by (simp add: copied_def rd_byte_def rd_pos_at add.assoc)
  moreover have "rd_pos f1 = rd_start f + of_nat (unat off)" by (simp add: rd_pos_at o1) (simp add: f1 rd_at_def)
  then have "kmem (pg s4) a = kmem (pg s) a" if "a \<notin> bytes_at (rd_start f + of_nat (unat off)) (unat cnt) \<union> bytes_at buf' (unat cnt)" for a
    using w(3) r(2) that by (auto simp: copied_def)
  ultimately show ?thesis using w(1) r(1) by blast
qed

theorem ramdisk_write_read_witness:
  "\<exists>r1 f1 s1 f2 s2 r3 f3 s3 f4 s4. ramdisk_seek 1 SEEK_SET small_disk three_tasks = (r1, f1, s1) \<and>
    ramdisk_write 0x7000 2 f1 s1 = (2, f2, s2) \<and> ramdisk_seek 1 SEEK_SET f2 s2 = (r3, f3, s3) \<and>
    ramdisk_read 0x9000 2 f3 s3 = (2, f4, s4) \<and> kmem (pg s4) 0x9001 = kmem (pg three_tasks) 0x7001"
proof -
  have ok: "rd_ok small_disk" "unat (1 :: off_t) < rd_len small_disk" "unat (1 :: off_t) + unat (2 :: u32) \<le> rd_len small_disk"
    by (simp_all add: rd_ok_def rd_len_def small_disk_def)
  have area: "rd_area small_disk = bytes_at 0x8000 3" by (simp add: rd_area_def rd_len_def small_disk_def)
  have dis: "bytes_at 0x7000 (unat (2 :: u32)) \<inter> rd_area small_disk = {}" "bytes_at 0x9000 (unat (2 :: u32)) \<inter> rd_area small_disk = {}"
    unfolding area by (intro set_eqI, simp add: bytes_at_unat)+
  obtain r1 f1 s1 where 1: "ramdisk_seek 1 SEEK_SET small_disk three_tasks = (r1, f1, s1)" by (metis surj_pair)
  obtain r2 f2 s2 where 2: "ramdisk_write 0x7000 2 f1 s1 = (r2, f2, s2)" by (metis surj_pair)
  obtain r3 f3 s3 where 3: "ramdisk_seek 1 SEEK_SET f2 s2 = (r3, f3, s3)" by (metis surj_pair)
  obtain r4 f4 s4 where 4: "ramdisk_read 0x9000 2 f3 s3 = (r4, f4, s4)" by (metis surj_pair)
  from ramdisk_write_read [OF ok dis 1 2 3 4] have "r2 = 2" "r4 = 2"
    and all: "\<forall>i < 2. kmem (pg s4) (0x9000 + of_nat i) = kmem (pg three_tasks) (0x7000 + of_nat i)" by simp_all
  moreover have "kmem (pg s4) 0x9001 = kmem (pg three_tasks) 0x7001" using all [rule_format, of 1] by simp
  ultimately show ?thesis using 1 2 3 4 by auto
qed

end
