(* ===== verification/Elf_Thms.thy ===== *)
theory Elf_Thms
  imports Elf Ramdisk_Thms Page_Heap Page_Frames
begin

text \<open>
  The loader: which files it refuses and with which error, what memory and page tables hold after a
  segment was loaded, and what the handling of the space behind a segment's bytes does to the
  page they share.
\<close>

section \<open>Structures read from a file\<close>

lemma load32_copied:
  assumes "\<forall>i < n. m (a + of_nat i) = m' (b + of_nat i)" "k + 4 \<le> n"
  shows "load32 (a + of_nat k) m = load32 (b + of_nat k) m'"
  using assms(1) [rule_format, of k] assms(1) [rule_format, of "k + 1"] assms(1) [rule_format, of "k + 2"]
    assms(1) [rule_format, of "k + 3"] assms(2)
  by (simp add: load32_def ac_simps)

lemma load16_copied:
  assumes "\<forall>i < n. m (a + of_nat i) = m' (b + of_nat i)" "k + 2 \<le> n"
  shows "load16 (a + of_nat k) m = load16 (b + of_nat k) m'"
  using assms(1) [rule_format, of k] assms(1) [rule_format, of "k + 1"] assms(2)
  by (simp add: load16_def ac_simps)

lemma load_Ehdr_copied:
  assumes "\<forall>i < 52. m (a + of_nat i) = m' (b + of_nat i)"
  shows "load_Ehdr a m = load_Ehdr b m'"
  using assms load32_copied [OF assms, of 20] load32_copied [OF assms, of 24] load32_copied [OF assms, of 28]
    load32_copied [OF assms, of 32] load32_copied [OF assms, of 36] load16_copied [OF assms, of 16]
    load16_copied [OF assms, of 18] load16_copied [OF assms, of 40] load16_copied [OF assms, of 42]
    load16_copied [OF assms, of 44] load16_copied [OF assms, of 46] load16_copied [OF assms, of 48] load16_copied [OF assms, of 50]
  by (simp add: load_Ehdr_def EI_NIDENT_def)

lemma load_Phdr_copied:
  assumes "\<forall>i < 32. m (a + of_nat i) = m' (b + of_nat i)"
  shows "load_Phdr a m = load_Phdr b m'"
  using load32_copied [OF assms, of 0] load32_copied [OF assms, of 4] load32_copied [OF assms, of 8]
    load32_copied [OF assms, of 12] load32_copied [OF assms, of 16] load32_copied [OF assms, of 20]
    load32_copied [OF assms, of 24] load32_copied [OF assms, of 28]
  by (simp add: load_Phdr_def)

section \<open>Refused files\<close>

text \<open>
  C30: A file \<^verbatim>\<open>load_elf\<close> cannot use is refused before anything is mapped: a null pointer
  with \<^verbatim>\<open>ENOENT\<close>, a file shorter than an ELF header with \<^verbatim>\<open>EIO\<close>, a header that is not
  one of a 32-bit little-endian i386 executable with program headers with \<^verbatim>\<open>ENOEXEC\<close>; the result is -1, and
  page tables, frames and the bytes outside the header buffer are as before.
\<close>

theorem load_elf_refuses:
  assumes "f = None \<and> e = ENOENT \<or>
      (\<exists>d. f = Some d \<and> rd_ok d \<and> cur_offset d = 0 \<and> bytes_at eh 52 \<inter> rd_area d = {} \<and>
        (rd_len d < 52 \<and> e = EIO \<or>
         52 \<le> rd_len d \<and> \<not> is_header_valid (load_Ehdr (rd_start d) (kmem (pg s))) \<and> e = ENOEXEC))"
  shows "\<exists>f' s'. load_elf km ramdisk_ops eh ph f s = ret (-1, f', s') \<and>
    errno (tasks s' (current_task s')) = errno_code e \<and> current_task s' = current_task s \<and>
    pg s' = (pg s)\<lparr>kmem := kmem (pg s')\<rparr> \<and> (\<forall>a. a \<notin> bytes_at eh 52 \<longrightarrow> kmem (pg s') a = kmem (pg s) a)"
proof (cases f)
  case None
  then show ?thesis using assms by (simp add: load_elf_def ERROR_RETURN_def)
next
  case (Some d)
  then have d: "rd_ok d" "cur_offset d = 0" "bytes_at eh 52 \<inter> rd_area d = {}" using assms by auto
  let ?n = "min 52 (rd_len d)"
  have "bytes_at eh ?n \<subseteq> bytes_at eh 52" by (auto simp: bytes_at_def)
  then have dis: "bytes_at eh ?n \<inter> rd_area d = {}" and out: "a \<notin> bytes_at eh 52 \<Longrightarrow> a \<notin> bytes_at eh ?n" for a using d(3) by blast+
  have n: "?n = min (unat sizeof_Elf32_Ehdr) (rd_len d - unat (cur_offset d))" by (simp add: d(2) sizeof_Elf32_Ehdr_def)
  from rd_read_copies [OF d(1) n dis, of s] obtain s1 where s1:
    "ramdisk_read eh sizeof_Elf32_Ehdr d s = (sint (of_nat ?n :: u32), rd_at d ?n, s1)"
    "copied eh ?n (\<lambda>i. rd_byte (kmem (pg s)) d i) s s1" by (auto simp: d(2))
  have frame: "pg (set_errno x s1) = (pg s)\<lparr>kmem := kmem (pg s1)\<rparr>" "current_task (set_errno x s1) = current_task s"
      "a \<notin> bytes_at eh 52 \<Longrightarrow> kmem (pg s1) a = kmem (pg s) a" for x a
    using copied_frame [OF s1(2)] s1(2) out by (simp_all add: copied_def)
  have "load_elf km ramdisk_ops eh ph f s = ret (-1, Some (rd_at d ?n), set_errno (errno_code e) s1)"
  proof (cases "rd_len d < 52")
    case True
    then have "unat (of_nat ?n :: u32) \<noteq> unat sizeof_Elf32_Ehdr" by (simp add: unat_of_nat_small sizeof_Elf32_Ehdr_def)
    then have "(of_nat ?n :: u32) \<noteq> sizeof_Elf32_Ehdr" by metis
    then have "sint (of_nat ?n :: u32) \<noteq> sint sizeof_Elf32_Ehdr" by (simp add: word_eq_iff_signed [where ?'a = int])
    then show ?thesis using Some True assms s1(1)
      by (auto simp: load_elf_def ramdisk_ops_def ERROR_RETURN_def)
  next
    case False
    then have "load_Ehdr eh (kmem (pg s1)) = load_Ehdr (rd_start d) (kmem (pg s))"
      using s1(2) by (intro load_Ehdr_copied) (simp add: copied_def rd_byte_def)
    then show ?thesis using Some False assms s1(1)
      by (auto simp: load_elf_def ramdisk_ops_def ERROR_RETURN_def sizeof_Elf32_Ehdr_def)
  qed
  then show ?thesis using frame set_errno_errno [of "errno_code e" s1] copied_frame(2) [OF s1(2)] by auto
qed

theorem load_elf_refuses_witness:
  "\<exists>f' s'. load_elf (kmalloc_at 1) ramdisk_ops 0x9000 0xA000 (Some (rd_at small_disk 0)) three_tasks = ret (-1, f', s') \<and>
    errno (tasks s' 0x1000) = 5"
proof -
  have d: "rd_ok (rd_at small_disk 0)" "cur_offset (rd_at small_disk 0) = 0" "rd_len (rd_at small_disk 0) < 52"
    by (simp_all add: rd_ok_def rd_at_def rd_len_def small_disk_def)
  have "rd_area (rd_at small_disk 0) = bytes_at 0x8000 3" by (simp add: rd_area_def rd_len_def small_disk_def rd_at_def)
  then have "bytes_at 0x9000 52 \<inter> rd_area (rd_at small_disk 0) = {}"
    by (intro set_eqI) (simp add: bytes_at_unat)
  with d have "Some (rd_at small_disk 0) = None \<and> EIO = ENOENT \<or>
      (\<exists>d. Some (rd_at small_disk 0) = Some d \<and> rd_ok d \<and> cur_offset d = 0 \<and> bytes_at 0x9000 52 \<inter> rd_area d = {} \<and>
        (rd_len d < 52 \<and> EIO = EIO \<or>
         52 \<le> rd_len d \<and> \<not> is_header_valid (load_Ehdr (rd_start d) (kmem (pg three_tasks))) \<and> EIO = ENOEXEC))" by auto
  from load_elf_refuses [OF this, of "kmalloc_at 1" "0xA000"] show ?thesis by (auto simp: three_tasks_def)
qed

section \<open>The space behind a segment's bytes\<close>

text \<open>The last page of a segment whose bytes end in it is cleared from its start.\<close>

lemma memset_zero: "a \<in> bytes_at d (unat n) \<Longrightarrow> memset d 0 n m a = 0"
  by (simp add: memset_def rep_stosb_value)

lemma page_start_le: "(a :: u32) AND 0xFFFFF000 \<le> a"
  by (simp add: word_and_le2)

lemma in_last_page:
  assumes "se AND 0xFFFFF000 \<le> a" "a < (se :: u32)"
  shows "a \<in> bytes_at (se AND 0xFFFFF000) (unat (se - (se AND 0xFFFFF000)))"
proof -
  let ?p = "se AND 0xFFFFF000"
  have "unat (se - ?p) = unat se - unat ?p" using page_start_le [of se] by (simp add: unat_diff word_le_nat_alt)
  moreover have "unat ?p \<le> unat a" "unat a < unat se" using assms by (simp_all add: word_le_nat_alt word_less_nat_alt)
  ultimately show ?thesis using less_imp_le [OF unat_lt_2_32 [of se]] by (subst bytes_at_unat) simp_all
qed

text \<open>
  C31: The loader destroys bytes it has loaded. When the space behind the bytes of a segment ends in the
  middle of the page those bytes end in, \<^verbatim>\<open>load_elf\<close> clears that page from its beginning, so
  that every byte of the segment in this page reads zero afterwards, the ones just copied from the file
  included.
\<close>

theorem load_bss_clears_data:
  assumes "load_bss km ss se s = ret s'" "ss < se" "se \<le> 0xFFFFF000" "se AND 0xFFFFF000 \<noteq> se"
    and "ss AND 0xFFFFF000 = se AND 0xFFFFF000" "se AND 0xFFFFF000 \<le> a" "a < se"
  shows "kmem (pg s') a = 0"
proof -
  let ?ea = "se AND 0xFFFFF000" and ?sa = "get_aligned ss 12"
  have "unat ss < unat se" "unat se \<le> 0xFFFFF000" using assms(2,3) by (simp_all add: word_less_nat_alt word_le_nat_alt)
  then have "unat ss \<le> unat ?sa" by (intro get_aligned_bounds) simp
  moreover have "unat ?ea \<le> unat ss" using page_start_le [of ss] assms(5) by (simp add: word_le_nat_alt)
  ultimately have le: "\<not> ?sa < ?ea" by (simp add: word_less_nat_alt)
  have lazy: "lazy_alloc_interval km d ?sa ?ea True True True p = ret p" for d p
    using le by (simp add: lazy_alloc_interval_def kassert_def page_aligned_get_aligned [unfolded page_aligned_def] and.assoc)
  obtain s1 s2 where "clear_in_page km ?ea (se - ?ea) s1 = ret s2" "s' = s2"
    using assms(1,2,4) by (auto simp: load_bss_def lazy Let_def)
  then obtain m where "kmem (pg s') = memset ?ea 0 (se - ?ea) m" by (auto simp: clear_in_page_def)
  then show ?thesis using memset_zero [OF in_last_page [OF assms(6,7)]] by simp
qed

text \<open>A segment of 0x500 bytes, 0x123 of them in the file, at the start of a page that is already mapped.\<close>

definition one_page :: task_state where
  "one_page = three_tasks\<lparr>pg := boot_pages\<lparr>dirs := (\<lambda>_. \<lparr>tables = (\<lambda>i. 0x5000), dentries = (\<lambda>_. zero_dentry), phyaddr = 0x9000\<rparr>),
     tabs := (\<lambda>_ _. zero_entry\<lparr>present := True, addr := 7\<rparr>), kmem := (\<lambda>_. 0xAB)\<rparr>\<rparr>"

theorem load_bss_clears_data_witness:
  "\<exists>s'. load_bss (kmalloc_at 1) 0x400123 0x400500 one_page = ret s' \<and> kmem (pg one_page) 0x400000 = 0xAB \<and> kmem (pg s') 0x400000 = 0"
proof -
  have "\<exists>s'. load_bss (kmalloc_at 1) 0x400123 0x400500 one_page = ret s'"
    by (simp add: load_bss_def clear_in_page_def get_page_present one_page_def three_tasks_def boot_pages_def entry_alloc_cases
      upd_ent_def ent_def lazy_alloc_interval_def kassert_def get_aligned_def zero_entry_def page_of_def)
  then obtain s' where s': "load_bss (kmalloc_at 1) 0x400123 0x400500 one_page = ret s'" by blast
  have "kmem (pg s') 0x400000 = 0" by (rule load_bss_clears_data [OF s']) simp_all
  then show ?thesis using s' by (auto simp: one_page_def)
qed

section \<open>A loaded segment\<close>

text \<open>A page of the running program: present, writable and open to user mode.\<close>

definition user_page :: "entry_ref \<Rightarrow> page_state \<Rightarrow> bool" where
  "user_page r p \<longleftrightarrow> present (ent r p) \<and> rw (ent r p) \<and> user (ent r p)"

definition page_ref :: "u32 \<Rightarrow> page_state \<Rightarrow> entry_ref" where
  "page_ref a p = (tables (dirs p (current_page_dir p)) (tb_idx a), tb_offset a)"

text \<open>Room for a segment: its tables exist, its entries have no frame and there are enough free frames.\<close>

definition room_for :: "u32 \<Rightarrow> u32 \<Rightarrow> page_state \<Rightarrow> bool" where
  "room_for b e p \<longleftrightarrow> unat e - unat b \<le> 4096 * unat (nframes p) \<and>
     (\<forall>i. b \<le> i \<and> i < e \<longrightarrow> tables (dirs p (current_page_dir p)) (tb_idx i) \<noteq> 0 \<and>
       (addr (ent (page_ref i p) p) \<noteq> 0 \<longrightarrow> present (ent (page_ref i p) p)))"

lemma same_dirs_popped: "same_dirs p (popped r u w f p)"
  by (simp add: popped_def same_dirs_def upd_ent_def kheap_state.truncate_def)

lemma entry_alloc_user:
  assumes "nframes p \<noteq> 0" "addr (ent r p) \<noteq> 0 \<longrightarrow> present (ent r p)"
  shows "\<exists>p'. entry_alloc r True True p = ret p' \<and> same_dirs p p' \<and> user_page r p' \<and> nframes p - 1 \<le> nframes p' \<and>
    (\<forall>q. user_page q p \<longrightarrow> user_page q p') \<and> (\<forall>q. (addr (ent q p) \<noteq> 0 \<longrightarrow> present (ent q p)) \<longrightarrow> (addr (ent q p') \<noteq> 0 \<longrightarrow> present (ent q p')))"
proof (cases "addr (ent r p) = 0")
  case True
  then show ?thesis using assms(1) by (auto simp: entry_alloc_cases same_dirs_popped user_page_def)
next
  case False
  have "nframes p - 1 \<le> nframes p" using assms(1) by (simp add: word_le_nat_alt unat_minus_1)
  then show ?thesis using False assms by (auto simp: entry_alloc_cases same_dirs_def user_page_def ent_upd_ent)
qed

lemma alloc_pages:
  assumes "unat e + 0x1000 \<le> 2 ^ 32" "4096 dvd unat b" "4096 dvd unat e" "room_for b e p" "d = current_page_dir p"
  shows "\<exists>p'. page_loop (\<lambda>i s. andThen (get_page km d i True s) (\<lambda>(r, s).
      andThen (entry_alloc (page_of r) True True s) (\<lambda>s. ret (invlpg i s)))) b e p = ret p' \<and> same_dirs p p' \<and>
    (\<forall>q. user_page q p \<longrightarrow> user_page q p') \<and>
    (\<forall>j. b \<le> j \<and> j < e \<and> 4096 dvd unat j \<longrightarrow> user_page (page_ref j p) p')"
  using assms
proof (induction "unat e - unat b" arbitrary: b p rule: less_induct)
  case less
  show ?case
  proof (cases "b < e")
    case False
    then show ?thesis by auto
  next
    case True
    let ?F = "\<lambda>i s. andThen (get_page km d i True s) (\<lambda>(r, s).
      andThen (entry_alloc (page_of r) True True s) (\<lambda>s. ret (invlpg i s)))"
    let ?r = "page_ref b p"
    have lt: "unat b < unat e" using True by (simp add: word_less_nat_alt)
    have room: "unat e - unat b \<le> 4096 * unat (nframes p)" "tables (dirs p d) (tb_idx b) \<noteq> 0"
        "addr (ent ?r p) \<noteq> 0 \<longrightarrow> present (ent ?r p)"
      using less.prems(4,5) True by (auto simp: room_for_def)
    have nf: "nframes p \<noteq> 0" using room(1) lt by auto
    from entry_alloc_user [OF nf room(3)] obtain p1 where p1: "entry_alloc ?r True True p = ret p1" "same_dirs p p1" "user_page ?r p1"
        "nframes p - 1 \<le> nframes p1" "\<forall>q. user_page q p \<longrightarrow> user_page q p1"
        "\<forall>q. (addr (ent q p) \<noteq> 0 \<longrightarrow> present (ent q p)) \<longrightarrow> (addr (ent q p1) \<noteq> 0 \<longrightarrow> present (ent q p1))" by blast
    let ?p = "invlpg b p1"
    have step: "?F b p = ret ?p" using p1(1) room(2) less.prems(5) by (simp add: get_page_present page_ref_def page_of_def)
    have same: "same_dirs p ?p" using p1(2) by simp
    then have ref: "page_ref j ?p = page_ref j p" and dir: "dirs ?p = dirs p" "current_page_dir ?p = current_page_dir p" for j
      by (simp_all add: same_dirs_def page_ref_def)
    have up: "user_page q ?p = user_page q p1" "ent q ?p = ent q p1" "nframes ?p = nframes p1" for q
      by (simp_all add: user_page_def)
    have b: "unat (b + 0x1000) = unat b + 0x1000"
      using lt less.prems(1) by (intro unat_add [where y = "0x1000", simplified]) simp
    have "unat (nframes p - 1) = unat (nframes p) - 1" using nf by (rule unat_minus_1)
    then have "unat (nframes p) - 1 \<le> unat (nframes p1)" using p1(4) by (simp add: word_le_nat_alt)
    then have "unat e - unat (b + 0x1000) \<le> 4096 * unat (nframes ?p)" using room(1) lt by (simp add: b up)
    moreover have "b \<le> i" if "b + 0x1000 \<le> i" for i using that by (simp add: word_le_nat_alt b)
    ultimately have room': "room_for (b + 0x1000) e ?p"
      using less.prems(4) p1(6) unfolding room_for_def ref dir up by blast
    have "4096 dvd unat (b + 0x1000)" using less.prems(2) by (simp add: b)
    then have "\<exists>p'. page_loop ?F (b + 0x1000) e ?p = ret p' \<and> same_dirs ?p p' \<and> (\<forall>q. user_page q ?p \<longrightarrow> user_page q p') \<and>
        (\<forall>j. b + 0x1000 \<le> j \<and> j < e \<and> 4096 dvd unat j \<longrightarrow> user_page (page_ref j ?p) p')"
      using lt b less.prems(1,3,5) room' dir by (intro less.hyps) auto
    then obtain p' where p': "page_loop ?F (b + 0x1000) e ?p = ret p'" "same_dirs ?p p'" "\<forall>q. user_page q p1 \<longrightarrow> user_page q p'"
        "\<forall>j. b + 0x1000 \<le> j \<and> j < e \<and> 4096 dvd unat j \<longrightarrow> user_page (page_ref j p) p'" by (auto simp: up ref)
    have "user_page (page_ref j p) p'" if j: "b \<le> j" "j < e" "4096 dvd unat j" for j
    proof (cases "b + 0x1000 \<le> j")
      case True
      then show ?thesis using p'(4) j by blast
    next
      case False
      then have "unat b \<le> unat j" "unat j < unat b + 4096" using j(1) b by (simp_all add: word_le_nat_alt)
      then have "unat j = unat b" using j(3) less.prems(2) by (auto elim!: dvdE)
      then have "j = b" by (simp add: word_unat_eq_iff)
      then show ?thesis using p1(3) p'(3) by blast
    qed
    then show ?thesis using True step p' same_dirs_trans [OF same p'(2)] p1(5) by (auto simp: page_loop_step)
  qed
qed

text \<open>The end of a segment in user memory, rounded up to whole pages.\<close>

definition seg_begin :: "Elf32_Phdr \<Rightarrow> u32" where "seg_begin h = p_vaddr h AND 0xFFFFF000"

definition seg_end :: "Elf32_Phdr \<Rightarrow> u32" where "seg_end h = get_aligned (p_vaddr h + p_memsz h) 12"

lemma seg_bounds:
  assumes "unat (p_vaddr h) + unat (p_memsz h) + 0x2000 \<le> 2 ^ 32"
  shows "unat (p_vaddr h + p_memsz h) = unat (p_vaddr h) + unat (p_memsz h)" "unat (seg_end h) + 0x1000 \<le> 2 ^ 32"
    "unat (p_vaddr h) + unat (p_memsz h) \<le> unat (seg_end h)" "4096 dvd unat (seg_begin h)" "4096 dvd unat (seg_end h)"
proof -
  show fin: "unat (p_vaddr h + p_memsz h) = unat (p_vaddr h) + unat (p_memsz h)" using assms by (intro unat_add) simp
  then have "unat (p_vaddr h + p_memsz h) + 2 ^ 12 \<le> 2 ^ 32" using assms by simp
  note g = get_aligned_bounds [OF this]
  show "unat (seg_end h) + 0x1000 \<le> 2 ^ 32" "unat (p_vaddr h) + unat (p_memsz h) \<le> unat (seg_end h)" "4096 dvd unat (seg_end h)"
    using g fin assms by (simp_all add: seg_end_def)
  show "4096 dvd unat (seg_begin h)" by (simp add: seg_begin_def unat_and_page_mask)
qed

lemma drop_page_mask: "drop_bit 12 (a AND 0xFFFFF000 :: u32) = drop_bit 12 a"
  unfolding and_page_mask by (rule bit_eqI) (auto simp: bit_simps dest: bit_imp_le_length)

lemma page_ref_mask: "page_ref (a AND 0xFFFFF000) p = page_ref a p"
  by (simp add: page_ref_def tb_idx_def tb_offset_def drop_page_mask del: drop_bit_and)

lemma kmem_only:
  "user_page r (p\<lparr>kmem := m\<rparr>) = user_page r p" "page_ref a (p\<lparr>kmem := m\<rparr>) = page_ref a p" "room_for b e (p\<lparr>kmem := m\<rparr>) = room_for b e p"
  "current_page_dir (p\<lparr>kmem := m\<rparr>) = current_page_dir p" "USER_MEM_LOW (p\<lparr>kmem := m\<rparr>) = USER_MEM_LOW p" "USER_MEM_HIGH (p\<lparr>kmem := m\<rparr>) = USER_MEM_HIGH p"
  by (simp_all add: user_page_def page_ref_def room_for_def ent_def)

lemma same_dirs_kmem: "same_dirs p p' \<Longrightarrow> kmem p' = kmem p"
  by (simp add: same_dirs_def kheap_state.truncate_def)

lemma alloc_interval_user:
  assumes "unat (p_vaddr h) + unat (p_memsz h) + 0x2000 \<le> 2 ^ 32" "room_for (seg_begin h) (seg_end h) p"
  shows "\<exists>p'. alloc_interval km (current_page_dir p) (seg_begin h) (seg_end h) True True p = ret p' \<and> same_dirs p p' \<and>
    (\<forall>a. p_vaddr h \<le> a \<and> a < p_vaddr h + p_memsz h \<longrightarrow> user_page (page_ref a p) p')"
proof -
  note b = seg_bounds [OF assms(1)]
  from alloc_pages [OF b(2,4,5) assms(2) refl, of km] obtain p' where
    p': "alloc_interval km (current_page_dir p) (seg_begin h) (seg_end h) True True p = ret p'" "same_dirs p p'"
      "\<forall>j. seg_begin h \<le> j \<and> j < seg_end h \<and> 4096 dvd unat j \<longrightarrow> user_page (page_ref j p) p'"
    by (auto simp: alloc_interval_def kassert_def seg_begin_def seg_end_def and.assoc page_aligned_get_aligned [unfolded page_aligned_def])
  have "user_page (page_ref a p) p'" if a: "p_vaddr h \<le> a" "a < p_vaddr h + p_memsz h" for a
  proof -
    let ?j = "a AND 0xFFFFF000"
    have "unat (p_vaddr h) div 4096 * 4096 \<le> unat a div 4096 * 4096" using a(1) by (intro mult_le_mono1 div_le_mono) (simp add: word_le_nat_alt)
    then have "seg_begin h \<le> ?j" by (simp add: seg_begin_def word_le_nat_alt unat_and_page_mask)
    moreover have "?j < seg_end h"
      using page_start_le [of a] a(2) b(1,3) by (simp add: word_le_nat_alt word_less_nat_alt)
    moreover have "4096 dvd unat ?j" by (simp add: unat_and_page_mask)
    ultimately show ?thesis using p'(3) page_ref_mask by metis
  qed
  with p' show ?thesis by blast
qed

lemma load_data_alloc:
  assumes "rd_ok f" "p_memsz h \<noteq> 0" "p_filesz h = p_memsz h" "unat (p_offset h) + unat (p_memsz h) \<le> rd_len f"
    and "bytes_at (p_vaddr h) (unat (p_memsz h)) \<inter> rd_area f = {}"
    and p': "alloc_interval km (current_page_dir (pg s)) (seg_begin h) (seg_end h) True True (pg s) = ret p'"
  shows "\<exists>f' s'. load_data km ramdisk_ops h f s = ret (Inr (p_vaddr h + p_memsz h), f', s') \<and>
    copied (p_vaddr h) (unat (p_memsz h)) (\<lambda>i. rd_byte (kmem p') f (unat (p_offset h) + i)) (s\<lparr>pg := p'\<rparr>) s'"
proof -
  have pos: "0 < unat (p_memsz h)" using assms(2) by (simp add: unat_gt_0)
  have off: "unat (ucast (p_offset h) :: off_t) < rd_len f" using assms(4) pos by simp
  let ?s = "s\<lparr>pg := p'\<rparr>"
  from rd_file.fetch [OF assms(1) off, of "p_memsz h" "p_vaddr h" ?s] assms(4,5) obtain s' where s':
    "ramdisk_read (p_vaddr h) (p_memsz h) (rd_at f (unat (p_offset h))) ?s = (sint (p_memsz h), rd_at f (unat (p_offset h) + unat (p_memsz h)), s')"
    "copied (p_vaddr h) (unat (p_memsz h)) (\<lambda>i. rd_byte (kmem p') f (unat (p_offset h) + i)) ?s s'"
    by (auto simp: ramdisk_ops_def)
  have seek: "ramdisk_seek (ucast (p_offset h)) SEEK_SET f s = (int (unat (p_offset h)), rd_at f (unat (p_offset h)), s)"
    using rd_file.seek_in [OF assms(1) off, of s] by (simp add: ramdisk_ops_def del: of_nat_unat)
  have "load_data km ramdisk_ops h f s = ret (Inr (p_vaddr h + p_memsz h), rd_at f (unat (p_offset h) + unat (p_memsz h)), s')"
    using assms(2,3) seek s'(1) p' unfolding seg_begin_def seg_end_def
    by (simp add: load_data_def ramdisk_ops_def cmin_def Let_def del: of_nat_unat)
  then show ?thesis using s'(2) by blast
qed

text \<open>Reading a structure from the start or another place of the file.\<close>

lemma fetch_word_size:
  assumes "rd_ok f" "unat off + unat cnt \<le> rd_len f" "0 < unat cnt" "bytes_at buf (unat cnt) \<inter> rd_area f = {}" "unat off < 2 ^ 32"
  shows "\<exists>s'. ramdisk_seek off SEEK_SET f s = (int (unat off), rd_at f (unat off), s) \<and>
    ramdisk_read buf cnt (rd_at f (unat off)) s = (sint cnt, rd_at f (unat off + unat cnt), s') \<and>
    copied buf (unat cnt) (\<lambda>i. rd_byte (kmem (pg s)) f (unat off + i)) s s'"
  using rd_file.fetch [OF assms(1) _ assms(2,4), of s] assms(2,3) by (simp add: ramdisk_ops_def del: of_nat_unat)

text \<open>
  A program header that describes a segment wholly in the file and in user memory; and room for its pages.
\<close>

definition segment_ok :: "Elf32_Phdr \<Rightarrow> Ramdisk_file_node \<Rightarrow> page_state \<Rightarrow> bool" where
  "segment_ok h f p \<longleftrightarrow> p_type h = PT_LOAD \<and> p_memsz h \<noteq> 0 \<and> p_filesz h = p_memsz h \<and>
     unat (p_offset h) + unat (p_memsz h) \<le> rd_len f \<and> USER_MEM_LOW p \<le> p_vaddr h \<and>
     unat (p_vaddr h) + unat (p_memsz h) \<le> unat (USER_MEM_HIGH p) \<and> unat (USER_MEM_HIGH p) + 0x2000 \<le> 2 ^ 32 \<and>
     bytes_at (p_vaddr h) (unat (p_memsz h)) \<inter> rd_area f = {}"

definition loadable :: "Elf32_Phdr \<Rightarrow> Ramdisk_file_node \<Rightarrow> page_state \<Rightarrow> bool" where
  "loadable h f p \<longleftrightarrow> segment_ok h f p \<and> room_for (seg_begin h) (seg_end h) p"

lemma segment_ok_kmem: "segment_ok h f (p\<lparr>kmem := m\<rparr>) = segment_ok h f p"
  by (simp add: segment_ok_def kmem_only)

lemma user_range:
  assumes "unat (v :: u32) + unat (n :: u32) \<le> unat (ub :: u32)"
  shows "\<not> (ucast v + ucast n :: u64) > ucast ub"
proof -
  have "unat (ucast v + ucast n :: u64) = unat v + unat n"
    using assms less_trans [OF unat_lt_2_32 [of ub], of "2 ^ 64"] by (simp add: unat_word_ariths)
  then show ?thesis using assms by (simp add: word_less_nat_alt)
qed

text \<open>
  A segment is loaded when its pages can be allocated: \<open>Q m p\<close> is what the allocation promises when it finds the memory \<open>m\<close>
  and leaves the pages \<open>p\<close>, with the file as it was.
\<close>

lemma load_segment_alloc:
  assumes "rd_ok f" "unat (e_phoff eh) + 32 * i + 32 \<le> rd_len f" "bytes_at ha 32 \<inter> rd_area f = {}"
    and h: "h = load_Phdr (rd_start f + of_nat (unat (e_phoff eh) + 32 * i)) (kmem (pg s))" and seg: "segment_ok h f (pg s)"
    and alloc: "\<And>m. (\<forall>x. x \<notin> bytes_at ha 32 \<longrightarrow> m x = kmem (pg s) x) \<Longrightarrow>
      \<exists>p'. alloc_interval km (current_page_dir (pg s)) (seg_begin h) (seg_end h) True True ((pg s)\<lparr>kmem := m\<rparr>) = ret p' \<and> Q m p' \<and>
        (\<forall>x \<in> rd_area f. kmem p' x = m x)"
  shows "\<exists>f' s' m p'. load_segment km ramdisk_ops ha eh i ld f s = ret (Inr True, f', s') \<and> Q m p' \<and>
    (\<forall>x. x \<notin> bytes_at ha 32 \<longrightarrow> m x = kmem (pg s) x) \<and>
    copied (p_vaddr h) (unat (p_memsz h)) (\<lambda>j. rd_byte (kmem (pg s)) f (unat (p_offset h) + j)) (s\<lparr>pg := p'\<rparr>) s'"
proof -
  let ?k = "unat (e_phoff eh) + 32 * i"
  let ?off = "ucast (of_nat i * sizeof_Elf32_Phdr + e_phoff eh) :: off_t"
  have lt: "?k < 2 ^ 32" using assms(2) rd_len_lt [of f] by linarith
  have "of_nat i * sizeof_Elf32_Phdr + e_phoff eh = of_nat ?k" by (simp add: sizeof_Elf32_Phdr_def)
  then have off: "unat ?off = ?k" using lt by (simp only: unat_up64 unat_of_nat_small)
  from fetch_word_size [OF assms(1), of ?off sizeof_Elf32_Phdr ha s] assms(2,3) lt obtain s1 where s1:
    "ramdisk_seek ?off SEEK_SET f s = (int ?k, rd_at f ?k, s)"
    "ramdisk_read ha sizeof_Elf32_Phdr (rd_at f ?k) s = (sint sizeof_Elf32_Phdr, rd_at f (?k + 32), s1)"
    "copied ha 32 (\<lambda>j. rd_byte (kmem (pg s)) f (?k + j)) s s1"
    unfolding off by (auto simp: sizeof_Elf32_Phdr_def)
  let ?f = "rd_at f (?k + 32)" and ?m = "kmem (pg s1)"
  have hd: "load_Phdr ha ?m = h"
    unfolding h using s1(3) by (intro load_Phdr_copied) (simp add: copied_def rd_byte_def add.assoc)
  have eq1: "s1 = s\<lparr>pg := (pg s)\<lparr>kmem := ?m\<rparr>\<rparr>" using s1(3) by (simp only: copied_def)
  have pg1: "pg s1 = (pg s)\<lparr>kmem := ?m\<rparr>" using copied_frame(4) [OF s1(3)] .
  have m: "\<forall>x. x \<notin> bytes_at ha 32 \<longrightarrow> ?m x = kmem (pg s) x" using s1(3) by (simp add: copied_def)
  from alloc [OF this] obtain p' where
    p': "alloc_interval km (current_page_dir (pg s)) (seg_begin h) (seg_end h) True True ((pg s)\<lparr>kmem := ?m\<rparr>) = ret p'" "Q ?m p'"
      "\<forall>x \<in> rd_area f. kmem p' x = ?m x" by blast
  have dir: "current_page_dir (pg s1) = current_page_dir (pg s)" by (subst pg1) simp
  have al: "alloc_interval km (current_page_dir (pg s1)) (seg_begin h) (seg_end h) True True (pg s1) = ret p'"
    unfolding dir using p'(1) by (subst pg1)
  have ok: "rd_ok ?f" using rd_file.valid_at [OF assms(1), of "?k + 32"] assms(2) by simp
  have l: "segment_ok h f (pg s1)" using seg segment_ok_kmem [of h f ?m "pg s"] pg1 by simp
  note L = l [unfolded segment_ok_def]
  have "unat (p_offset h) + unat (p_memsz h) \<le> rd_len ?f" "bytes_at (p_vaddr h) (unat (p_memsz h)) \<inter> rd_area ?f = {}" using L by (auto simp: rd_at_laws)
  from load_data_alloc [OF ok _ _ this al] L obtain f' s' where s': "load_data km ramdisk_ops h ?f s1 = ret (Inr (p_vaddr h + p_memsz h), f', s')"
    "copied (p_vaddr h) (unat (p_memsz h)) (\<lambda>j. rd_byte (kmem p') f (unat (p_offset h) + j)) (s1\<lparr>pg := p'\<rparr>) s'"
    by (auto simp: rd_at_laws)
  have user: "\<not> p_vaddr h < USER_MEM_LOW (pg s1)" "\<not> (ucast (p_vaddr h) + ucast (p_memsz h) :: u64) > ucast (USER_MEM_HIGH (pg s1))"
    using L user_range [of "p_vaddr h" "p_memsz h" "USER_MEM_HIGH (pg s1)"] by auto
  have "load_segment km ramdisk_ops ha eh i ld f s = ret (Inr True, f', s')"
    using s1(1,2) hd L user s'(1) unfolding load_segment_def
    by (simp add: ramdisk_ops_def load_bss_def Let_def del: of_nat_unat)
  moreover have "rd_byte (kmem p') f (unat (p_offset h) + j) = rd_byte (kmem (pg s)) f (unat (p_offset h) + j)" if "j < unat (p_memsz h)" for j
  proof -
    have in_disk: "rd_start f + of_nat (unat (p_offset h) + j) \<in> rd_area f"
      using L that unfolding rd_area_def by (intro in_bytes_at) auto
    then have "rd_start f + of_nat (unat (p_offset h) + j) \<notin> bytes_at ha 32" using assms(3) by blast
    then show ?thesis using p'(3) in_disk m unfolding rd_byte_def by metis
  qed
  moreover have "s1\<lparr>pg := p'\<rparr> = s\<lparr>pg := p'\<rparr>" by (subst eq1) simp
  ultimately have "copied (p_vaddr h) (unat (p_memsz h)) (\<lambda>j. rd_byte (kmem (pg s)) f (unat (p_offset h) + j)) (s\<lparr>pg := p'\<rparr>) s'"
    "load_segment km ramdisk_ops ha eh i ld f s = ret (Inr True, f', s')" using s'(2) unfolding copied_def by metis+
  then show ?thesis using p'(2) m by blast
qed

lemma load_elf_alloc:
  assumes "rd_ok d" "cur_offset d = 0" "52 \<le> rd_len d" "bytes_at eh 52 \<inter> rd_area d = {}" "bytes_at ph 32 \<inter> rd_area d = {}"
    and "hdr = load_Ehdr (rd_start d) (kmem (pg s))" "is_header_valid hdr" "e_phnum hdr = 1" "unat (e_phoff hdr) + 32 \<le> rd_len d"
    and "h = load_Phdr (rd_start d + e_phoff hdr) (kmem (pg s))" "segment_ok h d (pg s)"
    and alloc: "\<And>m. (\<forall>x. x \<notin> bytes_at ph 32 \<union> bytes_at eh 52 \<longrightarrow> m x = kmem (pg s) x) \<Longrightarrow>
      \<exists>p'. alloc_interval km (current_page_dir (pg s)) (seg_begin h) (seg_end h) True True ((pg s)\<lparr>kmem := m\<rparr>) = ret p' \<and> Q m p' \<and>
        (\<forall>x \<in> rd_area d. kmem p' x = m x)"
  shows "\<exists>f' s' m p'. load_elf km ramdisk_ops eh ph (Some d) s = ret (sint (e_entry hdr), f', s') \<and> Q m p' \<and>
    (\<forall>x. x \<notin> bytes_at ph 32 \<union> bytes_at eh 52 \<longrightarrow> m x = kmem (pg s) x) \<and>
    copied (p_vaddr h) (unat (p_memsz h)) (\<lambda>i. kmem (pg s) (rd_start d + of_nat (unat (p_offset h) + i))) (s\<lparr>pg := p'\<rparr>) s'"
proof -
  have n: "52 = min (unat sizeof_Elf32_Ehdr) (rd_len d - unat (cur_offset d))" using assms(2,3) by (simp add: sizeof_Elf32_Ehdr_def)
  from rd_read_copies [OF assms(1) n assms(4), of s] obtain s1 where s1:
    "ramdisk_read eh sizeof_Elf32_Ehdr d s = (52, rd_at d 52, s1)" "copied eh 52 (\<lambda>i. rd_byte (kmem (pg s)) d i) s s1"
    by (auto simp: assms(2))
  have hdr: "load_Ehdr eh (kmem (pg s1)) = hdr"
    unfolding assms(6) using s1(2) by (intro load_Ehdr_copied) (simp add: copied_def rd_byte_def)
  have eq1: "s1 = s\<lparr>pg := (pg s)\<lparr>kmem := kmem (pg s1)\<rparr>\<rparr>" using s1(2) by (simp only: copied_def)
  have pg1: "pg s1 = (pg s)\<lparr>kmem := kmem (pg s1)\<rparr>" using copied_frame(4) [OF s1(2)] .
  let ?d = "rd_at d 52"
  have kept: "kmem (pg s1) (rd_start d + of_nat i) = kmem (pg s) (rd_start d + of_nat i)" if "i < rd_len d" for i
  proof -
    have "rd_start d + of_nat i \<in> rd_area d" using that unfolding rd_area_def by (rule in_bytes_at)
    then have "rd_start d + of_nat i \<notin> bytes_at eh 52" using assms(4) by blast
    then show ?thesis using s1(2) by (simp add: copied_def)
  qed
  have h: "h = load_Phdr (rd_start ?d + of_nat (unat (e_phoff hdr) + 32 * 0)) (kmem (pg s1))"
  proof -
    have "kmem (pg s1) (rd_start d + e_phoff hdr + of_nat i) = kmem (pg s) (rd_start d + e_phoff hdr + of_nat i)" if "i < 32" for i
      using kept [of "unat (e_phoff hdr) + i"] that assms(9) by (simp add: add.assoc)
    then show ?thesis unfolding assms(10) rd_at_laws by (intro load_Phdr_copied [symmetric]) simp
  qed
  have ok: "rd_ok ?d" using rd_file.valid_at [OF assms(1,3)] .
  have l: "segment_ok h ?d (pg s1)" using assms(11) segment_ok_kmem [of h d "kmem (pg s1)" "pg s"] unfolding pg1 [symmetric]
    by (simp add: segment_ok_def rd_at_laws)
  have al: "\<exists>p'. alloc_interval km (current_page_dir (pg s1)) (seg_begin h) (seg_end h) True True ((pg s1)\<lparr>kmem := m\<rparr>) = ret p' \<and> Q m p' \<and>
      (\<forall>x \<in> rd_area ?d. kmem p' x = m x)" if "\<forall>x. x \<notin> bytes_at ph 32 \<longrightarrow> m x = kmem (pg s1) x" for m
  proof -
    have "\<forall>x. x \<notin> bytes_at ph 32 \<union> bytes_at eh 52 \<longrightarrow> m x = kmem (pg s) x" using that s1(2) by (simp add: copied_def)
    moreover have "current_page_dir (pg s1) = current_page_dir (pg s)" "(pg s1)\<lparr>kmem := m\<rparr> = (pg s)\<lparr>kmem := m\<rparr>" by (subst pg1, simp)+
    ultimately show ?thesis using alloc unfolding rd_at_laws by metis
  qed
  have "unat (e_phoff hdr) + 32 * 0 + 32 \<le> rd_len ?d" "bytes_at ph 32 \<inter> rd_area ?d = {}" using assms(5,9) by (simp_all add: rd_at_laws)
  from load_segment_alloc [where Q = Q and ld = False, OF ok this h l al] obtain f' s' m p' where
    seg: "load_segment km ramdisk_ops ph hdr 0 False ?d s1 = ret (Inr True, f', s')" "Q m p'" "\<forall>x. x \<notin> bytes_at ph 32 \<longrightarrow> m x = kmem (pg s1) x"
    "copied (p_vaddr h) (unat (p_memsz h)) (\<lambda>j. rd_byte (kmem (pg s1)) ?d (unat (p_offset h) + j)) (s1\<lparr>pg := p'\<rparr>) s'" by blast
  have "load_elf km ramdisk_ops eh ph (Some d) s = ret (sint (e_entry hdr), Some f', s')"
    using s1(1) hdr assms(7,8) seg(1) by (simp add: load_elf_def ramdisk_ops_def [unfolded file_ops.defs] Let_def sizeof_Elf32_Ehdr_def)
  moreover have "rd_byte (kmem (pg s1)) ?d (unat (p_offset h) + j) = kmem (pg s) (rd_start d + of_nat (unat (p_offset h) + j))"
    if "j < unat (p_memsz h)" for j
    unfolding rd_byte_def rd_at_laws using that l by (intro kept) (auto simp: segment_ok_def rd_at_laws)
  moreover have "s1\<lparr>pg := p'\<rparr> = s\<lparr>pg := p'\<rparr>" by (subst eq1) simp
  ultimately have "copied (p_vaddr h) (unat (p_memsz h)) (\<lambda>i. kmem (pg s) (rd_start d + of_nat (unat (p_offset h) + i))) (s\<lparr>pg := p'\<rparr>) s'"
    "load_elf km ramdisk_ops eh ph (Some d) s = ret (sint (e_entry hdr), Some f', s')" using seg(4) unfolding copied_def by metis+
  moreover have "\<forall>x. x \<notin> bytes_at ph 32 \<union> bytes_at eh 52 \<longrightarrow> m x = kmem (pg s) x" using seg(3) s1(2) by (simp add: copied_def)
  ultimately show ?thesis using seg(2) by blast
qed

text \<open>
  C16: \<^verbatim>\<open>load_elf\<close> loads an executable with one program header whose segment is wholly in the file and in
  user memory: it returns the entry address, every byte of the segment is at its address, every
  address of the segment is in a page that is present, writable and open to user mode, and no other byte but
  the loader's two header buffers changes.
\<close>

theorem load_elf_loads:
  assumes "rd_ok d" "cur_offset d = 0" "52 \<le> rd_len d" "bytes_at eh 52 \<inter> rd_area d = {}" "bytes_at ph 32 \<inter> rd_area d = {}"
    and "hdr = load_Ehdr (rd_start d) (kmem (pg s))" "is_header_valid hdr" "e_phnum hdr = 1" "unat (e_phoff hdr) + 32 \<le> rd_len d"
    and "h = load_Phdr (rd_start d + e_phoff hdr) (kmem (pg s))" "loadable h d (pg s)"
  shows "\<exists>f' s'. load_elf km ramdisk_ops eh ph (Some d) s = ret (sint (e_entry hdr), f', s') \<and>
    (\<forall>i < unat (p_memsz h). kmem (pg s') (p_vaddr h + of_nat i) = kmem (pg s) (rd_start d + of_nat (unat (p_offset h) + i))) \<and>
    (\<forall>a. p_vaddr h \<le> a \<and> a < p_vaddr h + p_memsz h \<longrightarrow> user_page (page_ref a (pg s)) (pg s')) \<and>
    (\<forall>a. a \<notin> bytes_at (p_vaddr h) (unat (p_memsz h)) \<union> bytes_at ph 32 \<union> bytes_at eh 52 \<longrightarrow> kmem (pg s') a = kmem (pg s) a)"
proof -
  let ?Q = "\<lambda>m p'. same_dirs ((pg s)\<lparr>kmem := m\<rparr>) p' \<and> (\<forall>a. p_vaddr h \<le> a \<and> a < p_vaddr h + p_memsz h \<longrightarrow> user_page (page_ref a (pg s)) p')"
  have seg: "segment_ok h d (pg s)" and room: "room_for (seg_begin h) (seg_end h) (pg s)" using assms(11) by (simp_all add: loadable_def)
  have end2: "unat (p_vaddr h) + unat (p_memsz h) + 0x2000 \<le> 2 ^ 32" using seg by (simp add: segment_ok_def)
  have al: "\<exists>p'. alloc_interval km (current_page_dir (pg s)) (seg_begin h) (seg_end h) True True ((pg s)\<lparr>kmem := m\<rparr>) = ret p' \<and> ?Q m p' \<and>
      (\<forall>x \<in> rd_area d. kmem p' x = m x)" for m
    using alloc_interval_user [OF end2, of "(pg s)\<lparr>kmem := m\<rparr>" km] room same_dirs_kmem [of "(pg s)\<lparr>kmem := m\<rparr>"] by (auto simp: kmem_only)
  from load_elf_alloc [where Q = ?Q, OF assms(1-10) seg al] obtain f' s' m p' where
    r: "load_elf km ramdisk_ops eh ph (Some d) s = ret (sint (e_entry hdr), f', s')" "same_dirs ((pg s)\<lparr>kmem := m\<rparr>) p'"
      "\<forall>a. p_vaddr h \<le> a \<and> a < p_vaddr h + p_memsz h \<longrightarrow> user_page (page_ref a (pg s)) p'"
      "\<forall>x. x \<notin> bytes_at ph 32 \<union> bytes_at eh 52 \<longrightarrow> m x = kmem (pg s) x"
      "copied (p_vaddr h) (unat (p_memsz h)) (\<lambda>i. kmem (pg s) (rd_start d + of_nat (unat (p_offset h) + i))) (s\<lparr>pg := p'\<rparr>) s'" by blast
  have "pg s' = p'\<lparr>kmem := kmem (pg s')\<rparr>" using copied_frame(4) [OF r(5)] by simp
  then have "user_page q (pg s') = user_page q p'" for q by (metis kmem_only(1))
  moreover have "kmem p' = m" using same_dirs_kmem [OF r(2)] by simp
  ultimately show ?thesis using r by (auto simp: copied_def)
qed

text \<open>An executable of 88 bytes with one segment of four, in a disk at 0x8000.\<close>

definition tiny_elf :: "u8 list" where
  "tiny_elf = [0x7f, 0x45, 0x4c, 0x46, 1, 1, 1, 0, 0, 0, 0, 0, 0, 0, 0, 0,
     2, 0, 3, 0, 1, 0, 0, 0, 0, 0, 0x40, 0, 0x34, 0, 0, 0, 0, 0, 0, 0, 0, 0, 0, 0, 0x34, 0, 0x20, 0, 1, 0, 0, 0, 0, 0, 0, 0,
     1, 0, 0, 0, 0x54, 0, 0, 0, 0, 0, 0x40, 0, 0, 0, 0, 0, 4, 0, 0, 0, 4, 0, 0, 0, 0, 0, 0, 0, 0, 0, 0, 0,
     0xde, 0xad, 0xbe, 0xef]"

definition tiny_disk :: Ramdisk_file_node where
  "tiny_disk = Ramdisk_file_node_new 0x8000 0x8058"

definition elf_state :: task_state where
  "elf_state = three_tasks\<lparr>pg := boot_pages\<lparr>USER_MEM_LOW := 0x400000, USER_MEM_HIGH := 0xEFBFFFFF,
     dirs := (\<lambda>_. \<lparr>tables = (\<lambda>i. 0x5000), dentries = (\<lambda>_. zero_dentry), phyaddr = 0x9000\<rparr>),
     kmem := (\<lambda>a. if 0x8000 \<le> a \<and> a < 0x8058 then tiny_elf ! unat (a - 0x8000) else 0)\<rparr>\<rparr>"

lemma tiny_header:
  "load_Ehdr 0x8000 (kmem (pg elf_state)) = \<lparr>e_ident = [0x7f, 0x45, 0x4c, 0x46, 1, 1, 1, 0, 0, 0, 0, 0, 0, 0, 0, 0],
     e_type = 2, e_machine = 3, e_version = 1, e_entry = 0x400000, e_phoff = 52, e_shoff = 0, e_flags = 0, e_ehsize = 52,
     e_phentsize = 32, e_phnum = 1, e_shentsize = 0, e_shnum = 0, e_shstrndx = 0\<rparr>"
  by (simp add: load_Ehdr_def load32_def load16_def elf_state_def tiny_elf_def EI_NIDENT_def upt_rec)

lemma tiny_segment:
  "load_Phdr 0x8034 (kmem (pg elf_state)) = \<lparr>p_type = 1, p_offset = 84, p_vaddr = 0x400000, p_paddr = 0, p_filesz = 4, p_memsz = 4,
     p_flags = 0, p_align = 0\<rparr>"
  by (simp add: load_Phdr_def load32_def elf_state_def tiny_elf_def)

lemma tiny_loadable:
  "loadable (load_Phdr 0x8034 (kmem (pg elf_state))) tiny_disk (pg elf_state)"
proof -
  let ?h = "load_Phdr 0x8034 (kmem (pg elf_state))"
  have b: "seg_begin ?h = 0x400000" "seg_end ?h = 0x401000"
    by (simp_all add: seg_begin_def seg_end_def tiny_segment get_aligned_def)
  have "room_for 0x400000 0x401000 (pg elf_state)"
    by (simp add: room_for_def elf_state_def boot_pages_def page_ref_def ent_def zero_table_def zero_entry_def)
  moreover have "bytes_at 0x400000 4 \<inter> rd_area tiny_disk = {}"
    by (intro set_eqI) (simp add: rd_area_def rd_len_def tiny_disk_def Ramdisk_file_node_new_def bytes_at_unat)
  moreover have "rd_len tiny_disk = 88" by (simp add: rd_len_def tiny_disk_def Ramdisk_file_node_new_def)
  moreover have "USER_MEM_LOW (pg elf_state) = 0x400000" "USER_MEM_HIGH (pg elf_state) = 0xEFBFFFFF" by (simp_all add: elf_state_def)
  ultimately show ?thesis unfolding loadable_def segment_ok_def b unfolding tiny_segment by (simp add: PT_LOAD_def)
qed

theorem load_elf_loads_witness:
  "\<exists>f' s'. load_elf (kmalloc_at 1) ramdisk_ops 0x9000 0xA000 (Some tiny_disk) elf_state = ret (0x400000, f', s') \<and>
    kmem (pg s') 0x400000 = 0xde \<and> kmem (pg s') 0x400003 = 0xef \<and> user_page (0x5000, 0) (pg s')"
proof -
  have d: "rd_ok tiny_disk" "cur_offset tiny_disk = 0" "52 \<le> rd_len tiny_disk" "rd_start tiny_disk = 0x8000"
    by (simp_all add: tiny_disk_def Ramdisk_file_node_new_def rd_ok_def rd_len_def)
  have area: "rd_area tiny_disk = bytes_at 0x8000 88" by (simp add: rd_area_def rd_len_def tiny_disk_def Ramdisk_file_node_new_def)
  have dis: "bytes_at 0x9000 52 \<inter> rd_area tiny_disk = {}" "bytes_at 0xA000 32 \<inter> rd_area tiny_disk = {}"
    unfolding area by (intro set_eqI, simp add: bytes_at_unat)+
  let ?hdr = "load_Ehdr (rd_start tiny_disk) (kmem (pg elf_state))"
  have valid: "is_header_valid ?hdr" "e_phnum ?hdr = 1" "unat (e_phoff ?hdr) + 32 \<le> rd_len tiny_disk" "e_entry ?hdr = 0x400000"
    unfolding d(4) tiny_header by (simp_all add: is_header_valid_def elf_consts rd_len_def tiny_disk_def Ramdisk_file_node_new_def)
  have at: "rd_start tiny_disk + e_phoff ?hdr = 0x8034" unfolding d(4) tiny_header by simp
  from load_elf_loads [OF d(1-3) dis refl valid(1-3) refl, of "kmalloc_at 1"] tiny_loadable obtain f' s' where
    r: "load_elf (kmalloc_at 1) ramdisk_ops 0x9000 0xA000 (Some tiny_disk) elf_state = ret (0x400000, f', s')"
    "\<forall>i < 4. kmem (pg s') (0x400000 + of_nat i) = kmem (pg elf_state) (0x8000 + of_nat (84 + i))"
    "\<forall>a. 0x400000 \<le> a \<and> a < 0x400004 \<longrightarrow> user_page (page_ref a (pg elf_state)) (pg s')"
    unfolding at valid(4) tiny_segment by (auto simp: d(4))
  have "user_page (page_ref 0x400000 (pg elf_state)) (pg s')" using r(3) by simp
  moreover have "page_ref 0x400000 (pg elf_state) = (0x5000, 0)" by (simp add: page_ref_def elf_state_def tb_offset_def)
  moreover have "kmem (pg s') 0x400000 = 0xde" "kmem (pg s') 0x400003 = 0xef"
    using r(2) [rule_format, of 0] r(2) [rule_format, of 3] by (simp_all add: elf_state_def tiny_elf_def)
  ultimately show ?thesis using r(1) by auto
qed

end
