(* ===== verification/Kmain_Thms.thy ===== *)
theory Kmain_Thms
  imports Kmain Descriptor_Thms Elf_Thms
begin

text \<open>
  The kernel put together: the timer interrupt drives the scheduler, user mode runs in the segments of its level, and a
  boot loader that is not a multiboot one is refused before anything is set up.
\<close>

section \<open>The timer\<close>

text \<open>A slice ended by a timer interrupt: the current task executed, leaving registers \<open>c\<close>.\<close>

definition timer_slice :: "u32 \<times> cpu \<times> Isr_registers_t \<Rightarrow> kernel \<Rightarrow> kernel" where
  "timer_slice = (\<lambda>(ra, c, reg) k. snd (timer_tick ra reg (k\<lparr>k_task := (k_task k)\<lparr>cpu := c\<rparr>\<rparr>)))"

lemma timer_slice_parts:
  "k_task (timer_slice (ra, c, reg) k) = time_slice (ra, c) (k_task k)"
  "tick (timer_slice (ra, c, reg) k) = tick k + 1"
  "k_io (timer_slice (ra, c, reg) k) = isr_eoi (sint (ir_int_no reg)) (k_io k)"
  by (simp_all add: timer_slice_def timer_tick_def time_slice_def with_ports_def Let_def split: prod.split)

lemma timer_slices_parts:
  "\<forall>(ra, c, reg) \<in> set es. ir_int_no reg = 32 \<Longrightarrow>
    k_task (fold timer_slice es k) = fold time_slice (map (\<lambda>(ra, c, reg). (ra, c)) es) (k_task k) \<and>
    tick (fold timer_slice es k) = tick k + of_nat (length es) \<and>
    io_log (k_io (fold timer_slice es k)) = io_log (k_io k) @ replicate (length es) (Out 0x20 0x20)"
proof (induction es arbitrary: k)
  case (Cons e es)
  obtain ra c reg where e: "e = (ra, c, reg)" by (cases e)
  have "sint (ir_int_no reg) = 32" using Cons.prems e by simp
  then have "io_log (k_io (timer_slice e k)) = io_log (k_io k) @ [Out 0x20 0x20]"
    by (simp add: e timer_slice_parts isr_eoi_def PIC1_COMMAND_def PIC1_def)
  with Cons.IH [of "timer_slice e k"] Cons.prems show ?case
    by (simp add: e timer_slice_parts replicate_append_same [symmetric] append_Cons_eq_iff)
qed simp

text \<open>
  C11: The timer shares the processor: whatever the tasks execute between interrupts, every task of the running
  queue becomes current within as many timer interrupts as there are running tasks, every interrupt is
  counted, and each is acknowledged at the first interrupt controller, once.
\<close>

theorem timer_shares_processor:
  assumes "tasks_ok (k_task k) R S Z" "\<forall>(ra, c, reg) \<in> set es. ra \<noteq> 0xFFFFFFFF \<and> ir_int_no reg = 32"
    and "length R \<le> length es" "t \<in> set R"
  shows "\<exists>n \<le> length R. 0 < n \<and> current_task (k_task (fold timer_slice (take n es) k)) = t \<and>
    tick (fold timer_slice (take n es) k) = tick k + of_nat n \<and>
    io_log (k_io (fold timer_slice (take n es) k)) = io_log (k_io k) @ replicate n (Out 0x20 0x20)"
proof -
  let ?es = "map (\<lambda>(ra, c, reg). (ra, c)) es"
  have "slices_ok ?es" using assms(2) by (auto simp: slices_ok_def)
  from slices_reach [OF assms(1) this _ assms(4)] assms(3) obtain n where
    n: "n \<le> length R" "0 < n" "current_task (fold time_slice (take n ?es) (k_task k)) = t" by auto
  have "\<forall>(ra, c, reg) \<in> set (take n es). ir_int_no reg = 32" using assms(2) by (auto dest: in_set_takeD)
  from timer_slices_parts [OF this, of k] n assms(3) show ?thesis by (auto simp: take_map)
qed

theorem timer_shares_processor_witness:
  "\<forall>k reg. \<exists>n \<le> 2. 0 < n \<and>
    current_task (k_task (fold timer_slice (take n [(0x900, some_cpu, reg\<lparr>ir_int_no := 32\<rparr>), (0x901, some_cpu, reg\<lparr>ir_int_no := 32\<rparr>)])
      (k\<lparr>k_task := three_tasks\<rparr>))) = 0x2000"
proof (intro allI)
  fix k :: kernel and reg :: Isr_registers_t
  let ?k = "k\<lparr>k_task := three_tasks\<rparr>"
  have "tasks_ok (k_task ?k) [0x1000, 0x2000] [0x3000] []" using three_tasks_ok by simp
  from timer_shares_processor [OF this, of "[(0x900, some_cpu, reg\<lparr>ir_int_no := 32\<rparr>), (0x901, some_cpu, reg\<lparr>ir_int_no := 32\<rparr>)]" "0x2000"]
  obtain n where "n \<le> length [0x1000 :: u32, 0x2000]" "0 < n"
    "current_task (k_task (fold timer_slice (take n [(0x900, some_cpu, reg\<lparr>ir_int_no := 32\<rparr>), (0x901, some_cpu, reg\<lparr>ir_int_no := 32\<rparr>)]) ?k)) = 0x2000"
    by auto
  then show "\<exists>n \<le> 2. 0 < n \<and>
    current_task (k_task (fold timer_slice (take n [(0x900, some_cpu, reg\<lparr>ir_int_no := 32\<rparr>), (0x901, some_cpu, reg\<lparr>ir_int_no := 32\<rparr>)]) ?k)) = 0x2000"
    by (intro exI [of _ n] conjI) simp_all
qed

section \<open>User mode\<close>

lemma init_idt_keeps:
  "gdt_entries (init_idt ia isr u s) = gdt_entries s" "tss_entry (init_idt ia isr u s) = tss_entry s"
  by (simp_all add: init_idt_def Let_def fold_idt_put fold_callbacks idt_put_def idt_flush_def)

text \<open>
  C15: User mode is unprivileged. With the descriptor tables the kernel builds, the selectors that
  \<^verbatim>\<open>switch_to_user_mode\<close> loads carry level 3 and name the flat code and data segments of level 3, interrupts
  are on, and the only gate such code can call is the one of the system calls, which enters the
  kernel's code segment at its stub, on the kernel stack of the task state segment.
\<close>

theorem user_mode_unprivileged:
  fixes k :: dt_state and ga ta ia unhandled :: u32 and isr :: "nat \<Rightarrow> u32"
  defines "d \<equiv> init_descriptor_tables ga ta ia isr unhandled k"
  shows "\<exists>s' v. switch_to_user_mode a sp s = Some s' \<and> r_eip (cpu s') = a \<and> r_esp (cpu s') = sp \<and>
    r_cs (cpu s') AND 3 = 3 \<and> v AND 3 = 3 \<and> bit (r_eflags (cpu s')) 9 \<and>
    r_ss (cpu s') = v \<and> r_ds (cpu s') = v \<and> r_es (cpu s') = v \<and> r_fs (cpu s') = v \<and> r_gs (cpu s') = v \<and>
    flat (selected d (ucast (r_cs (cpu s')))) \<and> seg_code (selected d (ucast (r_cs (cpu s')))) \<and> seg_dpl (selected d (ucast (r_cs (cpu s')))) = 3 \<and>
    flat (selected d (ucast v)) \<and> seg_writable_data (selected d (ucast v)) \<and> seg_dpl (selected d (ucast v)) = 3 \<and>
    {n. gate_present (idt_entries d n) \<and> gate_dpl (idt_entries d n) = 3} = {0x80} \<and>
    gate_offset (idt_entries d 0x80) = isr 0x80 \<and> selected d (ucast (selector (idt_entries d 0x80))) = selected d KERNEL_CODE_SELECTOR \<and>
    tss_esp0 (tss_entry d) = KERNEL_STACK_POS \<and> tss_ss0 (tss_entry d) = KERNEL_DATA_SELECTOR"
proof -
  from user_mode_state [of a sp s] obtain s' where s': "switch_to_user_mode a sp s = Some s'" "r_eip (cpu s') = a" "r_esp (cpu s') = sp"
    "r_cs (cpu s') = 0x1B" "r_ss (cpu s') = 0x23" "r_ds (cpu s') = 0x23" "r_es (cpu s') = 0x23" "r_fs (cpu s') = 0x23" "r_gs (cpu s') = 0x23"
    "r_eflags (cpu s') = r_eflags (cpu s) OR FLAG_IF" by blast
  have "bit (r_eflags (cpu s')) 9" by (simp add: s'(10) FLAG_IF_def bit_simps bit_numeral_rec)
  moreover have "flat (selected d 0x1B) \<and> seg_code (selected d 0x1B) \<and> seg_dpl (selected d 0x1B) = 3 \<and>
      flat (selected d 0x23) \<and> seg_writable_data (selected d 0x23) \<and> seg_dpl (selected d 0x23) = 3"
    by (simp add: d_def init_descriptor_tables_def init_idt_keeps selected_def init_gdt_entries flat_def seg_present_def seg_code_def
      seg_writable_data_def seg_dpl_def seg_base_set seg_limit_set seg_flags_set bit_numeral_rec)
  moreover have "{n. gate_present (idt_entries d n) \<and> gate_dpl (idt_entries d n) = 3} = {0x80}"
    by (auto simp: d_def init_descriptor_tables_def init_idt_entries gate_present_def gate_dpl_def zero_IDT_entry_def bit_numeral_rec
      split: if_splits)
  moreover have "gate_offset (idt_entries d 0x80) = isr 0x80" "selected d (ucast (selector (idt_entries d 0x80))) = selected d KERNEL_CODE_SELECTOR"
    by (simp_all add: d_def init_descriptor_tables_def init_idt_entries gate_offset_set KERNEL_CODE_SELECTOR_def)
  moreover have "tss_esp0 (tss_entry d) = KERNEL_STACK_POS \<and> tss_ss0 (tss_entry d) = KERNEL_DATA_SELECTOR"
    by (simp add: d_def init_descriptor_tables_def init_idt_keeps)
      (simp add: init_gdt_def Let_def gdt_put_def gdt_flush_def tss_flush_def)
  ultimately show ?thesis using s' by (intro exI [of _ s'] exI [of _ "0x23"]) simp
qed

section \<open>Refusal\<close>

lemma with_log_returns:
  assumes "format_text fmt args = Some out"
  shows "\<exists>l d. with_log (printf fp fmt args) k = ret (k\<lparr>k_log := l, k_io := d\<rparr>)"
proof -
  from vprintf_loop_text [OF assms, of fp None "(k_log k)\<lparr>kio := k_io k\<rparr>"] show ?thesis
    by (auto simp: with_log_def printf_def vprintf_def)
qed

lemma klog_init_returns: "\<exists>l d. with_log (klog_init fp bios) k = ret (k\<lparr>k_log := l, k_io := d\<rparr>)"
proof -
  have "\<exists>l. printf fp (cstr ''video intialized. mode: %s'' @ [10]) [A_str (Some str)] s = ret l" for str and s :: klog_state
  proof -
    have "format_text (cstr ''video intialized. mode: %s'' @ [10]) [A_str (Some str)] = Some (cstr ''video intialized. mode: '' @ str @ [10])"
      by (simp add: cstr_def conversion_text.simps)
    from vprintf_loop_text [OF this, of fp None s] show ?thesis by (auto simp: printf_def vprintf_def)
  qed
  then have "\<exists>l. klog_init fp bios s = ret l" for s unfolding klog_init_def Let_def by blast
  then obtain l where "klog_init fp bios ((k_log k)\<lparr>kio := k_io k\<rparr>) = ret l" by blast
  then show ?thesis by (auto simp: with_log_def)
qed

text \<open>
  A boot loader that does not announce itself with the multiboot magic number is refused: \<^verbatim>\<open>kmain\<close> sets up
  the descriptor tables and the console, prints the number and returns, with paging, the heap, the tasks and
  the C++ run time untouched.
\<close>

theorem kmain_refuses_magic:
  assumes "magic \<noteq> 0x2BADB002"
  shows "\<exists>k'. kmain fp km img mbd magic k = ret (Bad_magic, k') \<and> k_task k' = k_task k \<and> k_cxx k' = k_cxx k \<and>
    idt_entries (k_dt k') = idt_entries (init_descriptor_tables (gdt_at img) (tss_at img) (idt_at img) (isr_at img) (isr_unhandled_at img) ((k_dt k)\<lparr>io := k_io k\<rparr>))"
proof -
  let ?k = "with_dt (init_descriptor_tables (gdt_at img) (tss_at img) (idt_at img) (isr_at img) (isr_unhandled_at img)) k"
  have "\<exists>l d. with_log (klog_init fp (bios_equipment img)) ?k = ret (?k\<lparr>k_log := l, k_io := d\<rparr>)"
    by (rule klog_init_returns)
  then obtain l d where 1: "with_log (klog_init fp (bios_equipment img)) ?k = ret (?k\<lparr>k_log := l, k_io := d\<rparr>)" by blast
  have "format_text (cstr ''invalid magic: 0x%x'' @ [10]) [A_word magic] = Some (cstr ''invalid magic: 0x'' @ numeral_text magic 16 @ [10])"
    by (simp add: cstr_def conversion_text.simps)
  from with_log_returns [OF this, of fp "?k\<lparr>k_log := l, k_io := d\<rparr>"] obtain l' d' where
    2: "with_log (printf fp (cstr ''invalid magic: 0x%x'' @ [10]) [A_word magic]) (?k\<lparr>k_log := l, k_io := d\<rparr>) = ret (?k\<lparr>k_log := l', k_io := d'\<rparr>)"
    by auto
  show ?thesis using assms 1 2 by (simp add: kmain_def MULTIBOOT_BOOTLOADER_MAGIC_def with_dt_def Let_def)
qed

theorem kmain_refuses_magic_witness:
  "\<forall>fp km img mbd k. \<exists>k'. kmain (fp :: nat fpu) km img mbd 0 k = ret (Bad_magic, k') \<and> k_task k' = k_task k"
proof (intro allI)
  fix fp :: "nat fpu" and km img mbd k
  show "\<exists>k'. kmain fp km img mbd 0 k = ret (Bad_magic, k') \<and> k_task k' = k_task k"
    using kmain_refuses_magic [of 0 fp km img mbd k] by auto
qed

end
