(* ===== verification/Kmain_Boot.thy ===== *)
theory Kmain_Boot
  imports Boot Kmain_Thms
begin

text \<open>
  The kernel's initialization as a whole: what holds when \<^verbatim>\<open>kmain\<close> starts the user program.
\<close>

lemma with_dt_task [simp]: "k_task (with_dt f k) = k_task k" "k_cxx (with_dt f k) = k_cxx k"
  by (simp_all add: with_dt_def Let_def)

lemma with_ports_parts [simp]: "k_task (with_ports f k) = k_task k" "k_dt (with_ports f k) = k_dt k" "k_cxx (with_ports f k) = k_cxx k"
  "k_io (with_ports f k) = f (k_io k)"
  by (simp_all add: with_ports_def)

lemma isr_register_table [simp]:
  "isr_callback_table (k_dt (with_dt (isr_register num cb) k)) =
     (if 0 \<le> num \<and> num < 256 then (isr_callback_table (k_dt k))(nat num := cb) else isr_callback_table (k_dt k))"
  by (simp add: with_dt_def isr_register_def Let_def)

lemma init_timer_parts [simp]:
  "k_task (init_timer a k) = k_task k" "k_cxx (init_timer a k) = k_cxx k"
  "isr_callback_table (k_dt (init_timer a k)) = (isr_callback_table (k_dt k))(32 := a)"
  by (simp_all add: init_timer_def ISR_GET_NUM_BY_IRQ_def Let_def)

lemma hello_returns: "\<exists>l d. with_log (printf fp (cstr ''hello, world!'' @ [10]) []) k = ret (k\<lparr>k_log := l, k_io := d\<rparr>)"
proof -
  have "format_text (cstr ''hello, world!'' @ [10]) [] = Some (cstr ''hello, world!'' @ [10])" by (simp add: cstr_def)
  then show ?thesis by (rule with_log_returns)
qed

text \<open>
  The table of constructors as the linker script collects it: the function of \<^verbatim>\<open>task.cpp\<close> is in it, and nothing but the functions
  of the kernel's files. Running it constructs the table of tasks.
\<close>

definition ctors_linked :: "image \<Rightarrow> bool" where
  "ctors_linked img \<longleftrightarrow> task_ctors_at img \<in> set (ctors img) \<and> set (ctors img) \<subseteq> {task_ctors_at img, ramdisk_ctors_at img}"

definition constructed :: "image \<Rightarrow> u32 list \<Rightarrow> Pair_id_task Rbt \<Rightarrow> Pair_id_task Rbt" where
  "constructed img cs t = fold (\<lambda>f t. if f = task_ctors_at img then Rbt_init t else t) cs t"

lemma run_ctors:
  "set cs \<subseteq> {task_ctors_at img, ramdisk_ctors_at img} \<Longrightarrow>
    foldM (run_ctor img) cs k = ret (k\<lparr>k_task := (k_task k)\<lparr>rbt_id2task := constructed img cs (rbt_id2task (k_task k))\<rparr>,
      k_cxx := fold (\<lambda>f. call f 0) cs (k_cxx k)\<rparr>)"
  by (induction cs arbitrary: k) (auto simp: run_ctor_def task_static_init_def constructed_def Let_def)

lemma constructed_ok:
  "even_addr (NIL t) \<Longrightarrow> rbt_ok lt_id t Lf \<or> task_ctors_at img \<in> set cs \<Longrightarrow> rbt_ok lt_id (constructed img cs t) Lf"
  by (induction cs arbitrary: t) (auto simp: constructed_def Rbt_init_ok)

lemma constructed_NIL: "NIL (constructed img cs t) = NIL t"
proof (induction cs arbitrary: t)
  case (Cons f cs)
  have "NIL (Rbt_init t) = NIL t" by (simp add: Rbt_init_def Let_def)
  then show ?case using Cons by (simp add: constructed_def)
qed (simp add: constructed_def)

lemma call_list: "cxx_calls (fold (\<lambda>f. call f 0) cs s) = cxx_calls s @ map (\<lambda>f. (f, 0)) cs"
  by (induction cs arbitrary: s) (simp_all add: call_def)

lemma task_image_constructed:
  assumes "task_image m s" "ctors_linked img"
  defines "t \<equiv> constructed img (ctors img) (rbt_id2task s)"
  shows "task_image m (s\<lparr>rbt_id2task := t\<rparr>)" "rbt_ok lt_id t Lf"
  using assms(1,2) constructed_ok [of "rbt_id2task s" img "ctors img"] by (auto simp: task_image_def t_def constructed_NIL ctors_linked_def)

text \<open>The state in which the user program is started.\<close>

definition kernel_ready :: "image \<Rightarrow> Multiboot_mmap_entry_t \<Rightarrow> kernel \<Rightarrow> bool" where
  "kernel_ready img x k \<longleftrightarrow>
     (\<exists>t F A M R r. let s = k_task k; p = pg s in
        tasks_ok s [t] [] [] \<and> current_task s = t \<and> page_dir (tasks s t) = current_page_dir p \<and>
        heap_inv p F A \<and> t \<in> dom A \<and> heap_tables p \<and> page_inv M (R, p) \<and>
        M \<subseteq> {f. region_first x \<le> unat f \<and> unat f + 1 < region_last x} \<and>
        lookup_page (current_page_dir p) (KERNEL_STACK_POS - KERNEL_STACK_SIZE) p = Some r \<and> present (ent r p) \<and> rw (ent r p) \<and>
        \<not> user (ent r p) \<and> holders R p (addr (ent r p)) = {r} \<and> paging_on p \<and> bit (r_eflags (cpu s)) 9 \<and>
        isr_callback_table (k_dt k) 14 = page_fault_at img \<and> isr_callback_table (k_dt k) 32 = timer_tick_at img \<and>
        isr_callback_table (k_dt k) 33 = isr_kbd_at img)"

text \<open>What the start of the user program finds besides: no tables for user memory, frames, and memory below the heap as the boot loader left it.\<close>

definition room_ready :: "u32 \<Rightarrow> kernel \<Rightarrow> kernel \<Rightarrow> bool" where
  "room_ready ptr k0 k \<longleftrightarrow>
     (\<exists>F A M R. let s = k_task k; p = pg s in
        tasks_ok s [current_task s] [] [] \<and> pid (tasks s (current_task s)) = pid_next (k_task k0) \<and> pid_next s = pid_next (k_task k0) + 1 \<and>
        paged (tb_idx (USER_MEM_LOW p)) 3 F A M R p \<and> user_bounds p \<and> 1244 \<le> unat (nframes p) \<and>
        unat (kheap_static_end p) \<le> unat (boot_end ptr (pg (k_task k0))) + 0xC20000 \<and> same_low (pg (k_task k0)) p)"

lemma kmain_up:
  assumes boot: "boot_ok ptr es x (pg (k_task k))" "task_image m (k_task k)" "schedule_ra img \<noteq> 0xFFFFFFFF" and linked: "ctors_linked img"
  shows "\<exists>k1. kmain fp (kmalloc_at (Suc n)) img ptr 0x2BADB002 k =
      andThen (with_task (test_elf (kmalloc_at (Suc n)) img ptr) k1) (\<lambda>k'. ret (User_mode, k')) \<and> kernel_ready img x k1 \<and> room_ready ptr k k1 \<and>
    cxx_calls (k_cxx k1) = cxx_calls (k_cxx k) @ map (\<lambda>f. (f, 0)) (ctors img)"
proof -
  let ?km = "kmalloc_at (Suc n) :: kmalloc_fn"
  let ?k = "with_dt (init_descriptor_tables (gdt_at img) (tss_at img) (idt_at img) (isr_at img) (isr_unhandled_at img)) k"
  obtain l d where 1: "with_log (klog_init fp (bios_equipment img)) ?k = ret (?k\<lparr>k_log := l, k_io := d\<rparr>)" (is "_ = ret ?k1")
    using klog_init_returns by blast
  let ?t = "constructed img (ctors img) (rbt_id2task (k_task k))"
  let ?k2 = "\<lambda>p. with_dt (isr_register 14 (page_fault_at img)) (?k1\<lparr>k_task := (k_task k)\<lparr>pg := p\<rparr>\<rparr>)"
  let ?c = "fold (\<lambda>f. call f 0) (ctors img) (k_cxx k)"
  have ctors: "cxxsupport_init (run_ctor img) (ctors img) (?k2 p) = ret ((?k2 p)\<lparr>k_task := (k_task k)\<lparr>rbt_id2task := ?t, pg := p\<rparr>, k_cxx := ?c\<rparr>)" for p
    using linked run_ctors [of "ctors img" img "?k2 p"] by (simp add: cxxsupport_init_def ctors_linked_def)
  note img = task_image_constructed [OF boot(2) linked]
  from boot_up [of ptr es x "(k_task k)\<lparr>rbt_id2task := ?t\<rparr>", OF _ img(1) boot(3), of n] boot(1) img(2) obtain p s' t u F A where
    b: "page_init ?km (\<lambda>p. p) ptr (pg (k_task k)) = ret p"
      "task_init ?km (schedule_ra img) ((k_task k)\<lparr>rbt_id2task := ?t, pg := p\<rparr>) = ret (Jumped, s')"
      "tasks_ok s' [t] [] []" "current_task s' = t" "page_dir (tasks s' t) = current_page_dir (pg s')" "pid (tasks s' t) = pid_next (k_task k)"
      "pid_next s' = pid_next (k_task k) + 1" "t \<in> dom A" "u \<in> dom A"
      "paged (tb_idx (USER_MEM_LOW (pg s'))) 3 F A (boot_frames x p) (heap_refs p \<union> table_refs u) (pg s')" "tab (pg s') = (tab p)(1023 := u)"
      "user_bounds (pg s')" "unat (kheap_static_end (pg s')) \<le> unat (boot_end ptr (pg (k_task k))) + 0xC20000" "same_low (pg (k_task k)) (pg s')"
      "1244 \<le> unat (nframes (pg s'))"
      "present (ent (u, 0x3FE) (pg s'))" "rw (ent (u, 0x3FE) (pg s'))" "\<not> user (ent (u, 0x3FE) (pg s'))"
      "holders (heap_refs p \<union> table_refs u) (pg s') (addr (ent (u, 0x3FE) (pg s'))) = {(u, 0x3FE)}"
    by (simp del: kmalloc_at.simps) blast
  let ?k3 = "with_dt (isr_register (ISR_GET_NUM_BY_IRQ 1) (isr_kbd_at img)) (init_timer (timer_tick_at img) ((?k2 p)\<lparr>k_cxx := ?c, k_task := s'\<rparr>))"
  let ?k4 = "?k3\<lparr>k_task := (k_task ?k3)\<lparr>cpu := (cpu (k_task ?k3))\<lparr>r_eflags := r_eflags (cpu (k_task ?k3)) OR FLAG_IF\<rparr>\<rparr>\<rparr>"
  obtain l' d' where 4: "with_log (printf fp (cstr ''hello, world!'' @ [10]) []) ?k4 = ret (?k4\<lparr>k_log := l', k_io := d'\<rparr>)" (is "_ = ret ?k5")
    using hello_returns by blast
  have "kmain fp ?km img ptr 0x2BADB002 k = andThen (with_task (test_elf ?km img ptr) ?k5) (\<lambda>k'. ret (User_mode, k'))"
    unfolding kmain_def Let_def 1 andThen_ret using b(1,2) 4 ctors [of p]
    by (simp add: MULTIBOOT_BOOTLOADER_MAGIC_def with_task_def del: kmalloc_at.simps)
  moreover have "kernel_ready img x ?k5"
  proof -
    have "0xEFC00000 \<le> unat u" using paged_dom [OF b(10)] b(9) by blast
    then have "u \<noteq> 0" by auto
    then have "lookup_page (current_page_dir (pg s')) (KERNEL_STACK_POS - KERNEL_STACK_SIZE) (pg s') = Some (u, 0x3FE)"
      using b(11) [THEN fun_cong, of 1023] by (simp add: lookup_page_def tab_def KERNEL_STACK_POS_def KERNEL_STACK_SIZE_def tb_idx_def tb_offset_def)
    moreover have "bit (r_eflags (cpu s') OR FLAG_IF) 9" by (simp add: FLAG_IF_def bit_simps bit_numeral_rec)
    moreover have "boot_frames x p \<subseteq> {f. region_first x \<le> unat f \<and> unat f + 1 < region_last x}" by (auto simp: boot_frames_def)
    ultimately show ?thesis using b(3-5,8,16-19) pagedD(1,3,4,7) [OF b(10)] unfolding kernel_ready_def Let_def
      by (intro exI [of _ t] exI [of _ F] exI [of _ A] exI [of _ "boot_frames x p"] exI [of _ "heap_refs p \<union> table_refs u"] exI [of _ "(u, 0x3FE)"])
        (simp add: ISR_GET_NUM_BY_IRQ_def)
  qed
  moreover have "room_ready ptr k ?k5" using b(3,4,6,7,10,12-15) unfolding room_ready_def Let_def
    by (intro exI [of _ F] exI [of _ A] exI [of _ "boot_frames x p"] exI [of _ "heap_refs p \<union> table_refs u"]) simp
  moreover have "cxx_calls (k_cxx ?k5) = cxx_calls (k_cxx k) @ map (\<lambda>f. (f, 0)) (ctors img)" by (simp add: call_list)
  ultimately show ?thesis by blast
qed


lemma boot_state_ok: "boot_ok 0x8000 [boot_region] boot_region boot_state"
proof -
  have m: "kmem boot_state = boot_bytes" by (simp add: boot_state_def fresh_heap_def)
  show ?thesis unfolding boot_ok_def using boot_state_image boot_state_map
    by (simp add: m boot_info MULTIBOOT_INFO_MEM_MAP_def) (simp add: boot_state_def)
qed

text \<open>The state of tasking as the loader leaves it, memory zero, and an image with both constructors.\<close>

definition loaded_tasks :: task_state where
  "loaded_tasks = first_boot\<lparr>rbt_id2task := \<lparr>NIL = 2, tree_root = 0,
     node = (\<lambda>a. \<lparr>par_and_color = 0, ch0 = 0, ch1 = 0, key = \<lparr>pair_id = 0, pair_task = 0\<rparr>\<rparr>)\<rparr>\<rparr>"

definition linked_image :: "image \<Rightarrow> image" where
  "linked_image img = img\<lparr>ctors := [0x10F0, 0x20F0], ramdisk_ctors_at := 0x10F0, task_ctors_at := 0x20F0, schedule_ra := 0x950\<rparr>"

lemma loaded_tasks_image: "task_image 4 (loaded_tasks\<lparr>pg := p\<rparr>)"
  by (simp add: task_image_def loaded_tasks_def first_boot_def boot_tasks_def three_tasks_def KERNEL_STACK_SIZE_def even_addr_def)

lemma linked_image_ctors: "ctors_linked (linked_image img)"
  by (simp add: ctors_linked_def linked_image_def)


end
