(* ===== verification/User_Memory.thy ===== *)
theory User_Memory
  imports Boot Elf_Thms
begin

text \<open>
  User memory while the kernel runs: \<^verbatim>\<open>get_page\<close> with \<^verbatim>\<open>alloc\<close>, for one page and over an interval, where a missing
  page table is made on the way, and loading an executable into memory that has no tables yet.
\<close>

section \<open>A page for user mode\<close>

lemma page_ref_tab: "page_ref a p = (tab p (tb_idx a), tb_offset a)"
  by (simp add: page_ref_def tab_def)

text \<open>The address is in a page of user memory, from table \<open>k\<close> on, that user mode may write.\<close>

definition user_at :: "nat \<Rightarrow> u32 \<Rightarrow> page_state \<Rightarrow> bool" where
  "user_at k a p \<longleftrightarrow> k \<le> tb_idx a \<and> tb_idx a \<notin> heap_idx \<and> tab p (tb_idx a) \<noteq> 0 \<and> user_page (page_ref a p) p"

lemma user_at_mask: "user_at k (a AND 0xFFFFF000) p = user_at k a p"
proof -
  have "tb_idx (a AND 0xFFFFF000) = tb_idx a" using drop_page_mask [of a] by (simp add: tb_idx_def)
  then show ?thesis by (simp add: user_at_def page_ref_mask)
qed

text \<open>What allocation in user memory keeps.\<close>

definition extends :: "nat \<Rightarrow> page_state \<Rightarrow> page_state \<Rightarrow> bool" where
  "extends k p p' \<longleftrightarrow> current_page_dir p' = current_page_dir p \<and> same_bounds p p' \<and> same_low p p' \<and> (\<forall>a. user_at k a p \<longrightarrow> user_at k a p')"

lemma extends_refl [simp]: "extends k p p"
  by (simp add: extends_def same_low_def)

lemma extends_trans: "extends k p p' \<Longrightarrow> extends k p' p'' \<Longrightarrow> extends k p p''"
  using same_bounds_trans same_low_trans unfolding extends_def by metis

text \<open>The tables of \<open>I\<close> that do not exist yet.\<close>

definition missing :: "nat set \<Rightarrow> page_state \<Rightarrow> nat" where
  "missing I p = card {i \<in> I. tab p i = 0}"

lemma missing_le: "finite I \<Longrightarrow> missing I p \<le> card I"
  unfolding missing_def by (intro card_mono) auto

lemma tb_offset_less: "tb_offset a < 1024"
  by (simp add: tb_offset_div)

lemma get_user_page:
  assumes p: "paged k N F A M R p" and N: "N + missing I p \<le> 100" and I: "finite I" "tb_idx a \<in> I"
    and a: "k \<le> tb_idx a" "tb_idx a \<notin> heap_idx" and n: "missing I p < unat (nframes p)"
  shows "\<exists>p' N' F' A' R'. get_page (kmalloc_at (Suc n)) (current_page_dir p) a True p = ret (Some (page_ref a p'), p') \<and>
    paged k N' F' A' M R' p' \<and> page_ref a p' \<in> R' \<and> tab p' (tb_idx a) \<noteq> 0 \<and> extends k p p' \<and>
    N' + missing I p' = N + missing I p \<and> unat (nframes p) + missing I p' \<le> unat (nframes p') + missing I p"
proof (cases "tab p (tb_idx a) = 0")
  case False
  then have "page_ref a p \<in> R" using pagedD(14) [OF p] a tb_offset_less by (auto simp: page_ref_tab table_refs_def)
  then show ?thesis using p False
    by (intro exI [of _ p] exI [of _ N] exI [of _ F] exI [of _ A] exI [of _ R]) (simp add: get_page_def page_ref_tab tab_def)
next
  case True
  have n0: "nframes p \<noteq> 0" and "N \<le> 100" using n N by auto
  from get_page_paged [OF p this(2) True n0, of n] obtain t p' F' blk where
    g: "get_page (kmalloc_at (Suc n)) (current_page_dir p) a True p = ret (Some (t, tb_offset a), p')"
      "paged k (Suc N) F' (A(t \<mapsto> blk)) M (R \<union> table_refs t) p'" "tab p' = (tab p)(tb_idx a := t)" "grown A p p'"
      "unat (nframes p) \<le> unat (nframes p') + 1" by blast
  have t: "t \<noteq> 0" using paged_dom [OF g(2), of t] by auto
  have ref: "page_ref a p' = (t, tb_offset a)" by (simp add: page_ref_tab g(3))
  have "{i \<in> I. tab p i = 0} = insert (tb_idx a) {i \<in> I. tab p' i = 0}" using t I True by (auto simp: g(3) split: if_splits)
  moreover have "tb_idx a \<notin> {i \<in> I. tab p' i = 0}" using t by (simp add: g(3))
  ultimately have miss: "missing I p = Suc (missing I p')" unfolding missing_def using I(1) by simp
  have "user_at k c p'" if c: "user_at k c p" for c
  proof -
    have i: "k \<le> tb_idx c" "tb_idx c \<notin> heap_idx" "tab p (tb_idx c) \<noteq> 0" "user_page (page_ref c p) p" using c by (simp_all add: user_at_def)
    then have d: "tab p (tb_idx c) \<in> dom A" using pagedD(14) [OF p] by blast
    have "tab p' (tb_idx c) = tab p (tb_idx c)" using g(4) i(3) by (simp add: grown_def)
    moreover have "ent (page_ref c p) p' = ent (page_ref c p) p" using g(4) d by (simp add: grown_def page_ref_tab)
    ultimately show ?thesis using i by (simp add: user_at_def user_page_def page_ref_tab)
  qed
  then have "extends k p p'" using g(4) by (simp add: extends_def grown_def)
  moreover have "page_ref a p' \<in> R \<union> table_refs t" using tb_offset_less by (simp add: ref table_refs_def)
  moreover have "tab p' (tb_idx a) \<noteq> 0" using t by (simp add: g(3))
  moreover have "Suc N + missing I p' = N + missing I p" "unat (nframes p) + missing I p' \<le> unat (nframes p') + missing I p" using miss g(5) by simp_all
  ultimately show ?thesis using g(1) [folded ref] g(2) by blast
qed

lemma alloc_user_page:
  assumes p: "paged k N F A M R p" and N: "N + missing I p \<le> 100" and I: "finite I" "tb_idx a \<in> I"
    and a: "k \<le> tb_idx a" "tb_idx a \<notin> heap_idx" and n: "missing I p < unat (nframes p)"
  shows "\<exists>p' N' F' A' R'. andThen (get_page (kmalloc_at (Suc n)) (current_page_dir p) a True p) (\<lambda>(r, s). entry_alloc (page_of r) True True s) = ret p' \<and>
    paged k N' F' A' M R' p' \<and> user_at k a p' \<and> extends k p p' \<and>
    N' + missing I p' = N + missing I p \<and> unat (nframes p) + missing I p' \<le> unat (nframes p') + 1 + missing I p"
proof -
  from get_user_page [OF assms, of n] obtain p1 N' F' A' R' where
    g: "get_page (kmalloc_at (Suc n)) (current_page_dir p) a True p = ret (Some (page_ref a p1), p1)" "paged k N' F' A' M R' p1"
      "page_ref a p1 \<in> R'" "tab p1 (tb_idx a) \<noteq> 0" "extends k p p1" "N' + missing I p1 = N + missing I p"
      "unat (nframes p) + missing I p1 \<le> unat (nframes p1) + missing I p" by blast
  have "nframes p1 \<noteq> 0" using g(7) n by auto
  from entry_alloc_paged [OF g(2,3) this, of True True] obtain p2 where
    e: "entry_alloc (page_ref a p1) True True p1 = ret p2" "paged k N' F' A' M R' p2" "same_windows p1 p2"
      "kheap_state.truncate p2 = kheap_state.truncate p1" "\<forall>q. q \<noteq> page_ref a p1 \<longrightarrow> ent q p2 = ent q p1"
      "user_page (page_ref a p1) p2" "unat (nframes p1) \<le> unat (nframes p2) + 1" by (auto simp: user_page_def)
  have t: "tab p2 = tab p1" "current_page_dir p2 = current_page_dir p1" using e(3) by (simp_all add: same_windows_def tab_def fun_eq_iff)
  then have ref: "page_ref c p2 = page_ref c p1" for c by (simp add: page_ref_tab)
  have miss: "missing I p2 = missing I p1" by (simp add: missing_def t)
  have u: "user_at k a p2" using e(6) a g(4) by (simp add: user_at_def t ref)
  have "user_at k c p2" if "user_at k c p1" for c
  proof (cases "page_ref c p1 = page_ref a p1")
    case True
    then show ?thesis using that e(6) by (simp add: user_at_def t ref)
  next
    case False
    then show ?thesis using that e(5) [rule_format, OF False] by (simp add: user_at_def user_page_def t ref)
  qed
  moreover have "same_bounds p1 p2" "same_low p1 p2" using truncate_fields [OF e(4)] by (simp_all add: same_low_kmem same_bounds_def)
  ultimately have "extends k p1 p2" using t(2) by (simp add: extends_def)
  then have "extends k p p2" using extends_trans [OF g(5)] by blast
  moreover have "unat (nframes p) + missing I p2 \<le> unat (nframes p2) + 1 + missing I p" using g(7) e(7) miss by simp
  ultimately show ?thesis using g(1,6) e(1,2) u miss
    by (intro exI [of _ p2] exI [of _ N'] exI [of _ F'] exI [of _ A'] exI [of _ R']) (simp add: page_of_def del: kmalloc_at.simps)
qed

lemma invlpg_user:
  "user_at k a (invlpg c p) = user_at k a p" "extends k p (invlpg c p)" "missing I (invlpg c p) = missing I p" "nframes (invlpg c p) = nframes p"
proof -
  have t: "tab (invlpg c p) = tab p" by (simp add: tab_def fun_eq_iff)
  show u: "user_at k a (invlpg c p) = user_at k a p" for a by (simp add: user_at_def user_page_def page_ref_tab t)
  show "extends k p (invlpg c p)" "missing I (invlpg c p) = missing I p" "nframes (invlpg c p) = nframes p"
    by (simp_all add: extends_def u missing_def t same_bounds_def same_low_def) (simp_all add: invlpg_def)
qed

section \<open>An interval of user memory\<close>

lemma alloc_user_pages:
  assumes "unat e + 0x1000 \<le> 2 ^ 32" "4096 dvd unat b" "4096 dvd unat e" "paged k N F A M R p" "N + missing I p \<le> 100" "finite I" "I \<inter> heap_idx = {}"
    and "\<forall>j. b \<le> j \<and> j < e \<longrightarrow> k \<le> tb_idx j \<and> tb_idx j \<in> I"
    and "unat e - unat b + 4096 * missing I p \<le> 4096 * unat (nframes p)" "d = current_page_dir p"
  shows "\<exists>p' N' F' A' R'. page_loop (\<lambda>i s. andThen (get_page (kmalloc_at (Suc n)) d i True s) (\<lambda>(r, s).
      andThen (entry_alloc (page_of r) True True s) (\<lambda>s. ret (invlpg i s)))) b e p = ret p' \<and> paged k N' F' A' M R' p' \<and> extends k p p' \<and>
    (\<forall>j. b \<le> j \<and> j < e \<and> 4096 dvd unat j \<longrightarrow> user_at k j p') \<and> N' + missing I p' = N + missing I p \<and>
    4096 * unat (nframes p) + 4096 * missing I p' \<le> 4096 * unat (nframes p') + (unat e - unat b) + 4096 * missing I p"
  using assms
proof (induction "unat e - unat b" arbitrary: b p N F A R rule: less_induct)
  case less
  let ?F = "\<lambda>i s. andThen (get_page (kmalloc_at (Suc n)) d i True s) (\<lambda>(r, s). andThen (entry_alloc (page_of r) True True s) (\<lambda>s. ret (invlpg i s)))"
  show ?case
  proof (cases "b < e")
    case False
    then show ?thesis using less.prems(4) by (intro exI [of _ p] exI [of _ N] exI [of _ F] exI [of _ A] exI [of _ R]) auto
  next
    case True
    have lt: "unat b < unat e" using True by (simp add: word_less_nat_alt)
    have idx: "tb_idx b \<in> I" "k \<le> tb_idx b" "tb_idx b \<notin> heap_idx" using less.prems(7,8) True by auto
    have step: "unat b + 4096 \<le> unat e" using lt less.prems(2,3) by (auto elim!: dvdE)
    have nf: "missing I p < unat (nframes p)" using less.prems(9) lt by linarith
    from alloc_user_page [OF less.prems(4,5,6) idx nf, of n] obtain p1 N1 F1 A1 R1 where
      p1: "andThen (get_page (kmalloc_at (Suc n)) (current_page_dir p) b True p) (\<lambda>(r, s). entry_alloc (page_of r) True True s) = ret p1"
        "paged k N1 F1 A1 M R1 p1" "user_at k b p1" "extends k p p1" "N1 + missing I p1 = N + missing I p"
        "unat (nframes p) + missing I p1 \<le> unat (nframes p1) + 1 + missing I p" by blast
    let ?p = "invlpg b p1"
    have run: "?F b p = ret ?p" using p1(1) less.prems(10) by (auto split: prod.splits)
    have ext: "extends k p ?p" using extends_trans [OF p1(4) invlpg_user(2)] .
    have b: "unat (b + 0x1000) = unat b + 0x1000"
      using lt less.prems(1) by (intro unat_add [where y = "0x1000", simplified]) simp
    have "\<exists>p' N' F' A' R'. page_loop ?F (b + 0x1000) e ?p = ret p' \<and> paged k N' F' A' M R' p' \<and> extends k ?p p' \<and>
        (\<forall>j. b + 0x1000 \<le> j \<and> j < e \<and> 4096 dvd unat j \<longrightarrow> user_at k j p') \<and> N' + missing I p' = N1 + missing I ?p \<and>
        4096 * unat (nframes ?p) + 4096 * missing I p' \<le> 4096 * unat (nframes p') + (unat e - unat (b + 0x1000)) + 4096 * missing I ?p"
    proof (rule less.hyps)
      show "unat e - unat (b + 0x1000) < unat e - unat b" "4096 dvd unat (b + 0x1000)" using lt b less.prems(2) by simp_all
      show "paged k N1 F1 A1 M R1 ?p" using invlpg_paged [OF p1(2)] .
      show "N1 + missing I ?p \<le> 100" "d = current_page_dir ?p" using p1(5) less.prems(5,10) ext by (simp_all add: invlpg_user extends_def)
      show "\<forall>j. b + 0x1000 \<le> j \<and> j < e \<longrightarrow> k \<le> tb_idx j \<and> tb_idx j \<in> I"
      proof (intro allI impI)
        fix j :: u32
        assume j: "b + 0x1000 \<le> j \<and> j < e"
        then have "b \<le> j" using b by (simp add: word_le_nat_alt)
        then show "k \<le> tb_idx j \<and> tb_idx j \<in> I" using j less.prems(8) by blast
      qed
      show "unat e - unat (b + 0x1000) + 4096 * missing I ?p \<le> 4096 * unat (nframes ?p)"
        using p1(6) less.prems(9) step unfolding b invlpg_user(3,4) by linarith
    qed (use less.prems in simp_all)
    then obtain p' N' F' A' R' where p': "page_loop ?F (b + 0x1000) e ?p = ret p'" "paged k N' F' A' M R' p'" "extends k ?p p'"
        "\<forall>j. b + 0x1000 \<le> j \<and> j < e \<and> 4096 dvd unat j \<longrightarrow> user_at k j p'" "N' + missing I p' = N1 + missing I p1"
        "4096 * unat (nframes p1) + 4096 * missing I p' \<le> 4096 * unat (nframes p') + (unat e - unat (b + 0x1000)) + 4096 * missing I p1"
      unfolding invlpg_user(3,4) by blast
    have "user_at k j p'" if j: "b \<le> j" "j < e" "4096 dvd unat j" for j
    proof (cases "b + 0x1000 \<le> j")
      case True
      then show ?thesis using p'(4) j by blast
    next
      case False
      then have "unat b \<le> unat j" "unat j < unat b + 4096" using j(1) b by (simp_all add: word_le_nat_alt)
      then have "unat j = unat b" using j(3) less.prems(2) by (auto elim!: dvdE)
      then have "j = b" by (simp add: word_unat_eq_iff)
      then show ?thesis using p1(3) p'(3) by (simp add: extends_def invlpg_user)
    qed
    moreover have "page_loop ?F b e p = ret p'" using True p'(1) run by (simp add: page_loop_step del: andThen_eq_ret)
    moreover have "4096 * unat (nframes p) + 4096 * missing I p' \<le> 4096 * unat (nframes p') + (unat e - unat b) + 4096 * missing I p"
      using p'(6) p1(6) step unfolding b by linarith
    ultimately show ?thesis using p'(2,5) extends_trans [OF ext p'(3)] p1(5)
      by (intro exI [of _ p'] exI [of _ N'] exI [of _ F'] exI [of _ A'] exI [of _ R']) simp
  qed
qed

section \<open>Loading into memory without tables\<close>

text \<open>The tables the segment needs, and the one of the user stack.\<close>

definition program_tables :: "Elf32_Phdr \<Rightarrow> nat set" where
  "program_tables h = {tb_idx (seg_begin h)..tb_idx (seg_end h - 1)} \<union> {tb_idx 0xC0000000}"

text \<open>A segment in user memory of at most 4 MB.\<close>

definition segment_fits :: "Elf32_Phdr \<Rightarrow> page_state \<Rightarrow> bool" where
  "segment_fits h p \<longleftrightarrow> p_memsz h \<noteq> 0 \<and> unat (p_memsz h) \<le> 0x400000 \<and> USER_MEM_LOW p \<le> p_vaddr h \<and>
     unat (p_vaddr h) + unat (p_memsz h) \<le> unat (USER_MEM_HIGH p) \<and> user_bounds p \<and> unat (kheap_static_end p) + 2 ^ 22 \<le> 2 ^ 32"

lemma user_top: "user_bounds p \<Longrightarrow> unat (USER_MEM_HIGH p) = 0xEFBFFFFF"
proof -
  assume "user_bounds p"
  moreover have "KERNEL_HEAP_BEGIN \<noteq> 0" using heap_bounds(1) by auto
  from unat_minus_1 [OF this] have "unat (KERNEL_HEAP_BEGIN - 1) = 0xEFBFFFFF" by (simp add: heap_bounds)
  ultimately show ?thesis by (simp add: user_bounds_def)
qed

lemma segment_tables:
  assumes "segment_fits h p"
  shows "finite (program_tables h)" "card (program_tables h) \<le> 4" "program_tables h \<inter> heap_idx = {}"
    "seg_begin h \<le> j \<and> j < seg_end h \<Longrightarrow> tb_idx (USER_MEM_LOW p) \<le> tb_idx j \<and> tb_idx j \<in> program_tables h"
    "unat (seg_end h) - unat (seg_begin h) \<le> 0x402000" "unat (seg_begin h) < unat (seg_end h)" "unat (seg_end h) \<le> 0xEFC00000"
proof -
  note F = assms [unfolded segment_fits_def user_bounds_def]
  have high: "unat (USER_MEM_HIGH p) = 0xEFBFFFFF" using assms by (intro user_top) (simp add: segment_fits_def)
  have top: "unat (p_vaddr h) + unat (p_memsz h) \<le> 0xEFBFFFFF" using F high by simp
  then have room: "unat (p_vaddr h) + unat (p_memsz h) + 0x2000 \<le> 2 ^ 32" by simp
  note b = seg_bounds [OF room]
  have pos: "0 < unat (p_memsz h)" using F by (simp add: unat_gt_0)
  have "unat (p_vaddr h + p_memsz h) + 2 ^ 12 \<le> 2 ^ 32" using b(1) top by simp
  from get_aligned_bounds(2) [OF this] have e: "unat (seg_end h) < unat (p_vaddr h) + unat (p_memsz h) + 4096" by (simp add: seg_end_def b(1))
  have s: "unat (seg_begin h) \<le> unat (p_vaddr h)" "unat (p_vaddr h) < unat (seg_begin h) + 4096"
    unfolding seg_begin_def unat_and_page_mask using mod_less_divisor [of 4096 "unat (p_vaddr h)"] div_mult_mod_eq [of "unat (p_vaddr h)" 4096] by linarith+
  show lt: "unat (seg_begin h) < unat (seg_end h)" using s(1) b(3) pos by linarith
  show size: "unat (seg_end h) - unat (seg_begin h) \<le> 0x402000" using e s F by linarith
  show le: "unat (seg_end h) \<le> 0xEFC00000" using heap_page_up [of "p_vaddr h + p_memsz h"] top e b(5) by (auto elim!: dvdE)
  have e1: "unat (seg_end h - 1) = unat (seg_end h) - 1" using lt by (intro unat_minus_1) auto
  let ?a = "unat (seg_begin h)" and ?b = "unat (seg_end h) - 1"
  have ab: "?a \<le> ?b" "?b < ?a + 2 * 2 ^ 22" "?b < 0xEFC00000" using lt size le by auto
  have idx: "tb_idx (seg_begin h) = ?a div 2 ^ 22" "tb_idx (seg_end h - 1) = ?b div 2 ^ 22" by (simp_all only: tb_idx_div e1)
  have "?b div 2 ^ 22 \<le> (?a + 2 * 2 ^ 22) div 2 ^ 22" using ab(2) by (intro div_le_mono) simp
  then have d: "?b div 2 ^ 22 \<le> ?a div 2 ^ 22 + 2" by simp
  show "finite (program_tables h)" by (simp add: program_tables_def)
  have "card (program_tables h) \<le> card {?a div 2 ^ 22..?b div 2 ^ 22} + 1" unfolding program_tables_def idx
    by (rule order.trans [OF card_Un_le]) simp
  also have "\<dots> \<le> 4" using d by simp
  finally show "card (program_tables h) \<le> 4" .
  have "?b div 2 ^ 22 < 0x3BF" using ab(3) by (intro less_mult_imp_div_less) simp
  moreover have "tb_idx 0xC0000000 = 0x300" by (simp add: tb_idx_def)
  ultimately show "program_tables h \<inter> heap_idx = {}" unfolding program_tables_def idx heap_idx_val by auto
  show "tb_idx (USER_MEM_LOW p) \<le> tb_idx j \<and> tb_idx j \<in> program_tables h" if j: "seg_begin h \<le> j \<and> j < seg_end h"
  proof -
    have jn: "?a \<le> unat j" "unat j \<le> ?b" using j by (auto simp: word_le_nat_alt word_less_nat_alt)
    have "2 ^ 22 dvd unat (USER_MEM_LOW p)" using F get_aligned_bounds(3) [of "kheap_static_end p" 22] by simp
    moreover have "USER_MEM_LOW p \<le> p_vaddr h" using F by blast
    then have "unat (USER_MEM_LOW p) \<le> unat (p_vaddr h)" by (simp only: word_le_nat_alt)
    ultimately have "unat (USER_MEM_LOW p) div 2 ^ 22 \<le> ?a div 2 ^ 22" using s(2) b(4) by (auto elim!: dvdE)
    also have le2: "?a div 2 ^ 22 \<le> unat j div 2 ^ 22" using jn(1) by (rule div_le_mono)
    finally have "tb_idx (USER_MEM_LOW p) \<le> tb_idx j" by (simp only: tb_idx_div)
    moreover have "unat j div 2 ^ 22 \<le> ?b div 2 ^ 22" using jn(2) by (rule div_le_mono)
    ultimately show ?thesis using le2 unfolding program_tables_def idx unfolding tb_idx_div by simp
  qed
qed

text \<open>The pages of the segment: every address of it is in a page for user mode, and there is still room for the stack.\<close>

definition segment_mapped :: "nat \<Rightarrow> Elf32_Phdr \<Rightarrow> frame_no set \<Rightarrow> page_state \<Rightarrow> bool" where
  "segment_mapped k h M p \<longleftrightarrow>
     (\<exists>N F A R. paged k N F A M R p \<and> N + missing (program_tables h) p \<le> 100 \<and> missing (program_tables h) p < unat (nframes p)) \<and>
     (\<forall>a. p_vaddr h \<le> a \<and> a < p_vaddr h + p_memsz h \<longrightarrow> user_at k a p)"

lemma alloc_segment:
  assumes p: "paged k N F A M R p" "N \<le> 96" and k: "k = tb_idx (USER_MEM_LOW p)" and n: "1031 \<le> unat (nframes p)" and fits: "segment_fits h p"
  shows "\<exists>p'. alloc_interval (kmalloc_at (Suc n)) (current_page_dir p) (seg_begin h) (seg_end h) True True p = ret p' \<and>
    extends k p p' \<and> segment_mapped k h M p'"
proof -
  let ?I = "program_tables h"
  note T = segment_tables [OF fits]
  note Fi = fits [unfolded segment_fits_def]
  have top: "unat (p_vaddr h) + unat (p_memsz h) + 0x2000 \<le> 2 ^ 32"
    using Fi user_top [of p] by simp
  note b = seg_bounds [OF top]
  have miss: "missing ?I p \<le> 4" using missing_le [OF T(1)] T(2) order.trans by blast
  from alloc_user_pages [where I = ?I and n = n, OF b(2,4,5) p(1) _ T(1,3) _ _ refl] p(2) miss T(4,5) n obtain p' N' F' A' R' where
    r: "page_loop (\<lambda>i s. andThen (get_page (kmalloc_at (Suc n)) (current_page_dir p) i True s) (\<lambda>(r, s).
        andThen (entry_alloc (page_of r) True True s) (\<lambda>s. ret (invlpg i s)))) (seg_begin h) (seg_end h) p = ret p'"
      "paged k N' F' A' M R' p'" "extends k p p'" "\<forall>j. seg_begin h \<le> j \<and> j < seg_end h \<and> 4096 dvd unat j \<longrightarrow> user_at k j p'"
      "N' + missing ?I p' = N + missing ?I p"
      "4096 * unat (nframes p) + 4096 * missing ?I p' \<le> 4096 * unat (nframes p') + (unat (seg_end h) - unat (seg_begin h)) + 4096 * missing ?I p"
    unfolding k by (auto simp del: kmalloc_at.simps)
  have "alloc_interval (kmalloc_at (Suc n)) (current_page_dir p) (seg_begin h) (seg_end h) True True p = ret p'"
    using r(1) by (simp add: alloc_interval_def kassert_def seg_begin_def seg_end_def and.assoc page_aligned_get_aligned [unfolded page_aligned_def]
      del: kmalloc_at.simps)
  moreover have "user_at k a p'" if a: "p_vaddr h \<le> a \<and> a < p_vaddr h + p_memsz h" for a
  proof -
    let ?j = "a AND 0xFFFFF000"
    have "unat (p_vaddr h) div 4096 * 4096 \<le> unat a div 4096 * 4096" using a by (intro mult_le_mono1 div_le_mono) (simp add: word_le_nat_alt)
    then have "seg_begin h \<le> ?j" by (simp add: seg_begin_def word_le_nat_alt unat_and_page_mask)
    moreover have "?j < seg_end h"
      using page_start_le [of a] a b(1,3) by (simp add: word_le_nat_alt word_less_nat_alt)
    moreover have "4096 dvd unat ?j" by (simp add: unat_and_page_mask)
    ultimately have "user_at k ?j p'" using r(4) by blast
    then show ?thesis by (simp only: user_at_mask)
  qed
  moreover have "missing ?I p' < unat (nframes p')" "N' + missing ?I p' \<le> 100" using r(5,6) T(5) miss n p(2) by linarith+
  ultimately show ?thesis using r(2,3) unfolding segment_mapped_def by blast
qed

lemma user_at_kmem: "user_at k a (p\<lparr>kmem := m\<rparr>) = user_at k a p" "missing I (p\<lparr>kmem := m\<rparr>) = missing I p"
proof -
  have "tab (p\<lparr>kmem := m\<rparr>) = tab p" by (simp add: tab_def fun_eq_iff)
  then show "user_at k a (p\<lparr>kmem := m\<rparr>) = user_at k a p" "missing I (p\<lparr>kmem := m\<rparr>) = missing I p"
    by (simp_all add: user_at_def missing_def kmem_only)
qed

lemma segment_fits_kmem: "segment_fits h (p\<lparr>kmem := m\<rparr>) = segment_fits h p"
proof -
  have "user_bounds (p\<lparr>kmem := m\<rparr>) = user_bounds p" by (simp add: user_bounds_def)
  then show ?thesis by (simp add: segment_fits_def)
qed

lemma segment_mapped_outside:
  assumes "segment_mapped k h M p" "\<And>x. 0xEFC00000 \<le> unat x \<Longrightarrow> unat x < 0xFFC00000 \<Longrightarrow> m x = kmem p x"
  shows "segment_mapped k h M (p\<lparr>kmem := m\<rparr>)"
proof -
  obtain N F A R where p: "paged k N F A M R p" "N + missing (program_tables h) p \<le> 100" "missing (program_tables h) p < unat (nframes p)"
    using assms(1) by (auto simp: segment_mapped_def)
  from paged_outside [OF p(1) assms(2)] have "paged k N F A M R (p\<lparr>kmem := m\<rparr>)" by blast
  then show ?thesis using p(2,3) assms(1) unfolding segment_mapped_def user_at_kmem by auto
qed

text \<open>Where the loader finds the file and keeps its buffers: below the heap, and on the kernel stack.\<close>

definition file_below :: "Ramdisk_file_node \<Rightarrow> bool" where
  "file_below d \<longleftrightarrow> (\<forall>x \<in> rd_area d. unat x < 0xEFC00000)"

definition on_stack :: "u32 set \<Rightarrow> bool" where
  "on_stack B \<longleftrightarrow> (\<forall>x \<in> B. 0xFFC00000 \<le> unat x)"

lemma load_elf_live:
  assumes p: "paged k N F A M R (pg s)" "N \<le> 96" and k: "k = tb_idx (USER_MEM_LOW (pg s))" and n: "1031 \<le> unat (nframes (pg s))"
    and d: "rd_ok d" "cur_offset d = 0" "52 \<le> rd_len d" "file_below d" and buf: "on_stack (bytes_at ph 32 \<union> bytes_at eh 52)"
    and hdr: "hdr = load_Ehdr (rd_start d) (kmem (pg s))" "is_header_valid hdr" "e_phnum hdr = 1" "unat (e_phoff hdr) + 32 \<le> rd_len d"
    and h: "h = load_Phdr (rd_start d + e_phoff hdr) (kmem (pg s))" "segment_ok h d (pg s)" and fits: "segment_fits h (pg s)"
  shows "\<exists>f' s'. load_elf (kmalloc_at (Suc n)) ramdisk_ops eh ph (Some d) s = ret (sint (e_entry hdr), f', s') \<and> s' = s\<lparr>pg := pg s'\<rparr> \<and>
    segment_mapped k h M (pg s') \<and> current_page_dir (pg s') = current_page_dir (pg s) \<and> same_bounds (pg s) (pg s') \<and>
    (\<forall>i < unat (p_memsz h). kmem (pg s') (p_vaddr h + of_nat i) = kmem (pg s) (rd_start d + of_nat (unat (p_offset h) + i)))"
proof -
  let ?B = "bytes_at ph 32 \<union> bytes_at eh 52"
  let ?Q = "\<lambda>m p'. extends k ((pg s)\<lparr>kmem := m\<rparr>) p' \<and> segment_mapped k h M p'"
  have al: "\<exists>p'. alloc_interval (kmalloc_at (Suc n)) (current_page_dir (pg s)) (seg_begin h) (seg_end h) True True ((pg s)\<lparr>kmem := m\<rparr>) = ret p' \<and> ?Q m p' \<and>
      (\<forall>x \<in> rd_area d. kmem p' x = m x)" if m: "\<forall>x. x \<notin> ?B \<longrightarrow> m x = kmem (pg s) x" for m
  proof -
    let ?p = "(pg s)\<lparr>kmem := m\<rparr>"
    have "m x = kmem (pg s) x" if "unat x < 0xFFC00000" for x
    proof -
      have "x \<notin> ?B" using that buf unfolding on_stack_def by (meson not_less)
      then show ?thesis using m by blast
    qed
    then have pp: "paged k N F A M R ?p" by (intro paged_outside [OF p(1)])
    have "k = tb_idx (USER_MEM_LOW ?p)" "1031 \<le> unat (nframes ?p)" "segment_fits h ?p" using k n fits segment_fits_kmem by simp_all
    from alloc_segment [OF pp p(2) this, of n] obtain p' where
      p': "alloc_interval (kmalloc_at (Suc n)) (current_page_dir (pg s)) (seg_begin h) (seg_end h) True True ?p = ret p'" "extends k ?p p'" "segment_mapped k h M p'"
      by (auto simp del: kmalloc_at.simps)
    then show ?thesis using d(4) by (auto simp: extends_def same_low_def file_below_def simp del: kmalloc_at.simps)
  qed
  have "x \<notin> rd_area d" if "x \<in> ?B" for x
  proof
    assume "x \<in> rd_area d"
    then have "unat x < 0xEFC00000" "0xFFC00000 \<le> unat x" using d(4) buf that by (simp_all add: file_below_def on_stack_def)
    then show False by simp
  qed
  then have dis: "bytes_at eh 52 \<inter> rd_area d = {}" "bytes_at ph 32 \<inter> rd_area d = {}" by blast+
  from load_elf_alloc [where Q = ?Q, OF d(1-3) dis hdr h al] obtain f' s' m p' where
    r: "load_elf (kmalloc_at (Suc n)) ramdisk_ops eh ph (Some d) s = ret (sint (e_entry hdr), f', s')" "extends k ((pg s)\<lparr>kmem := m\<rparr>) p'"
      "segment_mapped k h M p'"
      "copied (p_vaddr h) (unat (p_memsz h)) (\<lambda>i. kmem (pg s) (rd_start d + of_nat (unat (p_offset h) + i))) (s\<lparr>pg := p'\<rparr>) s'" by blast
  have pg': "pg s' = p'\<lparr>kmem := kmem (pg s')\<rparr>" using copied_frame(4) [OF r(4)] by simp
  have "s' = (s\<lparr>pg := p'\<rparr>)\<lparr>pg := p'\<lparr>kmem := kmem (pg s')\<rparr>\<rparr>" using r(4) by (simp only: copied_def) simp
  then have eq: "s' = s\<lparr>pg := pg s'\<rparr>" unfolding pg' [symmetric] by simp
  have "unat (p_vaddr h) + unat (p_memsz h) \<le> 0xEFBFFFFF" using fits user_top [of "pg s"] by (simp add: segment_fits_def)
  then have "x \<notin> bytes_at (p_vaddr h) (unat (p_memsz h))" if "0xEFC00000 \<le> unat x" for x using that by (simp add: bytes_at_unat)
  then have "kmem (pg s') x = kmem p' x" if "0xEFC00000 \<le> unat x" for x using that r(4) by (simp add: copied_def)
  then have "segment_mapped k h M (p'\<lparr>kmem := kmem (pg s')\<rparr>)" by (intro segment_mapped_outside [OF r(3)])
  then have "segment_mapped k h M (pg s')" unfolding pg' [symmetric] .
  moreover have "current_page_dir (pg s') = current_page_dir (pg s)" "same_bounds (pg s) (pg s')"
    using r(2) by (subst pg', simp add: extends_def same_bounds_def)+
  ultimately show ?thesis using r(1,4) eq by (auto simp: copied_def)
qed

end
