(* ===== verification/Initrd.thy ===== *)
theory Initrd
  imports Klog_Thms
begin

text \<open>
  The user program, \<^verbatim>\<open>src/initrd.cpp\<close>: its formatted output, which is the kernel's with every
  piece of text handed to the system call \<^verbatim>\<open>sys_puts\<close>. The strings given to that call are recorded in
  order. Its number formatting repeats the kernel's code line by line and is the same function here; the
  types of arguments and the arithmetic \<open>fp\<close> on \<^verbatim>\<open>double\<close> are as for the kernel.
\<close>

record user_state =
  u_buf_mem :: "nat \<Rightarrow> u8"
  u_u2s_ret :: "nat \<Rightarrow> u8"
  u_putc_buf :: "nat \<Rightarrow> u8"
  u_puts :: "u8 list list"

definition user_u2s :: "u32 \<Rightarrow> u32 \<Rightarrow> (nat \<Rightarrow> u8) \<Rightarrow> (nat \<Rightarrow> u8) exec" where
  "user_u2s n base r = u2s n base r"

definition sys_puts :: "u8 list \<Rightarrow> user_state \<Rightarrow> user_state" where
  "sys_puts str u = u\<lparr>u_puts := u_puts u @ [str]\<rparr>"

text \<open>\<^verbatim>\<open>putc\<close> prints its two-byte buffer, whose second byte is never written.\<close>

definition user_putc :: "u8 \<Rightarrow> user_state \<Rightarrow> user_state exec" where
  "user_putc ch u =
     (let u = u\<lparr>u_putc_buf := (u_putc_buf u)(0 := ch)\<rparr>
      in andThen (str_at (u_putc_buf u) 0) (\<lambda>str. ret (sys_puts str u)))"

text \<open>The digits of a \<^verbatim>\<open>double\<close>, one more after the point than in the kernel.\<close>

definition user_FLOAT_PRECESION :: nat where "user_FLOAT_PRECESION = 5"

definition user_format_float :: "'d fpu \<Rightarrow> 'd \<Rightarrow> (nat \<Rightarrow> u8) \<Rightarrow> (nat \<Rightarrow> u8) exec" where
  "user_format_float fp f r =
     andThen (if f_less fp f (f_of_int fp 1) then ret (1, r(0 := 48)) else float_int_loop fp f 0 r) (\<lambda>(n, r).
     andThen (buf_store n 46 (swap_loop (n div 2) n r)) (\<lambda>r.
     andThen (float_frac_loop user_FLOAT_PRECESION fp f (n + 1) r) (\<lambda>(n, r).
       buf_store n 0 r)))"

text \<open>One conversion, up to the system call.\<close>

definition user_convert ::
  "'d fpu \<Rightarrow> u8 \<Rightarrow> 'd arg list \<Rightarrow> bufptr option \<Rightarrow> user_state \<Rightarrow> ('d arg list \<times> bufptr option \<times> user_state) exec" where
  "user_convert fp c args buf u =
     (if c = 115 then
        (case args of
           A_str (Some str) # as \<Rightarrow> ret (as, Some (P_str str), u)
         | A_str None # as \<Rightarrow> ret (as, Some (P_mem 0), u\<lparr>u_buf_mem := store_str 0 (cstr ''(null)'' @ [0]) (u_buf_mem u)\<rparr>)
         | _ \<Rightarrow> None)
      else if c = 120 then
        (case args of
           A_word n # as \<Rightarrow> andThen (user_u2s n 16 (u_u2s_ret u)) (\<lambda>r. ret (as, Some (P_ret 0), u\<lparr>u_u2s_ret := r\<rparr>))
         | _ \<Rightarrow> None)
      else if c = 100 then
        (case args of
           A_word n # as \<Rightarrow>
             andThen (if sint n < 0 then andThen (user_putc 45 u) (\<lambda>u. ret (- n, u)) else ret (n, u)) (\<lambda>(n, u).
             andThen (user_u2s n 10 (u_u2s_ret u)) (\<lambda>r. ret (as, Some (P_ret 0), u\<lparr>u_u2s_ret := r\<rparr>)))
         | _ \<Rightarrow> None)
      else if c = 117 then
        (case args of
           A_word n # as \<Rightarrow> andThen (user_u2s n 10 (u_u2s_ret u)) (\<lambda>r. ret (as, Some (P_ret 0), u\<lparr>u_u2s_ret := r\<rparr>))
         | _ \<Rightarrow> None)
      else if c = 99 then
        (case args of
           A_word n # as \<Rightarrow> ret (as, Some (P_mem 0), u\<lparr>u_buf_mem := (u_buf_mem u)(0 := ucast n, 1 := 0)\<rparr>)
         | _ \<Rightarrow> None)
      else if c = 37 then
        ret (args, Some (P_mem 0), u\<lparr>u_buf_mem := store_str 0 (cstr ''%'' @ [0]) (u_buf_mem u)\<rparr>)
      else if c = 102 then
        (case args of
           A_double f # as \<Rightarrow>
             andThen (if f_less fp f (f_of_int fp 0) then andThen (user_putc 45 u) (\<lambda>u. ret (f_neg fp f, u)) else ret (f, u)) (\<lambda>(f, u).
             andThen (user_format_float fp f (u_buf_mem u)) (\<lambda>r. ret (as, Some (P_mem 0), u\<lparr>u_buf_mem := r\<rparr>)))
         | _ \<Rightarrow> None)
      else if c = 112 then
        (case args of
           A_word v # as \<Rightarrow> ret (as, Some (P_mem 0), u\<lparr>u_buf_mem := format_pointer v (u_buf_mem u)\<rparr>)
         | _ \<Rightarrow> None)
      else ret (args, buf, u\<lparr>u_buf_mem := store_str 0 (cstr ''(%?)'' @ [0]) (u_buf_mem u)\<rparr>))"

text \<open>\<^verbatim>\<open>sys_puts(buf)\<close>; unlike the kernel's loop it leaves \<^verbatim>\<open>buf\<close> in place.\<close>

definition user_put_buf :: "bufptr option \<Rightarrow> user_state \<Rightarrow> user_state exec" where
  "user_put_buf buf u =
     (case buf of
        None \<Rightarrow> None
      | Some (P_str str) \<Rightarrow> ret (sys_puts str u)
      | Some (P_mem i) \<Rightarrow> andThen (str_at (u_buf_mem u) i) (\<lambda>str. ret (sys_puts str u))
      | Some (P_ret i) \<Rightarrow> andThen (str_at (u_u2s_ret u) i) (\<lambda>str. ret (sys_puts str u)))"

fun user_vprintf :: "'d fpu \<Rightarrow> u8 list \<Rightarrow> 'd arg list \<Rightarrow> bufptr option \<Rightarrow> user_state \<Rightarrow> user_state exec" where
  "user_vprintf fp [] args buf u = ret u"
| "user_vprintf fp (c # fmt) args buf u =
     (if c = 37 then
        (case fmt of
           [] \<Rightarrow> None
         | d # fmt' \<Rightarrow>
             andThen (user_convert fp d args buf u) (\<lambda>(args, buf, u).
             andThen (user_put_buf buf u) (\<lambda>u. user_vprintf fp fmt' args buf u)))
      else andThen (user_putc c u) (\<lambda>u. user_vprintf fp fmt args buf u))"

definition user_printf :: "'d fpu \<Rightarrow> u8 list \<Rightarrow> 'd arg list \<Rightarrow> user_state \<Rightarrow> user_state exec" where
  "user_printf fp fmt args u = user_vprintf fp fmt args None u"

section \<open>Agreement with the kernel's output\<close>

lemma user_putc_text:
  assumes "u_putc_buf u 1 = 0" "c \<noteq> 0"
  shows "user_putc c u = ret (u\<lparr>u_putc_buf := (u_putc_buf u)(0 := c), u_puts := u_puts u @ [[c]]\<rparr>)"
proof -
  have "str_at ((u_putc_buf u)(0 := c)) 0 = ret [c]" by (rule str_at_list) (use assms in auto)
  then show ?thesis by (simp add: user_putc_def sys_puts_def)
qed

text \<open>Printing \<open>out\<close> with calls of \<^verbatim>\<open>sys_puts\<close>, possibly in pieces.\<close>

definition prints :: "user_state \<Rightarrow> u8 list \<Rightarrow> user_state \<Rightarrow> bool" where
  "prints u out u' \<longleftrightarrow> (\<exists>ps. u_puts u' = u_puts u @ ps \<and> concat ps = out) \<and> u_putc_buf u' 1 = 0"

lemma prints_trans: "prints u a u' \<Longrightarrow> prints u' b u'' \<Longrightarrow> prints u (a @ b) u''"
  unfolding prints_def by (metis append.assoc concat_append)

lemma prints_refl: "u_putc_buf u 1 = 0 \<Longrightarrow> prints u [] u"
  by (auto simp: prints_def)

lemma prints_puts: "u_putc_buf u 1 = 0 \<Longrightarrow> prints u str (sys_puts str u)"
  by (auto simp: prints_def sys_puts_def)

lemma prints_putc: "u_putc_buf u 1 = 0 \<Longrightarrow> c \<noteq> 0 \<Longrightarrow> \<exists>u'. user_putc c u = ret u' \<and> prints u [c] u' \<and> u_buf_mem u' = u_buf_mem u \<and> u_u2s_ret u' = u_u2s_ret u"
  by (simp add: user_putc_text prints_def)

lemma user_mem_text:
  assumes "user_convert fp c args buf u = ret (args', Some (P_mem 0), u\<lparr>u_buf_mem := b\<rparr>)" "str_at b 0 = ret out" "u_putc_buf u 1 = 0"
  shows "\<exists>buf' u1 u2. user_convert fp c args buf u = ret (args', buf', u1) \<and> user_put_buf buf' u1 = ret u2 \<and> prints u out u2"
proof -
  have "user_put_buf (Some (P_mem 0)) (u\<lparr>u_buf_mem := b\<rparr>) = ret (sys_puts out (u\<lparr>u_buf_mem := b\<rparr>))"
    using assms(2) by (simp add: user_put_buf_def)
  moreover have "prints u out (sys_puts out (u\<lparr>u_buf_mem := b\<rparr>))" using assms(3) by (auto simp: prints_def sys_puts_def)
  ultimately show ?thesis using assms(1) by blast
qed

lemma user_num_text:
  assumes "user_convert fp c args buf u = andThen (u2s n base (u_u2s_ret u')) (\<lambda>r. ret (args', Some (P_ret 0), u'\<lparr>u_u2s_ret := r\<rparr>))"
    and "prints u pre u'" "base = 10 \<or> base = 16"
  shows "\<exists>buf' u1 u2. user_convert fp c args buf u = ret (args', buf', u1) \<and> user_put_buf buf' u1 = ret u2 \<and>
    prints u (pre @ numeral_text n base) u2"
proof -
  have "2 \<le> unat base" "unat base \<le> 16" using assms(3) by auto
  from u2s_text [OF this, of n "u_u2s_ret u'"] obtain r
    where r: "u2s n base (u_u2s_ret u') = ret r" "str_at r 0 = ret (numeral_text n base)" by blast
  have "user_put_buf (Some (P_ret 0)) (u'\<lparr>u_u2s_ret := r\<rparr>) = ret (sys_puts (numeral_text n base) (u'\<lparr>u_u2s_ret := r\<rparr>))"
    using r(2) by (simp add: user_put_buf_def)
  moreover have "prints u' (numeral_text n base) (sys_puts (numeral_text n base) (u'\<lparr>u_u2s_ret := r\<rparr>))"
    using assms(2) by (auto simp: prints_def sys_puts_def)
  ultimately show ?thesis using assms(1,2) r(1) prints_trans by fastforce
qed

text \<open>A conversion prints its text.\<close>

lemma user_convert_text:
  assumes "conversion_text c args = Some (out, args')" "u_putc_buf u 1 = 0"
  shows "\<exists>buf' u1 u2. user_convert fp c args buf u = ret (args', buf', u1) \<and> user_put_buf buf' u1 = ret u2 \<and> prints u out u2"
proof -
  note conv = assms(1) [unfolded conversion_text.simps]
  note refl = prints_refl [OF assms(2)]
  consider "c = 37" "out = [37]" "args' = args" | x where "c = 115" "args = A_str x # args'"
    | n where "args = A_word n # args'" "c = 120 \<or> c = 117 \<or> c = 100 \<or> c = 99 \<or> c = 112"
    using conv by (auto split: list.splits arg.splits option.splits if_splits)
  then show ?thesis
  proof cases
    case 1
    then show ?thesis using assms(2)
      by (intro user_mem_text [where b = "store_str 0 (cstr ''%'' @ [0]) (u_buf_mem u)"] str_at_text)
        (auto simp: user_convert_def cstr_def)
  next
    case 2
    show ?thesis
    proof (cases x)
      case None
      then show ?thesis using 2 conv assms(2)
        by (intro user_mem_text [where b = "store_str 0 (cstr ''(null)'' @ [0]) (u_buf_mem u)"] str_at_text)
          (auto simp: user_convert_def cstr_def)
    next
      case (Some str)
      then have "user_convert fp c args buf u = ret (args', Some (P_str str), u)" "out = str"
        using 2 conv by (simp_all add: user_convert_def)
      then show ?thesis using prints_puts [OF assms(2)] by (simp add: user_put_buf_def)
    qed
  next
    case 3
    from 3(2) show ?thesis
    proof (elim disjE)
      assume "c = 120"
      then show ?thesis using 3(1) conv user_num_text [OF _ refl, of fp c args buf n 16 args'] by (simp add: user_convert_def user_u2s_def)
    next
      assume "c = 117"
      then show ?thesis using 3(1) conv user_num_text [OF _ refl, of fp c args buf n 10 args'] by (simp add: user_convert_def user_u2s_def)
    next
      assume c: "c = 100"
      show ?thesis
      proof (cases "sint n < 0")
        case True
        from prints_putc [OF assms(2), of 45] obtain u' where "user_putc 45 u = ret u'" "prints u [45] u'" by auto
        then show ?thesis using c True 3(1) conv user_num_text [of fp c args buf u "- n" 10 u' args' "[45]"]
          by (simp add: user_convert_def user_u2s_def)
      next
        case False
        then show ?thesis using c 3(1) conv user_num_text [OF _ refl, of fp c args buf n 10 args']
          by (simp add: user_convert_def user_u2s_def)
      qed
    next
      assume c: "c = 99"
      have "str_at ((u_buf_mem u)(0 := ucast n, 1 := 0)) 0 = ret (if (ucast n :: u8) = 0 then [] else [ucast n])"
        by (rule str_at_list) auto
      then show ?thesis using 3(1) conv c assms(2)
        by (intro user_mem_text [where b = "(u_buf_mem u)(0 := ucast n, 1 := 0)"]) (auto simp: user_convert_def)
    next
      assume c: "c = 112"
      then show ?thesis using 3(1) conv assms(2) format_pointer_text [of n "u_buf_mem u"]
        by (intro user_mem_text [where b = "format_pointer n (u_buf_mem u)"]) (auto simp: user_convert_def)
    qed
  qed
qed

lemma user_vprintf_text:
  "format_text fmt args = Some out \<Longrightarrow> 0 \<notin> set fmt \<Longrightarrow> u_putc_buf u 1 = 0 \<Longrightarrow>
    \<exists>u'. user_vprintf fp fmt args buf u = ret u' \<and> prints u out u'"
proof (induction fmt args arbitrary: out buf u rule: format_text.induct)
  case (1 args)
  then show ?case using prints_refl by simp
next
  case (2 c fmt args)
  show ?case
  proof (cases "c = 37")
    case True
    then obtain d fmt' out1 args' rest where d: "fmt = d # fmt'" "conversion_text d args = Some (out1, args')"
        "format_text fmt' args' = Some rest" "out = out1 @ rest"
      using 2(3) by (auto split: list.splits option.splits)
    from user_convert_text [OF d(2) 2(5), of fp buf] obtain buf' u1 u2 where c: "user_convert fp d args buf u = ret (args', buf', u1)"
      "user_put_buf buf' u1 = ret u2" "prints u out1 u2" by blast
    have "0 \<notin> set fmt'" "u_putc_buf u2 1 = 0" using 2(4) d(1) c(3) by (auto simp: prints_def)
    from 2(1) [OF True d(1,2) refl d(3) this, of buf'] show ?thesis
      using True c d(1,4) prints_trans [OF c(3)] by auto
  next
    case False
    then obtain rest where rest: "format_text fmt args = Some rest" "out = c # rest" using 2(3) by auto
    from prints_putc [OF 2(5), of c] 2(4) obtain u' where u': "user_putc c u = ret u'" "prints u [c] u'" by auto
    then have "0 \<notin> set fmt" "u_putc_buf u' 1 = 0" using 2(4) by (auto simp: prints_def)
    from 2(2) [OF False rest(1) this, of buf] show ?thesis using False u' rest(2) prints_trans [OF u'(2)] by auto
  qed
qed

text \<open>Several strings written one after the other leave the screen as their concatenation does.\<close>

lemma fold_puts_terminal:
  "console_ok k \<Longrightarrow> console_ok (fold puts ps k) \<and> terminal_of (fold puts ps k) = fold (term_put (top_color k)) (concat ps) (terminal_of k) \<and>
    top_color (fold puts ps k) = top_color k"
proof (induction ps arbitrary: k)
  case (Cons p ps)
  let ?f = "fold putc p k"
  note f = fold_putc_refines [OF Cons.prems, of p]
  have "console_ok (puts p k)" "terminal_of (puts p k) = fold (term_put (top_color k)) p (terminal_of k)" "top_color (puts p k) = top_color k"
    using f keeps_screen_top [of k ?f]
    by (auto simp: puts_def move_cursor_def Let_def console_ok_def terminal_of_def top_color_def)
  with Cons.IH [of "puts p k"] show ?case by simp
qed simp

text \<open>
  C28: The user program's \<^verbatim>\<open>printf\<close> agrees with the kernel's on the formats both print alike: for every format whose conversions are among
  \<^verbatim>\<open>%s\<close>, \<^verbatim>\<open>%x\<close>, \<^verbatim>\<open>%d\<close>, \<^verbatim>\<open>%u\<close>, \<^verbatim>\<open>%c\<close>, \<^verbatim>\<open>%p\<close> and \<^verbatim>\<open>%%\<close> and whose
  arguments fit (\<^verbatim>\<open>%f\<close>, which prints five digits after the point here and four in the kernel, and unknown letters are left out), the strings it hands to the system call, written by the kernel one after the other, put
  the same text on the screen, with the same colours and cursor, as the kernel's \<^verbatim>\<open>printf\<close> of
  that format and those arguments.
\<close>

theorem user_printf_agrees:
  assumes "format_text fmt args = Some out" "0 \<notin> set fmt" "u_putc_buf u 1 = 0" "console_ok k"
  shows "\<exists>u' ps k'. user_printf fp fmt args u = ret u' \<and> u_puts u' = u_puts u @ ps \<and>
    printf fp fmt args k = ret k' \<and> terminal_of (fold puts ps k) = terminal_of k' \<and>
    terminal_of k' = fold (term_put (top_color k)) out (terminal_of k)"
proof -
  from user_vprintf_text [OF assms(1-3), of fp None] obtain u' ps
    where u': "user_vprintf fp fmt args None u = ret u'" "u_puts u' = u_puts u @ ps" "concat ps = out" by (auto simp: prints_def)
  from vprintf_loop_text [OF assms(1), of fp None k] obtain b r where
    "vprintf_loop fp fmt args None k = ret (rebuffer b r (fold putc out k))" by blast
  then have k': "printf fp fmt args k = ret (move_cursor (rebuffer b r (fold putc out k)))"
    by (simp add: printf_def vprintf_def)
  have "terminal_of (move_cursor (rebuffer b r (fold putc out k))) = terminal_of (fold putc out k)"
    by (simp add: terminal_of_def move_cursor_def Let_def rebuffer_def)
  then show ?thesis using u' k' fold_puts_terminal [OF assms(4), of ps] fold_putc_refines [OF assms(4), of out]
    by (auto simp: user_printf_def)
qed

definition blank_console :: klog_state where
  "blank_console = \<lparr>videomem = (\<lambda>_. 0), video_base = 0xB8000, video_monochrome = False, color_stack = (\<lambda>_. 7),
    ncolor_stack = 1, xpos = 0, ypos = 0, buf_mem = (\<lambda>_. 0), u2s_ret = (\<lambda>_. 0),
    kio = \<lparr>io_log = [], device = (\<lambda>_ _. 0)\<rparr>\<rparr>"

definition fresh_user :: user_state where
  "fresh_user = \<lparr>u_buf_mem = (\<lambda>_. 0), u_u2s_ret = (\<lambda>_. 0), u_putc_buf = (\<lambda>_. 0), u_puts = []\<rparr>"

theorem user_printf_agrees_witness:
  "\<forall>fp. \<exists>u' ps k'. user_printf fp (cstr ''pid %d'') [A_word (- 7) :: nat arg] fresh_user = ret u' \<and> u_puts u' = ps \<and>
    printf fp (cstr ''pid %d'') [A_word (- 7) :: nat arg] blank_console = ret k' \<and>
    terminal_of (fold puts ps blank_console) = terminal_of k' \<and>
    terminal_of k' = fold (term_put 7) (cstr ''pid -7'') (terminal_of blank_console)"
proof
  fix fp :: "nat fpu"
  have t: "format_text (cstr ''pid %d'') [A_word (- 7) :: nat arg] = Some (cstr ''pid -7'')"
    by (simp add: conversion_text.simps cstr_def numeral_text_def digits_step digit_char_def)
  have z: "0 \<notin> set (cstr ''pid %d'')" by (simp add: cstr_def)
  have ok: "console_ok blank_console" "u_putc_buf fresh_user 1 = 0" "top_color blank_console = 7" "u_puts fresh_user = []"
    by (simp_all add: blank_console_def fresh_user_def console_ok_def top_color_def)
  from user_printf_agrees [OF t z ok(2,1), of fp] show "\<exists>u' ps k'. user_printf fp (cstr ''pid %d'') [A_word (- 7) :: nat arg] fresh_user = ret u' \<and> u_puts u' = ps \<and>
    printf fp (cstr ''pid %d'') [A_word (- 7) :: nat arg] blank_console = ret k' \<and>
    terminal_of (fold puts ps blank_console) = terminal_of k' \<and>
    terminal_of k' = fold (term_put 7) (cstr ''pid -7'') (terminal_of blank_console)" by (auto simp: ok)
qed

end
