(* ===== verification/Initrd_Run.thy ===== *)
theory Initrd_Run
  imports Initrd Kmain_Thms
begin

text \<open>
  The user program running on the kernel: \<^verbatim>\<open>_start\<close>, \<^verbatim>\<open>test_sleep\<close> and \<^verbatim>\<open>test_fork\<close> of
  \<^verbatim>\<open>src/initrd.cpp\<close> as processes that execute one statement or one system call at a time, interleaved by
  the timer interrupt, over the kernel's own tasks and console.

  A process has the program's variables and the place where it is; the kernel's current task decides which process
  takes the next step. The gate of the system calls is an interrupt gate, so a system call is not interrupted.
  After \<^verbatim>\<open>fork\<close> the child has a copy of the parent's memory.
\<close>

section \<open>Processes\<close>

text \<open>
  Places in the program: \<open>Put\<close> is inside \<^verbatim>\<open>printf\<close>, with the strings it still has to hand to the kernel and the place it
  returns to; \<open>S_\<close> are the statements of \<^verbatim>\<open>test_sleep\<close>, \<open>F_\<close> those of \<^verbatim>\<open>test_fork\<close>.
\<close>

datatype point =
    Hello | Put "u8 list list" point | Forever
  | S_fork | S_getpid | S_first | S_ten | S_twenty | S_print | S_delay nat
  | F_before | F_fork | F_done | F_print | F_check | F_ok | F_error

record proc =
  at :: point
  u_mem :: user_state
  u_pid :: u32
  u_i :: u32
  u_ret :: u32
  u_f :: "nat \<Rightarrow> u32"

record machine =
  ker :: kernel
  prog :: "u32 \<Rightarrow> proc"

text \<open>What a process shows to the outside: a string printed, or the start of a line of \<^verbatim>\<open>test_sleep\<close>'s loop.\<close>

datatype event = Out_str "u8 list" | Line u32

definition cur :: "machine \<Rightarrow> u32" where
  "cur m = current_task (k_task (ker m))"

definition cur_proc :: "machine \<Rightarrow> proc" where
  "cur_proc m = prog m (cur m)"

definition set_proc :: "(proc \<Rightarrow> proc) \<Rightarrow> machine \<Rightarrow> machine" where
  "set_proc f m = m\<lparr>prog := (prog m)(cur m := f (cur_proc m))\<rparr>"

definition set_tasks :: "task_state \<Rightarrow> machine \<Rightarrow> machine" where
  "set_tasks s m = m\<lparr>ker := (ker m)\<lparr>k_task := s\<rparr>\<rparr>"

definition goto :: "point \<Rightarrow> machine \<Rightarrow> machine" where
  "goto p m = set_proc (\<lambda>x. x\<lparr>at := p\<rparr>) m"

section \<open>System calls\<close>

text \<open>
  The kernel's side of each call; the stub has passed the arguments. \<open>sa\<close> is the address of the temporary signal set on the
  program's stack. The place the process continues at is set before the call, since the call may give the processor away.
\<close>

definition do_puts :: "u8 list \<Rightarrow> machine \<Rightarrow> machine exec" where
  "do_puts str m = andThen (with_log (\<lambda>l. ret (puts str l)) (ker m)) (\<lambda>k. ret (m\<lparr>ker := k\<rparr>))"

definition do_fork :: "kmalloc_fn \<Rightarrow> u32 \<Rightarrow> machine \<Rightarrow> machine exec" where
  "do_fork km ra m =
     andThen (fork km ra (k_task (ker m))) (\<lambda>(n, s).
       let p = cur_proc m
       in ret (set_tasks s (m\<lparr>prog := (prog m)(cur m := p\<lparr>u_ret := n\<rparr>, latest_task s := p\<lparr>u_ret := 0\<rparr>)\<rparr>)))"

definition do_sleep :: "u32 \<Rightarrow> u32 \<Rightarrow> pid_t \<Rightarrow> machine \<Rightarrow> machine exec" where
  "do_sleep ra sa p m =
     (let s = k_task (ker m);
          s = s\<lparr>pg := (pg s)\<lparr>kmem := lib_Sigset_new sa (kmem (pg s))\<rparr>\<rparr>
      in andThen (sys_sleep ra p sa s) (\<lambda>(_, s). ret (set_tasks s m)))"

definition do_wakeup :: "pid_t \<Rightarrow> machine \<Rightarrow> machine exec" where
  "do_wakeup p m = andThen (wakeup p (k_task (ker m))) (\<lambda>(_, s). ret (set_tasks s m))"

text \<open>\<^verbatim>\<open>printf\<close>: the strings are computed in the process's memory and then handed over one by one.\<close>

definition do_printf :: "'d fpu \<Rightarrow> u8 list \<Rightarrow> 'd arg list \<Rightarrow> point \<Rightarrow> machine \<Rightarrow> machine exec" where
  "do_printf fp fmt args nxt m =
     andThen (user_printf fp fmt args ((u_mem (cur_proc m))\<lparr>u_puts := []\<rparr>)) (\<lambda>u.
       ret (set_proc (\<lambda>x. x\<lparr>u_mem := u, at := Put (u_puts u) nxt\<rparr>) m))"

section \<open>Statements\<close>

text \<open>\<^verbatim>\<open>test_sleep\<close>, from each of its places.\<close>

definition S_DELAY :: nat where "S_DELAY = 10000000"

definition test_sleep :: "'d fpu \<Rightarrow> kmalloc_fn \<Rightarrow> u32 \<Rightarrow> u32 \<Rightarrow> point \<Rightarrow> machine \<Rightarrow> (event list \<times> machine) exec" where
  "test_sleep fp km ra sa pt m =
     (let p = cur_proc m
      in case pt of
           S_fork \<Rightarrow> andThen (do_fork km ra (goto S_getpid m)) (\<lambda>m. ret ([], m))
         | S_getpid \<Rightarrow> ret ([], goto S_first (set_proc (\<lambda>x. x\<lparr>u_pid := getpid (k_task (ker m))\<rparr>) m))
         | S_first \<Rightarrow>
             andThen (if u_pid p = 0 then do_sleep ra sa 0 (goto S_ten m) else ret (goto S_ten m)) (\<lambda>m. ret ([], m))
         | S_ten \<Rightarrow>
             andThen (if u_i p = 10 then
                        (if u_pid p = 1 then do_wakeup 0 (goto S_twenty m)
                         else if u_pid p = 0 then do_sleep ra sa 1 (goto S_twenty m)
                         else ret (goto S_twenty m))
                      else ret (goto S_twenty m)) (\<lambda>m. ret ([], m))
         | S_twenty \<Rightarrow>
             andThen (if u_i p = 20 \<and> u_pid p = 0 then do_wakeup 1 (goto S_print m) else ret (goto S_print m)) (\<lambda>m. ret ([], m))
         | S_print \<Rightarrow>
             andThen (do_printf fp (cstr ''pid %d: %d'' @ [10]) [A_word (u_pid p), A_word (u_i p)] (S_delay 0) m)
               (\<lambda>m. ret ([Line (u_i p)], m))
         | S_delay j \<Rightarrow>
             ret ([], if j < S_DELAY then goto (S_delay (j + 1)) m else goto S_ten (set_proc (\<lambda>x. x\<lparr>u_i := u_i x + 1\<rparr>) m))
         | _ \<Rightarrow> None)"

text \<open>\<^verbatim>\<open>test_fork\<close>; the array \<^verbatim>\<open>f\<close> is static and starts as zeros.\<close>

definition NF :: nat where "NF = 4096"

definition test_fork :: "'d fpu \<Rightarrow> kmalloc_fn \<Rightarrow> u32 \<Rightarrow> point \<Rightarrow> machine \<Rightarrow> (event list \<times> machine) exec" where
  "test_fork fp km ra pt m =
     (let p = cur_proc m
      in case pt of
           F_before \<Rightarrow>
             ret ([], goto (Put [cstr ''before fork()'' @ [10]] F_fork) (set_proc (\<lambda>x. x\<lparr>u_f := (u_f x)(0 := 2)\<rparr>) m))
         | F_fork \<Rightarrow> andThen (do_fork km ra (goto F_done m)) (\<lambda>m. ret ([], m))
         | F_done \<Rightarrow> ret ([], goto (Put [cstr ''fork() done'' @ [10]] F_print) m)
         | F_print \<Rightarrow>
             (let m = set_proc (\<lambda>x. x\<lparr>u_f := (u_f x)(1 := u_ret x)\<rparr>) m
              in andThen (do_printf fp (cstr ''fork() retured %d'' @ [10]) [A_word (u_f (cur_proc m) 1)] F_check m) (\<lambda>m. ret ([], m)))
         | F_check \<Rightarrow>
             ret ([], goto (if u_f p 0 \<noteq> 2 \<or> u_f p 1 \<noteq> u_ret p \<or> (\<exists>i \<in> {2..<NF}. u_f p i \<noteq> 0) then F_error else F_ok) m)
         | F_ok \<Rightarrow> andThen (do_printf fp (cstr ''%d: ok'' @ [10]) [A_word (getpid (k_task (ker m)))] Forever m) (\<lambda>m. ret ([], m))
         | F_error \<Rightarrow> andThen (do_printf fp (cstr ''no'' @ [10]) [] Forever m) (\<lambda>m. ret ([], m))
         | _ \<Rightarrow> None)"

text \<open>\<^verbatim>\<open>_start\<close> prints a greeting and calls \<^verbatim>\<open>test_sleep\<close>; one step of the process that has the processor.\<close>

definition user_step :: "'d fpu \<Rightarrow> kmalloc_fn \<Rightarrow> u32 \<Rightarrow> u32 \<Rightarrow> machine \<Rightarrow> (event list \<times> machine) exec" where
  "user_step fp km ra sa m =
     (case at (cur_proc m) of
        Hello \<Rightarrow> andThen (do_printf fp (cstr ''hello, user mode!'' @ [10]) [] S_fork m) (\<lambda>m. ret ([], m))
      | Put [] nxt \<Rightarrow> ret ([], goto nxt m)
      | Put (str # ps) nxt \<Rightarrow> andThen (do_puts str (goto (Put ps nxt) m)) (\<lambda>m. ret ([Out_str str], m))
      | Forever \<Rightarrow> ret ([], m)
      | pt \<Rightarrow> if pt \<in> {F_before, F_fork, F_done, F_print, F_check, F_ok, F_error} then test_fork fp km ra pt m
              else test_sleep fp km ra sa pt m)"


section \<open>Runs\<close>

text \<open>
  The system: the process that has the processor takes a step, or the timer interrupts it. The heap gives \<^verbatim>\<open>fork\<close> an object apart
  from the existing ones, as it promises. A trace records what each task printed, by its identifier.
\<close>

definition fork_object :: "kmalloc_fn \<Rightarrow> task_state \<Rightarrow> bool" where
  "fork_object km s \<longleftrightarrow> (\<exists>child p. km sizeof_Task_t 0 (pg s) = ret (child, p) \<and> new_object s (tasks_of s) child)"

inductive runs :: "'d fpu \<Rightarrow> kmalloc_fn \<Rightarrow> u32 \<Rightarrow> u32 \<Rightarrow> machine \<Rightarrow> (pid_t \<times> event) list \<Rightarrow> machine \<Rightarrow> bool"
  for fp km ra sa m0 where
  start: "runs fp km ra sa m0 [] m0"
| user: "runs fp km ra sa m0 evs m \<Longrightarrow> user_step fp km ra sa m = ret (es, m') \<Longrightarrow>
    at (cur_proc m) = S_fork \<longrightarrow> fork_object km (k_task (ker m)) \<Longrightarrow>
    runs fp km ra sa m0 (evs @ map (Pair (getpid (k_task (ker m)))) es) m'"
| timer: "runs fp km ra sa m0 evs m \<Longrightarrow> ra' \<noteq> 0xFFFFFFFF \<Longrightarrow> runs fp km ra sa m0 evs (m\<lparr>ker := timer_slice (ra', c, reg) (ker m)\<rparr>)"

section \<open>The two tasks of the program\<close>

text \<open>Tasks \<open>a\<close> and \<open>b\<close> with identifiers 0 and 1 and the same user; those of \<open>A\<close> are running.\<close>

definition pair_ok :: "task_state \<Rightarrow> u32 \<Rightarrow> u32 \<Rightarrow> u32 set \<Rightarrow> bool" where
  "pair_ok s a b A \<longleftrightarrow> a \<noteq> b \<and> pid (tasks s a) = 0 \<and> pid (tasks s b) = 1 \<and> uid (tasks s a) = uid (tasks s b) \<and>
     (\<exists>R S. tasks_ok s R S [] \<and> set R = A \<and> set (R @ S) = {a, b})"

lemma pair_okE:
  assumes "pair_ok s a b A" "t \<in> {a, b}"
  obtains R S where "tasks_ok s R S []" "set R = A" "set (R @ S) = {a, b}" "distinct R" "distinct S" "set R \<inter> set S = {}"
    "id2task (pid (tasks s t)) s = ret t" "may_operate t s" "current_task s \<in> A"
proof -
  from assms(1) obtain R S where ok: "tasks_ok s R S []" "set R = A" "set (R @ S) = {a, b}" by (auto simp: pair_ok_def)
  then obtain u where u: "table_ok (rbt_id2task s) (tasks s) (set (R @ S @ [])) u" and q: "queues_ok s R S []" and c: "current_task s \<in> set R"
    by (auto simp: tasks_ok_def)
  have "t \<in> set (R @ S @ [])" using ok(3) assms(2) by simp
  then have "id2task (pid (tasks s t)) s = ret t"
    using id2task_finds [OF u, of "pid (tasks s t)"] task_with_exact u unfolding table_ok_def by metis
  moreover have "current_task s \<in> {a, b}" using c ok(3) by auto
  then have "may_operate t s" using assms by (auto simp: may_operate_def pair_ok_def)
  ultimately show ?thesis using that ok c q by (auto simp: queues_ok_def)
qed

lemma pair_ok_sub: "pair_ok s a b A \<Longrightarrow> A \<subseteq> {a, b} \<and> current_task s \<in> A"
  by (auto simp: pair_ok_def tasks_ok_def)

lemma pair_ok_cong [simp]:
  "pair_ok (s\<lparr>pg := p\<rparr>) a b A = pair_ok s a b A" "pair_ok (s\<lparr>cpu := c\<rparr>) a b A = pair_ok s a b A"
  by (simp_all add: pair_ok_def)

lemma pair_okI:
  assumes "pair_ok s a b A" "\<And>t. pid (tasks s' t) = pid (tasks s t)" "\<And>t. uid (tasks s' t) = uid (tasks s t)"
    and "tasks_ok s' R S []" "set R = A'" "set (R @ S) = {a, b}"
  shows "pair_ok s' a b A'"
  using assms(1) assms(4-6) unfolding pair_ok_def assms(2,3) by blast

lemma pair_timer:
  assumes "pair_ok s a b A" "ra \<noteq> 0xFFFFFFFF"
  shows "pair_ok (time_slice (ra, c) s) a b A"
proof -
  from assms(1) obtain R S where ok: "tasks_ok s R S []" "set R = A" "set (R @ S) = {a, b}" by (auto simp: pair_ok_def)
  then have "tasks_ok (time_slice (ra, c) s) R S []" by (simp add: time_slice_def schedule_ok)
  moreover have "pid (tasks (time_slice (ra, c) s) t) = pid (tasks s t)" "uid (tasks (time_slice (ra, c) s) t) = uid (tasks s t)" for t
    by (simp_all add: slice_context [OF assms(2)] upd_task_def saved_def)
  ultimately show ?thesis using pair_okI [OF assms(1)] ok(2,3) by blast
qed

lemma pair_wakeup:
  assumes "pair_ok s a b A" "t \<in> {a, b}"
  shows "\<exists>s'. wakeup (pid (tasks s t)) s = ret (Returned 0, s') \<and> pair_ok s' a b (insert t A) \<and> current_task s' = current_task s"
proof -
  from assms obtain R S where ok: "tasks_ok s R S []" "set R = A" "set (R @ S) = {a, b}" "distinct R" "distinct S" "set R \<inter> set S = {}"
    and t: "id2task (pid (tasks s t)) s = ret t" "may_operate t s" by (rule pair_okE)
  show ?thesis
  proof (cases "t \<in> set R")
    case True
    then have "insert t A = A" using ok(2) by auto
    then show ?thesis using wakeup_running [OF ok(1) t(1) True t(2)] assms(1) by auto
  next
    case False
    then have S: "t \<in> set S" using ok(3) assms(2) by auto
    from wakeup_sleeping [OF ok(1) t(1) S t(2)] obtain s' where s': "wakeup (pid (tasks s t)) s = ret (Returned 0, s')"
      "moved t TS_RUNNING s s'" "tasks_ok s' (insert_after t R) (remove1 t S) []" by blast
    have "set (insert_after t R) = insert t A" "set (insert_after t R @ remove1 t S) = {a, b}"
      using ok S by (auto simp: set_remove1_eq)
    then have "pair_ok s' a b (insert t A)" using pair_okI [OF assms(1)] s'(3) movedD(7,8) [OF s'(2)] by blast
    then show ?thesis using s'(1) movedD(3) [OF s'(2)] by auto
  qed
qed

lemma slept_fields:
  assumes "slept t sigs (snd (CLI_SAVE_EFLAGS s)) s'"
  shows "pid (tasks s' x) = pid (tasks s x)" "uid (tasks s' x) = uid (tasks s x)" "current_task s' = current_task s"
proof -
  from assms obtain s2 where mv: "moved t TS_SLEEPING (snd (CLI_SAVE_EFLAGS s)) s2"
    and s': "s' = set_task t (\<lambda>x. x\<lparr>sig_wakeup := Sigset_assign sigs (sig_wakeup x)\<rparr>) s2" by (auto simp: slept_def)
  show "pid (tasks s' x) = pid (tasks s x)" "uid (tasks s' x) = uid (tasks s x)" "current_task s' = current_task s"
    using movedD(3,7,8) [OF mv] by (simp_all add: s' set_task_def upd_task_def CLI_SAVE_EFLAGS_def Let_def)
qed

lemma pair_sleep_other:
  assumes "pair_ok s a b A" "t \<in> {a, b}" "t \<noteq> current_task s"
  shows "\<exists>s'. sleep ra (pid (tasks s t)) sigs s = ret (Returned 0, s') \<and> pair_ok s' a b (A - {t}) \<and> current_task s' = current_task s"
proof -
  from assms(1,2) obtain R S where ok: "tasks_ok s R S []" "set R = A" "set (R @ S) = {a, b}" "distinct R" "distinct S" "set R \<inter> set S = {}"
    and t: "id2task (pid (tasks s t)) s = ret t" "may_operate t s" and c: "current_task s \<in> A" by (rule pair_okE)
  show ?thesis
  proof (cases "t \<in> set S")
    case True
    then have "A - {t} = A" using ok(2,6) by auto
    then show ?thesis using sleep_sleeping [OF ok(1) t(1) True t(2)] assms(1) by auto
  next
    case False
    then have R: "t \<in> set R" using ok(3) assms(2) by auto
    from sleep_running [OF ok(1) t(1) R t(2), of sigs ra] assms(3) obtain s0
      where s0: "slept t sigs (snd (CLI_SAVE_EFLAGS s)) s0" "queues_ok s0 (remove1 t R) (insert_after t S) []"
        "sleep ra (pid (tasks s t)) sigs s = ret (Returned 0, RESTORE_EFLAGS (r_eflags (cpu s)) s0)" by auto
    let ?s' = "RESTORE_EFLAGS (r_eflags (cpu s)) s0"
    have sets: "set (remove1 t R) = A - {t}" "set (remove1 t R @ insert_after t S) = {a, b}" using ok R by (auto simp: set_remove1_eq)
    have "current_task s \<in> set (remove1 t R)" using c sets(1) assms(3) by simp
    note in_rest = this
    have "s0\<lparr>current_task := current_task s\<rparr> = s0" using slept_fields(3) [OF s0(1)] by simp
    then have "tasks_ok ?s' (remove1 t R) (insert_after t S) []" using slept_ok [OF ok(1) s0(1) R s0(2) in_rest] by simp
    moreover have "pid (tasks ?s' x) = pid (tasks s x)" "uid (tasks ?s' x) = uid (tasks s x)" for x
      using slept_fields [OF s0(1)] by (simp_all add: RESTORE_EFLAGS_def)
    ultimately have "pair_ok ?s' a b (A - {t})" using pair_okI [OF assms(1)] sets by blast
    then show ?thesis using s0(3) slept_fields(3) [OF s0(1)] by (simp add: RESTORE_EFLAGS_def)
  qed
qed

lemma pair_sleep_self:
  assumes "pair_ok s a b {a, b}" "t = current_task s" "ra \<noteq> 0xFFFFFFFF"
  shows "\<exists>s'. sleep ra (pid (tasks s t)) sigs s = ret (Jumped, s') \<and> pair_ok s' a b ({a, b} - {t})"
proof -
  have t: "t \<in> {a, b}" using pair_ok_sub [OF assms(1)] assms(2) by blast
  from assms(1) t obtain R S where ok: "tasks_ok s R S []" "set R = {a, b}" "set (R @ S) = {a, b}" "distinct R" "distinct S" "set R \<inter> set S = {}"
    and id: "id2task (pid (tasks s t)) s = ret t" "may_operate t s" by (rule pair_okE)
  have R: "t \<in> set R" "ring (tasks s) (running s) R" using ok t by (auto simp: tasks_ok_def queues_ok_def)
  have "card (set R) = 2" using ok(2) assms(1) by (simp add: pair_ok_def)
  then have "2 \<le> length R" using distinct_card [OF ok(4)] by simp
  then have neq: "get_next_task s \<noteq> current_task s"
    using ring_next_neq [OF R(2,1)] assms(2) by (simp add: get_next_task_def)
  from sleep_running [OF ok(1) id(1) R(1) id(2), of sigs ra] assms(2) obtain s0
    where s0: "slept t sigs (snd (CLI_SAVE_EFLAGS s)) s0" "queues_ok s0 (remove1 t R) (insert_after t S) []"
      "sleep ra (pid (tasks s t)) sigs s = ret (sleep_after ra (get_next_task s) (r_eflags (cpu s)) s0)" by auto
  obtain f s' where s': "(f, s') = sleep_after ra (get_next_task s) (r_eflags (cpu s)) s0" by (metis surj_pair)
  have res: "f = Jumped" "tasks_ok s' (remove1 t R) (insert_after t S) []"
    using sleep_self(1,2) [OF ok(1) _ assms(3) _ _ next_in_rest [OF ok(1) neq] s', of "pid (tasks s t)" sigs] id(1) s0(1,2) assms(2) by simp_all
  have "pid (tasks s' x) = pid (tasks s x)" "uid (tasks s' x) = uid (tasks s x)" for x
    using s' slept_fields [OF s0(1)]
    by (simp_all add: sleep_after_jumps [OF assms(3)] switch_task_def Let_def set_task_def upd_task_def saved_def)
  moreover have "set (remove1 t R) = {a, b} - {t}" "set (remove1 t R @ insert_after t S) = {a, b}" using ok R t by (auto simp: set_remove1_eq)
  ultimately have "pair_ok s' a b ({a, b} - {t})" using pair_okI [OF assms(1)] res(2) by blast
  then show ?thesis using s0(3) s' [symmetric] res(1) by auto
qed

text \<open>\<^verbatim>\<open>fork\<close> by the only task, 0: the child is task 1.\<close>

definition alone_ok :: "task_state \<Rightarrow> u32 \<Rightarrow> bool" where
  "alone_ok s a \<longleftrightarrow> tasks_ok s [a] [] [] \<and> pid (tasks s a) = 0 \<and> pid_next s = 1"

lemma alone_timer: "alone_ok s a \<Longrightarrow> ra \<noteq> 0xFFFFFFFF \<Longrightarrow> alone_ok (time_slice (ra, c) s) a"
  by (simp add: alone_ok_def time_slice_def schedule_ok)
    (auto simp: schedule_jumps switch_task_def set_task_def upd_task_def saved_def Let_def)

lemma alone_current: "alone_ok s a \<Longrightarrow> current_task s = a"
  by (simp add: alone_ok_def tasks_ok_def)

lemma alone_fork:
  assumes "alone_ok s a" "fork_object km s" "fork km ra s = ret (n, s')"
  shows "pair_ok s' a (latest_task s') {a, latest_task s'} \<and> current_task s' = a \<and> n = 1"
proof -
  from assms(1) have ok: "tasks_ok s [a] [] []" "pid (tasks s a) = 0" "pid_next s = 1" by (simp_all add: alone_ok_def)
  have cur: "current_task s = a" by (rule alone_current [OF assms(1)])
  have "a \<in> tasks_of s" using ok(1) by (force simp: tasks_of_def)
  then obtain child p1 where km: "km sizeof_Task_t 0 (pg s) = ret (child, p1)" and new: "new_object s (set ([a] @ [] @ [])) child"
    using assms(2) new_object_mono [of s "tasks_of s" _ "{a}"] by (auto simp: fork_object_def)
  obtain dir p2 where dir: "clone_directory km (current_page_dir p1) p1 = ret (dir, p2)"
    using km assms(3) by (auto simp: fork_def CLI_SAVE_EFLAGS_def Let_def)
  have "\<forall>x \<in> set ([a] @ [] @ []). pid (tasks s x) < 0xFFFFFFFF" using ok(2) by simp
  from tasks_ok_fork [OF ok(1) new this km dir, of ra] obtain n0 s0 where
    f0: "fork km ra s = ret (n0, s0)" "tasks_ok s0 (insert_after child [a]) [] []" "latest_task s0 = child"
      "(\<forall>x \<in> set ([a] @ [] @ []). pid (tasks s x) < pid_next s) \<longrightarrow> n0 = pid_next s" "current_task s0 = current_task s"
      "\<forall>x. x \<noteq> child \<longrightarrow> task_data (tasks s0) x = task_data (tasks s) x"
      "task_data (tasks s0) child = (saved (r_esp (cpu s)) (r_ebp (cpu s)) ra (new_task n0 dir (tasks s child)))
        \<lparr>parent := current_task s, uid := uid (tasks s (current_task s)), gid := gid (tasks s (current_task s))\<rparr>" by blast
  have same: "n0 = n" "s0 = s'" using f0(1) assms(3) by simp_all
  have f: "tasks_ok s' (insert_after child [a]) [] []" "latest_task s' = child" "n = 1" "current_task s' = a"
      "task_data (tasks s') a = task_data (tasks s) a \<or> a = child"
      "task_data (tasks s') child = (saved (r_esp (cpu s)) (r_ebp (cpu s)) ra (new_task n dir (tasks s child)))
        \<lparr>parent := a, uid := uid (tasks s a), gid := gid (tasks s a)\<rparr>"
    using f0(2-) ok(2,3) unfolding same cur by (simp_all, blast)
  have neq: "a \<noteq> child" using new_object_notin [OF new] by auto
  have sel: "pid (tasks s' x) = pid (task_data (tasks s') x)" "uid (tasks s' x) = uid (task_data (tasks s') x)" for x
    by (simp_all add: task_data_def)
  have "pid (tasks s' a) = 0" "uid (tasks s' a) = uid (tasks s a)" using f(5) neq ok(2) unfolding sel by (simp_all add: task_data_def)
  moreover have "pid (tasks s' child) = 1" "uid (tasks s' child) = uid (tasks s a)"
    unfolding sel f(6) using f(3) by (simp_all add: saved_def new_task_def)
  moreover have "set (insert_after child [a]) = {a, child}" by auto
  ultimately show ?thesis using f(1-4) neq unfolding pair_ok_def f(2)
    by (intro conjI exI [of _ "insert_after child [a]"] exI [of _ "[]"]) simp_all
qed

section \<open>Steps of \<open>test_sleep\<close>\<close>

text \<open>How far a process is inside the loop body, and the position with the loop counter.\<close>

fun stage :: "point \<Rightarrow> nat" where
  "stage S_getpid = 0" | "stage S_first = 1" | "stage S_ten = 2" | "stage S_twenty = 3" | "stage S_print = 4"
| "stage (S_delay j) = 5" | "stage (Put ps nxt) = (if nxt = S_delay 0 then 5 else 6)" | "stage pt = 6"

definition pos :: "proc \<Rightarrow> nat" where
  "pos x = 8 * unat (u_i x) + stage (at x)"

text \<open>The call a process makes on the tasks.\<close>

definition call_on :: "u32 \<Rightarrow> u32 \<Rightarrow> proc \<Rightarrow> task_state \<Rightarrow> task_state exec" where
  "call_on ra sa x s =
     (let sleep_p = (\<lambda>p. andThen (sys_sleep ra p sa (s\<lparr>pg := (pg s)\<lparr>kmem := lib_Sigset_new sa (kmem (pg s))\<rparr>\<rparr>)) (\<lambda>(_, s). ret s));
          wake_p = (\<lambda>p. andThen (wakeup p s) (\<lambda>(_, s). ret s))
      in if at x = S_first \<and> u_pid x = 0 then sleep_p 0
         else if at x = S_ten \<and> u_i x = 10 \<and> u_pid x = 1 then wake_p 0
         else if at x = S_ten \<and> u_i x = 10 \<and> u_pid x = 0 then sleep_p 1
         else if at x = S_twenty \<and> u_i x = 20 \<and> u_pid x = 0 then wake_p 1
         else ret s)"

text \<open>The strings of a list of events, and printing them on the console.\<close>

fun text_of :: "event \<Rightarrow> u8 list" where
  "text_of (Out_str str) = str"
| "text_of (Line i) = []"

definition on_screen :: "event list \<Rightarrow> kernel \<Rightarrow> kernel \<Rightarrow> bool" where
  "on_screen es k k' \<longleftrightarrow> (console_ok (k_log k) \<longrightarrow> console_ok (k_log k') \<and> top_color (k_log k') = top_color (k_log k) \<and>
     terminal_of (k_log k') = fold (term_put (top_color (k_log k))) (concat (map text_of es)) (terminal_of (k_log k)))"

lemma on_screen_refl: "concat (map text_of es) = [] \<Longrightarrow> on_screen es k k"
  unfolding on_screen_def by (simp del: concat_eq_Nil_conv)

lemma on_screen_trans: "on_screen es k k1 \<Longrightarrow> on_screen es' k1 k2 \<Longrightarrow> on_screen (es @ es') k k2"
  by (simp add: on_screen_def)

lemma do_puts_on_screen: "\<exists>k. do_puts str m = ret (m\<lparr>ker := k\<rparr>) \<and> on_screen [Out_str str] (ker m) k \<and> k_task k = k_task (ker m)"
proof -
  let ?l = "(k_log (ker m))\<lparr>kio := k_io (ker m)\<rparr>"
  have "console_ok (k_log (ker m)) \<Longrightarrow> console_ok ?l" "terminal_of ?l = terminal_of (k_log (ker m))" "top_color ?l = top_color (k_log (ker m))"
    by (simp_all add: console_ok_def terminal_of_def top_color_def)
  then have "on_screen [Out_str str] (ker m) ((ker m)\<lparr>k_log := puts str ?l, k_io := kio (puts str ?l)\<rparr>)" (is "on_screen _ _ ?k")
    using fold_puts_terminal [of ?l "[str]"] by (simp add: on_screen_def)
  then show ?thesis by (intro exI [of _ ?k]) (simp add: do_puts_def with_log_def)
qed

lemma do_printf_returns:
  assumes "format_text fmt args = Some out" "0 \<notin> set fmt" "u_putc_buf (u_mem (cur_proc m)) 1 = 0"
  shows "\<exists>u. do_printf fp fmt args nxt m = ret (set_proc (\<lambda>x. x\<lparr>u_mem := u, at := Put (u_puts u) nxt\<rparr>) m) \<and> u_putc_buf u 1 = 0"
  using user_vprintf_text [OF assms(1,2), of "(u_mem (cur_proc m))\<lparr>u_puts := []\<rparr>" fp None] assms(3)
  by (auto simp: do_printf_def user_printf_def prints_def)

text \<open>One step: the process moves on, its text appears, and the tasks see its call.\<close>

definition moves_on :: "pid_t \<Rightarrow> proc \<Rightarrow> event list \<Rightarrow> proc \<Rightarrow> bool" where
  "moves_on p x es x' \<longleftrightarrow> u_putc_buf (u_mem x') 1 = 0 \<and> u_pid x' = (if at x = S_getpid then p else u_pid x) \<and>
     (if stage (at x) = 4 then es = [Line (u_i x)] else es = [] \<or> (\<exists>str. es = [Out_str str] \<and> stage (at x) = 5)) \<and>
     (if stage (at x) < 5 then stage (at x') = stage (at x) + 1 \<and> u_i x' = u_i x
      else stage (at x') = 5 \<and> u_i x' = u_i x \<or> stage (at x') = 2 \<and> u_i x' = u_i x + 1)"

lemmas machine_defs = goto_def set_proc_def cur_proc_def cur_def set_tasks_def do_sleep_def do_wakeup_def

lemma machine_upd: "m\<lparr>prog := p, ker := k\<rparr> = \<lparr>ker = k, prog = p\<rparr>"
  by simp

lemma line_format:
  "\<exists>out. format_text (cstr ''pid %d: %d'' @ [10]) [A_word v :: 'd arg, A_word w] = Some out" "0 \<notin> set (cstr ''pid %d: %d'' @ [10])"
  by (simp_all add: cstr_def conversion_text.simps)

lemma stage_cases:
  assumes "stage pt \<le> 5"
  obtains "pt = S_getpid" | "pt = S_first" | "pt = S_ten" | "pt = S_twenty" | "pt = S_print" | j where "pt = S_delay j"
    | "pt = Put [] (S_delay 0)" | str ps where "pt = Put (str # ps) (S_delay 0)"
proof (cases pt)
  case (Put qs nxt)
  then show ?thesis using assms that(7,8) by (cases qs) (auto split: if_splits)
qed (use assms that in simp_all)

lemma sleep_step:
  fixes m :: machine and fp :: "'d fpu"
  defines "x \<equiv> cur_proc m" and "s \<equiv> k_task (ker m)"
  assumes "stage (at x) \<le> 5" "u_putc_buf (u_mem x) 1 = 0"
  shows "\<exists>es x' k'. user_step fp km ra sa m = andThen (call_on ra sa x s) (\<lambda>s'. ret (es, \<lparr>ker = k'\<lparr>k_task := s'\<rparr>, prog = (prog m)(cur m := x')\<rparr>)) \<and>
    moves_on (getpid s) x es x' \<and> on_screen es (ker m) k'"
  using assms(3)
proof (cases rule: stage_cases)
  case 5
  obtain out where "format_text (cstr ''pid %d: %d'' @ [10]) [A_word (u_pid x) :: 'd arg, A_word (u_i x)] = Some out" using line_format(1) by blast
  from do_printf_returns [OF this line_format(2) assms(4) [unfolded x_def], of fp "S_delay 0"] obtain u where
    u: "do_printf fp (cstr ''pid %d: %d'' @ [10]) [A_word (u_pid x), A_word (u_i x)] (S_delay 0) m =
      ret (set_proc (\<lambda>x. x\<lparr>u_mem := u, at := Put (u_puts u) (S_delay 0)\<rparr>) m)" "u_putc_buf u 1 = 0" by blast
  then show ?thesis using 5 unfolding user_step_def test_sleep_def x_def [symmetric]
    by (intro exI [of _ "[Line (u_i x)]"] exI [of _ "x\<lparr>u_mem := u, at := Put (u_puts u) (S_delay 0)\<rparr>"] exI [of _ "ker m"])
      (simp add: call_on_def moves_on_def on_screen_refl machine_defs machine_upd x_def s_def Let_def split_beta)
next
  case (8 str ps)
  from do_puts_on_screen [of str "goto (Put ps (S_delay 0)) m"] obtain k where
    k: "do_puts str (goto (Put ps (S_delay 0)) m) = ret ((goto (Put ps (S_delay 0)) m)\<lparr>ker := k\<rparr>)" "on_screen [Out_str str] (ker m) k" "k_task k = k_task (ker m)"
    by (auto simp: machine_defs)
  then show ?thesis using 8 assms(4) unfolding user_step_def x_def [symmetric]
    by (intro exI [of _ "[Out_str str]"] exI [of _ "x\<lparr>at := Put ps (S_delay 0)\<rparr>"] exI [of _ k])
      (simp add: call_on_def moves_on_def machine_defs machine_upd x_def s_def Let_def split_beta)
next
  case (6 j)
  then show ?thesis using assms(4) unfolding user_step_def test_sleep_def x_def [symmetric]
    by (intro exI [of _ "[]"] exI [of _ "if j < S_DELAY then x\<lparr>at := S_delay (j + 1)\<rparr> else x\<lparr>u_i := u_i x + 1, at := S_ten\<rparr>"] exI [of _ "ker m"])
      (simp add: call_on_def moves_on_def on_screen_refl machine_defs machine_upd x_def s_def Let_def split_beta)
next
  case 7
  then show ?thesis using assms(4) unfolding user_step_def test_sleep_def x_def [symmetric]
    by (intro exI [of _ "[]"] exI [of _ "x\<lparr>at := S_delay 0\<rparr>"] exI [of _ "ker m"])
      (simp add: call_on_def moves_on_def on_screen_refl machine_defs machine_upd x_def s_def Let_def split_beta)
next
  case 1
  then show ?thesis using assms(4) unfolding user_step_def test_sleep_def x_def [symmetric]
    by (intro exI [of _ "[]"] exI [of _ "x\<lparr>u_pid := getpid s, at := S_first\<rparr>"] exI [of _ "ker m"])
      (simp add: call_on_def moves_on_def on_screen_refl machine_defs machine_upd x_def s_def Let_def split_beta)
next
  case 2
  then show ?thesis using assms(4) unfolding user_step_def test_sleep_def x_def [symmetric]
    by (intro exI [of _ "[]"] exI [of _ "x\<lparr>at := S_ten\<rparr>"] exI [of _ "ker m"])
      (simp add: call_on_def moves_on_def on_screen_refl machine_defs machine_upd x_def s_def Let_def split_beta)
next
  case 3
  then show ?thesis using assms(4) unfolding user_step_def test_sleep_def x_def [symmetric]
    by (intro exI [of _ "[]"] exI [of _ "x\<lparr>at := S_twenty\<rparr>"] exI [of _ "ker m"])
      (simp add: call_on_def moves_on_def on_screen_refl machine_defs machine_upd x_def s_def Let_def split_beta)
next
  case 4
  then show ?thesis using assms(4) unfolding user_step_def test_sleep_def x_def [symmetric]
    by (intro exI [of _ "[]"] exI [of _ "x\<lparr>at := S_print\<rparr>"] exI [of _ "ker m"])
      (simp add: call_on_def moves_on_def on_screen_refl machine_defs machine_upd x_def s_def Let_def split_beta)
qed

section \<open>The order of the output\<close>

text \<open>
  A line 10 of task 0 without line 19 yet; whether task 1 kept silent in between; and whether task 0 prints lines only after line 9 of task 1.
\<close>

definition pending :: "(pid_t \<times> event) list \<Rightarrow> bool" where
  "pending evs \<longleftrightarrow> (\<exists>u v. evs = u @ (0, Line 10) # v \<and> (0, Line 19) \<notin> set v)"

definition silent :: "(pid_t \<times> event) list \<Rightarrow> bool" where
  "silent evs \<longleftrightarrow> (\<forall>u v e w. evs = u @ (0, Line 10) # v @ (1, e) # w \<longrightarrow> (0, Line 19) \<in> set v)"

definition waits :: "(pid_t \<times> event) list \<Rightarrow> bool" where
  "waits evs \<longleftrightarrow> (\<forall>u i v. evs = u @ (0, Line i) # v \<longrightarrow> (1, Line 9) \<in> set u)"

lemma pending_snoc: "pending (evs @ [e]) \<longleftrightarrow> e = (0, Line 10) \<or> e \<noteq> (0, Line 19) \<and> pending evs"
proof
  assume "pending (evs @ [e])"
  then obtain u v where "evs @ [e] = u @ (0, Line 10) # v" "(0, Line 19) \<notin> set v" by (auto simp: pending_def)
  then show "e = (0, Line 10) \<or> e \<noteq> (0, Line 19) \<and> pending evs"
    by (cases v rule: rev_cases) (auto simp: pending_def append_eq_append_conv2 Cons_eq_append_conv)
next
  assume "e = (0, Line 10) \<or> e \<noteq> (0, Line 19) \<and> pending evs"
  then show "pending (evs @ [e])"
  proof
    assume "e = (0, Line 10)"
    then show ?thesis unfolding pending_def by (intro exI [of _ evs] exI [of _ "[]"]) simp
  next
    assume e: "e \<noteq> (0, Line 19) \<and> pending evs"
    then obtain u v where "evs = u @ (0, Line 10) # v" "(0, Line 19) \<notin> set v" by (auto simp: pending_def)
    then show ?thesis using e unfolding pending_def by (intro exI [of _ u] exI [of _ "v @ [e]"]) auto
  qed
qed

lemma silent_snoc: "silent (evs @ [(p, e)]) \<longleftrightarrow> silent evs \<and> (p = 1 \<longrightarrow> \<not> pending evs)"
proof -
  have "silent (evs @ [(p, e)])" if "silent evs" "p = 1 \<longrightarrow> \<not> pending evs"
    unfolding silent_def
  proof (intro allI impI)
    fix u v f w
    assume eq: "evs @ [(p, e)] = u @ (0, Line 10) # v @ (1, f) # w"
    show "(0, Line 19) \<in> set v"
    proof (cases w rule: rev_cases)
      case Nil
      then have "evs @ [(p, e)] = (u @ (0, Line 10) # v) @ [(1, f)]" using eq by simp
      then have "evs = u @ (0, Line 10) # v" "p = 1" unfolding append1_eq_conv by simp_all
      then show ?thesis using that(2) by (auto simp: pending_def)
    next
      case (snoc w' y)
      then have "evs = u @ (0, Line 10) # v @ (1, f) # w'" using eq by simp
      then show ?thesis using that(1) unfolding silent_def by blast
    qed
  qed
  moreover have "silent evs" if "silent (evs @ [(p, e)])"
    unfolding silent_def
  proof (intro allI impI)
    fix u v f w
    assume "evs = u @ (0, Line 10) # v @ (1, f) # w"
    then have "evs @ [(p, e)] = u @ (0, Line 10) # v @ (1, f) # (w @ [(p, e)])" by simp
    then show "(0, Line 19) \<in> set v" using that unfolding silent_def by blast
  qed
  moreover have "\<not> pending evs" if "silent (evs @ [(p, e)])" "p = 1"
  proof
    assume "pending evs"
    then obtain u v where "evs = u @ (0, Line 10) # v" "(0, Line 19) \<notin> set v" by (auto simp: pending_def)
    then show False using that unfolding silent_def by (metis append.assoc append_Cons)
  qed
  ultimately show ?thesis by blast
qed

lemma waits_snoc: "waits (evs @ [(p, e)]) \<longleftrightarrow> waits evs \<and> (p = 0 \<and> (\<exists>i. e = Line i) \<longrightarrow> (1, Line 9) \<in> set evs)"
proof -
  have "(1, Line 9) \<in> set u" if "waits evs" "p = 0 \<and> (\<exists>i. e = Line i) \<longrightarrow> (1, Line 9) \<in> set evs" "evs @ [(p, e)] = u @ (0, Line i) # v" for u i v
    using that by (cases v rule: rev_cases) (auto simp: waits_def)
  moreover have "waits evs" if "waits (evs @ [(p, e)])"
    unfolding waits_def
  proof (intro allI impI)
    fix u i v
    assume "evs = u @ (0, Line i) # v"
    then have "evs @ [(p, e)] = u @ (0, Line i) # (v @ [(p, e)])" by simp
    then show "(1, Line 9) \<in> set u" using that unfolding waits_def by blast
  qed
  moreover have "(1, Line 9) \<in> set evs" if "waits (evs @ [(0, Line i)])" for i
    using that unfolding waits_def by blast
  ultimately show ?thesis by (auto simp: waits_def [of "evs @ [(p, e)]"])
qed

section \<open>The invariant\<close>

definition proc_ok :: "pid_t \<Rightarrow> proc \<Rightarrow> (pid_t \<times> event) list \<Rightarrow> bool" where
  "proc_ok p x evs \<longleftrightarrow> u_putc_buf (u_mem x) 1 = 0 \<and> stage (at x) \<le> 5 \<and> (0 < stage (at x) \<longrightarrow> u_pid x = p) \<and>
     (stage (at x) < 2 \<longrightarrow> u_i x = 0) \<and>
     (2 \<le> stage (at x) \<and> stage (at x) < 5 \<and> u_i x \<noteq> 0 \<longrightarrow> (p, Line (u_i x - 1)) \<in> set evs) \<and>
     (stage (at x) = 5 \<longrightarrow> (p, Line (u_i x)) \<in> set evs)"

text \<open>
  Task 0 is before its own sleep, asleep, or woken by task 1; and once woken it keeps task 1 asleep exactly from its statement at 10 to the one
  at 20.
\<close>

definition both_ok :: "machine \<Rightarrow> u32 \<Rightarrow> u32 \<Rightarrow> u32 set \<Rightarrow> (pid_t \<times> event) list \<Rightarrow> bool" where
  "both_ok m a b A evs \<longleftrightarrow> pair_ok (k_task (ker m)) a b A \<and> proc_ok 0 (prog m a) evs \<and> proc_ok 1 (prog m b) evs \<and>
     (let x = prog m a in
       (stage (at x) < 2 \<longrightarrow> A = {a, b} \<and> (\<forall>i. (0, Line i) \<notin> set evs)) \<and>
       (2 \<le> stage (at x) \<and> a \<notin> A \<longrightarrow> pos x = 2 \<and> (\<forall>i. (0, Line i) \<notin> set evs)) \<and>
       (2 \<le> stage (at x) \<and> a \<in> A \<longrightarrow> (1, Line 9) \<in> set evs \<and> (b \<in> A \<longleftrightarrow> \<not> (83 \<le> pos x \<and> pos x \<le> 163))) \<and>
       (pending evs \<longrightarrow> 85 \<le> pos x \<and> pos x \<le> 156)) \<and> silent evs \<and> waits evs"

lemma proc_ok_mono: "proc_ok p x evs \<Longrightarrow> proc_ok p x (evs @ w)"
  by (auto simp: proc_ok_def)

lemma proc_ok_moves:
  assumes "proc_ok p x evs" "moves_on p x es x'"
  shows "proc_ok p x' (evs @ map (Pair p) es)"
proof (cases "stage (at x) < 5")
  case True
  have "at x = S_getpid" if "stage (at x) = 0" using that by (cases "at x") (auto split: if_splits)
  then have "stage (at x) = 0 \<longleftrightarrow> at x = S_getpid" by auto
  then show ?thesis using assms True by (auto simp: proc_ok_def moves_on_def split: if_splits)
next
  case False
  then show ?thesis using assms by (auto simp: proc_ok_def moves_on_def split: if_splits)
qed

lemma unat_inc: "unat (w + 1 :: u32) = (if w = 0xFFFFFFFF then 0 else unat w + 1)"
proof (cases "w = 0xFFFFFFFF")
  case False
  moreover have "(0xFFFFFFFF :: u32) = - 1" by simp
  ultimately have "w + 1 \<noteq> 0" by (metis eq_neg_iff_add_eq_0)
  then show ?thesis using False unatSuc [of w] by (simp add: add.commute)
qed simp

lemma call_b:
  assumes "pair_ok s a b A" "current_task s = b" "proc_ok 1 x evs"
  shows "\<exists>s'. call_on ra sa x s = ret s' \<and> pair_ok s' a b (if at x = S_ten \<and> u_i x = 10 then insert a A else A)"
proof -
  have "u_pid x = 1" if "at x = S_ten \<or> at x = S_twenty \<or> at x = S_first" using assms(3) that by (auto simp: proc_ok_def)
  moreover have "pid (tasks s a) = 0" using assms(1) by (simp add: pair_ok_def)
  ultimately show ?thesis using assms(1) pair_wakeup [OF assms(1), of a] by (auto simp: call_on_def)
qed

lemma call_a:
  assumes "pair_ok s a b A" "current_task s = a" "proc_ok 0 x evs" "at x = S_first \<Longrightarrow> A = {a, b}" "ra \<noteq> 0xFFFFFFFF"
  shows "\<exists>s'. call_on ra sa x s = ret s' \<and> pair_ok s' a b
    (if at x = S_first then {b} else if at x = S_ten \<and> u_i x = 10 then A - {b} else if at x = S_twenty \<and> u_i x = 20 then insert b A else A)"
proof -
  have u: "u_pid x = 0" if "at x = S_ten \<or> at x = S_twenty \<or> at x = S_first" using assms(3) that by (auto simp: proc_ok_def)
  let ?s = "s\<lparr>pg := (pg s)\<lparr>kmem := lib_Sigset_new sa (kmem (pg s))\<rparr>\<rparr>"
  have p: "pair_ok ?s a b A" "pid (tasks ?s a) = 0" "pid (tasks ?s b) = 1" "current_task ?s = a" "a \<noteq> b" "pid (tasks s b) = 1"
    using assms(1,2) by (simp_all add: pair_ok_def)
  consider "at x = S_first" | "at x = S_ten" "u_i x = 10" | "at x = S_twenty" "u_i x = 20"
    | "\<not> (at x = S_first \<or> at x = S_ten \<and> u_i x = 10 \<or> at x = S_twenty \<and> u_i x = 20)" by blast
  then show ?thesis
  proof cases
    case 1
    then have "pair_ok ?s a b {a, b}" using p(1) assms(4) by simp
    moreover have "{a, b} - {a} = {b}" using p(5) by auto
    ultimately obtain s' where "sleep ra 0 (load_Sigset sa (kmem (pg ?s))) ?s = ret (Jumped, s')" "pair_ok s' a b {b}"
      using pair_sleep_self [of ?s a b a ra "load_Sigset sa (kmem (pg ?s))", OF _ p(4) [symmetric] assms(5)] unfolding p(2) by metis
    then show ?thesis using 1 u by (simp add: call_on_def sys_sleep_def)
  next
    case 2
    obtain s' where "sleep ra 1 (load_Sigset sa (kmem (pg ?s))) ?s = ret (Returned 0, s')" "pair_ok s' a b (A - {b})"
      using pair_sleep_other [OF p(1), of b ra "load_Sigset sa (kmem (pg ?s))"] p(5) unfolding p(3,4) by blast
    then show ?thesis using 2 u by (simp add: call_on_def sys_sleep_def)
  next
    case 3
    then show ?thesis using pair_wakeup [OF assms(1), of b] p(6) u by (auto simp: call_on_def)
  next
    case 4
    then show ?thesis using assms(1) u by (auto simp: call_on_def)
  qed
qed

lemma on_screen_task [simp]: "on_screen es k (k'\<lparr>k_task := s\<rparr>) = on_screen es k k'"
  by (simp add: on_screen_def)

text \<open>What a step shows, at most one event.\<close>

lemma moves_on_events:
  assumes "moves_on p x es x'"
  obtains "es = []" | str where "es = [Out_str str]" "stage (at x) = 5" | "es = [Line (u_i x)]" "stage (at x) = 4"
  using assms by (auto simp: moves_on_def split: if_splits)

lemma pos_moves:
  assumes "moves_on p x es x'" "stage (at x) \<le> 5"
  shows "stage (at x) < 5 \<Longrightarrow> pos x' = pos x + 1"
    and "stage (at x) = 5 \<Longrightarrow> pos x' = pos x \<and> stage (at x') = 5 \<or> stage (at x') = 2 \<and> (pos x' = 2 \<and> pos x > 1000 \<or> pos x' = pos x + 5)"
  using assms by (auto simp: moves_on_def pos_def unat_inc split: if_splits)

lemma stage_points:
  "stage pt = 0 \<longleftrightarrow> pt = S_getpid" "stage pt = 1 \<longleftrightarrow> pt = S_first" "stage pt = 2 \<longleftrightarrow> pt = S_ten" "stage pt = 3 \<longleftrightarrow> pt = S_twenty"
  "stage pt = 4 \<longleftrightarrow> pt = S_print"
  by (cases pt; simp)+

lemma unat_is: "unat (w :: u32) = 10 \<longleftrightarrow> w = 10" "unat (w :: u32) = 19 \<longleftrightarrow> w = 19" "unat (w :: u32) = 20 \<longleftrightarrow> w = 20"
  by (simp_all add: word_unat_eq_iff)

lemma both_step_b:
  assumes ok: "both_ok m a b A evs" and cur: "cur m = b"
  shows "\<exists>es m' A'. user_step fp km ra sa m = ret (es, m') \<and> both_ok m' a b A' (evs @ map (Pair 1) es) \<and> on_screen es (ker m) (ker m')"
proof -
  let ?s = "k_task (ker m)" and ?x = "prog m b" and ?y = "prog m a"
  have p: "pair_ok ?s a b A" "proc_ok 0 ?y evs" "proc_ok 1 ?x evs" and tr: "silent evs" "waits evs" "pending evs \<longrightarrow> 85 \<le> pos ?y \<and> pos ?y \<le> 156"
    and y: "stage (at ?y) < 2 \<longrightarrow> A = {a, b} \<and> (\<forall>i. (0, Line i) \<notin> set evs)"
      "2 \<le> stage (at ?y) \<and> a \<notin> A \<longrightarrow> pos ?y = 2 \<and> (\<forall>i. (0, Line i) \<notin> set evs)"
      "2 \<le> stage (at ?y) \<and> a \<in> A \<longrightarrow> (1, Line 9) \<in> set evs \<and> (b \<in> A \<longleftrightarrow> \<not> (83 \<le> pos ?y \<and> pos ?y \<le> 163))"
    using ok by (simp_all add: both_ok_def Let_def)
  have b: "current_task ?s = b" "cur_proc m = ?x" "getpid ?s = 1" "a \<noteq> b" "b \<in> A"
    using cur p(1) pair_ok_sub [OF p(1)] by (auto simp: cur_def cur_proc_def getpid_def pair_ok_def)
  from call_b [OF p(1) b(1) p(3), of ra sa] obtain s' where
    s': "call_on ra sa ?x ?s = ret s'" "pair_ok s' a b (if at ?x = S_ten \<and> u_i ?x = 10 then insert a A else A)" (is "pair_ok _ _ _ ?A") by blast
  from sleep_step [of m fp km ra sa] p(3) obtain es x' k' where
    st: "user_step fp km ra sa m = andThen (call_on ra sa ?x ?s) (\<lambda>s'. ret (es, \<lparr>ker = k'\<lparr>k_task := s'\<rparr>, prog = (prog m)(b := x')\<rparr>))"
      "moves_on 1 ?x es x'" "on_screen es (ker m) k'" unfolding b cur by (auto simp: proc_ok_def)
  let ?m = "\<lparr>ker = k'\<lparr>k_task := s'\<rparr>, prog = (prog m)(b := x')\<rparr>" and ?evs = "evs @ map (Pair 1) es"
  have quiet: "\<not> pending evs"
  proof
    assume pe: "pending evs"
    then have "(0, Line 10) \<in> set evs" by (auto simp: pending_def)
    then have "2 \<le> stage (at ?y)" "a \<in> A" using y(1,2) by (auto simp: not_less)
    then show False using y(3) b(5) pe tr(3) by auto
  qed
  have ev: "set ?evs = set evs \<union> Pair 1 ` set es" "silent ?evs" "waits ?evs" "\<not> pending ?evs"
    by (rule moves_on_events [OF st(2)], use tr quiet in \<open>auto simp: silent_snoc waits_snoc pending_snoc\<close>)+
  have l9: "(1, Line 9) \<in> set evs" if "at ?x = S_ten" "u_i ?x = 10" using p(3) that by (simp add: proc_ok_def)
  have "both_ok ?m a b ?A ?evs" unfolding both_ok_def Let_def
  proof (intro conjI)
    show "proc_ok 1 (prog ?m b) ?evs" using proc_ok_moves [OF p(3) st(2)] by simp
    show "proc_ok 0 (prog ?m a) ?evs" using proc_ok_mono [OF p(2)] b(4) by simp
    show "2 \<le> stage (at (prog ?m a)) \<and> a \<in> ?A \<longrightarrow> (1, Line 9) \<in> set ?evs \<and> (b \<in> ?A \<longleftrightarrow> \<not> (83 \<le> pos (prog ?m a) \<and> pos (prog ?m a) \<le> 163))"
      using y(2,3) l9 b(4,5) ev(1) by auto
  qed (use s'(2) ev y(1,2) b(4) in \<open>auto split: if_splits\<close>)
  then show ?thesis using st(1,3) s'(1) by (intro exI [of _ es] exI [of _ ?m] exI [of _ ?A]) simp
qed

lemma window_step:
  assumes "moves_on p x es x'" "2 \<le> stage (at x)" "stage (at x) \<le> 5" "awake \<longleftrightarrow> \<not> (83 \<le> pos x \<and> pos x \<le> 163)"
  shows "(if at x = S_ten \<and> u_i x = 10 then False else if at x = S_twenty \<and> u_i x = 20 then True else awake) \<longleftrightarrow>
    \<not> (83 \<le> pos x' \<and> pos x' \<le> 163)"
proof -
  note mv = pos_moves [OF assms(1,3)]
  have px: "pos x = 8 * unat (u_i x) + stage (at x)" by (simp add: pos_def)
  have "stage (at x) = 2 \<or> stage (at x) = 3 \<or> stage (at x) = 4 \<or> stage (at x) = 5" using assms(2,3) by arith
  then consider "at x = S_ten" | "at x = S_twenty" | "at x = S_print" | "stage (at x) = 5" using stage_points by blast
  then show ?thesis
  proof cases
    case 1
    then show ?thesis using assms(4) mv(1) px unat_is(1) [of "u_i x"] by (auto; presburger)
  next
    case 2
    then show ?thesis using assms(4) mv(1) px unat_is(3) [of "u_i x"] by (auto; presburger)
  next
    case 3
    then show ?thesis using assms(4) mv(1) px by (auto; presburger)
  next
    case 4
    then have "at x \<noteq> S_ten" "at x \<noteq> S_twenty" by auto
    then show ?thesis using 4 assms(4) mv(2) px by (auto; presburger)
  qed
qed

lemma pending_step:
  assumes "moves_on p x es x'" "stage (at x) \<le> 5" "q \<longrightarrow> 85 \<le> pos x \<and> pos x \<le> 156"
    and "stage (at x) = 4 \<and> u_i x = 10 \<or> \<not> (stage (at x) = 4 \<and> u_i x = 19) \<and> q"
  shows "85 \<le> pos x' \<and> pos x' \<le> 156"
proof -
  note mv = pos_moves [OF assms(1,2)]
  have px: "pos x = 8 * unat (u_i x) + stage (at x)" by (simp add: pos_def)
  show ?thesis
  proof (cases "stage (at x) = 4")
    case True
    then show ?thesis using assms(3,4) mv(1) px unat_is(1,2) [of "u_i x"] by (auto; presburger)
  next
    case False
    then have q: "85 \<le> pos x" "pos x \<le> 156" using assms(3,4) by simp_all
    show ?thesis
    proof (cases "stage (at x) < 5")
      case True
      with False have "pos x \<noteq> 156" using px by presburger
      then show ?thesis using mv(1) [OF True] q by simp
    next
      case F: False
      then have 5: "stage (at x) = 5" using assms(2) by simp
      then have "pos x \<le> 149" using px q(2) by presburger
      then show ?thesis using mv(2) [OF 5] q by auto
    qed
  qed
qed

lemma events_step:
  assumes "moves_on 0 x es x'" "silent evs" "waits evs" "stage (at x) = 4 \<Longrightarrow> (1, Line 9) \<in> set evs"
  shows "silent (evs @ map (Pair 0) es) \<and> waits (evs @ map (Pair 0) es) \<and>
    (pending (evs @ map (Pair 0) es) \<longleftrightarrow> stage (at x) = 4 \<and> u_i x = 10 \<or> \<not> (stage (at x) = 4 \<and> u_i x = 19) \<and> pending evs) \<and>
    ((\<forall>i. (0, Line i) \<notin> set (evs @ map (Pair 0) es)) \<longleftrightarrow> stage (at x) \<noteq> 4 \<and> (\<forall>i. (0, Line i) \<notin> set evs))"
proof -
  consider "es = []" "stage (at x) \<noteq> 4" | str where "es = [Out_str str]" "stage (at x) = 5" | "es = [Line (u_i x)]" "stage (at x) = 4"
    using assms(1) by (auto simp: moves_on_def split: if_splits)
  then show ?thesis
  proof cases
    case 3
    then show ?thesis using assms(2-4) by (auto simp: silent_snoc waits_snoc pending_snoc)
  qed (use assms(2,3) in \<open>simp_all add: silent_snoc waits_snoc pending_snoc\<close>)
qed

lemma both_step_a:
  assumes ok: "both_ok m a b A evs" and cur: "cur m = a" and ra: "ra \<noteq> 0xFFFFFFFF"
  shows "\<exists>es m' A'. user_step fp km ra sa m = ret (es, m') \<and> both_ok m' a b A' (evs @ map (Pair 0) es) \<and> on_screen es (ker m) (ker m')"
proof -
  let ?s = "k_task (ker m)" and ?x = "prog m a"
  have p: "pair_ok ?s a b A" "proc_ok 0 ?x evs" "proc_ok 1 (prog m b) evs" and tr: "silent evs" "waits evs" "pending evs \<longrightarrow> 85 \<le> pos ?x \<and> pos ?x \<le> 156"
    and y: "stage (at ?x) < 2 \<longrightarrow> A = {a, b} \<and> (\<forall>i. (0, Line i) \<notin> set evs)"
      "2 \<le> stage (at ?x) \<and> a \<in> A \<longrightarrow> (1, Line 9) \<in> set evs \<and> (b \<in> A \<longleftrightarrow> \<not> (83 \<le> pos ?x \<and> pos ?x \<le> 163))"
    using ok by (simp_all add: both_ok_def Let_def)
  have b: "current_task ?s = a" "cur_proc m = ?x" "getpid ?s = 0" "a \<noteq> b" "a \<in> A"
    using cur p(1) pair_ok_sub [OF p(1)] by (auto simp: cur_def cur_proc_def getpid_def pair_ok_def)
  have "at ?x = S_first \<Longrightarrow> A = {a, b}" using y(1) by simp
  from call_a [OF p(1) b(1) p(2) this ra, of sa] obtain s' where
    s': "call_on ra sa ?x ?s = ret s'" "pair_ok s' a b (if at ?x = S_first then {b} else if at ?x = S_ten \<and> u_i ?x = 10 then A - {b}
      else if at ?x = S_twenty \<and> u_i ?x = 20 then insert b A else A)" (is "pair_ok _ _ _ ?A") by blast
  from sleep_step [of m fp km ra sa] p(2) obtain es x' k' where
    st: "user_step fp km ra sa m = andThen (call_on ra sa ?x ?s) (\<lambda>s'. ret (es, \<lparr>ker = k'\<lparr>k_task := s'\<rparr>, prog = (prog m)(a := x')\<rparr>))"
      "moves_on 0 ?x es x'" "on_screen es (ker m) k'" unfolding b cur by (auto simp: proc_ok_def)
  let ?m = "\<lparr>ker = k'\<lparr>k_task := s'\<rparr>, prog = (prog m)(a := x')\<rparr>" and ?evs = "evs @ map (Pair 0) es"
  have sx: "stage (at ?x) \<le> 5" and ux: "stage (at ?x) < 2 \<longrightarrow> u_i ?x = 0" using p(2) by (simp_all add: proc_ok_def)
  have "(1, Line 9) \<in> set evs" if "stage (at ?x) = 4" using that y(2) b(5) by simp
  note ev = events_step [OF st(2) tr(1,2) this]
  have st': "stage (at x') = (if stage (at ?x) < 5 then stage (at ?x) + 1 else if pos x' = pos ?x then 5 else 2)"
      "stage (at ?x) < 2 \<Longrightarrow> pos x' = stage (at ?x) + 1"
    using st(2) sx ux pos_moves [OF st(2) sx] by (auto simp: moves_on_def pos_def split: if_splits)
  have "both_ok ?m a b ?A ?evs" unfolding both_ok_def Let_def
  proof (intro conjI)
    show "proc_ok 0 (prog ?m a) ?evs" using proc_ok_moves [OF p(2) st(2)] by simp
    show "proc_ok 1 (prog ?m b) ?evs" using proc_ok_mono [OF p(3)] b(4) by simp
    show "stage (at (prog ?m a)) < 2 \<longrightarrow> ?A = {a, b} \<and> (\<forall>i. (0, Line i) \<notin> set ?evs)"
      using st'(1) y(1) ev stage_points(1) [of "at ?x"] by (auto split: if_splits)
    show "2 \<le> stage (at (prog ?m a)) \<and> a \<notin> ?A \<longrightarrow> pos (prog ?m a) = 2 \<and> (\<forall>i. (0, Line i) \<notin> set ?evs)"
      using st' y(1) ev b(4,5) by (auto split: if_splits)
    show "2 \<le> stage (at (prog ?m a)) \<and> a \<in> ?A \<longrightarrow> (1, Line 9) \<in> set ?evs \<and> (b \<in> ?A \<longleftrightarrow> \<not> (83 \<le> pos (prog ?m a) \<and> pos (prog ?m a) \<le> 163))"
    proof (intro impI)
      assume "2 \<le> stage (at (prog ?m a)) \<and> a \<in> ?A"
      then have x2: "2 \<le> stage (at ?x)" using st'(1) b(4) stage_points(2) [of "at ?x"] by (auto split: if_splits)
      then show "(1, Line 9) \<in> set ?evs \<and> (b \<in> ?A \<longleftrightarrow> \<not> (83 \<le> pos (prog ?m a) \<and> pos (prog ?m a) \<le> 163))"
        using window_step [OF st(2) x2 sx, of "b \<in> A"] y(2) b(5) by (auto split: if_splits)
    qed
    show "pending ?evs \<longrightarrow> 85 \<le> pos (prog ?m a) \<and> pos (prog ?m a) \<le> 156" using pending_step [OF st(2) sx tr(3)] ev by simp
  qed (use s'(2) ev in simp_all)
  then show ?thesis using st(1,3) s'(1) by (intro exI [of _ es] exI [of _ ?m] exI [of _ ?A]) simp
qed

text \<open>Before the fork: task 0 alone, on its way to it.\<close>

definition start_ok :: "machine \<Rightarrow> u32 \<Rightarrow> (pid_t \<times> event) list \<Rightarrow> bool" where
  "start_ok m a evs \<longleftrightarrow> alone_ok (k_task (ker m)) a \<and> u_i (prog m a) = 0 \<and> u_putc_buf (u_mem (prog m a)) 1 = 0 \<and>
     (at (prog m a) = Hello \<or> at (prog m a) = S_fork \<or> (\<exists>ps. at (prog m a) = Put ps S_fork)) \<and> (\<forall>p i. (p, Line i) \<notin> set evs)"

lemma start_step:
  assumes ok: "start_ok m a evs" and at: "at (cur_proc m) \<noteq> S_fork"
  shows "\<exists>es m'. user_step fp km ra sa m = ret (es, m') \<and> start_ok m' a (evs @ map (Pair p) es) \<and> on_screen es (ker m) (ker m')"
proof -
  let ?x = "prog m a"
  have x: "cur m = a" "cur_proc m = ?x" using ok alone_current [of "k_task (ker m)" a] by (simp_all add: start_ok_def cur_def cur_proc_def)
  have x2: "alone_ok (k_task (ker m)) a" "u_i ?x = 0" "u_putc_buf (u_mem ?x) 1 = 0" "\<forall>p i. (p, Line i) \<notin> set evs"
    using ok by (simp_all add: start_ok_def)
  from ok at x consider "at ?x = Hello" | "at ?x = Put [] S_fork" | str ps where "at ?x = Put (str # ps) S_fork"
    by (auto simp: start_ok_def) (metis list.exhaust)
  then show ?thesis
  proof cases
    case 1
    have "format_text (cstr ''hello, user mode!'' @ [10]) [] = Some (cstr ''hello, user mode!'' @ [10])" "0 \<notin> set (cstr ''hello, user mode!'' @ [10])"
      by (simp_all add: cstr_def)
    from do_printf_returns [OF this, of m fp S_fork] x2(3) x(2) obtain u where
      "do_printf fp (cstr ''hello, user mode!'' @ [10]) [] S_fork m = ret (set_proc (\<lambda>x. x\<lparr>u_mem := u, at := Put (u_puts u) S_fork\<rparr>) m)" "u_putc_buf u 1 = 0"
      by auto
    then show ?thesis using 1 x x2
      by (simp add: user_step_def start_ok_def set_proc_def on_screen_refl)
  next
    case 2
    then show ?thesis using x x2 by (simp add: user_step_def start_ok_def goto_def set_proc_def on_screen_refl)
  next
    case (3 str ps)
    from do_puts_on_screen [of str "goto (Put ps S_fork) m"] obtain k where
      "do_puts str (goto (Put ps S_fork) m) = ret ((goto (Put ps S_fork) m)\<lparr>ker := k\<rparr>)" "on_screen [Out_str str] (ker m) k" "k_task k = k_task (ker m)"
      by (auto simp: goto_def set_proc_def)
    then show ?thesis using 3 x x2 by (auto simp: user_step_def start_ok_def goto_def set_proc_def)
  qed
qed

lemma no_lines: "\<forall>p i. (p, Line i) \<notin> set evs \<Longrightarrow> \<not> pending evs \<and> silent evs \<and> waits evs"
  unfolding pending_def silent_def waits_def by (metis in_set_conv_decomp)

lemma start_fork:
  assumes ok: "start_ok m a evs" and at: "at (cur_proc m) = S_fork" and step: "user_step fp km ra sa m = ret (es, m')"
    and obj: "fork_object km (k_task (ker m))"
  shows "es = [] \<and> (\<exists>b. both_ok m' a b {a, b} evs) \<and> on_screen [] (ker m) (ker m')"
proof -
  let ?s = "k_task (ker m)" and ?x = "prog m a"
  have x: "cur m = a" "cur_proc m = ?x" using ok alone_current [of "k_task (ker m)" a] by (simp_all add: start_ok_def cur_def cur_proc_def)
  have x2: "alone_ok ?s a" "u_i ?x = 0" "u_putc_buf (u_mem ?x) 1 = 0" "\<forall>p i. (p, Line i) \<notin> set evs"
    using ok by (simp_all add: start_ok_def)
  obtain n s' where f: "fork km ra ?s = ret (n, s')" "es = []"
      "m' = set_tasks s' (m\<lparr>prog := (prog m)(a := ?x\<lparr>at := S_getpid, u_ret := n\<rparr>, latest_task s' := ?x\<lparr>at := S_getpid, u_ret := 0\<rparr>)\<rparr>)"
    using step at x(1) unfolding user_step_def test_sleep_def do_fork_def
    by (auto simp: x goto_def set_proc_def cur_proc_def cur_def Let_def set_tasks_def)
  have p: "pair_ok s' a (latest_task s') {a, latest_task s'}" "a \<noteq> latest_task s'"
    using alone_fork [OF x2(1) obj f(1)] by (auto simp: pair_ok_def)
  have "both_ok m' a (latest_task s') {a, latest_task s'} evs" unfolding both_ok_def
    using p x2 no_lines [OF x2(4)] by (simp add: f(3) set_tasks_def proc_ok_def)
  moreover have "on_screen [] (ker m) (ker m')" by (simp add: f(3) set_tasks_def on_screen_refl)
  ultimately show ?thesis using f(2) by blast
qed

section \<open>Every run\<close>

definition run_ok :: "kernel \<Rightarrow> machine \<Rightarrow> (pid_t \<times> event) list \<Rightarrow> bool" where
  "run_ok k0 m evs \<longleftrightarrow> ((\<exists>a. start_ok m a evs) \<or> (\<exists>a b A. both_ok m a b A evs)) \<and> on_screen (map snd evs) k0 (ker m)"

lemma run_step:
  assumes ok: "run_ok k0 m evs" and ra: "ra \<noteq> 0xFFFFFFFF" and at: "at (cur_proc m) \<noteq> S_fork"
  shows "\<exists>es m'. user_step fp km ra sa m = ret (es, m') \<and> run_ok k0 m' (evs @ map (Pair (getpid (k_task (ker m)))) es)"
proof -
  have "\<exists>es m'. user_step fp km ra sa m = ret (es, m') \<and> on_screen es (ker m) (ker m') \<and>
      ((\<exists>a. start_ok m' a (evs @ map (Pair (getpid (k_task (ker m)))) es)) \<or> (\<exists>a b A. both_ok m' a b A (evs @ map (Pair (getpid (k_task (ker m)))) es)))"
    using ok unfolding run_ok_def
  proof (elim conjE disjE exE)
    fix a
    assume "start_ok m a evs"
    from start_step [OF this at] show ?thesis by blast
  next
    fix a b A
    assume both: "both_ok m a b A evs"
    then have p: "pair_ok (k_task (ker m)) a b A" by (simp add: both_ok_def)
    then have "cur m = a \<and> getpid (k_task (ker m)) = 0 \<or> cur m = b \<and> getpid (k_task (ker m)) = 1"
      using pair_ok_sub [OF p] by (auto simp: cur_def getpid_def pair_ok_def)
    then show ?thesis using both_step_a [OF both _ ra] both_step_b [OF both] by metis
  qed
  then obtain es m' where st: "user_step fp km ra sa m = ret (es, m')" "on_screen es (ker m) (ker m')"
    "(\<exists>a. start_ok m' a (evs @ map (Pair (getpid (k_task (ker m)))) es)) \<or> (\<exists>a b A. both_ok m' a b A (evs @ map (Pair (getpid (k_task (ker m)))) es))" by blast
  have "map snd (map (Pair (getpid (k_task (ker m)))) es) = es" by (simp add: comp_def)
  then show ?thesis using st ok on_screen_trans [of "map snd evs" k0 "ker m" es "ker m'"] unfolding run_ok_def by auto
qed

lemma run_timer: "run_ok k0 m evs \<Longrightarrow> ra \<noteq> 0xFFFFFFFF \<Longrightarrow> run_ok k0 (m\<lparr>ker := timer_slice (ra, c, reg) (ker m)\<rparr>) evs"
proof -
  assume ok: "run_ok k0 m evs" and ra: "ra \<noteq> 0xFFFFFFFF"
  have log: "k_log (timer_slice (ra, c, reg) (ker m)) = k_log (ker m)"
    by (simp add: timer_slice_def timer_tick_def with_ports_def Let_def split: prod.split)
  then have "on_screen (map snd evs) k0 (timer_slice (ra, c, reg) (ker m))" using ok by (simp add: run_ok_def on_screen_def)
  moreover have "start_ok (m\<lparr>ker := timer_slice (ra, c, reg) (ker m)\<rparr>) a evs" if "start_ok m a evs" for a
    using that alone_timer [OF _ ra] by (simp add: start_ok_def timer_slice_parts)
  moreover have "both_ok (m\<lparr>ker := timer_slice (ra, c, reg) (ker m)\<rparr>) a b A evs" if "both_ok m a b A evs" for a b A
    using that pair_timer [OF _ ra] by (simp add: both_ok_def timer_slice_parts)
  ultimately show ?thesis using ok unfolding run_ok_def by (simp (no_asm_simp)) blast
qed

lemma runs_ok:
  assumes "runs fp km ra sa m0 evs m" "run_ok k0 m0 []" "ra \<noteq> 0xFFFFFFFF"
  shows "run_ok k0 m evs"
  using assms
proof (induction rule: runs.induct)
  case (user evs m es m')
  then have ok: "run_ok k0 m evs" by simp
  show ?case
  proof (cases "at (cur_proc m) = S_fork")
    case False
    from run_step [OF ok user.prems(2) False, of fp km sa] user.hyps(2) show ?thesis by auto
  next
    case True
    then obtain a where a: "start_ok m a evs" using ok unfolding run_ok_def
    proof (elim conjE disjE exE)
      fix a b A
      assume both: "both_ok m a b A evs"
      then have "pair_ok (k_task (ker m)) a b A" by (simp add: both_ok_def)
      then have "cur m = a \<or> cur m = b" using pair_ok_sub by (force simp: cur_def)
      then have "stage (at (cur_proc m)) \<le> 5" using both by (auto simp: both_ok_def proc_ok_def cur_proc_def)
      then show thesis using True by simp
    qed blast
    from start_fork [OF a True user.hyps(2)] user.hyps(3) True have
      f: "es = []" "\<exists>b. both_ok m' a b {a, b} evs" "on_screen [] (ker m) (ker m')" by auto
    then show ?thesis using ok on_screen_trans [of "map snd evs" k0 "ker m" "[]" "ker m'"] unfolding run_ok_def by auto
  qed
qed (auto intro: run_timer)

text \<open>A process at the program's entry, its static data zero, as the only task.\<close>

definition program_started :: "machine \<Rightarrow> bool" where
  "program_started m \<longleftrightarrow> (\<exists>a. alone_ok (k_task (ker m)) a \<and> at (prog m a) = Hello \<and> u_i (prog m a) = 0 \<and> u_putc_buf (u_mem (prog m a)) 1 = 0)"

lemma program_started_ok: "program_started m \<Longrightarrow> run_ok (ker m) m []"
  by (auto simp: program_started_def run_ok_def start_ok_def on_screen_refl)

text \<open>
  C12: The user program keeps its two tasks in order, however the timer interleaves them. Whatever the timer does, (1) task 0 prints a line
  only after task 1 has printed its line 9, since it sleeps until task 1 wakes it; (2) after line 10 of task 0 nothing at all is
  printed by task 1 before line 19 of task 0, since task 0 keeps it asleep; (3) the screen shows exactly the strings the two handed to the kernel, in
  the order of the calls; and (4) no system call panics or loops: the process that has the processor can always take its next
  step (\<^verbatim>\<open>fork\<close> alone needs memory).
\<close>

theorem test_sleep_order:
  assumes "program_started m" "runs fp km ra sa m evs m'" "ra \<noteq> 0xFFFFFFFF"
  shows "(\<forall>u i v. evs = u @ (0, Line i) # v \<longrightarrow> (1, Line 9) \<in> set u) \<and>
    (\<forall>u v e w. evs = u @ (0, Line 10) # v @ (1, e) # w \<longrightarrow> (0, Line 19) \<in> set v) \<and>
    (console_ok (k_log (ker m)) \<longrightarrow> terminal_of (k_log (ker m')) =
       fold (term_put (top_color (k_log (ker m)))) (concat (map (text_of \<circ> snd) evs)) (terminal_of (k_log (ker m)))) \<and>
    (at (cur_proc m') = S_fork \<or> (\<exists>es m''. user_step fp km ra sa m' = ret (es, m'')))"
proof -
  have ok: "run_ok (ker m) m' evs" using runs_ok [OF assms(2) program_started_ok [OF assms(1)] assms(3)] .
  then have "waits evs \<and> silent evs"
    using no_lines by (auto simp: run_ok_def both_ok_def start_ok_def)
  moreover have "on_screen (map snd evs) (ker m) (ker m')" using ok by (simp add: run_ok_def)
  moreover have "at (cur_proc m') = S_fork \<or> (\<exists>es m''. user_step fp km ra sa m' = ret (es, m''))"
    using run_step [OF ok assms(3)] by blast
  ultimately show ?thesis by (simp add: waits_def silent_def on_screen_def)
qed

definition first_task :: task_state where
  "first_task = lone_task\<lparr>tasks := (\<lambda>a. a_task 0 TS_RUNNING 0x1000 0x1000), pid_next := 1,
     rbt_id2task := \<lparr>NIL = 2, tree_root = 0x1034,
       node = (\<lambda>a. \<lparr>par_and_color = 3, ch0 = 2, ch1 = 2, key = \<lparr>pair_id = 0, pair_task = 0x1000\<rparr>\<rparr>)\<rparr>\<rparr>"

definition first_proc :: proc where
  "first_proc = \<lparr>at = Hello, u_mem = fresh_user, u_pid = 0, u_i = 0, u_ret = 0, u_f = (\<lambda>_. 0)\<rparr>"

lemma first_task_ok: "alone_ok first_task 0x1000"
proof -
  have "table_ok (rbt_id2task first_task) (tasks first_task) {0x1000} (Nd Lf 0x1034 Black \<lparr>pair_id = 0, pair_task = 0x1000\<rparr> Lf)"
    by (simp add: table_ok_def rbt_ok_def rep_def rb_def first_task_def lone_task_def a_task_def ordered_def
      is_node_def get_par_def is_black_def even_addr_def lt_id_def pair_of_def node_of_def rbt_node_mem_def)
  then show ?thesis
    by (auto simp: alone_ok_def tasks_ok_def queues_ok_def ring_def first_task_def lone_task_def three_tasks_def a_task_def)
qed

theorem test_sleep_order_witness:
  "\<forall>(fp :: nat fpu) k c reg.
    let m = \<lparr>ker = k\<lparr>k_task := first_task\<rparr>, prog = (\<lambda>_. first_proc)\<rparr>;
        m' = m\<lparr>ker := timer_slice (0x900, c, reg) (ker m)\<rparr>
    in program_started m \<and> runs fp (kmalloc_at 1) 0x950 0x8000 m [] m' \<and> (\<exists>es m''. user_step fp (kmalloc_at 1) 0x950 0x8000 m' = ret (es, m''))"
proof (intro allI)
  fix fp :: "nat fpu" and k :: kernel and c reg
  let ?m = "\<lparr>ker = k\<lparr>k_task := first_task\<rparr>, prog = (\<lambda>_. first_proc)\<rparr>"
  let ?m' = "?m\<lparr>ker := timer_slice (0x900, c, reg) (ker ?m)\<rparr>"
  have s: "program_started ?m" using first_task_ok by (auto simp: program_started_def first_proc_def fresh_user_def)
  have r: "runs fp (kmalloc_at 1) 0x950 0x8000 ?m [] ?m'" by (rule runs.timer [OF runs.start]) simp
  have "at (cur_proc ?m') \<noteq> S_fork" by (simp add: cur_proc_def first_proc_def)
  then have "\<exists>es m''. user_step fp (kmalloc_at 1) 0x950 0x8000 ?m' = ret (es, m'')" using test_sleep_order [OF s r] by simp
  then show "let m = ?m; m' = m\<lparr>ker := timer_slice (0x900, c, reg) (ker m)\<rparr>
    in program_started m \<and> runs fp (kmalloc_at 1) 0x950 0x8000 m [] m' \<and> (\<exists>es m''. user_step fp (kmalloc_at 1) 0x950 0x8000 m' = ret (es, m''))"
    using s r by (simp add: Let_def)
qed

section \<open>\<open>test_fork\<close>\<close>

text \<open>
  The other test, which \<^verbatim>\<open>_start\<close> does not call: parent and child both find the array as they left it, so neither reaches the
  place where it would print \<^verbatim>\<open>no\<close>.
\<close>

fun fork_stage :: "point \<Rightarrow> nat" where
  "fork_stage F_before = 0" | "fork_stage F_fork = 1" | "fork_stage F_done = 1" | "fork_stage F_print = 1" | "fork_stage F_check = 2"
| "fork_stage F_ok = 2" | "fork_stage (Put ps nxt) = fork_stage nxt" | "fork_stage Forever = 2" | "fork_stage pt = 3"

definition fork_ok :: "proc \<Rightarrow> bool" where
  "fork_ok x \<longleftrightarrow> fork_stage (at x) < 3 \<and> (\<forall>i \<ge> 2. u_f x i = 0) \<and> (1 \<le> fork_stage (at x) \<longrightarrow> u_f x 0 = 2) \<and>
     (2 \<le> fork_stage (at x) \<longrightarrow> u_f x 1 = u_ret x)"

lemma fork_ok_step:
  assumes "\<forall>t. fork_ok (prog m t)" "user_step fp km ra sa m = ret (es, m')"
  shows "\<forall>t. fork_ok (prog m' t)"
proof -
  have x: "fork_ok (cur_proc m)" using assms(1) by (simp add: cur_proc_def)
  then consider "at (cur_proc m) = F_before" | "at (cur_proc m) = F_fork" | "at (cur_proc m) = F_done" | "at (cur_proc m) = F_print"
    | "at (cur_proc m) = F_check" | "at (cur_proc m) = F_ok" | "at (cur_proc m) = Forever" | ps nxt where "at (cur_proc m) = Put ps nxt"
    by (cases "at (cur_proc m)") (auto simp: fork_ok_def)
  then show ?thesis
  proof cases
    case (8 ps nxt)
    then show ?thesis using assms x
      by (cases ps) (auto simp: user_step_def goto_def set_proc_def do_puts_def fork_ok_def)
  qed (use assms x in \<open>auto simp: user_step_def test_fork_def goto_def set_proc_def do_fork_def do_printf_def fork_ok_def set_tasks_def cur_proc_def cur_def Let_def\<close>)
qed

lemma test_fork_keeps:
  assumes "runs fp km ra sa m evs m'" "\<forall>t. fork_ok (prog m t)"
  shows "\<forall>t. fork_ok (prog m' t) \<and> at (prog m' t) \<noteq> F_error"
proof -
  have "\<forall>t. fork_ok (prog m' t)"
    using assms
  proof (induction rule: runs.induct)
    case (user evs m1 es m2)
    then show ?case using fork_ok_step by blast
  qed simp_all
  moreover have "at x \<noteq> F_error" if "fork_ok x" for x using that by (auto simp: fork_ok_def)
  ultimately show ?thesis by blast
qed

end
