(* ===== verification/Kmain_User.thy ===== *)
theory Kmain_User
  imports Kmain_Boot User_Memory Initrd_Run
begin

text \<open>
  From the boot loader to the first instruction of the user program: \<^verbatim>\<open>kmain\<close> with a program as its first boot module.
\<close>

section \<open>The boot module\<close>

text \<open>
  What the boot loader provides: a module, in memory below the heap, that is an executable with one segment of at most 4 MB, linked above what
  the kernel occupies; the loader's two buffers are on the kernel stack.
\<close>

definition program_module :: "image \<Rightarrow> u32 \<Rightarrow> Ramdisk_file_node \<Rightarrow> Elf32_Ehdr \<Rightarrow> Elf32_Phdr \<Rightarrow> page_state \<Rightarrow> bool" where
  "program_module img ptr d hdr h p \<longleftrightarrow>
     (let m = kmem p; mbd = load_Multiboot_info ptr m; e = unat (boot_end ptr p) in
        mods_count mbd \<noteq> 0 \<and> unat ptr + 28 \<le> 0xEFC00000 \<and> unat (mods_addr mbd) + 8 \<le> 0xEFC00000 \<and>
        d = Ramdisk_file_node_new (load32 (mods_addr mbd) m) (load32 (mods_addr mbd + 4) m) \<and> rd_start d \<le> rd_end d \<and> unat (rd_end d) + 4 < 2 ^ 32 \<and>
        52 \<le> rd_len d \<and> hdr = load_Ehdr (rd_start d) m \<and> is_header_valid hdr \<and> e_phnum hdr = 1 \<and> unat (e_phoff hdr) + 32 \<le> rd_len d \<and>
        h = load_Phdr (rd_start d + e_phoff hdr) m \<and> p_type h = PT_LOAD \<and> p_memsz h \<noteq> 0 \<and> p_filesz h = p_memsz h \<and>
        unat (p_offset h) + unat (p_memsz h) \<le> rd_len d \<and> unat (p_memsz h) \<le> 0x400000 \<and>
        e + 0x1100000 \<le> 0xC0000000 \<and> e + 0x1020000 \<le> unat (p_vaddr h) \<and> unat (p_vaddr h) + unat (p_memsz h) \<le> 0xEFBFFFFF \<and>
        on_stack (bytes_at (header_at img) 32 \<union> bytes_at (elf_header_at img) 52))"

lemma load32_low:
  assumes "same_low s s'" "unat a + 4 \<le> 0xEFC00000"
  shows "load32 a (kmem s') = load32 a (kmem s)"
proof (rule load32_cong)
  show "kmem s' b = kmem s b" if "b \<in> bytes_at a 4" for b
    using that assms bytes_at_unat [of a 4 b] by (auto simp: same_low_def)
qed

lemma program_moduleD:
  assumes "program_module img ptr d hdr h p"
  shows "mods_count (load_Multiboot_info ptr (kmem p)) \<noteq> 0" "unat ptr + 28 \<le> 0xEFC00000" "unat (mods_addr (load_Multiboot_info ptr (kmem p))) + 8 \<le> 0xEFC00000"
    "d = Ramdisk_file_node_new (load32 (mods_addr (load_Multiboot_info ptr (kmem p))) (kmem p)) (load32 (mods_addr (load_Multiboot_info ptr (kmem p)) + 4) (kmem p))"
    "rd_start d \<le> rd_end d" "unat (rd_end d) + 4 < 2 ^ 32" "52 \<le> rd_len d" "hdr = load_Ehdr (rd_start d) (kmem p)" "is_header_valid hdr"
    "e_phnum hdr = 1" "unat (e_phoff hdr) + 32 \<le> rd_len d" "h = load_Phdr (rd_start d + e_phoff hdr) (kmem p)"
    "p_type h = PT_LOAD" "p_memsz h \<noteq> 0" "p_filesz h = p_memsz h" "unat (p_offset h) + unat (p_memsz h) \<le> rd_len d" "unat (p_memsz h) \<le> 0x400000"
    "unat (boot_end ptr p) + 0x1100000 \<le> 0xC0000000" "unat (boot_end ptr p) + 0x1020000 \<le> unat (p_vaddr h)"
    "unat (p_vaddr h) + unat (p_memsz h) \<le> 0xEFBFFFFF" "on_stack (bytes_at (header_at img) 32 \<union> bytes_at (elf_header_at img) 52)"
  using assms unfolding program_module_def Let_def by blast+

lemma module_below:
  assumes "program_module img ptr d hdr h p"
  shows "unat (rd_end d) \<le> unat (boot_end ptr p)" "x \<in> rd_area d \<Longrightarrow> unat x < unat (rd_end d)" "file_below d" "rd_ok d" "cur_offset d = 0"
proof -
  note P = program_moduleD [OF assms]
  have u: "unat (rd_end d + 4) = unat (rd_end d) + 4" using P(6) unat_add [of "rd_end d" 4] by simp
  have "rd_end d = load32 (mods_addr (load_Multiboot_info ptr (kmem p)) + 4) (kmem p)" by (subst P(4)) (simp add: Ramdisk_file_node_new_def)
  then have "boot_end ptr p = kheap_static_end (kheap_preserve_mem (rd_end d + 4) p)" using P(1) by (simp add: boot_end_def Let_def)
  then show e: "unat (rd_end d) \<le> unat (boot_end ptr p)"
    using u by (auto simp: kheap_preserve_mem_def not_less word_le_nat_alt)
  have len: "unat (rd_start d) + rd_len d = unat (rd_end d)" using P(5) by (simp add: rd_len_def unat_sub word_le_nat_alt)
  show x: "unat x < unat (rd_end d)" if "x \<in> rd_area d" for x
    using that len less_imp_le [OF unat_lt_2_32 [of "rd_end d"]] by (simp add: rd_area_def bytes_at_unat)
  show "file_below d" unfolding file_below_def using e P(18) x by fastforce
  show "rd_ok d" "cur_offset d = 0" by (subst P(4), simp add: rd_ok_def Ramdisk_file_node_new_def)+
qed

section \<open>Starting the program\<close>

text \<open>The program is about to execute its first instruction: registers, memory and pages.\<close>

definition program_starts :: "Ramdisk_file_node \<Rightarrow> Elf32_Ehdr \<Rightarrow> Elf32_Phdr \<Rightarrow> memory \<Rightarrow> task_state \<Rightarrow> bool" where
  "program_starts d hdr h m s \<longleftrightarrow>
     r_eip (cpu s) = e_entry hdr \<and> r_esp (cpu s) = 0xC0000FFC \<and> r_cs (cpu s) = 0x1B \<and> r_ss (cpu s) = 0x23 \<and> bit (r_eflags (cpu s)) 9 \<and>
     (\<forall>i < unat (p_memsz h). kmem (pg s) (p_vaddr h + of_nat i) = m (rd_start d + of_nat (unat (p_offset h) + i))) \<and>
     (\<forall>a. p_vaddr h \<le> a \<and> a < p_vaddr h + p_memsz h \<or> a AND 0xFFFFF000 = 0xC0000000 \<longrightarrow>
       (\<exists>r. lookup_page (current_page_dir (pg s)) a (pg s) = Some r \<and> user_page r (pg s)))"

lemma user_at_lookup: "user_at k a p \<Longrightarrow> \<exists>r. lookup_page (current_page_dir p) a p = Some r \<and> user_page r p"
  by (simp add: user_at_def lookup_page_def page_ref_def tab_def)

lemma switch_frame: "\<exists>c. switch_to_user_mode a sp s = Some (s\<lparr>switch_to_user_mode_called := True, cpu := c\<rparr>)"
  by (simp add: switch_to_user_mode_def Let_def) (rule exI, rule refl)

text \<open>The user stack: one page, whose table may have to be made.\<close>

lemma stack_page:
  assumes "segment_mapped k h M p" "segment_fits h p0" "k \<le> 0x300"
  shows "\<exists>p' N F A R. andThen (get_page (kmalloc_at (Suc n)) (current_page_dir p) 0xC0000000 True p) (\<lambda>(r, s). entry_alloc (page_of r) True True s) = ret p' \<and>
    paged k N F A M R p' \<and> user_at k 0xC0000000 p' \<and> extends k p p'"
proof -
  obtain N F A R where p: "paged k N F A M R p" "N + missing (program_tables h) p \<le> 100" "missing (program_tables h) p < unat (nframes p)"
    using assms(1) by (auto simp: segment_mapped_def)
  have "tb_idx 0xC0000000 \<in> program_tables h" by (simp add: program_tables_def)
  moreover have "tb_idx 0xC0000000 = 0x300" by (simp add: tb_idx_def)
  ultimately show ?thesis using alloc_user_page [OF p(1,2) segment_tables(1) [OF assms(2)] _ _ _ p(3), of "0xC0000000" n] assms(3)
    by (simp add: heap_idx_val del: kmalloc_at.simps) blast
qed

lemma module_read:
  assumes mod: "program_module img ptr d hdr h p0" and low: "same_low p0 p"
  shows "mods_count (load_Multiboot_info ptr (kmem p)) = mods_count (load_Multiboot_info ptr (kmem p0))"
    "load32 (mods_addr (load_Multiboot_info ptr (kmem p))) (kmem p) = rd_start d" "load32 (mods_addr (load_Multiboot_info ptr (kmem p)) + 4) (kmem p) = rd_end d"
    "load_Ehdr (rd_start d) (kmem p) = hdr" "load_Phdr (rd_start d + e_phoff hdr) (kmem p) = h" "i < rd_len d \<Longrightarrow> kmem p (rd_start d + of_nat i) = kmem p0 (rd_start d + of_nat i)"
proof -
  note P = program_moduleD [OF mod]
  have u: "unat (ptr + 20) = unat ptr + 20" "unat (ptr + 24) = unat ptr + 24" using P(2) unat_add [of ptr 20] unat_add [of ptr 24] by simp_all
  show "mods_count (load_Multiboot_info ptr (kmem p)) = mods_count (load_Multiboot_info ptr (kmem p0))"
    using load32_low [OF low, of "ptr + 20"] P(2) u by (simp add: load_Multiboot_info_def)
  have a: "mods_addr (load_Multiboot_info ptr (kmem p)) = mods_addr (load_Multiboot_info ptr (kmem p0))" (is "_ = ?a")
    using load32_low [OF low, of "ptr + 24"] P(2) u by (simp add: load_Multiboot_info_def)
  have "unat (?a + 4) = unat ?a + 4" using P(3) unat_add [of ?a 4] by simp
  then have "load32 ?a (kmem p) = load32 ?a (kmem p0)" "load32 (?a + 4) (kmem p) = load32 (?a + 4) (kmem p0)"
    using load32_low [OF low] P(3) by simp_all
  then show "load32 (mods_addr (load_Multiboot_info ptr (kmem p))) (kmem p) = rd_start d" "load32 (mods_addr (load_Multiboot_info ptr (kmem p)) + 4) (kmem p) = rd_end d"
    unfolding a by (subst P(4), simp add: Ramdisk_file_node_new_def)+
  have bytes: "kmem p (rd_start d + of_nat i) = kmem p0 (rd_start d + of_nat i)" if "i < rd_len d" for i
  proof -
    have "rd_start d + of_nat i \<in> rd_area d" using that unfolding rd_area_def by (rule in_bytes_at)
    then show ?thesis using low module_below(3) [OF mod] by (simp add: same_low_def file_below_def)
  qed
  then show "i < rd_len d \<Longrightarrow> kmem p (rd_start d + of_nat i) = kmem p0 (rd_start d + of_nat i)" .
  show "load_Ehdr (rd_start d) (kmem p) = hdr" unfolding P(8) using bytes P(7) by (intro load_Ehdr_copied) simp
  have "kmem p (rd_start d + e_phoff hdr + of_nat i) = kmem p0 (rd_start d + e_phoff hdr + of_nat i)" if "i < 32" for i
    using bytes [of "unat (e_phoff hdr) + i"] that P(11) by (simp add: add.assoc)
  then show "load_Phdr (rd_start d + e_phoff hdr) (kmem p) = h" unfolding P(12) by (intro load_Phdr_copied) simp
qed

lemma module_fits:
  assumes mod: "program_module img ptr d hdr h p0" and p: "user_bounds p" "unat (kheap_static_end p) \<le> unat (boot_end ptr p0) + 0xC20000"
  shows "segment_fits h p" "segment_ok h d p" "tb_idx (USER_MEM_LOW p) \<le> 0x300"
proof -
  note P = program_moduleD [OF mod] and B = module_below [OF mod]
  have st: "unat (kheap_static_end p) + 2 ^ 22 \<le> 2 ^ 32" using p(2) P(18) by simp
  from get_aligned_bounds(2) [OF this] have "unat (USER_MEM_LOW p) < unat (kheap_static_end p) + 2 ^ 22" using p(1) by (simp add: user_bounds_def)
  then have lo: "unat (USER_MEM_LOW p) < unat (boot_end ptr p0) + 0x1020000" using p(2) by simp
  then have le: "USER_MEM_LOW p \<le> p_vaddr h" using P(19) by (simp add: word_le_nat_alt)
  have hi: "unat (USER_MEM_HIGH p) = 0xEFBFFFFF" by (rule user_top [OF p(1)])
  show "segment_fits h p" using P(14,17,20) le hi p(1) st by (simp add: segment_fits_def)
  have "unat (USER_MEM_LOW p) div 2 ^ 22 \<le> 0xC0000000 div 2 ^ 22" using lo P(18) by (intro div_le_mono) simp
  then show "tb_idx (USER_MEM_LOW p) \<le> 0x300" by (simp add: tb_idx_div)
  have "x \<notin> rd_area d" if x: "x \<in> bytes_at (p_vaddr h) (unat (p_memsz h))" for x
  proof
    assume "x \<in> rd_area d"
    then have "unat x < unat (boot_end ptr p0)" using B(1,2) by (meson less_le_trans)
    moreover have "unat (p_vaddr h) \<le> unat x" using x P(20) by (simp add: bytes_at_unat)
    ultimately show False using P(19) by simp
  qed
  then have "bytes_at (p_vaddr h) (unat (p_memsz h)) \<inter> rd_area d = {}" by blast
  then show "segment_ok h d p" using P(13-16,20) le hi by (simp add: segment_ok_def)
qed

lemma test_elf_starts:
  assumes mod: "program_module img ptr d hdr h (pg (k_task k0))" and rdy: "room_ready ptr k0 k"
  shows "\<exists>s'. test_elf (kmalloc_at (Suc n)) img ptr (k_task k) = ret s' \<and> program_starts d hdr h (kmem (pg (k_task k0))) s' \<and>
    tasks_ok s' [current_task s'] [] [] \<and> pid (tasks s' (current_task s')) = pid_next (k_task k0) \<and> pid_next s' = pid_next (k_task k0) + 1 \<and>
    (\<exists>F A M R. heap_inv (pg s') F A \<and> heap_tables (pg s') \<and> page_inv M (R, pg s'))"
proof -
  let ?km = "kmalloc_at (Suc n) :: kmalloc_fn" and ?p0 = "pg (k_task k0)"
  note P = program_moduleD [OF mod] and B = module_below [OF mod]
  define s where "s = k_task k"
  define p where "p = pg s"
  obtain F A M R where r: "tasks_ok s [current_task s] [] []" "pid (tasks s (current_task s)) = pid_next (k_task k0)" "pid_next s = pid_next (k_task k0) + 1"
      "paged (tb_idx (USER_MEM_LOW p)) 3 F A M R p" "user_bounds p" "1244 \<le> unat (nframes p)"
      "unat (kheap_static_end p) \<le> unat (boot_end ptr ?p0) + 0xC20000" "same_low ?p0 p"
    using rdy by (auto simp: room_ready_def Let_def s_def p_def)
  have "unat sizeof_Ramdisk_file_node \<le> 8192" "0 < unat sizeof_Ramdisk_file_node" by (simp_all add: sizeof_Ramdisk_file_node_def)
  from paged_kmalloc [OF r(4) _ this, of 0 n] obtain a p1 F1 blk where
    p1: "?km sizeof_Ramdisk_file_node 0 p = ret (a, p1)" "paged (tb_idx (USER_MEM_LOW p)) 4 F1 (A(a \<mapsto> blk)) M R p1" "kept p p1" "same_bounds p p1" "same_low p p1"
    by (auto simp del: kmalloc_at.simps simp: eval_nat_numeral)
  define k1 where "k1 = tb_idx (USER_MEM_LOW p1)"
  have k1: "k1 = tb_idx (USER_MEM_LOW p)" using p1(4) by (simp add: k1_def same_bounds_def)
  have b1: "user_bounds p1" "unat (kheap_static_end p1) \<le> unat (boot_end ptr ?p0) + 0xC20000" "nframes p1 = nframes p"
    using r(5,7) p1(3,4) user_bounds_same [OF p1(4)] by (simp_all add: same_bounds_def kept_def)
  have low1: "same_low ?p0 p1" using same_low_trans [OF r(8) p1(5)] .
  note fit = module_fits [OF mod b1(1,2)] and rd1 = module_read [OF mod low1] and rd = module_read [OF mod r(8)]
  let ?s1 = "s\<lparr>pg := p1\<rparr>"
  have live: "paged k1 4 F1 (A(a \<mapsto> blk)) M R (pg ?s1)" "(4 :: nat) \<le> 96" "k1 = tb_idx (USER_MEM_LOW (pg ?s1))" "1031 \<le> unat (nframes (pg ?s1))"
    using p1(2) r(6) b1(3) by (simp_all add: k1 [symmetric] k1_def)
  have hd: "hdr = load_Ehdr (rd_start d) (kmem (pg ?s1))" "h = load_Phdr (rd_start d + e_phoff hdr) (kmem (pg ?s1))" "segment_ok h d (pg ?s1)" "segment_fits h (pg ?s1)"
    using rd1(4,5) fit(1,2) by simp_all
  from load_elf_live [OF live B(4,5) P(7) B(3) P(21) hd(1) P(9-11) hd(2-4), of n] obtain f' s2 where
    s2: "load_elf ?km ramdisk_ops (elf_header_at img) (header_at img) (Some d) ?s1 = ret (sint (e_entry hdr), f', s2)" "s2 = ?s1\<lparr>pg := pg s2\<rparr>"
      "segment_mapped k1 h M (pg s2)" "current_page_dir (pg s2) = current_page_dir p1"
      "\<forall>i < unat (p_memsz h). kmem (pg s2) (p_vaddr h + of_nat i) = kmem p1 (rd_start d + of_nat (unat (p_offset h) + i))" by auto
  from stack_page [OF s2(3) fit(1), of n] fit(3) obtain p3 N3 F3 A3 R3 where
    p3: "andThen (get_page ?km (current_page_dir (pg s2)) 0xC0000000 True (pg s2)) (\<lambda>(r, s). entry_alloc (page_of r) True True s) = ret p3"
      "paged k1 N3 F3 A3 M R3 p3" "user_at k1 0xC0000000 p3" "extends k1 (pg s2) p3" by (auto simp: k1_def)
  obtain c where sw: "switch_to_user_mode (e_entry hdr) 0xC0000FFC (s2\<lparr>pg := p3\<rparr>) =
      Some (s2\<lparr>pg := p3, switch_to_user_mode_called := True, cpu := c\<rparr>)" (is "_ = Some ?s")
    using switch_frame [of "e_entry hdr" "0xC0000FFC" "s2\<lparr>pg := p3\<rparr>"] by auto
  have rf: "ramdisk_get_file_node ?km (rd_start d) (rd_end d) s = ret ((a, d), ?s1)"
  proof -
    have "Ramdisk_file_node_new (rd_start d) (rd_end d) = d" by (subst (3) P(4)) (simp add: P(4) Ramdisk_file_node_new_def)
    then show ?thesis using p1(1) by (simp add: ramdisk_get_file_node_def p_def del: kmalloc_at.simps)
  qed
  have run: "test_elf ?km img ptr s = ret ?s"
  proof -
    have "mods_count (load_Multiboot_info ptr (kmem p)) \<noteq> 0" using rd(1) P(1) by simp
    then show ?thesis using rd(2,3) rf s2(1) p3(1) sw unfolding test_elf_def Let_def p_def
      by (auto simp: kassert_def simp del: kmalloc_at.simps split: prod.splits)
  qed
  have cpu: "r_eip c = e_entry hdr" "r_esp c = 0xC0000FFC" "r_cs c = 0x1B" "r_ss c = 0x23" "bit (r_eflags c) 9"
    using user_mode_state [of "e_entry hdr" "0xC0000FFC" "s2\<lparr>pg := p3\<rparr>"] sw by (auto simp: FLAG_IF_def bit_simps bit_numeral_rec)
  have seg: "user_at k1 a p3" if "p_vaddr h \<le> a \<and> a < p_vaddr h + p_memsz h" for a
    using s2(3) p3(4) that by (simp add: segment_mapped_def extends_def)
  have stk: "user_at k1 a p3" if "a AND 0xFFFFF000 = 0xC0000000" for a
    using p3(3) user_at_mask [of k1 a p3] unfolding that by simp
  have "kmem p3 (p_vaddr h + of_nat i) = kmem ?p0 (rd_start d + of_nat (unat (p_offset h) + i))" if "i < unat (p_memsz h)" for i
  proof -
    have "p_vaddr h + of_nat i \<in> bytes_at (p_vaddr h) (unat (p_memsz h))" using that by (rule in_bytes_at)
    then have "unat (p_vaddr h + of_nat i) < 0xEFC00000" using P(20) by (simp add: bytes_at_unat)
    then have "kmem p3 (p_vaddr h + of_nat i) = kmem (pg s2) (p_vaddr h + of_nat i)" using p3(4) by (simp add: extends_def same_low_def)
    then show ?thesis using s2(5) rd1(6) [of "unat (p_offset h) + i"] that P(16) by simp
  qed
  then have "program_starts d hdr h (kmem ?p0) ?s" using cpu seg stk user_at_lookup [of k1 _ p3] by (auto simp: program_starts_def)
  moreover have "tasks_ok ?s [current_task ?s] [] []" "pid (tasks ?s (current_task ?s)) = pid_next (k_task k0)" "pid_next ?s = pid_next (k_task k0) + 1"
    using r(1-3) by (subst s2(2), simp)+
  moreover have "\<exists>F A M R. heap_inv (pg ?s) F A \<and> heap_tables (pg ?s) \<and> page_inv M (R, pg ?s)" using pagedD(1,3,4) [OF p3(2)] by auto
  ultimately show ?thesis using run unfolding s_def by blast
qed

text \<open>
  C5: From the boot loader into the user program. When a multiboot loader enters \<^verbatim>\<open>kmain\<close> on a machine with enough memory, with no static object
  of the kernel constructed yet and an executable of one segment as the first boot module, \<^verbatim>\<open>kmain\<close> never panics or loops: it ends in user mode at the entry address of the program, in the
  segments of level 3 with interrupts on, on a stack page of its own; every byte of the segment is the module's, at the address the
  program header names, in pages user mode may write, for which the page tables were made on the way; and
  the kernel is in order: one task, process 0 if no identifier was given out before, and the invariants of the heap and of the frames.
\<close>

theorem kmain_starts_program:
  assumes "boot_ok ptr es x (pg (k_task k))" "task_image c (k_task k)" "schedule_ra img \<noteq> 0xFFFFFFFF" "ctors_linked img"
    and "program_module img ptr d hdr h (pg (k_task k))"
  shows "\<exists>k'. kmain fp (kmalloc_at (Suc n)) img ptr 0x2BADB002 k = ret (User_mode, k') \<and>
    program_starts d hdr h (kmem (pg (k_task k))) (k_task k') \<and> tasks_ok (k_task k') [current_task (k_task k')] [] [] \<and>
    (pid_next (k_task k) = 0 \<longrightarrow> alone_ok (k_task k') (current_task (k_task k'))) \<and>
    (\<exists>F A M R. heap_inv (pg (k_task k')) F A \<and> heap_tables (pg (k_task k')) \<and> page_inv M (R, pg (k_task k')))"
proof -
  from kmain_up [OF assms(1-4), of fp n] obtain k1 where
    k1: "kmain fp (kmalloc_at (Suc n)) img ptr 0x2BADB002 k = andThen (with_task (test_elf (kmalloc_at (Suc n)) img ptr) k1) (\<lambda>k'. ret (User_mode, k'))"
      "room_ready ptr k k1" by blast
  from test_elf_starts [OF assms(5) k1(2), of n] obtain s where
    s: "test_elf (kmalloc_at (Suc n)) img ptr (k_task k1) = ret s" "program_starts d hdr h (kmem (pg (k_task k))) s"
      "tasks_ok s [current_task s] [] []" "pid (tasks s (current_task s)) = pid_next (k_task k)" "pid_next s = pid_next (k_task k) + 1"
      "\<exists>F A M R. heap_inv (pg s) F A \<and> heap_tables (pg s) \<and> page_inv M (R, pg s)" by blast
  have "kmain fp (kmalloc_at (Suc n)) img ptr 0x2BADB002 k = ret (User_mode, k1\<lparr>k_task := s\<rparr>)"
    using k1(1) s(1) by (simp add: with_task_def del: kmalloc_at.simps)
  moreover have "pid_next (k_task k) = 0 \<longrightarrow> alone_ok s (current_task s)" using s(3-5) by (simp add: alone_ok_def)
  ultimately show ?thesis using s(2,3,6) by (intro exI [of _ "k1\<lparr>k_task := s\<rparr>"]) simp
qed

section \<open>A concrete boot\<close>

text \<open>
  The machine of \<open>boot_state\<close> with one module: an executable of 88 bytes at \<open>0xA000\<close>, with one segment of four bytes at 32 MB.
\<close>

definition program_elf :: "u8 list" where
  "program_elf = tiny_elf[26 := 0, 27 := 2, 62 := 0, 63 := 2]"

definition program_bytes :: memory where
  "program_bytes a = (if 0xA000 \<le> a \<and> a < 0xA058 then program_elf ! unat (a - 0xA000)
     else (boot_bytes(0x8014 := 1, 0x8019 := 0x91, 0x9101 := 0xA0, 0x9104 := 0x58, 0x9105 := 0xA0)) a)"

definition program_disk :: Ramdisk_file_node where
  "program_disk = Ramdisk_file_node_new 0xA000 0xA058"

lemma program_bytes_at:
  "load32 0x8000 program_bytes = 0x40" "load32 0x8014 program_bytes = 1" "load32 0x8018 program_bytes = 0x9100" "load32 0x802C program_bytes = 24"
  "load32 0x8030 program_bytes = 0x9000" "load32 0x9100 program_bytes = 0xA000" "load32 0x9104 program_bytes = 0xA058"
  "load_mmap_entry 0x9000 program_bytes = boot_region"
proof -
  have z: "boot_bytes 0x8015 = 0" "boot_bytes 0x8016 = 0" "boot_bytes 0x8017 = 0" "boot_bytes 0x8018 = 0" "boot_bytes 0x801A = 0" "boot_bytes 0x801B = 0"
    "boot_bytes 0x9100 = 0" "boot_bytes 0x9102 = 0" "boot_bytes 0x9103 = 0" "boot_bytes 0x9106 = 0" "boot_bytes 0x9107 = 0"
    by (simp_all add: boot_bytes_def store32_def)
  show "load32 0x8014 program_bytes = 1" "load32 0x8018 program_bytes = 0x9100" "load32 0x9100 program_bytes = 0xA000" "load32 0x9104 program_bytes = 0xA058"
    by (simp_all add: load32_def program_bytes_def z)
  have "load32 0x8000 program_bytes = load32 0x8000 boot_bytes" "load32 0x802C program_bytes = load32 0x802C boot_bytes"
    "load32 0x8030 program_bytes = load32 0x8030 boot_bytes" by (simp_all add: load32_def program_bytes_def)
  then show "load32 0x8000 program_bytes = 0x40" "load32 0x802C program_bytes = 24" "load32 0x8030 program_bytes = 0x9000"
    by (simp_all add: boot_bytes_load)
  have "load_mmap_entry 0x9000 program_bytes = load_mmap_entry 0x9000 boot_bytes"
    by (simp add: load_mmap_entry_def load64_def load32_def program_bytes_def)
  then show "load_mmap_entry 0x9000 program_bytes = boot_region" by (simp add: boot_bytes_load)
qed

lemma program_header:
  "load_Ehdr 0xA000 program_bytes = \<lparr>e_ident = [0x7f, 0x45, 0x4c, 0x46, 1, 1, 1, 0, 0, 0, 0, 0, 0, 0, 0, 0],
     e_type = 2, e_machine = 3, e_version = 1, e_entry = 0x2000000, e_phoff = 52, e_shoff = 0, e_flags = 0, e_ehsize = 52,
     e_phentsize = 32, e_phnum = 1, e_shentsize = 0, e_shnum = 0, e_shstrndx = 0\<rparr>"
  by (simp add: load_Ehdr_def load32_def load16_def program_bytes_def program_elf_def tiny_elf_def EI_NIDENT_def upt_rec)

lemma program_segment:
  "load_Phdr 0xA034 program_bytes = \<lparr>p_type = 1, p_offset = 84, p_vaddr = 0x2000000, p_paddr = 0, p_filesz = 4, p_memsz = 4, p_flags = 0, p_align = 0\<rparr>"
  by (simp add: load_Phdr_def load32_def program_bytes_def program_elf_def tiny_elf_def)

definition program_state :: page_state where
  "program_state = boot_state\<lparr>kmem := program_bytes\<rparr>"

lemma program_info:
  "mb_flags (load_Multiboot_info 0x8000 program_bytes) = 0x40" "mods_count (load_Multiboot_info 0x8000 program_bytes) = 1"
  "mods_addr (load_Multiboot_info 0x8000 program_bytes) = 0x9100" "mmap_length (load_Multiboot_info 0x8000 program_bytes) = 24"
  "mmap_addr (load_Multiboot_info 0x8000 program_bytes) = 0x9000"
  using program_bytes_at by (simp_all add: load_Multiboot_info_def)

lemma program_boot: "boot_end 0x8000 program_state = 0x200000" "boot_ok 0x8000 [boot_region] boot_region program_state"
proof -
  have m: "kmem program_state = program_bytes" "kheap_static_end program_state = 0x200000" "heap_image program_state = heap_image boot_state"
    by (simp_all add: program_state_def boot_state_def fresh_heap_def heap_image_def)
  show e: "boot_end 0x8000 program_state = 0x200000"
    using program_bytes_at(7) by (simp add: boot_end_def m program_info kheap_preserve_mem_def Let_def)
  have "boot_map program_bytes (load_Multiboot_info 0x8000 program_bytes) 0x200000 [boot_region] boot_region"
    by (rule boot_region_map) (simp_all add: program_info program_bytes_at)
  then show "boot_ok 0x8000 [boot_region] boot_region program_state"
    unfolding boot_ok_def e m using boot_state_image
    by (simp add: program_info MULTIBOOT_INFO_MEM_MAP_def) (simp add: program_state_def boot_state_def)
qed

definition program_boot_image :: "image \<Rightarrow> image" where
  "program_boot_image img = (linked_image img)\<lparr>elf_header_at := 0xFFFFE100, header_at := 0xFFFFE200\<rparr>"

lemma program_module_ok:
  "program_module (program_boot_image img) 0x8000 program_disk (load_Ehdr 0xA000 program_bytes) (load_Phdr 0xA034 program_bytes) program_state"
proof -
  have m: "kmem program_state = program_bytes" by (simp add: program_state_def)
  have d: "rd_start program_disk = 0xA000" "rd_end program_disk = 0xA058" "rd_len program_disk = 88"
    by (simp_all add: program_disk_def Ramdisk_file_node_new_def rd_len_def)
  have "on_stack (bytes_at 0xFFFFE200 32 \<union> bytes_at 0xFFFFE100 52)" by (auto simp: on_stack_def bytes_at_unat)
  moreover have "is_header_valid (load_Ehdr 0xA000 program_bytes)" unfolding program_header by (simp add: is_header_valid_def elf_consts)
  ultimately show ?thesis unfolding program_module_def Let_def m program_boot(1) d
    by (simp add: program_info program_bytes_at program_header program_segment program_disk_def program_boot_image_def PT_LOAD_def)
qed

theorem kmain_starts_program_witness:
  "\<forall>(fp :: nat fpu) img k. \<exists>k'.
    kmain fp (kmalloc_at 1) (program_boot_image img) 0x8000 0x2BADB002 (k\<lparr>k_task := loaded_tasks\<lparr>pg := program_state, pid_next := 0\<rparr>\<rparr>) = ret (User_mode, k') \<and>
    r_eip (cpu (k_task k')) = 0x2000000 \<and> kmem (pg (k_task k')) 0x2000000 = 0xde \<and> kmem (pg (k_task k')) 0x2000003 = 0xef \<and>
    alone_ok (k_task k') (current_task (k_task k'))"
proof (intro allI)
  fix fp :: "nat fpu" and img :: image and k :: kernel
  let ?k = "k\<lparr>k_task := loaded_tasks\<lparr>pg := program_state, pid_next := 0\<rparr>\<rparr>" and ?img = "program_boot_image img"
  let ?hdr = "load_Ehdr 0xA000 program_bytes" and ?h = "load_Phdr 0xA034 program_bytes"
  have b: "boot_ok 0x8000 [boot_region] boot_region (pg (k_task ?k))" using program_boot(2) by simp
  have t: "task_image 4 (k_task ?k)" using loaded_tasks_image [of program_state] by (simp add: task_image_def)
  have i: "schedule_ra ?img \<noteq> 0xFFFFFFFF" by (simp add: program_boot_image_def linked_image_def)
  have c: "ctors_linked ?img" using linked_image_ctors [of img] by (simp add: ctors_linked_def program_boot_image_def)
  have m: "program_module ?img 0x8000 program_disk ?hdr ?h (pg (k_task ?k))" using program_module_ok by simp
  from kmain_starts_program [OF b t i c m, of fp 0] obtain k' where
    k': "kmain fp (kmalloc_at (Suc 0)) ?img 0x8000 0x2BADB002 ?k = ret (User_mode, k')"
      "program_starts program_disk ?hdr ?h (kmem (pg (k_task ?k))) (k_task k')" "pid_next (k_task ?k) = 0 \<longrightarrow> alone_ok (k_task k') (current_task (k_task k'))"
    by blast
  have sg: "p_memsz ?h = 4" "p_vaddr ?h = 0x2000000" "p_offset ?h = 84" "e_entry ?hdr = 0x2000000" unfolding program_segment program_header by simp_all
  have at: "rd_start program_disk = 0xA000" "kmem (pg (k_task ?k)) = program_bytes" by (simp_all add: program_disk_def Ramdisk_file_node_new_def program_state_def)
  have byte: "kmem (pg (k_task k')) (0x2000000 + of_nat j) = program_bytes (0xA000 + of_nat (84 + j))" if "j < 4" for j
    using k'(2) that unfolding program_starts_def sg at by simp
  have "program_bytes 0xA054 = 0xde" "program_bytes 0xA057 = 0xef" by (simp_all add: program_bytes_def program_elf_def tiny_elf_def)
  then have "kmem (pg (k_task k')) 0x2000000 = 0xde" "kmem (pg (k_task k')) 0x2000003 = 0xef" using byte [of 0] byte [of 3] by simp_all
  moreover have "r_eip (cpu (k_task k')) = 0x2000000" using k'(2) unfolding program_starts_def sg by blast
  ultimately show "\<exists>k'. kmain fp (kmalloc_at 1) ?img 0x8000 0x2BADB002 ?k = ret (User_mode, k') \<and>
      r_eip (cpu (k_task k')) = 0x2000000 \<and> kmem (pg (k_task k')) 0x2000000 = 0xde \<and> kmem (pg (k_task k')) 0x2000003 = 0xef \<and>
      alone_ok (k_task k') (current_task (k_task k'))"
    using k'(1,3) unfolding One_nat_def by auto
qed

end
